(* ===== verification/Prelude.thy ===== *)
theory Prelude
  imports Main "HOL-Library.AList" "HOL-Library.Char_ord" "HOL-Library.List_Lexorder"
    "HOL-Library.Product_Lexorder"
begin

text \<open>
  Shared vocabulary of the development: Go's 64-bit integers and strings as the program uses
  them, association lists for Go maps, and the interfaces (\<open>stepper\<close>,
  \<open>guarded_stepper\<close>, \<open>bounded_stepper\<close>, \<open>history_stepper\<close>) under which the components state
  what every run of their operations keeps.
\<close>

named_theorems go_simps \<open>evaluation rules of the Go vocabulary\<close>

section \<open>Integers\<close>

text \<open>
  Go's \<open>int64\<close> (and \<open>int\<close> on the 64-bit targets the program is built for) wraps around:
  an arithmetic result \<open>x\<close> is stored as \<open>i64 x\<close>, its two's complement reading.
\<close>

definition i64 :: "int \<Rightarrow> int" where
  "i64 x = signed_take_bit 63 x"

abbreviation max_int64 :: int where
  "max_int64 \<equiv> 9223372036854775807"

abbreviation min_int64 :: int where
  "min_int64 \<equiv> - 9223372036854775808"

lemma i64_id [go_simps]: "min_int64 \<le> x \<Longrightarrow> x \<le> max_int64 \<Longrightarrow> i64 x = x"
  unfolding i64_def by (rule signed_take_bit_int_eq_self) simp_all

lemma i64_range: "min_int64 \<le> i64 x \<and> i64 x \<le> max_int64"
proof -
  have "- (2 ^ 63) \<le> signed_take_bit 63 x" "signed_take_bit 63 x < 2 ^ 63"
    by (rule signed_take_bit_int_greater_eq_minus_exp, rule signed_take_bit_int_less_exp)
  then show ?thesis by (simp add: i64_def)
qed

text \<open>Go's integer division truncates towards zero.\<close>

definition go_div :: "int \<Rightarrow> int \<Rightarrow> int" where
  "go_div a b = sgn a * sgn b * (\<bar>a\<bar> div \<bar>b\<bar>)"

definition go_mod :: "int \<Rightarrow> int \<Rightarrow> int" where
  "go_mod a b = a - b * go_div a b"

lemma go_div_nonneg [go_simps]: "0 \<le> a \<Longrightarrow> 0 < b \<Longrightarrow> go_div a b = a div b"
  by (cases "a = 0") (simp_all add: go_div_def)

lemma go_mod_nonneg [go_simps]: "0 \<le> a \<Longrightarrow> 0 < b \<Longrightarrow> go_mod a b = a mod b"
  by (simp add: go_mod_def go_div_nonneg minus_mult_div_eq_mod)

section \<open>Time\<close>

text \<open>
  A \<open>time.Time\<close> is the number of nanoseconds since its zero value (January 1, year 1, UTC), so
  that \<open>IsZero\<close> is \<open>t = 0\<close>, \<open>Before\<close> is \<open>(<)\<close>, \<open>After\<close> is \<open>(>)\<close> and
  \<open>Add\<close> and \<open>Sub\<close> are \<open>(+)\<close> and \<open>(-)\<close>. A \<open>time.Duration\<close> is a number of nanoseconds.
\<close>

type_synonym go_time = int
type_synonym go_duration = int

abbreviation second :: go_duration where "second \<equiv> 1000000000"
abbreviation minute :: go_duration where "minute \<equiv> 60 * second"
abbreviation hour :: go_duration where "hour \<equiv> 60 * minute"

section \<open>Strings\<close>

text \<open>
  A Go string is its sequence of bytes; \<open>string\<close> (a \<open>char list\<close>) is the same thing, and
  \<open>len\<close> is \<open>length\<close>. The order on strings is the bytewise lexicographic one, as in Go.
\<close>

abbreviation code :: "char \<Rightarrow> nat" where
  "code c \<equiv> of_char c"

text \<open>
  \<open>strings.TrimSpace\<close> removes white space in the sense of \<open>unicode.IsSpace\<close>: six ASCII
  characters, and the UTF-8 encodings of U+0085, U+00A0, U+1680, U+2000..U+200A, U+2028, U+2029,
  U+202F, U+205F and U+3000. The width is the number of bytes of the white space character at the
  front of the string, 0 if there is none.
\<close>

definition ascii_space :: "char \<Rightarrow> bool" where
  "ascii_space c \<longleftrightarrow> code c \<in> {9, 10, 11, 12, 13, 32 :: nat}"

definition wide_space2 :: "nat list \<Rightarrow> bool" where
  "wide_space2 bs \<longleftrightarrow> bs \<in> {[0xC2, 0x85], [0xC2, 0xA0]}"

fun wide_space3 :: "nat list \<Rightarrow> bool" where
  "wide_space3 [a, b, c] \<longleftrightarrow>
     (a = 0xE1 \<and> b = 0x9A \<and> c = 0x80) \<or>
     (a = 0xE2 \<and> b = 0x80 \<and> (0x80 \<le> c \<and> c \<le> 0x8A \<or> c \<in> {0xA8, 0xA9, 0xAF})) \<or>
     (a = 0xE2 \<and> b = 0x81 \<and> c = 0x9F) \<or>
     (a = 0xE3 \<and> b = 0x80 \<and> c = 0x80)"
| "wide_space3 _ \<longleftrightarrow> False"

definition space_width :: "string \<Rightarrow> nat" where
  "space_width s =
     (case s of [] \<Rightarrow> 0
      | c # _ \<Rightarrow>
          if ascii_space c then 1
          else if wide_space2 (map code (take 2 s)) then 2
          else if wide_space3 (map code (take 3 s)) then 3
          else 0)"

definition last_space_width :: "string \<Rightarrow> nat" where
  "last_space_width s =
     (if s = [] then 0
      else if ascii_space (last s) then 1
      else if wide_space2 (map code (drop (length s - 2) s)) then 2
      else if wide_space3 (map code (drop (length s - 3) s)) then 3
      else 0)"

lemma space_width_Nil [simp]: "space_width [] = 0"
  by (simp add: space_width_def)

lemma last_space_width_Nil [simp]: "last_space_width [] = 0"
  by (simp add: last_space_width_def)

function trim_left_space :: "string \<Rightarrow> string" where
  "trim_left_space s =
     (if space_width s = 0 then s else trim_left_space (drop (space_width s) s))"
  by pat_completeness auto
termination
proof (relation "measure length")
  fix s :: string
  assume "space_width s \<noteq> 0"
  then have "s \<noteq> []" by auto
  with \<open>space_width s \<noteq> 0\<close> show "(drop (space_width s) s, s) \<in> measure length" by simp
qed simp

function trim_right_space :: "string \<Rightarrow> string" where
  "trim_right_space s =
     (if last_space_width s = 0 then s
      else trim_right_space (take (length s - last_space_width s) s))"
  by pat_completeness auto
termination
proof (relation "measure length")
  fix s :: string
  assume "last_space_width s \<noteq> 0"
  then have "s \<noteq> []" by auto
  with \<open>last_space_width s \<noteq> 0\<close>
  show "(take (length s - last_space_width s) s, s) \<in> measure length" by simp
qed simp

declare trim_left_space.simps [simp del] trim_right_space.simps [simp del]

definition trim_space :: "string \<Rightarrow> string" where
  "trim_space s = trim_right_space (trim_left_space s)"

lemma trim_left_space_fix: "space_width s = 0 \<Longrightarrow> trim_left_space s = s"
  by (subst trim_left_space.simps) simp

lemma trim_right_space_fix: "last_space_width s = 0 \<Longrightarrow> trim_right_space s = s"
  by (subst trim_right_space.simps) simp

lemma trim_space_Nil [simp, go_simps]: "trim_space [] = []"
  by (simp add: trim_space_def trim_left_space_fix trim_right_space_fix)

lemma length_trim_left_space: "length (trim_left_space s) \<le> length s"
proof (induction s rule: trim_left_space.induct)
  case (1 s)
  show ?case
  proof (cases "space_width s = 0")
    case True
    then show ?thesis by (simp add: trim_left_space_fix)
  next
    case False
    with "1.IH" have "length (trim_left_space (drop (space_width s) s)) \<le> length s" by simp
    with False show ?thesis by (subst trim_left_space.simps) simp
  qed
qed

lemma last_space_width_trim_right: "last_space_width (trim_right_space s) = 0"
proof (induction s rule: trim_right_space.induct)
  case (1 s)
  then show ?case by (cases "last_space_width s = 0") (subst trim_right_space.simps, simp)+
qed

text \<open>Bytes below 128 that are not white space: a string of such bytes is its own trimming.\<close>

definition ascii_graph :: "char \<Rightarrow> bool" where
  "ascii_graph c \<longleftrightarrow> 33 \<le> code c \<and> code c < (127 :: nat)"

lemma trim_space_graph:
  assumes "\<forall>c \<in> set s. ascii_graph c"
  shows "trim_space s = s"
proof -
  have s2: "\<not> wide_space2 (map code t)" if "set t \<subseteq> set s" for t
  proof
    assume "wide_space2 (map code t)"
    then obtain a b where "t = [a, b]" "code a = (194 :: nat)"
      by (auto simp: wide_space2_def map_eq_Cons_conv)
    with that assms show False by (auto simp: ascii_graph_def)
  qed
  have s3: "\<not> wide_space3 (map code t)" if "set t \<subseteq> set s" for t
  proof
    assume "wide_space3 (map code t)"
    then obtain a b c where "t = [a, b, c]" "code a = (225 :: nat) \<or> code a = (226 :: nat) \<or> code a = (227 :: nat)"
      by (auto simp: map_eq_Cons_conv elim!: wide_space3.elims)
    with that assms show False by (auto simp: ascii_graph_def)
  qed
  have a: "\<not> ascii_space c" if "c \<in> set s" for c
    using that assms by (auto simp: ascii_space_def ascii_graph_def)
  have "space_width s = 0"
  proof (cases s)
    case (Cons c t)
    note sub = s2 [OF set_take_subset, of 2] s3 [OF set_take_subset, of 3]
    from a [of c] sub Cons show ?thesis by (simp add: space_width_def del: take_Suc_Cons)
  qed simp
  moreover have "last_space_width s = 0"
  proof (cases "s = []")
    case False
    note sub = s2 [OF set_drop_subset, of "length s - 2"] s3 [OF set_drop_subset, of "length s - 3"]
    from a [of "last s"] sub False show ?thesis by (simp add: last_space_width_def)
  qed simp
  ultimately show ?thesis
    by (simp add: trim_space_def trim_left_space_fix trim_right_space_fix)
qed

text \<open>Trimming never removes a visible ASCII character.\<close>

lemma wide_space_bytes:
  "wide_space2 bs \<Longrightarrow> b \<in> set bs \<Longrightarrow> 127 < b" "wide_space3 bs \<Longrightarrow> b \<in> set bs \<Longrightarrow> 127 < b"
  by (auto simp: wide_space2_def elim!: wide_space3.elims)

lemma wide_not_graph:
  assumes "wide_space2 (map code s) \<or> wide_space3 (map code s)" "c \<in> set s"
  shows "\<not> ascii_graph c"
  using assms wide_space_bytes [of "map code s" "code c"] by (auto simp: ascii_graph_def)

lemma space_width_not_graph:
  assumes "c \<in> set (take (space_width s) s)" shows "\<not> ascii_graph c"
proof (cases s)
  case (Cons a t)
  show ?thesis
  proof (cases "ascii_space a")
    case True
    with Cons assms show ?thesis by (auto simp: space_width_def ascii_space_def ascii_graph_def)
  next
    case False
    with Cons assms wide_not_graph [of "take 2 s" c] wide_not_graph [of "take 3 s" c]
    show ?thesis by (auto simp: space_width_def simp del: take_Suc_Cons split: if_splits)
  qed
qed (use assms in simp)

lemma last_space_width_not_graph:
  assumes "c \<in> set (drop (length s - last_space_width s) s)" shows "\<not> ascii_graph c"
proof (cases "s = []")
  case False
  show ?thesis
  proof (cases "ascii_space (last s)")
    case True
    have "drop (length s - 1) s = [last s]" using False by (cases s rule: rev_cases) simp_all
    with True False assms show ?thesis
      by (auto simp: last_space_width_def ascii_space_def ascii_graph_def)
  next
    case nf: False
    with False assms wide_not_graph [of "drop (length s - 2) s" c] wide_not_graph [of "drop (length s - 3) s" c]
    show ?thesis by (auto simp: last_space_width_def split: if_splits)
  qed
qed (use assms in simp)

lemma trim_left_keeps_graph: "c \<in> set s \<Longrightarrow> ascii_graph c \<Longrightarrow> c \<in> set (trim_left_space s)"
proof (induction s rule: trim_left_space.induct)
  case (1 s)
  show ?case
  proof (cases "space_width s = 0")
    case False
    have "c \<in> set (take (space_width s) s @ drop (space_width s) s)" using "1.prems"(1) by simp
    then have "c \<in> set (drop (space_width s) s)"
      using space_width_not_graph "1.prems"(2) by (metis Un_iff set_append)
    with "1.IH" False "1.prems"(2) show ?thesis by (subst trim_left_space.simps) simp
  qed (use "1.prems" in \<open>simp add: trim_left_space_fix\<close>)
qed

lemma trim_right_keeps_graph: "c \<in> set s \<Longrightarrow> ascii_graph c \<Longrightarrow> c \<in> set (trim_right_space s)"
proof (induction s rule: trim_right_space.induct)
  case (1 s)
  let ?n = "length s - last_space_width s"
  show ?case
  proof (cases "last_space_width s = 0")
    case False
    have "c \<in> set (take ?n s @ drop ?n s)" using "1.prems"(1) by simp
    then have "c \<in> set (take ?n s)"
      using last_space_width_not_graph "1.prems"(2) by (metis Un_iff set_append)
    with "1.IH" False "1.prems"(2) show ?thesis by (subst trim_right_space.simps) simp
  qed (use "1.prems" in \<open>simp add: trim_right_space_fix\<close>)
qed

lemma trim_space_keeps_graph: "c \<in> set s \<Longrightarrow> ascii_graph c \<Longrightarrow> c \<in> set (trim_space s)"
  by (simp add: trim_space_def trim_left_keeps_graph trim_right_keeps_graph)

text \<open>Trimming a trimmed string changes nothing.\<close>

lemma space_width_trim_left: "space_width (trim_left_space s) = 0"
proof (induction s rule: trim_left_space.induct)
  case (1 s)
  then show ?case by (cases "space_width s = 0") (subst trim_left_space.simps, simp)+
qed

lemma wide_space_length: "wide_space2 bs \<Longrightarrow> length bs = 2" "wide_space3 bs \<Longrightarrow> length bs = 3"
  by (auto simp: wide_space2_def elim!: wide_space3.elims)

lemma space_width_take:
  assumes "space_width s = 0"
  shows "space_width (take n s) = 0"
proof (cases "take n s")
  case (Cons c t)
  then obtain u where s: "s = c # u" and n: "n \<noteq> 0" by (cases s; cases n) auto
  have z: "\<not> ascii_space c" "\<not> wide_space2 (map code (take 2 s))" "\<not> wide_space3 (map code (take 3 s))"
    using assms s by (auto simp: space_width_def simp del: take_Suc_Cons split: if_splits)
  have "\<not> wide_space2 (map code (take 2 (take n s)))"
  proof (cases "2 \<le> n")
    case False
    then show ?thesis using wide_space_length(1) [of "map code (take 2 (take n s))"] by auto
  qed (use z(2) in \<open>simp add: min_absorb1\<close>)
  moreover have "\<not> wide_space3 (map code (take 3 (take n s)))"
  proof (cases "3 \<le> n")
    case False
    then show ?thesis using wide_space_length(2) [of "map code (take 3 (take n s))"] by auto
  qed (use z(3) in \<open>simp add: min_absorb1\<close>)
  ultimately show ?thesis using z(1) Cons by (simp add: space_width_def del: take_take)
qed auto

lemma trim_right_take: "\<exists>n. trim_right_space s = take n s"
proof (induction s rule: trim_right_space.induct)
  case (1 s)
  show ?case
  proof (cases "last_space_width s = 0")
    case True
    then show ?thesis by (intro exI [of _ "length s"]) (simp add: trim_right_space_fix)
  next
    case False
    with 1 obtain n where "trim_right_space (take (length s - last_space_width s) s) =
        take n (take (length s - last_space_width s) s)" by blast
    with False show ?thesis by (subst trim_right_space.simps) auto
  qed
qed

lemma trim_space_idem [simp]: "trim_space (trim_space s) = trim_space s"
proof -
  obtain n where n: "trim_space s = take n (trim_left_space s)"
    using trim_right_take by (auto simp: trim_space_def)
  have "space_width (trim_space s) = 0"
    unfolding n by (rule space_width_take [OF space_width_trim_left])
  then show ?thesis
    by (simp add: trim_space_def [of "trim_space s"] trim_left_space_fix trim_right_space_fix)
      (simp add: trim_space_def last_space_width_trim_right trim_right_space_fix)
qed

text \<open>
  Case folding. \<open>strings.ToLower\<close>, \<open>strings.ToUpper\<close> and \<open>strings.EqualFold\<close> are modelled
  on ASCII letters, which is what the program folds: hexadecimal digests and fingerprints, header
  names, reserved device names. On ASCII operands the definitions are exact.
\<close>

definition lower_char :: "char \<Rightarrow> char" where
  "lower_char c = (if 65 \<le> code c \<and> code c \<le> (90 :: nat) then char_of (code c + 32 :: nat) else c)"

definition upper_char :: "char \<Rightarrow> char" where
  "upper_char c = (if 97 \<le> code c \<and> code c \<le> (122 :: nat) then char_of (code c - 32 :: nat) else c)"

definition to_lower :: "string \<Rightarrow> string" where
  "to_lower s = map lower_char s"

definition to_upper :: "string \<Rightarrow> string" where
  "to_upper s = map upper_char s"

definition equal_fold :: "string \<Rightarrow> string \<Rightarrow> bool" where
  "equal_fold a b \<longleftrightarrow> to_lower a = to_lower b"

lemma equal_fold_refl [simp]: "equal_fold s s"
  by (simp add: equal_fold_def)

lemma equal_fold_sym: "equal_fold a b \<Longrightarrow> equal_fold b a"
  by (simp add: equal_fold_def)

lemma equal_fold_trans: "equal_fold a b \<Longrightarrow> equal_fold b c \<Longrightarrow> equal_fold a c"
  by (simp add: equal_fold_def)

lemma length_to_lower [simp]: "length (to_lower s) = length s"
  by (simp add: to_lower_def)

lemma equal_fold_length: "equal_fold a b \<Longrightarrow> length a = length b"
  unfolding equal_fold_def by (metis length_to_lower)

text \<open>\<open>strings.HasPrefix\<close>, \<open>strings.Split\<close> on one byte, \<open>strings.ReplaceAll\<close> of one byte.\<close>

definition has_prefix :: "string \<Rightarrow> string \<Rightarrow> bool" where
  "has_prefix s p \<longleftrightarrow> take (length p) s = p"

fun split_on :: "char \<Rightarrow> string \<Rightarrow> string list" where
  "split_on d [] = [[]]"
| "split_on d (c # s) =
     (if c = d then [] # split_on d s
      else (case split_on d s of [] \<Rightarrow> [[c]] | w # ws \<Rightarrow> (c # w) # ws))"

definition replace_char :: "char \<Rightarrow> char \<Rightarrow> string \<Rightarrow> string" where
  "replace_char a b s = map (\<lambda>c. if c = a then b else c) s"

fun join_with :: "char \<Rightarrow> string list \<Rightarrow> string" where
  "join_with d [] = []"
| "join_with d [w] = w"
| "join_with d (w # ws) = w @ d # join_with d ws"

lemma split_on_nonempty [simp]: "split_on d s \<noteq> []"
  by (induction s) (auto split: list.splits)

lemma join_split [simp]: "join_with d (split_on d s) = s"
proof (induction s)
  case (Cons c s)
  obtain w ws where sp: "split_on d s = w # ws"
    by (cases "split_on d s") auto
  have "join_with d ((c # w) # ws) = c # join_with d (w # ws)"
    by (cases ws) auto
  with Cons sp show ?case by auto
qed simp

lemma split_on_no_sep: "w \<in> set (split_on d s) \<Longrightarrow> d \<notin> set w"
  by (induction s arbitrary: w) (auto split: list.splits if_splits)

lemma split_on_free: "d \<notin> set s \<Longrightarrow> split_on d s = [s]"
  by (induction s) auto

lemma split_on_chars: "w \<in> set (split_on d s) \<Longrightarrow> set w \<subseteq> set s"
  by (induction s arbitrary: w) (fastforce split: list.splits if_splits)+

lemma split_join:
  "ws \<noteq> [] \<Longrightarrow> \<forall>w \<in> set ws. d \<notin> set w \<Longrightarrow> split_on d (join_with d ws) = ws"
proof (induction d ws rule: join_with.induct)
  case (3 d w v vs)
  have aux: "split_on d (u @ d # t) = u # split_on d t" if "d \<notin> set u" for u t
    using that by (induction u) auto
  from 3 show ?case by (simp add: aux)
qed (auto simp: split_on_free)

text \<open>\<open>strings.TrimRight\<close>, \<open>strings.Trim\<close> and \<open>strings.Contains\<close>.\<close>

definition trim_right_chars :: "string \<Rightarrow> string \<Rightarrow> string" where
  "trim_right_chars cutset s = rev (dropWhile (\<lambda>c. c \<in> set cutset) (rev s))"

definition trim_chars :: "string \<Rightarrow> string \<Rightarrow> string" where
  "trim_chars cutset s = trim_right_chars cutset (dropWhile (\<lambda>c. c \<in> set cutset) s)"

fun contains_sub :: "string \<Rightarrow> string \<Rightarrow> bool" where
  "contains_sub [] p \<longleftrightarrow> p = []"
| "contains_sub (c # s) p \<longleftrightarrow> has_prefix (c # s) p \<or> contains_sub s p"

text \<open>\<open>strconv.Atoi\<close>: an optional sign and decimal digits, in the range of a 64-bit \<open>int\<close>.\<close>

definition digit_char :: "char \<Rightarrow> bool" where
  "digit_char c \<longleftrightarrow> CHR ''0'' \<le> c \<and> c \<le> CHR ''9''"

definition atoi :: "string \<Rightarrow> int option" where
  "atoi s =
     (let (neg, ds) = (case s of [] \<Rightarrow> (False, [])
            | c # r \<Rightarrow> if c = CHR ''-'' then (True, r) else if c = CHR ''+'' then (False, r) else (False, s))
      in if ds = [] \<or> \<not> list_all digit_char ds then None
         else
           let n = foldl (\<lambda>n c. n * 10 + (of_char c - 48)) 0 ds; v = (if neg then - n else n)
           in if min_int64 \<le> v \<and> v \<le> max_int64 then Some v else None)"

text \<open>
  \<open>strings.Fields\<close>: the maximal runs of bytes between white space characters; the first argument
  counts the remaining bytes of the white space character being passed.
\<close>

fun str_fields_from :: "nat \<Rightarrow> string \<Rightarrow> string \<Rightarrow> string list" where
  "str_fields_from k cur [] = (if cur = [] then [] else [rev cur])"
| "str_fields_from (Suc k) cur (c # s) = str_fields_from k cur s"
| "str_fields_from 0 cur (c # s) =
     (let w = space_width (c # s)
      in if w = 0 then str_fields_from 0 (c # cur) s
         else (if cur = [] then [] else [rev cur]) @ str_fields_from (w - 1) [] s)"

definition str_fields :: "string \<Rightarrow> string list" where
  "str_fields s = str_fields_from 0 [] s"

definition ident_char :: "char \<Rightarrow> bool" where
  "ident_char c \<longleftrightarrow>
     (CHR ''a'' \<le> c \<and> c \<le> CHR ''z'') \<or> (CHR ''A'' \<le> c \<and> c \<le> CHR ''Z'') \<or>
     (CHR ''0'' \<le> c \<and> c \<le> CHR ''9'') \<or> c = CHR ''-'' \<or> c = CHR ''_'' \<or> c = CHR ''.''"

definition control_char :: "char \<Rightarrow> bool" where
  "control_char c \<longleftrightarrow> code c < (0x20 :: nat) \<or> code c = (0x7f :: nat)"

lemma ident_char_graph: "ident_char c \<Longrightarrow> ascii_graph c"
  by (auto simp: ident_char_def ascii_graph_def less_eq_char_def)

lemma trim_space_ident: "\<forall>c \<in> set s. ident_char c \<Longrightarrow> trim_space s = s"
  by (simp add: ident_char_graph trim_space_graph)

text \<open>Hexadecimal digests: \<open>hex.DecodeString\<close> succeeds on an even number of hex digits.\<close>

definition hex_char :: "char \<Rightarrow> bool" where
  "hex_char c \<longleftrightarrow> (CHR ''0'' \<le> c \<and> c \<le> CHR ''9'') \<or> (CHR ''a'' \<le> c \<and> c \<le> CHR ''f'') \<or>
     (CHR ''A'' \<le> c \<and> c \<le> CHR ''F'')"

definition valid_sha256_hex :: "string \<Rightarrow> bool" where
  "valid_sha256_hex s \<longleftrightarrow> list_all hex_char s \<and> length s = 64"

section \<open>Association lists\<close>

text \<open>A Go map is an association list with distinct keys; its order stands for the map's iteration order.\<close>

abbreviation keys_distinct :: "('k \<times> 'v) list \<Rightarrow> bool" where
  "keys_distinct m \<equiv> distinct (map fst m)"

lemma length_alist_update:
  "length (AList.update k v m) = (if k \<in> fst ` set m then length m else Suc (length m))"
  by (induction m) auto

lemma keys_update: "fst ` set (AList.update k v m) = insert k (fst ` set m)"
  by (induction m) auto

lemma length_alist_delete_le: "length (AList.delete k m) \<le> length m"
  by (simp add: AList.delete_eq)

lemma map_of_eq_None_iff': "map_of m k = None \<longleftrightarrow> k \<notin> fst ` set m"
  by (rule map_of_eq_None_iff)

lemma alist_update_cases: "x \<in> set (AList.update k v m) \<Longrightarrow> x = (k, v) \<or> x \<in> set m"
  by (induction m) (auto split: if_splits)

lemma alist_update_keys: "fst ` set (AList.update k v m) \<subseteq> insert k (fst ` set m)"
  by (induction m) auto

lemma alist_update_new: "k \<notin> fst ` set m \<Longrightarrow> AList.update k v m = m @ [(k, v)]"
  by (induction m) auto

lemma alist_update_in: "keys_distinct m \<Longrightarrow> x \<in> set m \<Longrightarrow> fst x \<noteq> k \<Longrightarrow> x \<in> set (AList.update k v m)"
  by (induction m) auto

lemma alist_update_self: "(k, v) \<in> set (AList.update k v m)"
  by (induction m) auto

lemma fold_delete_filter:
  "fold (\<lambda>e. AList.delete (f e)) es m = filter (\<lambda>(k, v). k \<notin> f ` set es) m"
  by (induction es arbitrary: m) (auto simp: AList.delete_eq intro!: filter_cong)

lemma keys_distinct_filter: "keys_distinct m \<Longrightarrow> keys_distinct (filter P m)"
  by (simp add: distinct_map_filter)

text \<open>Removing \<open>j\<close> of the keys of a map leaves \<open>length m - j\<close> entries.\<close>

lemma length_filter_keys:
  assumes "keys_distinct m" "V \<subseteq> fst ` set m"
  shows "length (filter (\<lambda>(k, v). k \<notin> V) m) = length m - card V"
proof -
  let ?m = "filter (\<lambda>(k, v). k \<notin> V) m"
  have "fst ` set ?m = fst ` set m - V" by force
  then have "card (fst ` set ?m) = card (fst ` set m) - card V"
    using assms(2) by (simp add: card_Diff_subset finite_subset)
  moreover have "card (fst ` set m) = length m"
    using distinct_card [OF assms(1)] by simp
  moreover have "card (fst ` set ?m) = length ?m"
    using distinct_card [OF keys_distinct_filter [OF assms(1)]] by (metis length_map set_map)
  ultimately show ?thesis by metis
qed

text \<open>In a list sorted by \<open>f\<close>, a strictly greatest element is not among the first ones.\<close>

lemma sort_key_take_newest:
  fixes f :: "'a \<Rightarrow> 'b :: linorder"
  assumes "distinct xs" "j < length xs" "\<And>y. y \<in> set xs \<Longrightarrow> y \<noteq> x \<Longrightarrow> f y < f x"
  shows "x \<notin> set (take j (sort_key f xs))"
proof
  let ?s = "sort_key f xs"
  assume "x \<in> set (take j ?s)"
  then obtain i where i: "i < j" "?s ! i = x" by (auto simp: in_set_conv_nth)
  let ?l = "length xs - 1"
  have l: "i < ?l" "?l < length ?s" using i(1) assms(2) by simp_all
  have "map f ?s ! i \<le> map f ?s ! ?l"
    using l by (intro sorted_nth_mono sorted_sort_key) simp_all
  then have "f x \<le> f (?s ! ?l)" using l i(2) by simp
  moreover have "?s ! ?l \<in> set xs" using l(2) by (metis nth_mem set_sort)
  ultimately have "?s ! ?l = x" using assms(3) by (meson leD)
  then have "?s ! ?l = ?s ! i" using i(2) by simp
  moreover have "distinct ?s" using assms(1) by simp
  ultimately show False using l by (simp add: nth_eq_iff_index_eq)
qed

section \<open>Interfaces shared by the components\<close>

text \<open>
  A component with an operation per event and an invariant every operation keeps. The runs of the
  component are folds of its step over a list of events.
\<close>

locale stepper =
  fixes step :: "'s \<Rightarrow> 'e \<Rightarrow> 's"
    and inv :: "'s \<Rightarrow> bool"
  assumes step_inv: "inv s \<Longrightarrow> inv (step s e)"
begin

lemma run_inv: "inv s \<Longrightarrow> inv (foldl step s es)"
  by (induction es arbitrary: s) (simp_all add: step_inv)

end

text \<open>
  A component whose invariant is kept by the events its environment is allowed to produce.
\<close>

locale guarded_stepper =
  fixes step :: "'s \<Rightarrow> 'e \<Rightarrow> 's"
    and allowed :: "'e \<Rightarrow> bool"
    and inv :: "'s \<Rightarrow> bool"
  assumes allowed_step_inv: "inv s \<Longrightarrow> allowed e \<Longrightarrow> inv (step s e)"
begin

lemma allowed_run_inv: "inv s \<Longrightarrow> list_all allowed es \<Longrightarrow> inv (foldl step s es)"
  by (induction es arbitrary: s) (simp_all add: allowed_step_inv)

end

sublocale stepper \<subseteq> guarded_stepper step "\<lambda>_. True" inv
  by unfold_locales (rule step_inv)

text \<open>A stepper whose invariant bounds a resource by a capacity no operation changes.\<close>

locale bounded_stepper = stepper +
  fixes used :: "'s \<Rightarrow> int"
    and cap :: "'s \<Rightarrow> int"
  assumes inv_used: "inv s \<Longrightarrow> 0 < cap s \<Longrightarrow> used s \<le> cap s"
    and step_cap: "cap (step s e) = cap s"
begin

lemma run_cap: "cap (foldl step s es) = cap s"
  by (induction es arbitrary: s) (simp_all add: step_cap)

lemma run_used: "inv s \<Longrightarrow> 0 < cap s \<Longrightarrow> used (foldl step s es) \<le> cap s"
  using inv_used [OF run_inv] by (simp add: run_cap)

end

text \<open>A component whose invariant speaks of the events so far.\<close>

locale history_stepper =
  fixes step :: "'s \<Rightarrow> 'e \<Rightarrow> 's"
    and hist :: "'e list \<Rightarrow> 's \<Rightarrow> bool"
  assumes history_step: "hist es s \<Longrightarrow> hist (es @ [e]) (step s e)"
begin

lemma history_run: "hist [] s \<Longrightarrow> hist es (foldl step s es)"
  by (induction es rule: rev_induct) (simp_all add: history_step)

end

end
