(* ===== verification/Drop_Types.thy ===== *)
theory Drop_Types
  imports Prelude
begin

text \<open>
  The QuickDrop vocabulary (internal/drop/types.go): limits, the transfer metadata a sender
  announces, and its validation at acknowledgement (\<open>validateDropMetadata\<close> of
  internal/drop/receiver.go and \<open>ValidTombstoneKey\<close> of internal/drop/tombstone.go).
\<close>

section \<open>Limits and metadata\<close>

definition max_chunk_size :: int where "max_chunk_size = 2 * 1024 * 1024"
definition max_drop_id_length :: nat where "max_drop_id_length = 128"
definition max_drop_name_length :: nat where "max_drop_name_length = 4096"
definition max_mime_type_length :: nat where "max_mime_type_length = 255"
definition max_rel_path_length :: nat where "max_rel_path_length = 1024"
definition max_rel_path_depth :: nat where "max_rel_path_depth = 24"
definition default_chunk_size :: int where "default_chunk_size = 1048576"

lemmas drop_limits = max_chunk_size_def max_drop_id_length_def max_drop_name_length_def
  max_mime_type_length_def max_rel_path_length_def max_rel_path_depth_def default_chunk_size_def

text \<open>\<open>DropKind\<close> is a string type with two named values; any other string can arrive on the wire.\<close>

definition kind_text :: string where "kind_text = ''text''"
definition kind_file :: string where "kind_file = ''file''"

record drop_send =
  ds_drop_id :: string
  ds_kind :: string
  ds_name :: string
  ds_size :: int
  ds_mime_type :: string
  ds_chunk_size :: int
  ds_head_hash :: string
  ds_idempotency_key :: string
  ds_rel_path :: string
  ds_attempt_id :: string

section \<open>Validation\<close>

datatype meta_error =
    DropIdRequired | DropIdTooLong | DropIdBadChar | DropIdPathSegment | DropIdReserved
  | BadIdempotencyKey | UnsupportedKind string | NegativeSize | BadChunkSize int
  | NameTooLong | NameControlChar | MimeTooLong | MimeControlChar | BadHeadHash
  | RelPathTooLong | RelPathAbsolute | RelPathDrive | RelPathControlChar | RelPathTooDeep
  | RelPathBadSegment

definition valid_tombstone_key :: "string \<Rightarrow> bool" where
  "valid_tombstone_key s \<longleftrightarrow>
     \<not> (length s = 0 \<or> max_drop_id_length < length s) \<and> list_all ident_char s"

definition reserved_device_names :: "string list" where
  "reserved_device_names =
     [''CON'', ''PRN'', ''AUX'', ''NUL'',
      ''COM1'', ''COM2'', ''COM3'', ''COM4'', ''COM5'', ''COM6'', ''COM7'', ''COM8'', ''COM9'',
      ''LPT1'', ''LPT2'', ''LPT3'', ''LPT4'', ''LPT5'', ''LPT6'', ''LPT7'', ''LPT8'', ''LPT9'']"

text \<open>The part of a name before its first dot (the whole name if it has none).\<close>

definition base_name :: "string \<Rightarrow> string" where
  "base_name s = takeWhile (\<lambda>c. c \<noteq> CHR ''.'') s"

definition bad_segment :: "string \<Rightarrow> bool" where
  "bad_segment seg \<longleftrightarrow> seg = '''' \<or> seg = ''.'' \<or> seg = ''..''"

abbreviation backslash :: char where
  "backslash \<equiv> CHR 0x5C"

definition validate_rel_path :: "string \<Rightarrow> meta_error option" where
  "validate_rel_path rel =
     (if max_rel_path_length < length rel then Some RelPathTooLong
      else if has_prefix rel ''/'' \<or> has_prefix rel [backslash] then Some RelPathAbsolute
      else if 2 \<le> length rel \<and> rel ! 1 = CHR '':'' then Some RelPathDrive
      else if list_ex control_char rel then Some RelPathControlChar
      else
        let segments = split_on (CHR ''/'') (replace_char backslash (CHR ''/'') rel)
        in if max_rel_path_depth < length segments then Some RelPathTooDeep
           else if list_ex bad_segment segments then Some RelPathBadSegment
           else None)"

definition validate_drop_metadata :: "drop_send \<Rightarrow> meta_error option" where
  "validate_drop_metadata meta =
     (if trim_space (ds_drop_id meta) = '''' then Some DropIdRequired
      else if max_drop_id_length < length (ds_drop_id meta) then Some DropIdTooLong
      else if \<not> list_all ident_char (ds_drop_id meta) then Some DropIdBadChar
      else if ds_drop_id meta = ''.'' \<or> ds_drop_id meta = ''..'' then Some DropIdPathSegment
      else if List.member reserved_device_names (to_upper (base_name (ds_drop_id meta)))
        then Some DropIdReserved
      else if ds_idempotency_key meta \<noteq> '''' \<and> \<not> valid_tombstone_key (ds_idempotency_key meta)
        then Some BadIdempotencyKey
      else if ds_kind meta \<noteq> kind_text \<and> ds_kind meta \<noteq> kind_file
        then Some (UnsupportedKind (ds_kind meta))
      else if ds_size meta < 0 then Some NegativeSize
      else if ds_chunk_size meta < 0 \<or> max_chunk_size < ds_chunk_size meta
        then Some (BadChunkSize (ds_chunk_size meta))
      else if max_drop_name_length < length (ds_name meta) then Some NameTooLong
      else if list_ex control_char (ds_name meta) then Some NameControlChar
      else if max_mime_type_length < length (ds_mime_type meta) then Some MimeTooLong
      else if list_ex control_char (ds_mime_type meta) then Some MimeControlChar
      else if ds_head_hash meta \<noteq> '''' \<and> \<not> valid_sha256_hex (ds_head_hash meta)
        then Some BadHeadHash
      else if ds_rel_path meta \<noteq> '''' then validate_rel_path (ds_rel_path meta)
      else None)"

text \<open>The chunk size both sides use: the wire value, or the default for zero (and below).\<close>

definition normalize_chunk :: "drop_send \<Rightarrow> drop_send" where
  "normalize_chunk meta =
     (if ds_chunk_size meta \<le> 0 then meta\<lparr>ds_chunk_size := default_chunk_size\<rparr> else meta)"

lemma normalize_chunk_sel [simp]:
  "ds_drop_id (normalize_chunk m) = ds_drop_id m"
  "ds_kind (normalize_chunk m) = ds_kind m"
  "ds_name (normalize_chunk m) = ds_name m"
  "ds_size (normalize_chunk m) = ds_size m"
  "ds_mime_type (normalize_chunk m) = ds_mime_type m"
  "ds_head_hash (normalize_chunk m) = ds_head_hash m"
  "ds_idempotency_key (normalize_chunk m) = ds_idempotency_key m"
  "ds_rel_path (normalize_chunk m) = ds_rel_path m"
  "ds_attempt_id (normalize_chunk m) = ds_attempt_id m"
  by (simp_all add: normalize_chunk_def)

lemma normalize_chunk_pos: "0 < ds_chunk_size (normalize_chunk m)"
  by (simp add: normalize_chunk_def drop_limits)

lemma normalize_chunk_idem [simp]: "normalize_chunk (normalize_chunk m) = normalize_chunk m"
  using normalize_chunk_pos [of m] by (simp add: normalize_chunk_def)

lemma normalize_chunk_same: "0 < ds_chunk_size m \<Longrightarrow> normalize_chunk m = m"
  by (simp add: normalize_chunk_def)

section \<open>What validation guarantees\<close>

lemma ident_char_facts:
  assumes "ident_char c"
  shows "c \<noteq> CHR ''/''" "c \<noteq> backslash" "c \<noteq> CHR '':''" "\<not> control_char c"
  using assms by (auto simp: ident_char_def control_char_def less_eq_char_def)

lemma valid_drop_id:
  assumes "validate_drop_metadata meta = None"
  shows "ds_drop_id meta \<noteq> ''''" "length (ds_drop_id meta) \<le> max_drop_id_length"
    "list_all ident_char (ds_drop_id meta)" "\<not> bad_segment (ds_drop_id meta)"
    "to_upper (base_name (ds_drop_id meta)) \<notin> set reserved_device_names"
  using assms
  by (auto simp: validate_drop_metadata_def bad_segment_def split: if_splits)

lemma valid_sizes:
  assumes "validate_drop_metadata meta = None"
  shows "0 \<le> ds_size meta" "0 \<le> ds_chunk_size meta" "ds_chunk_size meta \<le> max_chunk_size"
    "ds_kind meta = kind_text \<or> ds_kind meta = kind_file"
    "ds_idempotency_key meta = '''' \<or> valid_tombstone_key (ds_idempotency_key meta)"
    "ds_head_hash meta = '''' \<or> valid_sha256_hex (ds_head_hash meta)"
  using assms by (auto simp: validate_drop_metadata_def split: if_splits)

lemma valid_rel_path:
  assumes "validate_drop_metadata meta = None" "ds_rel_path meta \<noteq> ''''"
  shows "validate_rel_path (ds_rel_path meta) = None"
  using assms by (auto simp: validate_drop_metadata_def split: if_splits)

text \<open>
  The components a receiver of either platform would see in a relative path: the path split at
  both separators. None of them is empty, \<open>.\<close> or \<open>..\<close>.
\<close>

definition path_segments :: "string \<Rightarrow> string list" where
  "path_segments rel = split_on (CHR ''/'') (replace_char backslash (CHR ''/'') rel)"

lemma validate_rel_path_segments:
  assumes "validate_rel_path rel = None"
  shows "list_all (\<lambda>seg. \<not> bad_segment seg) (path_segments rel)"
    "length (path_segments rel) \<le> max_rel_path_depth"
    "length rel \<le> max_rel_path_length" "\<not> list_ex control_char rel"
    "\<not> has_prefix rel ''/''" "\<not> has_prefix rel [backslash]"
    "\<not> (2 \<le> length rel \<and> rel ! 1 = CHR '':'')"
  using assms
  by (auto simp: validate_rel_path_def path_segments_def Let_def list_ex_iff list_all_iff
      split: if_splits)

lemma valid_chunk_range:
  assumes "validate_drop_metadata meta = None"
  shows "0 < ds_chunk_size (normalize_chunk meta)"
    "ds_chunk_size (normalize_chunk meta) \<le> max_chunk_size"
  using valid_sizes [OF assms] by (auto simp: normalize_chunk_def drop_limits)

end
