(* ===== verification/Transfer_Quota.thy ===== *)
theory Transfer_Quota
  imports Drop_Types "HOL-Library.Multiset"
begin

text \<open>
  The receiver's transfer budget (internal/drop/quota.go): reservations for concurrent transfers,
  counted in total and per peer, in transfers and in bytes. Arithmetic is Go's \<open>int64\<close>
  (\<open>i64\<close>), and the lemmas show that the guards of the code keep it from wrapping. The abstract
  specification is the list of outstanding leases: every counter of the quota is a function of it
  (\<open>quota_inv\<close>).
\<close>

section \<open>State\<close>

datatype quota_error =
  QNegativeSize | QCounterOverflow | QMaxTransfers | QPeerTransfers | QByteBudget
  | QPeerByteBudget | QNotInitialized

record quota_config =
  qc_max_transfers :: int
  qc_max_bytes :: int
  qc_max_per_peer_transfers :: int
  qc_max_per_peer_bytes :: int

record usage =
  us_transfers :: int
  us_bytes :: int

text \<open>The map of peers is nil (\<open>None\<close>) in a zero-value quota.\<close>

record quota =
  max_transfers :: int
  max_bytes :: int
  max_per_peer_transfers :: int
  max_per_peer_bytes :: int
  active_transfers :: int
  active_bytes :: int
  peers :: "(string \<times> usage) list option"

record lease =
  l_peer :: string
  l_bytes :: int
  l_unknown :: bool
  l_released :: bool

definition max_quota_bytes :: int where
  "max_quota_bytes = max_int64"

definition new_transfer_quota :: "quota_config \<Rightarrow> quota" where
  "new_transfer_quota cfg =
     \<lparr>max_transfers = qc_max_transfers cfg, max_bytes = qc_max_bytes cfg,
      max_per_peer_transfers = qc_max_per_peer_transfers cfg,
      max_per_peer_bytes = qc_max_per_peer_bytes cfg,
      active_transfers = 0, active_bytes = 0, peers = Some []\<rparr>"

definition default_transfer_quota :: quota where
  "default_transfer_quota =
     (let gib = 1024 * 1024 * 1024
      in new_transfer_quota
           \<lparr>qc_max_transfers = 4, qc_max_bytes = 8 * gib, qc_max_per_peer_transfers = 2,
            qc_max_per_peer_bytes = 6 * gib\<rparr>)"

definition normalize_quota_peer :: "string \<Rightarrow> string" where
  "normalize_quota_peer peer = (if 256 < length peer then take 256 peer else peer)"

text \<open>Reading a Go map (nil or not) at an absent key gives the zero value.\<close>

definition no_usage :: usage where
  "no_usage = \<lparr>us_transfers = 0, us_bytes = 0\<rparr>"

definition peer_usage :: "quota \<Rightarrow> string \<Rightarrow> usage" where
  "peer_usage q p =
     (case peers q of None \<Rightarrow> no_usage
      | Some m \<Rightarrow> (case map_of m p of None \<Rightarrow> no_usage | Some u \<Rightarrow> u))"

definition init_peers :: "quota \<Rightarrow> quota" where
  "init_peers q = (case peers q of None \<Rightarrow> q\<lparr>peers := Some []\<rparr> | Some _ \<Rightarrow> q)"

definition set_usage :: "quota \<Rightarrow> string \<Rightarrow> usage \<Rightarrow> quota" where
  "set_usage q p u = q\<lparr>peers := map_option (AList.update p u) (peers q)\<rparr>"

definition delete_usage :: "quota \<Rightarrow> string \<Rightarrow> quota" where
  "delete_usage q p = q\<lparr>peers := map_option (AList.delete p) (peers q)\<rparr>"

section \<open>Operations\<close>

definition quota_reservation :: "quota \<Rightarrow> int \<Rightarrow> int" where
  "quota_reservation q declared =
     (if declared = 0 then
        let r = default_chunk_size;
            r1 = (if 0 < max_bytes q \<and> max_bytes q < r then max_bytes q else r)
        in if 0 < max_per_peer_bytes q \<and> max_per_peer_bytes q < r1
           then max_per_peer_bytes q else r1
      else declared)"

text \<open>The byte checks \<open>Acquire\<close> and \<open>AddBytes\<close> share, for a growth of \<open>n\<close> bytes.\<close>

definition overflow_check :: "quota \<Rightarrow> usage \<Rightarrow> int \<Rightarrow> bool" where
  "overflow_check q u n \<longleftrightarrow>
     0 < n \<and> (i64 (max_quota_bytes - n) < active_bytes q \<or> i64 (max_quota_bytes - n) < us_bytes u)"

definition byte_refusal :: "quota \<Rightarrow> usage \<Rightarrow> int \<Rightarrow> quota_error option" where
  "byte_refusal q u n =
     (if 0 < max_bytes q \<and>
         (max_bytes q < active_bytes q \<or> i64 (max_bytes q - active_bytes q) < n)
        then Some QByteBudget
      else if 0 < max_per_peer_bytes q \<and>
         (max_per_peer_bytes q < us_bytes u \<or> i64 (max_per_peer_bytes q - us_bytes u) < n)
        then Some QPeerByteBudget
      else None)"

definition acquire_refusal :: "quota \<Rightarrow> usage \<Rightarrow> int \<Rightarrow> quota_error option" where
  "acquire_refusal q u r =
     (if overflow_check q u r then Some QCounterOverflow
      else if 0 < max_transfers q \<and> max_transfers q \<le> active_transfers q then Some QMaxTransfers
      else if 0 < max_per_peer_transfers q \<and> max_per_peer_transfers q \<le> us_transfers u
        then Some QPeerTransfers
      else byte_refusal q u r)"

definition quota_acquire :: "quota \<Rightarrow> string \<Rightarrow> int \<Rightarrow> quota \<times> (quota_error + lease)" where
  "quota_acquire q0 peer0 declared =
     (let peer = normalize_quota_peer peer0
      in if declared < 0 then (q0, Inl QNegativeSize)
         else
           let r = quota_reservation q0 declared;
               q = init_peers q0;
               u = peer_usage q peer
           in case acquire_refusal q u r of
                Some e \<Rightarrow> (q, Inl e)
              | None \<Rightarrow>
                  (set_usage
                     (q\<lparr>active_transfers := i64 (active_transfers q + 1),
                        active_bytes := i64 (active_bytes q + r)\<rparr>)
                     peer \<lparr>us_transfers = i64 (us_transfers u + 1), us_bytes = i64 (us_bytes u + r)\<rparr>,
                   Inr \<lparr>l_peer = peer, l_bytes = r, l_unknown = (declared = 0),
                        l_released = False\<rparr>))"

definition lease_add_bytes :: "quota \<Rightarrow> lease \<Rightarrow> int \<Rightarrow> quota_error + (quota \<times> lease)" where
  "lease_add_bytes q l n =
     (if n \<le> 0 \<or> \<not> l_unknown l then Inr (q, l)
      else if peers q = None then Inl QNotInitialized
      else
        let u = peer_usage q (l_peer l)
        in if overflow_check q u n then Inl QCounterOverflow
           else case byte_refusal q u n of
                  Some e \<Rightarrow> Inl e
                | None \<Rightarrow>
                    Inr (set_usage (q\<lparr>active_bytes := i64 (active_bytes q + n)\<rparr>) (l_peer l)
                           (u\<lparr>us_bytes := i64 (us_bytes u + n)\<rparr>),
                         l\<lparr>l_bytes := i64 (l_bytes l + n)\<rparr>))"

text \<open>\<open>Release\<close> runs once per lease (\<open>sync.Once\<close>: the flag \<open>l_released\<close>).\<close>

definition release_totals :: "quota \<Rightarrow> int \<Rightarrow> quota" where
  "release_totals q n =
     (let q1 = (if 0 < active_transfers q
                then q\<lparr>active_transfers := i64 (active_transfers q - 1)\<rparr> else q)
      in if n \<le> active_bytes q1 then q1\<lparr>active_bytes := i64 (active_bytes q1 - n)\<rparr>
         else q1\<lparr>active_bytes := 0\<rparr>)"

definition release_usage :: "usage \<Rightarrow> int \<Rightarrow> usage" where
  "release_usage u n =
     (let u1 = (if 0 < us_transfers u then u\<lparr>us_transfers := i64 (us_transfers u - 1)\<rparr> else u)
      in if n \<le> us_bytes u1 then u1\<lparr>us_bytes := i64 (us_bytes u1 - n)\<rparr>
         else u1\<lparr>us_bytes := 0\<rparr>)"

definition lease_release :: "quota \<Rightarrow> lease \<Rightarrow> quota \<times> lease" where
  "lease_release q l =
     (if l_released l then (q, l)
      else
        let q1 = release_totals q (l_bytes l);
            u = release_usage (peer_usage q1 (l_peer l)) (l_bytes l)
        in (if us_transfers u = 0 \<and> us_bytes u = 0 then delete_usage q1 (l_peer l)
            else set_usage q1 (l_peer l) u,
            l\<lparr>l_released := True\<rparr>))"

text \<open>
  The methods tolerate a nil quota and a nil lease: \<open>None\<close> stands for the nil pointer.
\<close>

definition acquire_ptr ::
  "quota option \<Rightarrow> string \<Rightarrow> int \<Rightarrow> quota option \<times> (quota_error + lease option)" where
  "acquire_ptr qp peer declared =
     (case qp of None \<Rightarrow> (None, Inr None)
      | Some q \<Rightarrow> (case quota_acquire q peer declared of
                     (q', Inl e) \<Rightarrow> (Some q', Inl e)
                   | (q', Inr l) \<Rightarrow> (Some q', Inr (Some l))))"

definition add_bytes_ptr ::
  "quota option \<Rightarrow> lease option \<Rightarrow> int \<Rightarrow> quota_error + (quota option \<times> lease option)" where
  "add_bytes_ptr qp lp n =
     (case (qp, lp) of
        (Some q, Some l) \<Rightarrow>
          (case lease_add_bytes q l n of
             Inl e \<Rightarrow> Inl e
           | Inr (q', l') \<Rightarrow> Inr (Some q', Some l'))
      | _ \<Rightarrow> Inr (qp, lp))"

definition release_ptr :: "quota option \<Rightarrow> lease option \<Rightarrow> quota option \<times> lease option" where
  "release_ptr qp lp =
     (case (qp, lp) of
        (Some q, Some l) \<Rightarrow> (case lease_release q l of (q', l') \<Rightarrow> (Some q', Some l'))
      | _ \<Rightarrow> (qp, lp))"

section \<open>The abstract state: the outstanding leases\<close>

definition held :: "lease multiset \<Rightarrow> int" where
  "held M = (\<Sum>l \<in># M. l_bytes l)"

definition of_peer :: "string \<Rightarrow> lease multiset \<Rightarrow> lease multiset" where
  "of_peer p M = filter_mset (\<lambda>l. l_peer l = p) M"

definition abs_usage :: "lease multiset \<Rightarrow> string \<Rightarrow> usage" where
  "abs_usage M p = \<lparr>us_transfers = int (size (of_peer p M)), us_bytes = held (of_peer p M)\<rparr>"

text \<open>The map of peers holds the usage of exactly the peers that have an outstanding lease.\<close>

definition peers_exact :: "quota \<Rightarrow> lease multiset \<Rightarrow> bool" where
  "peers_exact q M \<longleftrightarrow>
     (case peers q of None \<Rightarrow> M = {#}
      | Some m \<Rightarrow> keys_distinct m \<and>
          (\<forall>p. map_of m p = (if of_peer p M = {#} then None else Some (abs_usage M p))))"

definition limits_ok :: "quota \<Rightarrow> bool" where
  "limits_ok q \<longleftrightarrow> max_transfers q \<le> max_int64 \<and> max_bytes q \<le> max_int64 \<and>
     max_per_peer_transfers q \<le> max_int64 \<and> max_per_peer_bytes q \<le> max_int64"

definition within_limits :: "quota \<Rightarrow> lease multiset \<Rightarrow> bool" where
  "within_limits q M \<longleftrightarrow>
     held M \<le> max_int64 \<and>
     (0 < max_transfers q \<longrightarrow> int (size M) \<le> max_transfers q) \<and>
     (0 < max_bytes q \<longrightarrow> held M \<le> max_bytes q) \<and>
     (0 < max_per_peer_transfers q \<longrightarrow> (\<forall>p. int (size (of_peer p M)) \<le> max_per_peer_transfers q)) \<and>
     (0 < max_per_peer_bytes q \<longrightarrow> (\<forall>p. held (of_peer p M) \<le> max_per_peer_bytes q))"

definition quota_inv :: "quota \<Rightarrow> lease multiset \<Rightarrow> bool" where
  "quota_inv q M \<longleftrightarrow>
     active_transfers q = int (size M) \<and> active_bytes q = held M \<and>
     (\<forall>l \<in># M. 0 < l_bytes l \<and> \<not> l_released l) \<and>
     peers_exact q M \<and> within_limits q M \<and> limits_ok q"

lemma held_simps [simp]: "held {#} = 0" "held (add_mset l M) = l_bytes l + held M"
  by (simp_all add: held_def)

lemma of_peer_simps [simp]:
  "of_peer p {#} = {#}"
  "of_peer p (add_mset l M) = (if l_peer l = p then add_mset l (of_peer p M) else of_peer p M)"
  by (simp_all add: of_peer_def)

lemma held_nonneg: "\<forall>l \<in># M. 0 < l_bytes l \<Longrightarrow> 0 \<le> held M"
  by (induction M) auto

lemma size_le_held: "\<forall>l \<in># M. 0 < l_bytes l \<Longrightarrow> int (size M) \<le> held M"
  by (induction M) auto

lemma of_peer_pos: "\<forall>l \<in># M. 0 < l_bytes l \<Longrightarrow> \<forall>l \<in># of_peer p M. 0 < l_bytes l"
  by (auto simp: of_peer_def)

lemma held_of_peer_le: "\<forall>l \<in># M. 0 < l_bytes l \<Longrightarrow> held (of_peer p M) \<le> held M"
  by (induction M) auto

lemma size_of_peer_le: "size (of_peer p M) \<le> size M"
  by (simp add: of_peer_def size_filter_mset_lesseq)

lemma abs_usage_none: "of_peer p M = {#} \<Longrightarrow> abs_usage M p = no_usage"
  by (simp add: abs_usage_def no_usage_def)

lemma peer_usage_exact: "peers_exact q M \<Longrightarrow> peer_usage q p = abs_usage M p"
proof (cases "peers q")
  case (Some m)
  assume "peers_exact q M"
  with Some have "map_of m p = (if of_peer p M = {#} then None else Some (abs_usage M p))"
    by (simp add: peers_exact_def)
  with Some show ?thesis by (simp add: peer_usage_def abs_usage_none)
qed (simp add: peers_exact_def peer_usage_def abs_usage_none)

lemma peers_exact_init: "peers_exact q M \<Longrightarrow> peers_exact (init_peers q) M"
  by (auto simp: peers_exact_def init_peers_def split: option.splits)

lemma init_peers_sel [simp]:
  "max_transfers (init_peers q) = max_transfers q" "max_bytes (init_peers q) = max_bytes q"
  "max_per_peer_transfers (init_peers q) = max_per_peer_transfers q"
  "max_per_peer_bytes (init_peers q) = max_per_peer_bytes q"
  "active_transfers (init_peers q) = active_transfers q"
  "active_bytes (init_peers q) = active_bytes q" "peers (init_peers q) \<noteq> None"
  by (auto simp: init_peers_def split: option.splits)

lemma set_usage_sel [simp]:
  "max_transfers (set_usage q p u) = max_transfers q" "max_bytes (set_usage q p u) = max_bytes q"
  "max_per_peer_transfers (set_usage q p u) = max_per_peer_transfers q"
  "max_per_peer_bytes (set_usage q p u) = max_per_peer_bytes q"
  "active_transfers (set_usage q p u) = active_transfers q"
  "active_bytes (set_usage q p u) = active_bytes q"
  by (simp_all add: set_usage_def)

lemma delete_usage_sel [simp]:
  "max_transfers (delete_usage q p) = max_transfers q" "max_bytes (delete_usage q p) = max_bytes q"
  "max_per_peer_transfers (delete_usage q p) = max_per_peer_transfers q"
  "max_per_peer_bytes (delete_usage q p) = max_per_peer_bytes q"
  "active_transfers (delete_usage q p) = active_transfers q"
  "active_bytes (delete_usage q p) = active_bytes q"
  by (simp_all add: delete_usage_def)

lemma quota_inv_init: "quota_inv q M \<Longrightarrow> quota_inv (init_peers q) M"
  by (simp add: quota_inv_def peers_exact_init within_limits_def limits_ok_def)

lemma quota_inv_new:
  "limits_ok (new_transfer_quota cfg) \<Longrightarrow> quota_inv (new_transfer_quota cfg) {#}"
  by (simp add: quota_inv_def peers_exact_def within_limits_def new_transfer_quota_def)

text \<open>The map after a write at one peer, when every other peer's leases are the same.\<close>

lemma peers_exact_set:
  assumes "peers_exact q M" "peers q \<noteq> None" "of_peer p M' \<noteq> {#}" "u = abs_usage M' p"
    and "\<And>p'. p' \<noteq> p \<Longrightarrow> of_peer p' M' = of_peer p' M"
  shows "peers_exact (set_usage q p u) M'"
  using assms
  by (auto simp: peers_exact_def set_usage_def distinct_update AList.update_conv' abs_usage_def
      split: option.splits)

lemma peers_exact_delete:
  assumes "peers_exact q M" "peers q \<noteq> None" "of_peer p M' = {#}"
    and "\<And>p'. p' \<noteq> p \<Longrightarrow> of_peer p' M' = of_peer p' M"
  shows "peers_exact (delete_usage q p) M'"
  using assms
  by (auto simp: peers_exact_def delete_usage_def AList.distinct_delete AList.delete_conv'
      abs_usage_def split: option.splits)

lemma peers_exact_upd [simp]:
  "peers_exact (q\<lparr>active_transfers := a\<rparr>) M = peers_exact q M"
  "peers_exact (q\<lparr>active_bytes := b\<rparr>) M = peers_exact q M"
  by (simp_all add: peers_exact_def)

text \<open>No operation changes the policy.\<close>

lemma quota_acquire_policy:
  assumes "quota_acquire q peer d = (q', r)"
  shows "max_bytes q' = max_bytes q" "max_transfers q' = max_transfers q"
    "max_per_peer_bytes q' = max_per_peer_bytes q"
    "max_per_peer_transfers q' = max_per_peer_transfers q"
  using assms by (auto simp: quota_acquire_def Let_def split: if_splits option.splits)

lemma lease_add_bytes_policy:
  assumes "lease_add_bytes q l n = Inr (q', l')"
  shows "max_bytes q' = max_bytes q" "max_transfers q' = max_transfers q"
    "max_per_peer_bytes q' = max_per_peer_bytes q"
    "max_per_peer_transfers q' = max_per_peer_transfers q"
  using assms by (auto simp: lease_add_bytes_def Let_def split: if_splits option.splits)

lemma release_totals_sel [simp]:
  "max_bytes (release_totals q n) = max_bytes q"
  "max_transfers (release_totals q n) = max_transfers q"
  "max_per_peer_bytes (release_totals q n) = max_per_peer_bytes q"
  "max_per_peer_transfers (release_totals q n) = max_per_peer_transfers q"
  by (simp_all add: release_totals_def Let_def)

lemma release_totals_exact:
  "0 < active_transfers q \<Longrightarrow> n \<le> active_bytes q \<Longrightarrow> release_totals q n =
    q\<lparr>active_transfers := i64 (active_transfers q - 1), active_bytes := i64 (active_bytes q - n)\<rparr>"
  by (simp add: release_totals_def)

lemma release_usage_exact:
  "0 < us_transfers u \<Longrightarrow> n \<le> us_bytes u \<Longrightarrow> release_usage u n =
    \<lparr>us_transfers = i64 (us_transfers u - 1), us_bytes = i64 (us_bytes u - n)\<rparr>"
  by (simp add: release_usage_def)

lemma lease_release_policy:
  assumes "lease_release q l = (q', l')"
  shows "max_bytes q' = max_bytes q" "max_transfers q' = max_transfers q"
    "max_per_peer_bytes q' = max_per_peer_bytes q"
    "max_per_peer_transfers q' = max_per_peer_transfers q"
  using assms unfolding lease_release_def Let_def by (simp_all split: if_splits) force+

lemmas quota_policy = quota_acquire_policy lease_add_bytes_policy lease_release_policy

section \<open>The operations keep the invariant\<close>

lemma reservation_pos: "0 \<le> declared \<Longrightarrow> 0 < quota_reservation q declared"
  by (auto simp: quota_reservation_def Let_def drop_limits)

lemma reservation_known: "declared \<noteq> 0 \<Longrightarrow> quota_reservation q declared = declared"
  by (simp add: quota_reservation_def)

lemma reservation_range:
  "0 \<le> declared \<Longrightarrow> declared \<le> max_int64 \<Longrightarrow> quota_reservation q declared \<le> max_int64"
  by (auto simp: quota_reservation_def Let_def drop_limits)

lemma i64_sub: "0 \<le> b \<Longrightarrow> b \<le> max_int64 \<Longrightarrow> 0 \<le> a \<Longrightarrow> a \<le> max_int64 \<Longrightarrow> i64 (a - b) = a - b"
  by (rule i64_id) simp_all

text \<open>An accepted growth of \<open>n\<close> bytes at peer \<open>p\<close> stays inside every byte limit.\<close>

lemma byte_checks_pass:
  assumes inv: "quota_inv q M" and n: "0 < n" "n \<le> max_int64"
    and pass: "\<not> overflow_check q (abs_usage M p) n" "byte_refusal q (abs_usage M p) n = None"
  shows "held M + n \<le> max_int64" "held (of_peer p M) + n \<le> max_int64"
    "0 < max_bytes q \<Longrightarrow> held M + n \<le> max_bytes q"
    "0 < max_per_peer_bytes q \<Longrightarrow> held (of_peer p M) + n \<le> max_per_peer_bytes q"
proof -
  have pos: "\<forall>l \<in># M. 0 < l_bytes l" and act: "active_bytes q = held M"
    and top: "held M \<le> max_int64" and lim: "limits_ok q"
    using inv by (auto simp: quota_inv_def within_limits_def)
  have h: "0 \<le> held M" "0 \<le> held (of_peer p M)" "held (of_peer p M) \<le> held M"
    using pos of_peer_pos held_of_peer_le by (auto intro: held_nonneg)
  have sub: "i64 (max_quota_bytes - n) = max_int64 - n"
    using n by (simp add: max_quota_bytes_def i64_sub)
  show a: "held M + n \<le> max_int64" and "held (of_peer p M) + n \<le> max_int64"
    using pass(1) n sub by (auto simp: overflow_check_def act abs_usage_def)
  show "held M + n \<le> max_bytes q" if "0 < max_bytes q"
    using pass(2) that h top lim
    by (auto simp: byte_refusal_def act limits_ok_def i64_sub split: if_splits)
  show "held (of_peer p M) + n \<le> max_per_peer_bytes q" if "0 < max_per_peer_bytes q"
    using pass(2) that h top lim
    by (auto simp: byte_refusal_def abs_usage_def limits_ok_def i64_sub split: if_splits)
qed

lemma acquire_refusal_None:
  assumes "acquire_refusal q u r = None"
  shows "\<not> overflow_check q u r" "byte_refusal q u r = None"
    "0 < max_transfers q \<Longrightarrow> active_transfers q < max_transfers q"
    "0 < max_per_peer_transfers q \<Longrightarrow> us_transfers u < max_per_peer_transfers q"
  using assms by (auto simp: acquire_refusal_def split: if_splits)

lemma i64_add_small: "0 \<le> a \<Longrightarrow> 0 \<le> b \<Longrightarrow> a + b \<le> max_int64 \<Longrightarrow> i64 (a + b) = a + b"
  by (rule i64_id) simp_all

text \<open>Growing the total and one peer's share of the books, when the limits allow it.\<close>

lemma within_limits_grow:
  assumes "within_limits q M" "held M' \<le> max_int64"
    "0 < max_transfers q \<Longrightarrow> int (size M') \<le> max_transfers q"
    "0 < max_bytes q \<Longrightarrow> held M' \<le> max_bytes q"
    "0 < max_per_peer_transfers q \<Longrightarrow> int (size (of_peer p M')) \<le> max_per_peer_transfers q"
    "0 < max_per_peer_bytes q \<Longrightarrow> held (of_peer p M') \<le> max_per_peer_bytes q"
    and same: "\<And>p'. p' \<noteq> p \<Longrightarrow> of_peer p' M' = of_peer p' M"
  shows "within_limits q M'"
proof -
  have "int (size (of_peer p' M')) \<le> max_per_peer_transfers q"
    if "0 < max_per_peer_transfers q" for p'
    using assms(1,5) same [of p'] that by (cases "p' = p") (auto simp: within_limits_def)
  moreover have "held (of_peer p' M') \<le> max_per_peer_bytes q" if "0 < max_per_peer_bytes q" for p'
    using assms(1,6) same [of p'] that by (cases "p' = p") (auto simp: within_limits_def)
  ultimately show ?thesis using assms(2-4) by (simp add: within_limits_def)
qed

lemma quota_acquire_ok:
  assumes inv: "quota_inv q M" and d: "declared \<le> max_int64"
    and acq: "quota_acquire q peer declared = (q', Inr l)"
  shows "quota_inv q' (add_mset l M)" "l_peer l = normalize_quota_peer peer"
    "l_bytes l = quota_reservation q declared" "l_unknown l = (declared = 0)" "\<not> l_released l"
proof -
  let ?p = "normalize_quota_peer peer" and ?r = "quota_reservation q declared"
  let ?q = "init_peers q" and ?u = "abs_usage M (normalize_quota_peer peer)"
  have dec: "0 \<le> declared" using acq by (auto simp: quota_acquire_def Let_def split: if_splits)
  have inv0: "quota_inv ?q M" by (rule quota_inv_init [OF inv])
  then have u: "peer_usage ?q ?p = ?u" by (simp add: quota_inv_def peer_usage_exact)
  have ref: "acquire_refusal ?q ?u ?r = None"
    using acq dec u by (auto simp: quota_acquire_def Let_def split: option.splits)
  have l: "l = \<lparr>l_peer = ?p, l_bytes = ?r, l_unknown = (declared = 0), l_released = False\<rparr>"
    using acq dec ref u by (simp add: quota_acquire_def Let_def)
  then show "l_peer l = ?p" "l_bytes l = ?r" "l_unknown l = (declared = 0)" "\<not> l_released l"
    by simp_all
  note r = reservation_pos [OF dec, of q] reservation_range [OF dec d, of q]
  note pass = byte_checks_pass [OF inv0 r acquire_refusal_None(1,2) [OF ref]]
  have pos: "\<forall>l \<in># M. 0 < l_bytes l" using inv by (simp add: quota_inv_def)
  have cnt: "int (size M) + 1 \<le> max_int64" "int (size (of_peer ?p M)) + 1 \<le> max_int64"
    using size_le_held [OF pos] pass(1) r(1) size_of_peer_le [of ?p M] by linarith+
  have h: "0 \<le> held M" "0 \<le> held (of_peer ?p M)"
    using pos of_peer_pos by (auto intro: held_nonneg)
  have add: "i64 (int (size M) + 1) = int (size (add_mset l M))"
    "i64 (held M + ?r) = held (add_mset l M)"
    "\<lparr>us_transfers = i64 (us_transfers ?u + 1), us_bytes = i64 (us_bytes ?u + ?r)\<rparr>
     = abs_usage (add_mset l M) ?p"
    using cnt pass(1,2) h r(1) by (simp_all add: abs_usage_def l i64_add_small)
  let ?q1 = "?q\<lparr>active_transfers := int (size (add_mset l M)), active_bytes := held (add_mset l M)\<rparr>"
  have q': "q' = set_usage ?q1 ?p (abs_usage (add_mset l M) ?p)"
    using acq dec ref u add inv0 by (simp add: quota_acquire_def Let_def quota_inv_def)
  have px: "peers_exact q' (add_mset l M)"
    unfolding q' using inv0
    by (intro peers_exact_set [where M = M]) (auto simp: quota_inv_def l)
  have "within_limits ?q (add_mset l M)"
    by (rule within_limits_grow [where p = ?p and M = M])
      (use inv0 pass acquire_refusal_None(3,4) [OF ref] in
        \<open>auto simp: quota_inv_def l abs_usage_def\<close>)
  then have "within_limits q' (add_mset l M)" by (simp add: within_limits_def q')
  with px pos inv0 r(1) show "quota_inv q' (add_mset l M)"
    by (auto simp: quota_inv_def q' limits_ok_def l)
qed

lemma quota_acquire_refused:
  assumes "quota_inv q M" "quota_acquire q peer declared = (q', Inl e)"
  shows "quota_inv q' M"
  using assms quota_inv_init [OF assms(1)]
  by (auto simp: quota_acquire_def Let_def split: if_splits option.splits)

lemma lease_add_bytes_ok:
  assumes inv: "quota_inv q (add_mset l M)" and n: "n \<le> max_int64"
    and add: "lease_add_bytes q l n = Inr (q', l')"
  shows "quota_inv q' (add_mset l' M)" "l_peer l' = l_peer l" "\<not> l_released l'"
    "l_bytes l' = (if 0 < n \<and> l_unknown l then l_bytes l + n else l_bytes l)"
    "l_unknown l' = l_unknown l"
proof -
  show "l_peer l' = l_peer l" "l_unknown l' = l_unknown l" "\<not> l_released l'"
    using add inv
    by (auto simp: lease_add_bytes_def quota_inv_def Let_def split: if_splits option.splits)
  show "quota_inv q' (add_mset l' M)"
    "l_bytes l' = (if 0 < n \<and> l_unknown l then l_bytes l + n else l_bytes l)"
  proof (atomize (full), cases "n \<le> 0 \<or> \<not> l_unknown l")
    case True
    then show "quota_inv q' (add_mset l' M) \<and>
      l_bytes l' = (if 0 < n \<and> l_unknown l then l_bytes l + n else l_bytes l)"
      using add inv by (auto simp: lease_add_bytes_def)
  next
    case False
    let ?p = "l_peer l" and ?M = "add_mset l M"
    let ?u = "abs_usage ?M ?p"
    have u: "peer_usage q ?p = ?u" using inv by (simp add: quota_inv_def peer_usage_exact)
    have ref: "\<not> overflow_check q ?u n" "byte_refusal q ?u n = None" "peers q \<noteq> None"
      using add False u
      by (auto simp: lease_add_bytes_def Let_def split: if_splits option.splits)
    from False n have n': "0 < n" "n \<le> max_int64" by simp_all
    note pass = byte_checks_pass [OF inv n' ref(1,2)]
    have pos: "\<forall>l \<in># ?M. 0 < l_bytes l" using inv by (simp add: quota_inv_def)
    have h: "0 \<le> held M" "0 \<le> held (of_peer ?p M)" "held (of_peer ?p M) \<le> held M" "0 < l_bytes l"
      using pos of_peer_pos held_of_peer_le by (auto intro: held_nonneg)
    let ?l = "l\<lparr>l_bytes := l_bytes l + n\<rparr>"
    have g: "i64 (l_bytes l + n) = l_bytes l + n" "i64 (held ?M + n) = held (add_mset ?l M)"
      "?u\<lparr>us_bytes := i64 (us_bytes ?u + n)\<rparr> = abs_usage (add_mset ?l M) ?p"
      using pass(1,2) h n' by (simp_all add: abs_usage_def i64_add_small algebra_simps)
    have l': "l' = ?l"
      and q': "q' = set_usage (q\<lparr>active_bytes := held (add_mset ?l M)\<rparr>) ?p
                 (abs_usage (add_mset ?l M) ?p)"
      using add False ref u g inv
      by (auto simp: lease_add_bytes_def Let_def quota_inv_def)
    have px: "peers_exact q' (add_mset ?l M)"
      unfolding q' using inv ref(3)
      by (intro peers_exact_set [where M = ?M]) (auto simp: quota_inv_def)
    have wl: "within_limits q ?M" using inv by (simp add: quota_inv_def)
    then have pt: "0 < max_per_peer_transfers q \<Longrightarrow>
      int (size (of_peer ?p ?M)) \<le> max_per_peer_transfers q"
      unfolding within_limits_def by blast
    have "within_limits q (add_mset ?l M)"
      by (rule within_limits_grow [where p = ?p, OF wl])
        (use wl pass pt in \<open>auto simp: within_limits_def algebra_simps\<close>)
    then have "within_limits q' (add_mset ?l M)" by (simp add: within_limits_def q')
    with px pos inv n' show "quota_inv q' (add_mset l' M) \<and>
      l_bytes l' = (if 0 < n \<and> l_unknown l then l_bytes l + n else l_bytes l)"
      using False l' by (auto simp: quota_inv_def q' limits_ok_def)
  qed
qed

lemma within_limits_shrink:
  assumes "within_limits q (add_mset l M)" "0 < l_bytes l" "\<forall>l \<in># M. 0 < l_bytes l"
  shows "within_limits q M"
proof -
  have le: "int (size (of_peer p M)) \<le> int (size (of_peer p (add_mset l M)))"
    "held (of_peer p M) \<le> held (of_peer p (add_mset l M))" for p
    using assms(2) by simp_all
  have "int (size (of_peer p M)) \<le> max_per_peer_transfers q" if "0 < max_per_peer_transfers q" for p
    using le(1) [of p] that assms(1) unfolding within_limits_def by (meson order_trans)
  moreover have "held (of_peer p M) \<le> max_per_peer_bytes q" if "0 < max_per_peer_bytes q" for p
    using le(2) [of p] that assms(1) unfolding within_limits_def by (meson order_trans)
  moreover have "held M \<le> held (add_mset l M)" "int (size M) \<le> int (size (add_mset l M))"
    using assms(2) by simp_all
  ultimately show ?thesis using assms(1) unfolding within_limits_def by (meson order_trans)
qed

lemma lease_release_ok:
  assumes inv: "quota_inv q (add_mset l M)" and rel: "lease_release q l = (q', l')"
  shows "quota_inv q' M" "l' = l\<lparr>l_released := True\<rparr>"
proof -
  let ?p = "l_peer l" and ?M = "add_mset l M"
  let ?u = "abs_usage ?M ?p"
  have unrel: "\<not> l_released l" and pos: "\<forall>l \<in># ?M. 0 < l_bytes l" and top: "held ?M \<le> max_int64"
    using inv by (auto simp: quota_inv_def within_limits_def)
  from rel unrel show "l' = l\<lparr>l_released := True\<rparr>" by (simp add: lease_release_def Let_def)
  have h: "0 \<le> held M" "0 \<le> held (of_peer ?p M)" "held (of_peer ?p M) \<le> held M" "0 < l_bytes l"
    using pos of_peer_pos held_of_peer_le by (auto intro: held_nonneg)
  have cnt: "int (size M) \<le> held M" "int (size (of_peer ?p M)) \<le> held (of_peer ?p M)"
    using pos of_peer_pos by (auto intro: size_le_held)
  let ?q2 = "q\<lparr>active_transfers := int (size M), active_bytes := held M\<rparr>"
  have u: "peer_usage ?q2 ?p = ?u"
    using inv by (simp add: quota_inv_def peer_usage_exact )
  have i: "i64 (int (size M)) = int (size M)" "i64 (held M) = held M"
    "i64 (int (size (of_peer ?p M))) = int (size (of_peer ?p M))"
    "i64 (held (of_peer ?p M)) = held (of_peer ?p M)"
    using h cnt top by (auto intro!: i64_id)
  have zero: "size (of_peer ?p M) = 0 \<and> held (of_peer ?p M) = 0 \<longleftrightarrow> of_peer ?p M = {#}"
    by auto
  have t: "release_totals q (l_bytes l) = ?q2"
    using inv h i by (subst release_totals_exact) (simp_all add: quota_inv_def)
  have us: "release_usage ?u (l_bytes l) = abs_usage M ?p"
    using h i by (subst release_usage_exact) (simp_all add: abs_usage_def)
  have q': "q' = (if of_peer ?p M = {#} then delete_usage ?q2 ?p
                  else set_usage ?q2 ?p (abs_usage M ?p))"
    using rel unrel zero unfolding lease_release_def Let_def t u us
    by (auto simp: abs_usage_def split: if_splits)
  have nn: "peers q \<noteq> None"
    using inv by (cases "peers q") (simp_all add: quota_inv_def peers_exact_def)
  have px: "peers_exact q' M"
    unfolding q' using inv nn
    by (auto intro!: peers_exact_set [where M = ?M] peers_exact_delete [where M = ?M]
        simp: quota_inv_def)
  have "within_limits q M"
    by (rule within_limits_shrink [of q l]) (use inv h(4) pos in \<open>simp_all add: quota_inv_def\<close>)
  then have "within_limits q' M"
    by (simp add: within_limits_def lease_release_policy [OF rel])
  moreover have "active_transfers q' = int (size M)" "active_bytes q' = held M"
    by (simp_all add: q')
  ultimately show "quota_inv q' M"
    using inv pos px by (simp add: quota_inv_def limits_ok_def lease_release_policy [OF rel])
qed

section \<open>Sessions sharing one quota\<close>

text \<open>
  The receiver sessions of one process share a quota. A session acquires its lease, may grow it
  while data arrives, and releases it when the attempt ends; the events of all sessions interleave
  in any order (each holds the quota's mutex). Leases are kept by session number; a released lease
  stays in the table, so that releasing it again is possible and, by \<open>sync.Once\<close>, without effect.
  A session grows its lease only before it releases it, because the release is deferred.
\<close>

datatype quota_event = Acquire nat string int | AddBytes nat int | Release nat

record quota_sys =
  qs_quota :: quota
  qs_leases :: "(nat \<times> lease) list"

fun quota_step :: "quota_sys \<Rightarrow> quota_event \<Rightarrow> quota_sys" where
  "quota_step s (Acquire i peer declared) =
     (if map_of (qs_leases s) i \<noteq> None \<or> max_int64 < declared then s
      else (case quota_acquire (qs_quota s) peer declared of
              (q, Inl _) \<Rightarrow> s\<lparr>qs_quota := q\<rparr>
            | (q, Inr l) \<Rightarrow> s\<lparr>qs_quota := q, qs_leases := (i, l) # qs_leases s\<rparr>))"
| "quota_step s (AddBytes i n) =
     (case map_of (qs_leases s) i of
        None \<Rightarrow> s
      | Some l \<Rightarrow>
          if l_released l \<or> max_int64 < n then s
          else (case lease_add_bytes (qs_quota s) l n of
                  Inl _ \<Rightarrow> s
                | Inr (q, l') \<Rightarrow> s\<lparr>qs_quota := q, qs_leases := AList.update i l' (qs_leases s)\<rparr>))"
| "quota_step s (Release i) =
     (case map_of (qs_leases s) i of
        None \<Rightarrow> s
      | Some l \<Rightarrow>
          (case lease_release (qs_quota s) l of
             (q, l') \<Rightarrow> s\<lparr>qs_quota := q, qs_leases := AList.update i l' (qs_leases s)\<rparr>))"

definition quota_start :: "quota_config \<Rightarrow> quota_sys" where
  "quota_start cfg = \<lparr>qs_quota = new_transfer_quota cfg, qs_leases = []\<rparr>"

definition outstanding :: "(nat \<times> lease) list \<Rightarrow> lease multiset" where
  "outstanding t = mset (filter (\<lambda>l. \<not> l_released l) (map snd t))"

definition quota_sys_inv :: "quota_sys \<Rightarrow> bool" where
  "quota_sys_inv s \<longleftrightarrow>
     keys_distinct (qs_leases s) \<and> quota_inv (qs_quota s) (outstanding (qs_leases s))"

lemma outstanding_simps [simp]:
  "outstanding [] = {#}"
  "outstanding ((i, l) # t) = (if l_released l then outstanding t else add_mset l (outstanding t))"
  by (simp_all add: outstanding_def)

lemma map_of_update_split:
  assumes "keys_distinct t" "map_of t i = Some l"
  obtains t1 t2 where "t = t1 @ (i, l) # t2" "\<forall>l'. AList.update i l' t = t1 @ (i, l') # t2"
proof -
  have "\<exists>t1 t2. t = t1 @ (i, l) # t2 \<and> (\<forall>l'. AList.update i l' t = t1 @ (i, l') # t2)"
    using assms
  proof (induction t)
    case (Cons e t)
    show ?case
    proof (cases "fst e = i")
      case True
      with Cons.prems have "e = (i, l)" by (cases e) auto
      then show ?thesis by (intro exI [of _ "[]"] exI [of _ t]) simp
    next
      case False
      with Cons obtain t1 t2
        where "t = t1 @ (i, l) # t2" "\<forall>l'. AList.update i l' t = t1 @ (i, l') # t2"
        by (cases e) auto
      with False show ?thesis by (cases e) (intro exI [of _ "e # t1"] exI [of _ t2], simp)
    qed
  qed simp
  then show thesis using that by blast
qed

lemma outstanding_append [simp]: "outstanding (t @ u) = outstanding t + outstanding u"
  by (simp add: outstanding_def)

lemma outstanding_update:
  assumes "keys_distinct t" "map_of t i = Some l" "\<not> l_released l"
  obtains M where "outstanding t = add_mset l M"
    "\<forall>l'. outstanding (AList.update i l' t) = (if l_released l' then M else add_mset l' M)"
proof -
  from assms(1,2) obtain t1 t2 where
    t: "t = t1 @ (i, l) # t2" "\<forall>l'. AList.update i l' t = t1 @ (i, l') # t2"
    by (rule map_of_update_split)
  then have "outstanding t = add_mset l (outstanding (t1 @ t2))" using assms(3) by simp
  moreover have "\<forall>l'. outstanding (AList.update i l' t) =
      (if l_released l' then outstanding (t1 @ t2) else add_mset l' (outstanding (t1 @ t2)))"
    using t(2) by simp
  ultimately show thesis by (rule that)
qed

lemma quota_step_inv:
  assumes "quota_sys_inv s"
  shows "quota_sys_inv (quota_step s e)"
proof -
  have kd: "keys_distinct (qs_leases s)"
    and inv: "quota_inv (qs_quota s) (outstanding (qs_leases s))"
    using assms by (simp_all add: quota_sys_inv_def)
  show ?thesis
  proof (cases e)
    case (Acquire i peer declared)
    obtain q r where acq: "quota_acquire (qs_quota s) peer declared = (q, r)" by force
    show ?thesis
    proof (cases r)
      case (Inl err)
      with acq inv have "quota_inv q (outstanding (qs_leases s))"
        by (simp add: quota_acquire_refused)
      with Acquire acq Inl assms show ?thesis by (simp add: quota_sys_inv_def)
    next
      case (Inr l)
      then have "quota_inv q (add_mset l (outstanding (qs_leases s)))" "\<not> l_released l"
        if "declared \<le> max_int64"
        using that acq inv quota_acquire_ok(1,5) by blast+
      with Acquire acq Inr assms show ?thesis
        by (auto simp: quota_sys_inv_def map_of_eq_None_iff)
    qed
  next
    case (AddBytes i n)
    show ?thesis
    proof (cases "\<exists>l q l'. map_of (qs_leases s) i = Some l \<and> \<not> l_released l \<and> n \<le> max_int64 \<and>
        lease_add_bytes (qs_quota s) l n = Inr (q, l')")
      case True
      then obtain l q l' where l: "map_of (qs_leases s) i = Some l" "\<not> l_released l" "n \<le> max_int64"
        "lease_add_bytes (qs_quota s) l n = Inr (q, l')" by blast
      from outstanding_update [OF kd l(1,2)] obtain M where
        M: "outstanding (qs_leases s) = add_mset l M"
          "outstanding (AList.update i l' (qs_leases s)) = (if l_released l' then M else add_mset l' M)"
        by metis
      with inv have "quota_inv (qs_quota s) (add_mset l M)" by simp
      note ok = lease_add_bytes_ok(1,3) [OF this l(3,4)]
      with AddBytes l M kd show ?thesis by (simp add: quota_sys_inv_def distinct_update)
    next
      case False
      then have "quota_step s e = s"
        using AddBytes by (auto split: option.splits sum.splits)
      with assms show ?thesis by simp
    qed
  next
    case (Release i)
    show ?thesis
    proof (cases "map_of (qs_leases s) i")
      case (Some l)
      obtain q l' where rel: "lease_release (qs_quota s) l = (q, l')" by force
      show ?thesis
      proof (cases "l_released l")
        case True
        then have "q = qs_quota s" "l' = l" using rel by (simp_all add: lease_release_def)
        moreover have "outstanding (AList.update i l (qs_leases s)) = outstanding (qs_leases s)"
          using map_of_update_split [OF kd Some] by metis
        ultimately show ?thesis using Release Some rel assms kd
          by (simp add: quota_sys_inv_def distinct_update)
      next
        case False
        from outstanding_update [OF kd Some False] obtain M where
          M: "outstanding (qs_leases s) = add_mset l M"
            "outstanding (AList.update i l' (qs_leases s)) = (if l_released l' then M else add_mset l' M)"
          by metis
        with inv have "quota_inv (qs_quota s) (add_mset l M)" by simp
        note ok = lease_release_ok [OF this rel]
        with Release Some rel M kd show ?thesis by (simp add: quota_sys_inv_def distinct_update)
      qed
    qed (use Release assms in simp)
  qed
qed

lemma quota_start_inv: "limits_ok (new_transfer_quota cfg) \<Longrightarrow> quota_sys_inv (quota_start cfg)"
  by (simp add: quota_sys_inv_def quota_start_def quota_inv_new)

lemma quota_step_policy:
  "max_bytes (qs_quota (quota_step s e)) = max_bytes (qs_quota s)"
  "max_transfers (qs_quota (quota_step s e)) = max_transfers (qs_quota s)"
  "max_per_peer_bytes (qs_quota (quota_step s e)) = max_per_peer_bytes (qs_quota s)"
  "max_per_peer_transfers (qs_quota (quota_step s e)) = max_per_peer_transfers (qs_quota s)"
  by (cases e; auto dest: quota_policy split: option.splits sum.splits prod.splits)+

lemma quota_sys_bounds:
  assumes "quota_sys_inv s"
  shows "0 < max_bytes (qs_quota s) \<Longrightarrow> active_bytes (qs_quota s) \<le> max_bytes (qs_quota s)"
    "0 < max_transfers (qs_quota s) \<Longrightarrow>
      active_transfers (qs_quota s) \<le> max_transfers (qs_quota s)"
    "0 < max_per_peer_bytes (qs_quota s) \<Longrightarrow>
      us_bytes (peer_usage (qs_quota s) p) \<le> max_per_peer_bytes (qs_quota s)"
    "0 < max_per_peer_transfers (qs_quota s) \<Longrightarrow>
      us_transfers (peer_usage (qs_quota s) p) \<le> max_per_peer_transfers (qs_quota s)"
  using assms
  by (simp_all add: quota_sys_inv_def quota_inv_def within_limits_def abs_usage_def
      peer_usage_exact [where M = "outstanding (qs_leases s)"])

lemmas quota_contract = quota_step_inv quota_step_policy quota_sys_bounds

interpretation quota_bytes: bounded_stepper quota_step quota_sys_inv
  "\<lambda>s. active_bytes (qs_quota s)" "\<lambda>s. max_bytes (qs_quota s)"
  by unfold_locales (simp_all add: quota_contract)

interpretation quota_transfers: bounded_stepper quota_step quota_sys_inv
  "\<lambda>s. active_transfers (qs_quota s)" "\<lambda>s. max_transfers (qs_quota s)"
  by unfold_locales (simp_all add: quota_contract)

interpretation quota_peer_bytes: bounded_stepper quota_step quota_sys_inv
  "\<lambda>s. us_bytes (peer_usage (qs_quota s) p)" "\<lambda>s. max_per_peer_bytes (qs_quota s)" for p
  by unfold_locales (simp_all add: quota_contract)

interpretation quota_peer_transfers: bounded_stepper quota_step quota_sys_inv
  "\<lambda>s. us_transfers (peer_usage (qs_quota s) p)" "\<lambda>s. max_per_peer_transfers (qs_quota s)" for p
  by unfold_locales (simp_all add: quota_contract)

section \<open>Properties\<close>

lemma default_quota_limits:
  "max_bytes default_transfer_quota = 8589934592" "max_transfers default_transfer_quota = 4"
  "max_per_peer_bytes default_transfer_quota = 6442450944"
  "max_per_peer_transfers default_transfer_quota = 2"
  "active_transfers default_transfer_quota = 0" "active_bytes default_transfer_quota = 0"
  "peers default_transfer_quota = Some []"
  by (simp_all add: default_transfer_quota_def new_transfer_quota_def Let_def)

lemma default_quota_inv: "quota_inv default_transfer_quota {#}"
  by (simp add: quota_inv_def peers_exact_def within_limits_def limits_ok_def default_quota_limits)

lemma default_sys_inv: "quota_sys_inv \<lparr>qs_quota = default_transfer_quota, qs_leases = []\<rparr>"
  by (simp add: quota_sys_inv_def default_quota_inv)

text \<open>
  Under the default policy no interleaving of acquisitions, growths and releases by any number
  of sessions ever holds more than 4 transfers or 8 GiB in total, or more than 2 transfers or
  6 GiB for one peer.
\<close>

theorem default_quota_bounds:
  fixes es :: "quota_event list"
  defines "q \<equiv> qs_quota (foldl quota_step \<lparr>qs_quota = default_transfer_quota, qs_leases = []\<rparr> es)"
  shows "active_transfers q \<le> 4 \<and> active_bytes q \<le> 8 * 1024 ^ 3 \<and>
    us_transfers (peer_usage q p) \<le> 2 \<and> us_bytes (peer_usage q p) \<le> 6 * 1024 ^ 3"
  unfolding q_def
  using quota_bytes.run_used [OF default_sys_inv, of es]
    quota_transfers.run_used [OF default_sys_inv, of es]
    quota_peer_bytes.run_used [OF default_sys_inv, of es p]
    quota_peer_transfers.run_used [OF default_sys_inv, of es p]
  by (simp add: default_quota_limits)

text \<open>
  C33. For any policy, after any interleaving the counters of the quota are exactly the books of the
  leases not yet released: their number and their bytes, in total and for every peer. In
  particular no counter has wrapped around.
\<close>

theorem quota_books_exact:
  fixes es :: "quota_event list"
  assumes "limits_ok (new_transfer_quota cfg)"
  defines "s \<equiv> foldl quota_step (quota_start cfg) es"
  shows "active_transfers (qs_quota s) = int (size (outstanding (qs_leases s))) \<and>
    active_bytes (qs_quota s) = held (outstanding (qs_leases s)) \<and>
    peer_usage (qs_quota s) p = abs_usage (outstanding (qs_leases s)) p \<and>
    held (outstanding (qs_leases s)) \<le> max_int64"
  using quota_bytes.run_inv [OF quota_start_inv [OF assms(1)], of es]
  by (simp add: s_def quota_sys_inv_def quota_inv_def within_limits_def peer_usage_exact)

theorem quota_books_exact_witness:
  "active_bytes (qs_quota (foldl quota_step
      (quota_start \<lparr>qc_max_transfers = 4, qc_max_bytes = 100, qc_max_per_peer_transfers = 2,
                     qc_max_per_peer_bytes = 60\<rparr>)
      [Acquire 0 ''a'' 50, Acquire 1 ''b'' 0, Release 0])) = 0 + held (outstanding
    (qs_leases (foldl quota_step
      (quota_start \<lparr>qc_max_transfers = 4, qc_max_bytes = 100, qc_max_per_peer_transfers = 2,
                     qc_max_per_peer_bytes = 60\<rparr>)
      [Acquire 0 ''a'' 50, Acquire 1 ''b'' 0, Release 0])))"
  using quota_books_exact [of "\<lparr>qc_max_transfers = 4, qc_max_bytes = 100,
      qc_max_per_peer_transfers = 2, qc_max_per_peer_bytes = 60\<rparr>"
      "[Acquire 0 ''a'' 50, Acquire 1 ''b'' 0, Release 0]"]
  by (simp add: limits_ok_def new_transfer_quota_def)

text \<open>The acceptance condition without the code's overflow-safe rearrangements.\<close>

definition quota_fits :: "quota \<Rightarrow> lease multiset \<Rightarrow> string \<Rightarrow> int \<Rightarrow> bool" where
  "quota_fits q M p r \<longleftrightarrow>
     held M + r \<le> max_int64 \<and>
     (0 < max_transfers q \<longrightarrow> int (size M) + 1 \<le> max_transfers q) \<and>
     (0 < max_per_peer_transfers q \<longrightarrow> int (size (of_peer p M)) + 1 \<le> max_per_peer_transfers q) \<and>
     (0 < max_bytes q \<longrightarrow> held M + r \<le> max_bytes q) \<and>
     (0 < max_per_peer_bytes q \<longrightarrow> held (of_peer p M) + r \<le> max_per_peer_bytes q)"

lemma acquire_refusal_fits:
  assumes inv: "quota_inv q M" and r: "0 < r" "r \<le> max_int64"
  shows "acquire_refusal q (abs_usage M p) r = None \<longleftrightarrow> quota_fits q M p r"
proof -
  have pos: "\<forall>l \<in># M. 0 < l_bytes l" and act: "active_bytes q = held M"
    "active_transfers q = int (size M)" and lim: "limits_ok q"
    and wl: "held M \<le> max_int64"
    using inv by (auto simp: quota_inv_def within_limits_def)
  have h: "0 \<le> held M" "0 \<le> held (of_peer p M)" "held (of_peer p M) \<le> held M"
    using pos of_peer_pos held_of_peer_le by (auto intro: held_nonneg)
  have s: "i64 (max_quota_bytes - r) = max_int64 - r"
    "0 < max_bytes q \<Longrightarrow> i64 (max_bytes q - held M) = max_bytes q - held M"
    "0 < max_per_peer_bytes q \<Longrightarrow>
      i64 (max_per_peer_bytes q - held (of_peer p M)) = max_per_peer_bytes q - held (of_peer p M)"
    using r h wl lim by (simp_all add: max_quota_bytes_def i64_sub limits_ok_def)
  have o: "overflow_check q (abs_usage M p) r \<longleftrightarrow> max_int64 < held M + r"
    using r h s(1) by (auto simp: overflow_check_def act abs_usage_def)
  have b: "byte_refusal q (abs_usage M p) r = None \<longleftrightarrow>
      (0 < max_bytes q \<longrightarrow> held M + r \<le> max_bytes q) \<and>
      (0 < max_per_peer_bytes q \<longrightarrow> held (of_peer p M) + r \<le> max_per_peer_bytes q)"
    using r h s(2,3) by (auto simp: byte_refusal_def act abs_usage_def)
  have t: "(0 < max_transfers q \<and> max_transfers q \<le> active_transfers q) \<longleftrightarrow>
      \<not> (0 < max_transfers q \<longrightarrow> int (size M) + 1 \<le> max_transfers q)"
    "(0 < max_per_peer_transfers q \<and> max_per_peer_transfers q \<le> us_transfers (abs_usage M p)) \<longleftrightarrow>
      \<not> (0 < max_per_peer_transfers q \<longrightarrow> int (size (of_peer p M)) + 1 \<le> max_per_peer_transfers q)"
    by (auto simp: act abs_usage_def)
  show ?thesis
    unfolding acquire_refusal_def quota_fits_def o t using b by (simp add: not_less)
qed

text \<open>
  \<open>Acquire\<close> grants a lease exactly when the declared size is not negative and one more
  transfer with its reservation fits every limit; the overflow-safe guards of the code decide the
  same condition as the plain sums.
\<close>

theorem quota_acquire_iff:
  assumes "quota_inv q M" "declared \<le> max_int64"
  shows "(\<exists>q' l. quota_acquire q peer declared = (q', Inr l)) \<longleftrightarrow>
    0 \<le> declared \<and> quota_fits q M (normalize_quota_peer peer) (quota_reservation q declared)"
proof (cases "0 \<le> declared")
  case True
  let ?p = "normalize_quota_peer peer" and ?r = "quota_reservation q declared"
  have inv: "quota_inv (init_peers q) M" by (rule quota_inv_init [OF assms(1)])
  then have "peer_usage (init_peers q) ?p = abs_usage M ?p"
    by (simp add: quota_inv_def peer_usage_exact)
  moreover have "acquire_refusal (init_peers q) (abs_usage M ?p) ?r = None \<longleftrightarrow> quota_fits q M ?p ?r"
    using acquire_refusal_fits [OF inv reservation_pos [OF True] reservation_range [OF True assms(2)]]
    by (simp add: quota_fits_def)
  ultimately show ?thesis using True
    by (auto simp: quota_acquire_def Let_def split: option.splits)
qed (auto simp: quota_acquire_def Let_def)

theorem quota_acquire_iff_witness:
  "\<exists>q' l. quota_acquire default_transfer_quota ''peer'' 5368709120 = (q', Inr l)"
  by (subst quota_acquire_iff [OF default_quota_inv])
    (simp_all add: quota_fits_def default_quota_limits quota_reservation_def)

text \<open>
  Releasing a lease right after acquiring it restores every counter the quota had before, and a
  second release of the same lease changes nothing.
\<close>

theorem quota_acquire_release:
  assumes "quota_inv q M" "declared \<le> max_int64"
    and acq: "quota_acquire q peer declared = (q1, Inr l)"
    and rel: "lease_release q1 l = (q2, l2)"
  shows "active_transfers q2 = active_transfers q \<and> active_bytes q2 = active_bytes q \<and>
    peer_usage q2 p = peer_usage q p \<and> lease_release q2 l2 = (q2, l2)"
proof -
  have "quota_inv q1 (add_mset l M)" by (rule quota_acquire_ok(1) [OF assms(1,2) acq])
  note rel' = lease_release_ok [OF this rel]
  with assms(1) show ?thesis
    by (auto simp: quota_inv_def peer_usage_exact lease_release_def)
qed

theorem quota_acquire_release_witness:
  "\<exists>q1 l q2 l2. quota_acquire default_transfer_quota ''peer'' 7 = (q1, Inr l) \<and>
    lease_release q1 l = (q2, l2) \<and> active_bytes q2 = 0 \<and> lease_release q2 l2 = (q2, l2)"
proof -
  obtain q1 l where acq: "quota_acquire default_transfer_quota ''peer'' 7 = (q1, Inr l)"
    using quota_acquire_iff [OF default_quota_inv, of 7 "''peer''"]
    by (auto simp: quota_fits_def default_quota_limits quota_reservation_def)
  obtain q2 l2 where rel: "lease_release q1 l = (q2, l2)" by force
  from quota_acquire_release [OF default_quota_inv _ acq rel] acq rel show ?thesis
    by (auto simp: default_quota_limits)
qed

end
