(* ===== verification/Tombstones.thy ===== *)
theory Tombstones
  imports Drop_Types
begin

text \<open>
  Completion tombstones (internal/drop/tombstone.go): the bounded ledger of finished transfers by
  idempotency key, which the receiver consults to acknowledge a retry without publishing twice.
  The file behind the ledger is written by \<open>writeTombstoneFile\<close>, modelled in
  \<open>Atomic_Publish\<close>; here \<open>tb_disk\<close> is its decoded content.
\<close>

section \<open>State and operations\<close>

definition max_tombstone_entries :: int where "max_tombstone_entries = 1024"
definition tombstone_retention :: go_duration where "tombstone_retention = 24 * hour"

record tombstone_entry =
  te_key :: string
  te_drop_id :: string
  te_kind :: string
  te_name :: string
  te_size :: int
  te_mime_type :: string
  te_chunk_size :: int
  te_head_hash :: string
  te_sha256 :: string
  te_bytes :: int
  te_completed_at :: go_time

definition tombstone_matches :: "tombstone_entry \<Rightarrow> drop_send \<Rightarrow> bool" where
  "tombstone_matches e meta0 \<longleftrightarrow>
     (let meta = normalize_chunk meta0
      in te_kind e = ds_kind meta \<and> te_name e = ds_name meta \<and> te_size e = ds_size meta \<and>
         te_mime_type e = ds_mime_type meta \<and> te_chunk_size e = ds_chunk_size meta \<and>
         equal_fold (te_head_hash e) (ds_head_hash meta))"

record tombstones =
  tb_path :: string
  tb_max_entries :: int
  tb_max_age :: go_duration
  tb_entries :: "(string \<times> tombstone_entry) list"
  tb_persist_failed :: bool

definition tombstone_lookup :: "tombstones \<Rightarrow> string \<Rightarrow> tombstone_entry option" where
  "tombstone_lookup s key = (if trim_space key = '''' then None else map_of (tb_entries s) key)"

definition drop_expired ::
  "go_time \<Rightarrow> go_duration \<Rightarrow> (string \<times> tombstone_entry) list \<Rightarrow> (string \<times> tombstone_entry) list" where
  "drop_expired now age m =
     (if 0 < age then
        filter (\<lambda>(k, e). \<not> (te_completed_at e \<noteq> 0 \<and> te_completed_at e < now - age)) m
      else m)"

definition evict_oldest ::
  "int \<Rightarrow> (string \<times> tombstone_entry) list \<Rightarrow> (string \<times> tombstone_entry) list" where
  "evict_oldest bound m =
     (if 0 < bound \<and> bound < int (length m) then
        let ordered = sort_key te_completed_at (map snd m)
        in fold (\<lambda>e. AList.delete (te_key e)) (take (length m - nat bound) ordered) m
      else m)"

definition prune_tombstones :: "go_time \<Rightarrow> tombstones \<Rightarrow> tombstones" where
  "prune_tombstones now s =
     s\<lparr>tb_entries := evict_oldest (tb_max_entries s) (drop_expired now (tb_max_age s) (tb_entries s))\<rparr>"

text \<open>
  \<open>Record\<close>: the entry is stored and the store pruned; then the snapshot goes to the file, whose
  failure (\<open>write_ok = False\<close>) is only noted. The result is the store and the snapshot handed to
  the file writer, if there is a file.
\<close>

definition tombstone_record ::
  "go_time \<Rightarrow> bool \<Rightarrow> tombstones \<Rightarrow> tombstone_entry \<Rightarrow> tombstones \<times> tombstone_entry list option" where
  "tombstone_record now write_ok s e0 =
     (if trim_space (te_key e0) = '''' then (s, None)
      else
        let e = (if te_completed_at e0 = 0 then e0\<lparr>te_completed_at := now\<rparr> else e0);
            s1 = prune_tombstones now (s\<lparr>tb_entries := AList.update (te_key e) e (tb_entries s)\<rparr>);
            snapshot = map snd (tb_entries s1)
        in if tb_path s \<noteq> '''' then
             (if write_ok then s1 else s1\<lparr>tb_persist_failed := True\<rparr>, Some snapshot)
           else (s1, None))"

fun load_entries ::
  "tombstone_entry list \<Rightarrow> (string \<times> tombstone_entry) list \<Rightarrow> (string \<times> tombstone_entry) list" where
  "load_entries [] m = m"
| "load_entries (e # es) m =
     (if trim_space (te_key e) = '''' \<or> te_sha256 e = '''' then load_entries es m
      else load_entries es (AList.update (te_key e) e m))"

text \<open>
  \<open>NewTombstones\<close> with its \<open>load\<close>: the file's entries, or \<open>None\<close> when it cannot be read,
  is too large or does not decode.
\<close>

definition new_tombstones :: "go_time \<Rightarrow> string \<Rightarrow> tombstone_entry list option \<Rightarrow> tombstones" where
  "new_tombstones now path file =
     (let s = \<lparr>tb_path = path, tb_max_entries = max_tombstone_entries,
               tb_max_age = tombstone_retention, tb_entries = [], tb_persist_failed = False\<rparr>
      in if trim_space path = '''' then s
         else (case file of None \<Rightarrow> s
               | Some es \<Rightarrow> prune_tombstones now (s\<lparr>tb_entries := load_entries es []\<rparr>)))"

section \<open>Well-formed ledgers\<close>

definition ledger_ok :: "(string \<times> tombstone_entry) list \<Rightarrow> bool" where
  "ledger_ok m \<longleftrightarrow> keys_distinct m \<and> (\<forall>(k, e) \<in> set m. te_key e = k)"

lemma ledger_ok_Nil [simp]: "ledger_ok []"
  by (simp add: ledger_ok_def)

lemma ledger_ok_update: "ledger_ok m \<Longrightarrow> ledger_ok (AList.update (te_key e) e m)"
  by (auto simp: ledger_ok_def distinct_update dest!: alist_update_cases)

lemma ledger_ok_filter: "ledger_ok m \<Longrightarrow> ledger_ok (filter P m)"
  by (auto simp: ledger_ok_def keys_distinct_filter)

lemma ledger_ok_expired: "ledger_ok m \<Longrightarrow> ledger_ok (drop_expired now age m)"
  by (simp add: drop_expired_def ledger_ok_filter)

lemma ledger_ok_evict: "ledger_ok m \<Longrightarrow> ledger_ok (evict_oldest bound m)"
  by (simp add: evict_oldest_def Let_def fold_delete_filter ledger_ok_filter)

lemma ledger_ok_load: "ledger_ok m \<Longrightarrow> ledger_ok (load_entries es m)"
  by (induction es m rule: load_entries.induct) (auto simp: ledger_ok_update)

lemma ledger_values:
  assumes "ledger_ok m"
  shows "distinct (map snd m)" "inj_on te_key (snd ` set m)" "te_key ` snd ` set m = fst ` set m"
proof -
  have k: "te_key (snd x) = fst x" if "x \<in> set m" for x
    using that assms by (auto simp: ledger_ok_def)
  have m: "map te_key (map snd m) = map fst m"
    using k by simp
  then have "distinct (map te_key (map snd m))"
    using assms by (metis ledger_ok_def)
  then show "distinct (map snd m)" "inj_on te_key (snd ` set m)"
    by (simp_all only: distinct_map set_map)
  show "te_key ` snd ` set m = fst ` set m"
    using k by (force simp: image_iff)
qed

lemma length_evict_full:
  assumes "ledger_ok m" "0 < bound" "bound < int (length m)"
  shows "int (length (evict_oldest bound m)) = bound"
proof -
  let ?vs = "take (length m - nat bound) (sort_key te_completed_at (map snd m))"
  have sub: "set ?vs \<subseteq> snd ` set m" using set_take_subset by fastforce
  have d: "distinct ?vs" using ledger_values(1) [OF assms(1)] by simp
  have "card (te_key ` set ?vs) = card (set ?vs)"
    using ledger_values(2) [OF assms(1)] sub by (meson card_image inj_on_subset)
  also have "\<dots> = length m - nat bound" using distinct_card [OF d] by simp
  finally have c: "card (te_key ` set ?vs) = length m - nat bound" .
  have "te_key ` set ?vs \<subseteq> fst ` set m"
    using sub ledger_values(3) [OF assms(1)] by blast
  then have "length (evict_oldest bound m) = length m - (length m - nat bound)"
    using assms c
    by (simp add: evict_oldest_def Let_def fold_delete_filter length_filter_keys ledger_ok_def)
  then show ?thesis using assms(2,3) by simp
qed

lemma length_evict: "ledger_ok m \<Longrightarrow> 0 < bound \<Longrightarrow> int (length (evict_oldest bound m)) \<le> bound"
  using length_evict_full [of m bound] by (cases "bound < int (length m)") (simp_all add: evict_oldest_def)

lemma length_expired: "length (drop_expired now age m) \<le> length m"
  by (simp add: drop_expired_def)

text \<open>A strictly newest entry survives pruning.\<close>

lemma newest_survives:
  assumes ok: "ledger_ok m" and e: "(k, e) \<in> set m" and t: "te_completed_at e = now"
    and newest: "\<And>k' e'. (k', e') \<in> set m \<Longrightarrow> k' \<noteq> k \<Longrightarrow> te_completed_at e' < now"
  shows "map_of (evict_oldest bound (drop_expired now age m)) k = Some e"
proof -
  let ?m = "drop_expired now age m"
  have ok': "ledger_ok ?m" by (rule ledger_ok_expired [OF ok])
  have k: "te_key e = k" using ok e by (auto simp: ledger_ok_def)
  have in_m: "(k, e) \<in> set ?m" using e t by (auto simp: drop_expired_def)
  have sub: "set ?m \<subseteq> set m" by (auto simp: drop_expired_def)
  have "(k, e) \<in> set (evict_oldest bound ?m)"
  proof (cases "0 < bound \<and> bound < int (length ?m)")
    case True
    let ?vs = "take (length ?m - nat bound) (sort_key te_completed_at (map snd ?m))"
    have less: "te_completed_at y < te_completed_at e" if "y \<in> set (map snd ?m)" "y \<noteq> e" for y
    proof -
      have "y \<in> snd ` set ?m" using that(1) by simp
      then obtain x where "x \<in> set ?m" "y = snd x" by (rule imageE)
      then have y: "(fst x, y) \<in> set ?m" by simp
      define k' where "k' = fst x"
      have "k' \<noteq> k"
        using y in_m ok' that(2) unfolding k'_def by (metis eq_key_imp_eq_value ledger_ok_def)
      then show ?thesis using y sub newest t unfolding k'_def by blast
    qed
    have "e \<notin> set ?vs"
      by (rule sort_key_take_newest) (use True less ledger_values(1) [OF ok'] in auto)
    moreover have "set ?vs \<subseteq> snd ` set ?m" using set_take_subset by fastforce
    moreover have "e \<in> snd ` set ?m" using in_m by force
    ultimately have "te_key e \<notin> te_key ` set ?vs"
      using ledger_values(2) [OF ok'] by (meson inj_on_image_mem_iff)
    with True in_m k show ?thesis by (simp add: evict_oldest_def Let_def fold_delete_filter)
  next
    case False
    with in_m show ?thesis by (auto simp: evict_oldest_def)
  qed
  moreover have "keys_distinct (evict_oldest bound ?m)"
    using ledger_ok_evict [OF ok'] by (simp add: ledger_ok_def)
  ultimately show ?thesis by simp
qed

text \<open>What eviction removes is no newer than what it keeps.\<close>

lemma evicted_oldest:
  assumes ok: "ledger_ok m" and kept: "(k, e) \<in> set (evict_oldest bound m)"
    and gone: "(k', e') \<in> set m" "(k', e') \<notin> set (evict_oldest bound m)"
  shows "te_completed_at e' \<le> te_completed_at e"
proof -
  let ?j = "length m - nat bound" and ?s = "sort_key te_completed_at (map snd m)"
  have b: "0 < bound" "bound < int (length m)"
    using gone by (auto simp: evict_oldest_def split: if_splits)
  have ev: "evict_oldest bound m = filter (\<lambda>(k, v). k \<notin> te_key ` set (take ?j ?s)) m"
    using b by (simp add: evict_oldest_def Let_def fold_delete_filter)
  have kk: "te_key e = k" "te_key e' = k'" "(k, e) \<in> set m"
    using ok kept gone(1) ev by (auto simp: ledger_ok_def)
  have e: "e \<notin> set (take ?j ?s)" using kept kk(1) by (auto simp: ev)
  have "k' \<in> te_key ` set (take ?j ?s)" using gone by (simp add: ev)
  then obtain v where v: "v \<in> set (take ?j ?s)" "te_key v = k'" by auto
  have vm: "v \<in> snd ` set m" using v(1) set_take_subset by fastforce
  moreover have "e' \<in> snd ` set m" using gone(1) by force
  ultimately have ve: "v = e'" using ledger_values(2) [OF ok] v(2) kk(2) by (auto dest: inj_onD)
  have "e \<in> set ?s" using kk(3) by force
  then have "e \<in> set (drop ?j ?s)" using e by (metis Un_iff append_take_drop_id set_append)
  moreover have "sorted (map te_completed_at (take ?j ?s) @ map te_completed_at (drop ?j ?s))"
    by (metis append_take_drop_id map_append sorted_sort_key)
  ultimately show ?thesis using v(1) ve by (auto simp: sorted_append)
qed

section \<open>The ledger as an interface\<close>

text \<open>
  What a receiver relies on: a record made at a time later than every earlier one is found under
  its key, with the time stamped on it, and lookups never return an entry of another key.
\<close>

locale completion_ledger =
  fixes lookup :: "'s \<Rightarrow> string \<Rightarrow> tombstone_entry option"
    and record_at :: "go_time \<Rightarrow> 's \<Rightarrow> tombstone_entry \<Rightarrow> 's"
    and live :: "go_time \<Rightarrow> 's \<Rightarrow> bool"
  assumes lookup_key: "live t s \<Longrightarrow> lookup s k = Some e \<Longrightarrow> te_key e = k"
    and lookup_record: "live t s \<Longrightarrow> trim_space (te_key e) \<noteq> '''' \<Longrightarrow> te_completed_at e = 0 \<Longrightarrow>
      lookup (record_at t s e) (te_key e) = Some (e\<lparr>te_completed_at := t\<rparr>)"
    and live_record: "live t s \<Longrightarrow> t < t' \<Longrightarrow> te_completed_at e = 0 \<Longrightarrow> live t' (record_at t s e)"
begin

text \<open>The entry a retry finds describes the recorded transfer, whatever was under the key before.\<close>

lemma record_matches:
  assumes "live t s" "trim_space (te_key e) \<noteq> ''''" "te_completed_at e = 0" "tombstone_matches e meta"
  obtains e' where "lookup (record_at t s e) (te_key e) = Some e'" "tombstone_matches e' meta"
    "te_sha256 e' = te_sha256 e"
proof (rule that)
  show "lookup (record_at t s e) (te_key e) = Some (e\<lparr>te_completed_at := t\<rparr>)"
    using assms by (simp add: lookup_record)
  show "tombstone_matches (e\<lparr>te_completed_at := t\<rparr>) meta"
    using assms(4) by (simp add: tombstone_matches_def)
qed simp

lemma record_twice:
  assumes "live t s" "t < t'" "te_key e' = te_key e" "trim_space (te_key e) \<noteq> ''''"
    "te_completed_at e = 0" "te_completed_at e' = 0"
  shows "lookup (record_at t' (record_at t s e) e') (te_key e) = Some (e'\<lparr>te_completed_at := t'\<rparr>)"
  using lookup_record [OF live_record [OF assms(1,2,5)], of e'] assms(3,4,6) by simp

end

definition tombstones_live :: "go_time \<Rightarrow> tombstones \<Rightarrow> bool" where
  "tombstones_live t s \<longleftrightarrow> 0 < t \<and> ledger_ok (tb_entries s) \<and>
     (\<forall>(k, e) \<in> set (tb_entries s). te_completed_at e < t)"

lemma record_entries:
  assumes "trim_space (te_key e) \<noteq> ''''" "te_completed_at e = 0"
  shows "tb_entries (fst (tombstone_record t ok s e)) =
    evict_oldest (tb_max_entries s) (drop_expired t (tb_max_age s)
      (AList.update (te_key e) (e\<lparr>te_completed_at := t\<rparr>) (tb_entries s)))"
  using assms by (simp add: tombstone_record_def prune_tombstones_def Let_def)

lemma record_blank: "trim_space (te_key e) = '''' \<Longrightarrow> tombstone_record t ok s e = (s, None)"
  by (simp add: tombstone_record_def)

lemma evict_sub: "set (evict_oldest b m) \<subseteq> set m"
  by (auto simp: evict_oldest_def Let_def fold_delete_filter)

lemma expired_sub: "set (drop_expired t a m) \<subseteq> set m"
  by (auto simp: drop_expired_def)

interpretation ledger: completion_ledger tombstone_lookup
  "\<lambda>t s e. fst (tombstone_record t ok s e)" tombstones_live for ok
proof
  fix t s k e
  assume "tombstones_live t s" "tombstone_lookup s k = Some e"
  then show "te_key e = k"
    by (auto simp: tombstones_live_def tombstone_lookup_def ledger_ok_def dest!: map_of_SomeD
        split: if_splits)
next
  fix t s and e :: tombstone_entry
  assume l: "tombstones_live t s" and e: "trim_space (te_key e) \<noteq> ''''" "te_completed_at e = 0"
  let ?e = "e\<lparr>te_completed_at := t\<rparr>"
  let ?m = "AList.update (te_key e) ?e (tb_entries s)"
  have ok: "ledger_ok ?m"
    using l ledger_ok_update [of "tb_entries s" ?e] by (simp add: tombstones_live_def)
  have "map_of (evict_oldest (tb_max_entries s) (drop_expired t (tb_max_age s) ?m)) (te_key e) = Some ?e"
    by (rule newest_survives [OF ok alist_update_self])
      (use l in \<open>auto simp: tombstones_live_def dest!: alist_update_cases\<close>)
  then show "tombstone_lookup (fst (tombstone_record t ok s e)) (te_key e) = Some ?e"
    using e by (simp add: tombstone_lookup_def record_entries)
next
  fix t t' s and e :: tombstone_entry
  assume l: "tombstones_live t s" "t < t'" "te_completed_at e = 0"
  let ?m = "AList.update (te_key e) (e\<lparr>te_completed_at := t\<rparr>) (tb_entries s)"
  show "tombstones_live t' (fst (tombstone_record t ok s e))"
  proof (cases "trim_space (te_key e) = ''''")
    case True
    with l show ?thesis by (force simp: tombstones_live_def record_blank)
  next
    case False
    have "ledger_ok ?m"
      using l ledger_ok_update [of "tb_entries s" "e\<lparr>te_completed_at := t\<rparr>"]
      by (simp add: tombstones_live_def)
    moreover have "te_completed_at e' < t'" if "(k, e') \<in> set ?m" for k e'
      using that l by (fastforce simp: tombstones_live_def dest!: alist_update_cases)
    ultimately show ?thesis
      using False l evict_sub expired_sub
      by (fastforce simp: tombstones_live_def record_entries ledger_ok_evict ledger_ok_expired)
  qed
qed

section \<open>The bound\<close>

definition ledger_step :: "tombstones \<Rightarrow> go_time \<times> bool \<times> tombstone_entry \<Rightarrow> tombstones" where
  "ledger_step s ev = (case ev of (now, ok, e) \<Rightarrow> fst (tombstone_record now ok s e))"

definition ledger_inv :: "tombstones \<Rightarrow> bool" where
  "ledger_inv s \<longleftrightarrow> ledger_ok (tb_entries s) \<and>
     (0 < tb_max_entries s \<longrightarrow> int (length (tb_entries s)) \<le> tb_max_entries s)"

lemma prune_ledger_inv: "ledger_ok (tb_entries s) \<Longrightarrow> ledger_inv (prune_tombstones now s)"
  using length_evict [OF ledger_ok_expired]
  by (simp add: ledger_inv_def prune_tombstones_def ledger_ok_evict ledger_ok_expired)

lemma ledger_step_inv: "ledger_inv s \<Longrightarrow> ledger_inv (ledger_step s ev)"
proof -
  assume inv: "ledger_inv s"
  obtain now ok e where ev: "ev = (now, ok, e)" by (cases ev)
  let ?e = "if te_completed_at e = 0 then e\<lparr>te_completed_at := now\<rparr> else e"
  have "ledger_ok (AList.update (te_key ?e) ?e (tb_entries s))"
    using inv by (intro ledger_ok_update) (simp add: ledger_inv_def)
  then have "ledger_inv (prune_tombstones now
      (s\<lparr>tb_entries := AList.update (te_key ?e) ?e (tb_entries s)\<rparr>))"
    by (intro prune_ledger_inv) simp
  with inv show ?thesis
    by (auto simp: ledger_step_def ev tombstone_record_def Let_def ledger_inv_def)
qed

lemma ledger_step_cap: "tb_max_entries (ledger_step s ev) = tb_max_entries s"
  by (auto simp: ledger_step_def tombstone_record_def prune_tombstones_def Let_def split: prod.splits)

interpretation ledger_bound: bounded_stepper ledger_step ledger_inv
  "\<lambda>s. int (length (tb_entries s))" tb_max_entries
  by unfold_locales (simp_all add: ledger_step_inv ledger_step_cap, simp add: ledger_inv_def)

lemma new_tombstones_inv: "ledger_inv (new_tombstones now path file)"
proof (cases "trim_space path = '''' \<or> file = None")
  case True
  then show ?thesis by (auto simp: new_tombstones_def Let_def ledger_inv_def)
next
  case False
  then show ?thesis
    by (auto simp: new_tombstones_def Let_def intro!: prune_ledger_inv ledger_ok_load)
qed

lemma new_tombstones_cap: "tb_max_entries (new_tombstones now path file) = 1024"
  by (simp add: new_tombstones_def Let_def prune_tombstones_def max_tombstone_entries_def
      split: option.splits)

section \<open>How long an entry stays\<close>

text \<open>
  A completion of another key that is recorded after \<open>at\<close> and within the retention counted from it.
\<close>

definition later_record :: "go_time \<Rightarrow> go_duration \<Rightarrow> string \<Rightarrow> go_time \<times> bool \<times> tombstone_entry \<Rightarrow> bool" where
  "later_record at age k ev \<longleftrightarrow>
     (case ev of (now, ok, e) \<Rightarrow> te_key e \<noteq> k \<and> te_completed_at e = 0 \<and> at < now \<and> now \<le> at + age)"

definition newer_keys :: "tombstone_entry \<Rightarrow> (string \<times> tombstone_entry) list \<Rightarrow> string set" where
  "newer_keys x m = {k \<in> fst ` set m. k \<noteq> te_key x \<and> (\<exists>y. (k, y) \<in> set m \<and> te_completed_at x \<le> te_completed_at y)}"

definition holds_entry :: "tombstone_entry \<Rightarrow> nat \<Rightarrow> tombstones \<Rightarrow> bool" where
  "holds_entry x n s \<longleftrightarrow>
     ledger_ok (tb_entries s) \<and> (te_key x, x) \<in> set (tb_entries s) \<and> card (newer_keys x (tb_entries s)) \<le> n"

lemma newer_keys_finite [simp]: "finite (newer_keys x m)"
  by (simp add: newer_keys_def)

lemma newer_keys_mono: "set m' \<subseteq> set m \<Longrightarrow> newer_keys x m' \<subseteq> newer_keys x m"
  by (auto simp: newer_keys_def)

lemma newer_keys_update: "newer_keys x (AList.update k y m) \<subseteq> insert k (newer_keys x m)"
  by (force simp: newer_keys_def dest!: alist_update_cases)

text \<open>An entry is evicted only in favour of as many newer ones as the ledger has room for.\<close>

lemma evicted_for_newer:
  assumes ok: "ledger_ok m" and x: "(te_key x, x) \<in> set m" and few: "0 < bound \<longrightarrow> int (card (newer_keys x m)) < bound"
  shows "(te_key x, x) \<in> set (evict_oldest bound m)"
proof (rule ccontr)
  let ?kept = "evict_oldest bound m"
  assume gone: "(te_key x, x) \<notin> set ?kept"
  with x have b: "0 < bound" "bound < int (length m)" by (auto simp: evict_oldest_def split: if_splits)
  have "k \<in> newer_keys x m" if k: "(k, y) \<in> set ?kept" for k y
  proof -
    have m: "(k, y) \<in> set m" using k evict_sub by blast
    have "k \<noteq> te_key x"
      using m x ok gone k by (metis eq_key_imp_eq_value ledger_ok_def)
    moreover have "te_completed_at x \<le> te_completed_at y" by (rule evicted_oldest [OF ok k x gone])
    ultimately show ?thesis using m by (force simp: newer_keys_def)
  qed
  then have "fst ` set ?kept \<subseteq> newer_keys x m" by auto
  then have "card (fst ` set ?kept) \<le> card (newer_keys x m)" by (rule card_mono [OF newer_keys_finite])
  moreover have "card (fst ` set ?kept) = length ?kept"
    using ledger_ok_evict [OF ok, of bound] by (metis distinct_card ledger_ok_def length_map set_map)
  ultimately show False using few b length_evict_full [OF ok b] by simp
qed

lemma ledger_step_keeps_policy: "tb_max_age (ledger_step s ev) = tb_max_age s"
  by (auto simp: ledger_step_def tombstone_record_def prune_tombstones_def Let_def split: prod.splits)

lemma later_record_holds:
  assumes h: "holds_entry x n s" and later: "later_record (te_completed_at x) (tb_max_age s) (te_key x) ev"
    and few: "0 < tb_max_entries s \<longrightarrow> int (Suc n) < tb_max_entries s"
  shows "holds_entry x (Suc n) (ledger_step s ev)"
proof -
  obtain now ok e where ev: "ev = (now, ok, e)" by (cases ev)
  have e: "te_key e \<noteq> te_key x" "te_completed_at e = 0" "now \<le> te_completed_at x + tb_max_age s"
    using later by (simp_all add: later_record_def ev)
  show ?thesis
  proof (cases "trim_space (te_key e) = ''''")
    case True
    then show ?thesis using h by (simp add: ledger_step_def ev record_blank holds_entry_def)
  next
    case False
    define u where "u = AList.update (te_key e) (e\<lparr>te_completed_at := now\<rparr>) (tb_entries s)"
    define m where "m = drop_expired now (tb_max_age s) u"
    have oku: "ledger_ok u"
      using h ledger_ok_update [of "tb_entries s" "e\<lparr>te_completed_at := now\<rparr>"] by (simp add: u_def holds_entry_def)
    then have ok: "ledger_ok m" unfolding m_def by (rule ledger_ok_expired)
    have "(te_key x, x) \<in> set u"
      using h e(1) by (auto simp: u_def holds_entry_def ledger_ok_def intro!: alist_update_in)
    then have x: "(te_key x, x) \<in> set m" using e(3) by (auto simp: m_def drop_expired_def)
    have "newer_keys x m \<subseteq> insert (te_key e) (newer_keys x (tb_entries s))"
      using newer_keys_mono [of m u x] expired_sub newer_keys_update unfolding m_def u_def by blast
    then have "card (newer_keys x m) \<le> card (insert (te_key e) (newer_keys x (tb_entries s)))" by (intro card_mono) simp_all
    also have "\<dots> \<le> Suc n" using h by (simp add: holds_entry_def card_insert_if)
    finally have c: "card (newer_keys x m) \<le> Suc n" .
    have entries: "tb_entries (ledger_step s ev) = evict_oldest (tb_max_entries s) m"
      using False e(2) by (simp add: ledger_step_def ev record_entries m_def u_def)
    have "card (newer_keys x (evict_oldest (tb_max_entries s) m)) \<le> card (newer_keys x m)"
      by (rule card_mono [OF newer_keys_finite newer_keys_mono [OF evict_sub]])
    moreover have "0 < tb_max_entries s \<longrightarrow> int (card (newer_keys x m)) < tb_max_entries s" using few c by linarith
    ultimately show ?thesis
      using ledger_ok_evict [OF ok] evicted_for_newer [OF ok x] c by (simp add: holds_entry_def entries)
  qed
qed

lemma later_records_hold:
  assumes "holds_entry x n s" "list_all (later_record (te_completed_at x) (tb_max_age s) (te_key x)) recs"
    and "0 < tb_max_entries s \<longrightarrow> int (n + length recs) < tb_max_entries s"
  shows "\<exists>n'. holds_entry x n' (foldl ledger_step s recs)"
  using assms
proof (induction recs arbitrary: n s)
  case (Cons ev recs)
  have "holds_entry x (Suc n) (ledger_step s ev)" by (rule later_record_holds [OF Cons.prems(1)]) (use Cons.prems in auto)
  from Cons.IH [OF this] Cons.prems show ?case by (simp add: ledger_step_keeps_policy ledger_step_cap)
qed auto

text \<open>
  A recorded completion is found through every sequence of later completions of other keys, for the
  retention of the ledger and as long as they are fewer than it has room for.
\<close>

lemma recorded_stays:
  assumes live: "tombstones_live at s" and e: "trim_space (te_key e) \<noteq> ''''" "te_completed_at e = 0"
    and recs: "list_all (later_record at (tb_max_age s) (te_key e)) recs"
      "0 < tb_max_entries s \<longrightarrow> int (length recs) < tb_max_entries s"
  shows "tombstone_lookup (foldl ledger_step (fst (tombstone_record at ok s e)) recs) (te_key e) = Some (e\<lparr>te_completed_at := at\<rparr>)"
proof -
  let ?x = "e\<lparr>te_completed_at := at\<rparr>" and ?s = "fst (tombstone_record at ok s e)"
  let ?u = "AList.update (te_key e) ?x (tb_entries s)"
  have policy: "tb_max_age ?s = tb_max_age s" "tb_max_entries ?s = tb_max_entries s"
    using ledger_step_keeps_policy [of s "(at, ok, e)"] ledger_step_cap [of s "(at, ok, e)"] by (simp_all add: ledger_step_def)
  have "ledger_ok ?u" using live ledger_ok_update [of "tb_entries s" ?x] by (simp add: tombstones_live_def)
  then have ok: "ledger_ok (tb_entries ?s)" by (simp add: record_entries e ledger_ok_evict ledger_ok_expired)
  have "map_of (tb_entries ?s) (te_key e) = Some ?x"
    using ledger.lookup_record [OF live e, of ok] e(1) by (simp add: tombstone_lookup_def)
  then have x: "(te_key ?x, ?x) \<in> set (tb_entries ?s)" by (simp add: map_of_SomeD)
  have "set (tb_entries ?s) \<subseteq> set ?u" using evict_sub expired_sub by (simp add: record_entries e) blast
  then have "newer_keys ?x (tb_entries ?s) \<subseteq> newer_keys ?x ?u" by (rule newer_keys_mono)
  moreover have "newer_keys ?x ?u = {}"
    using live by (fastforce simp: newer_keys_def tombstones_live_def dest!: alist_update_cases)
  ultimately have "holds_entry ?x 0 ?s" using ok x by (simp add: holds_entry_def)
  then obtain n where "holds_entry ?x n (foldl ledger_step ?s recs)"
    using later_records_hold [of ?x 0 ?s recs] recs by (auto simp: policy)
  then show ?thesis using e(1) by (simp add: holds_entry_def tombstone_lookup_def ledger_ok_def)
qed

section \<open>Properties\<close>

text \<open>
  The ledger never holds more than 1,024 completions, whatever its file held when it was loaded
  and whatever is recorded afterwards, and every entry stays filed under its own key.
\<close>

theorem tombstones_bounded:
  "length (tb_entries (foldl ledger_step (new_tombstones now path file) evs)) \<le> 1024 \<and>
   ledger_ok (tb_entries (foldl ledger_step (new_tombstones now path file) evs))"
proof -
  let ?s = "new_tombstones now path file"
  have "int (length (tb_entries (foldl ledger_step ?s evs))) \<le> 1024"
    using ledger_bound.run_used [OF new_tombstones_inv, where es = evs]
    by (simp add: new_tombstones_cap)
  moreover have "ledger_inv (foldl ledger_step ?s evs)"
    by (rule ledger_bound.run_inv [OF new_tombstones_inv])
  ultimately show ?thesis by (simp add: ledger_inv_def)
qed

text \<open>
  A completion recorded now is found by the next lookup of its key, for every policy of age and
  number of entries and even when the ledger file cannot be written, provided the clock has moved
  since the earlier records: pruning never drops the entry it has just stored.
\<close>

theorem tombstone_record_lookup:
  assumes "tombstones_live now s" "trim_space (te_key e) \<noteq> ''''" "te_completed_at e = 0"
  shows "tombstone_lookup (fst (tombstone_record now ok s e)) (te_key e)
    = Some (e\<lparr>te_completed_at := now\<rparr>)"
  by (rule ledger.lookup_record [OF assms])

definition sample_entry :: tombstone_entry where
  "sample_entry = \<lparr>te_key = ''op-1'', te_drop_id = ''d1'', te_kind = kind_file, te_name = ''a.txt'',
     te_size = 3, te_mime_type = '''', te_chunk_size = default_chunk_size, te_head_hash = '''',
     te_sha256 = ''ab'', te_bytes = 3, te_completed_at = 0\<rparr>"

lemma sample_key: "trim_space ''op-1'' = ''op-1''"
  by (rule trim_space_ident) (simp add: ident_char_def less_eq_char_def)

theorem tombstone_record_lookup_witness:
  "tombstone_lookup (fst (tombstone_record 5 False (new_tombstones 1 ''f'' None) sample_entry)) ''op-1''
    = Some (sample_entry\<lparr>te_completed_at := 5\<rparr>)"
  using tombstone_record_lookup [of 5 "new_tombstones 1 ''f'' None" sample_entry False]
  by (simp add: tombstones_live_def new_tombstones_def Let_def sample_entry_def sample_key)

text \<open>
  An unexpired entry leaves the ledger during a record only when the ledger is full, and then
  every entry that stays is at least as recent as it.
\<close>

theorem tombstone_evicts_oldest:
  assumes "ledger_inv s" "trim_space (te_key e) \<noteq> ''''" "te_completed_at e = 0"
    and before: "(k', e') \<in> set (tb_entries s)" "k' \<noteq> te_key e"
      "\<not> te_completed_at e' < now - tb_max_age s"
    and lost: "(k', e') \<notin> set (tb_entries (fst (tombstone_record now ok s e)))"
    and kept: "(k, v) \<in> set (tb_entries (fst (tombstone_record now ok s e)))"
  shows "0 < tb_max_entries s \<and> tb_max_entries s \<le> int (length (tb_entries s)) \<and>
    te_completed_at e' \<le> te_completed_at v"
proof -
  let ?u = "AList.update (te_key e) (e\<lparr>te_completed_at := now\<rparr>) (tb_entries s)"
  let ?m = "drop_expired now (tb_max_age s) ?u"
  have oks: "ledger_ok (tb_entries s)" using assms(1) by (simp add: ledger_inv_def)
  then have ok: "ledger_ok ?m"
    using ledger_ok_update [of "tb_entries s" "e\<lparr>te_completed_at := now\<rparr>"]
    by (intro ledger_ok_expired) simp
  have "(k', e') \<in> set ?u"
    using alist_update_in [OF _ before(1)] oks before(2) by (simp add: ledger_ok_def)
  then have m: "(k', e') \<in> set ?m" using before(3) by (auto simp: drop_expired_def)
  have gone: "(k', e') \<notin> set (evict_oldest (tb_max_entries s) ?m)"
    and stay: "(k, v) \<in> set (evict_oldest (tb_max_entries s) ?m)"
    using lost kept by (simp_all add: record_entries assms(2,3))
  then have full: "0 < tb_max_entries s" "tb_max_entries s < int (length ?m)"
    using m by (auto simp: evict_oldest_def split: if_splits)
  have "length ?m \<le> Suc (length (tb_entries s))"
    using length_expired [of now "tb_max_age s" ?u] by (simp add: length_alist_update split: if_splits)
  with full evicted_oldest [OF ok stay m gone] show ?thesis by simp
qed

definition sample_old :: tombstone_entry where
  "sample_old = sample_entry\<lparr>te_key := ''op-0'', te_completed_at := 3\<rparr>"

definition sample_ledger :: tombstones where
  "sample_ledger = \<lparr>tb_path = [], tb_max_entries = 1, tb_max_age = 100,
     tb_entries = [(''op-0'', sample_old)], tb_persist_failed = False\<rparr>"

theorem tombstone_evicts_oldest_witness:
  "te_completed_at sample_old \<le> te_completed_at (sample_entry\<lparr>te_completed_at := 5\<rparr>)"
proof -
  have inv: "ledger_inv sample_ledger"
    by (simp add: sample_ledger_def sample_old_def ledger_inv_def ledger_ok_def)
  have run: "tb_entries (fst (tombstone_record 5 True sample_ledger sample_entry))
      = [(''op-1'', sample_entry\<lparr>te_completed_at := 5\<rparr>)]"
    by (subst record_entries)
      (simp_all add: sample_ledger_def sample_old_def sample_entry_def sample_key drop_expired_def
        evict_oldest_def Let_def)
  show ?thesis
    using tombstone_evicts_oldest [OF inv, of sample_entry "''op-0''" sample_old 5 True
        "''op-1''" "sample_entry\<lparr>te_completed_at := 5\<rparr>"] run
    by (simp add: sample_ledger_def sample_old_def sample_entry_def sample_key)
qed

end
