(* ===== verification/Drop_Messages.thy ===== *)
theory Drop_Messages
  imports Transfer_Quota Tombstones
begin

text \<open>
  The messages of a QuickDrop session (internal/drop/types.go), the errors a session can end with,
  and what either side sees of the connection. A frame is what one call of
  \<open>receiveDropEnvelope\<close> returns together with the outcome of \<open>DecodePayload\<close>: the
  constructor stands for the envelope's type, and \<open>None\<close> for a payload that does not decode.
\<close>

section \<open>Errors\<close>

text \<open>
  The error strings of internal/drop, one constructor per message. \<open>CallbackError\<close> carries the
  text of an error a hook of the caller returned.
\<close>

datatype drop_error =
    ContextDone
  | ReceiveFailed string
  | UnexpectedType string string
  | DecodeFailed string
  | InvalidMeta meta_error
  | SizeExceedsMax int int
  | TextSizeExceedsMax int int
  | NegativeReceived
  | ReceivedExceedsSize
  | KeyReuse
  | QuotaRefused quota_error
  | CallbackError string
  | NoDestination
  | RestoreFailed
  | DestinationTooLong int int
  | BadResumeCount
  | SendFailed string
  | ChunkSizeTooLarge int
  | NotChunkAligned
  | NotRewindable
  | SeekStartFailed
  | ReadPartialFailed
  | SeekResumeFailed
  | ChunkIdMismatch string string
  | ChunkTooLarge int
  | ShortChunk int int
  | DataExceedsSize
  | OutOfOrder int int
  | BytesExceedMax int
  | TextBytesExceedMax int
  | WriteFailed
  | SyncFailed
  | FinalSizeMismatch int int
  | BadChecksum
  | ChecksumMismatch string string
  | CompletionMismatch
  | PayloadNil
  | AckIdMismatch string string
  | CompleteIdMismatch string string
  | Rejected "drop_error option" int
  | BadResumeOffset int
  | PayloadNotSeekable
  | HashExistingFailed
  | ReadPayloadFailed
  | CompleteCountMismatch int int
  | CompleteDigestMismatch string string

section \<open>Messages\<close>

definition type_drop_send :: string where "type_drop_send = ''drop_send''"
definition type_drop_ack :: string where "type_drop_ack = ''drop_ack''"
definition type_drop_data :: string where "type_drop_data = ''drop_data''"
definition type_drop_complete :: string where "type_drop_complete = ''drop_complete''"
definition type_heartbeat :: string where "type_heartbeat = ''heartbeat''"

text \<open>An \<open>Error\<close> field of the wire is \<open>None\<close> when it is the empty string.\<close>

record drop_ack =
  ak_drop_id :: string
  ak_accepted :: bool
  ak_received_bytes :: int
  ak_error :: "drop_error option"

record drop_data =
  dd_drop_id :: string
  dd_chunk_index :: int
  dd_data :: string
  dd_final :: bool
  dd_sha256 :: string

record drop_complete =
  dc_drop_id :: string
  dc_success :: bool
  dc_bytes_recv :: int
  dc_sha256 :: string
  dc_error :: "drop_error option"
  dc_duplicate :: bool

datatype frame =
    FSend "drop_send option"
  | FAck "drop_ack option"
  | FData "drop_data option"
  | FComplete "drop_complete option"
  | FHeartbeat "string option"
  | FOther string

fun frame_type :: "frame \<Rightarrow> string" where
  "frame_type (FSend _) = type_drop_send"
| "frame_type (FAck _) = type_drop_ack"
| "frame_type (FData _) = type_drop_data"
| "frame_type (FComplete _) = type_drop_complete"
| "frame_type (FHeartbeat _) = type_heartbeat"
| "frame_type (FOther t) = t"

text \<open>What one iteration of a receive loop sees: the context is done, the read fails, a frame.\<close>

datatype net_event = CtxDone | RecvFail | Frame frame

text \<open>What a side hands to \<open>conn.Send\<close>. A heartbeat is echoed with its request id.\<close>

datatype drop_msg =
    SendMsg drop_send
  | AckMsg drop_ack
  | DataMsg drop_data
  | CompleteMsg drop_complete
  | HeartbeatMsg string

text \<open>\<open>DecodePayload\<close> into a zero heartbeat, its error ignored.\<close>

definition heartbeat_reply :: "string option \<Rightarrow> drop_msg" where
  "heartbeat_reply hb = HeartbeatMsg (case hb of None \<Rightarrow> '''' | Some r \<Rightarrow> r)"

text \<open>The frame the peer receives for a message, when the connection delivers it intact.\<close>

fun delivered :: "drop_msg \<Rightarrow> net_event" where
  "delivered (SendMsg m) = Frame (FSend (Some (m\<lparr>ds_attempt_id := ''''\<rparr>)))"
| "delivered (AckMsg a) = Frame (FAck (Some a))"
| "delivered (DataMsg d) = Frame (FData (Some d))"
| "delivered (CompleteMsg c) = Frame (FComplete (Some c))"
| "delivered (HeartbeatMsg r) = Frame (FHeartbeat (Some r))"

section \<open>Byte sequences that are read and written in place\<close>

text \<open>
  A destination (an \<open>io.Writer\<close>): its bytes, the position of the next write, and which of the
  optional interfaces it offers: \<open>ReceivedBytes\<close> (with its answer), \<open>io.Seeker\<close>,
  \<open>io.ReadSeeker\<close>, \<open>Sync\<close>. \<open>io.Discard\<close> keeps nothing and offers none of them.
\<close>

record dest =
  d_bytes :: string
  d_pos :: nat
  d_discard :: bool
  d_reports :: "int option"
  d_seeker :: bool
  d_read_seeker :: bool
  d_syncer :: bool

definition discard_dest :: dest where
  "discard_dest = \<lparr>d_bytes = '''', d_pos = 0, d_discard = True, d_reports = None, d_seeker = False,
     d_read_seeker = False, d_syncer = False\<rparr>"

definition write_at :: "nat \<Rightarrow> string \<Rightarrow> string \<Rightarrow> string" where
  "write_at p new old = take p old @ new @ drop (p + length new) old"

definition dest_write :: "dest \<Rightarrow> string \<Rightarrow> dest" where
  "dest_write d bs =
     (if d_discard d then d
      else d\<lparr>d_bytes := write_at (d_pos d) bs (d_bytes d), d_pos := d_pos d + length bs\<rparr>)"

lemma length_write_at:
  "p \<le> length old \<Longrightarrow> length (write_at p new old) = max (length old) (p + length new)"
  by (simp add: write_at_def)

lemma take_write_at:
  "p \<le> length old \<Longrightarrow> take (p + length new) (write_at p new old) = take p old @ new"
  by (simp add: write_at_def)

lemma dest_write_sel [simp]:
  "d_discard (dest_write d bs) = d_discard d" "d_seeker (dest_write d bs) = d_seeker d"
  "d_read_seeker (dest_write d bs) = d_read_seeker d" "d_syncer (dest_write d bs) = d_syncer d"
  by (simp_all add: dest_write_def)

end
