(* ===== verification/Drop_Receiver.thy ===== *)
theory Drop_Receiver
  imports Drop_Messages
begin

text \<open>
  \<open>ReceiveDrop\<close> (internal/drop/receiver.go) as a state machine: one step per iteration of its two
  receive loops. The straight-line code between the loops (limits, tombstone, quota, destination,
  acknowledgement, prefix of a resumed transfer) is one function per block, composed in
  \<open>accept_transfer\<close> in the order of the source. What the session cannot control - hooks, the
  destination's seeks, writes and syncs, sends, the clock - is the record \<open>recv_env\<close>.
  SHA-256, as \<open>hex.EncodeToString\<close> prints it, is the parameter \<open>sha\<close>.
\<close>

section \<open>Configuration and environment\<close>

definition default_max_drop_size :: int where
  "default_max_drop_size = 5 * 1024 * 1024 * 1024"

definition default_max_text_size :: int where
  "default_max_text_size = 10 * 1024 * 1024"

record recv_result =
  rr_meta :: drop_send
  rr_bytes_written :: int
  rr_payload_sha256 :: string
  rr_duplicate :: bool
  rr_fingerprint :: string
  rr_address :: string

text \<open>
  \<open>ReceiveDropConfig\<close>. The hooks return the text of their error, or a value;
  a hook that is nil is \<open>None\<close>. \<open>TouchActivity\<close> is given the index of the chunk to let the
  answers differ from call to call.
\<close>

record recv_cfg =
  rc_max_size :: int
  rc_max_text_size :: int
  rc_touch_activity :: "(drop_send \<Rightarrow> int \<Rightarrow> string option) option"
  rc_received_bytes :: int
  rc_on_meta :: "(drop_send \<Rightarrow> string + dest option) option"
  rc_before_complete :: "(recv_result \<Rightarrow> string option) option"
  rc_attempt_id :: string

datatype seek_op =
  AskOffset | LenCurrent | LenEnd | LenRestore | PrefixSeek | PrefixRead | ResumeSeek

text \<open>
  \<open>en_write i bs\<close> is what the write of chunk \<open>i\<close> returns: the bytes written (at most
  \<open>length bs\<close>, the contract of \<open>io.Writer\<close>) and whether there was an error.
\<close>

record recv_env =
  en_fault :: "seek_op \<Rightarrow> bool"
  en_write :: "int \<Rightarrow> string \<Rightarrow> nat \<times> bool"
  en_sync_ok :: "int \<Rightarrow> bool"
  en_ack_ok :: bool
  en_complete_ok :: bool
  en_now :: go_time
  en_persist_ok :: bool
  en_fingerprint :: string
  en_address :: "string option"

section \<open>State\<close>

record stream =
  st_meta :: drop_send
  st_total :: int
  st_index :: int
  st_hashed :: string
  st_tomb :: "tombstone_entry option"

text \<open>
  A transfer is a duplicate exactly when it has a tombstone. The state keeps the destination, the
  shared quota with the session's lease, the shared tombstones, the messages sent, and the payloads
  (result and destination) that the publication hook accepted.
\<close>

datatype recv_phase =
    AwaitSend
  | Streaming stream
  | Returned "drop_error + recv_result"

record recv_state =
  rs_phase :: recv_phase
  rs_dest :: "dest option"
  rs_quota :: "quota option"
  rs_lease :: "lease option"
  rs_tombs :: "tombstones option"
  rs_sent :: "drop_msg list"
  rs_published :: "(recv_result \<times> dest option) list"

definition recv_start :: "dest option \<Rightarrow> quota option \<Rightarrow> tombstones option \<Rightarrow> recv_state" where
  "recv_start w q t =
     \<lparr>rs_phase = AwaitSend, rs_dest = w, rs_quota = q, rs_lease = None, rs_tombs = t,
      rs_sent = [], rs_published = []\<rparr>"

definition effective_limit :: "int \<Rightarrow> int \<Rightarrow> int" where
  "effective_limit configured default_limit =
     (if configured = 0 then default_limit else if configured < 0 then 0 else configured)"

abbreviation max_size_of :: "recv_cfg \<Rightarrow> int" where
  "max_size_of cfg \<equiv> effective_limit (rc_max_size cfg) default_max_drop_size"

abbreviation max_text_of :: "recv_cfg \<Rightarrow> int" where
  "max_text_of cfg \<equiv> effective_limit (rc_max_text_size cfg) default_max_text_size"

definition send_out :: "drop_msg \<Rightarrow> recv_state \<Rightarrow> recv_state" where
  "send_out msg s = s\<lparr>rs_sent := rs_sent s @ [msg]\<rparr>"

text \<open>Every return runs the deferred \<open>lease.Release()\<close>.\<close>

definition return_with :: "drop_error + recv_result \<Rightarrow> recv_state \<Rightarrow> recv_state" where
  "return_with r s =
     (let (q, l) = release_ptr (rs_quota s) (rs_lease s)
      in s\<lparr>rs_phase := Returned r, rs_quota := q, rs_lease := l\<rparr>)"

definition refuse :: "drop_send \<Rightarrow> drop_error \<Rightarrow> recv_state \<Rightarrow> recv_state" where
  "refuse meta e s =
     return_with (Inl e)
       (send_out (AckMsg \<lparr>ak_drop_id = ds_drop_id meta, ak_accepted = False, ak_received_bytes = 0,
                           ak_error = Some e\<rparr>) s)"

definition fail_complete :: "drop_send \<Rightarrow> int \<Rightarrow> drop_error \<Rightarrow> recv_state \<Rightarrow> recv_state" where
  "fail_complete meta n e s =
     return_with (Inl e)
       (send_out (CompleteMsg \<lparr>dc_drop_id = ds_drop_id meta, dc_success = False, dc_bytes_recv = n,
                                dc_sha256 = '''', dc_error = Some e, dc_duplicate = False\<rparr>) s)"

section \<open>From the metadata to the acknowledgement\<close>

definition size_refusal :: "recv_cfg \<Rightarrow> drop_send \<Rightarrow> drop_error option" where
  "size_refusal cfg meta =
     (if 0 < max_size_of cfg \<and> 0 < ds_size meta \<and> max_size_of cfg < ds_size meta
        then Some (SizeExceedsMax (ds_size meta) (max_size_of cfg))
      else if ds_kind meta = kind_text \<and> 0 < max_text_of cfg \<and> max_text_of cfg < ds_size meta
        then Some (TextSizeExceedsMax (ds_size meta) (max_text_of cfg))
      else if rc_received_bytes cfg < 0 then Some NegativeReceived
      else if 0 < ds_size meta \<and> ds_size meta < rc_received_bytes cfg then Some ReceivedExceedsSize
      else None)"

definition find_tombstone ::
  "tombstones option \<Rightarrow> drop_send \<Rightarrow> drop_error + tombstone_entry option" where
  "find_tombstone ts meta =
     (case ts of None \<Rightarrow> Inr None
      | Some t \<Rightarrow>
          if ds_idempotency_key meta = '''' then Inr None
          else (case tombstone_lookup t (ds_idempotency_key meta) of
                  None \<Rightarrow> Inr None
                | Some e \<Rightarrow> if tombstone_matches e meta then Inr (Some e) else Inl KeyReuse))"

definition peer_key :: "recv_env \<Rightarrow> string" where
  "peer_key env =
     (if en_fingerprint env = '''' then
        (case en_address env of None \<Rightarrow> '''' | Some a \<Rightarrow> a)
      else en_fingerprint env)"

definition resolve_dest ::
  "recv_cfg \<Rightarrow> dest option \<Rightarrow> tombstone_entry option \<Rightarrow> drop_send \<Rightarrow> drop_error + dest" where
  "resolve_dest cfg w tomb meta =
     (let found = (if tomb \<noteq> None then Inr (Some discard_dest)
                   else (case (w, rc_on_meta cfg) of
                           (None, Some hook) \<Rightarrow>
                             (case hook meta of Inl t \<Rightarrow> Inl (CallbackError t) | Inr d \<Rightarrow> Inr d)
                         | _ \<Rightarrow> Inr w))
      in case found of
           Inl e \<Rightarrow> Inl e
         | Inr None \<Rightarrow> Inl NoDestination
         | Inr (Some d) \<Rightarrow> Inr d)"

definition existing_bytes :: "recv_cfg \<Rightarrow> recv_env \<Rightarrow> dest \<Rightarrow> int" where
  "existing_bytes cfg env d =
     (if rc_received_bytes cfg = 0 then
        (case d_reports d of
           Some n \<Rightarrow> n
         | None \<Rightarrow>
             if d_seeker d \<and> \<not> en_fault env AskOffset \<and> 0 < d_pos d then int (d_pos d) else 0)
      else rc_received_bytes cfg)"

definition length_refusal :: "recv_env \<Rightarrow> drop_send \<Rightarrow> dest \<Rightarrow> drop_error option" where
  "length_refusal env meta d =
     (if 0 < ds_size meta \<and> d_read_seeker d \<and> \<not> en_fault env LenCurrent \<and> \<not> en_fault env LenEnd then
        if en_fault env LenRestore then Some RestoreFailed
        else if ds_size meta < int (length (d_bytes d))
          then Some (DestinationTooLong (int (length (d_bytes d))) (ds_size meta))
        else None
      else None)"

text \<open>
  The offset the receiver advertises: the bytes the destination already holds, zero for a duplicate.
\<close>

definition resume_offset ::
  "recv_cfg \<Rightarrow> recv_env \<Rightarrow> drop_send \<Rightarrow> tombstone_entry option \<Rightarrow> dest \<Rightarrow> drop_error + int" where
  "resume_offset cfg env meta tomb d =
     (let n = existing_bytes cfg env d
      in case length_refusal env meta d of
           Some e \<Rightarrow> Inl e
         | None \<Rightarrow>
             if n < 0 \<or> 0 < ds_size meta \<and> ds_size meta < n then Inl BadResumeCount
             else Inr (if tomb \<noteq> None then 0 else n))"

text \<open>
  After the acknowledgement: the checks of the chunk size and offset, and for a resumed transfer the
  hash of the bytes that are already there. The result is the hasher's content and the destination.
\<close>

definition open_stream ::
  "recv_env \<Rightarrow> drop_send \<Rightarrow> int \<Rightarrow> dest \<Rightarrow> drop_error + (string \<times> dest)" where
  "open_stream env meta n d =
     (if max_chunk_size < ds_chunk_size meta then Inl (ChunkSizeTooLarge (ds_chunk_size meta))
      else if 0 < n \<and> go_mod n (ds_chunk_size meta) \<noteq> 0 then Inl NotChunkAligned
      else if 0 < n then
        (if \<not> d_read_seeker d then Inl NotRewindable
         else if en_fault env PrefixSeek then Inl SeekStartFailed
         else if en_fault env PrefixRead \<or> int (length (d_bytes d)) < n then Inl ReadPartialFailed
         else if en_fault env ResumeSeek then Inl SeekResumeFailed
         else Inr (take (nat n) (d_bytes d), d\<lparr>d_pos := nat n\<rparr>))
      else Inr ('''', d))"

definition start_stream ::
  "recv_env \<Rightarrow> drop_send \<Rightarrow> tombstone_entry option \<Rightarrow> int \<Rightarrow> dest \<Rightarrow> recv_state \<Rightarrow> recv_state" where
  "start_stream env meta tomb n d s0 =
     (let s = send_out (AckMsg \<lparr>ak_drop_id = ds_drop_id meta, ak_accepted = True,
                                ak_received_bytes = n, ak_error = None\<rparr>) (s0\<lparr>rs_dest := Some d\<rparr>)
      in if \<not> en_ack_ok env then return_with (Inl (SendFailed type_drop_ack)) s
         else (case open_stream env meta n d of
                 Inl e \<Rightarrow> fail_complete meta 0 e s
               | Inr (prefix, d') \<Rightarrow>
                   s\<lparr>rs_dest := Some d',
                     rs_phase := Streaming
                       \<lparr>st_meta = meta, st_total = n,
                        st_index = (if 0 < n then go_div n (ds_chunk_size meta) else 0),
                        st_hashed = prefix, st_tomb = tomb\<rparr>\<rparr>))"

definition accept_transfer :: "recv_cfg \<Rightarrow> recv_env \<Rightarrow> drop_send \<Rightarrow> recv_state \<Rightarrow> recv_state" where
  "accept_transfer cfg env meta s =
     (case size_refusal cfg meta of
        Some e \<Rightarrow> refuse meta e s
      | None \<Rightarrow>
      (case find_tombstone (rs_tombs s) meta of
        Inl e \<Rightarrow> refuse meta e s
      | Inr tomb \<Rightarrow>
      (case acquire_ptr (rs_quota s) (peer_key env) (ds_size meta) of
        (q, Inl e) \<Rightarrow> refuse meta (QuotaRefused e) (s\<lparr>rs_quota := q\<rparr>)
      | (q, Inr l) \<Rightarrow>
          let s1 = s\<lparr>rs_quota := q, rs_lease := l\<rparr>
          in (case resolve_dest cfg (rs_dest s) tomb meta of
                Inl e \<Rightarrow> refuse meta e s1
              | Inr d \<Rightarrow>
                  (case resume_offset cfg env meta tomb d of
                     Inl e \<Rightarrow> refuse meta e s1
                   | Inr n \<Rightarrow> start_stream env meta tomb n d s1)))))"

text \<open>The metadata as used from here on: chunk size normalised, the local attempt id set.\<close>

definition local_meta :: "recv_cfg \<Rightarrow> drop_send \<Rightarrow> drop_send" where
  "local_meta cfg meta =
     (let m = normalize_chunk meta
      in if rc_attempt_id cfg \<noteq> '''' then m\<lparr>ds_attempt_id := rc_attempt_id cfg\<rparr> else m)"

definition on_await :: "recv_cfg \<Rightarrow> recv_env \<Rightarrow> net_event \<Rightarrow> recv_state \<Rightarrow> recv_state" where
  "on_await cfg env ev s =
     (case ev of
        CtxDone \<Rightarrow> return_with (Inl ContextDone) s
      | RecvFail \<Rightarrow> return_with (Inl (ReceiveFailed type_drop_send)) s
      | Frame (FHeartbeat hb) \<Rightarrow> send_out (heartbeat_reply hb) s
      | Frame (FSend (Some meta)) \<Rightarrow>
          (case validate_drop_metadata meta of
             Some e \<Rightarrow> refuse meta (InvalidMeta e) s
           | None \<Rightarrow> accept_transfer cfg env (local_meta cfg meta) s)
      | Frame (FSend None) \<Rightarrow> return_with (Inl (DecodeFailed type_drop_send)) s
      | Frame f \<Rightarrow> return_with (Inl (UnexpectedType type_drop_send (frame_type f))) s)"

section \<open>Data chunks\<close>

text \<open>
  The checks of a chunk before its bytes are touched, in order. A refusal carries the byte count the
  failure message reports (some of them report none, that is 0).
\<close>

definition chunk_refusal :: "recv_cfg \<Rightarrow> stream \<Rightarrow> drop_data \<Rightarrow> (int \<times> drop_error) option" where
  "chunk_refusal cfg st c =
     (let meta = st_meta st; total = st_total st; n = int (length (dd_data c))
      in if dd_drop_id c \<noteq> ds_drop_id meta
           then Some (total, ChunkIdMismatch (ds_drop_id meta) (dd_drop_id c))
         else if ds_chunk_size meta < n then Some (0, ChunkTooLarge (ds_chunk_size meta))
         else if \<not> dd_final c \<and> n \<noteq> ds_chunk_size meta
           then Some (0, ShortChunk n (ds_chunk_size meta))
         else if 0 < ds_size meta \<and> ds_size meta < total + n then Some (0, DataExceedsSize)
         else if dd_chunk_index c \<noteq> st_index st
           then Some (total, OutOfOrder (st_index st) (dd_chunk_index c))
         else if 0 < max_size_of cfg \<and> max_size_of cfg < total + n
           then Some (total, BytesExceedMax (max_size_of cfg))
         else if ds_kind meta = kind_text \<and> 0 < max_text_of cfg \<and> max_text_of cfg < total + n
           then Some (total, TextBytesExceedMax (max_text_of cfg))
         else None)"

definition touch_error :: "recv_cfg \<Rightarrow> stream \<Rightarrow> string option" where
  "touch_error cfg st =
     (case (st_tomb st, rc_touch_activity cfg) of
        (None, Some hook) \<Rightarrow> hook (st_meta st) (st_index st)
      | _ \<Rightarrow> None)"

text \<open>
  Storing a non-empty chunk: the activity hook, the quota, the write (a short write is an error, and
  leaves what it wrote), the hash, the sync. \<open>Inr\<close> carries the state to continue with.
\<close>

definition store_chunk ::
  "recv_cfg \<Rightarrow> recv_env \<Rightarrow> stream \<Rightarrow> string \<Rightarrow> recv_state \<Rightarrow>
     (drop_error \<times> recv_state) + (stream \<times> recv_state)" where
  "store_chunk cfg env st bs s =
     (if bs = [] then Inr (st, s)
      else (case touch_error cfg st of
        Some t \<Rightarrow> Inl (CallbackError t, s)
      | None \<Rightarrow>
      (case add_bytes_ptr (rs_quota s) (rs_lease s) (int (length bs)) of
        Inl e \<Rightarrow> Inl (QuotaRefused e, s)
      | Inr (q, l) \<Rightarrow>
          let (n, failed) = en_write env (st_index st) bs;
              s1 = s\<lparr>rs_quota := q, rs_lease := l,
                     rs_dest := map_option (\<lambda>d. dest_write d (take n bs)) (rs_dest s)\<rparr>
          in if failed \<or> n \<noteq> length bs then Inl (WriteFailed, s1)
             else
               let syncs = (case rs_dest s of None \<Rightarrow> False | Some d \<Rightarrow> d_syncer d)
               in if syncs \<and> \<not> en_sync_ok env (st_index st) then Inl (SyncFailed, s1)
                  else Inr (st\<lparr>st_total := st_total st + int n, st_hashed := st_hashed st @ bs\<rparr>,
                            s1))))"

text \<open>The checks of the final chunk, over the whole payload.\<close>

definition final_refusal ::
  "(string \<Rightarrow> string) \<Rightarrow> stream \<Rightarrow> drop_data \<Rightarrow> (int \<times> drop_error) option" where
  "final_refusal sha st c =
     (let total = st_total st; size = ds_size (st_meta st); computed = sha (st_hashed st)
      in if 0 < size \<and> total \<noteq> size then Some (0, FinalSizeMismatch total size)
         else if \<not> valid_sha256_hex (dd_sha256 c) then Some (0, BadChecksum)
         else if \<not> equal_fold computed (dd_sha256 c)
           then Some (total, ChecksumMismatch (dd_sha256 c) computed)
         else (case st_tomb st of
                 None \<Rightarrow> None
               | Some e \<Rightarrow> if equal_fold computed (te_sha256 e) then None
                           else Some (total, CompletionMismatch)))"

definition session_result :: "(string \<Rightarrow> string) \<Rightarrow> recv_env \<Rightarrow> stream \<Rightarrow> recv_result" where
  "session_result sha env st =
     \<lparr>rr_meta = st_meta st, rr_bytes_written = st_total st,
      rr_payload_sha256 = sha (st_hashed st), rr_duplicate = (st_tomb st \<noteq> None),
      rr_fingerprint = en_fingerprint env,
      rr_address = (case en_address env of None \<Rightarrow> '''' | Some a \<Rightarrow> a)\<rparr>"

definition completion_entry :: "(string \<Rightarrow> string) \<Rightarrow> stream \<Rightarrow> tombstone_entry" where
  "completion_entry sha st =
     (let meta = st_meta st
      in \<lparr>te_key = ds_idempotency_key meta, te_drop_id = ds_drop_id meta, te_kind = ds_kind meta,
          te_name = ds_name meta, te_size = ds_size meta, te_mime_type = ds_mime_type meta,
          te_chunk_size = ds_chunk_size (normalize_chunk meta), te_head_hash = ds_head_hash meta,
          te_sha256 = sha (st_hashed st), te_bytes = st_total st, te_completed_at = 0\<rparr>)"

definition record_completion ::
  "(string \<Rightarrow> string) \<Rightarrow> recv_env \<Rightarrow> stream \<Rightarrow> recv_state \<Rightarrow> recv_state" where
  "record_completion sha env st s =
     (if st_tomb st = None \<and> ds_idempotency_key (st_meta st) \<noteq> '''' then
        s\<lparr>rs_tombs := map_option
            (\<lambda>t. fst (tombstone_record (en_now env) (en_persist_ok env) t (completion_entry sha st)))
            (rs_tombs s)\<rparr>
      else s)"

text \<open>Publication, the tombstone, and the receipt.\<close>

definition finish_transfer ::
  "(string \<Rightarrow> string) \<Rightarrow> recv_cfg \<Rightarrow> recv_env \<Rightarrow> stream \<Rightarrow> recv_state \<Rightarrow> recv_state" where
  "finish_transfer sha cfg env st s =
     (let res = session_result sha env st;
          meta = st_meta st;
          hook = (if st_tomb st = None then rc_before_complete cfg else None)
      in case (case hook of None \<Rightarrow> None | Some h \<Rightarrow> h res) of
           Some t \<Rightarrow>
             return_with (Inl (CallbackError t))
               (send_out (CompleteMsg \<lparr>dc_drop_id = ds_drop_id meta, dc_success = False,
                  dc_bytes_recv = st_total st, dc_sha256 = sha (st_hashed st),
                  dc_error = Some (CallbackError t), dc_duplicate = False\<rparr>) s)
         | None \<Rightarrow>
             let s1 = (if hook = None then s
                       else s\<lparr>rs_published := rs_published s @ [(res, rs_dest s)]\<rparr>);
                 s2 = record_completion sha env st s1;
                 s3 = send_out (CompleteMsg \<lparr>dc_drop_id = ds_drop_id meta, dc_success = True,
                   dc_bytes_recv = st_total st, dc_sha256 = sha (st_hashed st), dc_error = None,
                   dc_duplicate = (st_tomb st \<noteq> None)\<rparr>) s2
             in if en_complete_ok env then return_with (Inr res) s3
                else return_with (Inl (SendFailed type_drop_complete)) s3)"

definition on_chunk ::
  "(string \<Rightarrow> string) \<Rightarrow> recv_cfg \<Rightarrow> recv_env \<Rightarrow> stream \<Rightarrow> drop_data \<Rightarrow> recv_state \<Rightarrow> recv_state" where
  "on_chunk sha cfg env st c s =
     (case chunk_refusal cfg st c of
        Some (n, e) \<Rightarrow> fail_complete (st_meta st) n e s
      | None \<Rightarrow>
      (case store_chunk cfg env st (dd_data c) s of
        Inl (e, s1) \<Rightarrow> fail_complete (st_meta st) (st_total st) e s1
      | Inr (st1, s1) \<Rightarrow>
          let st2 = st1\<lparr>st_index := st_index st1 + 1\<rparr>
          in if dd_final c then
               (case final_refusal sha st2 c of
                  Some (n, e) \<Rightarrow> fail_complete (st_meta st) n e s1
                | None \<Rightarrow> finish_transfer sha cfg env st2 s1)
             else s1\<lparr>rs_phase := Streaming st2\<rparr>))"

definition on_stream ::
  "(string \<Rightarrow> string) \<Rightarrow> recv_cfg \<Rightarrow> recv_env \<Rightarrow> stream \<Rightarrow> net_event \<Rightarrow> recv_state \<Rightarrow> recv_state" where
  "on_stream sha cfg env st ev s =
     (case ev of
        CtxDone \<Rightarrow> fail_complete (st_meta st) (st_total st) ContextDone s
      | RecvFail \<Rightarrow> return_with (Inl (ReceiveFailed type_drop_data)) s
      | Frame (FHeartbeat hb) \<Rightarrow> send_out (heartbeat_reply hb) s
      | Frame (FData (Some c)) \<Rightarrow> on_chunk sha cfg env st c s
      | Frame (FData None) \<Rightarrow>
          fail_complete (st_meta st) (st_total st) (DecodeFailed type_drop_data) s
      | Frame f \<Rightarrow>
          fail_complete (st_meta st) (st_total st) (UnexpectedType type_drop_data (frame_type f)) s)"

section \<open>Sessions\<close>

definition recv_step ::
  "(string \<Rightarrow> string) \<Rightarrow> recv_cfg \<Rightarrow> recv_env \<Rightarrow> recv_state \<Rightarrow> net_event \<Rightarrow> recv_state" where
  "recv_step sha cfg env s ev =
     (case rs_phase s of
        AwaitSend \<Rightarrow> on_await cfg env ev s
      | Streaming st \<Rightarrow> on_stream sha cfg env st ev s
      | Returned _ \<Rightarrow> s)"

abbreviation recv_run ::
  "(string \<Rightarrow> string) \<Rightarrow> recv_cfg \<Rightarrow> recv_env \<Rightarrow> recv_state \<Rightarrow> net_event list \<Rightarrow> recv_state" where
  "recv_run sha cfg env \<equiv> foldl (recv_step sha cfg env)"

section \<open>Basic facts\<close>

lemma send_out_sel [simp]:
  "rs_phase (send_out m s) = rs_phase s" "rs_dest (send_out m s) = rs_dest s"
  "rs_quota (send_out m s) = rs_quota s" "rs_lease (send_out m s) = rs_lease s"
  "rs_tombs (send_out m s) = rs_tombs s" "rs_published (send_out m s) = rs_published s"
  "rs_sent (send_out m s) = rs_sent s @ [m]"
  by (simp_all add: send_out_def)

lemma return_with_sel [simp]:
  "rs_phase (return_with r s) = Returned r" "rs_dest (return_with r s) = rs_dest s"
  "rs_tombs (return_with r s) = rs_tombs s" "rs_published (return_with r s) = rs_published s"
  "rs_sent (return_with r s) = rs_sent s"
  "(rs_quota (return_with r s), rs_lease (return_with r s)) = release_ptr (rs_quota s) (rs_lease s)"
  by (simp_all add: return_with_def split_def Let_def)

lemma fail_complete_sel [simp]:
  "rs_phase (fail_complete m n e s) = Returned (Inl e)"
  "rs_published (fail_complete m n e s) = rs_published s"
  "rs_tombs (fail_complete m n e s) = rs_tombs s" "rs_dest (fail_complete m n e s) = rs_dest s"
  by (simp_all add: fail_complete_def)

lemma refuse_sel [simp]:
  "rs_phase (refuse m e s) = Returned (Inl e)" "rs_published (refuse m e s) = rs_published s"
  "rs_tombs (refuse m e s) = rs_tombs s" "rs_dest (refuse m e s) = rs_dest s"
  by (simp_all add: refuse_def)

lemma recv_run_returned: "rs_phase s = Returned r \<Longrightarrow> recv_run sha cfg env s evs = s"
  by (induction evs) (simp_all add: recv_step_def)

lemma effective_limit_nonneg: "0 \<le> d \<Longrightarrow> 0 \<le> effective_limit c d"
  by (simp add: effective_limit_def)

lemma local_meta_sel [simp]:
  "ds_drop_id (local_meta cfg m) = ds_drop_id m" "ds_kind (local_meta cfg m) = ds_kind m"
  "ds_name (local_meta cfg m) = ds_name m" "ds_size (local_meta cfg m) = ds_size m"
  "ds_mime_type (local_meta cfg m) = ds_mime_type m"
  "ds_head_hash (local_meta cfg m) = ds_head_hash m"
  "ds_idempotency_key (local_meta cfg m) = ds_idempotency_key m"
  "ds_rel_path (local_meta cfg m) = ds_rel_path m"
  "ds_chunk_size (local_meta cfg m) = ds_chunk_size (normalize_chunk m)"
  by (simp_all add: local_meta_def Let_def)

lemma normalize_local_meta [simp]: "normalize_chunk (local_meta cfg m) = local_meta cfg m"
  using normalize_chunk_pos [of m] by (simp add: normalize_chunk_same)

section \<open>The streaming invariant\<close>

text \<open>
  What the session relies on about the destination it is given: it stores what is written, and
  unless it reports bytes to resume from it stands at its beginning.
\<close>

definition good_dest :: "recv_cfg \<Rightarrow> recv_env \<Rightarrow> dest \<Rightarrow> bool" where
  "good_dest cfg env d \<longleftrightarrow> \<not> d_discard d \<and> (existing_bytes cfg env d = 0 \<longrightarrow> d_pos d = 0)"

definition good_dests :: "recv_cfg \<Rightarrow> recv_env \<Rightarrow> dest option \<Rightarrow> bool" where
  "good_dests cfg env w \<longleftrightarrow>
     (\<forall>d. w = Some d \<longrightarrow> good_dest cfg env d) \<and>
     (\<forall>hook meta d. rc_on_meta cfg = Some hook \<longrightarrow> hook meta = Inr (Some d) \<longrightarrow> good_dest cfg env d)"

text \<open>The destination holds the hashed bytes up to its position, and no stale tail if that shows.\<close>

definition dest_holds :: "recv_env \<Rightarrow> drop_send \<Rightarrow> string \<Rightarrow> dest option \<Rightarrow> bool" where
  "dest_holds env meta hashed w \<longleftrightarrow>
     (\<exists>d. w = Some d \<and> \<not> d_discard d \<and> d_pos d = length hashed \<and>
        d_pos d \<le> length (d_bytes d) \<and> take (length hashed) (d_bytes d) = hashed \<and>
        (0 < ds_size meta \<and> d_read_seeker d \<and> \<not> en_fault env LenCurrent \<and> \<not> en_fault env LenEnd \<longrightarrow>
           int (length (d_bytes d)) \<le> ds_size meta))"

definition stream_ok :: "recv_env \<Rightarrow> stream \<Rightarrow> dest option \<Rightarrow> bool" where
  "stream_ok env st w \<longleftrightarrow>
     st_total st = int (length (st_hashed st)) \<and>
     0 < ds_chunk_size (st_meta st) \<and> ds_chunk_size (st_meta st) \<le> max_chunk_size \<and>
     (0 < ds_size (st_meta st) \<longrightarrow> st_total st \<le> ds_size (st_meta st)) \<and>
     st_index st * ds_chunk_size (st_meta st) = st_total st \<and>
     (\<exists>m. st_meta st = m \<and> normalize_chunk m = m \<and> validate_drop_metadata m = None) \<and>
     (st_tomb st = None \<longrightarrow> dest_holds env (st_meta st) (st_hashed st) w)"

lemma validate_local_meta:
  assumes "validate_drop_metadata m = None"
  shows "validate_drop_metadata (local_meta cfg m) = None"
  using assms valid_chunk_range [OF assms]
  by (auto simp: validate_drop_metadata_def split: if_splits)

lemma open_stream_ok:
  assumes "open_stream env meta n d = Inr (prefix, d')" "0 \<le> n" "0 < ds_chunk_size meta"
  shows "n = int (length prefix)" "ds_chunk_size meta \<le> max_chunk_size"
    "(if 0 < n then go_div n (ds_chunk_size meta) else 0) * ds_chunk_size meta = n"
    "0 < n \<Longrightarrow> d' = d\<lparr>d_pos := length prefix\<rparr> \<and> prefix = take (length prefix) (d_bytes d) \<and>
       length prefix \<le> length (d_bytes d)"
    "n = 0 \<Longrightarrow> d' = d"
  using assms
  by (auto simp: open_stream_def go_simps split: if_splits)

lemma resume_offset_ok:
  assumes "resume_offset cfg env meta tomb d = Inr n"
  shows "0 \<le> n" "0 < ds_size meta \<Longrightarrow> n \<le> ds_size meta"
    "n = (if tomb = None then existing_bytes cfg env d else 0)" "length_refusal env meta d = None"
  using assms by (auto simp: resume_offset_def Let_def split: option.splits if_splits)

lemma start_stream_phase:
  assumes "rs_phase (start_stream env meta tomb n d s) = Streaming st"
  obtains prefix d' where "open_stream env meta n d = Inr (prefix, d')"
    "st = \<lparr>st_meta = meta, st_total = n,
           st_index = (if 0 < n then go_div n (ds_chunk_size meta) else 0),
           st_hashed = prefix, st_tomb = tomb\<rparr>"
    "rs_dest (start_stream env meta tomb n d s) = Some d'"
  using assms by (auto simp: start_stream_def Let_def split: if_splits sum.splits prod.splits)

lemma start_stream_ok:
  assumes ph: "rs_phase (start_stream env meta tomb n d s) = Streaming st"
    and off: "resume_offset cfg env meta tomb d = Inr n"
    and meta: "validate_drop_metadata meta = None" "normalize_chunk meta = meta"
    and good: "tomb = None \<Longrightarrow> good_dest cfg env d"
  shows "stream_ok env st (rs_dest (start_stream env meta tomb n d s))" "st_meta st = meta"
    "st_tomb st = tomb"
proof -
  obtain prefix d' where op: "open_stream env meta n d = Inr (prefix, d')"
    and st: "st = \<lparr>st_meta = meta, st_total = n,
           st_index = (if 0 < n then go_div n (ds_chunk_size meta) else 0),
           st_hashed = prefix, st_tomb = tomb\<rparr>"
    and d': "rs_dest (start_stream env meta tomb n d s) = Some d'"
    using start_stream_phase [OF ph] by metis
  have cs: "0 < ds_chunk_size meta" using normalize_chunk_pos [of meta] meta(2) by simp
  note o = open_stream_ok [OF op resume_offset_ok(1) [OF off] cs]
  have "dest_holds env meta prefix (Some d')" if "tomb = None"
  proof (cases "0 < n")
    case True
    with o(4) resume_offset_ok(4) [OF off] good [OF that] show ?thesis
      by (auto simp: dest_holds_def good_dest_def length_refusal_def split: if_splits)
  next
    case False
    then have "n = 0" using resume_offset_ok(1) [OF off] by simp
    with o(1,5) resume_offset_ok(3,4) [OF off] good [OF that] that show ?thesis
      by (auto simp: dest_holds_def good_dest_def length_refusal_def split: if_splits)
  qed
  then show "stream_ok env st (rs_dest (start_stream env meta tomb n d s))"
    unfolding d' using o meta cs resume_offset_ok [OF off] by (simp add: stream_ok_def st)
  show "st_meta st = meta" "st_tomb st = tomb" by (simp_all add: st)
qed

lemma resolve_dest_cases:
  assumes "resolve_dest cfg w tomb meta = Inr d"
  shows "tomb \<noteq> None \<Longrightarrow> d = discard_dest"
    "tomb = None \<Longrightarrow> good_dests cfg env w \<Longrightarrow> good_dest cfg env d"
  using assms
  by (auto simp: resolve_dest_def good_dests_def split: if_splits option.splits sum.splits)

lemma accept_transfer_phase:
  assumes "rs_phase (accept_transfer cfg env meta s) = Streaming st"
  obtains q l tomb d n where "size_refusal cfg meta = None"
    "find_tombstone (rs_tombs s) meta = Inr tomb"
    "acquire_ptr (rs_quota s) (peer_key env) (ds_size meta) = (q, Inr l)"
    "resolve_dest cfg (rs_dest s) tomb meta = Inr d" "resume_offset cfg env meta tomb d = Inr n"
    "accept_transfer cfg env meta s =
       start_stream env meta tomb n d (s\<lparr>rs_quota := q, rs_lease := l\<rparr>)"
  using assms
  by (auto simp: accept_transfer_def Let_def split: option.splits sum.splits prod.splits)

lemma start_stream_sel [simp]:
  "rs_published (start_stream env meta tomb n d s) = rs_published s"
  "rs_tombs (start_stream env meta tomb n d s) = rs_tombs s"
  by (auto simp: start_stream_def Let_def split: sum.splits)

lemma accept_transfer_sel [simp]:
  "rs_published (accept_transfer cfg env meta s) = rs_published s"
  "rs_tombs (accept_transfer cfg env meta s) = rs_tombs s"
  by (auto simp: accept_transfer_def Let_def split: option.splits sum.splits prod.splits)

lemma on_await_sel [simp]:
  "rs_published (on_await cfg env ev s) = rs_published s"
  "rs_tombs (on_await cfg env ev s) = rs_tombs s"
  by (auto simp: on_await_def split: net_event.splits frame.splits option.splits)

text \<open>What holds when the session first streams: the metadata is valid and the tombstone is its own.\<close>

lemma on_await_streaming:
  assumes ph: "rs_phase (on_await cfg env ev s) = Streaming st" and "rs_phase s = AwaitSend"
    and good: "good_dests cfg env (rs_dest s)"
  obtains m where "ev = Frame (FSend (Some m))" "validate_drop_metadata m = None"
    "st_meta st = local_meta cfg m" "find_tombstone (rs_tombs s) (local_meta cfg m) = Inr (st_tomb st)"
    "stream_ok env st (rs_dest (on_await cfg env ev s))"
proof -
  from ph assms(2) obtain m where m: "ev = Frame (FSend (Some m))" "validate_drop_metadata m = None"
    and acc: "on_await cfg env ev s = accept_transfer cfg env (local_meta cfg m) s"
    by (auto simp: on_await_def split: net_event.splits frame.splits option.splits)
  obtain q l tomb d n where
      a: "find_tombstone (rs_tombs s) (local_meta cfg m) = Inr tomb"
        "resolve_dest cfg (rs_dest s) tomb (local_meta cfg m) = Inr d"
        "resume_offset cfg env (local_meta cfg m) tomb d = Inr n"
      and eq: "accept_transfer cfg env (local_meta cfg m) s =
        start_stream env (local_meta cfg m) tomb n d (s\<lparr>rs_quota := q, rs_lease := l\<rparr>)"
    by (rule accept_transfer_phase [OF ph [unfolded acc]])
  note ok = start_stream_ok [OF ph [unfolded acc eq] a(3)
      validate_local_meta [OF m(2)] normalize_local_meta]
  have "tomb = None \<Longrightarrow> good_dest cfg env d" using resolve_dest_cases(2) [OF a(2)] good by blast
  with ok have "stream_ok env st (rs_dest (on_await cfg env ev s))" "st_meta st = local_meta cfg m"
    "st_tomb st = tomb" by (simp_all add: acc eq)
  with that m a(1) show thesis by simp
qed

lemma dest_write_holds:
  assumes h: "dest_holds env meta hashed (Some d)"
    and sz: "0 < ds_size meta \<Longrightarrow> int (length hashed + length bs) \<le> ds_size meta"
  shows "dest_holds env meta (hashed @ bs) (Some (dest_write d bs))"
proof -
  have d: "\<not> d_discard d" "d_pos d = length hashed" "length hashed \<le> length (d_bytes d)"
    "take (length hashed) (d_bytes d) = hashed"
    using h by (auto simp: dest_holds_def)
  have "take (length hashed + length bs) (write_at (length hashed) bs (d_bytes d)) = hashed @ bs"
    using take_write_at [OF d(3)] d(4) by simp
  with h sz d show ?thesis
    by (auto simp: dest_holds_def dest_write_def length_write_at)
qed

lemma store_chunk_cases:
  assumes "store_chunk cfg env st bs s = Inr (st', s')"
  shows "st' = st\<lparr>st_total := st_total st + int (length bs), st_hashed := st_hashed st @ bs\<rparr>"
    "bs \<noteq> [] \<Longrightarrow> rs_dest s' = map_option (\<lambda>d. dest_write d bs) (rs_dest s)"
    "bs = [] \<Longrightarrow> s' = s" "rs_published s' = rs_published s" "rs_tombs s' = rs_tombs s"
    "rs_sent s' = rs_sent s" "rs_phase s' = rs_phase s"
  using assms
  by (auto simp: store_chunk_def Let_def split: if_splits option.splits sum.splits prod.splits)

lemma store_chunk_error:
  assumes "store_chunk cfg env st bs s = Inl (e, s')"
  shows "rs_published s' = rs_published s" "rs_tombs s' = rs_tombs s" "rs_sent s' = rs_sent s"
    "rs_phase s' = rs_phase s"
  using assms
  by (auto simp: store_chunk_def Let_def split: if_splits option.splits sum.splits prod.splits)

lemma chunk_refusal_none:
  assumes "chunk_refusal cfg st c = None"
  shows "dd_drop_id c = ds_drop_id (st_meta st)"
    "int (length (dd_data c)) \<le> ds_chunk_size (st_meta st)"
    "\<not> dd_final c \<Longrightarrow> int (length (dd_data c)) = ds_chunk_size (st_meta st)"
    "0 < ds_size (st_meta st) \<Longrightarrow> st_total st + int (length (dd_data c)) \<le> ds_size (st_meta st)"
    "dd_chunk_index c = st_index st"
    "0 < max_size_of cfg \<Longrightarrow> st_total st + int (length (dd_data c)) \<le> max_size_of cfg"
    "ds_kind (st_meta st) = kind_text \<Longrightarrow> 0 < max_text_of cfg \<Longrightarrow>
       st_total st + int (length (dd_data c)) \<le> max_text_of cfg"
  using assms by (auto simp: chunk_refusal_def Let_def split: if_splits)

text \<open>After an accepted chunk the hasher, the count and the destination move together.\<close>

definition after_chunk :: "stream \<Rightarrow> string \<Rightarrow> stream" where
  "after_chunk st bs =
     st\<lparr>st_total := st_total st + int (length bs), st_hashed := st_hashed st @ bs,
        st_index := st_index st + 1\<rparr>"

lemma accepted_chunk_holds:
  assumes ok: "stream_ok env st (rs_dest s)" and ref: "chunk_refusal cfg st c = None"
    and sto: "store_chunk cfg env st (dd_data c) s = Inr (st1, s1)" and "st_tomb st = None"
  shows "dest_holds env (st_meta st) (st_hashed st @ dd_data c) (rs_dest s1)"
proof -
  obtain d where d: "rs_dest s = Some d" "dest_holds env (st_meta st) (st_hashed st) (Some d)"
    using ok assms(4) by (auto simp: stream_ok_def dest_holds_def)
  have "dest_holds env (st_meta st) (st_hashed st @ dd_data c) (Some (dest_write d (dd_data c)))"
    by (rule dest_write_holds [OF d(2)])
      (use ok chunk_refusal_none(4) [OF ref] in \<open>simp add: stream_ok_def\<close>)
  with d store_chunk_cases [OF sto] show ?thesis by (cases "dd_data c = []") auto
qed

lemma accepted_chunk_ok:
  assumes ok: "stream_ok env st (rs_dest s)" and ref: "chunk_refusal cfg st c = None"
    and sto: "store_chunk cfg env st (dd_data c) s = Inr (st1, s1)" and "\<not> dd_final c"
  shows "stream_ok env (after_chunk st (dd_data c)) (rs_dest s1)"
  using ok chunk_refusal_none [OF ref] accepted_chunk_holds [OF ok ref sto] assms(4)
  by (auto simp: stream_ok_def after_chunk_def algebra_simps)

lemma on_chunk_cases:
  assumes "on_chunk sha cfg env st c s = s'"
  obtains (refused) n e where "chunk_refusal cfg st c = Some (n, e)"
      "s' = fail_complete (st_meta st) n e s"
  | (failed) e s1 where "chunk_refusal cfg st c = None"
      "store_chunk cfg env st (dd_data c) s = Inl (e, s1)"
      "s' = fail_complete (st_meta st) (st_total st) e s1"
  | (bad_final) st1 s1 n e where "chunk_refusal cfg st c = None"
      "store_chunk cfg env st (dd_data c) s = Inr (st1, s1)" "dd_final c"
      "final_refusal sha (after_chunk st (dd_data c)) c = Some (n, e)"
      "s' = fail_complete (st_meta st) n e s1"
  | (final) st1 s1 where "chunk_refusal cfg st c = None"
      "store_chunk cfg env st (dd_data c) s = Inr (st1, s1)" "dd_final c"
      "final_refusal sha (after_chunk st (dd_data c)) c = None"
      "s' = finish_transfer sha cfg env (after_chunk st (dd_data c)) s1"
  | (more) st1 s1 where "chunk_refusal cfg st c = None"
      "store_chunk cfg env st (dd_data c) s = Inr (st1, s1)" "\<not> dd_final c"
      "s' = s1\<lparr>rs_phase := Streaming (after_chunk st (dd_data c))\<rparr>"
proof (cases "chunk_refusal cfg st c")
  case (Some ne)
  then show thesis using assms that(1) by (cases ne) (auto simp: on_chunk_def)
next
  case None
  show thesis
  proof (cases "store_chunk cfg env st (dd_data c) s")
    case (Inl es)
    then show thesis using assms None that(2) by (cases es) (auto simp: on_chunk_def)
  next
    case (Inr sts)
    then obtain st1 s1 where sto: "store_chunk cfg env st (dd_data c) s = Inr (st1, s1)"
      by (cases sts) auto
    have st1: "st1\<lparr>st_index := st_index st1 + 1\<rparr> = after_chunk st (dd_data c)"
      using store_chunk_cases(1) [OF sto] by (simp add: after_chunk_def)
    show thesis
      using assms None sto that(3-5) st1 by (auto simp: on_chunk_def Let_def split: if_splits option.splits)
  qed
qed

section \<open>Publication\<close>

text \<open>
  A publication is verified against the set \<open>E\<close> of events the session received: the destination
  holds a payload whose digest is the reported one and the one a final chunk announced, of the
  declared size and within the limits.
\<close>

definition verified ::
  "(string \<Rightarrow> string) \<Rightarrow> recv_cfg \<Rightarrow> recv_env \<Rightarrow> net_event set \<Rightarrow> recv_result \<times> dest option \<Rightarrow> bool" where
  "verified sha cfg env E p \<longleftrightarrow>
     (let (res, w) = p; meta = rr_meta res
      in validate_drop_metadata meta = None \<and> \<not> rr_duplicate res \<and>
         (\<exists>payload. rr_payload_sha256 res = sha payload \<and>
            rr_bytes_written res = int (length payload) \<and> dest_holds env meta payload w \<and>
            (0 < ds_size meta \<longrightarrow> int (length payload) = ds_size meta) \<and>
            (0 < max_size_of cfg \<longrightarrow> int (length payload) \<le> max_size_of cfg) \<and>
            (ds_kind meta = kind_text \<longrightarrow> 0 < max_text_of cfg \<longrightarrow>
               int (length payload) \<le> max_text_of cfg) \<and>
            (\<exists>c. Frame (FData (Some c)) \<in> E \<and> dd_final c \<and> valid_sha256_hex (dd_sha256 c) \<and>
               equal_fold (sha payload) (dd_sha256 c))))"

definition recv_inv ::
  "(string \<Rightarrow> string) \<Rightarrow> recv_cfg \<Rightarrow> recv_env \<Rightarrow> net_event set \<Rightarrow> recv_state \<Rightarrow> bool" where
  "recv_inv sha cfg env E s \<longleftrightarrow>
     (case rs_phase s of
        AwaitSend \<Rightarrow> rs_published s = [] \<and> good_dests cfg env (rs_dest s)
      | Streaming st \<Rightarrow> rs_published s = [] \<and> stream_ok env st (rs_dest s)
      | Returned _ \<Rightarrow> length (rs_published s) \<le> 1 \<and> list_all (verified sha cfg env E) (rs_published s))"

lemma final_refusal_none:
  assumes "final_refusal sha st c = None"
  shows "0 < ds_size (st_meta st) \<Longrightarrow> st_total st = ds_size (st_meta st)"
    "valid_sha256_hex (dd_sha256 c)" "equal_fold (sha (st_hashed st)) (dd_sha256 c)"
    "st_tomb st = Some e \<Longrightarrow> equal_fold (sha (st_hashed st)) (te_sha256 e)"
  using assms by (auto simp: final_refusal_def Let_def split: if_splits option.splits)

lemma record_completion_sel [simp]:
  "rs_phase (record_completion sha env st s) = rs_phase s"
  "rs_dest (record_completion sha env st s) = rs_dest s"
  "rs_quota (record_completion sha env st s) = rs_quota s"
  "rs_lease (record_completion sha env st s) = rs_lease s"
  "rs_sent (record_completion sha env st s) = rs_sent s"
  "rs_published (record_completion sha env st s) = rs_published s"
  by (simp_all add: record_completion_def)

lemma finish_transfer_published:
  "rs_published (finish_transfer sha cfg env st s) =
     rs_published s @
     (case rc_before_complete cfg of
        Some h \<Rightarrow> if st_tomb st = None \<and> h (session_result sha env st) = None
                  then [(session_result sha env st, rs_dest s)] else []
      | None \<Rightarrow> [])"
  by (auto simp: finish_transfer_def Let_def split: option.splits)

lemma finish_transfer_returned: "\<exists>r. rs_phase (finish_transfer sha cfg env st s) = Returned r"
  by (auto simp: finish_transfer_def Let_def split: option.splits)

lemma final_chunk_verified:
  assumes ok: "stream_ok env st (rs_dest s)" and ref: "chunk_refusal cfg st c = None"
    and sto: "store_chunk cfg env st (dd_data c) s = Inr (st1, s1)" and fin: "dd_final c"
    and fr: "final_refusal sha (after_chunk st (dd_data c)) c = None"
    and tomb: "st_tomb st = None" and E: "Frame (FData (Some c)) \<in> E"
  shows "verified sha cfg env E (session_result sha env (after_chunk st (dd_data c)), rs_dest s1)"
proof -
  note holds = accepted_chunk_holds [OF ok ref sto tomb]
  show ?thesis
    using ok tomb holds chunk_refusal_none [OF ref] final_refusal_none(1-3) [OF fr] E fin
    unfolding verified_def session_result_def stream_ok_def after_chunk_def Let_def
    by (auto intro!: exI [of _ "st_hashed st @ dd_data c"])
qed

lemma on_chunk_inv:
  assumes ok: "stream_ok env st (rs_dest s)" and pub: "rs_published s = []"
    and E: "Frame (FData (Some c)) \<in> E"
  shows "recv_inv sha cfg env E (on_chunk sha cfg env st c s)"
  using refl [of "on_chunk sha cfg env st c s"]
proof (cases rule: on_chunk_cases)
  case (final st1 s1)
  obtain r where r: "rs_phase (finish_transfer sha cfg env (after_chunk st (dd_data c)) s1) = Returned r"
    using finish_transfer_returned by blast
  have "st_tomb (after_chunk st (dd_data c)) = st_tomb st" by (simp add: after_chunk_def)
  with r final pub final_chunk_verified [OF ok final(1-4) _ E] store_chunk_cases(4) [OF final(2)]
  show ?thesis
    by (simp add: recv_inv_def finish_transfer_published split: option.splits)
next
  case (more st1 s1)
  then show ?thesis
    using accepted_chunk_ok [OF ok more(1-3)] store_chunk_cases(4) [OF more(2)] pub
    by (simp add: recv_inv_def)
qed (use pub store_chunk_error store_chunk_cases(4) in \<open>auto simp: recv_inv_def\<close>)

lemma recv_step_inv:
  assumes inv: "recv_inv sha cfg env E s" and E: "ev \<in> E"
  shows "recv_inv sha cfg env E (recv_step sha cfg env s ev)"
proof (cases "rs_phase s")
  case AwaitSend
  let ?s = "on_await cfg env ev s"
  have g: "good_dests cfg env (rs_dest s)" "rs_published s = []"
    using inv AwaitSend by (simp_all add: recv_inv_def)
  show ?thesis
  proof (cases "rs_phase ?s")
    case AwaitSend
    then have "rs_dest ?s = rs_dest s"
      by (auto simp: on_await_def accept_transfer_def start_stream_def Let_def
          split: net_event.splits frame.splits option.splits sum.splits prod.splits if_splits)
    with AwaitSend \<open>rs_phase s = AwaitSend\<close> g show ?thesis by (simp add: recv_inv_def recv_step_def)
  next
    case (Streaming st)
    then show ?thesis
      using on_await_streaming [OF Streaming \<open>rs_phase s = AwaitSend\<close> g(1)] g(2) \<open>rs_phase s = AwaitSend\<close>
      by (auto simp: recv_inv_def recv_step_def)
  next
    case (Returned r)
    then show ?thesis using \<open>rs_phase s = AwaitSend\<close> g by (simp add: recv_inv_def recv_step_def)
  qed
next
  case (Streaming st)
  then show ?thesis
    using inv E on_chunk_inv [of env st s _ E sha cfg]
    by (auto simp: recv_step_def on_stream_def recv_inv_def
        split: net_event.splits frame.splits option.splits)
qed (use inv in \<open>simp add: recv_step_def\<close>)

interpretation recv_session: guarded_stepper "recv_step sha cfg env" "\<lambda>e. e \<in> E" "recv_inv sha cfg env E"
  for sha cfg env E
  by unfold_locales (rule recv_step_inv)

section \<open>Duplicates\<close>

text \<open>Events in which every announced transfer carries the idempotency key \<open>k\<close>.\<close>

fun key_event :: "string \<Rightarrow> net_event \<Rightarrow> bool" where
  "key_event k (Frame (FSend (Some m))) \<longleftrightarrow> ds_idempotency_key m = k"
| "key_event k _ \<longleftrightarrow> True"

definition dup_inv ::
  "(string \<Rightarrow> string) \<Rightarrow> tombstones \<Rightarrow> tombstone_entry \<Rightarrow> recv_state \<Rightarrow> bool" where
  "dup_inv sha t e s \<longleftrightarrow>
     rs_published s = [] \<and> rs_tombs s = Some t \<and>
     (case rs_phase s of
        AwaitSend \<Rightarrow> True
      | Streaming st \<Rightarrow> st_tomb st = Some e
      | Returned (Inl _) \<Rightarrow> True
      | Returned (Inr res) \<Rightarrow> rr_duplicate res \<and> equal_fold (rr_payload_sha256 res) (te_sha256 e))"

lemma start_stream_streaming:
  assumes "rs_phase (start_stream env meta tomb n d s) = Streaming st"
  shows "st_tomb st = tomb" "st_meta st = meta"
  using start_stream_phase [OF assms] by (metis stream.select_convs)+

lemma start_stream_not_returned: "rs_phase (start_stream env meta tomb n d s) \<noteq> Returned (Inr r)"
  by (auto simp: start_stream_def Let_def split: sum.splits)

lemma on_await_not_ok:
  assumes "rs_phase s = AwaitSend"
  shows "rs_phase (on_await cfg env ev s) \<noteq> Returned (Inr r)"
  using assms start_stream_not_returned
  by (auto simp: on_await_def accept_transfer_def Let_def
      split: net_event.splits frame.splits option.splits sum.splits prod.splits)

lemma on_await_tomb:
  assumes ph: "rs_phase (on_await cfg env ev s) = Streaming st" and "rs_phase s = AwaitSend"
  obtains m where "ev = Frame (FSend (Some m))" "validate_drop_metadata m = None"
    "st_meta st = local_meta cfg m" "find_tombstone (rs_tombs s) (local_meta cfg m) = Inr (st_tomb st)"
proof -
  from ph assms(2) obtain m where m: "ev = Frame (FSend (Some m))" "validate_drop_metadata m = None"
    and acc: "on_await cfg env ev s = accept_transfer cfg env (local_meta cfg m) s"
    by (auto simp: on_await_def split: net_event.splits frame.splits option.splits)
  obtain q l tomb d n where a: "find_tombstone (rs_tombs s) (local_meta cfg m) = Inr tomb"
      and eq: "accept_transfer cfg env (local_meta cfg m) s =
        start_stream env (local_meta cfg m) tomb n d (s\<lparr>rs_quota := q, rs_lease := l\<rparr>)"
    by (rule accept_transfer_phase [OF ph [unfolded acc]])
  from that m a start_stream_streaming [OF ph [unfolded acc eq]] show thesis by simp
qed

lemma find_tombstone_known:
  assumes "find_tombstone (Some t) meta = Inr tomb" "tombstone_lookup t k = Some e" "k \<noteq> ''''"
    "ds_idempotency_key meta = k"
  shows "tomb = Some e"
  using assms by (auto simp: find_tombstone_def split: if_splits option.splits)

lemma finish_transfer_duplicate:
  assumes "st_tomb st = Some e"
  shows "rs_published (finish_transfer sha cfg env st s) = rs_published s"
    "rs_tombs (finish_transfer sha cfg env st s) = rs_tombs s"
    "rs_phase (finish_transfer sha cfg env st s) =
       Returned (if en_complete_ok env then Inr (session_result sha env st)
                 else Inl (SendFailed type_drop_complete))"
  using assms by (simp_all add: finish_transfer_def record_completion_def Let_def)

lemma after_chunk_sel [simp]:
  "st_tomb (after_chunk st bs) = st_tomb st" "st_meta (after_chunk st bs) = st_meta st"
  "st_hashed (after_chunk st bs) = st_hashed st @ bs"
  "st_total (after_chunk st bs) = st_total st + int (length bs)"
  "st_index (after_chunk st bs) = st_index st + 1"
  by (simp_all add: after_chunk_def)

lemma on_chunk_duplicate:
  assumes dup: "dup_inv sha t e s" and ph: "rs_phase s = Streaming st"
  shows "dup_inv sha t e (on_chunk sha cfg env st c s)"
  using refl [of "on_chunk sha cfg env st c s"]
proof (cases rule: on_chunk_cases)
  case (final st1 s1)
  have e: "st_tomb (after_chunk st (dd_data c)) = Some e" using dup ph by (simp add: dup_inv_def)
  from dup ph final store_chunk_cases(4,5) [OF final(2)] finish_transfer_duplicate [OF e]
    final_refusal_none(4) [OF final(4) e]
  show ?thesis by (simp add: dup_inv_def session_result_def)
qed (use dup ph store_chunk_error store_chunk_cases(4,5) in \<open>auto simp: dup_inv_def\<close>)

lemma dup_step:
  assumes known: "tombstone_lookup t k = Some e" "k \<noteq> ''''"
    and dup: "dup_inv sha t e s" and ev: "key_event k ev"
  shows "dup_inv sha t e (recv_step sha cfg env s ev)"
proof (cases "rs_phase s")
  case AwaitSend
  have "st_tomb st = Some e" if ph: "rs_phase (on_await cfg env ev s) = Streaming st" for st
  proof -
    obtain m where "ev = Frame (FSend (Some m))"
      "find_tombstone (rs_tombs s) (local_meta cfg m) = Inr (st_tomb st)"
      by (rule on_await_tomb [OF ph AwaitSend])
    with find_tombstone_known [OF _ known] dup ev show ?thesis by (auto simp: dup_inv_def)
  qed
  with AwaitSend dup on_await_not_ok [OF AwaitSend] show ?thesis
    by (auto simp: recv_step_def dup_inv_def split: recv_phase.splits sum.splits)
next
  case (Streaming st)
  with dup on_chunk_duplicate [OF dup Streaming] show ?thesis
    by (auto simp: recv_step_def on_stream_def dup_inv_def
        split: net_event.splits frame.splits option.splits)
qed (use dup in \<open>simp add: recv_step_def\<close>)

text \<open>The sessions over a ledger that knows the key: a guarded stepper for every known entry.\<close>

definition dup_session ::
  "(string \<Rightarrow> string) \<Rightarrow> tombstones \<Rightarrow> string \<Rightarrow> recv_state \<Rightarrow> bool" where
  "dup_session sha t k s \<longleftrightarrow>
     k \<noteq> '''' \<and> (\<exists>e. tombstone_lookup t k = Some e \<and> dup_inv sha t e s)"

interpretation retry: guarded_stepper "recv_step sha cfg env" "key_event k" "dup_session sha t k"
  for sha cfg env k t
  by unfold_locales (auto simp: dup_session_def intro: dup_step)

lemma known_key_publishes_nothing:
  assumes "tombstone_lookup t k = Some e" "k \<noteq> ''''" "list_all (key_event k) evs"
  shows "dup_inv sha t e (recv_run sha cfg env (recv_start w q (Some t)) evs)"
proof -
  have "dup_session sha t k (recv_start w q (Some t))"
    using assms(1,2) by (simp add: dup_session_def dup_inv_def recv_start_def)
  from retry.allowed_run_inv [OF this assms(3)] assms(1) show ?thesis
    by (auto simp: dup_session_def)
qed

section \<open>The answers of a session\<close>

fun is_heartbeat :: "drop_msg \<Rightarrow> bool" where
  "is_heartbeat (HeartbeatMsg _) \<longleftrightarrow> True"
| "is_heartbeat _ \<longleftrightarrow> False"

definition replies :: "recv_state \<Rightarrow> drop_msg list" where
  "replies s = filter (\<lambda>m. \<not> is_heartbeat m) (rs_sent s)"

lemma is_heartbeat_reply [simp]: "is_heartbeat (heartbeat_reply hb)"
  by (simp add: heartbeat_reply_def)

lemma replies_sel [simp]:
  "replies (return_with r s) = replies s"
  "replies (send_out m s) = (if is_heartbeat m then replies s else replies s @ [m])"
  "replies (s\<lparr>rs_quota := q\<rparr>) = replies s" "replies (s\<lparr>rs_lease := l\<rparr>) = replies s"
  "replies (s\<lparr>rs_dest := d\<rparr>) = replies s" "replies (s\<lparr>rs_phase := p\<rparr>) = replies s"
  "replies (s\<lparr>rs_published := x\<rparr>) = replies s" "replies (s\<lparr>rs_tombs := t\<rparr>) = replies s"
  "replies (record_completion sha env st s) = replies s"
  by (simp_all add: replies_def)

text \<open>
  The receipt of a published payload: success, with its byte count and digest. The list of replies
  of a finished session is one of these, and publication goes with the success receipt only.
\<close>

definition honest_end :: "recv_cfg \<Rightarrow> recv_state \<Rightarrow> bool" where
  "honest_end cfg s \<longleftrightarrow>
     (case replies s of
        [] \<Rightarrow> rs_published s = []
      | [AckMsg a] \<Rightarrow> rs_published s = []
      | [AckMsg a, CompleteMsg c] \<Rightarrow>
          ak_accepted a \<and>
          (if dc_success c then
             (case rc_before_complete cfg of
                None \<Rightarrow> rs_published s = []
              | Some _ \<Rightarrow>
                  if dc_duplicate c then rs_published s = []
                  else \<exists>res w. rs_published s = [(res, w)] \<and>
                         rr_payload_sha256 res = dc_sha256 c \<and> rr_bytes_written res = dc_bytes_recv c)
           else rs_published s = [])
      | _ \<Rightarrow> False)"

definition answer_inv :: "recv_cfg \<Rightarrow> recv_state \<Rightarrow> bool" where
  "answer_inv cfg s \<longleftrightarrow>
     (case rs_phase s of
        AwaitSend \<Rightarrow> replies s = [] \<and> rs_published s = []
      | Streaming _ \<Rightarrow> (\<exists>a. replies s = [AckMsg a] \<and> ak_accepted a) \<and> rs_published s = []
      | Returned _ \<Rightarrow> honest_end cfg s)"

lemma fail_complete_replies [simp]:
  "replies (fail_complete m n e s) = replies s @
     [CompleteMsg \<lparr>dc_drop_id = ds_drop_id m, dc_success = False, dc_bytes_recv = n,
        dc_sha256 = '''', dc_error = Some e, dc_duplicate = False\<rparr>]"
  by (simp add: fail_complete_def)

lemma refuse_replies [simp]:
  "replies (refuse m e s) = replies s @
     [AckMsg \<lparr>ak_drop_id = ds_drop_id m, ak_accepted = False, ak_received_bytes = 0,
        ak_error = Some e\<rparr>]"
  by (simp add: refuse_def)

lemma start_stream_answers:
  assumes "replies s = []" "rs_published s = []" "rs_phase s = AwaitSend"
  shows "answer_inv cfg (start_stream env meta tomb n d s)"
  using assms
  by (auto simp: start_stream_def answer_inv_def honest_end_def Let_def split: sum.splits)

lemma accept_transfer_answers:
  assumes "replies s = []" "rs_published s = []" "rs_phase s = AwaitSend"
  shows "answer_inv cfg' (accept_transfer cfg env meta s)"
proof -
  have "answer_inv cfg' (refuse meta e s')" if "replies s' = []" "rs_published s' = []" for e s'
    using that by (simp add: answer_inv_def honest_end_def)
  with assms start_stream_answers show ?thesis
    by (auto simp: accept_transfer_def Let_def split: option.splits sum.splits prod.splits)
qed

lemma on_await_answers:
  assumes "answer_inv cfg s" "rs_phase s = AwaitSend"
  shows "answer_inv cfg (on_await cfg env ev s)"
proof -
  have s: "replies s = []" "rs_published s = []" using assms by (simp_all add: answer_inv_def)
  have "answer_inv cfg (return_with r s)" "answer_inv cfg (refuse m e s)"
    "answer_inv cfg (send_out (heartbeat_reply hb) s)" for r m e hb
    using s assms(2) by (simp_all add: answer_inv_def honest_end_def)
  with accept_transfer_answers [OF s assms(2)] show ?thesis
    by (auto simp: on_await_def split: net_event.splits frame.splits option.splits)
qed

lemma fail_complete_answers:
  assumes "replies s = [AckMsg a]" "ak_accepted a" "rs_published s = []"
  shows "answer_inv cfg (fail_complete m n e s)"
  using assms by (simp add: answer_inv_def honest_end_def)

lemma finish_transfer_answers:
  assumes "replies s = [AckMsg a]" "ak_accepted a" "rs_published s = []"
  shows "answer_inv cfg (finish_transfer sha cfg env st s)"
  using assms
  by (cases "st_tomb st"; cases "rc_before_complete cfg")
    (auto simp: finish_transfer_def answer_inv_def honest_end_def session_result_def Let_def
      split: option.splits)

lemma on_chunk_answers:
  assumes a: "replies s = [AckMsg a]" "ak_accepted a" and p: "rs_published s = []"
  shows "answer_inv cfg (on_chunk sha cfg env st c s)"
proof -
  have sto: "replies s1 = [AckMsg a]" "rs_published s1 = []"
    if "store_chunk cfg env st bs s = Inr (st1, s1)" for st1 s1 bs
    using a p store_chunk_cases(4,6) [OF that] by (simp_all add: replies_def)
  have err: "replies s1 = [AckMsg a]" "rs_published s1 = []"
    if "store_chunk cfg env st bs s = Inl (e, s1)" for e s1 bs
    using a p store_chunk_error [OF that] by (simp_all add: replies_def)
  show ?thesis
    using refl [of "on_chunk sha cfg env st c s"]
  proof (cases rule: on_chunk_cases)
    case (refused n e)
    with fail_complete_answers [OF a p] show ?thesis by simp
  next
    case (failed e s1)
    with fail_complete_answers [OF err(1) a(2) err(2)] show ?thesis by simp
  next
    case (bad_final st1 s1 n e)
    with fail_complete_answers [OF sto(1) a(2) sto(2)] show ?thesis by simp
  next
    case (final st1 s1)
    with finish_transfer_answers [OF sto(1) a(2) sto(2)] show ?thesis by simp
  next
    case (more st1 s1)
    with sto [OF more(2)] a(2) show ?thesis by (simp add: answer_inv_def)
  qed
qed

lemma recv_step_answers:
  assumes inv: "answer_inv cfg s"
  shows "answer_inv cfg (recv_step sha cfg env s ev)"
proof (cases "rs_phase s")
  case AwaitSend
  with on_await_answers [OF inv AwaitSend] show ?thesis by (simp add: recv_step_def)
next
  case (Streaming st)
  then obtain a where a: "replies s = [AckMsg a]" "ak_accepted a" and p: "rs_published s = []"
    using inv by (auto simp: answer_inv_def)
  have hb: "answer_inv cfg (send_out (heartbeat_reply h) s)" for h
    using a p Streaming by (simp add: answer_inv_def)
  have fl: "answer_inv cfg (return_with (Inl e) s)" for e
    using a p by (simp add: answer_inv_def honest_end_def)
  show ?thesis
    using Streaming hb fl on_chunk_answers [OF a p] fail_complete_answers [OF a p]
    by (auto simp: recv_step_def on_stream_def split: net_event.splits frame.splits option.splits)
qed (use inv in \<open>simp add: recv_step_def\<close>)

interpretation answers: stepper "recv_step sha cfg env" "answer_inv cfg" for sha cfg env
  by unfold_locales (rule recv_step_answers)

section \<open>The quota\<close>

text \<open>
  \<open>M\<close> are the leases of the other sessions. A session holds a lease exactly while it streams.
  Sizes on the wire are \<open>int64\<close> values.
\<close>

definition recv_quota_inv :: "lease multiset \<Rightarrow> recv_state \<Rightarrow> bool" where
  "recv_quota_inv M s \<longleftrightarrow>
     (\<exists>q. rs_quota s = Some q \<and>
        (case rs_phase s of
           AwaitSend \<Rightarrow> rs_lease s = None \<and> quota_inv q M
         | Streaming st \<Rightarrow> ds_chunk_size (st_meta st) \<le> max_chunk_size \<and>
             (\<exists>l. rs_lease s = Some l \<and> quota_inv q (add_mset l M))
         | Returned _ \<Rightarrow> quota_inv q M))"

fun int64_event :: "net_event \<Rightarrow> bool" where
  "int64_event (Frame (FSend (Some m))) \<longleftrightarrow> ds_size m \<le> max_int64"
| "int64_event _ \<longleftrightarrow> True"

lemma return_with_quota:
  assumes "rs_quota s = Some q" "rs_lease s = Some l \<and> quota_inv q (add_mset l M) \<or>
    rs_lease s = None \<and> quota_inv q M"
  shows "recv_quota_inv M (return_with r s)"
proof (cases "rs_lease s")
  case None
  with assms show ?thesis by (simp add: recv_quota_inv_def return_with_def release_ptr_def)
next
  case (Some l')
  then have inv: "quota_inv q (add_mset l' M)" using assms(2) by auto
  obtain q' l2 where rel: "lease_release q l' = (q', l2)" by (cases "lease_release q l'")
  from lease_release_ok(1) [OF inv rel] Some assms(1) rel show ?thesis
    by (simp add: recv_quota_inv_def return_with_def release_ptr_def)
qed

lemma add_bytes_quota:
  assumes inv: "rs_quota s = Some q" "rs_lease s = Some l" "quota_inv q (add_mset l M)"
    and n: "int (length bs) \<le> max_int64"
    and add: "add_bytes_ptr (rs_quota s) (rs_lease s) (int (length bs)) = Inr (qp, lp)"
  obtains q' l' where "qp = Some q'" "lp = Some l'" "quota_inv q' (add_mset l' M)"
proof -
  from add inv obtain q' l' where "lease_add_bytes q l (int (length bs)) = Inr (q', l')"
    "qp = Some q'" "lp = Some l'"
    by (auto simp: add_bytes_ptr_def split: sum.splits)
  with lease_add_bytes_ok(1) [OF inv(3) n] that show thesis by blast
qed

definition leased :: "lease multiset \<Rightarrow> recv_state \<Rightarrow> bool" where
  "leased M s \<longleftrightarrow>
     (\<exists>q l. rs_quota s = Some q \<and> rs_lease s = Some l \<and> quota_inv q (add_mset l M))"

lemma leased_ends:
  assumes "leased M s"
  shows "recv_quota_inv M (return_with r s)" "recv_quota_inv M (fail_complete m n e s)"
    "recv_quota_inv M (refuse m e s)"
  using assms return_with_quota by (auto simp: leased_def fail_complete_def refuse_def)

lemma leased_upd [simp]:
  "leased M (send_out msg s) = leased M s" "leased M (s\<lparr>rs_dest := d\<rparr>) = leased M s"
  "leased M (s\<lparr>rs_phase := p\<rparr>) = leased M s" "leased M (s\<lparr>rs_published := x\<rparr>) = leased M s"
  "leased M (record_completion sha env st s) = leased M s"
  by (simp_all add: leased_def)

lemma store_chunk_leased:
  assumes "leased M s" "int (length bs) \<le> max_int64"
  shows "store_chunk cfg env st bs s = Inl (e, s') \<Longrightarrow> leased M s'"
    "store_chunk cfg env st bs s = Inr (st', s') \<Longrightarrow> leased M s'"
proof -
  have add: "leased M (s\<lparr>rs_quota := q, rs_lease := l, rs_dest := d\<rparr>)"
    if "add_bytes_ptr (rs_quota s) (rs_lease s) (int (length bs)) = Inr (q, l)" for q l d
    using assms that by (auto simp: leased_def elim: add_bytes_quota)
  show "store_chunk cfg env st bs s = Inl (e, s') \<Longrightarrow> leased M s'"
    "store_chunk cfg env st bs s = Inr (st', s') \<Longrightarrow> leased M s'"
    using assms(1) add
    by (auto simp: store_chunk_def Let_def split: if_splits option.splits sum.splits prod.splits)
qed

lemma finish_transfer_leased: "leased M s \<Longrightarrow> recv_quota_inv M (finish_transfer sha cfg env st s)"
  by (auto simp: finish_transfer_def Let_def leased_ends split: option.splits)

lemma leased_streaming:
  "rs_phase s = Streaming st \<Longrightarrow>
     recv_quota_inv M s \<longleftrightarrow> ds_chunk_size (st_meta st) \<le> max_chunk_size \<and> leased M s"
  by (auto simp: recv_quota_inv_def leased_def)

lemma on_chunk_quota:
  assumes l: "leased M s" and cs: "ds_chunk_size (st_meta st) \<le> max_chunk_size"
  shows "recv_quota_inv M (on_chunk sha cfg env st c s)"
proof -
  have n: "chunk_refusal cfg st c = None \<Longrightarrow> int (length (dd_data c)) \<le> max_int64"
    using chunk_refusal_none(2) [of cfg st c] cs by (simp add: max_chunk_size_def)
  show ?thesis
    using refl [of "on_chunk sha cfg env st c s"]
  proof (cases rule: on_chunk_cases)
    case (more st1 s1)
    with store_chunk_leased(2) [OF l n] cs show ?thesis by (simp add: leased_streaming)
  qed (use l n store_chunk_leased [OF l n] in \<open>auto intro: leased_ends finish_transfer_leased\<close>)
qed

lemma start_stream_quota:
  assumes l: "leased M s" and ph: "rs_phase s = AwaitSend"
  shows "recv_quota_inv M (start_stream env meta tomb n d s)"
proof (cases "\<exists>st. rs_phase (start_stream env meta tomb n d s) = Streaming st")
  case True
  then obtain st where st: "rs_phase (start_stream env meta tomb n d s) = Streaming st" by blast
  obtain prefix d' where op: "open_stream env meta n d = Inr (prefix, d')" and m: "st_meta st = meta"
    using start_stream_phase [OF st] start_stream_streaming(2) [OF st] by metis
  have "ds_chunk_size meta \<le> max_chunk_size"
    using op by (auto simp: open_stream_def split: if_splits)
  moreover have "leased M (start_stream env meta tomb n d s)"
    using st l by (auto simp: start_stream_def Let_def split: if_splits sum.splits prod.splits)
  ultimately show ?thesis using m by (simp add: leased_streaming [OF st])
next
  case False
  then show ?thesis
    using l by (auto simp: start_stream_def Let_def leased_ends split: if_splits sum.splits prod.splits)
qed

lemma accept_transfer_quota:
  assumes inv: "recv_quota_inv M s" and ph: "rs_phase s = AwaitSend"
    and size: "ds_size meta \<le> max_int64"
  shows "recv_quota_inv M (accept_transfer cfg env meta s)"
proof -
  obtain q where q: "rs_quota s = Some q" "rs_lease s = None" "quota_inv q M"
    using inv ph by (auto simp: recv_quota_inv_def)
  have ref: "recv_quota_inv M (refuse m e s')"
    if "rs_quota s' = Some q'" "rs_lease s' = None" "quota_inv q' M" for m e s' q'
    using that return_with_quota by (simp add: refuse_def)
  have acq: "(\<exists>q'. qp = Some q' \<and> quota_inv q' M)"
    if "acquire_ptr (Some q) p (ds_size meta) = (qp, Inl e)" for p qp e
    using that q(3)
    by (auto simp: acquire_ptr_def quota_acquire_def Let_def quota_inv_init
        split: prod.splits sum.splits if_splits option.splits)
  have lea: "leased M (s\<lparr>rs_quota := qp, rs_lease := lp\<rparr>)"
    if "acquire_ptr (Some q) p (ds_size meta) = (qp, Inr lp)" for p qp lp
    using that quota_acquire_ok(1) [OF q(3) size]
    by (auto simp: acquire_ptr_def leased_def split: prod.splits sum.splits)
  obtain qp res where ac: "acquire_ptr (Some q) (peer_key env) (ds_size meta) = (qp, res)"
    by (cases "acquire_ptr (Some q) (peer_key env) (ds_size meta)")
  show ?thesis
  proof (cases res)
    case (Inl e)
    with acq [of "peer_key env"] ac obtain q' where "qp = Some q'" "quota_inv q' M" by blast
    with Inl ac q ref show ?thesis
      by (auto simp: accept_transfer_def split: option.splits sum.splits)
  next
    case (Inr lp)
    with lea ac have l: "leased M (s\<lparr>rs_quota := qp, rs_lease := lp\<rparr>)" by blast
    show ?thesis
      using Inr ac q ref leased_ends(3) [OF l] start_stream_quota [OF l] ph
      by (auto simp: accept_transfer_def Let_def split: option.splits sum.splits)
  qed
qed

lemma on_await_quota:
  assumes inv: "recv_quota_inv M s" and ph: "rs_phase s = AwaitSend" and ev: "int64_event ev"
  shows "recv_quota_inv M (on_await cfg env ev s)"
proof -
  obtain q where q: "rs_quota s = Some q" "rs_lease s = None" "quota_inv q M"
    using inv ph by (auto simp: recv_quota_inv_def)
  have "recv_quota_inv M (return_with r s)" "recv_quota_inv M (refuse m e s)"
    "recv_quota_inv M (send_out (heartbeat_reply hb) s)" for r m e hb
    using q ph return_with_quota by (simp_all add: refuse_def recv_quota_inv_def)
  with accept_transfer_quota [OF inv ph] ev show ?thesis
    by (auto simp: on_await_def split: net_event.splits frame.splits option.splits)
qed

lemma recv_step_quota:
  assumes inv: "recv_quota_inv M s" and ev: "int64_event ev"
  shows "recv_quota_inv M (recv_step sha cfg env s ev)"
proof (cases "rs_phase s")
  case AwaitSend
  with on_await_quota [OF inv AwaitSend ev] show ?thesis by (simp add: recv_step_def)
next
  case (Streaming st)
  then have l: "leased M s" and cs: "ds_chunk_size (st_meta st) \<le> max_chunk_size"
    using inv by (simp_all add: leased_streaming)
  have "recv_quota_inv M (send_out (heartbeat_reply hb) s)" for hb
    using inv Streaming by (simp add: recv_quota_inv_def)
  with Streaming on_chunk_quota [OF l cs] leased_ends [OF l] show ?thesis
    by (auto simp: recv_step_def on_stream_def split: net_event.splits frame.splits option.splits)
qed (use inv in \<open>simp add: recv_step_def\<close>)

interpretation recv_quota: guarded_stepper "recv_step sha cfg env" int64_event "recv_quota_inv M"
  for sha cfg env M
  by unfold_locales (rule recv_step_quota)

section \<open>The completion record\<close>

definition recorded ::
  "(string \<Rightarrow> string) \<Rightarrow> recv_env \<Rightarrow> tombstones \<Rightarrow> recv_state \<Rightarrow> recv_result \<Rightarrow> bool" where
  "recorded sha env t s res \<longleftrightarrow>
     (\<exists>e. rs_tombs s = Some (fst (tombstone_record (en_now env) (en_persist_ok env) t e)) \<and>
        te_key e = ds_idempotency_key (rr_meta res) \<and> te_completed_at e = 0 \<and>
        te_sha256 e = rr_payload_sha256 res \<and> tombstone_matches e (rr_meta res)) \<and>
     valid_tombstone_key (ds_idempotency_key (rr_meta res))"

definition record_inv :: "(string \<Rightarrow> string) \<Rightarrow> recv_env \<Rightarrow> tombstones \<Rightarrow> recv_state \<Rightarrow> bool" where
  "record_inv sha env t s \<longleftrightarrow>
     (case rs_phase s of
        AwaitSend \<Rightarrow> rs_published s = [] \<and> rs_tombs s = Some t
      | Streaming st \<Rightarrow> rs_published s = [] \<and> rs_tombs s = Some t \<and>
          validate_drop_metadata (st_meta st) = None \<and> normalize_chunk (st_meta st) = st_meta st
      | Returned _ \<Rightarrow> \<forall>(res, w) \<in> set (rs_published s).
          ds_idempotency_key (rr_meta res) \<noteq> '''' \<longrightarrow> recorded sha env t s res)"

lemma completion_entry_matches:
  "normalize_chunk (st_meta st) = st_meta st \<Longrightarrow> tombstone_matches (completion_entry sha st) (st_meta st)"
  by (simp add: tombstone_matches_def completion_entry_def Let_def)

lemma finish_transfer_tombs:
  assumes "rs_published s = []" "rs_tombs s = Some t" "(res, w) \<in> set (rs_published (finish_transfer sha cfg env st s))"
    "ds_idempotency_key (st_meta st) \<noteq> ''''"
  shows "rs_tombs (finish_transfer sha cfg env st s) = Some (fst (tombstone_record (en_now env)
      (en_persist_ok env) t (completion_entry sha st)))" "res = session_result sha env st"
  using assms
  by (auto simp: finish_transfer_def record_completion_def Let_def split: option.splits if_splits)

lemma finish_transfer_record:
  assumes s: "rs_published s = []" "rs_tombs s = Some t"
    and m: "validate_drop_metadata (st_meta st) = None" "normalize_chunk (st_meta st) = st_meta st"
  shows "record_inv sha env t (finish_transfer sha cfg env st s)"
proof -
  let ?s = "finish_transfer sha cfg env st s"
  have "recorded sha env t ?s res"
    if "(res, w) \<in> set (rs_published ?s)" "ds_idempotency_key (rr_meta res) \<noteq> ''''" for res w
  proof -
    have res: "res = session_result sha env st"
      using that(1) s(1) by (auto simp: finish_transfer_published split: option.splits if_splits)
    with that(2) have k: "ds_idempotency_key (st_meta st) \<noteq> ''''" by (simp add: session_result_def)
    from finish_transfer_tombs(1) [OF s that(1) k] completion_entry_matches [OF m(2)] res
      valid_sizes(5) [OF m(1)] k
    show ?thesis
      by (auto simp: recorded_def session_result_def completion_entry_def Let_def)
  qed
  moreover obtain r where "rs_phase ?s = Returned r" using finish_transfer_returned by blast
  ultimately show ?thesis by (auto simp: record_inv_def)
qed

lemma record_step:
  assumes inv: "record_inv sha env t s"
  shows "record_inv sha env t (recv_step sha cfg env s ev)"
proof (cases "rs_phase s")
  case AwaitSend
  then have s: "rs_published s = []" "rs_tombs s = Some t" using inv by (simp_all add: record_inv_def)
  have "validate_drop_metadata (st_meta st) = None \<and> normalize_chunk (st_meta st) = st_meta st"
    if ph: "rs_phase (on_await cfg env ev s) = Streaming st" for st
    using on_await_tomb [OF ph AwaitSend] validate_local_meta normalize_local_meta by metis
  with AwaitSend s show ?thesis by (auto simp: recv_step_def record_inv_def split: recv_phase.splits)
next
  case (Streaming st)
  then have s: "rs_published s = []" "rs_tombs s = Some t"
    and m: "validate_drop_metadata (st_meta st) = None" "normalize_chunk (st_meta st) = st_meta st"
    using inv by (simp_all add: record_inv_def)
  have "record_inv sha env t (on_chunk sha cfg env st c s)" for c
    using refl [of "on_chunk sha cfg env st c s"]
  proof (cases rule: on_chunk_cases)
    case (final st1 s1)
    with finish_transfer_record [of s1 t "after_chunk st (dd_data c)"] s m
      store_chunk_cases(4,5) [OF final(2)] show ?thesis by simp
  qed (use s m store_chunk_error store_chunk_cases(4,5) in \<open>auto simp: record_inv_def\<close>)
  with Streaming s m show ?thesis
    by (auto simp: recv_step_def on_stream_def record_inv_def
        split: net_event.splits frame.splits option.splits)
qed (use inv in \<open>simp add: recv_step_def\<close>)

interpretation completion: stepper "recv_step sha cfg env" "record_inv sha env t" for sha cfg env t
  by unfold_locales (rule record_step)

lemma published_made_record:
  assumes pub: "(res, w') \<in> set (rs_published (recv_run sha cfg env (recv_start w q (Some t)) evs))"
    and key: "ds_idempotency_key (rr_meta res) \<noteq> ''''"
    and ledger: "rs_tombs (recv_run sha cfg env (recv_start w q (Some t)) evs) = Some t'"
  obtains e where "t' = fst (tombstone_record (en_now env) (en_persist_ok env) t e)"
    "te_key e = ds_idempotency_key (rr_meta res)" "te_completed_at e = 0"
    "te_sha256 e = rr_payload_sha256 res" "trim_space (te_key e) \<noteq> ''''"
proof -
  let ?s = "recv_run sha cfg env (recv_start w q (Some t)) evs"
  have "record_inv sha env t ?s"
    by (rule completion.run_inv) (simp add: record_inv_def recv_start_def)
  with pub key have "recorded sha env t ?s res"
    by (auto simp: record_inv_def split: recv_phase.splits)
  then obtain e where e: "t' = fst (tombstone_record (en_now env) (en_persist_ok env) t e)"
      "te_key e = ds_idempotency_key (rr_meta res)" "te_completed_at e = 0"
      "te_sha256 e = rr_payload_sha256 res"
    and k: "valid_tombstone_key (ds_idempotency_key (rr_meta res))"
    using ledger by (auto simp: recorded_def)
  have "trim_space (te_key e) = te_key e"
    using k e(2) by (intro trim_space_ident) (simp add: valid_tombstone_key_def list_all_iff)
  with key e(2) have "trim_space (te_key e) \<noteq> ''''" by simp
  with that e show thesis by blast
qed

section \<open>A concrete session\<close>

definition demo_sha :: "string \<Rightarrow> string" where
  "demo_sha s = replicate 64 (if s = ''hello'' then CHR ''a'' else CHR ''b'')"

definition demo_meta :: drop_send where
  "demo_meta = \<lparr>ds_drop_id = ''d1'', ds_kind = ''file'', ds_name = ''f'', ds_size = 5,
     ds_mime_type = '''', ds_chunk_size = 3, ds_head_hash = '''', ds_idempotency_key = ''k1'',
     ds_rel_path = '''', ds_attempt_id = ''''\<rparr>"

definition demo_file :: dest where
  "demo_file = \<lparr>d_bytes = '''', d_pos = 0, d_discard = False, d_reports = None, d_seeker = True,
     d_read_seeker = True, d_syncer = True\<rparr>"

definition demo_cfg :: recv_cfg where
  "demo_cfg = \<lparr>rc_max_size = 0, rc_max_text_size = 0, rc_touch_activity = None,
     rc_received_bytes = 0, rc_on_meta = Some (\<lambda>_. Inr (Some demo_file)),
     rc_before_complete = Some (\<lambda>_. None), rc_attempt_id = ''''\<rparr>"

definition demo_env :: recv_env where
  "demo_env = \<lparr>en_fault = (\<lambda>_. False), en_write = (\<lambda>_ bs. (length bs, False)),
     en_sync_ok = (\<lambda>_. True), en_ack_ok = True, en_complete_ok = True, en_now = 7,
     en_persist_ok = True, en_fingerprint = ''fp'', en_address = None\<rparr>"

definition demo_events :: "net_event list" where
  "demo_events =
     [Frame (FHeartbeat None), Frame (FSend (Some demo_meta)),
      Frame (FData (Some \<lparr>dd_drop_id = ''d1'', dd_chunk_index = 0, dd_data = ''hel'',
        dd_final = False, dd_sha256 = ''''\<rparr>)),
      Frame (FData (Some \<lparr>dd_drop_id = ''d1'', dd_chunk_index = 1, dd_data = ''lo'',
        dd_final = True, dd_sha256 = replicate 64 (CHR ''A'')\<rparr>))]"

definition demo_ledger :: tombstones where
  "demo_ledger = \<lparr>tb_path = '''', tb_max_entries = 1024, tb_max_age = 24 * hour, tb_entries = [],
     tb_persist_failed = False\<rparr>"

definition demo_end :: recv_state where
  "demo_end = recv_run demo_sha demo_cfg demo_env
     (recv_start None (Some default_transfer_quota) (Some demo_ledger)) demo_events"

definition demo_result :: recv_result where
  "demo_result = \<lparr>rr_meta = demo_meta, rr_bytes_written = 5,
     rr_payload_sha256 = replicate 64 (CHR ''a''), rr_duplicate = False, rr_fingerprint = ''fp'',
     rr_address = ''''\<rparr>"

definition demo_entry :: tombstone_entry where
  "demo_entry = \<lparr>te_key = ''k1'', te_drop_id = ''d1'', te_kind = ''file'', te_name = ''f'',
     te_size = 5, te_mime_type = '''', te_chunk_size = 3, te_head_hash = '''',
     te_sha256 = replicate 64 (CHR ''a''), te_bytes = 5, te_completed_at = 7\<rparr>"

lemma demo_end_eq:
  "demo_end = \<lparr>rs_phase = Returned (Inr demo_result),
     rs_dest = Some (demo_file\<lparr>d_bytes := ''hello'', d_pos := 5\<rparr>),
     rs_quota = Some (default_transfer_quota\<lparr>peers := Some []\<rparr>),
     rs_lease = Some \<lparr>l_peer = ''fp'', l_bytes = 5, l_unknown = False, l_released = True\<rparr>,
     rs_tombs = Some (demo_ledger\<lparr>tb_entries := [(''k1'', demo_entry)]\<rparr>),
     rs_sent = [HeartbeatMsg '''',
       AckMsg \<lparr>ak_drop_id = ''d1'', ak_accepted = True, ak_received_bytes = 0, ak_error = None\<rparr>,
       CompleteMsg \<lparr>dc_drop_id = ''d1'', dc_success = True, dc_bytes_recv = 5,
         dc_sha256 = replicate 64 (CHR ''a''), dc_error = None, dc_duplicate = False\<rparr>],
     rs_published = [(demo_result, Some (demo_file\<lparr>d_bytes := ''hello'', d_pos := 5\<rparr>))]\<rparr>"
  by code_simp

lemma demo_published:
  "rs_published demo_end = [(demo_result, Some (demo_file\<lparr>d_bytes := ''hello'', d_pos := 5\<rparr>))]"
  by (simp add: demo_end_eq)

section \<open>Properties\<close>

lemma honest_end_cases:
  assumes "honest_end cfg s"
  shows "replies s = [] \<and> rs_published s = [] \<or> (\<exists>a. replies s = [AckMsg a] \<and> rs_published s = []) \<or>
    (\<exists>a c. replies s = [AckMsg a, CompleteMsg c])"
proof (cases "replies s")
  case (Cons x xs)
  show ?thesis
  proof (cases xs)
    case Nil
    with Cons assms show ?thesis by (cases x) (simp_all add: honest_end_def)
  next
    case (Cons y ys)
    with \<open>replies s = x # xs\<close> assms show ?thesis
      by (cases x; cases y; cases ys) (simp_all add: honest_end_def)
  qed
qed (use assms in \<open>simp add: honest_end_def\<close>)

text \<open>
  C2. Whatever a peer sends, a receive session publishes at most once, and only a verified payload:
  the destination holds bytes whose digest is the one reported and the one some final chunk
  announced, of exactly the declared size (when one is declared), within the configured limits; and a
  seekable destination of a transfer of declared size holds nothing else, no stale tail survives.
\<close>

theorem receiver_publishes_verified:
  assumes "good_dests cfg env w"
    and "(res, w') \<in> set (rs_published (recv_run sha cfg env (recv_start w q t) evs))"
  shows "length (rs_published (recv_run sha cfg env (recv_start w q t) evs)) = 1 \<and>
    validate_drop_metadata (rr_meta res) = None \<and>
    (\<exists>d payload c. w' = Some d \<and> take (length payload) (d_bytes d) = payload \<and>
       rr_payload_sha256 res = sha payload \<and> rr_bytes_written res = int (length payload) \<and>
       (0 < ds_size (rr_meta res) \<longrightarrow> int (length payload) = ds_size (rr_meta res)) \<and>
       (0 < max_size_of cfg \<longrightarrow> int (length payload) \<le> max_size_of cfg) \<and>
       (ds_kind (rr_meta res) = kind_text \<longrightarrow> 0 < max_text_of cfg \<longrightarrow>
          int (length payload) \<le> max_text_of cfg) \<and>
       Frame (FData (Some c)) \<in> set evs \<and> dd_final c \<and> equal_fold (sha payload) (dd_sha256 c) \<and>
       (0 < ds_size (rr_meta res) \<and> d_read_seeker d \<and> \<not> en_fault env LenCurrent \<and>
          \<not> en_fault env LenEnd \<longrightarrow> d_bytes d = payload))"
proof -
  let ?s = "recv_run sha cfg env (recv_start w q t) evs"
  have "recv_inv sha cfg env (set evs) ?s"
    by (rule recv_session.allowed_run_inv)
      (use assms(1) in \<open>simp_all add: recv_inv_def recv_start_def list_all_iff\<close>)
  with assms(2) have v: "verified sha cfg env (set evs) (res, w')" and l: "length (rs_published ?s) \<le> 1"
    by (auto simp: recv_inv_def list_all_iff split: recv_phase.splits)
  from l assms(2) have "length (rs_published ?s) = 1" by (cases "rs_published ?s") auto
  have v': "validate_drop_metadata (rr_meta res) = None"
    using v unfolding verified_def Let_def prod.case by blast
  obtain payload where p: "rr_payload_sha256 res = sha payload"
      "rr_bytes_written res = int (length payload)" "dest_holds env (rr_meta res) payload w'"
      "0 < ds_size (rr_meta res) \<longrightarrow> int (length payload) = ds_size (rr_meta res)"
      "0 < max_size_of cfg \<longrightarrow> int (length payload) \<le> max_size_of cfg"
      "ds_kind (rr_meta res) = kind_text \<longrightarrow> 0 < max_text_of cfg \<longrightarrow>
         int (length payload) \<le> max_text_of cfg"
      "\<exists>c. Frame (FData (Some c)) \<in> set evs \<and> dd_final c \<and> equal_fold (sha payload) (dd_sha256 c)"
    using v unfolding verified_def Let_def prod.case by blast
  obtain d where d: "w' = Some d" "take (length payload) (d_bytes d) = payload"
      "0 < ds_size (rr_meta res) \<and> d_read_seeker d \<and> \<not> en_fault env LenCurrent \<and>
         \<not> en_fault env LenEnd \<longrightarrow> int (length (d_bytes d)) \<le> ds_size (rr_meta res)"
    using p(3) unfolding dest_holds_def by blast
  have "d_bytes d = payload" if "0 < ds_size (rr_meta res) \<and> d_read_seeker d \<and>
      \<not> en_fault env LenCurrent \<and> \<not> en_fault env LenEnd"
    using d(2,3) that p(4) by simp
  with v' p d(1,2) \<open>length (rs_published ?s) = 1\<close> show ?thesis by blast
qed

theorem receiver_publishes_verified_witness:
  "\<exists>payload. take (length payload) ''hello'' = payload \<and> length payload = 5 \<and>
     rr_payload_sha256 demo_result = demo_sha payload"
proof -
  have g: "good_dests demo_cfg demo_env None"
    by (simp add: good_dests_def demo_cfg_def good_dest_def demo_file_def)
  have p: "(demo_result, Some (demo_file\<lparr>d_bytes := ''hello'', d_pos := 5\<rparr>)) \<in> set (rs_published
      (recv_run demo_sha demo_cfg demo_env
        (recv_start None (Some default_transfer_quota) (Some demo_ledger)) demo_events))"
    using demo_published by (simp add: demo_end_def)
  from receiver_publishes_verified [OF g p] obtain d payload
    where "Some (demo_file\<lparr>d_bytes := ''hello'', d_pos := 5\<rparr>) = Some d"
      "take (length payload) (d_bytes d) = payload" "rr_payload_sha256 demo_result = demo_sha payload"
      "rr_bytes_written demo_result = int (length payload)"
    by blast
  moreover have "rr_bytes_written demo_result = 5" by (simp add: demo_result_def)
  ultimately show ?thesis by (intro exI [of _ payload]) auto
qed

text \<open>
  C3. A payload published under an idempotency key is not published again while its completion is
  remembered. Once a session has published under the key - even if its receipt was lost -, then after any
  completions of other keys that the same ledger records meanwhile, up to its retention (24 hours in the
  program) and fewer than it has room for (1,024), a session that starts afterwards and whose transfers
  carry that key publishes nothing and leaves the ledger alone, and it succeeds only as a duplicate whose
  payload has the recorded digest. Sessions that overlap are not covered, nor is a key already forgotten.
\<close>

theorem receiver_no_double_publication:
  assumes "tombstones_live (en_now env) t"
    and "(res, w') \<in> set (rs_published (recv_run sha cfg env (recv_start w q (Some t)) evs))"
    and "ds_idempotency_key (rr_meta res) \<noteq> ''''"
    and "rs_tombs (recv_run sha cfg env (recv_start w q (Some t)) evs) = Some t'"
    and "list_all (later_record (en_now env) (tb_max_age t) (ds_idempotency_key (rr_meta res))) recs"
    and "0 < tb_max_entries t \<longrightarrow> int (length recs) < tb_max_entries t"
    and "list_all (key_event (ds_idempotency_key (rr_meta res))) evs2"
  shows "let t2 = foldl ledger_step t' recs; s2 = recv_run sha cfg2 env2 (recv_start w2 q2 (Some t2)) evs2
    in rs_published s2 = [] \<and> rs_tombs s2 = Some t2 \<and>
       (\<forall>res2. rs_phase s2 = Returned (Inr res2) \<longrightarrow>
          rr_duplicate res2 \<and> equal_fold (rr_payload_sha256 res2) (rr_payload_sha256 res))"
proof -
  obtain e where e: "t' = fst (tombstone_record (en_now env) (en_persist_ok env) t e)"
    "te_key e = ds_idempotency_key (rr_meta res)" "te_completed_at e = 0"
    "te_sha256 e = rr_payload_sha256 res" "trim_space (te_key e) \<noteq> ''''"
    by (rule published_made_record [OF assms(2-4)])
  let ?e = "e\<lparr>te_completed_at := en_now env\<rparr>" and ?t2 = "foldl ledger_step t' recs"
  have "tombstone_lookup ?t2 (ds_idempotency_key (rr_meta res)) = Some ?e"
    using recorded_stays [OF assms(1) e(5,3)] assms(5,6) by (simp add: e(1,2))
  then have "dup_inv sha ?t2 ?e (recv_run sha cfg2 env2 (recv_start w2 q2 (Some ?t2)) evs2)"
    by (rule known_key_publishes_nothing [OF _ assms(3,7)])
  with e(4) show ?thesis by (auto simp: dup_inv_def Let_def)
qed

definition demo_other :: "go_time \<times> bool \<times> tombstone_entry" where
  "demo_other = (8, False, sample_entry)"

theorem receiver_no_double_publication_witness:
  "\<exists>t'. rs_tombs demo_end = Some t' \<and>
     rs_published (recv_run demo_sha demo_cfg demo_env (recv_start None None (Some (ledger_step t' demo_other))) demo_events) = []"
proof -
  have live: "tombstones_live (en_now demo_env) demo_ledger"
    by (simp add: tombstones_live_def demo_env_def demo_ledger_def)
  have p: "(demo_result, Some (demo_file\<lparr>d_bytes := ''hello'', d_pos := 5\<rparr>)) \<in> set (rs_published
      (recv_run demo_sha demo_cfg demo_env
        (recv_start None (Some default_transfer_quota) (Some demo_ledger)) demo_events))"
    using demo_published by (simp add: demo_end_def)
  obtain t' where t: "rs_tombs demo_end = Some t'" by (simp add: demo_end_eq)
  have key: "ds_idempotency_key (rr_meta demo_result) = ''k1''" by (simp add: demo_result_def demo_meta_def)
  have k: "list_all (key_event (ds_idempotency_key (rr_meta demo_result))) demo_events"
    by (simp add: demo_events_def demo_result_def demo_meta_def)
  have r: "list_all (later_record (en_now demo_env) (tb_max_age demo_ledger) (ds_idempotency_key (rr_meta demo_result))) [demo_other]"
    by (simp add: key later_record_def demo_other_def sample_entry_def demo_env_def demo_ledger_def)
  have n: "0 < tb_max_entries demo_ledger \<longrightarrow> int (length [demo_other]) < tb_max_entries demo_ledger"
    by (simp add: demo_ledger_def)
  have "ds_idempotency_key (rr_meta demo_result) \<noteq> ''''" by (simp add: key)
  from receiver_no_double_publication [OF live p this t [unfolded demo_end_def] r n k] t show ?thesis
    by (auto simp: Let_def)
qed

text \<open>
  The answers are honest. A session that has returned has answered nothing, a single
  acknowledgement, or an acceptance followed by one receipt; a refusal or a failure receipt means
  that nothing was published, and a success receipt that is not a duplicate, on a receiver that
  publishes, means exactly one publication with the digest and byte count of the receipt.
\<close>

theorem receiver_answers_honest:
  assumes "rs_phase (recv_run sha cfg env (recv_start w q t) evs) = Returned r"
  defines "s \<equiv> recv_run sha cfg env (recv_start w q t) evs"
  shows "(replies s = [] \<or> (\<exists>a. replies s = [AckMsg a]) \<or>
      (\<exists>a c. replies s = [AckMsg a, CompleteMsg c] \<and> ak_accepted a)) \<and>
    (\<forall>a. AckMsg a \<in> set (rs_sent s) \<and> \<not> ak_accepted a \<longrightarrow> rs_published s = []) \<and>
    (\<forall>c. CompleteMsg c \<in> set (rs_sent s) \<and> \<not> dc_success c \<longrightarrow> rs_published s = []) \<and>
    (\<forall>c. CompleteMsg c \<in> set (rs_sent s) \<and> dc_success c \<and> \<not> dc_duplicate c \<and>
       rc_before_complete cfg \<noteq> None \<longrightarrow>
       (\<exists>res w'. rs_published s = [(res, w')] \<and> rr_payload_sha256 res = dc_sha256 c \<and>
          rr_bytes_written res = dc_bytes_recv c))"
proof -
  have "answer_inv cfg s"
    unfolding s_def by (rule answers.run_inv) (simp add: answer_inv_def recv_start_def replies_def)
  then have h: "honest_end cfg s" using assms(1) by (simp add: answer_inv_def s_def)
  have m: "m \<in> set (rs_sent s) \<longleftrightarrow> m \<in> set (replies s)" if "\<not> is_heartbeat m" for m
    using that by (simp add: replies_def)
  from honest_end_cases [OF h] consider "replies s = []" "rs_published s = []"
    | a where "replies s = [AckMsg a]" "rs_published s = []"
    | a c where "replies s = [AckMsg a, CompleteMsg c]"
    by blast
  then show ?thesis
    by cases (use h m in \<open>auto simp: honest_end_def split: option.splits if_splits\<close>)
qed

theorem receiver_answers_honest_witness:
  "\<exists>a c. replies demo_end = [AckMsg a, CompleteMsg c] \<and> dc_success c \<and> ak_accepted a \<and>
     rs_published demo_end \<noteq> []"
proof -
  have r: "rs_phase demo_end = Returned (Inr demo_result)"
    and l: "length (replies demo_end) = 2"
    and ok: "dc_success (case replies demo_end of [_, CompleteMsg c] \<Rightarrow> c)"
    by (simp_all add: demo_end_eq replies_def)
  from receiver_answers_honest [OF r [unfolded demo_end_def], folded demo_end_def] l
  obtain a c where "replies demo_end = [AckMsg a, CompleteMsg c]" "ak_accepted a" by auto
  with ok demo_published show ?thesis by auto
qed

text \<open>
  C25. A session gives back what it reserved: whatever the peer sends and however the session ends,
  when it has returned the quota counts exactly the leases of the other sessions again.
\<close>

theorem receiver_releases_quota:
  assumes "quota_inv q M" "list_all int64_event evs"
    and "rs_phase (recv_run sha cfg env (recv_start w (Some q) t) evs) = Returned r"
  shows "\<exists>q'. rs_quota (recv_run sha cfg env (recv_start w (Some q) t) evs) = Some q' \<and>
    active_transfers q' = int (size M) \<and> active_bytes q' = held M \<and>
    (\<forall>p. peer_usage q' p = abs_usage M p)"
proof -
  let ?s = "recv_run sha cfg env (recv_start w (Some q) t) evs"
  have "recv_quota_inv M ?s"
    by (rule recv_quota.allowed_run_inv [OF _ assms(2)])
      (use assms(1) in \<open>simp add: recv_quota_inv_def recv_start_def\<close>)
  with assms(3) show ?thesis
    by (auto simp: recv_quota_inv_def quota_inv_def peer_usage_exact)
qed

theorem receiver_releases_quota_witness:
  "\<exists>q'. rs_quota demo_end = Some q' \<and> active_transfers q' = 0 \<and> active_bytes q' = 0"
proof -
  have r: "rs_phase demo_end = Returned (Inr demo_result)" by (simp add: demo_end_eq)
  have "list_all int64_event demo_events" by (simp add: demo_events_def demo_meta_def)
  from receiver_releases_quota [OF default_quota_inv this r [unfolded demo_end_def]] show ?thesis
    by (auto simp: demo_end_def)
qed

end
