(* ===== verification/Drop_Sender.thy ===== *)
theory Drop_Sender
  imports Drop_Messages
begin

text \<open>
  \<open>SendDrop\<close> (internal/drop/sender.go) as a state machine: it sends the metadata, waits for the
  acknowledgement, streams the payload with one chunk of read-ahead, and waits for the receipt. Reads,
  sends and the context are the record \<open>send_env\<close>; the generated drop id is part of it.
\<close>

section \<open>Environment and state\<close>

text \<open>A payload: its bytes, the read position, whether it is an \<open>io.ReadSeeker\<close>.\<close>

record payload_src =
  pl_bytes :: string
  pl_pos :: nat
  pl_seekable :: bool

datatype resume_op = HashSeek | HashCopy | OffsetSeek

text \<open>
  \<open>se_ctx_done i\<close> and \<open>se_read_fails i\<close> are the context check and the read around chunk \<open>i\<close>.
\<close>

record send_env =
  se_drop_id :: string
  se_meta_ok :: bool
  se_chunk_ok :: "int \<Rightarrow> bool"
  se_read_fails :: "int \<Rightarrow> bool"
  se_ctx_done :: "int \<Rightarrow> bool"
  se_resume_fault :: "resume_op \<Rightarrow> bool"

datatype send_phase =
    AwaitAck
  | AwaitComplete string
  | SendReturned "drop_error option"

text \<open>The state keeps the messages sent and the calls of the three observation hooks.\<close>

record send_state =
  ss_phase :: send_phase
  ss_meta :: drop_send
  ss_payload :: payload_src
  ss_sent :: "drop_msg list"
  ss_progress :: "int list"
  ss_acked :: "drop_ack option"
  ss_completed :: "drop_complete option"

section \<open>Streaming\<close>

text \<open>
  The outcome of the streaming part: the chunks handed to the transport, the progress reports, and
  an error or the bytes that went through the hasher.
\<close>

record stream_out =
  so_chunks :: "drop_data list"
  so_progress :: "int list"
  so_result :: "drop_error + string"

definition stop_stream :: "drop_error \<Rightarrow> stream_out" where
  "stop_stream e = \<lparr>so_chunks = [], so_progress = [], so_result = Inl e\<rparr>"

definition end_stream :: "string \<Rightarrow> stream_out" where
  "end_stream hashed = \<lparr>so_chunks = [], so_progress = [], so_result = Inr hashed\<rparr>"

text \<open>Send one chunk and report it; go on with \<open>rest\<close> if the send succeeds.\<close>

definition send_chunk :: "send_env \<Rightarrow> drop_data \<Rightarrow> int \<Rightarrow> stream_out \<Rightarrow> stream_out" where
  "send_chunk env c reported rest =
     (if se_chunk_ok env (dd_chunk_index c) then
        rest\<lparr>so_chunks := c # so_chunks rest, so_progress := reported # so_progress rest\<rparr>
      else stop_stream (SendFailed type_drop_data))"

definition data_chunk :: "string \<Rightarrow> int \<Rightarrow> string \<Rightarrow> drop_data" where
  "data_chunk drop_id i bs =
     \<lparr>dd_drop_id = drop_id, dd_chunk_index = i, dd_data = bs, dd_final = False, dd_sha256 = ''''\<rparr>"

definition final_chunk :: "string \<Rightarrow> int \<Rightarrow> string \<Rightarrow> string \<Rightarrow> drop_data" where
  "final_chunk drop_id i bs digest =
     \<lparr>dd_drop_id = drop_id, dd_chunk_index = i, dd_data = bs, dd_final = True, dd_sha256 = digest\<rparr>"

text \<open>
  The read-ahead loop: \<open>cur\<close> is the full chunk read last, already hashed; \<open>rest\<close> is what the
  payload still holds; \<open>io.ReadFull\<close> reads \<open>take cs rest\<close>, with \<open>io.EOF\<close> when that is empty
  and \<open>io.ErrUnexpectedEOF\<close> when it is short.
\<close>

function read_ahead ::
  "(string \<Rightarrow> string) \<Rightarrow> send_env \<Rightarrow> string \<Rightarrow> nat \<Rightarrow> int \<Rightarrow> string \<Rightarrow> string \<Rightarrow> string \<Rightarrow> int \<Rightarrow> stream_out"
where
  "read_ahead sha env drop_id cs i cur hashed rest sent =
     (if se_ctx_done env i then stop_stream ContextDone
      else if se_read_fails env (i + 1) then stop_stream ReadPayloadFailed
      else
        let next = take cs rest; sent1 = sent + int (length cur)
        in if next = [] then
             send_chunk env (final_chunk drop_id i cur (sha hashed)) sent1 (end_stream hashed)
           else if length next < cs then
             send_chunk env (data_chunk drop_id i cur) sent1
               (send_chunk env (final_chunk drop_id (i + 1) next (sha (hashed @ next)))
                  (sent1 + int (length next)) (end_stream (hashed @ next)))
           else
             send_chunk env (data_chunk drop_id i cur) sent1
               (read_ahead sha env drop_id cs (i + 1) next (hashed @ next) (drop cs rest) sent1))"
  by pat_completeness auto
termination by (relation "measure (\<lambda>(_, _, _, _, _, _, _, rest, _). length rest)") auto

declare read_ahead.simps [simp del]

text \<open>
  The first read, from chunk index \<open>i\<close> on. An empty payload is one empty final chunk, which reports
  no progress.
\<close>

definition stream_payload ::
  "(string \<Rightarrow> string) \<Rightarrow> send_env \<Rightarrow> string \<Rightarrow> nat \<Rightarrow> int \<Rightarrow> string \<Rightarrow> string \<Rightarrow> int \<Rightarrow> stream_out" where
  "stream_payload sha env drop_id cs i hashed rest sent =
     (if se_read_fails env i then stop_stream ReadPayloadFailed
      else
        let first = take cs rest
        in if first = [] then
             (if se_ctx_done env i then stop_stream ContextDone
              else if se_chunk_ok env i then
                (end_stream hashed)\<lparr>so_chunks := [final_chunk drop_id i [] (sha hashed)]\<rparr>
              else stop_stream (SendFailed type_drop_data))
           else if length first < cs then
             (if se_ctx_done env i then stop_stream ContextDone
              else send_chunk env (final_chunk drop_id i first (sha (hashed @ first)))
                     (sent + int (length first)) (end_stream (hashed @ first)))
           else read_ahead sha env drop_id cs i first (hashed @ first) (drop cs rest) sent)"

text \<open>
  Resumption from the offset of the acknowledgement: the bytes hashed so far, the bytes still to be
  read, the first chunk index and the progress counter.
\<close>

definition resume_point ::
  "send_env \<Rightarrow> drop_send \<Rightarrow> payload_src \<Rightarrow> int \<Rightarrow> drop_error + (string \<times> string \<times> int \<times> int)" where
  "resume_point env meta p n =
     (if 0 < n then
        (if n < 0 \<or> go_mod n (ds_chunk_size meta) \<noteq> 0 then Inl (BadResumeOffset n)
         else if \<not> pl_seekable p then Inl PayloadNotSeekable
         else if se_resume_fault env HashSeek then Inl SeekStartFailed
         else if se_resume_fault env HashCopy \<or> int (length (pl_bytes p)) < n then Inl HashExistingFailed
         else if se_resume_fault env OffsetSeek then Inl SeekResumeFailed
         else Inr (take (nat n) (pl_bytes p), drop (nat n) (pl_bytes p),
                   go_div n (ds_chunk_size meta), n))
      else Inr ('''', drop (pl_pos p) (pl_bytes p), 0, 0))"

section \<open>The session\<close>

definition send_fail :: "drop_error \<Rightarrow> send_state \<Rightarrow> send_state" where
  "send_fail e s = s\<lparr>ss_phase := SendReturned (Some e)\<rparr>"

text \<open>The metadata with a drop id and a chunk size.\<close>

definition sender_meta :: "send_env \<Rightarrow> drop_send \<Rightarrow> drop_send" where
  "sender_meta env meta0 =
     (let meta = (if ds_drop_id meta0 = '''' then meta0\<lparr>ds_drop_id := se_drop_id env\<rparr> else meta0)
      in normalize_chunk meta)"

definition send_start :: "send_env \<Rightarrow> drop_send \<Rightarrow> payload_src option \<Rightarrow> send_state" where
  "send_start env meta0 p =
     (let meta = sender_meta env meta0;
          src = (case p of None \<Rightarrow> \<lparr>pl_bytes = [], pl_pos = 0, pl_seekable = False\<rparr> | Some b \<Rightarrow> b);
          s = \<lparr>ss_phase = AwaitAck, ss_meta = meta, ss_payload = src, ss_sent = [],
               ss_progress = [], ss_acked = None, ss_completed = None\<rparr>
      in case validate_drop_metadata meta of
           Some e \<Rightarrow> send_fail (InvalidMeta e) s
         | None \<Rightarrow>
             if p = None then send_fail PayloadNil s
             else if \<not> se_meta_ok env then send_fail (SendFailed type_drop_send) s
             else s\<lparr>ss_sent := [SendMsg meta]\<rparr>)"

text \<open>The acknowledgement's checks.\<close>

definition ack_refusal :: "drop_send \<Rightarrow> drop_ack \<Rightarrow> drop_error option" where
  "ack_refusal meta a =
     (if ak_drop_id a \<noteq> ds_drop_id meta then Some (AckIdMismatch (ak_drop_id a) (ds_drop_id meta))
      else if \<not> ak_accepted a then Some (Rejected (ak_error a) 0)
      else if ak_received_bytes a < 0 \<or> 0 < ds_size meta \<and> ds_size meta < ak_received_bytes a
        then Some (BadResumeOffset (ak_received_bytes a))
      else None)"

definition on_accepted :: "(string \<Rightarrow> string) \<Rightarrow> send_env \<Rightarrow> drop_ack \<Rightarrow> send_state \<Rightarrow> send_state" where
  "on_accepted sha env a s0 =
     (let s = s0\<lparr>ss_acked := Some a\<rparr>; meta = ss_meta s
      in case resume_point env meta (ss_payload s) (ak_received_bytes a) of
           Inl e \<Rightarrow> send_fail e s
         | Inr (hashed, rest, i, sent) \<Rightarrow>
             let out = stream_payload sha env (ds_drop_id meta) (nat (ds_chunk_size meta)) i hashed rest sent;
                 s1 = s\<lparr>ss_sent := ss_sent s @ map DataMsg (so_chunks out),
                        ss_progress := ss_progress s @ so_progress out\<rparr>
             in (case so_result out of
                   Inl e \<Rightarrow> send_fail e s1
                 | Inr whole \<Rightarrow> s1\<lparr>ss_phase := AwaitComplete (sha whole)\<rparr>))"

definition on_ack :: "(string \<Rightarrow> string) \<Rightarrow> send_env \<Rightarrow> net_event \<Rightarrow> send_state \<Rightarrow> send_state" where
  "on_ack sha env ev s =
     (case ev of
        CtxDone \<Rightarrow> send_fail ContextDone s
      | RecvFail \<Rightarrow> send_fail (ReceiveFailed type_drop_ack) s
      | Frame (FHeartbeat hb) \<Rightarrow> s\<lparr>ss_sent := ss_sent s @ [heartbeat_reply hb]\<rparr>
      | Frame (FAck (Some a)) \<Rightarrow>
          (case ack_refusal (ss_meta s) a of
             Some e \<Rightarrow> send_fail e s
           | None \<Rightarrow> on_accepted sha env a s)
      | Frame (FAck None) \<Rightarrow> send_fail (DecodeFailed type_drop_ack) s
      | Frame f \<Rightarrow> send_fail (UnexpectedType type_drop_ack (frame_type f)) s)"

text \<open>The receipt's checks, against the digest of what was sent.\<close>

definition receipt_refusal :: "drop_send \<Rightarrow> string \<Rightarrow> drop_complete \<Rightarrow> drop_error option" where
  "receipt_refusal meta sent_sha c =
     (if dc_drop_id c \<noteq> ds_drop_id meta then Some (CompleteIdMismatch (dc_drop_id c) (ds_drop_id meta))
      else if \<not> dc_success c then Some (Rejected (dc_error c) (dc_bytes_recv c))
      else if dc_bytes_recv c < 0 \<or> 0 < ds_size meta \<and> dc_bytes_recv c \<noteq> ds_size meta
        then Some (CompleteCountMismatch (dc_bytes_recv c) (ds_size meta))
      else if dc_sha256 c = '''' \<or> \<not> equal_fold (dc_sha256 c) sent_sha
        then Some (CompleteDigestMismatch (dc_sha256 c) sent_sha)
      else None)"

definition on_complete :: "string \<Rightarrow> net_event \<Rightarrow> send_state \<Rightarrow> send_state" where
  "on_complete sent_sha ev s =
     (case ev of
        CtxDone \<Rightarrow> send_fail ContextDone s
      | RecvFail \<Rightarrow> send_fail (ReceiveFailed type_drop_complete) s
      | Frame (FHeartbeat hb) \<Rightarrow> s\<lparr>ss_sent := ss_sent s @ [heartbeat_reply hb]\<rparr>
      | Frame (FComplete (Some c)) \<Rightarrow>
          (case receipt_refusal (ss_meta s) sent_sha c of
             Some e \<Rightarrow> send_fail e s
           | None \<Rightarrow> s\<lparr>ss_completed := Some c, ss_phase := SendReturned None\<rparr>)
      | Frame (FComplete None) \<Rightarrow> send_fail (DecodeFailed type_drop_complete) s
      | Frame f \<Rightarrow> send_fail (UnexpectedType type_drop_complete (frame_type f)) s)"

definition send_step ::
  "(string \<Rightarrow> string) \<Rightarrow> send_env \<Rightarrow> send_state \<Rightarrow> net_event \<Rightarrow> send_state" where
  "send_step sha env s ev =
     (case ss_phase s of
        AwaitAck \<Rightarrow> on_ack sha env ev s
      | AwaitComplete sent_sha \<Rightarrow> on_complete sent_sha ev s
      | SendReturned _ \<Rightarrow> s)"

abbreviation send_run ::
  "(string \<Rightarrow> string) \<Rightarrow> send_env \<Rightarrow> send_state \<Rightarrow> net_event list \<Rightarrow> send_state" where
  "send_run sha env \<equiv> foldl (send_step sha env)"

section \<open>The read-ahead loop against a reference\<close>

text \<open>
  The reference cuts the remaining payload by its length, with no read-ahead: full chunks while more
  than one chunk is left, then the final chunk with the digest of everything.
\<close>

function ref_chunks ::
  "(string \<Rightarrow> string) \<Rightarrow> string \<Rightarrow> nat \<Rightarrow> int \<Rightarrow> string \<Rightarrow> string \<Rightarrow> drop_data list" where
  "ref_chunks sha drop_id cs i hashed rest =
     (if cs = 0 \<or> length rest \<le> cs then [final_chunk drop_id i rest (sha (hashed @ rest))]
      else data_chunk drop_id i (take cs rest) #
             ref_chunks sha drop_id cs (i + 1) (hashed @ take cs rest) (drop cs rest))"
  by pat_completeness auto
termination by (relation "measure (\<lambda>(_, _, _, _, _, rest). length rest)") auto

declare ref_chunks.simps [simp del]

lemma ref_chunks_final:
  "length rest \<le> cs \<Longrightarrow>
     ref_chunks sha drop_id cs i hashed rest = [final_chunk drop_id i rest (sha (hashed @ rest))]"
  by (subst ref_chunks.simps) simp

lemma ref_chunks_more:
  "0 < cs \<Longrightarrow> cs < length rest \<Longrightarrow>
     ref_chunks sha drop_id cs i hashed rest =
       data_chunk drop_id i (take cs rest) #
         ref_chunks sha drop_id cs (i + 1) (hashed @ take cs rest) (drop cs rest)"
  by (subst ref_chunks.simps) simp

text \<open>A stream follows the reference: a prefix of it, the whole of it when it succeeds.\<close>

definition follows :: "stream_out \<Rightarrow> drop_data list \<Rightarrow> string \<Rightarrow> bool" where
  "follows out cs whole \<longleftrightarrow>
     (\<exists>k. so_chunks out = take k cs) \<and>
     (\<forall>h. so_result out = Inr h \<longrightarrow> h = whole \<and> so_chunks out = cs)"

lemma follows_stop [simp]: "follows (stop_stream e) cs whole"
  by (auto simp: follows_def stop_stream_def intro: exI [of _ 0])

lemma follows_end [simp]: "follows (end_stream h) [] h"
  by (simp add: follows_def end_stream_def)

lemma follows_send: "follows out cs whole \<Longrightarrow> follows (send_chunk env c n out) (c # cs) whole"
proof -
  assume f: "follows out cs whole"
  show ?thesis
  proof (cases "se_chunk_ok env (dd_chunk_index c)")
    case True
    from f obtain k where "so_chunks out = take k cs" by (auto simp: follows_def)
    then have "c # so_chunks out = take (Suc k) (c # cs)" by simp
    then have "\<exists>k. c # so_chunks out = take k (c # cs)" by blast
    with f True show ?thesis by (simp add: follows_def send_chunk_def)
  qed (simp add: send_chunk_def)
qed

lemma read_ahead_follows:
  assumes "0 < cs" "length cur = cs"
  shows "follows (read_ahead sha env drop_id cs i cur (pre @ cur) rest sent)
    (ref_chunks sha drop_id cs i pre (cur @ rest)) (pre @ cur @ rest)"
  using assms
proof (induction rest arbitrary: i cur pre sent rule: length_induct)
  case (1 rest)
  let ?out = "read_ahead sha env drop_id cs i cur (pre @ cur) rest sent"
  show ?case
  proof (cases "se_ctx_done env i \<or> se_read_fails env (i + 1)")
    case True
    then show ?thesis by (subst read_ahead.simps) auto
  next
    case ok: False
    consider (none) "rest = []" | (short) "rest \<noteq> []" "length rest < cs" | (full) "cs \<le> length rest"
      by linarith
    then show ?thesis
    proof cases
      case none
      with ok "1.prems" show ?thesis
        by (subst read_ahead.simps) (simp add: ref_chunks_final follows_send Let_def)
    next
      case short
      with ok "1.prems" show ?thesis
        by (subst read_ahead.simps) (simp add: ref_chunks_more ref_chunks_final follows_send Let_def)
    next
      case full
      have "follows (read_ahead sha env drop_id cs (i + 1) (take cs rest) ((pre @ cur) @ take cs rest)
            (drop cs rest) (sent + int (length cur)))
          (ref_chunks sha drop_id cs (i + 1) (pre @ cur) (take cs rest @ drop cs rest))
          ((pre @ cur) @ take cs rest @ drop cs rest)"
        using full "1.prems" by (intro "1.IH" [rule_format]) auto
      then have "follows (send_chunk env (data_chunk drop_id i cur) (sent + int (length cur))
          (read_ahead sha env drop_id cs (i + 1) (take cs rest) (pre @ cur @ take cs rest)
            (drop cs rest) (sent + int (length cur))))
          (data_chunk drop_id i cur # ref_chunks sha drop_id cs (i + 1) (pre @ cur) rest)
          (pre @ cur @ rest)"
        by (intro follows_send) simp
      moreover have "rest \<noteq> []" using full "1.prems" by auto
      ultimately show ?thesis
        using ok full "1.prems" by (subst read_ahead.simps) (simp add: ref_chunks_more Let_def)
    qed
  qed
qed

lemma stream_payload_follows:
  assumes "0 < cs"
  shows "follows (stream_payload sha env drop_id cs i hashed rest sent)
    (ref_chunks sha drop_id cs i hashed rest) (hashed @ rest)"
proof -
  consider (none) "rest = []" | (short) "rest \<noteq> []" "length rest < cs" | (full) "cs \<le> length rest"
    by linarith
  then show ?thesis
  proof cases
    case none
    then show ?thesis
      by (auto simp: stream_payload_def ref_chunks_final follows_def stop_stream_def end_stream_def
          Let_def intro: exI [of _ 0] exI [of _ 1])
  next
    case short
    then show ?thesis
      using follows_send [OF follows_end]
      by (simp add: stream_payload_def ref_chunks_final Let_def)
  next
    case full
    then have "rest \<noteq> []" "length (take cs rest) = cs" using assms by auto
    with full assms read_ahead_follows [OF assms, of "take cs rest" sha env drop_id i hashed "drop cs rest" sent]
    show ?thesis by (simp add: stream_payload_def Let_def)
  qed
qed

text \<open>Without a fault the stream succeeds.\<close>

definition calm :: "send_env \<Rightarrow> bool" where
  "calm env \<longleftrightarrow> se_meta_ok env \<and> (\<forall>i. se_chunk_ok env i \<and> \<not> se_read_fails env i \<and> \<not> se_ctx_done env i) \<and>
     (\<forall>r. \<not> se_resume_fault env r)"

lemma send_chunk_calm: "calm env \<Longrightarrow> so_result (send_chunk env c n out) = so_result out"
  by (simp add: calm_def send_chunk_def)

lemma read_ahead_calm: "calm env \<Longrightarrow> \<exists>h. so_result (read_ahead sha env d cs i cur hashed rest sent) = Inr h"
proof (induction sha env d cs i cur hashed rest sent rule: read_ahead.induct)
  case (1 sha env d cs i cur hashed rest sent)
  then show ?case
    by (subst read_ahead.simps) (simp add: send_chunk_calm Let_def calm_def end_stream_def)
qed

lemma stream_payload_calm:
  assumes "calm env" "0 < cs"
  shows "so_chunks (stream_payload sha env drop_id cs i hashed rest sent) =
      ref_chunks sha drop_id cs i hashed rest"
    "so_result (stream_payload sha env drop_id cs i hashed rest sent) = Inr (hashed @ rest)"
proof -
  have "\<exists>h. so_result (stream_payload sha env drop_id cs i hashed rest sent) = Inr h"
    using assms(1) read_ahead_calm [OF assms(1)]
    by (simp add: stream_payload_def Let_def send_chunk_calm end_stream_def calm_def)
  with stream_payload_follows [OF assms(2)] show
    "so_chunks (stream_payload sha env drop_id cs i hashed rest sent) =
      ref_chunks sha drop_id cs i hashed rest"
    "so_result (stream_payload sha env drop_id cs i hashed rest sent) = Inr (hashed @ rest)"
    by (auto simp: follows_def)
qed

section \<open>What a chunk sequence carries\<close>

lemma ref_chunks_data:
  "0 < cs \<Longrightarrow> concat (map dd_data (ref_chunks sha d cs i hashed rest)) = rest"
proof (induction sha d cs i hashed rest rule: ref_chunks.induct)
  case (1 sha d cs i hashed rest)
  then show ?case
    by (cases "length rest \<le> cs") (simp_all add: ref_chunks_final ref_chunks_more final_chunk_def data_chunk_def)
qed

text \<open>Progress after a chunk is the number of bytes handed to the transport so far.\<close>

fun running :: "int \<Rightarrow> drop_data list \<Rightarrow> int list" where
  "running n [] = []"
| "running n (c # cs) = (n + int (length (dd_data c))) # running (n + int (length (dd_data c))) cs"

lemma send_chunk_progress:
  assumes "so_progress out = running (n + int (length (dd_data c))) (so_chunks out)"
  shows "so_progress (send_chunk env c (n + int (length (dd_data c))) out) =
    running n (so_chunks (send_chunk env c (n + int (length (dd_data c))) out))"
  using assms by (simp add: send_chunk_def stop_stream_def)

lemma end_stream_progress [simp]: "so_progress (end_stream h) = running n (so_chunks (end_stream h))"
  by (simp add: end_stream_def)

lemma chunk_data [simp]: "dd_data (data_chunk d i bs) = bs" "dd_data (final_chunk d i bs x) = bs"
  by (simp_all add: data_chunk_def final_chunk_def)

lemma read_ahead_progress:
  "so_progress (read_ahead sha env d cs i cur hashed rest sent) =
     running sent (so_chunks (read_ahead sha env d cs i cur hashed rest sent))"
proof (induction sha env d cs i cur hashed rest sent rule: read_ahead.induct)
  case (1 sha env d cs i cur hashed rest sent)
  note send = send_chunk_progress [where c = "data_chunk d i cur" and n = sent, simplified]
  note last = send_chunk_progress [where c = "final_chunk d i cur (sha hashed)" and n = sent, simplified]
  show ?case
  proof (cases "se_ctx_done env i \<or> se_read_fails env (i + 1)")
    case True
    then show ?thesis by (subst (1 2) read_ahead.simps) (auto simp: stop_stream_def)
  next
    case ok: False
    consider (none) "take cs rest = []" | (short) "take cs rest \<noteq> []" "length (take cs rest) < cs"
      | (full) "take cs rest \<noteq> []" "\<not> length (take cs rest) < cs" by blast
    then show ?thesis
    proof cases
      case none
      with ok have "read_ahead sha env d cs i cur hashed rest sent =
          send_chunk env (final_chunk d i cur (sha hashed)) (sent + int (length cur)) (end_stream hashed)"
        by (subst read_ahead.simps) (simp add: Let_def del: take_eq_Nil)
      with last [of "end_stream hashed"] show ?thesis by simp
    next
      case short
      let ?f = "final_chunk d (i + 1) (take cs rest) (sha (hashed @ take cs rest))"
      let ?o = "send_chunk env ?f (sent + int (length cur) + int (length (take cs rest)))
        (end_stream (hashed @ take cs rest))"
      from short ok have eq: "read_ahead sha env d cs i cur hashed rest sent =
          send_chunk env (data_chunk d i cur) (sent + int (length cur)) ?o"
        by (subst read_ahead.simps) (simp add: Let_def)
      have "so_progress ?o = running (sent + int (length cur)) (so_chunks ?o)"
        using send_chunk_progress [of "end_stream (hashed @ take cs rest)" "sent + int (length cur)" ?f env]
        by simp
      from send [OF this] show ?thesis unfolding eq .
    next
      case full
      let ?o = "read_ahead sha env d cs (i + 1) (take cs rest) (hashed @ take cs rest) (drop cs rest)
        (sent + int (length cur))"
      from full ok have eq: "read_ahead sha env d cs i cur hashed rest sent =
          send_chunk env (data_chunk d i cur) (sent + int (length cur)) ?o"
        by (subst read_ahead.simps) (simp add: Let_def)
      have "so_progress ?o = running (sent + int (length cur)) (so_chunks ?o)"
        using "1.IH" ok full by simp
      from send [OF this] show ?thesis unfolding eq .
    qed
  qed
qed

lemma stream_payload_progress:
  assumes "rest \<noteq> []" "0 < cs"
  shows "so_progress (stream_payload sha env d cs i hashed rest sent) =
    running sent (so_chunks (stream_payload sha env d cs i hashed rest sent))"
  using assms read_ahead_progress
    send_chunk_progress [where c = "final_chunk d i rest (sha (hashed @ rest))" and n = sent, simplified]
  by (auto simp: stream_payload_def Let_def stop_stream_def)

lemma running_Nil_iff [simp]: "running n cs = [] \<longleftrightarrow> cs = []"
  by (cases cs) simp_all

lemma running_last:
  "cs \<noteq> [] \<Longrightarrow> last (running n cs) = n + int (length (concat (map dd_data cs)))"
  by (induction n cs rule: running.induct) (auto simp: add.assoc)

lemma running_sorted: "sorted (running n cs) \<and> (\<forall>x \<in> set (running n cs). n \<le> x)"
  by (induction n cs rule: running.induct) fastforce+

section \<open>The session invariant\<close>

text \<open>What the sender delivers: the whole payload if it rewinds to resume, else what is left to read.\<close>

definition content :: "payload_src \<Rightarrow> drop_ack \<Rightarrow> string" where
  "content p a = (if 0 < ak_received_bytes a then pl_bytes p else drop (pl_pos p) (pl_bytes p))"

fun data_of :: "drop_msg list \<Rightarrow> drop_data list" where
  "data_of [] = []"
| "data_of (DataMsg c # ms) = c # data_of ms"
| "data_of (_ # ms) = data_of ms"

lemma data_of_append [simp]: "data_of (xs @ ys) = data_of xs @ data_of ys"
  by (induction xs rule: data_of.induct) auto

lemma data_of_map [simp]: "data_of (map DataMsg cs) = cs"
  by (induction cs) auto

lemma data_of_heartbeat [simp]: "data_of [heartbeat_reply hb] = []"
  by (simp add: heartbeat_reply_def)

definition streamed :: "(string \<Rightarrow> string) \<Rightarrow> drop_send \<Rightarrow> payload_src \<Rightarrow> net_event set \<Rightarrow> send_state \<Rightarrow> drop_ack \<Rightarrow> bool" where
  "streamed sha meta p E s a \<longleftrightarrow>
     Frame (FAck (Some a)) \<in> E \<and> ack_refusal meta a = None \<and> ss_acked s = Some a \<and>
     concat (map dd_data (data_of (ss_sent s))) = drop (nat (ak_received_bytes a)) (content p a)"

definition send_inv ::
  "(string \<Rightarrow> string) \<Rightarrow> drop_send \<Rightarrow> payload_src \<Rightarrow> net_event set \<Rightarrow> send_state \<Rightarrow> bool" where
  "send_inv sha meta p E s \<longleftrightarrow>
     0 < ds_chunk_size meta \<and> ss_meta s = meta \<and> ss_payload s = p \<and>
     (case ss_phase s of
        AwaitAck \<Rightarrow> data_of (ss_sent s) = []
      | AwaitComplete d \<Rightarrow> (\<exists>a. streamed sha meta p E s a \<and> d = sha (content p a))
      | SendReturned None \<Rightarrow>
          (\<exists>a c. streamed sha meta p E s a \<and> Frame (FComplete (Some c)) \<in> E \<and>
             ss_completed s = Some c \<and> receipt_refusal meta (sha (content p a)) c = None)
      | SendReturned (Some (Rejected e n)) \<Rightarrow>
          (\<exists>a. Frame (FAck (Some a)) \<in> E \<and> \<not> ak_accepted a \<and> ak_error a = e) \<or>
          (\<exists>c. Frame (FComplete (Some c)) \<in> E \<and> \<not> dc_success c \<and> dc_error c = e)
      | SendReturned (Some _) \<Rightarrow> True)"

lemma resume_point_ok:
  assumes "resume_point env meta p (ak_received_bytes a) = Inr (hashed, rest, i, sent)"
    "0 \<le> ak_received_bytes a"
  shows "hashed @ rest = content p a" "rest = drop (nat (ak_received_bytes a)) (content p a)"
  using assms by (auto simp: resume_point_def content_def split: if_splits)

lemma not_rejected:
  "resume_point env meta p n = Inl e \<Longrightarrow> e \<noteq> Rejected x m"
  by (auto simp: resume_point_def split: if_splits)

lemma read_ahead_errors:
  "so_result (read_ahead sha env d cs i cur hashed rest sent) \<noteq> Inl (Rejected x m)"
proof (induction sha env d cs i cur hashed rest sent rule: read_ahead.induct)
  case (1 sha env d cs i cur hashed rest sent)
  then show ?case
    by (subst read_ahead.simps)
      (auto simp: send_chunk_def stop_stream_def end_stream_def Let_def)
qed

lemma stream_errors: "so_result (stream_payload sha env d cs i hashed rest sent) \<noteq> Inl (Rejected x m)"
  using read_ahead_errors
  by (auto simp: stream_payload_def stop_stream_def end_stream_def send_chunk_def Let_def)

lemma send_fail_inv:
  assumes "send_inv sha meta p E s" "\<And>x m. e \<noteq> Rejected x m"
  shows "send_inv sha meta p E (send_fail e s)"
  using assms by (cases e) (auto simp: send_inv_def send_fail_def)

lemma on_accepted_inv:
  assumes inv: "send_inv sha meta p E s" and ph: "ss_phase s = AwaitAck"
    and a: "Frame (FAck (Some a)) \<in> E" "ack_refusal meta a = None"
  shows "send_inv sha meta p E (on_accepted sha env a s)"
proof -
  have s: "0 < ds_chunk_size meta" "ss_meta s = meta" "ss_payload s = p" "data_of (ss_sent s) = []"
    using inv ph by (simp_all add: send_inv_def)
  have n: "0 \<le> ak_received_bytes a" using a(2) by (auto simp: ack_refusal_def split: if_splits)
  have fail: "send_inv sha meta p E (send_fail e s')"
    if "ss_meta s' = meta" "ss_payload s' = p" "\<And>x m. e \<noteq> Rejected x m" for e s'
    using that s(1) by (cases e) (auto simp: send_inv_def send_fail_def)
  show ?thesis
  proof (cases "resume_point env meta p (ak_received_bytes a)")
    case (Inl e)
    with s fail not_rejected [OF Inl] show ?thesis by (simp add: on_accepted_def)
  next
    case (Inr r)
    then obtain hashed rest i sent where
      r: "resume_point env meta p (ak_received_bytes a) = Inr (hashed, rest, i, sent)" by (cases r) auto
    let ?out = "stream_payload sha env (ds_drop_id meta) (nat (ds_chunk_size meta)) i hashed rest sent"
    have cs: "0 < nat (ds_chunk_size meta)" using s(1) by simp
    show ?thesis
    proof (cases "so_result ?out")
      case (Inl e)
      with stream_errors have "\<And>x m. e \<noteq> Rejected x m" by metis
      then show ?thesis by (simp add: on_accepted_def Let_def s r Inl fail)
    next
      case (Inr h)
      with stream_payload_follows [OF cs, of sha env "ds_drop_id meta" i hashed rest sent]
      have "h = content p a" "concat (map dd_data (so_chunks ?out)) = rest"
        using resume_point_ok(1) [OF r n] ref_chunks_data [OF cs] by (auto simp: follows_def)
      with s r Inr a resume_point_ok(2) [OF r n] show ?thesis
        by (simp add: on_accepted_def Let_def send_inv_def streamed_def)
    qed
  qed
qed

lemma send_step_inv:
  assumes inv: "send_inv sha meta p E s" and ev: "ev \<in> E"
  shows "send_inv sha meta p E (send_step sha env s ev)"
proof (cases "ss_phase s")
  case AwaitAck
  have hb: "send_inv sha meta p E (s\<lparr>ss_sent := ss_sent s @ [heartbeat_reply h]\<rparr>)" for h
    using inv AwaitAck by (simp add: send_inv_def)
  have m: "ss_meta s = meta" using inv by (simp add: send_inv_def)
  have "send_inv sha meta p E (case ack_refusal (ss_meta s) a of
      Some e \<Rightarrow> send_fail e s | None \<Rightarrow> on_accepted sha env a s)" if "ev = Frame (FAck (Some a))" for a
  proof (cases "ack_refusal meta a")
    case None
    with on_accepted_inv [OF inv AwaitAck _ None] ev that m show ?thesis by simp
  next
    case (Some e)
    then have "e = Rejected (ak_error a) 0 \<and> \<not> ak_accepted a \<or> (\<forall>x m. e \<noteq> Rejected x m)"
      by (auto simp: ack_refusal_def split: if_splits)
    with Some m send_fail_inv [OF inv, of e] inv ev that show ?thesis
      by (auto simp: send_inv_def send_fail_def)
  qed
  with AwaitAck hb send_fail_inv [OF inv] show ?thesis
    by (auto simp: send_step_def on_ack_def split: net_event.splits frame.splits option.splits)
next
  case (AwaitComplete d)
  then obtain a where a: "streamed sha meta p E s a" and d: "d = sha (content p a)"
    and s: "0 < ds_chunk_size meta" "ss_meta s = meta" "ss_payload s = p"
    using inv by (auto simp: send_inv_def)
  have hb: "send_inv sha meta p E (s\<lparr>ss_sent := ss_sent s @ [heartbeat_reply h]\<rparr>)" for h
    using inv AwaitComplete by (auto simp: send_inv_def streamed_def)
  have "send_inv sha meta p E (case receipt_refusal (ss_meta s) d c of
      Some e \<Rightarrow> send_fail e s | None \<Rightarrow> s\<lparr>ss_completed := Some c, ss_phase := SendReturned None\<rparr>)"
    if "ev = Frame (FComplete (Some c))" for c
  proof (cases "receipt_refusal meta d c")
    case None
    with a s d ev that show ?thesis by (auto simp: send_inv_def streamed_def)
  next
    case (Some e)
    then have "e = Rejected (dc_error c) (dc_bytes_recv c) \<and> \<not> dc_success c \<or> (\<forall>x m. e \<noteq> Rejected x m)"
      by (auto simp: receipt_refusal_def split: if_splits)
    with Some s send_fail_inv [OF inv, of e] inv ev that show ?thesis
      by (auto simp: send_inv_def send_fail_def)
  qed
  with AwaitComplete hb send_fail_inv [OF inv] show ?thesis
    by (auto simp: send_step_def on_complete_def split: net_event.splits frame.splits option.splits)
qed (use inv in \<open>simp add: send_step_def\<close>)

interpretation send_session: guarded_stepper "send_step sha env" "\<lambda>e. e \<in> E" "send_inv sha meta p E"
  for sha env E meta p
  by unfold_locales (rule send_step_inv)

lemma send_start_inv: "send_inv sha (sender_meta env meta0) p E (send_start env meta0 (Some p))"
proof -
  have "0 < ds_chunk_size (sender_meta env meta0)"
    by (simp add: sender_meta_def Let_def normalize_chunk_pos)
  then show ?thesis
    by (auto simp: send_start_def send_inv_def send_fail_def Let_def split: option.splits)
qed

section \<open>Properties\<close>

text \<open>
  C32. The streaming loop, with its one chunk of read-ahead and its three ways to meet the end of the
  payload, sends the chunks of the reference: full data chunks while more than one chunk is left and
  one final chunk with the digest of the whole. A run cut short by a fault has sent a prefix of them,
  and a run without faults sends them all; their data is the payload, and the progress reports are the
  running byte counts, ending with the count of the whole payload.
\<close>

theorem sender_stream_reference:
  assumes "0 < cs"
  shows "let out = stream_payload sha env drop_id cs i hashed rest sent;
        ref = ref_chunks sha drop_id cs i hashed rest
    in (\<exists>k. so_chunks out = take k ref) \<and>
    (\<forall>h. so_result out = Inr h \<longrightarrow> so_chunks out = ref \<and> h = hashed @ rest) \<and>
    (calm env \<longrightarrow> so_chunks out = ref \<and> so_result out = Inr (hashed @ rest)) \<and>
    concat (map dd_data ref) = rest \<and>
    (rest \<noteq> [] \<longrightarrow> so_progress out = running sent (so_chunks out)) \<and>
    (rest \<noteq> [] \<longrightarrow> calm env \<longrightarrow> last (so_progress out) = sent + int (length rest))"
proof -
  let ?out = "stream_payload sha env drop_id cs i hashed rest sent"
  let ?ref = "ref_chunks sha drop_id cs i hashed rest"
  have f: "follows ?out ?ref (hashed @ rest)"
    by (rule stream_payload_follows [OF assms(1)])
  have d: "concat (map dd_data ?ref) = rest" by (rule ref_chunks_data [OF assms(1)])
  have p: "so_progress ?out = running sent (so_chunks ?out)" if "rest \<noteq> []"
    by (rule stream_payload_progress [OF that assms(1)])
  have c: "so_chunks ?out = ?ref" "so_result ?out = Inr (hashed @ rest)" if "calm env"
    using stream_payload_calm [OF that assms(1)] by simp_all
  have "?ref \<noteq> []" by (subst ref_chunks.simps) simp
  then have l: "last (so_progress ?out) = sent + int (length rest)"
    if r: "rest \<noteq> []" and cl: "calm env"
    using running_last [of ?ref sent] d p [OF r] unfolding c(1) [OF cl] by simp
  show ?thesis using f p c d l unfolding follows_def Let_def by blast
qed

definition demo_send_env :: send_env where
  "demo_send_env = \<lparr>se_drop_id = ''gen'', se_meta_ok = True, se_chunk_ok = (\<lambda>_. True),
     se_read_fails = (\<lambda>_. False), se_ctx_done = (\<lambda>_. False), se_resume_fault = (\<lambda>_. False)\<rparr>"

theorem sender_stream_reference_witness:
  "concat (map dd_data (so_chunks
     (stream_payload (\<lambda>s. s) demo_send_env ''d'' 2 0 '''' ''hello'' 0))) = ''hello''"
proof -
  have "calm demo_send_env" by (simp add: calm_def demo_send_env_def)
  with sender_stream_reference [of 2 "\<lambda>s. s" demo_send_env "''d''" 0 "''''" "''hello''" 0]
  show ?thesis by (simp add: Let_def)
qed

text \<open>
  The sender reports success only after the receiver accepted the transfer and confirmed it: it
  holds a receipt with success, the declared byte count and the digest of the content it meant to
  deliver, and everything of the content beyond the acknowledged offset has gone out as data chunks.
\<close>

theorem sender_success_verified:
  assumes "ss_phase (send_run sha env (send_start env meta (Some p)) evs) = SendReturned None"
  shows "\<exists>a c. Frame (FAck (Some a)) \<in> set evs \<and> ak_accepted a \<and>
    Frame (FComplete (Some c)) \<in> set evs \<and> dc_success c \<and>
    dc_drop_id c = ds_drop_id (sender_meta env meta) \<and>
    equal_fold (dc_sha256 c) (sha (content p a)) \<and>
    (0 < ds_size meta \<longrightarrow> dc_bytes_recv c = ds_size meta) \<and>
    concat (map dd_data (data_of (ss_sent (send_run sha env (send_start env meta (Some p)) evs)))) =
      drop (nat (ak_received_bytes a)) (content p a)"
proof -
  have m: "ds_size (sender_meta env meta) = ds_size meta" by (simp add: sender_meta_def Let_def)
  have "send_inv sha (sender_meta env meta) p (set evs) (send_run sha env (send_start env meta (Some p)) evs)"
    by (rule send_session.allowed_run_inv [OF send_start_inv]) (simp add: list_all_iff)
  with assms obtain a c where
      "streamed sha (sender_meta env meta) p (set evs) (send_run sha env (send_start env meta (Some p)) evs) a"
      "Frame (FComplete (Some c)) \<in> set evs"
      "receipt_refusal (sender_meta env meta) (sha (content p a)) c = None"
    by (auto simp: send_inv_def)
  then show ?thesis
    by (intro exI [of _ a] exI [of _ c])
      (auto simp: streamed_def ack_refusal_def receipt_refusal_def m split: if_splits)
qed

definition demo_send_meta :: drop_send where
  "demo_send_meta = \<lparr>ds_drop_id = '''', ds_kind = ''text'', ds_name = '''', ds_size = 5,
     ds_mime_type = '''', ds_chunk_size = 2, ds_head_hash = '''', ds_idempotency_key = '''',
     ds_rel_path = '''', ds_attempt_id = ''''\<rparr>"

definition demo_send_events :: "net_event list" where
  "demo_send_events =
     [Frame (FHeartbeat (Some ''h'')),
      Frame (FAck (Some \<lparr>ak_drop_id = ''gen'', ak_accepted = True, ak_received_bytes = 2, ak_error = None\<rparr>)),
      Frame (FComplete (Some \<lparr>dc_drop_id = ''gen'', dc_success = True, dc_bytes_recv = 5,
        dc_sha256 = ''HELLO'', dc_error = None, dc_duplicate = False\<rparr>))]"

theorem sender_success_verified_witness:
  "\<exists>a. Frame (FAck (Some a)) \<in> set demo_send_events \<and>
     concat (map dd_data (data_of (ss_sent (send_run (\<lambda>s. s) demo_send_env
       (send_start demo_send_env demo_send_meta
         (Some \<lparr>pl_bytes = ''hello'', pl_pos = 0, pl_seekable = True\<rparr>)) demo_send_events)))) =
     drop (nat (ak_received_bytes a))
       (content \<lparr>pl_bytes = ''hello'', pl_pos = 0, pl_seekable = True\<rparr> a)"
proof -
  have "ss_phase (send_run (\<lambda>s. s) demo_send_env
      (send_start demo_send_env demo_send_meta
        (Some \<lparr>pl_bytes = ''hello'', pl_pos = 0, pl_seekable = True\<rparr>)) demo_send_events) =
    SendReturned None"
    by code_simp
  from sender_success_verified [OF this] show ?thesis by blast
qed

end
