(* ===== verification/Drop_Session.thy ===== *)
theory Drop_Session
  imports Drop_Receiver Drop_Sender
begin

text \<open>
  A sender and a receiver connected: what the two ends can conclude from each other's messages over a
  connection that may fail at any point (\<open>sender_receiver_agree\<close>), and that a transfer the receiver
  accepted is delivered when nothing fails (\<open>transfer_delivers\<close>).
\<close>

section \<open>Agreement\<close>

text \<open>
  The frames one side received are among those the other side sent; any of them may be missing, late
  or repeated, and contexts and reads may fail at any point.
\<close>

definition frames_from :: "drop_msg list \<Rightarrow> net_event list \<Rightarrow> bool" where
  "frames_from msgs evs \<longleftrightarrow> (\<forall>f. Frame f \<in> set evs \<longrightarrow> Frame f \<in> delivered ` set msgs)"

lemma delivered_ack: "Frame (FAck (Some a)) = delivered m \<longleftrightarrow> m = AckMsg a"
  by (cases m) auto

lemma delivered_complete: "Frame (FComplete (Some c)) = delivered m \<longleftrightarrow> m = CompleteMsg c"
  by (cases m) auto

lemma frames_from_ack: "frames_from msgs evs \<Longrightarrow> Frame (FAck (Some a)) \<in> set evs \<Longrightarrow> AckMsg a \<in> set msgs"
  by (auto simp: frames_from_def image_iff delivered_ack)

lemma frames_from_complete:
  "frames_from msgs evs \<Longrightarrow> Frame (FComplete (Some c)) \<in> set evs \<Longrightarrow> CompleteMsg c \<in> set msgs"
  by (auto simp: frames_from_def image_iff delivered_complete)

lemma answer_inv_replies:
  assumes inv: "answer_inv cfg s"
  shows "AckMsg a \<in> set (rs_sent s) \<Longrightarrow> \<not> ak_accepted a \<Longrightarrow> rs_published s = []"
    "CompleteMsg c \<in> set (rs_sent s) \<Longrightarrow> \<not> dc_success c \<Longrightarrow> rs_published s = []"
    "CompleteMsg c \<in> set (rs_sent s) \<Longrightarrow> dc_success c \<Longrightarrow> \<not> dc_duplicate c \<Longrightarrow>
       rc_before_complete cfg \<noteq> None \<Longrightarrow>
       \<exists>res w. rs_published s = [(res, w)] \<and> rr_payload_sha256 res = dc_sha256 c \<and>
         rr_bytes_written res = dc_bytes_recv c"
proof -
  have m: "m \<in> set (rs_sent s) \<longleftrightarrow> m \<in> set (replies s)" if "\<not> is_heartbeat m" for m
    using that by (simp add: replies_def)
  consider (silent) "rs_published s = []" "\<forall>c. CompleteMsg c \<notin> set (replies s)"
    | (closed) a c where "replies s = [AckMsg a, CompleteMsg c]" "honest_end cfg s"
  proof (cases "rs_phase s")
    case AwaitSend
    with inv that(1) show thesis by (simp add: answer_inv_def)
  next
    case (Streaming st)
    with inv that(1) show thesis by (auto simp: answer_inv_def)
  next
    case (Returned r)
    with inv have h: "honest_end cfg s" by (simp add: answer_inv_def)
    from honest_end_cases [OF h] that h show thesis by auto
  qed
  note cs = this
  from cs show "AckMsg a \<in> set (rs_sent s) \<Longrightarrow> \<not> ak_accepted a \<Longrightarrow> rs_published s = []"
    by cases (use m in \<open>auto simp: honest_end_def\<close>)
  from cs show "CompleteMsg c \<in> set (rs_sent s) \<Longrightarrow> \<not> dc_success c \<Longrightarrow> rs_published s = []"
    by cases (use m in \<open>auto simp: honest_end_def\<close>)
  from cs show "CompleteMsg c \<in> set (rs_sent s) \<Longrightarrow> dc_success c \<Longrightarrow> \<not> dc_duplicate c \<Longrightarrow>
       rc_before_complete cfg \<noteq> None \<Longrightarrow>
       \<exists>res w. rs_published s = [(res, w)] \<and> rr_payload_sha256 res = dc_sha256 c \<and>
         rr_bytes_written res = dc_bytes_recv c"
    by cases (use m in \<open>auto simp: honest_end_def split: option.splits\<close>)
qed

text \<open>
  C13. The two ends never disagree about a finished transfer. Over a connection that may lose, delay
  or repeat frames and may fail at any moment, but delivers only frames the receiver sent: when the
  sender reports a rejection, the receiver has published nothing; when the sender reports success, the
  receiver either recognised a duplicate or published exactly one payload, with the digest of the
  sender's content and the declared size.
\<close>

theorem sender_receiver_agree:
  fixes evs revs :: "net_event list"
  assumes "rc_before_complete cfg \<noteq> None"
    and "frames_from (rs_sent (recv_run sha cfg renv (recv_start w q t) revs)) evs"
  shows "let r = recv_run sha cfg renv (recv_start w q t) revs;
        s = send_run sha senv (send_start senv meta (Some p)) evs
    in (\<forall>e n. ss_phase s = SendReturned (Some (Rejected e n)) \<longrightarrow> rs_published r = []) \<and>
       (ss_phase s = SendReturned None \<longrightarrow>
          (\<exists>c. CompleteMsg c \<in> set (rs_sent r) \<and> dc_success c \<and> dc_duplicate c) \<or>
          (\<exists>a res w'. AckMsg a \<in> set (rs_sent r) \<and> rs_published r = [(res, w')] \<and>
             equal_fold (rr_payload_sha256 res) (sha (content p a)) \<and>
             (0 < ds_size meta \<longrightarrow> rr_bytes_written res = ds_size meta)))"
proof -
  let ?r = "recv_run sha cfg renv (recv_start w q t) revs"
  let ?s = "send_run sha senv (send_start senv meta (Some p)) evs"
  have ans: "answer_inv cfg ?r"
    by (rule answers.run_inv) (simp add: answer_inv_def recv_start_def replies_def)
  have inv: "send_inv sha (sender_meta senv meta) p (set evs) ?s"
    by (rule send_session.allowed_run_inv [OF send_start_inv]) (simp add: list_all_iff)
  have "rs_published ?r = []" if "ss_phase ?s = SendReturned (Some (Rejected e n))" for e n
  proof -
    from inv that have "(\<exists>a. Frame (FAck (Some a)) \<in> set evs \<and> \<not> ak_accepted a) \<or>
        (\<exists>c. Frame (FComplete (Some c)) \<in> set evs \<and> \<not> dc_success c)"
      by (auto simp: send_inv_def)
    with frames_from_ack [OF assms(2)] frames_from_complete [OF assms(2)] answer_inv_replies(1,2) [OF ans]
    show ?thesis by blast
  qed
  moreover have "(\<exists>c. CompleteMsg c \<in> set (rs_sent ?r) \<and> dc_success c \<and> dc_duplicate c) \<or>
      (\<exists>a res w'. AckMsg a \<in> set (rs_sent ?r) \<and> rs_published ?r = [(res, w')] \<and>
         equal_fold (rr_payload_sha256 res) (sha (content p a)) \<and>
         (0 < ds_size meta \<longrightarrow> rr_bytes_written res = ds_size meta))"
    if ok: "ss_phase ?s = SendReturned None"
  proof -
    from inv ok obtain a c where
        a: "Frame (FAck (Some a)) \<in> set evs"
        and c: "Frame (FComplete (Some c)) \<in> set evs"
        and ref: "receipt_refusal (sender_meta senv meta) (sha (content p a)) c = None"
      by (auto simp: send_inv_def streamed_def)
    have m: "ds_size (sender_meta senv meta) = ds_size meta" by (simp add: sender_meta_def Let_def)
    from ref have d: "dc_success c" "equal_fold (dc_sha256 c) (sha (content p a))"
      "0 < ds_size meta \<longrightarrow> dc_bytes_recv c = ds_size meta"
      by (auto simp: receipt_refusal_def m split: if_splits)
    note c' = frames_from_complete [OF assms(2) c] and a' = frames_from_ack [OF assms(2) a]
    show ?thesis
    proof (cases "dc_duplicate c")
      case False
      from answer_inv_replies(3) [OF ans c' d(1) False assms(1)] d a' show ?thesis by auto
    qed (use c' d in blast)
  qed
  ultimately show ?thesis unfolding Let_def by blast
qed

section \<open>Delivery\<close>

text \<open>A receiver whose writes, syncs, receipt and activity hook all succeed.\<close>

definition calm_receiver :: "recv_cfg \<Rightarrow> recv_env \<Rightarrow> bool" where
  "calm_receiver cfg env \<longleftrightarrow>
     (\<forall>i bs. en_write env i bs = (length bs, False)) \<and> (\<forall>i. en_sync_ok env i) \<and>
     en_complete_ok env \<and> (\<forall>hook m i. rc_touch_activity cfg = Some hook \<longrightarrow> hook m i = None) \<and>
     (\<forall>hook r. rc_before_complete cfg = Some hook \<longrightarrow> hook r = None)"

text \<open>The lease, if there is one, covers the declared size and need not grow.\<close>

definition covered :: "recv_state \<Rightarrow> bool" where
  "covered s \<longleftrightarrow> (\<forall>q l. rs_quota s = Some q \<longrightarrow> rs_lease s = Some l \<longrightarrow> \<not> l_unknown l)"

lemma covered_add_bytes: "covered s \<Longrightarrow> add_bytes_ptr (rs_quota s) (rs_lease s) n = Inr (rs_quota s, rs_lease s)"
  by (auto simp: covered_def add_bytes_ptr_def lease_add_bytes_def split: option.splits)

lemma calm_store_chunk:
  assumes "calm_receiver cfg env" "covered s"
  obtains s1 where "store_chunk cfg env st bs s = Inr
      (st\<lparr>st_total := st_total st + int (length bs), st_hashed := st_hashed st @ bs\<rparr>, s1)"
    "rs_quota s1 = rs_quota s" "rs_lease s1 = rs_lease s" "rs_sent s1 = rs_sent s"
    "rs_published s1 = rs_published s" "covered s1"
proof (cases "bs = []")
  case True
  with that [of s] assms(2) show thesis by (simp add: store_chunk_def)
next
  case False
  have t: "touch_error cfg st = None"
    using assms(1) by (auto simp: touch_error_def calm_receiver_def split: option.splits)
  let ?s1 = "s\<lparr>rs_dest := map_option (\<lambda>d. dest_write d bs) (rs_dest s)\<rparr>"
  have "store_chunk cfg env st bs s = Inr
      (st\<lparr>st_total := st_total st + int (length bs), st_hashed := st_hashed st @ bs\<rparr>, ?s1)"
    using False t covered_add_bytes [OF assms(2)] assms(1)
    by (simp add: store_chunk_def calm_receiver_def Let_def split: option.splits)
  moreover have "covered ?s1" using assms(2) by (simp add: covered_def)
  ultimately show thesis by (intro that) simp_all
qed

text \<open>The payload that is left fits everything the receiver checks.\<close>

definition fits :: "recv_cfg \<Rightarrow> stream \<Rightarrow> int \<Rightarrow> bool" where
  "fits cfg st n \<longleftrightarrow>
     (0 < ds_size (st_meta st) \<longrightarrow> st_total st + n = ds_size (st_meta st)) \<and>
     (0 < max_size_of cfg \<longrightarrow> st_total st + n \<le> max_size_of cfg) \<and>
     (ds_kind (st_meta st) = kind_text \<longrightarrow> 0 < max_text_of cfg \<longrightarrow> st_total st + n \<le> max_text_of cfg)"

lemma fits_accepts:
  assumes "fits cfg st n" "int (length bs) \<le> n" "0 < ds_chunk_size (st_meta st)"
    "int (length bs) \<le> ds_chunk_size (st_meta st)"
  shows "int (length bs) = ds_chunk_size (st_meta st) \<Longrightarrow>
      chunk_refusal cfg st (data_chunk (ds_drop_id (st_meta st)) (st_index st) bs) = None"
    "chunk_refusal cfg st (final_chunk (ds_drop_id (st_meta st)) (st_index st) bs x) = None"
  using assms
  by (auto simp: chunk_refusal_def fits_def data_chunk_def final_chunk_def Let_def)

definition success_receipt :: "(string \<Rightarrow> string) \<Rightarrow> stream \<Rightarrow> string \<Rightarrow> drop_msg" where
  "success_receipt sha st whole =
     CompleteMsg \<lparr>dc_drop_id = ds_drop_id (st_meta st), dc_success = True,
       dc_bytes_recv = int (length whole), dc_sha256 = sha whole, dc_error = None, dc_duplicate = False\<rparr>"

text \<open>Feeding the reference chunks of the rest of a payload ends the session with success.\<close>

lemma receive_ref_chunks:
  assumes calm: "calm_receiver cfg env" and sha: "\<forall>x. valid_sha256_hex (sha x)"
    and "rs_phase s = Streaming st" "stream_ok env st (rs_dest s)" "st_tomb st = None" "covered s"
    and "fits cfg st (int (length rest))" "cs = nat (ds_chunk_size (st_meta st))"
  shows "\<exists>res. rs_phase (recv_run sha cfg env s (map (delivered \<circ> DataMsg)
        (ref_chunks sha (ds_drop_id (st_meta st)) cs (st_index st) (st_hashed st) rest))) =
      Returned (Inr res) \<and>
    rr_payload_sha256 res = sha (st_hashed st @ rest) \<and>
    rs_sent (recv_run sha cfg env s (map (delivered \<circ> DataMsg)
        (ref_chunks sha (ds_drop_id (st_meta st)) cs (st_index st) (st_hashed st) rest))) =
      rs_sent s @ [success_receipt sha st (st_hashed st @ rest)] \<and>
    dest_holds env (st_meta st) (st_hashed st @ rest)
      (rs_dest (recv_run sha cfg env s (map (delivered \<circ> DataMsg)
        (ref_chunks sha (ds_drop_id (st_meta st)) cs (st_index st) (st_hashed st) rest))))"
  using assms(3-8)
proof (induction "length rest" arbitrary: rest s st rule: less_induct)
  case less
  note ph = less.prems(1) and ok = less.prems(2) and tomb = less.prems(3) and cov = less.prems(4)
    and fit = less.prems(5) and cs = less.prems(6)
  have c: "0 < ds_chunk_size (st_meta st)" "0 < cs" using ok cs by (simp_all add: stream_ok_def)
  have total: "st_total st = int (length (st_hashed st))" using ok by (simp add: stream_ok_def)
  let ?id = "ds_drop_id (st_meta st)"
  show ?case
  proof (cases "length rest \<le> cs")
    case True
    let ?c = "final_chunk ?id (st_index st) rest (sha (st_hashed st @ rest))"
    have chunks: "ref_chunks sha ?id cs (st_index st) (st_hashed st) rest = [?c]"
      using True by (rule ref_chunks_final)
    have ref: "chunk_refusal cfg st ?c = None"
      by (rule fits_accepts(2) [OF fit]) (use True cs c in auto)
    obtain s1 where sto: "store_chunk cfg env st (dd_data ?c) s = Inr
        (st\<lparr>st_total := st_total st + int (length rest), st_hashed := st_hashed st @ rest\<rparr>, s1)"
      "rs_sent s1 = rs_sent s"
      by (rule calm_store_chunk [OF calm cov]) auto
    have fr: "final_refusal sha (after_chunk st rest) ?c = None"
      using sha fit tomb by (auto simp: final_refusal_def final_chunk_def fits_def Let_def)
    have fin: "on_chunk sha cfg env st ?c s = finish_transfer sha cfg env (after_chunk st rest) s1"
      using ref sto(1) fr
      by (simp add: on_chunk_def after_chunk_def final_chunk_def)
    have hook: "(case (if st_tomb st = None then rc_before_complete cfg else None) of
        None \<Rightarrow> None | Some h \<Rightarrow> h r) = None" for r
      using calm by (auto simp: calm_receiver_def split: option.splits)
    have holds: "dest_holds env (st_meta st) (st_hashed st @ rest) (rs_dest s1)"
      using accepted_chunk_holds [OF ok ref sto(1) tomb] by simp
    show ?thesis
      using ph chunks fin hook calm sto(2) tomb total holds
      by (auto simp: recv_step_def on_stream_def finish_transfer_def success_receipt_def Let_def
          session_result_def calm_receiver_def split: option.splits)
  next
    case False
    let ?c = "data_chunk ?id (st_index st) (take cs rest)"
    let ?st = "after_chunk st (take cs rest)"
    have chunks: "ref_chunks sha ?id cs (st_index st) (st_hashed st) rest =
        ?c # ref_chunks sha ?id cs (st_index ?st) (st_hashed ?st) (drop cs rest)"
      using False c(2) by (simp add: ref_chunks_more)
    have len: "int (length (take cs rest)) = ds_chunk_size (st_meta st)" using False cs c by auto
    have ref: "chunk_refusal cfg st ?c = None"
      by (rule fits_accepts(1) [OF fit]) (use len c in auto)
    obtain s1 where sto': "store_chunk cfg env st (take cs rest) s = Inr
        (st\<lparr>st_total := st_total st + int (length (take cs rest)),
            st_hashed := st_hashed st @ take cs rest\<rparr>, s1)"
      and sto2: "rs_sent s1 = rs_sent s" "covered s1"
      by (rule calm_store_chunk [OF calm cov, where st = st and bs = "take cs rest"])
    from sto' have sto: "store_chunk cfg env st (dd_data ?c) s = Inr
        (st\<lparr>st_total := st_total st + int (length (take cs rest)),
            st_hashed := st_hashed st @ take cs rest\<rparr>, s1)" by simp
    have nf: "\<not> dd_final ?c" by (simp add: data_chunk_def)
    let ?s = "s1\<lparr>rs_phase := Streaming ?st\<rparr>"
    have step: "recv_step sha cfg env s (delivered (DataMsg ?c)) = ?s"
      using ph ref sto nf
      by (simp add: recv_step_def on_stream_def on_chunk_def after_chunk_def)
    have ok': "stream_ok env ?st (rs_dest ?s)"
      using accepted_chunk_ok [OF ok ref sto nf] by simp
    have fit': "fits cfg ?st (int (length (drop cs rest)))"
      using fit False by (simp add: fits_def)
    have "covered ?s" using sto2(2) by (simp add: covered_def)
    from less.hyps [OF _ _ ok' _ this fit', simplified] False c(2) tomb cs sto2(1) chunks step
    show ?thesis by (simp add: success_receipt_def)
  qed
qed

text \<open>
  The lock-step exchange: the metadata to the receiver, its answer to the sender, the chunks to the
  receiver, its receipt to the sender.
\<close>

definition exchange ::
  "(string \<Rightarrow> string) \<Rightarrow> recv_cfg \<Rightarrow> recv_env \<Rightarrow> send_env \<Rightarrow> recv_state \<Rightarrow> send_state \<Rightarrow>
     recv_state \<times> send_state" where
  "exchange sha cfg renv senv r0 s0 =
     (let r1 = recv_run sha cfg renv r0 (map delivered (ss_sent s0));
          s1 = send_run sha senv s0 (map delivered (rs_sent r1));
          r2 = recv_run sha cfg renv r1 (map delivered (drop (length (ss_sent s0)) (ss_sent s1)));
          s2 = send_run sha senv s1 (map delivered (drop (length (rs_sent r1)) (rs_sent r2)))
      in (r2, s2))"

lemma success_receipt_accepted:
  assumes "ss_phase s = AwaitComplete (sha b)" "ds_drop_id (ss_meta s) = ds_drop_id (st_meta st)"
    "0 < ds_size (ss_meta s) \<longrightarrow> int (length b) = ds_size (ss_meta s)" "sha b \<noteq> ''''"
  shows "ss_phase (send_step sha env s (delivered (success_receipt sha st b))) = SendReturned None"
proof -
  have "receipt_refusal (ss_meta s) (sha b) \<lparr>dc_drop_id = ds_drop_id (st_meta st), dc_success = True,
      dc_bytes_recv = int (length b), dc_sha256 = sha b, dc_error = None, dc_duplicate = False\<rparr> = None"
    using assms(2-4) by (auto simp: receipt_refusal_def)
  with assms(1) show ?thesis by (simp add: send_step_def on_complete_def success_receipt_def)
qed

lemma quota_acquire_known:
  "quota_acquire q p n = (q', Inr l) \<Longrightarrow> n \<noteq> 0 \<Longrightarrow> \<not> l_unknown l"
  by (auto simp: quota_acquire_def Let_def split: if_splits option.splits)

lemma acquire_ptr_known:
  assumes "acquire_ptr q p n = (q', Inr l)" "q = None \<or> n \<noteq> 0" "q' = Some q1" "l = Some l1"
  shows "\<not> l_unknown l1"
  using assms
  by (auto simp: acquire_ptr_def split: option.splits sum.splits prod.splits dest: quota_acquire_known)

lemma accepted_state:
  assumes ph: "rs_phase (on_await cfg env (Frame (FSend (Some m))) (recv_start w q t)) = Streaming st"
    and good: "good_dests cfg env w"
  shows "rs_sent (on_await cfg env (Frame (FSend (Some m))) (recv_start w q t)) =
      [AckMsg \<lparr>ak_drop_id = ds_drop_id m, ak_accepted = True, ak_received_bytes = st_total st, ak_error = None\<rparr>]"
    "stream_ok env st (rs_dest (on_await cfg env (Frame (FSend (Some m))) (recv_start w q t)))"
    "st_meta st = local_meta cfg m"
    "q = None \<or> ds_size m \<noteq> 0 \<Longrightarrow> covered (on_await cfg env (Frame (FSend (Some m))) (recv_start w q t))"
proof -
  have start: "rs_phase (recv_start w q t) = AwaitSend" "rs_sent (recv_start w q t) = []"
    "rs_quota (recv_start w q t) = q" "rs_dest (recv_start w q t) = w"
    by (simp_all add: recv_start_def)
  let ?s = "on_await cfg env (Frame (FSend (Some m))) (recv_start w q t)"
  have good': "good_dests cfg env (rs_dest (recv_start w q t))" using good start(4) by simp
  obtain m' where "Frame (FSend (Some m)) = Frame (FSend (Some m'))" "st_meta st = local_meta cfg m'"
    "stream_ok env st (rs_dest ?s)"
    by (rule on_await_streaming [OF ph start(1) good'])
  then show "stream_ok env st (rs_dest ?s)" and m: "st_meta st = local_meta cfg m" by simp_all
  have acc: "?s = accept_transfer cfg env (local_meta cfg m) (recv_start w q t)"
    using ph by (auto simp: on_await_def split: option.splits)
  obtain q' l tomb d n where
      acq: "acquire_ptr (rs_quota (recv_start w q t)) (peer_key env) (ds_size (local_meta cfg m)) = (q', Inr l)"
    and eq: "accept_transfer cfg env (local_meta cfg m) (recv_start w q t) =
      start_stream env (local_meta cfg m) tomb n d ((recv_start w q t)\<lparr>rs_quota := q', rs_lease := l\<rparr>)"
    by (rule accept_transfer_phase [OF ph [unfolded acc]])
  note ph' = ph [unfolded acc eq]
  have n: "st_total st = n" using start_stream_phase [OF ph'] by (metis stream.select_convs(2))
  have sent: "rs_sent ?s = [AckMsg \<lparr>ak_drop_id = ds_drop_id m, ak_accepted = True,
      ak_received_bytes = n, ak_error = None\<rparr>]" and ql: "rs_quota ?s = q'" "rs_lease ?s = l"
    using ph' start(2) unfolding acc eq
    by (auto simp: start_stream_def Let_def split: if_splits sum.splits prod.splits)
  from sent n show "rs_sent ?s = [AckMsg \<lparr>ak_drop_id = ds_drop_id m, ak_accepted = True,
      ak_received_bytes = st_total st, ak_error = None\<rparr>]" by simp
  show "covered ?s" if "q = None \<or> ds_size m \<noteq> 0"
    using that acq ql acquire_ptr_known [of q "peer_key env" "ds_size m"]
    by (auto simp: covered_def start(3))
qed

lemma resume_point_accepted:
  assumes ok: "stream_ok env st w" and calm: "calm senv" and cs: "ds_chunk_size meta = ds_chunk_size (st_meta st)"
    and pre: "st_hashed st = take (length (st_hashed st)) (pl_bytes p)"
    and seek: "0 < st_total st \<Longrightarrow> pl_seekable p" and pos: "pl_pos p = 0"
  shows "resume_point senv meta p (st_total st) =
    Inr (st_hashed st, drop (length (st_hashed st)) (pl_bytes p), st_index st, st_total st)"
proof -
  have s: "st_total st = int (length (st_hashed st))" "0 < ds_chunk_size meta"
    "st_index st * ds_chunk_size meta = st_total st"
    using ok cs by (simp_all add: stream_ok_def)
  have d: "st_total st div ds_chunk_size meta = st_index st" "st_total st mod ds_chunk_size meta = 0"
    using s(2,3) by (metis nonzero_mult_div_cancel_right less_irrefl, metis mod_mult_self2_is_0)
  show ?thesis
  proof (cases "0 < st_total st")
    case True
    have "int (length (st_hashed st)) \<le> int (length (pl_bytes p))" using pre by (metis length_take min.cobounded1 of_nat_mono)
    with True s d seek calm pre show ?thesis
      by (simp add: resume_point_def calm_def go_simps)
  next
    case False
    with s have "st_hashed st = []" "st_total st = 0" by simp_all
    with d s pos show ?thesis by (simp add: resume_point_def)
  qed
qed

text \<open>
  C1. Delivery: once the receiver has accepted a transfer that its ledger does not know, and no read,
  write, send or hook fails, the exchange ends with both sides successful, for every payload of the
  declared size within the limits and for every chunk size - from scratch, or resumed behind a prefix
  the destination already holds. The destination then starts with the payload, and is equal to it
  when the size was declared and the destination can be read back.
\<close>

theorem transfer_delivers:
  assumes "calm senv" "calm_receiver cfg renv" "\<forall>x. valid_sha256_hex (sha x)"
    and "validate_drop_metadata (sender_meta senv meta) = None" "pl_pos p = 0" "good_dests cfg renv w"
    and "q = None \<or> ds_size meta \<noteq> 0"
    and "rs_phase (recv_step sha cfg renv (recv_start w q t) (delivered (SendMsg (sender_meta senv meta)))) =
      Streaming st" "st_tomb st = None"
    and "st_hashed st = take (length (st_hashed st)) (pl_bytes p)" "0 < st_total st \<longrightarrow> pl_seekable p"
    and "fits cfg st (int (length (pl_bytes p)) - st_total st)"
  shows "let (r, s) = exchange sha cfg renv senv (recv_start w q t) (send_start senv meta (Some p))
    in ss_phase s = SendReturned None \<and>
       (\<exists>res d. rs_phase r = Returned (Inr res) \<and> rr_payload_sha256 res = sha (pl_bytes p) \<and>
          rs_dest r = Some d \<and> take (length (pl_bytes p)) (d_bytes d) = pl_bytes p \<and>
          (0 < ds_size meta \<and> d_read_seeker d \<and> \<not> en_fault renv LenCurrent \<and>
             \<not> en_fault renv LenEnd \<longrightarrow> d_bytes d = pl_bytes p))"
proof -
  let ?m = "sender_meta senv meta"
  let ?wire = "?m\<lparr>ds_attempt_id := ''''\<rparr>" and ?b = "pl_bytes p"
  let ?h = "st_hashed st"
  let ?r1 = "on_await cfg renv (Frame (FSend (Some ?wire))) (recv_start w q t)"
  have size: "ds_size ?m = ds_size meta" by (simp add: sender_meta_def Let_def)
  have norm: "normalize_chunk ?wire = ?wire"
  proof (rule normalize_chunk_same)
    have "0 < ds_chunk_size ?m" by (simp add: sender_meta_def Let_def normalize_chunk_pos)
    then show "0 < ds_chunk_size ?wire" by simp
  qed
  have r1: "recv_step sha cfg renv (recv_start w q t) (delivered (SendMsg ?m)) = ?r1"
    by (simp add: recv_step_def recv_start_def)
  note ph = assms(8) [unfolded r1]
  note acc = accepted_state [OF ph assms(6)]
  have meta: "ds_drop_id (st_meta st) = ds_drop_id ?m" "ds_chunk_size (st_meta st) = ds_chunk_size ?m"
    "ds_size (st_meta st) = ds_size meta"
    using norm size by (simp_all add: acc(3))
  have cov: "covered ?r1" using acc(4) assms(7) size by simp
  have total: "st_total st = int (length ?h)" and nonneg: "0 < ds_size meta \<longrightarrow> st_total st \<le> ds_size meta"
    and cs: "0 < ds_chunk_size ?m"
    using acc(2) meta unfolding stream_ok_def by auto
  have len: "length ?h \<le> length ?b" using assms(10) by (metis length_take min.cobounded1)
  let ?rest = "drop (length ?h) ?b"
  have whole: "?h @ ?rest = ?b" using assms(10) by (metis append_take_drop_id)
  let ?ack = "\<lparr>ak_drop_id = ds_drop_id ?m, ak_accepted = True, ak_received_bytes = st_total st,
      ak_error = None :: drop_error option\<rparr>"
  let ?chunks = "ref_chunks sha (ds_drop_id ?m) (nat (ds_chunk_size ?m)) (st_index st) ?h ?rest"
  let ?s0 = "send_start senv meta (Some p)"
  have s0: "?s0 = \<lparr>ss_phase = AwaitAck, ss_meta = ?m, ss_payload = p, ss_sent = [SendMsg ?m],
      ss_progress = [], ss_acked = None, ss_completed = None\<rparr>"
    using assms(1,4) by (simp add: send_start_def Let_def calm_def)
  have sent1: "rs_sent ?r1 = [AckMsg ?ack]" using acc(1) by simp
  have ackok: "ack_refusal ?m ?ack = None"
    using total nonneg size by (auto simp: ack_refusal_def)
  have rp: "resume_point senv ?m p (st_total st) = Inr (?h, ?rest, st_index st, st_total st)"
    using resume_point_accepted [OF acc(2) assms(1) _ assms(10) _ assms(5)] meta assms(11) by simp
  let ?s1 = "send_step sha senv ?s0 (delivered (AckMsg ?ack))"
  have s1: "ss_phase ?s1 = AwaitComplete (sha ?b)" "ss_meta ?s1 = ?m"
    "ss_sent ?s1 = SendMsg ?m # map DataMsg ?chunks"
    using stream_payload_calm [OF assms(1), of "nat (ds_chunk_size ?m)"] cs whole ackok rp
    by (simp_all add: s0 send_step_def on_ack_def on_accepted_def Let_def)
  have fit: "fits cfg st (int (length ?rest))" using assms(12) total len by (simp add: of_nat_diff)
  have ok1: "stream_ok renv st (rs_dest ?r1)" by (rule acc(2))
  let ?r2 = "recv_run sha cfg renv ?r1 (map (delivered \<circ> DataMsg) ?chunks)"
  have cse: "nat (ds_chunk_size ?m) = nat (ds_chunk_size (st_meta st))" using meta by simp
  from receive_ref_chunks [OF assms(2,3) ph ok1 assms(9) cov fit cse] obtain res where
    r2: "rs_phase ?r2 = Returned (Inr res)" "rr_payload_sha256 res = sha ?b"
      "rs_sent ?r2 = rs_sent ?r1 @ [success_receipt sha st ?b]"
      "dest_holds renv (st_meta st) ?b (rs_dest ?r2)"
    unfolding meta(1) whole by blast
  have ex: "exchange sha cfg renv senv (recv_start w q t) ?s0 =
      (?r2, send_step sha senv ?s1 (delivered (success_receipt sha st ?b)))"
    using r1 sent1 s1(3) r2(3) by (simp add: exchange_def Let_def s0)
  have bytes: "0 < ds_size meta \<longrightarrow> int (length ?b) = ds_size meta"
    using assms(12) meta(3) by (simp add: fits_def)
  have "sha ?b \<noteq> ''''" using assms(3) by (auto simp: valid_sha256_hex_def dest: spec [of _ ?b])
  then have fin: "ss_phase (send_step sha senv ?s1 (delivered (success_receipt sha st ?b))) = SendReturned None"
    using s1(1,2) bytes meta(1) size by (intro success_receipt_accepted) simp_all
  obtain d where d: "rs_dest ?r2 = Some d" "take (length ?b) (d_bytes d) = ?b"
      "0 < ds_size (st_meta st) \<and> d_read_seeker d \<and> \<not> en_fault renv LenCurrent \<and> \<not> en_fault renv LenEnd \<longrightarrow>
         int (length (d_bytes d)) \<le> ds_size (st_meta st)"
    using r2(4) by (auto simp: dest_holds_def)
  have "d_bytes d = ?b" if "0 < ds_size meta \<and> d_read_seeker d \<and> \<not> en_fault renv LenCurrent \<and>
      \<not> en_fault renv LenEnd"
    using d(2,3) that bytes meta(3) by simp
  with ex fin r2(1,2) d(1,2) show ?thesis by simp
qed

definition demo_payload :: payload_src where
  "demo_payload = \<lparr>pl_bytes = ''hello'', pl_pos = 0, pl_seekable = False\<rparr>"

definition demo_stream :: stream where
  "demo_stream = \<lparr>st_meta = demo_meta, st_total = 0, st_index = 0, st_hashed = '''', st_tomb = None\<rparr>"

lemma demo_send_meta_id: "sender_meta demo_send_env demo_meta = demo_meta"
  by (simp add: sender_meta_def demo_meta_def normalize_chunk_def)

lemma demo_accepted:
  "rs_phase (recv_step demo_sha demo_cfg demo_env
     (recv_start None (Some default_transfer_quota) (Some demo_ledger))
     (delivered (SendMsg (sender_meta demo_send_env demo_meta)))) = Streaming demo_stream"
  by code_simp

lemma demo_good: "good_dests demo_cfg demo_env None"
  by (simp add: good_dests_def demo_cfg_def good_dest_def demo_file_def)

theorem transfer_delivers_witness:
  "\<exists>d. rs_dest (fst (exchange demo_sha demo_cfg demo_env demo_send_env
       (recv_start None (Some default_transfer_quota) (Some demo_ledger))
       (send_start demo_send_env demo_meta (Some demo_payload)))) = Some d \<and>
     take (length (pl_bytes demo_payload)) (d_bytes d) = ''hello''"
proof -
  have 1: "calm demo_send_env" by (simp add: calm_def demo_send_env_def)
  have 2: "calm_receiver demo_cfg demo_env" by (simp add: calm_receiver_def demo_cfg_def demo_env_def)
  have 3: "\<forall>x. valid_sha256_hex (demo_sha x)"
    by (simp add: valid_sha256_hex_def demo_sha_def list_all_iff hex_char_def less_eq_char_def)
  have 4: "validate_drop_metadata (sender_meta demo_send_env demo_meta) = None"
    unfolding demo_send_meta_id by code_simp
  have 5: "pl_pos demo_payload = 0" by (simp add: demo_payload_def)
  have 6: "Some default_transfer_quota = None \<or> ds_size demo_meta \<noteq> 0" by (simp add: demo_meta_def)
  have 7: "st_tomb demo_stream = None"
    "st_hashed demo_stream = take (length (st_hashed demo_stream)) (pl_bytes demo_payload)"
    "0 < st_total demo_stream \<longrightarrow> pl_seekable demo_payload"
    by (simp_all add: demo_stream_def)
  have 8: "fits demo_cfg demo_stream (int (length (pl_bytes demo_payload)) - st_total demo_stream)"
    by (simp add: fits_def demo_stream_def demo_payload_def demo_meta_def demo_cfg_def
        effective_limit_def default_max_drop_size_def default_max_text_size_def kind_text_def)
  from transfer_delivers [OF 1 2 3 4 5 demo_good 6 demo_accepted 7 8] show ?thesis
    by (auto simp: split_def Let_def demo_payload_def)
qed

definition demo_receipts :: "net_event list" where
  "demo_receipts = map delivered (rs_sent demo_end)"

theorem sender_receiver_agree_witness:
  "\<exists>res w'. rs_published demo_end = [(res, w')] \<and> rr_bytes_written res = 5"
proof -
  let ?p = "\<lparr>pl_bytes = ''hello'', pl_pos = 0, pl_seekable = False\<rparr>"
  have hook: "rc_before_complete demo_cfg \<noteq> None" by (simp add: demo_cfg_def)
  have fr: "frames_from (rs_sent (recv_run demo_sha demo_cfg demo_env
      (recv_start None (Some default_transfer_quota) (Some demo_ledger)) demo_events)) demo_receipts"
    by (auto simp: frames_from_def demo_receipts_def demo_end_def)
  have r: "demo_receipts = [Frame (FHeartbeat (Some '''')),
      Frame (FAck (Some \<lparr>ak_drop_id = ''d1'', ak_accepted = True, ak_received_bytes = 0, ak_error = None\<rparr>)),
      Frame (FComplete (Some \<lparr>dc_drop_id = ''d1'', dc_success = True, dc_bytes_recv = 5,
        dc_sha256 = replicate 64 (CHR ''a''), dc_error = None, dc_duplicate = False\<rparr>))]"
    by (simp add: demo_receipts_def demo_end_eq)
  have "ss_phase (send_run demo_sha demo_send_env (send_start demo_send_env demo_meta (Some ?p))
      demo_receipts) = SendReturned None"
    unfolding r by code_simp
  moreover have "\<not> (\<exists>c. CompleteMsg c \<in> set (rs_sent demo_end) \<and> dc_success c \<and> dc_duplicate c)"
    by (simp add: demo_end_eq)
  moreover have "ds_size demo_meta = 5" by (simp add: demo_meta_def)
  ultimately show ?thesis
    using sender_receiver_agree [OF hook fr, where senv = demo_send_env and meta = demo_meta and p = ?p]
    unfolding demo_end_def [symmetric] by (auto simp: Let_def)
qed

end
