(* ===== verification/Atomic_Publish.thy ===== *)
theory Atomic_Publish
  imports Tombstones
begin

text \<open>
  How the two metadata files of QuickDrop reach the disk: \<open>writeTombstoneFile\<close>
  (internal/drop/tombstone.go) and the file part of \<open>WriteStagingManifest\<close>
  (internal/drop/manifest.go). A directory maps names to nodes; every operation may fail, and the log
  keeps every directory another process (or a crash) could observe.
\<close>

section \<open>A directory and its operations\<close>

datatype node = Regular string | Symlink | Special

type_synonym directory = "string \<Rightarrow> node option"

text \<open>The directories observed so far, the present one first.\<close>

record fs =
  fs_dir :: directory
  fs_log :: "directory list"

definition fs_now :: "directory \<Rightarrow> fs" where
  "fs_now d = \<lparr>fs_dir = d, fs_log = [d]\<rparr>"

definition observe :: "directory \<Rightarrow> fs \<Rightarrow> fs" where
  "observe d f = \<lparr>fs_dir = d, fs_log = d # fs_log f\<rparr>"

definition put_file :: "string \<Rightarrow> string \<Rightarrow> fs \<Rightarrow> fs" where
  "put_file a bs f = observe ((fs_dir f)(a := Some (Regular bs))) f"

definition remove_file :: "bool \<Rightarrow> string \<Rightarrow> fs \<Rightarrow> fs" where
  "remove_file fails a f = (if fails then f else observe ((fs_dir f)(a := None)) f)"

text \<open>\<open>os.Rename\<close>: atomic; it fails without effect, always when the source does not exist.\<close>

definition rename_file :: "bool \<Rightarrow> string \<Rightarrow> string \<Rightarrow> fs \<Rightarrow> fs option" where
  "rename_file fails a b f =
     (if fails \<or> fs_dir f a = None then None
      else Some (observe ((fs_dir f)(b := fs_dir f a, a := None)) f))"

lemma fs_ops [simp]:
  "fs_dir (observe d f) = d" "fs_log (observe d f) = d # fs_log f"
  "fs_dir (fs_now d) = d" "fs_log (fs_now d) = [d]"
  "fs_dir (put_file a bs f) = (fs_dir f)(a := Some (Regular bs))"
  "fs_log (put_file a bs f) = (fs_dir f)(a := Some (Regular bs)) # fs_log f"
  by (simp_all add: observe_def fs_now_def put_file_def)

text \<open>
  Which operations fail, in the order of the code. A failing write leaves a prefix of the data, of
  the length given.
\<close>

record faults =
  fl_prepare :: bool
  fl_create :: bool
  fl_chmod :: bool
  fl_write :: "nat option"
  fl_sync :: bool
  fl_close :: bool
  fl_rename :: bool
  fl_backup_create :: bool
  fl_backup_rename :: bool
  fl_remove_dst :: bool
  fl_retry :: bool
  fl_restore :: bool
  fl_cleanup :: bool

text \<open>
  Filling the temporary file: created empty, permissions, data, sync, close; on a failure it is
  removed again. \<open>Inl\<close> is the failed attempt, \<open>Inr\<close> the directory with the complete file.
\<close>

definition fill_temp :: "faults \<Rightarrow> string \<Rightarrow> string \<Rightarrow> fs \<Rightarrow> fs + fs" where
  "fill_temp fl tmp data f =
     (if fl_create fl then Inl f
      else
        let f1 = put_file tmp '''' f; undo = remove_file (fl_cleanup fl) tmp
        in if fl_chmod fl then Inl (undo f1)
           else (case fl_write fl of
                   Some n \<Rightarrow> Inl (undo (put_file tmp (take n data) f1))
                 | None \<Rightarrow>
                     let f2 = put_file tmp data f1
                     in if fl_sync fl \<or> fl_close fl then Inl (undo f2) else Inr f2))"

section \<open>The tombstone file\<close>

text \<open>
  \<open>writeTombstoneFile\<close>: \<open>None\<close> for the encoded entries is a failure to encode. When the rename
  over the old file fails, the old file is moved to a backup name (reserved by creating and removing
  an empty file), the rename is retried, and on failure the backup is moved back.
\<close>

definition write_tombstone_file ::
  "faults \<Rightarrow> string \<Rightarrow> string \<Rightarrow> string \<Rightarrow> string option \<Rightarrow> fs \<Rightarrow> fs \<times> bool" where
  "write_tombstone_file fl tmp bak dst encoded f =
     (if fl_prepare fl then (f, False)
      else (case encoded of None \<Rightarrow> (f, False)
      | Some data \<Rightarrow>
      (case fill_temp fl tmp data f of Inl f1 \<Rightarrow> (f1, False)
      | Inr f1 \<Rightarrow>
          let drop_tmp = remove_file (fl_cleanup fl) tmp
          in (case rename_file (fl_rename fl) tmp dst f1 of
                Some f2 \<Rightarrow> (f2, True)
              | None \<Rightarrow>
                  if fl_backup_create fl then (drop_tmp f1, False)
                  else
                    let f2 = remove_file (fl_cleanup fl) bak (put_file bak '''' f1)
                    in (case rename_file (fl_backup_rename fl) dst bak f2 of
                          None \<Rightarrow> (drop_tmp f2, False)
                        | Some f3 \<Rightarrow>
                            (case rename_file (fl_retry fl) tmp dst f3 of
                               Some f4 \<Rightarrow> (remove_file (fl_cleanup fl) bak f4, True)
                             | None \<Rightarrow>
                                 (case rename_file (fl_restore fl) bak dst f3 of
                                    Some f4 \<Rightarrow> (drop_tmp f4, False)
                                  | None \<Rightarrow> (drop_tmp f3, False))))))))"

section \<open>The staging manifest\<close>

text \<open>
  \<open>WriteStagingManifest\<close> after the manifest has been encoded: the existing path must be absent or a
  regular file; when the rename over it fails, it is removed and the rename retried.
  \<open>fl_prepare\<close> is a failing \<open>Lstat\<close> of an existing path.
\<close>

definition max_staging_manifest_size :: nat where
  "max_staging_manifest_size = 16 * 1024"

definition write_manifest_file ::
  "faults \<Rightarrow> string \<Rightarrow> string \<Rightarrow> string option \<Rightarrow> fs \<Rightarrow> fs \<times> bool" where
  "write_manifest_file fl tmp dst encoded f =
     (case encoded of None \<Rightarrow> (f, False)
      | Some data \<Rightarrow>
      (if max_staging_manifest_size < length data then (f, False)
       else if fl_prepare fl then (f, False)
       else if fs_dir f dst = Some Symlink \<or> fs_dir f dst = Some Special then (f, False)
       else (case fill_temp fl tmp data f of Inl f1 \<Rightarrow> (f1, False)
       | Inr f1 \<Rightarrow>
           let drop_tmp = remove_file (fl_cleanup fl) tmp
           in (case rename_file (fl_rename fl) tmp dst f1 of
                 Some f2 \<Rightarrow> (f2, True)
               | None \<Rightarrow>
                   if fl_remove_dst fl \<and> fs_dir f1 dst \<noteq> None then (drop_tmp f1, False)
                   else
                     let f2 = remove_file (fl_remove_dst fl) dst f1
                     in (case rename_file (fl_retry fl) tmp dst f2 of
                           Some f3 \<Rightarrow> (f3, True)
                         | None \<Rightarrow> (drop_tmp f2, False))))))"

section \<open>What can be observed\<close>

text \<open>
  A predicate that every observed directory satisfies, and how each operation keeps it.
\<close>

definition always :: "(directory \<Rightarrow> bool) \<Rightarrow> fs \<Rightarrow> bool" where
  "always P f \<longleftrightarrow> P (fs_dir f) \<and> list_all P (fs_log f)"

lemma always_now [simp]: "always P (fs_now d) = P d"
  by (simp add: always_def)

lemma always_observe [simp]: "always P (observe d f) \<longleftrightarrow> P d \<and> list_all P (fs_log f)"
  by (auto simp: always_def)

lemma always_put: "always P f \<Longrightarrow> P ((fs_dir f)(a := Some (Regular bs))) \<Longrightarrow> always P (put_file a bs f)"
  by (simp add: always_def)

lemma always_remove: "always P f \<Longrightarrow> P ((fs_dir f)(a := None)) \<Longrightarrow> always P (remove_file b a f)"
  by (simp add: always_def remove_file_def)

lemma fill_temp_dir:
  "fill_temp fl tmp data f = Inr f1 \<Longrightarrow> fs_dir f1 = (fs_dir f)(tmp := Some (Regular data))"
  by (auto simp: fill_temp_def Let_def split: if_splits option.splits)

lemma fill_temp_failed:
  "fill_temp fl tmp data f = Inl f1 \<Longrightarrow> a \<noteq> tmp \<Longrightarrow> fs_dir f1 a = fs_dir f a"
  by (auto simp: fill_temp_def remove_file_def Let_def split: if_splits option.splits)

text \<open>A predicate that does not look at the temporary name is not affected by filling it.\<close>

lemma always_fill:
  assumes "always P f" "\<And>d x. P (d(tmp := x)) = P d"
  shows "fill_temp fl tmp data f = Inl f1 \<Longrightarrow> always P f1"
    "fill_temp fl tmp data f = Inr f1 \<Longrightarrow> always P f1"
  using assms
  by (auto simp: fill_temp_def remove_file_def always_def Let_def split: if_splits option.splits)

text \<open>
  The target holds the old node or the complete new file; or nothing, while the old node is safe under
  the backup name.
\<close>

definition intact :: "string \<Rightarrow> string \<Rightarrow> node option \<Rightarrow> string option \<Rightarrow> directory \<Rightarrow> bool" where
  "intact dst bak old encoded d \<longleftrightarrow>
     d dst = old \<or> (\<exists>data. encoded = Some data \<and> d dst = Some (Regular data)) \<or>
     (d dst = None \<and> old \<noteq> None \<and> d bak = old)"

lemma intact_other: "a \<noteq> dst \<Longrightarrow> d dst = old \<Longrightarrow> intact dst bak old e (d(a := x))"
  by (simp add: intact_def)

lemma always_log: "always P f \<Longrightarrow> list_all P (fs_log f)"
  by (simp add: always_def)

lemma write_manifest_done:
  assumes "tmp \<noteq> dst" "write_manifest_file fl tmp dst encoded f = (f', True)"
  shows "\<exists>data. encoded = Some data \<and> length data \<le> max_staging_manifest_size \<and>
    fs_dir f' dst = Some (Regular data)"
proof (cases encoded)
  case (Some data)
  show ?thesis
  proof (cases "fill_temp fl tmp data f")
    case (Inr g)
    with fill_temp_dir [OF Inr] assms Some show ?thesis
      by (auto simp: write_manifest_file_def rename_file_def remove_file_def Let_def split: if_splits)
  qed (use assms Some in \<open>auto simp: write_manifest_file_def split: if_splits\<close>)
qed (use assms in \<open>simp add: write_manifest_file_def\<close>)

section \<open>Properties\<close>

lemma rename_cases:
  "rename_file fails a b f = Some f' \<longleftrightarrow>
     \<not> fails \<and> fs_dir f a \<noteq> None \<and> f' = observe ((fs_dir f)(b := fs_dir f a, a := None)) f"
  by (auto simp: rename_file_def)

text \<open>
  Replacing the completion ledger never loses it and never shows a partial one. Whichever
  operations fail, every directory that can be observed during and after the write has under the
  ledger's name the old file or the complete new one, or - only while a failed replacement is being
  retried - nothing there and the old file under the backup name. A write that reports success has
  installed the new file.
\<close>

theorem tombstone_file_intact:
  assumes "tmp \<noteq> dst" "bak \<noteq> dst" "tmp \<noteq> bak"
    and "write_tombstone_file fl tmp bak dst encoded (fs_now d) = (f, ok)"
  shows "list_all (intact dst bak (d dst) encoded) (fs_log f) \<and>
    (ok \<longrightarrow> (\<exists>data. encoded = Some data \<and> fs_dir f dst = Some (Regular data)))"
proof -
  let ?P = "intact dst bak (d dst) encoded"
  let ?old = "\<lambda>d'. d' dst = d dst"
  have start: "always ?old (fs_now d)" by simp
  have old: "\<And>d' x. ?old (d'(tmp := x)) = ?old d'" using assms(1) by simp
  have mono: "always ?old g \<Longrightarrow> list_all ?P (fs_log g)" for g
    by (auto simp: always_def intact_def list_all_iff)
  show ?thesis
  proof (cases "fl_prepare fl \<or> encoded = None")
    case True
    then show ?thesis using assms(4) mono [OF start]
      by (cases "fl_prepare fl") (auto simp: write_tombstone_file_def)
  next
    case False
    then obtain data where e: "encoded = Some data" by blast
    show ?thesis
    proof (cases "fill_temp fl tmp data (fs_now d)")
      case (Inl g)
      with always_fill(1) [OF start old Inl] mono assms(4) False e show ?thesis
        by (auto simp: write_tombstone_file_def)
    next
      case (Inr g)
      have g: "always ?old g" by (rule always_fill(2) [OF start old Inr])
      have dg: "fs_dir g dst = d dst" "fs_dir g tmp = Some (Regular data)"
        using fill_temp_dir [OF Inr] assms(1) by simp_all
      from mono [OF g] have lg: "list_all ?P (fs_log g)" .
      show ?thesis
        using assms(1-4) False e Inr dg lg
        by (auto simp: write_tombstone_file_def rename_file_def remove_file_def intact_def Let_def
            split: if_splits)
    qed
  qed
qed

definition demo_faults :: faults where
  "demo_faults = \<lparr>fl_prepare = False, fl_create = False, fl_chmod = False, fl_write = None,
     fl_sync = False, fl_close = False, fl_rename = True, fl_backup_create = False,
     fl_backup_rename = False, fl_remove_dst = False, fl_retry = True, fl_restore = True,
     fl_cleanup = False\<rparr>"

theorem tombstone_file_intact_witness:
  "list_all (intact ''t'' ''b'' (Some (Regular ''old'')) (Some ''new''))
     (fs_log (fst (write_tombstone_file demo_faults ''x'' ''b'' ''t'' (Some ''new'')
        (fs_now [''t'' \<mapsto> Regular ''old'']))))"
  using tombstone_file_intact [of "''x''" "''t''" "''b''" demo_faults "Some ''new''" "[''t'' \<mapsto> Regular ''old'']"]
  by (cases "write_tombstone_file demo_faults ''x'' ''b'' ''t'' (Some ''new'')
    (fs_now [''t'' \<mapsto> Regular ''old''])") simp

text \<open>
  Writing a staging manifest never shows a partial one: every directory observed has under the
  sidecar's name the old node, the complete new manifest, or nothing, and nothing only after a failed
  rename. A symbolic link or special file there is left alone and reported, as is a manifest over the
  size limit; success means the new manifest is in place.
\<close>

theorem manifest_file_intact:
  assumes "tmp \<noteq> dst" "write_manifest_file fl tmp dst encoded (fs_now d) = (f, ok)"
  shows "list_all (\<lambda>d'. d' dst = d dst \<or> (\<exists>data. encoded = Some data \<and> d' dst = Some (Regular data)) \<or>
      (fl_rename fl \<and> d' dst = None)) (fs_log f) \<and>
    (ok \<longrightarrow> (\<exists>data. encoded = Some data \<and> length data \<le> max_staging_manifest_size \<and>
       fs_dir f dst = Some (Regular data))) \<and>
    (d dst \<in> {Some Symlink, Some Special} \<longrightarrow> \<not> ok \<and> fs_dir f dst = d dst)"
proof -
  let ?old = "\<lambda>d'. d' dst = d dst"
  have start: "always ?old (fs_now d)" by simp
  have old: "\<And>d' x. ?old (d'(tmp := x)) = ?old d'" using assms(1) by simp
  show ?thesis
  proof (cases "encoded")
    case None
    then show ?thesis using assms(2) by (auto simp: write_manifest_file_def fs_now_def)
  next
    case (Some data)
    show ?thesis
    proof (cases "max_staging_manifest_size < length data \<or> fl_prepare fl \<or>
        d dst = Some Symlink \<or> d dst = Some Special")
      case True
      then show ?thesis using assms(2) Some by (auto simp: write_manifest_file_def split: if_splits)
    next
      case False
      show ?thesis
      proof (cases "fill_temp fl tmp data (fs_now d)")
        case (Inl g)
        with always_log [OF always_fill(1) [OF start old Inl]] fill_temp_failed [OF Inl, of dst]
          assms False Some show ?thesis
          by (auto simp: write_manifest_file_def list_all_iff)
      next
        case (Inr g)
        have g: "list_all ?old (fs_log g)" by (rule always_log [OF always_fill(2) [OF start old Inr]])
        then have lg: "list_all (\<lambda>d'. d' dst = d dst \<or>
            (\<exists>data. encoded = Some data \<and> d' dst = Some (Regular data)) \<or>
            (fl_rename fl \<and> d' dst = None)) (fs_log g)"
          by (auto simp: list_all_iff)
        have dg: "fs_dir g dst = d dst" "fs_dir g tmp = Some (Regular data)"
          using fill_temp_dir [OF Inr] assms(1) by simp_all
        show ?thesis
          using assms False Some Inr dg lg
          by (auto simp: write_manifest_file_def rename_file_def remove_file_def Let_def
              split: if_splits)
      qed
    qed
  qed
qed

theorem manifest_file_intact_witness:
  "list_all (\<lambda>d'. d' ''t'' \<noteq> Some (Regular ''ne'')) (fs_log (fst (write_manifest_file
     (demo_faults\<lparr>fl_write := Some 2\<rparr>) ''x'' ''t'' (Some ''new'') (fs_now [''t'' \<mapsto> Regular ''old'']))))"
  using manifest_file_intact [of "''x''" "''t''" "demo_faults\<lparr>fl_write := Some 2\<rparr>" "Some ''new''"
      "[''t'' \<mapsto> Regular ''old'']"]
  by (cases "write_manifest_file (demo_faults\<lparr>fl_write := Some 2\<rparr>) ''x'' ''t'' (Some ''new'')
    (fs_now [''t'' \<mapsto> Regular ''old''])") (auto simp: list_all_iff)

end
