(* ===== verification/Staging_Manifest.thy ===== *)
theory Staging_Manifest
  imports Drop_Session Atomic_Publish
begin

text \<open>
  The durable identity of a partial file (internal/drop/manifest.go), the rule for resuming it
  (internal/drop/resume.go) and the verification of staged bytes before publication
  (internal/drop/digest.go). The JSON encoding of a manifest is the pair of parameters
  \<open>marshal\<close> / \<open>unmarshal\<close>.
\<close>

section \<open>Manifests\<close>

record staging_manifest =
  sm_drop_id :: string
  sm_kind :: string
  sm_name :: string
  sm_size :: int
  sm_mime_type :: string
  sm_chunk_size :: int
  sm_head_hash :: string
  sm_created_at :: go_time

datatype manifest_error =
    ManifestInvalid meta_error
  | ManifestMissing
  | ManifestUnsafe
  | ManifestTooLarge
  | ManifestUnreadable
  | ManifestUndecodable
  | ManifestIncomplete

definition new_staging_manifest :: "go_time \<Rightarrow> drop_send \<Rightarrow> meta_error + staging_manifest" where
  "new_staging_manifest now meta0 =
     (case validate_drop_metadata meta0 of
        Some e \<Rightarrow> Inl e
      | None \<Rightarrow>
          let meta = normalize_chunk meta0
          in Inr \<lparr>sm_drop_id = ds_drop_id meta, sm_kind = ds_kind meta, sm_name = ds_name meta,
                  sm_size = ds_size meta, sm_mime_type = ds_mime_type meta,
                  sm_chunk_size = ds_chunk_size meta, sm_head_hash = ds_head_hash meta,
                  sm_created_at = now\<rparr>)"

definition manifest_matches :: "staging_manifest \<Rightarrow> drop_send \<Rightarrow> bool" where
  "manifest_matches m meta0 \<longleftrightarrow>
     (let meta = normalize_chunk meta0
      in sm_drop_id m = ds_drop_id meta \<and> sm_kind m = ds_kind meta \<and> sm_name m = ds_name meta \<and>
         sm_size m = ds_size meta \<and> sm_mime_type m = ds_mime_type meta \<and>
         sm_chunk_size m = ds_chunk_size meta \<and> equal_fold (sm_head_hash m) (ds_head_hash meta))"

text \<open>The checks of a decoded manifest: complete, and valid as transfer metadata.\<close>

definition manifest_meta :: "staging_manifest \<Rightarrow> drop_send" where
  "manifest_meta m =
     \<lparr>ds_drop_id = sm_drop_id m, ds_kind = sm_kind m, ds_name = sm_name m, ds_size = sm_size m,
      ds_mime_type = sm_mime_type m, ds_chunk_size = sm_chunk_size m,
      ds_head_hash = sm_head_hash m, ds_idempotency_key = '''', ds_rel_path = '''',
      ds_attempt_id = ''''\<rparr>"

definition check_manifest :: "staging_manifest \<Rightarrow> manifest_error + staging_manifest" where
  "check_manifest m =
     (if sm_drop_id m = '''' \<or> sm_kind m = '''' \<or> sm_chunk_size m \<le> 0 \<or>
         max_chunk_size < sm_chunk_size m \<or> sm_created_at m = 0 then Inl ManifestIncomplete
      else (case validate_drop_metadata (manifest_meta m) of
              Some e \<Rightarrow> Inl (ManifestInvalid e)
            | None \<Rightarrow> Inr m))"

text \<open>
  \<open>ReadStagingManifest\<close> from the node under the sidecar's name. The size check before the read and
  the one after it (of a read bounded by the limit plus one) see the same bytes here;
  \<open>read_fails\<close> is a failing open, read or close.
\<close>

definition read_staging_manifest ::
  "(string \<Rightarrow> staging_manifest option) \<Rightarrow> bool \<Rightarrow> node option \<Rightarrow> manifest_error + staging_manifest" where
  "read_staging_manifest unmarshal read_fails n =
     (case n of
        None \<Rightarrow> Inl ManifestMissing
      | Some Symlink \<Rightarrow> Inl ManifestUnsafe
      | Some Special \<Rightarrow> Inl ManifestUnsafe
      | Some (Regular bytes) \<Rightarrow>
          if max_staging_manifest_size < length bytes then Inl ManifestTooLarge
          else if read_fails then Inl ManifestUnreadable
          else if max_staging_manifest_size < length (take (max_staging_manifest_size + 1) bytes)
            then Inl ManifestTooLarge
          else (case unmarshal bytes of
                  None \<Rightarrow> Inl ManifestUndecodable
                | Some m \<Rightarrow> check_manifest m))"

text \<open>\<open>WriteStagingManifest\<close>: the manifest, its encoding, and the file.\<close>

definition write_staging_manifest ::
  "(staging_manifest \<Rightarrow> string option) \<Rightarrow> faults \<Rightarrow> string \<Rightarrow> string \<Rightarrow> go_time \<Rightarrow> drop_send \<Rightarrow> fs \<Rightarrow> fs \<times> bool" where
  "write_staging_manifest marshal fl tmp dst now meta f =
     (case new_staging_manifest now meta of
        Inl _ \<Rightarrow> (f, False)
      | Inr m \<Rightarrow> write_manifest_file fl tmp dst (marshal m) f)"

section \<open>Resuming\<close>

definition head_hash_size :: nat where
  "head_hash_size = 64 * 1024"

text \<open>
  A partial file as a reader: its bytes and whether seeking or reading the head fails.
\<close>

record partial_file =
  pf_bytes :: string
  pf_seek_fails :: bool
  pf_read_fails :: bool

definition resume_prefix ::
  "(string \<Rightarrow> string) \<Rightarrow> partial_file \<Rightarrow> int \<Rightarrow> drop_send \<Rightarrow> int" where
  "resume_prefix sha r part_size meta =
     (let chunk = (if ds_chunk_size meta \<le> 0 then default_chunk_size else ds_chunk_size meta);
          valid = i64 (go_div part_size chunk * chunk)
      in if ds_size meta \<le> 0 \<or> valid \<le> 0 \<or> ds_size meta \<le> valid \<or> ds_head_hash meta = '''' then 0
         else if valid < int head_hash_size then valid
         else if pf_seek_fails r then 0
         else if pf_read_fails r \<or> length (pf_bytes r) < head_hash_size then 0
         else if \<not> equal_fold (sha (take head_hash_size (pf_bytes r))) (ds_head_hash meta) then 0
         else valid)"

section \<open>Verification before publication\<close>

text \<open>
  \<open>VerifyStagedDigest\<close>: \<open>None\<close> is success. The file is absent, or its bytes with the failures of
  the first seek, the read and the last seek.
\<close>

datatype digest_error = StagingMissing | RewindFailed | StagingUnreadable | RewindAfterFailed
  | StagedDigestMismatch string string

definition verify_staged_digest ::
  "(string \<Rightarrow> string) \<Rightarrow> string option \<Rightarrow> bool \<Rightarrow> bool \<Rightarrow> bool \<Rightarrow> string \<Rightarrow> digest_error option" where
  "verify_staged_digest sha source seek_fails read_fails reseek_fails expected =
     (case source of
        None \<Rightarrow> Some StagingMissing
      | Some bytes \<Rightarrow>
          if expected = '''' then None
          else if seek_fails then Some RewindFailed
          else if read_fails then Some StagingUnreadable
          else if reseek_fails then Some RewindAfterFailed
          else if \<not> equal_fold (sha bytes) expected
            then Some (StagedDigestMismatch (sha bytes) expected)
          else None)"

section \<open>Lemmas\<close>

lemma new_manifest_meta:
  assumes "new_staging_manifest now meta = Inr m"
  shows "validate_drop_metadata meta = None"
    "manifest_meta m = (normalize_chunk meta)\<lparr>ds_idempotency_key := '''', ds_rel_path := '''',
       ds_attempt_id := ''''\<rparr>" "sm_created_at m = now"
    "manifest_matches m meta"
  using assms
  by (auto simp: new_staging_manifest_def manifest_meta_def manifest_matches_def Let_def
      split: option.splits)

text \<open>Validation does not depend on the attempt, and dropping the optional fields keeps it.\<close>

lemma validate_core:
  assumes "validate_drop_metadata meta = None"
  shows "validate_drop_metadata ((normalize_chunk meta)\<lparr>ds_idempotency_key := '''', ds_rel_path := '''',
       ds_attempt_id := ''''\<rparr>) = None"
  using assms valid_chunk_range [OF assms]
  by (auto simp: validate_drop_metadata_def split: if_splits)

lemma check_new_manifest:
  assumes "new_staging_manifest now meta = Inr m" "now \<noteq> 0"
  shows "check_manifest m = Inr m"
proof -
  note m = new_manifest_meta [OF assms(1)]
  have "validate_drop_metadata (manifest_meta m) = None"
    unfolding m(2) by (rule validate_core [OF m(1)])
  moreover have "sm_drop_id m \<noteq> ''''" "sm_kind m \<noteq> ''''" "0 < sm_chunk_size m" "sm_chunk_size m \<le> max_chunk_size"
    using assms(1) valid_drop_id(1) [OF m(1)] valid_sizes(4) [OF m(1)] valid_chunk_range [OF m(1)]
    by (auto simp: new_staging_manifest_def Let_def kind_text_def kind_file_def split: option.splits)
  ultimately show ?thesis using m(3) assms(2) by (simp add: check_manifest_def)
qed

lemma resume_prefix_cases:
  assumes "resume_prefix sha r part_size meta \<noteq> 0" "0 \<le> part_size" "part_size \<le> max_int64"
  defines "chunk \<equiv> ds_chunk_size (normalize_chunk meta)"
  shows "resume_prefix sha r part_size meta = part_size div chunk * chunk"
    "0 < resume_prefix sha r part_size meta" "resume_prefix sha r part_size meta < ds_size meta"
    "ds_head_hash meta \<noteq> ''''"
    "int head_hash_size \<le> resume_prefix sha r part_size meta \<Longrightarrow>
       equal_fold (sha (take head_hash_size (pf_bytes r))) (ds_head_hash meta)"
proof -
  have c: "(if ds_chunk_size meta \<le> 0 then default_chunk_size else ds_chunk_size meta) = chunk" "0 < chunk"
    using normalize_chunk_pos [of meta] by (simp_all add: chunk_def normalize_chunk_def drop_limits)
  have le: "part_size div chunk * chunk \<le> part_size" "0 \<le> part_size div chunk * chunk"
    using c(2) assms(2) pos_mod_sign [OF c(2), of part_size] div_mult_mod_eq [of part_size chunk]
    by (linarith, simp add: pos_imp_zdiv_nonneg_iff)
  then have v: "i64 (go_div part_size chunk * chunk) = part_size div chunk * chunk"
    using assms(2,3) c(2) by (simp add: go_simps)
  note d = resume_prefix_def [of sha r part_size meta, unfolded c(1) Let_def v]
  show "resume_prefix sha r part_size meta = part_size div chunk * chunk"
    "0 < resume_prefix sha r part_size meta" "resume_prefix sha r part_size meta < ds_size meta"
    "ds_head_hash meta \<noteq> ''''"
    "int head_hash_size \<le> resume_prefix sha r part_size meta \<Longrightarrow>
       equal_fold (sha (take head_hash_size (pf_bytes r))) (ds_head_hash meta)"
    using assms(1) unfolding d by (auto split: if_splits)
qed

section \<open>Properties\<close>

text \<open>
  A manifest that was written can be read back: for valid metadata and a codec that decodes what it
  encodes, a write that reports success leaves a sidecar that \<open>ReadStagingManifest\<close> accepts, and
  what it returns matches the transfer - so a retry of the transfer resumes its own partial - and
  matches a transfer exactly when it agrees in drop id, kind, name, size, MIME type, effective
  chunk size and head hash up to case.
\<close>

theorem manifest_roundtrip:
  assumes "\<forall>m bytes. marshal m = Some bytes \<longrightarrow> unmarshal bytes = Some m"
    and "tmp \<noteq> dst" "now \<noteq> 0"
    and "write_staging_manifest marshal fl tmp dst now meta (fs_now d) = (f, True)"
  shows "\<exists>m. read_staging_manifest unmarshal False (fs_dir f dst) = Inr m \<and> manifest_matches m meta \<and>
    (\<forall>meta2. manifest_matches m meta2 \<longleftrightarrow>
       ds_drop_id meta2 = ds_drop_id meta \<and> ds_kind meta2 = ds_kind meta \<and>
       ds_name meta2 = ds_name meta \<and> ds_size meta2 = ds_size meta \<and>
       ds_mime_type meta2 = ds_mime_type meta \<and>
       ds_chunk_size (normalize_chunk meta2) = ds_chunk_size (normalize_chunk meta) \<and>
       equal_fold (ds_head_hash meta) (ds_head_hash meta2))"
proof -
  from assms(4) obtain m where m: "new_staging_manifest now meta = Inr m"
    and w: "write_manifest_file fl tmp dst (marshal m) (fs_now d) = (f, True)"
    by (auto simp: write_staging_manifest_def split: sum.splits)
  from write_manifest_done [OF assms(2) w] obtain data where
    data: "marshal m = Some data" "length data \<le> max_staging_manifest_size"
      "fs_dir f dst = Some (Regular data)" by blast
  have "read_staging_manifest unmarshal False (fs_dir f dst) = Inr m"
    using data assms(1) check_new_manifest [OF m assms(3)]
    by (simp add: read_staging_manifest_def)
  moreover have "manifest_matches m meta2 \<longleftrightarrow>
       ds_drop_id meta2 = ds_drop_id meta \<and> ds_kind meta2 = ds_kind meta \<and>
       ds_name meta2 = ds_name meta \<and> ds_size meta2 = ds_size meta \<and>
       ds_mime_type meta2 = ds_mime_type meta \<and>
       ds_chunk_size (normalize_chunk meta2) = ds_chunk_size (normalize_chunk meta) \<and>
       equal_fold (ds_head_hash meta) (ds_head_hash meta2)" for meta2
    using m by (auto simp: new_staging_manifest_def manifest_matches_def Let_def split: option.splits)
  ultimately show ?thesis using new_manifest_meta(4) [OF m] by blast
qed

definition demo_manifest :: staging_manifest where
  "demo_manifest = \<lparr>sm_drop_id = ''d1'', sm_kind = ''file'', sm_name = ''f'', sm_size = 5,
     sm_mime_type = '''', sm_chunk_size = 3, sm_head_hash = '''', sm_created_at = 7\<rparr>"

text \<open>A codec of one manifest.\<close>

definition demo_marshal :: "staging_manifest \<Rightarrow> string option" where
  "demo_marshal m = (if m = demo_manifest then Some ''json'' else None)"

definition demo_unmarshal :: "string \<Rightarrow> staging_manifest option" where
  "demo_unmarshal bytes = (if bytes = ''json'' then Some demo_manifest else None)"

theorem manifest_roundtrip_witness:
  "\<exists>m. read_staging_manifest demo_unmarshal False
     (fs_dir (fst (write_staging_manifest demo_marshal (demo_faults\<lparr>fl_retry := False\<rparr>) ''x'' ''t'' 7
        demo_meta (fs_now Map.empty))) ''t'') = Inr m \<and> manifest_matches m demo_meta"
proof -
  have v: "validate_drop_metadata demo_meta = None" by code_simp
  have n: "normalize_chunk demo_meta = demo_meta" by (simp add: normalize_chunk_def demo_meta_def)
  have m: "new_staging_manifest 7 demo_meta = Inr demo_manifest"
    by (simp add: new_staging_manifest_def v n) (simp add: demo_manifest_def demo_meta_def)
  have w: "write_staging_manifest demo_marshal (demo_faults\<lparr>fl_retry := False\<rparr>) ''x'' ''t'' 7 demo_meta
      (fs_now Map.empty) = (fst (write_staging_manifest demo_marshal (demo_faults\<lparr>fl_retry := False\<rparr>)
        ''x'' ''t'' 7 demo_meta (fs_now Map.empty)), True)"
    by (simp add: write_staging_manifest_def m demo_marshal_def write_manifest_file_def
        max_staging_manifest_size_def demo_faults_def fill_temp_def rename_file_def remove_file_def Let_def)
  have c: "\<forall>m bytes. demo_marshal m = Some bytes \<longrightarrow> demo_unmarshal bytes = Some m"
    by (simp add: demo_marshal_def demo_unmarshal_def split: if_splits)
  have "''x'' \<noteq> ''t''" "(7 :: go_time) \<noteq> 0" by simp_all
  from manifest_roundtrip [OF c this w] show ?thesis by blast
qed

text \<open>
  The resume rule is safe and both ends accept its answer. An offset it grants is the largest
  multiple of the chunk size within the partial, lies strictly before the end of the transfer, and if
  the partial holds a whole head the head has the announced hash. The receiver opens its stream at
  it and the sender, holding a payload of the declared size, starts with the chunk at that offset.
\<close>

theorem resume_prefix_sound:
  assumes "validate_drop_metadata meta = None" "part_size = int (length (pf_bytes r))"
    and "part_size \<le> max_int64" "resume_prefix sha r part_size meta = n" "n \<noteq> 0"
  shows "0 < n \<and> n \<le> part_size \<and> part_size < n + ds_chunk_size (normalize_chunk meta) \<and> n < ds_size meta \<and>
    ds_chunk_size (normalize_chunk meta) dvd n \<and>
    (int head_hash_size \<le> n \<longrightarrow>
       equal_fold (sha (take head_hash_size (pf_bytes r))) (ds_head_hash meta)) \<and>
    (d_bytes d = pf_bytes r \<longrightarrow> d_read_seeker d \<longrightarrow> (\<forall>op. \<not> en_fault env op) \<longrightarrow>
       open_stream env (normalize_chunk meta) n d =
         Inr (take (nat n) (pf_bytes r), d\<lparr>d_pos := nat n\<rparr>)) \<and>
    (calm senv \<longrightarrow> pl_seekable p \<longrightarrow> int (length (pl_bytes p)) = ds_size meta \<longrightarrow>
       resume_point senv (normalize_chunk meta) p n =
         Inr (take (nat n) (pl_bytes p), drop (nat n) (pl_bytes p),
              n div ds_chunk_size (normalize_chunk meta), n))"
proof -
  let ?c = "ds_chunk_size (normalize_chunk meta)"
  have c: "0 < ?c" "?c \<le> max_chunk_size" using valid_chunk_range [OF assms(1)] by simp_all
  have p0: "0 \<le> part_size" using assms(2) by simp
  note n = resume_prefix_cases [OF _ p0 assms(3), where sha = sha and r = r and meta = meta,
      unfolded assms(4), OF assms(5)]
  have le: "n \<le> part_size" "part_size < n + ?c"
    using n(1) pos_mod_sign [OF c(1), of part_size] pos_mod_bound [OF c(1), of part_size]
      div_mult_mod_eq [of part_size ?c] by linarith+
  have dv: "?c dvd n" "n mod ?c = 0" using n(1) by simp_all
  have rp: "resume_point senv (normalize_chunk meta) p n =
      Inr (take (nat n) (pl_bytes p), drop (nat n) (pl_bytes p), n div ?c, n)"
    if "calm senv" "pl_seekable p" "int (length (pl_bytes p)) = ds_size meta"
    using that n(2,3) c dv by (simp add: resume_point_def calm_def go_simps)
  have op: "open_stream env (normalize_chunk meta) n d =
      Inr (take (nat n) (pf_bytes r), d\<lparr>d_pos := nat n\<rparr>)"
    if "d_bytes d = pf_bytes r" "d_read_seeker d" "\<forall>op. \<not> en_fault env op"
    using that n(2) le c dv assms(2) by (simp add: open_stream_def go_simps)
  show ?thesis using n le dv rp op by blast
qed

theorem resume_prefix_sound_witness:
  "resume_prefix demo_sha \<lparr>pf_bytes = ''hell'', pf_seek_fails = False, pf_read_fails = False\<rparr> 4
     (demo_meta\<lparr>ds_head_hash := replicate 64 (CHR ''a'')\<rparr>) = 3 \<and> (3 :: int) < 5"
proof -
  let ?m = "demo_meta\<lparr>ds_head_hash := replicate 64 (CHR ''a'')\<rparr>"
  let ?r = "\<lparr>pf_bytes = ''hell'', pf_seek_fails = False, pf_read_fails = False\<rparr>"
  have v: "validate_drop_metadata ?m = None" by code_simp
  have r: "resume_prefix demo_sha ?r 4 ?m = 3"
    by (simp add: resume_prefix_def demo_meta_def head_hash_size_def go_simps)
  have "(3 :: int) < ds_size ?m"
    using resume_prefix_sound [where r = ?r and part_size = 4, OF v _ _ r] by simp
  with r show ?thesis by (simp add: demo_meta_def)
qed

end
