(* ===== verification/Wire_Protocol.thy ===== *)
theory Wire_Protocol
  imports Prelude "HOL-Library.Sublist"
begin

text \<open>
  The wire protocol (internal/protocol): the bridge messages, the envelope around every message
  (protocol.go), and its length-prefixed framing with the encoder's and the decoder's checks
  (codec.go). \<open>encoding/json\<close> is a parameter, the record \<open>json_codec\<close>; the mutexes make \<open>Encode\<close>
  and \<open>Decode\<close> one step each.
\<close>

section \<open>Messages\<close>

abbreviation type_bridge_request :: string where "type_bridge_request \<equiv> ''bridge_request''"
abbreviation type_bridge_ack :: string where "type_bridge_ack \<equiv> ''bridge_ack''"
abbreviation type_callback_relay :: string where "type_callback_relay \<equiv> ''callback_relay''"
abbreviation type_bridge_complete :: string where "type_bridge_complete \<equiv> ''bridge_complete''"
abbreviation type_bridge_cancel :: string where "type_bridge_cancel \<equiv> ''bridge_cancel''"
abbreviation type_peer_unpaired :: string where "type_peer_unpaired \<equiv> ''peer_unpaired''"

record bridge_request =
  rq_url :: string
  rq_callback_port :: int
  rq_id :: string
  rq_flow_id :: string

record bridge_ack =
  ba_id :: string
  ba_port :: int
  ba_error :: string
  ba_replay :: bool

record callback_relay =
  cr_id :: string
  cr_method :: string
  cr_path :: string
  cr_headers :: "(string \<times> string) list"
  cr_body :: string
  cr_status :: int

record bridge_complete =
  bc_id :: string
  bc_success :: bool
  bc_error :: string

record bridge_cancel =
  bx_id :: string
  bx_flow :: string
  bx_reason :: string

record bridge_cancel_ack =
  bxa_id :: string
  bxa_flow :: string
  bxa_cancelled :: bool
  bxa_error :: string

section \<open>Envelopes\<close>

definition protocol_version :: int where
  "protocol_version = 1"

record envelope =
  env_type :: string
  env_payload :: string
  env_v :: int

text \<open>
  What \<open>encoding/json\<close> does to an envelope: \<open>jc_marshal\<close> is its JSON text (\<open>None\<close> if its payload is
  no JSON), \<open>jc_unmarshal\<close> the envelope read from a text. \<open>jc_plain\<close> holds of the envelopes that
  survive the trip unchanged: type in valid UTF-8, payload in the compact form \<open>json.Marshal\<close>
  itself produces. An empty text is no JSON.
\<close>

record json_codec =
  jc_marshal :: "envelope \<Rightarrow> string option"
  jc_unmarshal :: "string \<Rightarrow> envelope option"
  jc_plain :: "envelope \<Rightarrow> bool"

definition json_faithful :: "json_codec \<Rightarrow> bool" where
  "json_faithful jc \<longleftrightarrow>
     jc_unmarshal jc [] = None \<and>
     (\<forall>env bytes. jc_plain jc env \<longrightarrow> jc_marshal jc env = Some bytes \<longrightarrow> jc_unmarshal jc bytes = Some env)"

datatype read_error = EndOfFile | UnexpectedEOF | ReadFault string

datatype wire_error =
    EncoderNil | NilEnvelope | MissingMessageType | MissingPayload | MarshalFailed | MessageTooLarge
  | ShortWrite | WriteFailed | DecoderNil | ReadFailed read_error | UnmarshalFailed
  | UnsupportedVersion int

text \<open>\<open>NewEnvelope\<close>; the payload is given by its JSON text, \<open>None\<close> if it cannot be marshalled.\<close>

definition no_payload :: "string \<Rightarrow> bool" where
  "no_payload p \<longleftrightarrow> p = '''' \<or> p = ''null''"

definition new_envelope :: "string \<Rightarrow> string option \<Rightarrow> wire_error + envelope" where
  "new_envelope msg_type payload =
     (if msg_type = '''' then Inl MissingMessageType
      else (case payload of
        None \<Rightarrow> Inl MarshalFailed
      | Some b \<Rightarrow>
          if no_payload b then Inl MissingPayload
          else Inr \<lparr>env_type = msg_type, env_payload = b, env_v = 0\<rparr>))"

definition decode_payload :: "(string \<Rightarrow> 'm option) \<Rightarrow> envelope option \<Rightarrow> wire_error + 'm" where
  "decode_payload unmarshal e =
     (case e of
        None \<Rightarrow> Inl MissingPayload
      | Some env \<Rightarrow>
          if no_payload (env_payload env) then Inl MissingPayload
          else (case unmarshal (env_payload env) of None \<Rightarrow> Inl UnmarshalFailed | Some v \<Rightarrow> Inr v))"

section \<open>Budgets\<close>

definition default_max_message_size :: nat where
  "default_max_message_size = 4 * 1024 * 1024"

definition max_control_message_size :: nat where
  "max_control_message_size = 64 * 1024"

definition is_control_message_type :: "string \<Rightarrow> bool" where
  "is_control_message_type t \<longleftrightarrow> t \<noteq> ''drop_data'' \<and> t \<noteq> type_callback_relay"

section \<open>Encoding\<close>

text \<open>\<open>binary.BigEndian\<close> on 32 bits.\<close>

definition put_uint32 :: "nat \<Rightarrow> string" where
  "put_uint32 n = map (\<lambda>k. char_of (n div 256 ^ k mod 256)) [3, 2, 1, 0]"

definition get_uint32 :: "string \<Rightarrow> nat" where
  "get_uint32 bs = foldl (\<lambda>n c. n * 256 + code c) 0 bs"

text \<open>
  An \<open>io.Writer\<close>: what it has taken, the number of calls so far, and how it answers a call - the
  count it returns (any \<open>int\<close>) and whether it returns an error. It takes as many bytes as it says.
\<close>

record writer =
  wr_out :: string
  wr_calls :: nat
  wr_answer :: "nat \<Rightarrow> string \<Rightarrow> int \<times> bool"

definition write_call :: "string \<Rightarrow> writer \<Rightarrow> writer \<times> int \<times> bool" where
  "write_call buf w =
     (let (n, failed) = wr_answer w (wr_calls w) buf
      in (w\<lparr>wr_out := wr_out w @ take (nat n) buf, wr_calls := Suc (wr_calls w)\<rparr>, n, failed))"

text \<open>The loop over short writes: each round drops what was written, so it ends.\<close>

function write_all :: "string \<Rightarrow> writer \<Rightarrow> writer \<times> wire_error option" where
  "write_all buf w =
     (if buf = [] then (w, None)
      else
        let (w1, n, failed) = write_call buf w
        in if n < 0 \<or> int (length buf) < n then (w1, Some ShortWrite)
           else if failed then (w1, Some WriteFailed)
           else if n = 0 then (w1, Some ShortWrite)
           else write_all (drop (nat n) buf) w1)"
  by pat_completeness auto
termination
  by (relation "measure (\<lambda>(buf, w). length buf)") auto

declare write_all.simps [simp del]

definition stamp_version :: "envelope \<Rightarrow> envelope" where
  "stamp_version env = (if env_v env \<le> 0 then env\<lparr>env_v := protocol_version\<rparr> else env)"

definition frame_of :: "json_codec \<Rightarrow> envelope \<Rightarrow> wire_error + string" where
  "frame_of jc env =
     (if env_type env = '''' then Inl MissingMessageType
      else if no_payload (env_payload env) then Inl MissingPayload
      else (case jc_marshal jc (stamp_version env) of
        None \<Rightarrow> Inl MarshalFailed
      | Some bytes \<Rightarrow>
          if default_max_message_size < length bytes then Inl MessageTooLarge
          else if is_control_message_type (env_type env) \<and> max_control_message_size < length bytes
            then Inl MessageTooLarge
          else Inr (put_uint32 (length bytes) @ bytes)))"

definition encode_envelope ::
  "json_codec \<Rightarrow> envelope option \<Rightarrow> writer option \<Rightarrow> writer option \<times> wire_error option" where
  "encode_envelope jc env_ptr wopt =
     (case wopt of
        None \<Rightarrow> (None, Some EncoderNil)
      | Some w \<Rightarrow>
          (case env_ptr of
             None \<Rightarrow> (Some w, Some NilEnvelope)
           | Some env \<Rightarrow>
               (case frame_of jc env of
                  Inl e \<Rightarrow> (Some w, Some e)
                | Inr buf \<Rightarrow> (let (w1, r) = write_all buf w in (Some w1, r)))))"

definition encode ::
  "json_codec \<Rightarrow> string \<Rightarrow> string option \<Rightarrow> writer option \<Rightarrow> writer option \<times> wire_error option" where
  "encode jc msg_type payload wopt =
     (case payload of
        None \<Rightarrow> (wopt, Some MarshalFailed)
      | Some raw \<Rightarrow> encode_envelope jc (Some \<lparr>env_type = msg_type, env_payload = raw, env_v = 0\<rparr>) wopt)"

section \<open>Decoding\<close>

text \<open>
  An \<open>io.Reader\<close>: pieces of data, each ended by an error the reader returns once (an expired read
  deadline, say) before it goes on; end of file when there is no more piece. \<open>read_full n\<close> is
  \<open>io.ReadFull\<close> into a buffer of \<open>n > 0\<close> bytes: what was read and the error, if fewer came.
\<close>

type_synonym reader = "(string \<times> read_error) list"

definition read_full :: "nat \<Rightarrow> reader \<Rightarrow> reader \<times> string \<times> read_error option" where
  "read_full n rd =
     (case rd of
        [] \<Rightarrow> ([], [], Some EndOfFile)
      | (bs, err) # rest \<Rightarrow>
          if n \<le> length bs then ((drop n bs, err) # rest, take n bs, None)
          else (rest, bs, Some (if bs \<noteq> [] \<and> err = EndOfFile then UnexpectedEOF else err)))"

record decoder =
  dec_in :: "reader option"
  dec_max :: nat
  dec_terminal :: "wire_error option"

definition new_decoder :: "reader option \<Rightarrow> decoder" where
  "new_decoder rd = \<lparr>dec_in = rd, dec_max = default_max_message_size, dec_terminal = None\<rparr>"

definition set_max_message_size :: "nat \<Rightarrow> decoder \<Rightarrow> decoder" where
  "set_max_message_size n d =
     d\<lparr>dec_max := (if n = 0 then default_max_message_size else n)\<rparr>"

definition decoder_fail :: "wire_error \<Rightarrow> decoder \<Rightarrow> decoder \<times> (wire_error + envelope)" where
  "decoder_fail err d =
     (let terminal = (case dec_terminal d of None \<Rightarrow> err | Some e \<Rightarrow> e)
      in (d\<lparr>dec_terminal := Some terminal\<rparr>, Inl terminal))"

definition validate_envelope_version :: "int \<Rightarrow> wire_error option" where
  "validate_envelope_version v =
     (if v < 0 then Some (UnsupportedVersion v)
      else if protocol_version < v then Some (UnsupportedVersion v)
      else None)"

text \<open>The checks on the bytes of a complete frame.\<close>

definition check_frame :: "json_codec \<Rightarrow> string \<Rightarrow> wire_error + envelope" where
  "check_frame jc bytes =
     (case jc_unmarshal jc bytes of
        None \<Rightarrow> Inl UnmarshalFailed
      | Some env \<Rightarrow>
          if env_type env = '''' then Inl MissingMessageType
          else if no_payload (env_payload env) then Inl MissingPayload
          else (case validate_envelope_version (env_v env) of
            Some e \<Rightarrow> Inl e
          | None \<Rightarrow>
              if is_control_message_type (env_type env) \<and> max_control_message_size < length bytes
              then Inl MessageTooLarge
              else Inr env))"

definition decode :: "json_codec \<Rightarrow> decoder \<Rightarrow> decoder \<times> (wire_error + envelope)" where
  "decode jc d =
     (case dec_in d of
        None \<Rightarrow> (d, Inl DecoderNil)
      | Some rd \<Rightarrow>
          (case dec_terminal d of
             Some e \<Rightarrow> (d, Inl e)
           | None \<Rightarrow>
               let (rd1, len_buf, err) = read_full 4 rd; d1 = d\<lparr>dec_in := Some rd1\<rparr>
               in (case err of
                 Some e \<Rightarrow>
                   if len_buf \<noteq> [] then decoder_fail (ReadFailed e) d1 else (d1, Inl (ReadFailed e))
               | None \<Rightarrow>
                   let len = get_uint32 len_buf
                   in if dec_max d < len then decoder_fail MessageTooLarge d1
                      else if len = 0 then decoder_fail MissingPayload d1
                      else
                        let (rd2, bytes, err2) = read_full len rd1; d2 = d\<lparr>dec_in := Some rd2\<rparr>
                        in (case err2 of
                          Some e \<Rightarrow> decoder_fail (ReadFailed e) d2
                        | None \<Rightarrow>
                            (case check_frame jc bytes of
                               Inl e \<Rightarrow> decoder_fail e d2
                             | Inr env \<Rightarrow> (d2, Inr env))))))"

text \<open>A run of \<open>n\<close> calls of \<open>Decode\<close>, and the envelopes it delivered.\<close>

fun decode_run :: "json_codec \<Rightarrow> nat \<Rightarrow> decoder \<Rightarrow> decoder \<times> (wire_error + envelope) list" where
  "decode_run jc 0 d = (d, [])"
| "decode_run jc (Suc n) d =
     (let (d1, r) = decode jc d; (d2, rs) = decode_run jc n d1 in (d2, r # rs))"

fun delivered :: "(wire_error + envelope) list \<Rightarrow> envelope list" where
  "delivered [] = []"
| "delivered (Inl e # rs) = delivered rs"
| "delivered (Inr env # rs) = env # delivered rs"
section \<open>The write loop\<close>

text \<open>
  The loop ends after at most one call per byte of the frame; it reports success exactly when the
  writer has taken the whole frame and every call was in order, and in every other case the writer
  has taken a prefix of it.
\<close>

lemma write_all_spec:
  "\<exists>k \<le> length buf.
     wr_out (fst (write_all buf w)) = wr_out w @ take k buf \<and>
     wr_calls (fst (write_all buf w)) \<le> wr_calls w + length buf \<and>
     wr_answer (fst (write_all buf w)) = wr_answer w \<and>
     (snd (write_all buf w) = None \<longrightarrow> k = length buf) \<and>
     snd (write_all buf w) \<in> {None, Some ShortWrite, Some WriteFailed}"
proof (induction buf w rule: write_all.induct)
  case (1 buf w)
  show ?case
  proof (cases "buf = []")
    case False
    obtain n failed where a: "wr_answer w (wr_calls w) buf = (n, failed)" by fastforce
    define w1 where "w1 = w\<lparr>wr_out := wr_out w @ take (nat n) buf, wr_calls := Suc (wr_calls w)\<rparr>"
    have c: "write_call buf w = (w1, n, failed)" by (simp add: write_call_def a w1_def)
    have pos: "0 < length buf" using False by simp
    show ?thesis
    proof (cases "n < 0 \<or> int (length buf) < n \<or> failed \<or> n = 0")
      case True
      then have "\<exists>e \<in> {ShortWrite, WriteFailed}. write_all buf w = (w1, Some e)"
        using False by (subst write_all.simps) (auto simp: c)
      then show ?thesis
        using pos by (intro exI [of _ "min (nat n) (length buf)"]) (auto simp: w1_def min_def Suc_le_eq)
    next
      case go: False
      then have eq: "write_all buf w = write_all (drop (nat n) buf) w1"
        using False by (subst write_all.simps) (simp add: c)
      have n: "0 < nat n" "nat n \<le> length buf" using go by auto
      from "1.IH" [OF False c [symmetric] refl] go obtain k where k: "k \<le> length (drop (nat n) buf)"
        "wr_out (fst (write_all (drop (nat n) buf) w1)) = wr_out w1 @ take k (drop (nat n) buf)"
        "wr_calls (fst (write_all (drop (nat n) buf) w1)) \<le> wr_calls w1 + length (drop (nat n) buf)"
        "wr_answer (fst (write_all (drop (nat n) buf) w1)) = wr_answer w1"
        "snd (write_all (drop (nat n) buf) w1) = None \<longrightarrow> k = length (drop (nat n) buf)"
        "snd (write_all (drop (nat n) buf) w1) \<in> {None, Some ShortWrite, Some WriteFailed}"
        by auto
      have "take (nat n) buf @ take k (drop (nat n) buf) = take (nat n + k) buf"
        by (simp add: take_add)
      with k n show ?thesis
        unfolding eq by (intro exI [of _ "nat n + k"]) (auto simp: w1_def)
    qed
  qed (subst (1 2 3 4 5) write_all.simps, simp)
qed

section \<open>Frames\<close>

lemma get_put_uint32: "n < 4294967296 \<Longrightarrow> get_uint32 (put_uint32 n) = n"
proof -
  assume n: "n < 4294967296"
  have a: "n div 16777216 * 256 + n div 65536 mod 256 = n div 65536"
    using div_mult_mod_eq [of "n div 65536" 256] by (simp add: div_mult2_eq [symmetric])
  have b: "n div 65536 * 256 + n div 256 mod 256 = n div 256"
    using div_mult_mod_eq [of "n div 256" 256] by (simp add: div_mult2_eq [symmetric])
  have "n div 16777216 < 256" using n by (simp add: less_mult_imp_div_less)
  then show ?thesis by (simp add: get_uint32_def put_uint32_def a b)
qed

lemma length_put_uint32 [simp]: "length (put_uint32 n) = 4"
  by (simp add: put_uint32_def)

text \<open>A frame the encoder writes is one the decoder reads, whatever follows it.\<close>

lemma decode_frame:
  assumes jc: "json_faithful jc" "jc_plain jc (stamp_version env)"
    and f: "frame_of jc env = Inr frame"
    and v: "env_v env \<le> protocol_version"
    and d: "dec_terminal d = None" "dec_in d = Some ((frame @ rest, e) # segs)"
      "dec_max d = default_max_message_size"
  shows "decode jc d = (d\<lparr>dec_in := Some ((rest, e) # segs)\<rparr>, Inr (stamp_version env))"
proof -
  from f obtain bytes where b: "env_type env \<noteq> ''''" "\<not> no_payload (env_payload env)"
      "jc_marshal jc (stamp_version env) = Some bytes" "length bytes \<le> default_max_message_size"
      "\<not> (is_control_message_type (env_type env) \<and> max_control_message_size < length bytes)"
      "frame = put_uint32 (length bytes) @ bytes"
    by (auto simp: frame_of_def split: if_splits option.splits)
  have u: "jc_unmarshal jc bytes = Some (stamp_version env)"
    using jc b(3) by (simp add: json_faithful_def)
  have len: "get_uint32 (put_uint32 (length bytes)) = length bytes"
    using b(4) by (intro get_put_uint32) (simp add: default_max_message_size_def)
  have "env_v (stamp_version env) = protocol_version \<or> 0 < env_v (stamp_version env) \<and> env_v (stamp_version env) \<le> protocol_version"
    using v by (auto simp: stamp_version_def)
  then have chk: "check_frame jc bytes = Inr (stamp_version env)"
    using b u by (auto simp: check_frame_def validate_envelope_version_def stamp_version_def protocol_version_def)
  have nz: "0 < length bytes"
    using u jc(1) by (cases bytes) (simp_all add: json_faithful_def)
  show ?thesis
    using d b(4,6) nz chk by (simp add: decode_def read_full_def len Let_def)
qed

section \<open>Streams of frames\<close>

fun encode_all :: "json_codec \<Rightarrow> envelope list \<Rightarrow> writer option \<Rightarrow> writer option \<times> wire_error option list" where
  "encode_all jc [] w = (w, [])"
| "encode_all jc (env # envs) w =
     (let (w1, r) = encode_envelope jc (Some env) w; (w2, rs) = encode_all jc envs w1
      in (w2, r # rs))"

lemma encode_envelope_ok:
  assumes "encode_envelope jc (Some env) (Some w) = (wopt, None)"
  obtains frame w1 where "frame_of jc env = Inr frame" "wopt = Some w1"
    "wr_out w1 = wr_out w @ frame"
proof -
  from assms obtain frame where f: "frame_of jc env = Inr frame"
    by (auto simp: encode_envelope_def split: sum.splits)
  have "wopt = Some (fst (write_all frame w))" "snd (write_all frame w) = None"
    using assms f by (auto simp: encode_envelope_def split_def Let_def)
  moreover from this(2) have "wr_out (fst (write_all frame w)) = wr_out w @ frame"
    using write_all_spec [of frame w] by auto
  ultimately show thesis using that f by blast
qed

lemma encode_all_frames:
  assumes "encode_all jc envs (Some w) = (wopt, rs)" "list_all (\<lambda>r. r = None) rs"
  obtains frames w' where "wopt = Some w'" "wr_out w' = wr_out w @ concat frames"
    "list_all2 (\<lambda>env frame. frame_of jc env = Inr frame) envs frames"
  using assms
proof (induction envs arbitrary: w wopt rs thesis)
  case Nil
  then show ?case by (simp add: Nil.prems(1) [of w "[]"])
next
  case (Cons env envs)
  obtain w1opt r where r: "encode_envelope jc (Some env) (Some w) = (w1opt, r)" by fastforce
  with Cons.prems(2,3) have "r = None" by (auto simp: split_def Let_def)
  from r [unfolded this] obtain frame w1 where f: "frame_of jc env = Inr frame" "w1opt = Some w1"
      "wr_out w1 = wr_out w @ frame" by (rule encode_envelope_ok)
  obtain wopt' rs' where e: "encode_all jc envs (Some w1) = (wopt', rs')" by fastforce
  have "wopt = wopt'" "list_all (\<lambda>r. r = None) rs'"
    using Cons.prems(2,3) r f(2) e by (auto simp: split_def Let_def)
  with Cons.IH [OF _ e] obtain frames w' where "wopt = Some w'" "wr_out w' = wr_out w1 @ concat frames"
    "list_all2 (\<lambda>env frame. frame_of jc env = Inr frame) envs frames" by blast
  with f show ?case by (intro Cons.prems(1) [of w' "frame # frames"]) simp_all
qed

lemma decode_run_frames:
  assumes jc: "json_faithful jc"
    and ok: "list_all (\<lambda>env. jc_plain jc (stamp_version env) \<and> env_v env \<le> protocol_version) envs"
    and fr: "list_all2 (\<lambda>env frame. frame_of jc env = Inr frame) envs frames"
    and d: "dec_terminal d = None" "dec_in d = Some [(concat frames, EndOfFile)]"
      "dec_max d = default_max_message_size"
  shows "snd (decode_run jc (Suc (length envs)) d) =
    map (Inr \<circ> stamp_version) envs @ [Inl (ReadFailed EndOfFile)]"
  using fr ok d
proof (induction envs frames arbitrary: d rule: list_all2_induct)
  case Nil
  then show ?case by (simp add: decode_def read_full_def)
next
  case (Cons env envs frame frames)
  have "decode jc d = (d\<lparr>dec_in := Some [(concat frames, EndOfFile)]\<rparr>, Inr (stamp_version env))"
    using Cons.prems by (intro decode_frame [OF jc _ Cons.hyps(1)]) simp_all
  with Cons.IH [of "d\<lparr>dec_in := Some [(concat frames, EndOfFile)]\<rparr>"] Cons.prems
  show ?case by (simp add: split_def Let_def)
qed

text \<open>
  C36. Whatever sequence of envelopes is encoded onto a connection without an error - through a
  writer that may take each frame in pieces - a fresh decoder at the other end delivers exactly
  those envelopes, in order, each with its version stamped, and then the end of the stream: the
  encoder never emits a frame the decoder's limits would refuse. The envelopes must be ones JSON
  represents faithfully and must not announce a version above this release's own.\<close>

theorem frames_roundtrip:
  assumes "json_faithful jc"
    and "list_all (\<lambda>env. jc_plain jc (stamp_version env) \<and> env_v env \<le> protocol_version) envs"
    and "encode_all jc envs (Some \<lparr>wr_out = [], wr_calls = c, wr_answer = a\<rparr>) = (Some w, rs)"
    and "list_all (\<lambda>r. r = None) rs"
  shows "snd (decode_run jc (Suc (length envs)) (new_decoder (Some [(wr_out w, EndOfFile)]))) =
    map (Inr \<circ> stamp_version) envs @ [Inl (ReadFailed EndOfFile)]"
proof -
  obtain frames where f: "wr_out w = concat frames"
    "list_all2 (\<lambda>env frame. frame_of jc env = Inr frame) envs frames"
    using encode_all_frames [OF assms(3,4)] by (metis append_Nil option.inject writer.select_convs(1))
  show ?thesis
    by (rule decode_run_frames [OF assms(1,2) f(2)]) (simp_all add: new_decoder_def f(1))
qed

definition demo_json :: json_codec where
  "demo_json = \<lparr>jc_marshal = (\<lambda>e. Some (char_of (length (env_type e)) # char_of (nat (env_v e)) # env_type e @ env_payload e)),
     jc_unmarshal = (\<lambda>s. case s of n # v # r \<Rightarrow>
        Some \<lparr>env_type = take (code n) r, env_payload = drop (code n) r, env_v = int (code v)\<rparr> | _ \<Rightarrow> None),
     jc_plain = (\<lambda>e. length (env_type e) < 256 \<and> 0 \<le> env_v e \<and> env_v e < 256)\<rparr>"

definition demo_envs :: "envelope list" where
  "demo_envs = [\<lparr>env_type = ''heartbeat'', env_payload = ''{}'', env_v = 0\<rparr>,
     \<lparr>env_type = ''bridge_ack'', env_payload = ''[1]'', env_v = 1\<rparr>]"

definition demo_slow_writer :: "nat \<Rightarrow> string \<Rightarrow> int \<times> bool" where
  "demo_slow_writer k buf = (min 5 (int (length buf)), False)"

lemma demo_json_faithful: "json_faithful demo_json"
  by (auto simp: json_faithful_def demo_json_def)

theorem frames_roundtrip_witness:
  "let w = fst (encode_all demo_json demo_envs (Some \<lparr>wr_out = [], wr_calls = 0, wr_answer = demo_slow_writer\<rparr>))
   in snd (decode_run demo_json 3 (new_decoder (Some [(wr_out (the w), EndOfFile)]))) =
        [Inr ((hd demo_envs)\<lparr>env_v := 1\<rparr>), Inr (demo_envs ! 1), Inl (ReadFailed EndOfFile)]"
proof -
  let ?w = "\<lparr>wr_out = [], wr_calls = 0, wr_answer = demo_slow_writer\<rparr>"
  have p: "list_all (\<lambda>env. jc_plain demo_json (stamp_version env) \<and> env_v env \<le> protocol_version) demo_envs"
    by (simp add: demo_envs_def demo_json_def stamp_version_def protocol_version_def)
  obtain w rs where e: "encode_all demo_json demo_envs (Some ?w) = (w, rs)" by fastforce
  have len: "\<not> default_max_message_size < n" "\<not> max_control_message_size < n" if "n < 100" for n
    using that by (simp_all add: default_max_message_size_def max_control_message_size_def)
  have "map_option wr_calls w = Some 8 \<and> list_all (\<lambda>r. r = None) rs"
    using e [unfolded demo_envs_def]
    by (auto simp: Let_def split_def encode_envelope_def frame_of_def demo_json_def no_payload_def
        stamp_version_def len write_all.simps write_call_def demo_slow_writer_def)
  then obtain w' where w: "w = Some w'" "list_all (\<lambda>r. r = None) rs" by auto
  from frames_roundtrip [OF demo_json_faithful p e [unfolded w(1)] w(2)]
  show ?thesis unfolding e Let_def
    by (simp add: w demo_envs_def stamp_version_def protocol_version_def numeral_3_eq_3)
qed

section \<open>Interrupted streams\<close>

text \<open>The data of a reader, without the errors in between; the frames a byte sequence holds.\<close>

definition stream_bytes :: "reader \<Rightarrow> string" where
  "stream_bytes rd = concat (map fst rd)"

function parse_frames :: "json_codec \<Rightarrow> nat \<Rightarrow> string \<Rightarrow> envelope list" where
  "parse_frames jc mx s =
     (let len = get_uint32 (take 4 s)
      in if length s < 4 \<or> mx < len \<or> len = 0 \<or> length s < 4 + len then []
         else (case check_frame jc (take len (drop 4 s)) of
           Inl e \<Rightarrow> []
         | Inr env \<Rightarrow> env # parse_frames jc mx (drop (4 + len) s)))"
  by pat_completeness auto
termination
  by (relation "measure (\<lambda>(jc, mx, s). length s)") auto

declare parse_frames.simps [simp del]

lemma read_full_cases:
  obtains bs where "read_full n rd = (fst (read_full n rd), bs, None)" "length bs = n"
      "stream_bytes rd = bs @ stream_bytes (fst (read_full n rd))"
  | bs e where "read_full n rd = (fst (read_full n rd), bs, Some e)"
      "stream_bytes rd = bs @ stream_bytes (fst (read_full n rd))"
proof (cases rd)
  case Nil
  then show ?thesis using that(2) [of "[]" EndOfFile] by (simp add: read_full_def stream_bytes_def)
next
  case (Cons p rest)
  obtain bs err where p: "p = (bs, err)" by fastforce
  show ?thesis
  proof (cases "n \<le> length bs")
    case True
    then show ?thesis using that(1) [of "take n bs"] by (simp add: read_full_def stream_bytes_def Cons p)
  next
    case False
    then show ?thesis using that(2) [of bs] by (simp add: read_full_def stream_bytes_def Cons p)
  qed
qed

text \<open>
  The outcomes of a call on an unlatched decoder: an envelope, which is the next frame of the
  stream; an error with nothing consumed; or an error that latches the decoder.
\<close>

lemma decode_cases:
  assumes "dec_in d = Some rd" "dec_terminal d = None"
  obtains rd' env where "decode jc d = (d\<lparr>dec_in := Some rd'\<rparr>, Inr env)"
      "parse_frames jc (dec_max d) (stream_bytes rd) = env # parse_frames jc (dec_max d) (stream_bytes rd')"
  | rd' e where "decode jc d = (d\<lparr>dec_in := Some rd'\<rparr>, Inl (ReadFailed e))"
      "stream_bytes rd' = stream_bytes rd"
  | rd' e where "decode jc d = (d\<lparr>dec_in := Some rd', dec_terminal := Some e\<rparr>, Inl e)"
proof (cases rule: read_full_cases [of 4 rd])
  case (2 bs e)
  show ?thesis
  proof (cases "bs = []")
    case True
    with 2 assms show ?thesis
      by (intro that(2) [of "fst (read_full 4 rd)" e]) (simp_all add: decode_def Let_def split_def prod_eq_iff)
  next
    case False
    with 2 assms show ?thesis
      by (intro that(3) [where rd' = "fst (read_full 4 rd)" and e = "ReadFailed e"])
        (simp add: decode_def decoder_fail_def Let_def split_def prod_eq_iff)
  qed
next
  case (1 hdr)
  let ?rd1 = "fst (read_full 4 rd)" and ?len = "get_uint32 hdr"
  let ?d1 = "d\<lparr>dec_in := Some ?rd1\<rparr>"
  have r1: "snd (read_full 4 rd) = (hdr, None)" using 1(1) by (simp add: prod_eq_iff)
  show ?thesis
  proof (cases "dec_max d < ?len \<or> ?len = 0")
    case True
    then have "\<exists>e. decode jc d = (?d1\<lparr>dec_terminal := Some e\<rparr>, Inl e)"
      using r1 assms by (auto simp: decode_def decoder_fail_def Let_def split_def)
    then show ?thesis using that(3) by auto
  next
    case ok: False
    show ?thesis
    proof (cases rule: read_full_cases [of ?len ?rd1])
      case (2 bs e)
      have r2: "snd (read_full ?len ?rd1) = (bs, Some e)" using 2(1) by (simp add: prod_eq_iff)
      show ?thesis
        using ok r1 r2 assms
        by (intro that(3) [where rd' = "fst (read_full ?len ?rd1)" and e = "ReadFailed e"])
          (simp add: decode_def decoder_fail_def Let_def split_def)
    next
      case (1 body)
      note body = this
      have r2: "snd (read_full ?len ?rd1) = (body, None)" using 1(1) by (simp add: prod_eq_iff)
      have bytes: "stream_bytes rd = hdr @ body @ stream_bytes (fst (read_full ?len ?rd1))"
        using \<open>stream_bytes rd = hdr @ stream_bytes ?rd1\<close> 1(3) by simp
      show ?thesis
      proof (cases "check_frame jc body")
        case (Inl e)
        then show ?thesis
          using ok r1 r2 assms
          by (intro that(3) [where rd' = "fst (read_full ?len ?rd1)" and e = e])
            (simp add: decode_def decoder_fail_def Let_def split_def)
      next
        case (Inr env)
        then have dec: "decode jc d = (d\<lparr>dec_in := Some (fst (read_full ?len ?rd1))\<rparr>, Inr env)"
          using ok r1 r2 assms by (simp add: decode_def Let_def split_def)
        have h: "length hdr = 4" by (rule \<open>length hdr = 4\<close>)
        have "parse_frames jc (dec_max d) (stream_bytes rd) =
            env # parse_frames jc (dec_max d) (stream_bytes (fst (read_full ?len ?rd1)))"
          unfolding bytes using ok Inr h 1(2) by (subst parse_frames.simps) (simp add: Let_def)
        with dec show ?thesis by (rule that(1))
      qed
    qed
  qed
qed

lemma decode_latched: "dec_in d = Some rd \<Longrightarrow> dec_terminal d = Some e \<Longrightarrow> decode jc d = (d, Inl e)"
  by (simp add: decode_def)

lemma decode_run_latched:
  "dec_in d = Some rd \<Longrightarrow> dec_terminal d = Some e \<Longrightarrow> decode_run jc n d = (d, replicate n (Inl e))"
  by (induction n) (simp_all add: decode_latched)

lemma delivered_failures [simp]: "delivered (replicate n (Inl e)) = []"
  by (induction n) simp_all

text \<open>
  C37. A decoder never takes bytes of a message for the start of a frame: however often its reader
  is interrupted - by expired deadlines, ends of file that turn out not to be the end, or any other
  error, at any byte - the envelopes that a run of calls delivers are the first ones the
  uninterrupted stream holds, in order.\<close>

theorem decoder_never_desyncs:
  assumes "dec_in d = Some rd" "dec_terminal d = None"
  shows "prefix (delivered (snd (decode_run jc n d))) (parse_frames jc (dec_max d) (stream_bytes rd))"
  using assms
proof (induction n arbitrary: d rd)
  case (Suc n)
  show ?case
  proof (cases rule: decode_cases [OF Suc.prems, of jc])
    case (1 rd' env)
    with Suc.IH [of "d\<lparr>dec_in := Some rd'\<rparr>" rd'] Suc.prems show ?thesis by (simp add: split_def Let_def)
  next
    case (2 rd' e)
    with Suc.IH [of "d\<lparr>dec_in := Some rd'\<rparr>" rd'] Suc.prems show ?thesis by (simp add: split_def Let_def)
  next
    case (3 rd' e)
    with decode_run_latched [of "d\<lparr>dec_in := Some rd', dec_terminal := Some e\<rparr>" rd' e jc n]
    show ?thesis by (simp add: split_def Let_def)
  qed
qed simp

definition demo_frames :: string where
  "demo_frames = put_uint32 5 @ [char_of (1::nat), char_of (1::nat)] @ ''h{}'' @
     put_uint32 6 @ [char_of (1::nat), char_of (1::nat)] @ ''b[1]''"

theorem decoder_never_desyncs_witness:
  "prefix (delivered (snd (decode_run demo_json 4
       (new_decoder (Some [(take 9 demo_frames, ReadFault ''deadline''), (drop 9 demo_frames, EndOfFile)])))))
     (parse_frames demo_json default_max_message_size demo_frames)"
proof -
  have "stream_bytes [(take 9 demo_frames, ReadFault ''deadline''), (drop 9 demo_frames, EndOfFile)] = demo_frames"
    by (simp add: stream_bytes_def)
  with decoder_never_desyncs [of "new_decoder (Some [(take 9 demo_frames, ReadFault ''deadline''),
      (drop 9 demo_frames, EndOfFile)])" _ demo_json 4]
  show ?thesis by (simp add: new_decoder_def)
qed

text \<open>
  C38. A failed call of \<open>Decode\<close> either consumed nothing - the reader's error came at a frame
  boundary, and the next call reads from there - or it is final: that call and every later one
  report the same error, and nothing more is read.\<close>

theorem decode_failure_final:
  assumes "dec_in d = Some rd" "dec_terminal d = None" "decode jc d = (d', Inl e)"
  shows "(\<exists>rd' err. e = ReadFailed err \<and> d' = d\<lparr>dec_in := Some rd'\<rparr> \<and> stream_bytes rd' = stream_bytes rd) \<or>
    decode_run jc n d' = (d', replicate n (Inl e))"
proof (cases rule: decode_cases [OF assms(1,2), of jc])
  case (3 rd' err)
  with assms(3) have "dec_in d' = Some rd'" "dec_terminal d' = Some e" by auto
  then show ?thesis by (simp add: decode_run_latched)
qed (use assms(3) in auto)

theorem decode_failure_final_witness:
  "\<exists>d'. decode demo_json (new_decoder (Some [(''abc'', ReadFault ''deadline''), (''xyz'', EndOfFile)])) =
      (d', Inl (ReadFailed (ReadFault ''deadline''))) \<and>
    decode_run demo_json 7 d' = (d', replicate 7 (Inl (ReadFailed (ReadFault ''deadline''))))"
proof -
  let ?d = "new_decoder (Some [(''abc'', ReadFault ''deadline''), (''xyz'', EndOfFile)])"
  let ?d' = "?d\<lparr>dec_in := Some [(''xyz'', EndOfFile)], dec_terminal := Some (ReadFailed (ReadFault ''deadline''))\<rparr>"
  have e: "decode demo_json ?d = (?d', Inl (ReadFailed (ReadFault ''deadline'')))"
    by (simp add: decode_def new_decoder_def read_full_def decoder_fail_def Let_def)
  have i: "dec_in ?d = Some [(''abc'', ReadFault ''deadline''), (''xyz'', EndOfFile)]" "dec_terminal ?d = None"
    by (simp_all add: new_decoder_def)
  from decode_failure_final [OF i e, of 7] e show ?thesis by (auto simp: stream_bytes_def new_decoder_def)
qed

text \<open>
  C39. The loop of \<open>EncodeEnvelope\<close> over short writes ends whatever the writer answers: after at most
  one call per byte of the frame. It succeeds only when the writer has taken the whole frame; when
  it fails the writer has taken a prefix of it.\<close>

theorem write_loop_ends:
  "let (w', r) = write_all buf w
   in wr_calls w' \<le> wr_calls w + length buf \<and>
      (if r = None then wr_out w' = wr_out w @ buf
       else r \<in> {Some ShortWrite, Some WriteFailed} \<and> (\<exists>sent. prefix sent buf \<and> wr_out w' = wr_out w @ sent))"
proof -
  obtain k where "wr_out (fst (write_all buf w)) = wr_out w @ take k buf"
     "wr_calls (fst (write_all buf w)) \<le> wr_calls w + length buf"
     "snd (write_all buf w) = None \<longrightarrow> k = length buf"
     "snd (write_all buf w) \<in> {None, Some ShortWrite, Some WriteFailed}"
    using write_all_spec by blast
  then show ?thesis by (auto simp: split_def Let_def intro: take_is_prefix)
qed

end
