(* ===== verification/Net_URL.thy ===== *)
theory Net_URL
  imports Wire_Protocol
begin

text \<open>
  Authorization URLs: what the browser package makes of them (internal/browser/browser.go: validation,
  sanitizing, redaction), the redaction of error texts, and the identities under which sign-ins are
  coalesced (internal/bridge/session.go). The parser and printer of \<open>net/url\<close> are the record
  \<open>net_lib\<close>; SHA-256 in hexadecimal is the parameter \<open>sha\<close>.
\<close>

section \<open>The URL library\<close>

record url =
  ur_scheme :: string
  ur_opaque :: string
  ur_user :: string
  ur_host :: string
  ur_path :: string
  ur_raw_path :: string
  ur_raw_query :: string
  ur_force_query :: bool
  ur_fragment :: string
  ur_raw_fragment :: string

type_synonym url_values = "(string \<times> string list) list"

text \<open>
  \<open>url.Parse\<close>, \<open>url.ParseRequestURI\<close>, \<open>url.ParseQuery\<close> (the values it could read, and whether
  it read everything), \<open>url.QueryUnescape\<close>, \<open>URL.String\<close>, \<open>URL.EscapedPath\<close>, \<open>Values.Encode\<close>, and
  \<open>net.ParseIP\<close> followed by \<open>IsLoopback\<close>, \<open>net.SplitHostPort\<close>.
\<close>

record net_lib =
  nl_parse :: "string \<Rightarrow> url option"
  nl_parse_request_uri :: "string \<Rightarrow> url option"
  nl_parse_query :: "string \<Rightarrow> url_values \<times> bool"
  nl_query_unescape :: "string \<Rightarrow> string option"
  nl_string :: "url \<Rightarrow> string"
  nl_escaped_path :: "url \<Rightarrow> string"
  nl_encode :: "url_values \<Rightarrow> string"
  nl_ip_loopback :: "string \<Rightarrow> bool option"
  nl_split_host_port :: "string \<Rightarrow> (string \<times> string) option"

definition url_query :: "net_lib \<Rightarrow> url \<Rightarrow> url_values" where
  "url_query nl u = fst (nl_parse_query nl (ur_raw_query u))"

definition values_get :: "url_values \<Rightarrow> string \<Rightarrow> string" where
  "values_get vs k = (case map_of vs k of Some (v # _) \<Rightarrow> v | _ \<Rightarrow> '''')"

definition values_set :: "string \<Rightarrow> string \<Rightarrow> url_values \<Rightarrow> url_values" where
  "values_set k v vs = AList.update k [v] vs"

text \<open>\<open>URL.Hostname\<close> and \<open>URL.Port\<close>: the host split at its last colon when only digits follow it.\<close>

definition split_host_port :: "string \<Rightarrow> string \<times> string" where
  "split_host_port hp =
     (let after = takeWhile (\<lambda>c. c \<noteq> CHR '':'') (rev hp);
          (host, port) =
            (if length after < length hp \<and> list_all digit_char after
             then (take (length hp - length after - 1) hp, rev after) else (hp, ''''))
      in (if has_prefix host ''['' \<and> host \<noteq> [] \<and> last host = CHR '']'' then butlast (tl host) else host, port))"

definition url_hostname :: "url \<Rightarrow> string" where
  "url_hostname u = fst (split_host_port (ur_host u))"

definition url_port :: "url \<Rightarrow> string" where
  "url_port u = snd (split_host_port (ur_host u))"

definition join_host_port :: "string \<Rightarrow> string \<Rightarrow> string" where
  "join_host_port host port =
     (if CHR '':'' \<in> set host then ''['' @ host @ '']:'' @ port else host @ '':'' @ port)"

section \<open>The browser package\<close>

datatype url_error = EmptyURL | InvalidURL | InvalidScheme | MissingHost

definition validate_url :: "net_lib \<Rightarrow> string \<Rightarrow> url_error option" where
  "validate_url nl raw =
     (let trimmed = trim_space raw
      in if trimmed = '''' then Some EmptyURL
         else (case nl_parse nl trimmed of
           None \<Rightarrow> Some InvalidURL
         | Some parsed \<Rightarrow>
             let scheme = to_lower (ur_scheme parsed)
             in if scheme \<noteq> ''http'' \<and> scheme \<noteq> ''https'' then Some InvalidScheme
                else if trim_space (url_hostname parsed) = '''' then Some MissingHost
                else None))"

definition browser_command :: "string \<Rightarrow> string \<Rightarrow> string \<times> string list" where
  "browser_command goos raw =
     (if goos = ''windows'' then (''rundll32'', [''url.dll,FileProtocolHandler'', raw])
      else if goos = ''darwin'' then (''open'', [raw])
      else (''xdg-open'', [raw]))"

definition allowed_oauth_params :: "string list" where
  "allowed_oauth_params =
     [''client_id'', ''redirect_uri'', ''response_type'', ''scope'', ''state'',
      ''access_type'', ''prompt'', ''code_challenge'', ''code_challenge_method'',
      ''nonce'', ''login_hint'', ''hd'', ''include_granted_scopes'', ''enable_granular_consent'']"

text \<open>The parameters nested in \<open>continue\<close>, unless they are there already.\<close>

definition merge_missing :: "url_values \<Rightarrow> url_values \<Rightarrow> url_values" where
  "merge_missing q cont = foldl (\<lambda>q (k, v). if k \<in> fst ` set q then q else AList.update k v q) q cont"

definition unnest_continue :: "net_lib \<Rightarrow> url_values \<Rightarrow> url_values" where
  "unnest_continue nl q =
     (if values_get q ''client_id'' = '''' \<and> values_get q ''continue'' \<noteq> '''' then
        (case nl_parse nl (values_get q ''continue'') of
           None \<Rightarrow> q
         | Some cont \<Rightarrow> merge_missing q (url_query nl cont))
      else q)"

definition clean_params :: "url_values \<Rightarrow> url_values" where
  "clean_params q =
     (let clean = concat (map (\<lambda>k. case map_of q k of None \<Rightarrow> [] | Some vals \<Rightarrow> [(k, vals)]) allowed_oauth_params)
      in if values_get clean ''response_type'' = '''' then values_set ''response_type'' ''code'' clean
         else clean)"

definition sanitize_url :: "net_lib \<Rightarrow> string \<Rightarrow> string" where
  "sanitize_url nl raw =
     (let trimmed = trim_space raw
      in if trimmed = '''' then raw
         else (case nl_parse nl trimmed of
           None \<Rightarrow> raw
         | Some parsed \<Rightarrow>
             if equal_fold (url_hostname parsed) ''accounts.google.com'' \<and>
                (contains_sub (ur_path parsed) ''signin'' \<or> contains_sub (ur_path parsed) ''accountchooser'')
             then
               let q = unnest_continue nl (url_query nl parsed)
               in if values_get q ''client_id'' \<noteq> '''' \<and> values_get q ''redirect_uri'' \<noteq> '''' then
                    nl_string nl (parsed\<lparr>ur_path := ''/o/oauth2/v2/auth'', ur_raw_query := nl_encode nl (clean_params q)\<rparr>)
                  else raw
             else raw))"

definition scrub_url :: "url \<Rightarrow> url" where
  "scrub_url u =
     (let u1 = u\<lparr>ur_user := '''', ur_fragment := '''', ur_raw_fragment := ''''\<rparr>
      in if ur_raw_query u \<noteq> '''' then u1\<lparr>ur_raw_query := ''redacted'', ur_force_query := True\<rparr> else u1)"

definition redact_url :: "net_lib \<Rightarrow> string \<Rightarrow> string" where
  "redact_url nl raw =
     (let trimmed = trim_space raw
      in if trimmed = '''' then ''<empty-url>''
         else (case nl_parse nl trimmed of
           None \<Rightarrow> ''<invalid-url>''
         | Some parsed \<Rightarrow>
             if ur_scheme parsed = '''' \<or> ur_host parsed = '''' then ''<invalid-url>''
             else nl_string nl (scrub_url parsed)))"

definition redact_request_uri :: "net_lib \<Rightarrow> string \<Rightarrow> string" where
  "redact_request_uri nl uri =
     (case nl_parse_request_uri nl uri of
        None \<Rightarrow> ''<invalid-request-uri>''
      | Some parsed \<Rightarrow>
          let force = (CHR ''?'' \<in> set uri);
              text = nl_string nl (parsed\<lparr>ur_raw_query := '''', ur_force_query := force,
                ur_fragment := '''', ur_raw_fragment := ''''\<rparr>)
          in if force then text @ ''?redacted'' else text)"

text \<open>\<open>OpenURL\<close>: the command that is started, or the refusal.\<close>

definition open_url :: "net_lib \<Rightarrow> string \<Rightarrow> string \<Rightarrow> url_error + (string \<times> string list)" where
  "open_url nl goos raw0 =
     (let raw = trim_space (sanitize_url nl raw0)
      in case validate_url nl raw of
           Some e \<Rightarrow> Inl e
         | None \<Rightarrow> Inr (browser_command goos raw))"

section \<open>Redaction of error texts\<close>

definition redact_field :: "net_lib \<Rightarrow> string \<Rightarrow> string" where
  "redact_field nl field =
     (let left_trimmed = dropWhile (\<lambda>c. c \<in> set [CHR ''('', CHR ''['', CHR ''<'', CHR 0x22, CHR 0x27]) field;
          trimmed = trim_right_chars '',.;)]}'' left_trimmed
      in if has_prefix trimmed ''http://'' \<or> has_prefix trimmed ''https://'' then
           take (length field - length left_trimmed) field @ redact_url nl trimmed @
           drop (length trimmed) left_trimmed
         else field)"

definition redact_bridge_message :: "net_lib \<Rightarrow> string \<Rightarrow> string" where
  "redact_bridge_message nl message = join_with (CHR '' '') (map (redact_field nl) (str_fields message))"

definition safe_bridge_error :: "net_lib \<Rightarrow> string option \<Rightarrow> string" where
  "safe_bridge_error nl err = (case err of None \<Rightarrow> '''' | Some e \<Rightarrow> redact_bridge_message nl e)"

section \<open>Identities of a sign-in\<close>

abbreviation nul :: char where "nul \<equiv> CHR 0x00"
abbreviation newline :: char where "newline \<equiv> CHR 0x0A"

text \<open>The decimal text \<open>%d\<close> prints.\<close>

fun nat_text :: "nat \<Rightarrow> string" where
  "nat_text n = (if n < 10 then [char_of (48 + n)] else nat_text (n div 10) @ [char_of (48 + n mod 10)])"

declare nat_text.simps [simp del]

definition int_text :: "int \<Rightarrow> string" where
  "int_text i = (if i < 0 then CHR ''-'' # nat_text (nat (- i)) else nat_text (nat i))"

definition redirect_identity :: "net_lib \<Rightarrow> string \<Rightarrow> string" where
  "redirect_identity nl redirect0 =
     (let redirect = trim_space redirect0
      in if redirect = '''' then ''''
         else (case nl_parse nl redirect of
           None \<Rightarrow> ''''
         | Some ru \<Rightarrow>
             if url_hostname ru = '''' then ''''
             else
               let scheme = to_lower (ur_scheme ru); host = to_lower (url_hostname ru); port = url_port ru;
                   path = (if nl_escaped_path nl ru = '''' then ''/'' else nl_escaped_path nl ru);
                   host_part =
                     (if (host = ''localhost'' \<or> host = ''127.0.0.1'' \<or> host = ''::1'') \<and> scheme = ''http'' then host
                      else if port \<noteq> '''' then join_host_port host port else host);
                   raw_query = nl_encode nl (url_query nl ru);
                   ident = scheme @ ''://'' @ host_part @ path
               in if raw_query \<noteq> '''' then ident @ ''?'' @ raw_query else ident))"

definition volatile_params :: "string list" where
  "volatile_params = [''state'', ''code_challenge'', ''code_challenge_method'', ''nonce'']"

definition stable_query :: "string \<Rightarrow> url_values \<Rightarrow> url_values" where
  "stable_query redirect_id q =
     (let kept = foldl (\<lambda>sq (key, vs).
            if to_lower key \<in> set volatile_params then sq
            else if to_lower key = ''redirect_uri'' \<and> redirect_id \<noteq> ''''
              then values_set ''redirect_uri'' redirect_id sq
            else AList.update key vs sq) [] q;
          scopes = str_fields (values_get q ''scope'');
          kept1 = (if scopes \<noteq> [] then values_set ''scope'' (join_with (CHR '' '') (sort scopes)) kept else kept)
      in if trim_space (values_get q ''response_type'') = ''''
         then values_set ''response_type'' ''code'' kept1 else kept1)"

definition derive_oauth_flow_id :: "net_lib \<Rightarrow> (string \<Rightarrow> string) \<Rightarrow> string \<Rightarrow> string" where
  "derive_oauth_flow_id nl sha raw =
     (case nl_parse nl (sanitize_url nl (trim_space raw)) of
        None \<Rightarrow> ''''
      | Some parsed \<Rightarrow>
          if ur_scheme parsed = '''' \<or> ur_host parsed = '''' then ''''
          else
            let q = url_query nl parsed; rid = redirect_identity nl (values_get q ''redirect_uri'')
            in if values_get q ''client_id'' = '''' \<and> rid = '''' then ''''
               else
                 let base = to_lower (ur_scheme parsed) @ ''://'' @ to_lower (ur_host parsed) @
                       nl_escaped_path nl (parsed\<lparr>ur_fragment := '''', ur_raw_fragment := ''''\<rparr>)
                 in ''oauth-'' @ sha (join_with nul [''oauth-flow-v2'', base, nl_encode nl (stable_query rid q)]))"

definition canonical_request_url :: "net_lib \<Rightarrow> string \<Rightarrow> string" where
  "canonical_request_url nl raw =
     (let canonical = sanitize_url nl (trim_space raw)
      in case nl_parse nl canonical of
           None \<Rightarrow> canonical
         | Some parsed \<Rightarrow>
             nl_string nl (parsed\<lparr>ur_raw_query := nl_encode nl (url_query nl parsed), ur_fragment := '''', ur_raw_fragment := ''''\<rparr>))"

definition request_url_identity :: "net_lib \<Rightarrow> (string \<Rightarrow> string) \<Rightarrow> string \<Rightarrow> string" where
  "request_url_identity nl sha raw = sha (canonical_request_url nl raw)"

definition session_peer :: "net_lib \<Rightarrow> string \<Rightarrow> string option \<Rightarrow> string" where
  "session_peer nl fingerprint remote =
     (case (fingerprint, remote) of
        ('''', Some addr) \<Rightarrow> (case nl_split_host_port nl addr of Some (host, _) \<Rightarrow> host | None \<Rightarrow> addr)
      | _ \<Rightarrow> fingerprint)"

definition session_flow :: "net_lib \<Rightarrow> (string \<Rightarrow> string) \<Rightarrow> bridge_request \<Rightarrow> string" where
  "session_flow nl sha rq =
     (if trim_space (rq_flow_id rq) = '''' then derive_oauth_flow_id nl sha (rq_url rq)
      else trim_space (rq_flow_id rq))"

definition plain_request_url :: "net_lib \<Rightarrow> string \<Rightarrow> string" where
  "plain_request_url nl raw =
     (let canonical = sanitize_url nl raw
      in case nl_parse nl canonical of
           None \<Rightarrow> canonical
         | Some parsed \<Rightarrow> nl_string nl (parsed\<lparr>ur_raw_query := nl_encode nl (url_query nl parsed)\<rparr>))"

text \<open>What is hashed into the key of a session, and the key.\<close>

definition session_key_text :: "net_lib \<Rightarrow> (string \<Rightarrow> string) \<Rightarrow> string \<Rightarrow> string option \<Rightarrow> bridge_request \<Rightarrow> string" where
  "session_key_text nl sha fingerprint remote rq =
     (let peer = to_lower (session_peer nl fingerprint remote);
          flow = session_flow nl sha rq; derived = derive_oauth_flow_id nl sha (rq_url rq)
      in if flow \<noteq> '''' then
           peer @ [nul] @ flow @ [nul] @
             (if derived = '''' then sanitize_url nl (rq_url rq) else derived) @ [nul] @
             request_url_identity nl sha (rq_url rq)
         else
           peer @ [newline] @ int_text (rq_callback_port rq) @ [newline] @ plain_request_url nl (rq_url rq))"

definition oauth_session_key :: "net_lib \<Rightarrow> (string \<Rightarrow> string) \<Rightarrow> string \<Rightarrow> string option \<Rightarrow> bridge_request \<Rightarrow> string" where
  "oauth_session_key nl sha fingerprint remote rq = sha (session_key_text nl sha fingerprint remote rq)"

section \<open>What redaction hides\<close>

text \<open>
  Two texts that differ only in the secret parts of the URLs they contain: the user, the query (both
  have one or both have none) and the fragment.
\<close>

definition same_public_url :: "net_lib \<Rightarrow> string \<Rightarrow> string \<Rightarrow> bool" where
  "same_public_url nl a b \<longleftrightarrow>
     (case (nl_parse nl (trim_space a), nl_parse nl (trim_space b)) of
        (Some u, Some v) \<Rightarrow>
          ur_scheme u = ur_scheme v \<and> ur_opaque u = ur_opaque v \<and> ur_host u = ur_host v \<and> ur_path u = ur_path v \<and>
          ur_raw_path u = ur_raw_path v \<and> ((ur_raw_query u = '''') \<longleftrightarrow> (ur_raw_query v = '''')) \<and>
          ur_force_query u = ur_force_query v
      | (u, v) \<Rightarrow> u = None \<and> v = None)"

definition url_field :: "string \<Rightarrow> string \<Rightarrow> string \<Rightarrow> string \<Rightarrow> bool" where
  "url_field field pre t post \<longleftrightarrow>
     field = pre @ t @ post \<and>
     dropWhile (\<lambda>c. c \<in> set [CHR ''('', CHR ''['', CHR ''<'', CHR 0x22, CHR 0x27]) field = t @ post \<and>
     trim_right_chars '',.;)]}'' (t @ post) = t \<and> (has_prefix t ''http://'' \<or> has_prefix t ''https://'')"

definition same_public_field :: "net_lib \<Rightarrow> string \<Rightarrow> string \<Rightarrow> bool" where
  "same_public_field nl a b \<longleftrightarrow>
     a = b \<or> (\<exists>pre post s t. url_field a pre s post \<and> url_field b pre t post \<and> same_public_url nl s t)"

lemma redact_url_field: "url_field field pre t post \<Longrightarrow> redact_field nl field = pre @ redact_url nl t @ post"
  by (auto simp: url_field_def redact_field_def Let_def)

lemma http_not_blank:
  assumes "has_prefix t ''http://'' \<or> has_prefix t ''https://''"
  shows "trim_space t \<noteq> ''''"
proof -
  from assms obtain u where "t = CHR ''h'' # u" by (cases t) (auto simp: has_prefix_def)
  then have "CHR ''h'' \<in> set (trim_space t)"
    by (intro trim_space_keeps_graph) (simp_all add: ascii_graph_def)
  then show ?thesis by auto
qed

lemma scrub_url_eq:
  assumes "ur_scheme u = ur_scheme v" "ur_opaque u = ur_opaque v" "ur_host u = ur_host v"
    "ur_path u = ur_path v" "ur_raw_path u = ur_raw_path v"
    "(ur_raw_query u = []) = (ur_raw_query v = [])" "ur_force_query u = ur_force_query v"
  shows "scrub_url u = scrub_url v"
  using assms by (cases u; cases v) (auto simp: scrub_url_def Let_def)

lemma redact_same_public:
  assumes "same_public_url nl a b" "trim_space a \<noteq> ''''" "trim_space b \<noteq> ''''"
  shows "redact_url nl a = redact_url nl b"
proof (cases "nl_parse nl (trim_space a)")
  case (Some u)
  with assms(1) obtain v where v: "nl_parse nl (trim_space b) = Some v"
    by (auto simp: same_public_url_def split: option.splits)
  have "scrub_url u = scrub_url v"
    by (rule scrub_url_eq) (use assms(1) Some v in \<open>simp_all add: same_public_url_def\<close>)
  with assms Some v show ?thesis by (simp add: redact_url_def Let_def same_public_url_def)
qed (use assms in \<open>auto simp: same_public_url_def redact_url_def split: option.splits\<close>)

text \<open>
  An error text that crosses the bridge tells nothing of the secrets in its URLs: two messages
  that are the same up to the query, the user and the fragment of the URLs in them (standing alone
  or in brackets, quotes and punctuation) are sent as the same text.\<close>

theorem redaction_hides_secrets:
  assumes "list_all2 (same_public_field nl) (str_fields a) (str_fields b)"
  shows "safe_bridge_error nl (Some a) = safe_bridge_error nl (Some b)"
proof -
  have "redact_field nl x = redact_field nl y" if "same_public_field nl x y" for x y
  proof (cases "x = y")
    case False
    with that obtain pre post s t where "url_field x pre s post" "url_field y pre t post" "same_public_url nl s t"
      by (auto simp: same_public_field_def)
    moreover from this have "trim_space s \<noteq> ''''" "trim_space t \<noteq> ''''"
      using http_not_blank by (auto simp: url_field_def)
    ultimately show ?thesis using redact_url_field redact_same_public by metis
  qed simp
  with assms have "map (redact_field nl) (str_fields a) = map (redact_field nl) (str_fields b)"
    by (induction rule: list_all2_induct) simp_all
  then show ?thesis by (simp add: safe_bridge_error_def redact_bridge_message_def)
qed

text \<open>A small URL library to compute with: scheme, slashes, host up to a slash, path up to the query.\<close>

definition demo_parse :: "string \<Rightarrow> url option" where
  "demo_parse s =
     (let scheme = takeWhile (\<lambda>c. c \<noteq> CHR '':'') s; rest = drop (length scheme + 3) s;
          host = takeWhile (\<lambda>c. c \<noteq> CHR ''/'') rest; tail = drop (length host) rest;
          path = takeWhile (\<lambda>c. c \<noteq> CHR ''?'') tail
      in Some \<lparr>ur_scheme = scheme, ur_opaque = '''', ur_user = '''', ur_host = host, ur_path = path, ur_raw_path = '''',
           ur_raw_query = drop (length path + 1) tail, ur_force_query = False, ur_fragment = '''', ur_raw_fragment = ''''\<rparr>)"

definition demo_net :: net_lib where
  "demo_net = \<lparr>nl_parse = demo_parse, nl_parse_request_uri = demo_parse,
     nl_parse_query = (\<lambda>q. (if q = '''' then [] else [(takeWhile (\<lambda>c. c \<noteq> CHR ''='') q, [drop 1 (dropWhile (\<lambda>c. c \<noteq> CHR ''='') q)])], True)),
     nl_query_unescape = Some,
     nl_string = (\<lambda>u. ur_scheme u @ ''://'' @ ur_host u @ ur_path u @ (if ur_raw_query u = '''' then '''' else ''?'' @ ur_raw_query u)),
     nl_escaped_path = ur_path, nl_encode = (\<lambda>vs. concat (map (\<lambda>(k, v). k @ ''='' @ concat v) vs)),
     nl_ip_loopback = (\<lambda>h. if h = ''127.0.0.1'' then Some True else None),
     nl_split_host_port = (\<lambda>s. None)\<rparr>"

theorem redaction_hides_secrets_witness:
  "safe_bridge_error demo_net (Some ''see (https://a.b/cb?code=1)!'') =
   safe_bridge_error demo_net (Some ''see (https://a.b/cb?code=2)!'')"
proof -
  have f: "str_fields ''see (https://a.b/cb?code=1)!'' = [''see'', ''(https://a.b/cb?code=1)!'']"
    "str_fields ''see (https://a.b/cb?code=2)!'' = [''see'', ''(https://a.b/cb?code=2)!'']"
    by code_simp+
  have u: "url_field ''(https://a.b/cb?code=1)!'' ''('' ''https://a.b/cb?code=1)!'' ''''"
    "url_field ''(https://a.b/cb?code=2)!'' ''('' ''https://a.b/cb?code=2)!'' ''''"
    unfolding url_field_def by code_simp+
  have p: "same_public_url demo_net ''https://a.b/cb?code=1)!'' ''https://a.b/cb?code=2)!''"
    by code_simp
  have "list_all2 (same_public_field demo_net) (str_fields ''see (https://a.b/cb?code=1)!'')
      (str_fields ''see (https://a.b/cb?code=2)!'')"
    unfolding f same_public_field_def using u p by auto
  then show ?thesis by (rule redaction_hides_secrets)
qed

section \<open>What the session key separates\<close>

lemma nat_text_digits: "c \<in> set (nat_text n) \<Longrightarrow> digit_char c"
proof (induction n rule: nat_text.induct)
  case (1 n)
  have d: "digit_char (char_of (48 + k))" if "k < 10" for k :: nat
    using that by (simp add: digit_char_def less_eq_char_def)
  from 1 show ?case
    by (cases "n < 10") (subst (asm) nat_text.simps, auto simp: d)+
qed

lemma int_text_plain: "c \<in> set (int_text i) \<Longrightarrow> c \<noteq> nul \<and> c \<noteq> newline"
  using nat_text_digits [of c] by (auto simp: int_text_def digit_char_def split: if_splits)

text \<open>The text before the first separator and after the last one are determined by the whole.\<close>

lemma prefix_before_sep:
  assumes "a @ x # s = b @ y # t" "\<forall>c \<in> set a. c \<noteq> nul \<and> c \<noteq> newline"
    "\<forall>c \<in> set b. c \<noteq> nul \<and> c \<noteq> newline" "x \<in> {nul, newline}" "y \<in> {nul, newline}"
  shows "a = b \<and> x = y \<and> s = t"
proof -
  let ?P = "\<lambda>c. c \<noteq> nul \<and> c \<noteq> newline"
  have "takeWhile ?P (a @ x # s) = a" "takeWhile ?P (b @ y # t) = b"
    using assms(2-5) by (auto simp: takeWhile_append)
  with assms(1) have "a = b" by simp
  with assms(1) show ?thesis by simp
qed

lemma lower_char_sep: "c \<noteq> nul \<and> c \<noteq> newline \<Longrightarrow> lower_char c \<noteq> nul \<and> lower_char c \<noteq> newline"
proof -
  assume c: "c \<noteq> nul \<and> c \<noteq> newline"
  show ?thesis
  proof (cases "65 \<le> code c \<and> code c \<le> (90 :: nat)")
    case True
    then have n: "97 \<le> code c + 32 \<and> code c + 32 < (256 :: nat)" by simp
    have "code (lower_char c) = code c + (32 :: nat)" using True by (simp add: lower_char_def)
    with n have "code (lower_char c) \<noteq> (code nul :: nat)" "code (lower_char c) \<noteq> (code newline :: nat)" by simp_all
    then show ?thesis by metis
  qed (use c in \<open>auto simp: lower_char_def\<close>)
qed

lemma to_lower_sep:
  "nul \<notin> set p \<Longrightarrow> newline \<notin> set p \<Longrightarrow> \<forall>c \<in> set (to_lower p). c \<noteq> nul \<and> c \<noteq> newline"
proof
  fix c assume p: "nul \<notin> set p" "newline \<notin> set p" and "c \<in> set (to_lower p)"
  then obtain d where d: "d \<in> set p" "c = lower_char d" by (auto simp: to_lower_def)
  from d(1) p have "d \<noteq> nul \<and> d \<noteq> newline" by metis
  then show "c \<noteq> nul \<and> c \<noteq> newline" unfolding d(2) by (rule lower_char_sep)
qed

lemma nat_text_value: "foldl (\<lambda>n c. n * 10 + (code c - 48)) 0 (nat_text n) = n"
  by (induction n rule: nat_text.induct) (subst nat_text.simps, auto)

lemma nat_text_inj: "nat_text m = nat_text n \<Longrightarrow> m = n"
  by (metis nat_text_value)

lemma int_text_inj: "int_text i = int_text j \<Longrightarrow> i = j"
proof -
  assume e: "int_text i = int_text j"
  have minus: "nat_text n \<noteq> CHR ''-'' # t" for n t
    using nat_text_digits [of "CHR ''-''" n] by (auto simp: digit_char_def)
  from e minus minus [symmetric] show "i = j"
    by (auto simp: int_text_def dest!: nat_text_inj split: if_splits)
qed

lemma after_last_sep: "a @ s = b @ t \<Longrightarrow> length s = length t \<Longrightarrow> s = t"
  by simp

text \<open>
  Requests are coalesced only when they are the same login of the same machine: if the keys of
  two requests agree - and SHA-256 has no collision among the texts hashed - then they come from the
  same peer, and either both have a flow identity and exactly the same authorization URL (up to the
  order of its parameters), or neither has one and they have the same URL and callback port. In
  particular a peer cannot reach another peer's session by choosing its flow id, whatever bytes it
  puts there.\<close>

theorem session_key_separates:
  assumes "oauth_session_key nl sha fp1 remote1 rq1 = oauth_session_key nl sha fp2 remote2 rq2"
    and "inj_on sha {session_key_text nl sha fp1 remote1 rq1, session_key_text nl sha fp2 remote2 rq2,
           canonical_request_url nl (rq_url rq1), canonical_request_url nl (rq_url rq2)}"
    and "length (sha (canonical_request_url nl (rq_url rq1))) = length (sha (canonical_request_url nl (rq_url rq2)))"
    and "nul \<notin> set (session_peer nl fp1 remote1)" "newline \<notin> set (session_peer nl fp1 remote1)"
    and "nul \<notin> set (session_peer nl fp2 remote2)" "newline \<notin> set (session_peer nl fp2 remote2)"
  shows "to_lower (session_peer nl fp1 remote1) = to_lower (session_peer nl fp2 remote2) \<and>
    (if session_flow nl sha rq1 = ''''
     then session_flow nl sha rq2 = '''' \<and> rq_callback_port rq1 = rq_callback_port rq2 \<and>
       plain_request_url nl (rq_url rq1) = plain_request_url nl (rq_url rq2)
     else session_flow nl sha rq2 \<noteq> '''' \<and>
       canonical_request_url nl (rq_url rq1) = canonical_request_url nl (rq_url rq2))"
proof -
  let ?k1 = "session_key_text nl sha fp1 remote1 rq1" and ?k2 = "session_key_text nl sha fp2 remote2 rq2"
  let ?p1 = "to_lower (session_peer nl fp1 remote1)" and ?p2 = "to_lower (session_peer nl fp2 remote2)"
  let ?r = "\<lambda>rq. session_flow nl sha rq @ [nul] @
      (if derive_oauth_flow_id nl sha (rq_url rq) = '''' then sanitize_url nl (rq_url rq)
       else derive_oauth_flow_id nl sha (rq_url rq)) @ [nul]"
  let ?q = "\<lambda>rq. int_text (rq_callback_port rq) @ newline # plain_request_url nl (rq_url rq)"
  let ?u = "\<lambda>rq. canonical_request_url nl (rq_url rq)"
  have "sha ?k1 = sha ?k2" using assms(1) by (simp only: oauth_session_key_def)
  then have k: "?k1 = ?k2" by (rule inj_onD [OF assms(2)]) simp_all
  have form: "session_key_text nl sha fp remote rq = to_lower (session_peer nl fp remote) @
      (if session_flow nl sha rq = '''' then newline # ?q rq else nul # (?r rq @ sha (?u rq)))" for fp remote rq
    by (simp add: session_key_text_def request_url_identity_def Let_def)
  have sep: "\<forall>c \<in> set ?p1. c \<noteq> nul \<and> c \<noteq> newline" "\<forall>c \<in> set ?p2. c \<noteq> nul \<and> c \<noteq> newline"
    using assms(4-7) by (simp_all add: to_lower_sep)
  have ne: "nul \<noteq> newline" by simp
  show ?thesis
  proof (cases "session_flow nl sha rq1 = ''''")
    case f1: True
    show ?thesis
    proof (cases "session_flow nl sha rq2 = ''''")
      case True
      from k have "?p1 @ newline # ?q rq1 = ?p2 @ newline # ?q rq2"
        unfolding form using f1 True by simp
      from prefix_before_sep [OF this sep] have e: "?p1 = ?p2" "?q rq1 = ?q rq2" by simp_all
      have "int_text (rq_callback_port rq1) = int_text (rq_callback_port rq2) \<and>
          plain_request_url nl (rq_url rq1) = plain_request_url nl (rq_url rq2)"
      proof -
        have "\<forall>c \<in> set (int_text i). c \<noteq> nul \<and> c \<noteq> newline" for i
          using int_text_plain by metis
        with prefix_before_sep [OF e(2)] show ?thesis by simp
      qed
      with e f1 True int_text_inj show ?thesis by auto
    next
      case False
      from k have "?p1 @ newline # ?q rq1 = ?p2 @ nul # (?r rq2 @ sha (?u rq2))"
        unfolding form using f1 False by simp
      from prefix_before_sep [OF this sep] ne show ?thesis by simp
    qed
  next
    case f1: False
    show ?thesis
    proof (cases "session_flow nl sha rq2 = ''''")
      case True
      from k have "?p1 @ nul # (?r rq1 @ sha (?u rq1)) = ?p2 @ newline # ?q rq2"
        unfolding form using f1 True by simp
      from prefix_before_sep [OF this sep] ne show ?thesis by simp
    next
      case False
      from k have "?p1 @ nul # (?r rq1 @ sha (?u rq1)) = ?p2 @ nul # (?r rq2 @ sha (?u rq2))"
        unfolding form using f1 False by simp
      from prefix_before_sep [OF this sep] have e: "?p1 = ?p2" "?r rq1 @ sha (?u rq1) = ?r rq2 @ sha (?u rq2)"
        by simp_all
      from after_last_sep [OF e(2) assms(3)] have "?u rq1 = ?u rq2"
        by (rule inj_onD [OF assms(2)]) simp_all
      with e f1 False show ?thesis by simp
    qed
  qed
qed

definition demo_sha_text :: "string \<Rightarrow> string" where
  "demo_sha_text x = take 200 (x @ replicate 200 CHR ''0'')"

definition demo_request :: "string \<Rightarrow> int \<Rightarrow> string \<Rightarrow> bridge_request" where
  "demo_request raw port flow = \<lparr>rq_url = raw, rq_callback_port = port, rq_id = ''r1'', rq_flow_id = flow\<rparr>"

lemma demo_key_text:
  "session_key_text demo_net demo_sha_text ''AB'' None (demo_request ''https://a.b/auth?client_id=1'' 8085 ''f'') =
   session_key_text demo_net demo_sha_text ''ab'' None (demo_request '' https://a.b/auth?client_id=1'' 9000 '' f'')"
  by code_simp

theorem session_key_separates_witness:
  "canonical_request_url demo_net ''https://a.b/auth?client_id=1'' = canonical_request_url demo_net '' https://a.b/auth?client_id=1''"
proof -
  let ?r1 = "demo_request ''https://a.b/auth?client_id=1'' 8085 ''f''" and ?r2 = "demo_request '' https://a.b/auth?client_id=1'' 9000 '' f''"
  let ?k = "session_key_text demo_net demo_sha_text ''ab'' None ?r2"
  have k: "oauth_session_key demo_net demo_sha_text ''AB'' None ?r1 = oauth_session_key demo_net demo_sha_text ''ab'' None ?r2"
    by (simp only: oauth_session_key_def demo_key_text)
  have c: "canonical_request_url demo_net (rq_url ?r1) = ''https://a.b/auth?client_id=1''"
    "canonical_request_url demo_net (rq_url ?r2) = ''https://a.b/auth?client_id=1''" by code_simp+
  have "hd (demo_sha_text ?k) = CHR ''a''" "hd (demo_sha_text ''https://a.b/auth?client_id=1'') = CHR ''h''" by code_simp+
  then have "demo_sha_text ?k \<noteq> demo_sha_text ''https://a.b/auth?client_id=1''" by auto
  then have i: "inj_on demo_sha_text {session_key_text demo_net demo_sha_text ''AB'' None ?r1, ?k,
      canonical_request_url demo_net (rq_url ?r1), canonical_request_url demo_net (rq_url ?r2)}"
    unfolding c demo_key_text by auto
  have p: "session_peer demo_net ''AB'' None = ''AB''" "session_peer demo_net ''ab'' None = ''ab''"
    "session_flow demo_net demo_sha_text ?r1 = ''f''" by code_simp+
  have u: "rq_url ?r1 = ''https://a.b/auth?client_id=1''" "rq_url ?r2 = '' https://a.b/auth?client_id=1''" by (simp_all add: demo_request_def)
  from session_key_separates [OF k i] show ?thesis unfolding u
    by (simp add: p c [unfolded u])
qed

end
