(* ===== verification/Staging_Area.thy ===== *)
theory Staging_Area
  imports Staging_Manifest Net_URL
begin

text \<open>
  The directory of partial files (internal/drop/staging.go): which names in it are whose, sweeping what
  is stale, keeping the retained partials within their budget, the activity markers by which receivers
  of several processes keep out of each other's way, and moving a finished partial to its final name.
  A directory is the list of its entries in the order in which it is read; inodes are numbers.
\<close>

section \<open>Names\<close>

definition has_suffix :: "string \<Rightarrow> string \<Rightarrow> bool" where
  "has_suffix s p \<longleftrightarrow> has_prefix (rev s) (rev p)"

definition trim_suffix :: "string \<Rightarrow> string \<Rightarrow> string" where
  "trim_suffix s p = (if has_suffix s p then take (length s - length p) s else s)"

definition trim_prefix :: "string \<Rightarrow> string \<Rightarrow> string" where
  "trim_prefix s p = (if has_prefix s p then drop (length p) s else s)"

text \<open>\<open>strings.Index\<close> and \<open>strings.LastIndex\<close> from the positions of a text.\<close>

definition sub_positions :: "string \<Rightarrow> string \<Rightarrow> nat list" where
  "sub_positions s p = filter (\<lambda>i. has_prefix (drop i s) p) [0..<Suc (length s)]"

definition staging_dir_name :: string where "staging_dir_name = ''.tantu-staging''"
definition staging_activity_suffix :: string where "staging_activity_suffix = ''.active''"
definition meta_suffix :: string where "meta_suffix = ''.meta''"

definition is_partial_name :: "string \<Rightarrow> bool" where
  "is_partial_name name \<longleftrightarrow>
     has_suffix name ''.part'' \<or>
     (let marks = sub_positions name ''.part-''
      in marks \<noteq> [] \<and> 0 < last marks \<and>
         (let suffix = drop (last marks + 6) name in suffix \<noteq> '''' \<and> list_all digit_char suffix))"

definition is_activity_marker_name :: "string \<Rightarrow> bool" where
  "is_activity_marker_name name \<longleftrightarrow>
     has_suffix name staging_activity_suffix \<and> is_partial_name (trim_suffix name staging_activity_suffix)"

definition is_manifest_temp_name :: "string \<Rightarrow> bool" where
  "is_manifest_temp_name name \<longleftrightarrow>
     has_prefix name ''.'' \<and>
     (let base = trim_prefix name ''.''; marks = sub_positions base ''.meta.tmp-''
      in marks \<noteq> [] \<and> 0 < hd marks \<and> is_partial_name (take (hd marks) base))"

text \<open>\<open>stagingArtifactPartPath\<close>, the name of the partial in the same directory; \<open>None\<close> for no artifact.\<close>

definition staging_artifact_part :: "string \<Rightarrow> string option" where
  "staging_artifact_part name =
     (if is_activity_marker_name name then Some (trim_suffix name staging_activity_suffix)
      else if is_manifest_temp_name name then
        (let base = trim_prefix name ''.''; marks = sub_positions base ''.meta.tmp-''
         in if 0 < hd marks then Some (take (hd marks) base) else None)
      else None)"

definition publication_temp_prefix :: string where "publication_temp_prefix = ''.tantu-publish-''"
definition publication_temp_suffix :: string where "publication_temp_suffix = ''.tmp''"

definition lower_hex_char :: "char \<Rightarrow> bool" where
  "lower_hex_char c \<longleftrightarrow> digit_char c \<or> c \<in> set ''abcdef''"

definition is_publication_temp_name :: "string \<Rightarrow> bool" where
  "is_publication_temp_name name \<longleftrightarrow>
     has_prefix name publication_temp_prefix \<and> has_suffix name publication_temp_suffix \<and>
     (let hex_part = trim_suffix (trim_prefix name publication_temp_prefix) publication_temp_suffix
      in length hex_part = 24 \<and> list_all lower_hex_char hex_part)"

section \<open>The directories\<close>

datatype file_kind = RegularKind | LinkKind | DirKind | OtherKind

record dir_entry =
  en_kind :: file_kind
  en_inode :: nat
  en_size :: int
  en_mtime :: go_time
  en_data :: string

type_synonym entries = "(string \<times> dir_entry) list"

text \<open>
  The output directory and the private staging directory in it, if that is a real directory; and whether
  the output directory is itself a real one.
\<close>

record area =
  ar_real :: bool
  ar_path :: string
  ar_out :: entries
  ar_staging :: "entries option"

text \<open>
  What an operation meets: the clock, read once; names that cannot be inspected or removed; whether the
  process lock was taken, the output directory could be read, either directory could be opened once
  more; and the decoder of a staging manifest.
\<close>

record staging_env =
  se_now :: go_time
  se_lstat_fails :: "string \<Rightarrow> bool"
  se_remove_fails :: "string \<Rightarrow> bool"
  se_lock :: bool
  se_read_out :: bool
  se_open_out :: bool
  se_open_staging :: bool
  se_manifest :: "string \<Rightarrow> bool"

datatype lstat_result = NoEntry | LstatFailed | Seen dir_entry

definition lstat_entry :: "staging_env \<Rightarrow> string \<Rightarrow> entries \<Rightarrow> lstat_result" where
  "lstat_entry e name d =
     (if se_lstat_fails e name then LstatFailed
      else (case map_of d name of None \<Rightarrow> NoEntry | Some x \<Rightarrow> Seen x))"

definition remove_entry :: "staging_env \<Rightarrow> string \<Rightarrow> entries \<Rightarrow> entries \<times> bool" where
  "remove_entry e name d =
     (if se_remove_fails e name \<or> map_of d name = None then (d, False) else (AList.delete name d, True))"

definition default_staging_max_age :: int where "default_staging_max_age = 24 * 3600000000000"
definition default_retained_partial_budget :: int where "default_retained_partial_budget = 8 * 1024 * 1024 * 1024"
definition default_retained_partial_count :: int where "default_retained_partial_count = 1024"

text \<open>\<open>stagingPartIsActiveInDir\<close>: a marker that cannot be judged counts.\<close>

definition part_is_active :: "staging_env \<Rightarrow> string \<Rightarrow> entries \<Rightarrow> bool" where
  "part_is_active e name d =
     (case lstat_entry e (name @ staging_activity_suffix) d of
        NoEntry \<Rightarrow> False
      | LstatFailed \<Rightarrow> True
      | Seen x \<Rightarrow> if en_kind x \<noteq> RegularKind then True else se_now e - en_mtime x \<le> default_staging_max_age)"

text \<open>\<open>stagingPartIsActive\<close> opens the directory first, which may fail.\<close>

definition direct_part_is_active :: "staging_env \<Rightarrow> string \<Rightarrow> entries \<Rightarrow> bool" where
  "direct_part_is_active e name d \<longleftrightarrow> \<not> se_open_out e \<or> part_is_active e name d"

definition has_staging_manifest :: "staging_env \<Rightarrow> string \<Rightarrow> entries \<Rightarrow> bool" where
  "has_staging_manifest e name d =
     (case lstat_entry e (name @ meta_suffix) d of
        Seen x \<Rightarrow> en_kind x = RegularKind \<and> se_manifest e (en_data x)
      | _ \<Rightarrow> False)"

definition drop_sidecars :: "staging_env \<Rightarrow> string \<Rightarrow> entries \<Rightarrow> entries" where
  "drop_sidecars e name d =
     fst (remove_entry e (name @ meta_suffix) (fst (remove_entry e (name @ staging_activity_suffix) d)))"

section \<open>Sweeping\<close>

record swept =
  sw_dir :: entries
  sw_removed :: nat
  sw_freed :: int

text \<open>One entry of \<open>removeStale\<close>; \<open>legacy\<close> for the output directory itself.\<close>

definition stale_partial :: "staging_env \<Rightarrow> go_time \<Rightarrow> bool \<Rightarrow> string \<Rightarrow> entries \<Rightarrow> dir_entry option" where
  "stale_partial e cutoff legacy name d =
     (if \<not> is_partial_name name then None
      else if (if legacy then direct_part_is_active e name d else part_is_active e name d) then None
      else if legacy \<and> \<not> has_staging_manifest e name d then None
      else (case lstat_entry e name d of
        Seen x \<Rightarrow>
          if en_kind x \<noteq> RegularKind \<or> \<not> en_mtime x < cutoff then None
          else if (if legacy then direct_part_is_active e name d else part_is_active e name d) then None
          else Some x
      | _ \<Rightarrow> None))"

definition remove_stale_one :: "staging_env \<Rightarrow> go_time \<Rightarrow> bool \<Rightarrow> swept \<Rightarrow> string \<times> dir_entry \<Rightarrow> swept" where
  "remove_stale_one e cutoff legacy s listed =
     (if en_kind (snd listed) = DirKind then s
      else (case stale_partial e cutoff legacy (fst listed) (sw_dir s) of
        None \<Rightarrow> s
      | Some x \<Rightarrow>
          (case remove_entry e (fst listed) (sw_dir s) of
             (d, False) \<Rightarrow> s
           | (d, True) \<Rightarrow>
               \<lparr>sw_dir = drop_sidecars e (fst listed) d, sw_removed = sw_removed s + 1, sw_freed = sw_freed s + en_size x\<rparr>)))"

definition remove_stale :: "staging_env \<Rightarrow> go_time \<Rightarrow> bool \<Rightarrow> entries \<Rightarrow> swept \<Rightarrow> swept" where
  "remove_stale e cutoff legacy listed s = foldl (remove_stale_one e cutoff legacy) s listed"

text \<open>Manifests without a partial.\<close>

definition stale_manifest :: "staging_env \<Rightarrow> go_time \<Rightarrow> string \<Rightarrow> entries \<Rightarrow> bool" where
  "stale_manifest e cutoff name d \<longleftrightarrow>
     has_suffix name meta_suffix \<and>
     (let part = trim_suffix name meta_suffix
      in is_partial_name part \<and> \<not> part_is_active e part d \<and>
         (case lstat_entry e name d of Seen x \<Rightarrow> en_kind x = RegularKind \<and> en_mtime x < cutoff | _ \<Rightarrow> False) \<and>
         lstat_entry e part d = NoEntry)"

definition sweep_manifest_one :: "staging_env \<Rightarrow> go_time \<Rightarrow> swept \<Rightarrow> string \<times> dir_entry \<Rightarrow> swept" where
  "sweep_manifest_one e cutoff s listed =
     (if en_kind (snd listed) \<noteq> DirKind \<and> stale_manifest e cutoff (fst listed) (sw_dir s)
      then s\<lparr>sw_dir := fst (remove_entry e (fst listed) (sw_dir s))\<rparr> else s)"

text \<open>Activity markers and temporary manifests without a partial.\<close>

definition stale_artifact :: "staging_env \<Rightarrow> go_time \<Rightarrow> string \<Rightarrow> entries \<Rightarrow> dir_entry option" where
  "stale_artifact e cutoff name d =
     (case staging_artifact_part name of
        None \<Rightarrow> None
      | Some part \<Rightarrow>
          if lstat_entry e part d \<noteq> NoEntry then None
          else (case lstat_entry e name d of
            Seen x \<Rightarrow> if en_kind x = RegularKind \<and> en_mtime x < cutoff then Some x else None
          | _ \<Rightarrow> None))"

definition sweep_artifact_one :: "staging_env \<Rightarrow> go_time \<Rightarrow> swept \<Rightarrow> string \<times> dir_entry \<Rightarrow> swept" where
  "sweep_artifact_one e cutoff s listed =
     (if en_kind (snd listed) = DirKind then s
      else (case stale_artifact e cutoff (fst listed) (sw_dir s) of
        None \<Rightarrow> s
      | Some x \<Rightarrow>
          (case remove_entry e (fst listed) (sw_dir s) of
             (d, False) \<Rightarrow> s
           | (d, True) \<Rightarrow> s\<lparr>sw_dir := d, sw_removed := sw_removed s + 1, sw_freed := sw_freed s + en_size x\<rparr>)))"

definition sweep_staging :: "staging_env \<Rightarrow> go_time \<Rightarrow> entries \<Rightarrow> swept" where
  "sweep_staging e cutoff d =
     (let s1 = remove_stale e cutoff False d \<lparr>sw_dir = d, sw_removed = 0, sw_freed = 0\<rparr>;
          s2 = foldl (sweep_manifest_one e cutoff) s1 d
      in foldl (sweep_artifact_one e cutoff) s2 d)"

text \<open>\<open>sweepStalePartials\<close>\<close>

definition sweep_locked :: "staging_env \<Rightarrow> int \<Rightarrow> area \<Rightarrow> area \<times> nat \<times> int" where
  "sweep_locked e max_age a =
     (if \<not> ar_real a then (a, 0, 0)
      else
        let age = (if max_age \<le> 0 then default_staging_max_age else max_age);
            cutoff = se_now e - age;
            (staged, n, freed) =
              (case ar_staging a of
                 None \<Rightarrow> (None, 0, 0)
               | Some d \<Rightarrow> (let s = sweep_staging e cutoff d in (Some (sw_dir s), sw_removed s, sw_freed s)));
            s = (if se_read_out e
                 then remove_stale e cutoff True (ar_out a) \<lparr>sw_dir = ar_out a, sw_removed = n, sw_freed = freed\<rparr>
                 else \<lparr>sw_dir = ar_out a, sw_removed = n, sw_freed = freed\<rparr>)
        in (a\<lparr>ar_out := sw_dir s, ar_staging := staged\<rparr>, sw_removed s, sw_freed s))"

text \<open>\<open>SweepStalePartials\<close>, with what it leaves as the last maintenance error (\<open>True\<close>: the lock).\<close>

definition sweep_stale_partials :: "staging_env \<Rightarrow> int \<Rightarrow> area \<Rightarrow> (area \<times> nat \<times> int) \<times> bool" where
  "sweep_stale_partials e max_age a =
     (if \<not> ar_real a then ((a, 0, 0), False)
      else if \<not> se_lock e then ((a, 0, 0), True)
      else (sweep_locked e max_age a, False))"

section \<open>The budget of retained partials\<close>

record candidate =
  ca_name :: string
  ca_entry :: dir_entry
  ca_artifact :: bool
  ca_staging :: bool

definition partial_candidates :: "staging_env \<Rightarrow> entries \<Rightarrow> string \<Rightarrow> candidate list" where
  "partial_candidates e d name =
     (if \<not> is_partial_name name then []
      else if part_is_active e name d then []
      else (case lstat_entry e name d of
        Seen x \<Rightarrow> if en_kind x = RegularKind then [\<lparr>ca_name = name, ca_entry = x, ca_artifact = False, ca_staging = True\<rparr>] else []
      | _ \<Rightarrow> []))"

definition direct_candidates :: "staging_env \<Rightarrow> entries \<Rightarrow> string \<Rightarrow> candidate list" where
  "direct_candidates e d name =
     (if \<not> is_partial_name name then []
      else if direct_part_is_active e name d \<or> \<not> has_staging_manifest e name d then []
      else (case lstat_entry e name d of
        Seen x \<Rightarrow> if en_kind x = RegularKind then [\<lparr>ca_name = name, ca_entry = x, ca_artifact = False, ca_staging = False\<rparr>] else []
      | _ \<Rightarrow> []))"

definition artifact_candidates :: "staging_env \<Rightarrow> entries \<Rightarrow> string \<Rightarrow> candidate list" where
  "artifact_candidates e d name =
     (case staging_artifact_part name of
        None \<Rightarrow> []
      | Some part \<Rightarrow>
          if lstat_entry e part d \<noteq> NoEntry then []
          else (case lstat_entry e name d of
            Seen x \<Rightarrow>
              if en_kind x = RegularKind \<and> \<not> se_now e - en_mtime x \<le> default_staging_max_age
              then [\<lparr>ca_name = name, ca_entry = x, ca_artifact = True, ca_staging = True\<rparr>] else []
          | _ \<Rightarrow> []))"

text \<open>\<open>collectPartialCandidates\<close>; the total is the sum of their sizes.\<close>

definition collect_partial_candidates :: "staging_env \<Rightarrow> area \<Rightarrow> candidate list" where
  "collect_partial_candidates e a =
     (case ar_staging a of
        None \<Rightarrow> []
      | Some d \<Rightarrow> concat (map (\<lambda>(name, _). partial_candidates e d name @ artifact_candidates e d name) d)) @
     (if se_read_out e
      then concat (map (\<lambda>(name, _). if name = staging_dir_name then [] else direct_candidates e (ar_out a) name) (ar_out a))
      else [])"

definition candidate_total :: "candidate list \<Rightarrow> int" where
  "candidate_total cs = sum_list (map (en_size \<circ> ca_entry) cs)"

definition candidate_path :: "area \<Rightarrow> candidate \<Rightarrow> string" where
  "candidate_path a c =
     ar_path a @ ''/'' @ (if ca_staging c then staging_dir_name @ ''/'' else '''') @ ca_name c"

definition candidate_key :: "area \<Rightarrow> candidate \<Rightarrow> go_time \<times> string" where
  "candidate_key a c = (en_mtime (ca_entry c), candidate_path a c)"

record trimming =
  tr_area :: area
  tr_total :: int
  tr_remaining :: int
  tr_removed :: "candidate list"

definition within_budget :: "int \<Rightarrow> trimming \<Rightarrow> bool" where
  "within_budget limit t \<longleftrightarrow> tr_total t \<le> limit \<and> tr_remaining t \<le> default_retained_partial_count"

definition candidate_dir :: "area \<Rightarrow> candidate \<Rightarrow> entries" where
  "candidate_dir a c = (if ca_staging c then (case ar_staging a of None \<Rightarrow> [] | Some d \<Rightarrow> d) else ar_out a)"

definition put_dir :: "candidate \<Rightarrow> entries \<Rightarrow> area \<Rightarrow> area" where
  "put_dir c d a = (if ca_staging c then a\<lparr>ar_staging := Some d\<rparr> else a\<lparr>ar_out := d\<rparr>)"

definition candidate_active :: "staging_env \<Rightarrow> area \<Rightarrow> candidate \<Rightarrow> bool" where
  "candidate_active e a c =
     (if ca_staging c then \<not> se_open_staging e \<or> part_is_active e (ca_name c) (candidate_dir a c)
      else direct_part_is_active e (ca_name c) (candidate_dir a c))"

text \<open>One round of the loop: once the budget is met nothing changes any more.\<close>

definition trim_one :: "staging_env \<Rightarrow> int \<Rightarrow> string list \<Rightarrow> trimming \<Rightarrow> candidate \<Rightarrow> trimming" where
  "trim_one e limit protected t c =
     (if within_budget limit t then t
      else if candidate_path (tr_area t) c \<in> set protected then t
      else if candidate_active e (tr_area t) c then t
      else (case remove_entry e (ca_name c) (candidate_dir (tr_area t) c) of
        (d, False) \<Rightarrow> t
      | (d, True) \<Rightarrow>
          \<lparr>tr_area = put_dir c (if ca_artifact c then d else drop_sidecars e (ca_name c) d) (tr_area t),
           tr_total = tr_total t - en_size (ca_entry c), tr_remaining = tr_remaining t - 1,
           tr_removed = tr_removed t @ [c]\<rparr>))"

definition enforce_budget_locked :: "staging_env \<Rightarrow> int \<Rightarrow> string list \<Rightarrow> area \<Rightarrow> trimming" where
  "enforce_budget_locked e limit0 protected a =
     (let limit = (if limit0 \<le> 0 then default_retained_partial_budget else limit0);
          cs = collect_partial_candidates e a;
          t = \<lparr>tr_area = a, tr_total = candidate_total cs, tr_remaining = int (length cs), tr_removed = []\<rparr>
      in foldl (trim_one e limit protected) t (sort_key (candidate_key a) cs))"

text \<open>
  \<open>EnforcePartialBudget\<close>: the area, the candidates removed, and the last maintenance error if it changes
  it. The protected paths are absolute, as those of the area.
\<close>

definition enforce_partial_budget ::
  "staging_env \<Rightarrow> int \<Rightarrow> string list \<Rightarrow> area \<Rightarrow> (area \<times> candidate list) \<times> bool option" where
  "enforce_partial_budget e limit protected a =
     (if \<not> ar_real a then ((a, []), None)
      else if \<not> se_lock e then ((a, []), Some True)
      else (let t = enforce_budget_locked e limit protected a in ((tr_area t, tr_removed t), Some False)))"


section \<open>Which names are disjoint\<close>

lemma part_dir_part_name: "has_suffix (x @ ''.part'') ''.part''"
  by (simp add: has_suffix_def has_prefix_def)

lemma partial_last:
  assumes "is_partial_name n"
  shows "n \<noteq> [] \<and> (last n = CHR ''t'' \<or> digit_char (last n))"
proof (cases "has_suffix n ''.part''")
  case True
  then have "take (length ''.part'') (rev n) = ''trap.''" by (simp add: has_suffix_def has_prefix_def)
  then have "rev n \<noteq> [] \<and> hd (rev n) = CHR ''t''" by (cases "rev n") auto
  then show ?thesis by (simp add: hd_rev)
next
  case False
  let ?k = "last (sub_positions n ''.part-'') + 6"
  from assms False have s: "drop ?k n \<noteq> ''''" "list_all digit_char (drop ?k n)"
    by (simp_all only: is_partial_name_def Let_def simp_thms)
  then have "?k < length n" by (simp add: not_le [symmetric])
  then have "last (drop ?k n) = last n" "n \<noteq> []" by auto
  moreover have "digit_char (last (drop ?k n))"
    using s by (metis list_all_iff last_in_set)
  ultimately show ?thesis by simp
qed

lemma sidecar_not_partial [simp]: "\<not> is_partial_name (x @ ''.active'')" "\<not> is_partial_name (x @ ''.meta'')"
  by (auto dest!: partial_last simp: digit_char_def)

lemma partial_not_sidecar:
  assumes "is_partial_name n"
  shows "n \<noteq> x @ ''.active''" "n \<noteq> x @ ''.meta''"
  using assms by auto

lemma sidecars_differ [simp]: "x @ ''.active'' \<noteq> y @ ''.meta''" "y @ ''.meta'' \<noteq> x @ ''.active''"
proof -
  have "last (x @ ''.active'') \<noteq> last (y @ ''.meta'')" by simp
  then show "x @ ''.active'' \<noteq> y @ ''.meta''" by metis
  then show "y @ ''.meta'' \<noteq> x @ ''.active''" by metis
qed

lemma has_suffix_append [simp]: "has_suffix (x @ p) p"
  by (simp add: has_suffix_def has_prefix_def)

lemma trim_suffix_append [simp]: "trim_suffix (x @ p) p = x"
  by (simp add: trim_suffix_def)

lemma has_suffixE:
  assumes "has_suffix s p"
  obtains x where "s = x @ p"
proof -
  from assms have "take (length p) (rev s) = rev p" by (simp add: has_suffix_def has_prefix_def)
  then have "rev s = rev p @ drop (length p) (rev s)" by (metis append_take_drop_id)
  then have "s = rev (drop (length p) (rev s)) @ p" by (metis rev_append rev_rev_ident)
  then show ?thesis by (rule that)
qed

text \<open>What a marker, a manifest or a partial is taken for, if its name does not begin with a dot.\<close>

lemma artifact_of_partial:
  assumes "is_partial_name p" "\<not> has_prefix p ''.''"
  shows "staging_artifact_part p = None" "staging_artifact_part (p @ ''.active'') = Some p"
    "staging_artifact_part (p @ ''.meta'') = None"
proof -
  have dot: "\<not> has_prefix (p @ ''.meta'') ''.''"
    using assms partial_last [OF assms(1)] by (cases p) (auto simp: has_prefix_def)
  have "\<not> has_suffix p ''.active''" using partial_not_sidecar(1) [OF assms(1)] by (auto elim: has_suffixE)
  with assms show "staging_artifact_part p = None"
    by (simp add: staging_artifact_part_def is_activity_marker_name_def is_manifest_temp_name_def staging_activity_suffix_def)
  from assms show "staging_artifact_part (p @ ''.active'') = Some p"
    by (simp add: staging_artifact_part_def is_activity_marker_name_def staging_activity_suffix_def)
  have "\<not> has_suffix (p @ ''.meta'') ''.active''" by (auto elim!: has_suffixE)
  with dot show "staging_artifact_part (p @ ''.meta'') = None"
    by (simp add: staging_artifact_part_def is_activity_marker_name_def is_manifest_temp_name_def staging_activity_suffix_def)
qed

lemma artifact_marker_part:
  assumes "staging_artifact_part n = Some p" "has_suffix n ''.active''" "\<not> has_prefix n ''.''"
  shows "n = p @ ''.active''"
  using assms by (auto simp: staging_artifact_part_def is_activity_marker_name_def is_manifest_temp_name_def
      staging_activity_suffix_def elim!: has_suffixE split: if_splits)

section \<open>What maintenance takes away\<close>

lemma remove_entry_lookup:
  "remove_entry e n d = (d', r) \<Longrightarrow>
     map_of d' m = (if r \<and> m = n then None else map_of d m)"
  by (auto simp: remove_entry_def AList.delete_conv' split: if_splits)

lemma remove_entry_distinct: "keys_distinct d \<Longrightarrow> keys_distinct (fst (remove_entry e n d))"
  by (simp add: remove_entry_def AList.distinct_delete)

definition only_loses :: "entries \<Rightarrow> entries \<Rightarrow> string set \<Rightarrow> bool" where
  "only_loses d d' N \<longleftrightarrow> (\<forall>m. map_of d' m = map_of d m \<or> map_of d' m = None \<and> m \<in> N)"

lemma only_loses_refl [simp]: "only_loses d d N"
  by (simp add: only_loses_def)

lemma only_loses_trans: "only_loses d1 d2 M \<Longrightarrow> only_loses d2 d3 N \<Longrightarrow> M \<subseteq> K \<Longrightarrow> N \<subseteq> K \<Longrightarrow> only_loses d1 d3 K"
  unfolding only_loses_def by (metis subset_iff)

lemma only_losesD: "only_loses d d' N \<Longrightarrow> m \<notin> N \<Longrightarrow> map_of d' m = map_of d m"
  unfolding only_loses_def by blast

lemma remove_entry_loses: "only_loses d (fst (remove_entry e n d)) {n}"
  by (auto simp: only_loses_def remove_entry_def AList.delete_conv')

lemma drop_sidecars_loses: "only_loses d (drop_sidecars e n d) {n @ ''.active'', n @ ''.meta''}"
  unfolding drop_sidecars_def staging_activity_suffix_def meta_suffix_def
  by (rule only_loses_trans [OF remove_entry_loses remove_entry_loses]) auto

definition own_names :: "string \<Rightarrow> string set" where
  "own_names n = {n, n @ ''.active'', n @ ''.meta''}"

lemma own_names_disjoint:
  "is_partial_name p \<Longrightarrow> is_partial_name q \<Longrightarrow> p \<noteq> q \<Longrightarrow> own_names p \<inter> own_names q = {}"
  by (auto simp: own_names_def dest: partial_not_sidecar)

lemma remove_stale_one_cases:
  "sw_dir (remove_stale_one e cutoff legacy s l) = sw_dir s \<or>
   (\<exists>x. stale_partial e cutoff legacy (fst l) (sw_dir s) = Some x \<and>
        only_loses (sw_dir s) (sw_dir (remove_stale_one e cutoff legacy s l)) (own_names (fst l)))"
proof (cases "stale_partial e cutoff legacy (fst l) (sw_dir s)")
  case None
  then show ?thesis by (simp add: remove_stale_one_def)
next
  case (Some x)
  obtain d r where re: "remove_entry e (fst l) (sw_dir s) = (d, r)" by force
  have "only_loses (sw_dir s) (drop_sidecars e (fst l) d) (own_names (fst l))"
  proof (rule only_loses_trans)
    show "only_loses (sw_dir s) d {fst l}" using remove_entry_loses [of "sw_dir s" e "fst l"] by (simp add: re)
    show "only_loses d (drop_sidecars e (fst l) d) {fst l @ ''.active'', fst l @ ''.meta''}" by (rule drop_sidecars_loses)
  qed (auto simp: own_names_def)
  then show ?thesis using Some re by (cases r) (simp_all add: remove_stale_one_def)
qed


section \<open>Live transfers survive maintenance\<close>

definition live_marker :: "go_time \<Rightarrow> string \<Rightarrow> entries \<Rightarrow> bool" where
  "live_marker now p d =
     (case map_of d (p @ ''.active'') of
        None \<Rightarrow> False
      | Some x \<Rightarrow> en_kind x = RegularKind \<and> now - en_mtime x \<le> default_staging_max_age)"

definition spares :: "string \<Rightarrow> entries \<Rightarrow> entries \<Rightarrow> bool" where
  "spares p d d' \<longleftrightarrow> (\<forall>n \<in> own_names p. map_of d' n = map_of d n)"

lemma spares_refl [simp]: "spares p d d"
  by (simp add: spares_def)

lemma spares_trans: "spares p d1 d2 \<Longrightarrow> spares p d2 d3 \<Longrightarrow> spares p d1 d3"
  by (simp add: spares_def)

lemma spares_live: "spares p d d' \<Longrightarrow> live_marker now p d \<Longrightarrow> live_marker now p d'"
  by (simp add: spares_def own_names_def live_marker_def)

lemma loses_spares: "only_loses d d' N \<Longrightarrow> N \<inter> own_names p = {} \<Longrightarrow> spares p d d'"
  unfolding spares_def by (blast dest: only_losesD)

lemma live_is_active: "live_marker (se_now e) p d \<Longrightarrow> part_is_active e p d"
  by (auto simp: live_marker_def part_is_active_def lstat_entry_def staging_activity_suffix_def split: option.splits)

lemma remove_stale_one_spares:
  assumes "is_partial_name p" "live_marker (se_now e) p (sw_dir s)"
  shows "spares p (sw_dir s) (sw_dir (remove_stale_one e cutoff legacy s l))"
  using remove_stale_one_cases [of e cutoff legacy s l]
proof
  assume "\<exists>x. stale_partial e cutoff legacy (fst l) (sw_dir s) = Some x \<and>
        only_loses (sw_dir s) (sw_dir (remove_stale_one e cutoff legacy s l)) (own_names (fst l))"
  then obtain x where x: "stale_partial e cutoff legacy (fst l) (sw_dir s) = Some x"
    and l: "only_loses (sw_dir s) (sw_dir (remove_stale_one e cutoff legacy s l)) (own_names (fst l))" by blast
  from x have "is_partial_name (fst l)" "\<not> part_is_active e (fst l) (sw_dir s)"
    by (auto simp: stale_partial_def direct_part_is_active_def split: if_splits)
  with assms live_is_active [of e p "sw_dir s"] have "own_names (fst l) \<inter> own_names p = {}"
    by (metis own_names_disjoint)
  with l show ?thesis by (rule loses_spares)
qed simp

lemma sweep_manifest_one_spares:
  assumes "is_partial_name p" "live_marker (se_now e) p (sw_dir s)"
  shows "spares p (sw_dir s) (sw_dir (sweep_manifest_one e cutoff s l))"
proof (cases "stale_manifest e cutoff (fst l) (sw_dir s)")
  case True
  then obtain part where part: "fst l = part @ ''.meta''" "is_partial_name part" "\<not> part_is_active e part (sw_dir s)"
    by (auto simp: stale_manifest_def Let_def meta_suffix_def elim!: has_suffixE)
  with assms live_is_active [of e p "sw_dir s"] have "part \<noteq> p" by blast
  then have "{fst l} \<inter> own_names p = {}"
    using part partial_not_sidecar [OF assms(1)] by (auto simp: own_names_def)
  then show ?thesis using loses_spares [OF remove_entry_loses] by (simp add: sweep_manifest_one_def)
qed (simp add: sweep_manifest_one_def)

lemma stale_artifact_foreign:
  assumes "is_partial_name p" "\<not> has_prefix p ''.''" "live_marker now p d" "cutoff \<le> now - default_staging_max_age"
    "stale_artifact e cutoff n d = Some x"
  shows "{n} \<inter> own_names p = {}"
  using assms artifact_of_partial [OF assms(1,2)]
  by (auto simp: own_names_def stale_artifact_def live_marker_def lstat_entry_def split: option.splits if_splits lstat_result.splits)

lemma sweep_artifact_one_spares:
  assumes "is_partial_name p" "\<not> has_prefix p ''.''" "live_marker (se_now e) p (sw_dir s)"
    "cutoff \<le> se_now e - default_staging_max_age"
  shows "spares p (sw_dir s) (sw_dir (sweep_artifact_one e cutoff s l))"
proof (cases "stale_artifact e cutoff (fst l) (sw_dir s)")
  case (Some x)
  have d: "{fst l} \<inter> own_names p = {}" by (rule stale_artifact_foreign [OF assms Some])
  obtain d r where re: "remove_entry e (fst l) (sw_dir s) = (d, r)" by force
  have "spares p (sw_dir s) d" using loses_spares [OF remove_entry_loses [of "sw_dir s" e "fst l"] d] by (simp add: re)
  then show ?thesis using Some re by (cases r) (simp_all add: sweep_artifact_one_def)
qed (simp add: sweep_artifact_one_def)

lemma spares_fold:
  assumes "\<And>s l. live_marker now p (sw_dir s) \<Longrightarrow> spares p (sw_dir s) (sw_dir (f s l))" "live_marker now p (sw_dir s)"
  shows "spares p (sw_dir s) (sw_dir (foldl f s ls))"
  using assms(2)
proof (induction ls arbitrary: s)
  case (Cons l ls)
  from Cons.prems have "spares p (sw_dir s) (sw_dir (f s l))" by (rule assms(1))
  then show ?case using Cons.IH [of "f s l"] Cons.prems by (auto intro: spares_trans spares_live)
qed simp

lemma sweep_staging_spares:
  assumes p: "is_partial_name p" "\<not> has_prefix p ''.''" and live: "live_marker (se_now e) p d"
    and c: "cutoff \<le> se_now e - default_staging_max_age"
  shows "spares p d (sw_dir (sweep_staging e cutoff d))"
proof -
  define s0 where "s0 = \<lparr>sw_dir = d, sw_removed = 0, sw_freed = 0\<rparr>"
  define s1 where "s1 = remove_stale e cutoff False d s0"
  define s2 where "s2 = foldl (sweep_manifest_one e cutoff) s1 d"
  have a: "spares p (sw_dir s0) (sw_dir s1)" unfolding s1_def remove_stale_def
    using live remove_stale_one_spares [OF p(1)] by (intro spares_fold [where now = "se_now e"]) (simp_all add: s0_def)
  then have l1: "live_marker (se_now e) p (sw_dir s1)" using live by (auto intro: spares_live simp: s0_def)
  have b: "spares p (sw_dir s1) (sw_dir s2)" unfolding s2_def
    using l1 sweep_manifest_one_spares [OF p(1)] by (intro spares_fold [where now = "se_now e"])
  with l1 have l2: "live_marker (se_now e) p (sw_dir s2)" by (auto intro: spares_live)
  have "spares p (sw_dir s2) (sw_dir (foldl (sweep_artifact_one e cutoff) s2 d))"
    using l2 sweep_artifact_one_spares [OF p _ c] by (intro spares_fold [where now = "se_now e"])
  with a b have "spares p (sw_dir s0) (sw_dir (foldl (sweep_artifact_one e cutoff) s2 d))" by (blast intro: spares_trans)
  then show ?thesis by (simp add: sweep_staging_def Let_def s0_def s1_def s2_def)
qed

definition staging_of :: "area \<Rightarrow> entries" where
  "staging_of a = (case ar_staging a of None \<Rightarrow> [] | Some d \<Rightarrow> d)"

lemma sweep_locked_spares:
  assumes "is_partial_name p" "\<not> has_prefix p ''.''" "live_marker (se_now e) p (staging_of a)"
    "max_age \<le> 0 \<or> default_staging_max_age \<le> max_age"
  shows "spares p (staging_of a) (staging_of (fst (sweep_locked e max_age a)))"
proof (cases "ar_staging a")
  case None
  then show ?thesis by (simp add: sweep_locked_def staging_of_def Let_def)
next
  case (Some d)
  have "spares p d (sw_dir (sweep_staging e (se_now e - (if max_age \<le> 0 then default_staging_max_age else max_age)) d))"
    using assms Some by (intro sweep_staging_spares) (auto simp: staging_of_def)
  then show ?thesis using Some by (simp add: sweep_locked_def staging_of_def Let_def)
qed

text \<open>What the removal of a candidate of the budget takes away.\<close>

definition candidate_names :: "candidate \<Rightarrow> string set" where
  "candidate_names c = (if ca_artifact c then {ca_name c} else own_names (ca_name c))"

lemma candidate_foreign:
  assumes "is_partial_name p" "\<not> has_prefix p ''.''" "live_marker (se_now e) p (staging_of a)"
    "c \<in> set (collect_partial_candidates e a)" "ca_staging c"
  shows "candidate_names c \<inter> own_names p = {}"
proof -
  from assms(4,5) have "\<exists>d n x. ar_staging a = Some d \<and> (n, x) \<in> set d \<and>
      (c \<in> set (partial_candidates e d n) \<or> c \<in> set (artifact_candidates e d n))"
    by (cases "ar_staging a")
      (auto simp: collect_partial_candidates_def direct_candidates_def split: if_splits lstat_result.splits)
  then obtain d n x where d: "ar_staging a = Some d" "(n, x) \<in> set d"
    and c: "c \<in> set (partial_candidates e d n) \<or> c \<in> set (artifact_candidates e d n)"
    by blast
  have live: "live_marker (se_now e) p d" using assms(3) d by (simp add: staging_of_def)
  from c show ?thesis
  proof
    assume "c \<in> set (partial_candidates e d n)"
    then have "is_partial_name n" "\<not> part_is_active e n d" "ca_name c = n" "\<not> ca_artifact c"
      by (auto simp: partial_candidates_def split: if_splits lstat_result.splits)
    then show ?thesis using live_is_active [OF live] own_names_disjoint [of n p] assms(1) by (auto simp: candidate_names_def)
  next
    assume "c \<in> set (artifact_candidates e d n)"
    then show ?thesis using live assms(1) artifact_of_partial [OF assms(1,2)]
      by (auto simp: artifact_candidates_def candidate_names_def own_names_def live_marker_def lstat_entry_def
          split: option.splits if_splits lstat_result.splits)
  qed
qed

lemma trim_one_loses:
  "only_loses (candidate_dir (tr_area t) c) (candidate_dir (tr_area (trim_one e limit prot t c)) c) (candidate_names c)"
proof -
  obtain d r where re: "remove_entry e (ca_name c) (candidate_dir (tr_area t) c) = (d, r)" by force
  have l: "only_loses (candidate_dir (tr_area t) c) d {ca_name c}"
    using remove_entry_loses [of "candidate_dir (tr_area t) c" e "ca_name c"] by (simp add: re)
  have "only_loses (candidate_dir (tr_area t) c) (if ca_artifact c then d else drop_sidecars e (ca_name c) d) (candidate_names c)"
    using l only_loses_trans [OF l drop_sidecars_loses [of d e "ca_name c"], of "own_names (ca_name c)"]
    by (auto simp: candidate_names_def own_names_def)
  then show ?thesis using re
    by (cases r) (auto simp: trim_one_def candidate_dir_def put_dir_def)
qed

lemma trim_one_other:
  "candidate_dir (tr_area (trim_one e limit prot t c)) c' = candidate_dir (tr_area t) c'" if "ca_staging c \<noteq> ca_staging c'"
  using that by (auto simp: trim_one_def candidate_dir_def put_dir_def split: prod.splits bool.splits)

lemma staging_of_candidate: "staging_of a = candidate_dir a \<lparr>ca_name = n, ca_entry = x, ca_artifact = b, ca_staging = True\<rparr>"
  by (simp add: staging_of_def candidate_dir_def)

lemma trim_one_spares:
  assumes "ca_staging c \<Longrightarrow> candidate_names c \<inter> own_names p = {}"
  shows "spares p (staging_of (tr_area t)) (staging_of (tr_area (trim_one e limit prot t c)))"
proof (cases "ca_staging c")
  case True
  then have "staging_of b = candidate_dir b c" for b by (simp add: staging_of_def candidate_dir_def)
  then show ?thesis using loses_spares [OF trim_one_loses assms [OF True]] by simp
next
  case False
  then show ?thesis by (simp add: staging_of_candidate [of _ "[]" undefined False] trim_one_other)
qed

lemma trim_fold_spares:
  assumes "\<forall>c \<in> set cs. ca_staging c \<longrightarrow> candidate_names c \<inter> own_names p = {}"
  shows "spares p (staging_of (tr_area t)) (staging_of (tr_area (foldl (trim_one e limit prot) t cs)))"
  using assms
proof (induction cs arbitrary: t)
  case (Cons c cs)
  have "spares p (staging_of (tr_area t)) (staging_of (tr_area (trim_one e limit prot t c)))"
    using Cons.prems by (intro trim_one_spares) simp
  then show ?case using Cons by (auto intro: spares_trans)
qed simp

lemma enforce_spares:
  assumes "is_partial_name p" "\<not> has_prefix p ''.''" "live_marker (se_now e) p (staging_of a)"
  shows "spares p (staging_of a) (staging_of (fst (fst (enforce_partial_budget e limit prot a))))"
  using trim_fold_spares [where t = "\<lparr>tr_area = a, tr_total = n, tr_remaining = m, tr_removed = []\<rparr>" for n m]
    candidate_foreign [OF assms]
  by (simp add: enforce_partial_budget_def enforce_budget_locked_def Let_def)


datatype maintenance = Sweep staging_env int | Budget staging_env int "string list"

fun maintain :: "area \<Rightarrow> maintenance \<Rightarrow> area" where
  "maintain a (Sweep e max_age) = fst (fst (sweep_stale_partials e max_age a))"
| "maintain a (Budget e limit prot) = fst (fst (enforce_partial_budget e limit prot a))"

fun maintenance_env :: "maintenance \<Rightarrow> staging_env" where
  "maintenance_env (Sweep e max_age) = e"
| "maintenance_env (Budget e limit prot) = e"

text \<open>Sweeps remove nothing that is younger than a day; the program sweeps with exactly that age.\<close>

fun patient :: "maintenance \<Rightarrow> bool" where
  "patient (Sweep e max_age) \<longleftrightarrow> max_age \<le> 0 \<or> default_staging_max_age \<le> max_age"
| "patient (Budget e limit prot) \<longleftrightarrow> True"

lemma maintain_spares:
  assumes "is_partial_name p" "\<not> has_prefix p ''.''" "live_marker (se_now (maintenance_env m)) p (staging_of a)" "patient m"
  shows "spares p (staging_of a) (staging_of (maintain a m))"
proof (cases m)
  case (Sweep e max_age)
  then show ?thesis using assms sweep_locked_spares [of p e a max_age]
    by (simp add: sweep_stale_partials_def)
next
  case (Budget e limit prot)
  then show ?thesis using assms enforce_spares [of p e a limit prot] by simp
qed

definition marker_deadline :: "string \<Rightarrow> entries \<Rightarrow> go_time" where
  "marker_deadline p d =
     (case map_of d (p @ ''.active'') of
        Some x \<Rightarrow> if en_kind x = RegularKind then en_mtime x + default_staging_max_age else 0
      | None \<Rightarrow> 0)"

lemma live_until: "map_of d (p @ ''.active'') = Some x \<Longrightarrow> en_kind x = RegularKind \<Longrightarrow>
    live_marker now p d \<longleftrightarrow> now \<le> en_mtime x + default_staging_max_age"
  by (auto simp: live_marker_def)

definition marker_spared :: "string \<Rightarrow> entries \<Rightarrow> dir_entry \<Rightarrow> area \<Rightarrow> bool" where
  "marker_spared p d x a \<longleftrightarrow> spares p d (staging_of a) \<and> map_of d (p @ ''.active'') = Some x \<and> en_kind x = RegularKind \<and>
     is_partial_name p \<and> \<not> has_prefix p ''.''"

interpretation live_transfer: guarded_stepper maintain
  "\<lambda>m. patient m \<and> se_now (maintenance_env m) \<le> en_mtime x + default_staging_max_age" "marker_spared p d x" for p d x
proof
  fix a m
  assume a: "marker_spared p d x a"
    and m: "patient m \<and> se_now (maintenance_env m) \<le> en_mtime x + default_staging_max_age"
  from a have "map_of (staging_of a) (p @ ''.active'') = Some x"
    by (simp add: marker_spared_def spares_def own_names_def)
  with a m have "live_marker (se_now (maintenance_env m)) p (staging_of a)"
    by (simp add: live_until marker_spared_def)
  with a m have "spares p (staging_of a) (staging_of (maintain a m))"
    by (intro maintain_spares) (auto simp: marker_spared_def)
  with a show "marker_spared p d x (maintain a m)" by (auto simp: marker_spared_def intro: spares_trans)
qed

section \<open>Files of the user survive maintenance\<close>

text \<open>A file of the output directory that no valid manifest next to it declares to be a partial.\<close>

definition users_file :: "(string \<Rightarrow> bool) \<Rightarrow> string \<Rightarrow> entries \<Rightarrow> bool" where
  "users_file decodes n d \<longleftrightarrow>
     \<not> has_suffix n ''.active'' \<and> \<not> has_suffix n ''.meta'' \<and>
     (is_partial_name n \<longrightarrow>
        (case map_of d (n @ ''.meta'') of None \<Rightarrow> True | Some x \<Rightarrow> \<not> (en_kind x = RegularKind \<and> decodes (en_data x))))"

lemma users_file_mono:
  assumes "users_file decodes n d" "only_loses d d' N"
  shows "users_file decodes n d'"
proof -
  have "map_of d' (n @ ''.meta'') = map_of d (n @ ''.meta'') \<or> map_of d' (n @ ''.meta'') = None"
    using assms(2) by (auto simp: only_loses_def)
  with assms(1) show ?thesis by (auto simp: users_file_def)
qed

lemma users_file_unmarked:
  "users_file (se_manifest e) n d \<Longrightarrow> is_partial_name n \<Longrightarrow> \<not> has_staging_manifest e n d"
  by (auto simp: users_file_def has_staging_manifest_def lstat_entry_def meta_suffix_def split: option.splits)

lemma users_file_names:
  "users_file decodes n d \<Longrightarrow> n \<in> own_names q \<Longrightarrow> n = q"
  by (auto simp: users_file_def own_names_def)

definition leaves_file :: "(string \<Rightarrow> bool) \<Rightarrow> string \<Rightarrow> entries \<Rightarrow> entries \<Rightarrow> bool" where
  "leaves_file decodes n d d' \<longleftrightarrow> map_of d' n = map_of d n \<and> users_file decodes n d'"

lemma leaves_file_trans: "leaves_file f n d1 d2 \<Longrightarrow> leaves_file f n d2 d3 \<Longrightarrow> leaves_file f n d1 d3"
  by (simp add: leaves_file_def)

lemma loses_leaves: "users_file f n d \<Longrightarrow> only_loses d d' N \<Longrightarrow> n \<notin> N \<Longrightarrow> leaves_file f n d d'"
  by (auto simp: leaves_file_def users_file_mono dest: only_losesD)

lemma remove_stale_one_leaves:
  assumes "users_file (se_manifest e) n (sw_dir s)"
  shows "leaves_file (se_manifest e) n (sw_dir s) (sw_dir (remove_stale_one e cutoff True s l))"
  using remove_stale_one_cases [of e cutoff True s l]
proof
  assume "\<exists>x. stale_partial e cutoff True (fst l) (sw_dir s) = Some x \<and>
        only_loses (sw_dir s) (sw_dir (remove_stale_one e cutoff True s l)) (own_names (fst l))"
  then obtain x where x: "stale_partial e cutoff True (fst l) (sw_dir s) = Some x"
    and l: "only_loses (sw_dir s) (sw_dir (remove_stale_one e cutoff True s l)) (own_names (fst l))" by blast
  from x have "is_partial_name (fst l)" "has_staging_manifest e (fst l) (sw_dir s)"
    by (auto simp: stale_partial_def split: if_splits)
  with assms have "n \<notin> own_names (fst l)" using users_file_names users_file_unmarked by blast
  with assms l show ?thesis by (rule loses_leaves)
qed (use assms in \<open>simp add: leaves_file_def\<close>)

lemma remove_stale_leaves:
  assumes "users_file (se_manifest e) n (sw_dir s)"
  shows "leaves_file (se_manifest e) n (sw_dir s) (sw_dir (remove_stale e cutoff True ls s))"
  unfolding remove_stale_def using assms
proof (induction ls arbitrary: s)
  case Nil
  then show ?case by (simp add: leaves_file_def)
next
  case (Cons l ls)
  have one: "leaves_file (se_manifest e) n (sw_dir s) (sw_dir (remove_stale_one e cutoff True s l))"
    by (rule remove_stale_one_leaves [OF Cons.prems])
  then have "users_file (se_manifest e) n (sw_dir (remove_stale_one e cutoff True s l))" by (simp add: leaves_file_def)
  from Cons.IH [OF this] one show ?case by (simp add: leaves_file_trans)
qed

lemma sweep_leaves:
  assumes "users_file (se_manifest e) n (ar_out a)"
  shows "leaves_file (se_manifest e) n (ar_out a) (ar_out (fst (sweep_locked e max_age a)))"
  using assms remove_stale_leaves
  by (auto simp: sweep_locked_def Let_def leaves_file_def split: option.splits prod.splits)

lemma direct_candidate_names:
  assumes "users_file (se_manifest e) n (ar_out a)" "c \<in> set (collect_partial_candidates e a)" "\<not> ca_staging c"
  shows "n \<notin> candidate_names c"
proof -
  from assms(2,3) obtain m where "c \<in> set (direct_candidates e (ar_out a) m)"
    by (cases "ar_staging a")
      (auto simp: collect_partial_candidates_def partial_candidates_def artifact_candidates_def
        split: if_splits lstat_result.splits option.splits)
  then have "is_partial_name m" "has_staging_manifest e m (ar_out a)" "ca_name c = m" "\<not> ca_artifact c"
    by (auto simp: direct_candidates_def split: if_splits lstat_result.splits)
  moreover from this assms(1) have "n \<noteq> m" using users_file_unmarked by blast
  ultimately show ?thesis using users_file_names [OF assms(1)] by (auto simp: candidate_names_def)
qed

lemma trim_one_leaves:
  assumes "users_file f n (ar_out (tr_area t))" "\<not> ca_staging c \<Longrightarrow> n \<notin> candidate_names c"
  shows "leaves_file f n (ar_out (tr_area t)) (ar_out (tr_area (trim_one e limit prot t c)))"
proof (cases "ca_staging c")
  case False
  then have "ar_out b = candidate_dir b c" for b by (simp add: candidate_dir_def)
  then show ?thesis using loses_leaves [OF _ trim_one_loses] assms False by metis
next
  case True
  then have "ar_out (tr_area (trim_one e limit prot t c)) = ar_out (tr_area t)"
    using trim_one_other [of c "\<lparr>ca_name = [], ca_entry = undefined, ca_artifact = False, ca_staging = False\<rparr>" e limit prot t]
    by (simp add: candidate_dir_def)
  with assms(1) show ?thesis by (simp add: leaves_file_def)
qed

lemma trim_fold_leaves:
  assumes "users_file f n (ar_out (tr_area t))" "\<forall>c \<in> set cs. \<not> ca_staging c \<longrightarrow> n \<notin> candidate_names c"
  shows "leaves_file f n (ar_out (tr_area t)) (ar_out (tr_area (foldl (trim_one e limit prot) t cs)))"
  using assms
proof (induction cs arbitrary: t)
  case Nil
  then show ?case by (simp add: leaves_file_def)
next
  case (Cons c cs)
  have one: "leaves_file f n (ar_out (tr_area t)) (ar_out (tr_area (trim_one e limit prot t c)))"
    using Cons.prems by (intro trim_one_leaves) simp_all
  then have "users_file f n (ar_out (tr_area (trim_one e limit prot t c)))" by (simp add: leaves_file_def)
  then have "leaves_file f n (ar_out (tr_area (trim_one e limit prot t c)))
      (ar_out (tr_area (foldl (trim_one e limit prot) (trim_one e limit prot t c) cs)))"
    using Cons.prems by (intro Cons.IH) simp_all
  with one show ?case by (simp add: leaves_file_trans)
qed

lemma enforce_leaves:
  assumes "users_file (se_manifest e) n (ar_out a)"
  shows "leaves_file (se_manifest e) n (ar_out a) (ar_out (fst (fst (enforce_partial_budget e limit prot a))))"
  using assms direct_candidate_names [OF assms]
    trim_fold_leaves [where t = "\<lparr>tr_area = a, tr_total = k, tr_remaining = m, tr_removed = []\<rparr>" for k m]
  by (simp add: enforce_partial_budget_def enforce_budget_locked_def Let_def leaves_file_def)

interpretation user_files: guarded_stepper maintain
  "\<lambda>m. se_manifest (maintenance_env m) = f" "\<lambda>a. leaves_file f n d (ar_out a)" for f n d
proof
  fix a :: area and m :: maintenance
  assume a: "leaves_file f n d (ar_out a)" and m: "se_manifest (maintenance_env m) = f"
  from a have u: "users_file f n (ar_out a)" by (simp add: leaves_file_def)
  show "leaves_file f n d (ar_out (maintain a m))"
  proof (cases m)
    case (Sweep e max_age)
    then show ?thesis using a u m sweep_leaves [of e n a max_age]
      by (auto simp: sweep_stale_partials_def intro: leaves_file_trans)
  next
    case (Budget e limit prot)
    then show ?thesis using a u m enforce_leaves [of e n a limit prot] by (auto intro: leaves_file_trans)
  qed
qed


section \<open>The budget is met by the oldest\<close>

definition candidate_gone :: "area \<Rightarrow> candidate \<Rightarrow> bool" where
  "candidate_gone a c \<longleftrightarrow> map_of (candidate_dir a c) (ca_name c) = None"

definition candidate_held :: "staging_env \<Rightarrow> string list \<Rightarrow> area \<Rightarrow> candidate \<Rightarrow> bool" where
  "candidate_held e prot a c \<longleftrightarrow>
     candidate_path a c \<in> set prot \<or> candidate_active e a c \<or> se_remove_fails e (ca_name c)"

definition area_loses :: "area \<Rightarrow> area \<Rightarrow> bool" where
  "area_loses a a' \<longleftrightarrow> ar_path a' = ar_path a \<and> (\<forall>c. only_loses (candidate_dir a c) (candidate_dir a' c) UNIV)"

lemma area_loses_refl [simp]: "area_loses a a"
  by (simp add: area_loses_def)

lemma area_loses_trans: "area_loses a b \<Longrightarrow> area_loses b c \<Longrightarrow> area_loses a c"
  by (auto simp: area_loses_def intro: only_loses_trans)

lemma area_loses_path: "area_loses a a' \<Longrightarrow> candidate_path a' c = candidate_path a c"
  by (simp add: area_loses_def candidate_path_def)

lemma area_loses_gone: "area_loses a a' \<Longrightarrow> candidate_gone a c \<Longrightarrow> candidate_gone a' c"
  unfolding area_loses_def candidate_gone_def only_loses_def by metis

lemma part_is_active_mono: "only_loses d d' N \<Longrightarrow> part_is_active e p d' \<Longrightarrow> part_is_active e p d"
  unfolding only_loses_def part_is_active_def lstat_entry_def
  by (auto split: option.splits if_splits) (metis option.distinct(1) option.inject)+

lemma area_loses_active: "area_loses a a' \<Longrightarrow> candidate_active e a' c \<Longrightarrow> candidate_active e a c"
  using part_is_active_mono unfolding area_loses_def candidate_active_def direct_part_is_active_def by metis

lemma trim_one_area: "area_loses (tr_area t) (tr_area (trim_one e limit prot t c))"
proof -
  have "only_loses (candidate_dir (tr_area t) c') (candidate_dir (tr_area (trim_one e limit prot t c)) c') UNIV" for c'
  proof (cases "ca_staging c' = ca_staging c")
    case True
    then have "candidate_dir b c' = candidate_dir b c" for b by (simp add: candidate_dir_def)
    then show ?thesis using trim_one_loses [of t c e limit prot] by (auto simp: only_loses_def)
  qed (simp add: trim_one_other)
  then show ?thesis
    by (simp add: area_loses_def trim_one_def put_dir_def split: prod.splits bool.splits)
qed

text \<open>What holds of the trimming once the candidates \<open>done\<close> of all candidates \<open>cs\<close> have had their turn.\<close>

definition trim_ok :: "staging_env \<Rightarrow> int \<Rightarrow> string list \<Rightarrow> area \<Rightarrow> candidate list \<Rightarrow> candidate list \<Rightarrow> trimming \<Rightarrow> bool" where
  "trim_ok e limit prot a cs seen t \<longleftrightarrow>
     area_loses a (tr_area t) \<and>
     tr_total t = candidate_total cs - candidate_total (tr_removed t) \<and>
     tr_remaining t = int (length cs) - int (length (tr_removed t)) \<and>
     (within_budget limit t \<or> (\<forall>c \<in> set seen. candidate_gone (tr_area t) c \<or> candidate_held e prot a c)) \<and>
     (\<forall>c \<in> set (tr_removed t). c \<in> set seen \<and> candidate_gone (tr_area t) c \<and> candidate_path a c \<notin> set prot) \<and>
     (\<forall>c \<in> set (tr_removed t). \<forall>c' \<in> set cs. candidate_key a c' < candidate_key a c \<longrightarrow>
        candidate_gone (tr_area t) c' \<or> candidate_held e prot a c')"

lemma trim_one_outcome:
  assumes t'_def: "t' = trim_one e limit prot t c"
  shows "t' = t \<and> (within_budget limit t \<or> candidate_gone (tr_area t) c \<or> candidate_held e prot (tr_area t) c) \<or>
    \<not> within_budget limit t \<and> candidate_gone (tr_area t') c \<and> candidate_path (tr_area t) c \<notin> set prot \<and>
    tr_total t' = tr_total t - en_size (ca_entry c) \<and> tr_remaining t' = tr_remaining t - 1 \<and>
    tr_removed t' = tr_removed t @ [c]"
proof (cases "within_budget limit t \<or> candidate_path (tr_area t) c \<in> set prot \<or> candidate_active e (tr_area t) c")
  case True
  then show ?thesis unfolding t'_def by (auto simp: trim_one_def candidate_held_def)
next
  case False
  obtain d r where re: "remove_entry e (ca_name c) (candidate_dir (tr_area t) c) = (d, r)" by force
  show ?thesis
  proof (cases r)
    case True
    have "map_of (if ca_artifact c then d else drop_sidecars e (ca_name c) d) (ca_name c) = None"
      using remove_entry_lookup [OF re, of "ca_name c"] drop_sidecars_loses [of d e "ca_name c"] True
      unfolding only_loses_def by (metis (full_types))
    moreover have "candidate_dir (put_dir c x (tr_area t)) c = x" for x by (simp add: candidate_dir_def put_dir_def)
    ultimately show ?thesis using False re True unfolding t'_def by (simp add: trim_one_def candidate_gone_def)
  next
    case rf: False
    then have "candidate_gone (tr_area t) c \<or> candidate_held e prot (tr_area t) c"
      using re by (auto simp: remove_entry_def candidate_gone_def candidate_held_def split: if_splits)
    then show ?thesis using False re rf unfolding t'_def by (auto simp: trim_one_def)
  qed
qed

lemma candidate_total_snoc: "candidate_total (xs @ [c]) = candidate_total xs + en_size (ca_entry c)"
  by (simp add: candidate_total_def)

lemma held_back: "area_loses a a' \<Longrightarrow> candidate_held e prot a' c \<Longrightarrow> candidate_held e prot a c"
  by (auto simp: candidate_held_def area_loses_path dest: area_loses_active)

lemma trim_one_ok:
  assumes ok: "trim_ok e limit prot a cs seen t"
    and smaller: "\<And>c'. c' \<in> set cs \<Longrightarrow> candidate_key a c' < candidate_key a c \<Longrightarrow> c' \<in> set seen"
  shows "trim_ok e limit prot a cs (seen @ [c]) (trim_one e limit prot t c)" (is "trim_ok _ _ _ _ _ _ ?t")
proof -
  have step: "area_loses (tr_area t) (tr_area ?t)" by (rule trim_one_area)
  have from_a: "area_loses a (tr_area t)" using ok by (simp add: trim_ok_def)
  with step have area: "area_loses a (tr_area ?t)" by (rule area_loses_trans [rotated])
  consider
    (same) "?t = t" "within_budget limit t \<or> candidate_gone (tr_area t) c \<or> candidate_held e prot (tr_area t) c"
  | (cut) "\<not> within_budget limit t" "candidate_gone (tr_area ?t) c" "candidate_path (tr_area t) c \<notin> set prot"
      "tr_total ?t = tr_total t - en_size (ca_entry c)" "tr_remaining ?t = tr_remaining t - 1"
      "tr_removed ?t = tr_removed t @ [c]"
    using trim_one_outcome [OF refl, of e limit prot t c] by blast
  then show ?thesis
  proof cases
    case same
    then show ?thesis using ok held_back [OF from_a, of e prot c] by (auto simp: trim_ok_def)
  next
    case cut
    then have seen: "\<forall>x \<in> set seen. candidate_gone (tr_area ?t) x \<or> candidate_held e prot a x"
      using ok area_loses_gone [OF step] by (auto simp: trim_ok_def)
    have "candidate_gone (tr_area ?t) c'" if "candidate_gone (tr_area t) c'" for c'
      using step that by (rule area_loses_gone)
    then show ?thesis using ok cut area seen smaller area_loses_path [OF from_a]
      by (simp add: trim_ok_def candidate_total_snoc) blast
  qed
qed

lemma trim_fold_ok:
  assumes "trim_ok e limit prot a cs seen t" "sorted (map (candidate_key a) (seen @ rest))" "set (seen @ rest) = set cs"
  shows "trim_ok e limit prot a cs (seen @ rest) (foldl (trim_one e limit prot) t rest)"
  using assms
proof (induction rest arbitrary: seen t)
  case (Cons c rest)
  have "c' \<in> set seen" if "c' \<in> set cs" "candidate_key a c' < candidate_key a c" for c'
  proof (rule ccontr)
    assume "c' \<notin> set seen"
    with that Cons.prems(3) have "c' = c \<or> c' \<in> set rest" by auto
    with Cons.prems(2) have "candidate_key a c \<le> candidate_key a c'" by (auto simp: sorted_append)
    with that(2) show False by simp
  qed
  then have "trim_ok e limit prot a cs (seen @ [c]) (trim_one e limit prot t c)"
    by (rule trim_one_ok [OF Cons.prems(1)])
  from Cons.IH [OF this] Cons.prems(2,3) show ?case by simp
qed simp

lemma enforce_trimmed:
  "trim_ok e (if limit \<le> 0 then default_retained_partial_budget else limit) prot a (collect_partial_candidates e a)
     (sort_key (candidate_key a) (collect_partial_candidates e a)) (enforce_budget_locked e limit prot a)"
proof -
  define cs where "cs = collect_partial_candidates e a"
  define l where "l = (if limit \<le> 0 then default_retained_partial_budget else limit)"
  have "trim_ok e l prot a cs ([] @ sort_key (candidate_key a) cs)
      (foldl (trim_one e l prot) \<lparr>tr_area = a, tr_total = candidate_total cs, tr_remaining = int (length cs), tr_removed = []\<rparr>
        (sort_key (candidate_key a) cs))"
    by (rule trim_fold_ok) (simp_all add: trim_ok_def candidate_total_def)
  then show ?thesis by (simp add: enforce_budget_locked_def Let_def cs_def l_def)
qed


section \<open>Activity markers\<close>

datatype create_error = CreateRefused | CreateDenied

text \<open>
  What the operations on markers meet, beside the environment of maintenance: the attempts at which the
  marker cannot be created, a failing close, and a failing change of times.
\<close>

record marker_env =
  me_env :: staging_env
  me_real :: bool
  me_create_error :: "nat \<Rightarrow> create_error option"
  me_close_fails :: bool
  me_chtimes_fails :: bool

datatype acquire_result = Owns nat | PartActive | AcquireFailed

text \<open>One attempt of \<open>AcquireStagingActivity\<close>; \<open>None\<close> leads to the next.\<close>

definition judge_marker :: "staging_env \<Rightarrow> string \<Rightarrow> entries \<Rightarrow> entries \<times> acquire_result option" where
  "judge_marker e act d =
     (case lstat_entry e act d of
        NoEntry \<Rightarrow> (d, None)
      | LstatFailed \<Rightarrow> (d, Some AcquireFailed)
      | Seen x \<Rightarrow>
          if en_kind x \<noteq> RegularKind then (d, Some PartActive)
          else if se_now e - en_mtime x \<le> default_staging_max_age then (d, Some PartActive)
          else (case remove_entry e act d of
            (d1, True) \<Rightarrow> (d1, None)
          | (d1, False) \<Rightarrow> (d, Some AcquireFailed)))"

definition marker_attempt :: "marker_env \<Rightarrow> nat \<Rightarrow> nat \<Rightarrow> string \<Rightarrow> entries \<Rightarrow> entries \<times> acquire_result option" where
  "marker_attempt e i inode act d =
     (let se = me_env e in
      case me_create_error e i of
        Some CreateRefused \<Rightarrow> (d, Some AcquireFailed)
      | Some CreateDenied \<Rightarrow>
          (case lstat_entry se act d of
             Seen x \<Rightarrow> judge_marker se act d
           | _ \<Rightarrow> (d, Some AcquireFailed))
      | None \<Rightarrow>
          if map_of d act \<noteq> None then judge_marker se act d
          else
            let d1 = AList.update act \<lparr>en_kind = RegularKind, en_inode = inode, en_size = 0, en_mtime = se_now se, en_data = ''''\<rparr> d
            in if me_close_fails e \<or> se_lstat_fails se act
               then (fst (remove_entry se act d1), Some AcquireFailed)
               else (d1, Some (Owns inode)))"

definition acquire_activity :: "marker_env \<Rightarrow> nat \<Rightarrow> string \<Rightarrow> area \<Rightarrow> area \<times> acquire_result" where
  "acquire_activity e inode part a =
     (if \<not> me_real e \<or> \<not> se_lock (me_env e) \<or> \<not> se_open_staging (me_env e) then (a, AcquireFailed)
      else (case ar_staging a of
        None \<Rightarrow> (a, AcquireFailed)
      | Some d \<Rightarrow>
          let act = part @ staging_activity_suffix;
              (d1, r1) = marker_attempt e 0 inode act d;
              (d2, r2) = (case r1 of Some r \<Rightarrow> (d1, Some r) | None \<Rightarrow> marker_attempt e 1 inode act d1)
          in (a\<lparr>ar_staging := Some d2\<rparr>, case r2 of Some r \<Rightarrow> r | None \<Rightarrow> PartActive)))"

text \<open>\<open>TouchStagingActivity\<close>: whether it reports success.\<close>

definition touch_activity :: "marker_env \<Rightarrow> string \<Rightarrow> area \<Rightarrow> area \<times> bool" where
  "touch_activity e part a =
     (let se = me_env e; act = part @ staging_activity_suffix in
      if \<not> me_real e \<or> \<not> se_lock se \<or> \<not> se_open_staging se then (a, False)
      else (case ar_staging a of
        None \<Rightarrow> (a, False)
      | Some d \<Rightarrow>
          (case lstat_entry se act d of
             Seen x \<Rightarrow>
               if en_kind x \<noteq> RegularKind \<or> me_chtimes_fails e then (a, False)
               else (a\<lparr>ar_staging := Some (AList.update act (x\<lparr>en_mtime := se_now se\<rparr>) d)\<rparr>, True)
           | _ \<Rightarrow> (a, False))))"

text \<open>The release function of an owner, and \<open>ReleaseStagingActivity\<close>, which asks for no owner.\<close>

definition release_owned :: "marker_env \<Rightarrow> nat \<Rightarrow> string \<Rightarrow> area \<Rightarrow> area" where
  "release_owned e inode part a =
     (let se = me_env e; act = part @ staging_activity_suffix in
      if \<not> se_lock se \<or> \<not> se_open_staging se then a
      else (case ar_staging a of
        None \<Rightarrow> a
      | Some d \<Rightarrow>
          (case lstat_entry se act d of
             Seen x \<Rightarrow>
               if en_kind x = RegularKind \<and> en_inode x = inode then a\<lparr>ar_staging := Some (fst (remove_entry se act d))\<rparr> else a
           | _ \<Rightarrow> a)))"

definition release_unowned :: "marker_env \<Rightarrow> string \<Rightarrow> area \<Rightarrow> area" where
  "release_unowned e part a =
     (let se = me_env e in
      if \<not> me_real e \<or> \<not> se_lock se \<or> \<not> se_open_staging se then a
      else (case ar_staging a of
        None \<Rightarrow> a
      | Some d \<Rightarrow> a\<lparr>ar_staging := Some (fst (remove_entry se (part @ staging_activity_suffix) d))\<rparr>))"

section \<open>Receivers and maintenance on one directory\<close>

text \<open>
  An owner with the inode of its marker and the last time it created or refreshed that marker. Time
  passes between the operations, each of which runs under the process lock.
\<close>

record hold =
  ho_part :: string
  ho_inode :: nat
  ho_last :: go_time

record staging_sys =
  ss_area :: area
  ss_clock :: go_time
  ss_next :: nat
  ss_holds :: "hold list"

datatype staging_event =
    Passes int
  | Acquires marker_env string
  | Touches marker_env nat
  | Releases marker_env nat
  | Discards marker_env string
  | Maintains maintenance
  | Writes string dir_entry
  | Deletes string

definition at_clock :: "go_time \<Rightarrow> staging_env \<Rightarrow> staging_env" where
  "at_clock t e = e\<lparr>se_now := t\<rparr>"

definition marker_at :: "go_time \<Rightarrow> marker_env \<Rightarrow> marker_env" where
  "marker_at t e = e\<lparr>me_env := at_clock t (me_env e)\<rparr>"

fun maintenance_at :: "go_time \<Rightarrow> maintenance \<Rightarrow> maintenance" where
  "maintenance_at t (Sweep e max_age) = Sweep (at_clock t e) max_age"
| "maintenance_at t (Budget e limit prot) = Budget (at_clock t e) limit prot"

definition own_marker :: "area \<Rightarrow> hold \<Rightarrow> bool" where
  "own_marker a h =
     (case map_of (staging_of a) (ho_part h @ ''.active'') of
        None \<Rightarrow> False
      | Some x \<Rightarrow> en_kind x = RegularKind \<and> en_inode x = ho_inode h)"

definition edit_staging :: "(entries \<Rightarrow> entries) \<Rightarrow> area \<Rightarrow> area" where
  "edit_staging f a = (case ar_staging a of None \<Rightarrow> a | Some d \<Rightarrow> a\<lparr>ar_staging := Some (f d)\<rparr>)"

fun staging_step :: "staging_sys \<Rightarrow> staging_event \<Rightarrow> staging_sys" where
  "staging_step s (Passes t) = s\<lparr>ss_clock := ss_clock s + max 0 t\<rparr>"
| "staging_step s (Acquires e part) =
     (case acquire_activity (marker_at (ss_clock s) e) (ss_next s) part (ss_area s) of
        (a, Owns i) \<Rightarrow>
          s\<lparr>ss_area := a, ss_next := Suc (ss_next s),
            ss_holds := ss_holds s @ [\<lparr>ho_part = part, ho_inode = i, ho_last = ss_clock s\<rparr>]\<rparr>
      | (a, _) \<Rightarrow> s\<lparr>ss_area := a, ss_next := Suc (ss_next s)\<rparr>)"
| "staging_step s (Touches e k) =
     (if length (ss_holds s) \<le> k then s
      else
        let h = ss_holds s ! k; (a, fine) = touch_activity (marker_at (ss_clock s) e) (ho_part h) (ss_area s)
        in s\<lparr>ss_area := a,
             ss_holds := (if fine \<and> own_marker (ss_area s) h then (ss_holds s)[k := h\<lparr>ho_last := ss_clock s\<rparr>] else ss_holds s)\<rparr>)"
| "staging_step s (Releases e k) =
     (if length (ss_holds s) \<le> k then s
      else
        let h = ss_holds s ! k
        in s\<lparr>ss_area := release_owned (marker_at (ss_clock s) e) (ho_inode h) (ho_part h) (ss_area s),
             ss_holds := take k (ss_holds s) @ drop (Suc k) (ss_holds s)\<rparr>)"
| "staging_step s (Discards e part) =
     s\<lparr>ss_area := release_unowned (marker_at (ss_clock s) e) part (ss_area s)\<rparr>"
| "staging_step s (Maintains m) = s\<lparr>ss_area := maintain (ss_area s) (maintenance_at (ss_clock s) m)\<rparr>"
| "staging_step s (Writes n x) =
     (if has_suffix n ''.active'' then s else s\<lparr>ss_area := edit_staging (AList.update n x) (ss_area s)\<rparr>)"
| "staging_step s (Deletes n) =
     (if has_suffix n ''.active'' then s else s\<lparr>ss_area := edit_staging (AList.delete n) (ss_area s)\<rparr>)"

definition hold_live :: "staging_sys \<Rightarrow> hold \<Rightarrow> bool" where
  "hold_live s h \<longleftrightarrow> ss_clock s \<le> ho_last h + default_staging_max_age"

text \<open>An owner that refreshed its marker within the last day still has it.\<close>

definition holds_ok :: "staging_sys \<Rightarrow> bool" where
  "holds_ok s \<longleftrightarrow>
     distinct (map ho_inode (ss_holds s)) \<and>
     (\<forall>h \<in> set (ss_holds s). ho_inode h < ss_next s \<and> ho_last h \<le> ss_clock s \<and> is_partial_name (ho_part h) \<and> \<not> has_prefix (ho_part h) ''.'' \<and>
        (hold_live s h \<longrightarrow>
           (\<exists>x. map_of (staging_of (ss_area s)) (ho_part h @ ''.active'') = Some x \<and> en_kind x = RegularKind \<and>
                en_inode x = ho_inode h \<and> ho_last h \<le> en_mtime x)))"

text \<open>
  What the environment is allowed to do: partials have the names of the program, sweeps are patient, and
  nobody discards a marker that may be another's.
\<close>

fun mannered :: "staging_event \<Rightarrow> bool" where
  "mannered (Acquires e part) \<longleftrightarrow> is_partial_name part \<and> \<not> has_prefix part ''.''"
| "mannered (Discards e part) \<longleftrightarrow> False"
| "mannered (Maintains m) \<longleftrightarrow> patient m"
| "mannered ev \<longleftrightarrow> True"


definition hold_marked :: "area \<Rightarrow> hold \<Rightarrow> bool" where
  "hold_marked a h \<longleftrightarrow>
     (\<exists>x. map_of (staging_of a) (ho_part h @ ''.active'') = Some x \<and> en_kind x = RegularKind \<and>
          en_inode x = ho_inode h \<and> ho_last h \<le> en_mtime x)"

lemma holds_ok_alt:
  "holds_ok s \<longleftrightarrow>
     distinct (map ho_inode (ss_holds s)) \<and>
     (\<forall>h \<in> set (ss_holds s). ho_inode h < ss_next s \<and> ho_last h \<le> ss_clock s \<and> is_partial_name (ho_part h) \<and>
        \<not> has_prefix (ho_part h) ''.'' \<and> (hold_live s h \<longrightarrow> hold_marked (ss_area s) h))"
  by (simp add: holds_ok_def hold_marked_def)

lemma hold_live_area [simp]:
  "hold_live (s\<lparr>ss_area := a\<rparr>) h = hold_live s h" "hold_live (s\<lparr>ss_holds := hs\<rparr>) h = hold_live s h"
  "hold_live (s\<lparr>ss_next := n\<rparr>) h = hold_live s h"
  by (simp_all add: hold_live_def)

lemma holds_ok_area:
  assumes "holds_ok s"
    "\<And>h. h \<in> set (ss_holds s) \<Longrightarrow> hold_live s h \<Longrightarrow> hold_marked (ss_area s) h \<Longrightarrow> hold_marked a h"
  shows "holds_ok (s\<lparr>ss_area := a\<rparr>)"
  using assms by (auto simp: holds_ok_alt)

lemma staging_of_edit: "ar_staging a = Some d \<Longrightarrow> staging_of (a\<lparr>ar_staging := Some d'\<rparr>) = d'" "ar_staging a = Some d \<Longrightarrow> staging_of a = d"
  by (simp_all add: staging_of_def)

lemma hold_marked_lookup:
  "map_of (staging_of a') (ho_part h @ ''.active'') = map_of (staging_of a) (ho_part h @ ''.active'') \<Longrightarrow>
     hold_marked a h \<Longrightarrow> hold_marked a' h"
  by (simp add: hold_marked_def)

lemma passes_ok: "holds_ok s \<Longrightarrow> holds_ok (staging_step s (Passes t))"
  by (fastforce simp: holds_ok_alt hold_live_def)

lemma maintenance_at_env [simp]: "maintenance_env (maintenance_at t m) = at_clock t (maintenance_env m)"
  by (cases m) simp_all

lemma maintenance_at_patient [simp]: "patient (maintenance_at t m) = patient m"
  by (cases m) simp_all

lemma maintains_ok:
  assumes "holds_ok s" "patient m"
  shows "holds_ok (staging_step s (Maintains m))"
proof -
  have "hold_marked (maintain (ss_area s) (maintenance_at (ss_clock s) m)) h"
    if h: "h \<in> set (ss_holds s)" "hold_live s h" "hold_marked (ss_area s) h" for h
  proof -
    from h(2,3) have "live_marker (ss_clock s) (ho_part h) (staging_of (ss_area s))"
      by (auto simp: hold_marked_def live_marker_def hold_live_def)
    with assms h(1) have "spares (ho_part h) (staging_of (ss_area s))
        (staging_of (maintain (ss_area s) (maintenance_at (ss_clock s) m)))"
      by (intro maintain_spares) (auto simp: holds_ok_alt at_clock_def)
    with h(3) show ?thesis by (simp add: hold_marked_lookup spares_def own_names_def)
  qed
  with assms(1) show ?thesis by (simp add: holds_ok_area)
qed

lemma edits_ok:
  assumes "holds_ok s" "\<not> has_suffix n ''.active''"
  shows "holds_ok (s\<lparr>ss_area := edit_staging (AList.update n x) (ss_area s)\<rparr>)"
    "holds_ok (s\<lparr>ss_area := edit_staging (AList.delete n) (ss_area s)\<rparr>)"
proof -
  have ne: "n \<noteq> p @ ''.active''" "p @ ''.active'' \<noteq> n" for p using assms(2) by auto
  show "holds_ok (s\<lparr>ss_area := edit_staging (AList.update n x) (ss_area s)\<rparr>)"
    using assms(1) ne by (intro holds_ok_area)
      (auto simp: edit_staging_def staging_of_def hold_marked_def update_conv' split: option.splits)
  show "holds_ok (s\<lparr>ss_area := edit_staging (AList.delete n) (ss_area s)\<rparr>)"
    using assms(1) ne by (intro holds_ok_area)
      (auto simp: edit_staging_def staging_of_def hold_marked_def delete_conv' split: option.splits)
qed

lemma release_owned_lookup:
  assumes "map_of (staging_of (release_owned e inode part a)) (p @ ''.active'') \<noteq> map_of (staging_of a) (p @ ''.active'')"
  shows "p = part \<and> (\<exists>x. map_of (staging_of a) (p @ ''.active'') = Some x \<and> en_inode x = inode)"
proof (cases "ar_staging a")
  case None
  then have "release_owned e inode part a = a" by (simp add: release_owned_def Let_def)
  with assms show ?thesis by simp
next
  case (Some d)
  obtain d' r where re: "remove_entry (me_env e) (part @ ''.active'') d = (d', r)" by force
  show ?thesis
    using assms Some remove_entry_lookup [OF re, of "p @ ''.active''"]
    by (auto simp: release_owned_def Let_def re staging_of_def staging_activity_suffix_def lstat_entry_def
        split: lstat_result.splits option.splits if_splits)
qed

lemma releases_ok:
  assumes ok: "holds_ok s"
  shows "holds_ok (staging_step s (Releases e k))"
proof (cases "k < length (ss_holds s)")
  case True
  define g where "g = ss_holds s ! k"
  define hs where "hs = take k (ss_holds s) @ drop (Suc k) (ss_holds s)"
  have split: "ss_holds s = take k (ss_holds s) @ g # drop (Suc k) (ss_holds s)"
    unfolding g_def by (rule id_take_nth_drop [OF True])
  from ok have "distinct (map ho_inode (take k (ss_holds s) @ g # drop (Suc k) (ss_holds s)))"
    using split by (simp add: holds_ok_alt)
  then have d: "distinct (map ho_inode hs)" "ho_inode g \<notin> ho_inode ` set hs" by (auto simp: hs_def)
  have sub: "set hs \<subseteq> set (ss_holds s)" by (auto simp: hs_def dest: in_set_takeD in_set_dropD)
  let ?a = "release_owned (marker_at (ss_clock s) e) (ho_inode g) (ho_part g) (ss_area s)"
  have "hold_marked ?a h" if h: "h \<in> set hs" "hold_marked (ss_area s) h" for h
  proof -
    have "map_of (staging_of ?a) (ho_part h @ ''.active'') = map_of (staging_of (ss_area s)) (ho_part h @ ''.active'')"
    proof (rule ccontr)
      assume "\<not> ?thesis"
      from release_owned_lookup [OF this] h(2) have "ho_inode h = ho_inode g" by (auto simp: hold_marked_def)
      with d(2) h(1) show False by (metis imageI)
    qed
    with h(2) show ?thesis by (rule hold_marked_lookup [rotated])
  qed
  then have "holds_ok (s\<lparr>ss_area := ?a, ss_holds := hs\<rparr>)"
    using ok d(1) sub by (fastforce simp: holds_ok_alt)
  then show ?thesis using True by (simp add: Let_def g_def hs_def)
qed (use ok in simp)

lemma touch_activity_cases:
  assumes "touch_activity e part a = (a', fine)"
  shows "(a' = a \<and> \<not> fine) \<or>
    (fine \<and> (\<exists>d x. ar_staging a = Some d \<and> map_of d (part @ ''.active'') = Some x \<and> en_kind x = RegularKind \<and>
       a' = a\<lparr>ar_staging := Some (AList.update (part @ ''.active'') (x\<lparr>en_mtime := se_now (me_env e)\<rparr>) d)\<rparr>))"
  using assms
  by (auto simp: touch_activity_def Let_def lstat_entry_def staging_activity_suffix_def
      split: if_splits option.splits lstat_result.splits)

lemma touches_ok:
  assumes ok: "holds_ok s"
  shows "holds_ok (staging_step s (Touches e k))"
proof (cases "k < length (ss_holds s)")
  case True
  define g where "g = ss_holds s ! k"
  have gs: "g \<in> set (ss_holds s)" using True by (simp add: g_def)
  obtain a fine where t: "touch_activity (marker_at (ss_clock s) e) (ho_part g) (ss_area s) = (a, fine)" by force
  have now: "se_now (me_env (marker_at (ss_clock s) e)) = ss_clock s" by (simp add: marker_at_def at_clock_def)
  from touch_activity_cases [OF t] show ?thesis
  proof
    assume "a = ss_area s \<and> \<not> fine"
    then show ?thesis using ok True t by (simp add: Let_def g_def)
  next
    assume "fine \<and> (\<exists>d x. ar_staging (ss_area s) = Some d \<and> map_of d (ho_part g @ ''.active'') = Some x \<and>
      en_kind x = RegularKind \<and> a = (ss_area s)\<lparr>ar_staging :=
        Some (AList.update (ho_part g @ ''.active'') (x\<lparr>en_mtime := se_now (me_env (marker_at (ss_clock s) e))\<rparr>) d)\<rparr>)"
    then obtain d x where fine: fine and d: "ar_staging (ss_area s) = Some d"
      and x: "map_of d (ho_part g @ ''.active'') = Some x" "en_kind x = RegularKind"
      and a: "a = (ss_area s)\<lparr>ar_staging := Some (AList.update (ho_part g @ ''.active'') (x\<lparr>en_mtime := ss_clock s\<rparr>) d)\<rparr>"
      unfolding now by blast
    have so: "staging_of (ss_area s) = d" "staging_of a = AList.update (ho_part g @ ''.active'') (x\<lparr>en_mtime := ss_clock s\<rparr>) d"
      by (simp_all add: staging_of_def d a)
    have keep: "hold_marked a h" if "h \<in> set (ss_holds s)" "hold_marked (ss_area s) h" for h
      using that ok x so by (auto simp: hold_marked_def update_conv' holds_ok_alt)
    have ok1: "holds_ok (s\<lparr>ss_area := a\<rparr>)" using ok keep by (rule holds_ok_area)
    show ?thesis
    proof (cases "own_marker (ss_area s) g")
      case True
      let ?g = "g\<lparr>ho_last := ss_clock s\<rparr>"
      have own: "hold_marked a ?g" using True x so by (simp add: own_marker_def hold_marked_def update_conv')
      have ins: "map ho_inode ((ss_holds s)[k := ?g]) = map ho_inode (ss_holds s)"
        by (metis g_def hold.select_convs(2) hold.update_convs(3) list_update_id map_update hold.surjective)
      have "holds_ok (s\<lparr>ss_area := a, ss_holds := (ss_holds s)[k := ?g]\<rparr>)"
        using ok1 own gs set_update_subset_insert [of "ss_holds s" k ?g] ins unfolding holds_ok_alt
        by auto
      then show ?thesis using \<open>k < length (ss_holds s)\<close> t fine True by (simp add: Let_def g_def)
    next
      case False
      then show ?thesis using ok1 \<open>k < length (ss_holds s)\<close> t fine by (simp add: Let_def g_def)
    qed
  qed
qed (use ok in simp)


definition vacant :: "go_time \<Rightarrow> string \<Rightarrow> entries \<Rightarrow> bool" where
  "vacant now act d =
     (case map_of d act of None \<Rightarrow> True | Some x \<Rightarrow> \<not> now - en_mtime x \<le> default_staging_max_age)"

definition attempt_effect :: "go_time \<Rightarrow> nat \<Rightarrow> string \<Rightarrow> entries \<Rightarrow> entries \<Rightarrow> acquire_result option \<Rightarrow> bool" where
  "attempt_effect now inode act d d' r \<longleftrightarrow>
     (\<forall>n. n \<noteq> act \<longrightarrow> map_of d' n = map_of d n) \<and>
     (map_of d' act = map_of d act \<or> vacant now act d) \<and>
     (\<forall>i. r = Some (Owns i) \<longrightarrow> i = inode \<and> vacant now act d \<and>
        (\<exists>y. map_of d' act = Some y \<and> en_kind y = RegularKind \<and> en_inode y = inode \<and> en_mtime y = now))"

lemma attempt_effect_refl: "(\<And>i. r \<noteq> Some (Owns i)) \<Longrightarrow> attempt_effect now inode act d d r"
  by (simp add: attempt_effect_def)

lemma judge_marker_effect:
  assumes "judge_marker e act d = (d', r)"
  shows "attempt_effect (se_now e) inode act d d' r"
proof (cases "d' = d")
  case True
  have "r \<noteq> Some (Owns i)" for i
    using assms by (auto simp: judge_marker_def split: lstat_result.splits if_splits prod.splits bool.splits)
  then show ?thesis using True by (simp add: attempt_effect_refl)
next
  case False
  then have v: "vacant (se_now e) act d" and r: "r = None" and re: "remove_entry e act d = (d', True)"
    using assms by (auto simp: judge_marker_def lstat_entry_def vacant_def
        split: option.splits if_splits prod.splits bool.splits)
  show ?thesis using v r remove_entry_lookup [OF re] by (simp add: attempt_effect_def)
qed

lemma marker_attempt_effect:
  assumes "marker_attempt e i inode act d = (d', r)"
  shows "attempt_effect (se_now (me_env e)) inode act d d' r"
proof (cases "me_create_error e i")
  case (Some c)
  then show ?thesis using assms
    by (cases c) (auto simp: marker_attempt_def Let_def intro: attempt_effect_refl judge_marker_effect split: lstat_result.splits)
next
  case None
  show ?thesis
  proof (cases "map_of d act = None")
    case False
    then show ?thesis using None assms by (auto simp: marker_attempt_def Let_def intro: judge_marker_effect)
  next
    case True
    then have v: "vacant (se_now (me_env e)) act d" by (simp add: vacant_def)
    let ?x = "\<lparr>en_kind = RegularKind, en_inode = inode, en_size = 0, en_mtime = se_now (me_env e), en_data = ''''\<rparr>"
    have "map_of (fst (remove_entry (me_env e) act (AList.update act ?x d))) n = map_of d n" if "n \<noteq> act" for n
      using that remove_entry_loses [of "AList.update act ?x d" "me_env e" act]
      by (auto dest!: only_losesD [of _ _ _ n] simp: update_conv')
    then show ?thesis using assms None True v
      by (auto simp: marker_attempt_def Let_def attempt_effect_def update_conv' split: if_splits)
  qed
qed

lemma attempt_effect_trans:
  assumes "attempt_effect now inode act d d1 None" "attempt_effect now inode act d1 d2 r"
  shows "attempt_effect now inode act d d2 r"
proof -
  have "vacant now act d1 \<Longrightarrow> vacant now act d" using assms(1) by (auto simp: attempt_effect_def vacant_def)
  with assms show ?thesis by (auto simp: attempt_effect_def)
qed

lemma acquire_effect:
  assumes "acquire_activity e inode part a = (a', r)"
  shows "attempt_effect (se_now (me_env e)) inode (part @ ''.active'') (staging_of a) (staging_of a') (Some r)"
proof (cases "a' = a \<and> r = AcquireFailed")
  case True
  then show ?thesis by (simp add: attempt_effect_refl)
next
  case False
  then obtain d where d: "ar_staging a = Some d" and fit: "me_real e" "se_lock (me_env e)" "se_open_staging (me_env e)"
    using assms by (auto simp: acquire_activity_def split: if_splits option.splits)
  obtain d1 r1 where one: "marker_attempt e 0 inode (part @ ''.active'') d = (d1, r1)" by force
  obtain d2 r2 where two: "(case r1 of Some x \<Rightarrow> (d1, Some x) | None \<Rightarrow> marker_attempt e 1 inode (part @ ''.active'') d1) = (d2, r2)"
    by force
  have eff: "attempt_effect (se_now (me_env e)) inode (part @ ''.active'') d d2 r2"
    using marker_attempt_effect [OF one] two
    by (cases r1) (auto dest: marker_attempt_effect intro: attempt_effect_trans)
  have "a' = a\<lparr>ar_staging := Some d2\<rparr>" "r = (case r2 of Some x \<Rightarrow> x | None \<Rightarrow> PartActive)"
    using assms d fit one two by (auto simp: acquire_activity_def Let_def staging_activity_suffix_def)
  then show ?thesis using eff d by (auto simp: staging_of_def attempt_effect_def split: option.splits)
qed

lemma marked_not_vacant:
  "hold_live s h \<Longrightarrow> hold_marked a h \<Longrightarrow> \<not> vacant (ss_clock s) (ho_part h @ ''.active'') (staging_of a)"
  by (auto simp: hold_live_def hold_marked_def vacant_def)

lemma acquires_ok:
  assumes ok: "holds_ok s" and part: "is_partial_name part" "\<not> has_prefix part ''.''"
  shows "holds_ok (staging_step s (Acquires e part))"
proof -
  obtain a r where ar: "acquire_activity (marker_at (ss_clock s) e) (ss_next s) part (ss_area s) = (a, r)" by force
  have now: "se_now (me_env (marker_at (ss_clock s) e)) = ss_clock s" by (simp add: marker_at_def at_clock_def)
  have eff: "attempt_effect (ss_clock s) (ss_next s) (part @ ''.active'') (staging_of (ss_area s)) (staging_of a) (Some r)"
    using acquire_effect [OF ar] unfolding now .
  have keep: "hold_marked a h" if "hold_live s h" "hold_marked (ss_area s) h" for h
  proof -
    have "map_of (staging_of a) (ho_part h @ ''.active'') = map_of (staging_of (ss_area s)) (ho_part h @ ''.active'')"
      using eff marked_not_vacant [OF that] by (cases "ho_part h = part") (auto simp: attempt_effect_def)
    then show ?thesis using that(2) by (rule hold_marked_lookup)
  qed
  have ok1: "holds_ok (s\<lparr>ss_area := a, ss_next := Suc (ss_next s)\<rparr>)"
    using ok keep by (fastforce simp: holds_ok_alt hold_live_def)
  show ?thesis
  proof (cases r)
    case (Owns i)
    have i: "i = ss_next s" using eff Owns by (simp add: attempt_effect_def)
    have "hold_marked a \<lparr>ho_part = part, ho_inode = i, ho_last = ss_clock s\<rparr>"
      using eff Owns by (auto simp: attempt_effect_def hold_marked_def)
    moreover have "i \<notin> ho_inode ` set (ss_holds s)" using ok i by (fastforce simp: holds_ok_alt)
    ultimately have "holds_ok (s\<lparr>ss_area := a, ss_next := Suc (ss_next s),
        ss_holds := ss_holds s @ [\<lparr>ho_part = part, ho_inode = i, ho_last = ss_clock s\<rparr>]\<rparr>)"
      using ok1 i part by (auto simp: holds_ok_alt hold_live_def)
    then show ?thesis using ar Owns by simp
  qed (use ok1 ar in simp_all)
qed

interpretation receivers: guarded_stepper staging_step mannered holds_ok
proof
  fix s ev
  assume ok: "holds_ok s" and ev: "mannered ev"
  show "holds_ok (staging_step s ev)"
  proof (cases ev)
    case (Passes t)
    then show ?thesis using ok passes_ok by blast
  next
    case (Acquires e part)
    then show ?thesis using ok ev acquires_ok [of s part e] by (simp del: staging_step.simps)
  next
    case (Touches e k)
    then show ?thesis using ok touches_ok by blast
  next
    case (Releases e k)
    then show ?thesis using ok releases_ok by blast
  next
    case (Discards e part)
    then show ?thesis using ev by simp
  next
    case (Maintains m)
    then show ?thesis using ok ev maintains_ok [of s m] by (simp del: staging_step.simps)
  next
    case (Writes n x)
    then show ?thesis using ok edits_ok(1) [of s n x] by simp
  next
    case (Deletes n)
    then show ?thesis using ok edits_ok(2) [of s n] by simp
  qed
qed

lemma live_holds_equal:
  assumes "holds_ok s" "h \<in> set (ss_holds s)" "h' \<in> set (ss_holds s)" "hold_live s h" "hold_live s h'" "ho_part h = ho_part h'"
  shows "h = h'"
proof -
  from assms have "hold_marked (ss_area s) h" "hold_marked (ss_area s) h'" by (simp_all add: holds_ok_alt)
  with assms(6) have "ho_inode h = ho_inode h'" by (auto simp: hold_marked_def)
  moreover have "inj_on ho_inode (set (ss_holds s))" using assms(1) by (simp add: holds_ok_alt distinct_map)
  ultimately show ?thesis using assms(2,3) by (simp add: inj_on_def)
qed

lemma holds_ok_initial: "ss_holds s = [] \<Longrightarrow> holds_ok s"
  by (simp add: holds_ok_alt)


section \<open>The lock of the processes\<close>

datatype signal_outcome = SignalSent | SignalDenied | NoProcess

definition lock_holder_alive :: "(int \<Rightarrow> signal_outcome) \<Rightarrow> int \<Rightarrow> bool" where
  "lock_holder_alive signal pid = (if pid \<le> 0 then False else signal pid = SignalSent)"

definition lock_holder_pid :: "string option \<Rightarrow> int option" where
  "lock_holder_pid heartbeat =
     (case heartbeat of
        None \<Rightarrow> None
      | Some raw \<Rightarrow>
          if 64 < length raw then None
          else (case atoi (trim_space raw) of
            None \<Rightarrow> None
          | Some pid \<Rightarrow> if pid \<le> 0 then None else Some pid))"

definition staging_lock_wait :: int where "staging_lock_wait = 2 * 1000000000"
definition staging_lock_stale :: int where "staging_lock_stale = 30 * 1000000000"

text \<open>
  The lock is a directory with a heartbeat in it. A process is idle; waiting until its deadline; has
  judged the lock abandoned and is about to remove it; has made the directory but not its heartbeat; or
  holds the lock.
\<close>

record lock_dir =
  ld_mtime :: go_time
  ld_beat :: "string option"

datatype lock_phase = Idle | WaitingUntil go_time | Removing go_time | Made | Holding

record lock_sys =
  ls_dir :: "lock_dir option"
  ls_clock :: go_time
  ls_procs :: "(int \<times> lock_phase) list"

datatype lock_event =
    LockTime int
  | LockStart int
  | LockTry int
  | LockRemove int
  | LockBeat int
  | LockRelease int
  | LockCrash int

definition lock_phase_of :: "lock_sys \<Rightarrow> int \<Rightarrow> lock_phase" where
  "lock_phase_of s p = (case map_of (ls_procs s) p of None \<Rightarrow> Idle | Some ph \<Rightarrow> ph)"

definition lock_set_phase :: "int \<Rightarrow> lock_phase \<Rightarrow> lock_sys \<Rightarrow> lock_sys" where
  "lock_set_phase p ph s = s\<lparr>ls_procs := AList.update p ph (ls_procs s)\<rparr>"

text \<open>
  The decision of a waiter that found the lock taken: \<open>Some True\<close> removes it, \<open>Some False\<close> gives up,
  \<open>None\<close> tries again.
\<close>

definition lock_verdict :: "(int \<Rightarrow> signal_outcome) \<Rightarrow> go_time \<Rightarrow> go_time \<Rightarrow> lock_dir \<Rightarrow> bool option" where
  "lock_verdict signal now deadline d =
     (if staging_lock_stale < now - ld_mtime d then
        (case lock_holder_pid (ld_beat d) of
           Some pid \<Rightarrow>
             if lock_holder_alive signal pid then (if deadline < now then Some False else None) else Some True
         | None \<Rightarrow> Some True)
      else if deadline < now then Some False else None)"

fun lock_step :: "(int \<Rightarrow> signal_outcome) \<Rightarrow> lock_sys \<Rightarrow> lock_event \<Rightarrow> lock_sys" where
  "lock_step signal s (LockTime t) = s\<lparr>ls_clock := ls_clock s + max 0 t\<rparr>"
| "lock_step signal s (LockStart p) =
     (if lock_phase_of s p = Idle then lock_set_phase p (WaitingUntil (ls_clock s + staging_lock_wait)) s else s)"
| "lock_step signal s (LockTry p) =
     (case lock_phase_of s p of
        WaitingUntil deadline \<Rightarrow>
          (case ls_dir s of
             None \<Rightarrow> lock_set_phase p Made (s\<lparr>ls_dir := Some \<lparr>ld_mtime = ls_clock s, ld_beat = None\<rparr>\<rparr>)
           | Some d \<Rightarrow>
               (case lock_verdict signal (ls_clock s) deadline d of
                  Some True \<Rightarrow> lock_set_phase p (Removing deadline) s
                | Some False \<Rightarrow> lock_set_phase p Idle s
                | None \<Rightarrow> s))
      | _ \<Rightarrow> s)"
| "lock_step signal s (LockRemove p) =
     (case lock_phase_of s p of
        Removing deadline \<Rightarrow> lock_set_phase p (WaitingUntil deadline) (s\<lparr>ls_dir := None\<rparr>)
      | _ \<Rightarrow> s)"
| "lock_step signal s (LockBeat p) =
     (if lock_phase_of s p = Made then
        lock_set_phase p Holding
          (case ls_dir s of
             None \<Rightarrow> s
           | Some d \<Rightarrow> s\<lparr>ls_dir := Some \<lparr>ld_mtime = ls_clock s, ld_beat = Some (int_text p)\<rparr>\<rparr>)
      else s)"
| "lock_step signal s (LockRelease p) =
     (if lock_phase_of s p = Holding then lock_set_phase p Idle (s\<lparr>ls_dir := None\<rparr>) else s)"
| "lock_step signal s (LockCrash p) = lock_set_phase p Idle s"

definition lock_owner :: "lock_sys \<Rightarrow> int \<Rightarrow> bool" where
  "lock_owner s p \<longleftrightarrow> lock_phase_of s p \<in> {Made, Holding}"

definition lock_ok :: "lock_sys \<Rightarrow> bool" where
  "lock_ok s \<longleftrightarrow> (\<forall>p q. lock_owner s p \<longrightarrow> lock_owner s q \<longrightarrow> p = q) \<and> (\<forall>p. lock_owner s p \<longrightarrow> ls_dir s \<noteq> None)"

lemma lock_set_phase_phase: "lock_phase_of (lock_set_phase p ph s) q = (if q = p then ph else lock_phase_of s q)"
  by (simp add: lock_phase_of_def lock_set_phase_def update_conv')

lemma lock_set_phase_rest [simp]:
  "ls_dir (lock_set_phase p ph s) = ls_dir s" "lock_phase_of (s\<lparr>ls_dir := d\<rparr>) q = lock_phase_of s q"
  "lock_phase_of (s\<lparr>ls_clock := t\<rparr>) q = lock_phase_of s q"
  by (simp_all add: lock_set_phase_def lock_phase_of_def)

fun removes_lock :: "lock_event \<Rightarrow> bool" where
  "removes_lock (LockRemove p) \<longleftrightarrow> True"
| "removes_lock ev \<longleftrightarrow> False"

interpretation process_lock: guarded_stepper "lock_step signal" "\<lambda>ev. \<not> removes_lock ev" lock_ok for signal
proof
  fix s ev
  assume ok: "lock_ok s" and ev: "\<not> removes_lock ev"
  show "lock_ok (lock_step signal s ev)"
  proof (cases ev)
    case (LockTry p)
    then show ?thesis using ok
      by (auto simp: lock_ok_def lock_owner_def lock_set_phase_phase split: lock_phase.splits option.splits bool.splits)
  next
    case (LockRelease p)
    then show ?thesis using ok by (auto simp: lock_ok_def lock_owner_def lock_set_phase_phase)
  next
    case (LockBeat p)
    then show ?thesis using ok by (auto simp: lock_ok_def lock_owner_def lock_set_phase_phase split: option.splits)
  qed (use ok ev in \<open>auto simp: lock_ok_def lock_owner_def lock_set_phase_phase\<close>)
qed

lemma removal_needs_verdict:
  assumes "lock_phase_of (lock_step signal s ev) p = Removing dl" "lock_phase_of s p \<noteq> Removing dl"
  shows "\<exists>d. ls_dir s = Some d \<and> staging_lock_stale < ls_clock s - ld_mtime d \<and>
    (case lock_holder_pid (ld_beat d) of None \<Rightarrow> True | Some pid \<Rightarrow> \<not> lock_holder_alive signal pid)"
  using assms
  by (cases ev) (auto simp: lock_set_phase_phase lock_verdict_def split: if_splits lock_phase.splits option.splits)

text \<open>
  Two waiters that both judged the lock of a crashed process abandoned: the second removes the lock that
  the first has just made, and both hold it.
\<close>

lemma abandoned_lock_taken_twice:
  "let crashed = \<lparr>ls_dir = Some \<lparr>ld_mtime = 0, ld_beat = Some ''7''\<rparr>, ls_clock = 60 * 1000000000, ls_procs = []\<rparr>;
       s = foldl (lock_step (\<lambda>p. if p = 7 then NoProcess else SignalSent)) crashed
             [LockStart 1, LockStart 2, LockTry 1, LockTry 2, LockRemove 1, LockTry 1, LockBeat 1,
              LockRemove 2, LockTry 2, LockBeat 2]
   in lock_phase_of s 1 = Holding \<and> lock_phase_of s 2 = Holding"
  by code_simp

text \<open>A live process of another user is taken for dead: the test looks at the error of the lookup.\<close>

lemma foreign_holder_counts_as_dead: "signal pid = SignalDenied \<Longrightarrow> \<not> lock_holder_alive signal pid"
  by (simp add: lock_holder_alive_def)


section \<open>The properties\<close>

definition demo_staging_env :: "go_time \<Rightarrow> staging_env" where
  "demo_staging_env now = \<lparr>se_now = now, se_lstat_fails = (\<lambda>n. n = ''odd.part''), se_remove_fails = (\<lambda>n. False), se_lock = True,
     se_read_out = True, se_open_out = True, se_open_staging = True, se_manifest = (\<lambda>raw. raw = ''M'')\<rparr>"

definition demo_staged :: "nat \<Rightarrow> go_time \<Rightarrow> string \<Rightarrow> dir_entry" where
  "demo_staged i t data = \<lparr>en_kind = RegularKind, en_inode = i, en_size = int (length data), en_mtime = t, en_data = data\<rparr>"

definition demo_area :: area where
  "demo_area = \<lparr>ar_real = True, ar_path = ''/o'',
     ar_out = [(''song.part'', demo_staged 1 5 ''abc''), (''old.part'', demo_staged 2 5 ''abcd''), (''old.part.meta'', demo_staged 3 5 ''M'')],
     ar_staging = Some [(''t1.part'', demo_staged 4 5 ''bytes''), (''t1.part.active'', demo_staged 5 1000 ''''),
       (''t1.part.meta'', demo_staged 6 5 ''M''), (''t2.part'', demo_staged 7 5 ''more''), (''t3.part.active'', demo_staged 8 5 ''''),
       (''t4.part'', demo_staged 9 8 ''bytes'')]\<rparr>"

definition demo_day :: int where "demo_day = default_staging_max_age"

text \<open>
  C20. As long as the activity marker of a transfer in the staging directory is no older than a day, no
  sweep and no enforcement of the budget, by whichever process, in any order and with any failures,
  touches its partial, its manifest or its marker.
\<close>

theorem maintenance_spares_live_transfers:
  assumes "is_partial_name p" "\<not> has_prefix p ''.''"
    and "map_of (staging_of a) (p @ ''.active'') = Some x" "en_kind x = RegularKind"
    and "list_all (\<lambda>m. patient m \<and> se_now (maintenance_env m) \<le> en_mtime x + default_staging_max_age) ms"
  defines "a' \<equiv> foldl maintain a ms"
  shows "map_of (staging_of a') p = map_of (staging_of a) p \<and>
    map_of (staging_of a') (p @ ''.meta'') = map_of (staging_of a) (p @ ''.meta'') \<and>
    map_of (staging_of a') (p @ ''.active'') = Some x"
proof -
  have "marker_spared p (staging_of a) x a'" unfolding a'_def using assms(1-5)
    by (intro live_transfer.allowed_run_inv) (simp_all add: marker_spared_def)
  with assms(3) show ?thesis by (simp add: marker_spared_def spares_def own_names_def)
qed

definition demo_maintenance :: "maintenance list" where
  "demo_maintenance = [Sweep (demo_staging_env (demo_day + 900)) 0, Budget (demo_staging_env (demo_day + 950)) 1 []]"

theorem maintenance_spares_live_transfers_witness:
  "let a' = foldl maintain demo_area demo_maintenance
   in map_of (staging_of a') ''t1.part'' = Some (demo_staged 4 5 ''bytes'') \<and>
      map_of (staging_of a') ''t1.part.meta'' = Some (demo_staged 6 5 ''M'') \<and>
      map_of (staging_of a') ''t1.part.active'' = Some (demo_staged 5 1000 '''') \<and>
      map_of (staging_of a') ''t2.part'' = None \<and> map_of (staging_of a') ''t3.part.active'' = None"
proof -
  have p: "is_partial_name ''t1.part''" "\<not> has_prefix ''t1.part'' ''.''" by code_simp+
  have m: "map_of (staging_of demo_area) (''t1.part'' @ ''.active'') = Some (demo_staged 5 1000 '''')" by code_simp
  have k: "en_kind (demo_staged 5 1000 '''') = RegularKind" by (simp add: demo_staged_def)
  have ms: "list_all (\<lambda>m. patient m \<and> se_now (maintenance_env m) \<le> en_mtime (demo_staged 5 1000 '''') + default_staging_max_age)
      demo_maintenance"
    by (simp add: demo_maintenance_def demo_staging_env_def demo_staged_def demo_day_def)
  have other: "map_of (staging_of (foldl maintain demo_area demo_maintenance)) ''t2.part'' = None"
    "map_of (staging_of (foldl maintain demo_area demo_maintenance)) ''t3.part.active'' = None" by code_simp+
  have before: "map_of (staging_of demo_area) ''t1.part'' = Some (demo_staged 4 5 ''bytes'')"
    "map_of (staging_of demo_area) (''t1.part'' @ ''.meta'') = Some (demo_staged 6 5 ''M'')" by code_simp+
  show ?thesis using maintenance_spares_live_transfers [OF p m k ms] other before by (simp add: Let_def)
qed

text \<open>
  C22. Maintenance never removes a file of the user from the output directory: a file that is not itself a
  sidecar and that no valid manifest beside it declares to be a partial is there after any sequence of
  sweeps and enforcements of the budget, whatever its name and its age.
\<close>

theorem user_files_survive_maintenance:
  assumes "users_file f n (ar_out a)" "list_all (\<lambda>m. se_manifest (maintenance_env m) = f) ms"
  shows "map_of (ar_out (foldl maintain a ms)) n = map_of (ar_out a) n"
proof -
  have "leaves_file f n (ar_out a) (ar_out (foldl maintain a ms))"
    using assms by (intro user_files.allowed_run_inv) (simp_all add: leaves_file_def)
  then show ?thesis by (simp add: leaves_file_def)
qed

theorem user_files_survive_maintenance_witness:
  "map_of (ar_out (foldl maintain demo_area demo_maintenance)) ''song.part'' = Some (demo_staged 1 5 ''abc'') \<and>
   map_of (ar_out (foldl maintain demo_area demo_maintenance)) ''old.part'' = None"
proof -
  let ?f = "se_manifest (demo_staging_env 0)"
  have u: "users_file ?f ''song.part'' (ar_out demo_area)" by code_simp
  have ms: "list_all (\<lambda>m. se_manifest (maintenance_env m) = ?f) demo_maintenance"
    by (simp add: demo_maintenance_def demo_staging_env_def)
  have "map_of (ar_out demo_area) ''song.part'' = Some (demo_staged 1 5 ''abc'')"
    "map_of (ar_out (foldl maintain demo_area demo_maintenance)) ''old.part'' = None" by code_simp+
  then show ?thesis using user_files_survive_maintenance [OF u ms] by simp
qed

text \<open>
  C23. Enforcing the budget leaves at most the given bytes and at most the given number of retained
  partials, unless each of them is gone or protected, active or impossible to remove; a protected one
  is never removed; and one is removed only if every older one is gone or could not be removed.
\<close>

theorem budget_removes_oldest:
  assumes "ar_real a" "se_lock e" and run: "enforce_partial_budget e limit prot a = ((a', removed), err)"
  defines "cs \<equiv> collect_partial_candidates e a"
    and "budget \<equiv> (if limit \<le> 0 then default_retained_partial_budget else limit)"
  shows "(candidate_total cs - candidate_total removed \<le> budget \<and>
       int (length cs) - int (length removed) \<le> default_retained_partial_count \<or>
     (\<forall>c \<in> set cs. candidate_gone a' c \<or> candidate_held e prot a c)) \<and>
    (\<forall>c \<in> set removed. c \<in> set cs \<and> candidate_gone a' c \<and> candidate_path a c \<notin> set prot) \<and>
    (\<forall>c \<in> set removed. \<forall>c' \<in> set cs. candidate_key a c' < candidate_key a c \<longrightarrow>
       candidate_gone a' c' \<or> candidate_held e prot a c')"
proof -
  define t where "t = enforce_budget_locked e limit prot a"
  have "a' = tr_area t" "removed = tr_removed t"
    using run assms(1,2) by (simp_all add: enforce_partial_budget_def t_def Let_def)
  moreover have "trim_ok e budget prot a cs (sort_key (candidate_key a) cs) t"
    unfolding t_def cs_def budget_def by (rule enforce_trimmed)
  ultimately show ?thesis unfolding trim_ok_def within_budget_def by auto
qed

theorem budget_removes_oldest_witness:
  "let out = enforce_partial_budget (demo_staging_env (2 * demo_day)) 9 [''/o/.tantu-staging/t2.part''] demo_area
   in map ca_name (snd (fst out)) = [''t1.part'', ''t3.part.active'', ''old.part''] \<and>
      candidate_total (collect_partial_candidates (demo_staging_env (2 * demo_day)) demo_area) - candidate_total (snd (fst out)) \<le> 9"
proof -
  let ?e = "demo_staging_env (2 * demo_day)" and ?p = "[''/o/.tantu-staging/t2.part'']"
  obtain a' removed err where run: "enforce_partial_budget ?e 9 ?p demo_area = ((a', removed), err)"
    by (cases "enforce_partial_budget ?e 9 ?p demo_area") auto
  have names: "map ca_name (snd (fst (enforce_partial_budget ?e 9 ?p demo_area))) = [''t1.part'', ''t3.part.active'', ''old.part'']"
    by code_simp
  have "ar_real demo_area" "se_lock ?e" by (simp_all add: demo_area_def demo_staging_env_def)
  note b = budget_removes_oldest [OF this run]
  let ?cs = "collect_partial_candidates ?e demo_area"
  have "\<not> (\<forall>c \<in> set ?cs. candidate_gone (fst (fst (enforce_partial_budget ?e 9 ?p demo_area))) c \<or> candidate_held ?e ?p demo_area c)"
    by code_simp
  then have "\<not> (\<forall>c \<in> set ?cs. candidate_gone a' c \<or> candidate_held ?e ?p demo_area c)" by (simp only: run fst_conv simp_thms)
  then have "candidate_total ?cs - candidate_total removed \<le> (if (9::int) \<le> 0 then default_retained_partial_budget else 9)"
    using conjunct1 [OF b] by blast
  then show ?thesis using names by (simp add: run Let_def)
qed

text \<open>
  C21. A partial has one live owner. However receivers acquire, refresh and release the markers of their
  partials, write and delete partials and manifests, and run maintenance, two owners of the same partial
  that have both refreshed their own marker within the last day are the same owner.
\<close>

theorem partial_has_one_live_owner:
  assumes "ss_holds s0 = []" "list_all mannered evs"
  defines "s \<equiv> foldl staging_step s0 evs"
  assumes "h \<in> set (ss_holds s)" "h' \<in> set (ss_holds s)" "ho_part h = ho_part h'" "hold_live s h" "hold_live s h'"
  shows "h = h'"
proof -
  have "holds_ok s" unfolding s_def using assms(2) holds_ok_initial [OF assms(1)] by (rule receivers.allowed_run_inv [rotated])
  then show ?thesis using assms(4-8) by (intro live_holds_equal)
qed

definition demo_marker_env :: marker_env where
  "demo_marker_env = \<lparr>me_env = demo_staging_env 0, me_real = True, me_create_error = (\<lambda>i. None), me_close_fails = False, me_chtimes_fails = False\<rparr>"

definition demo_receivers :: staging_sys where
  "demo_receivers = \<lparr>ss_area = demo_area, ss_clock = 2000, ss_next = 20, ss_holds = []\<rparr>"

text \<open>The first owner falls silent for more than a day; the second takes its place.\<close>

definition demo_takeover :: "staging_event list" where
  "demo_takeover = [Acquires demo_marker_env ''t2.part'', Acquires demo_marker_env ''t2.part'', Passes (demo_day + 1),
     Maintains (Budget (demo_staging_env 0) 100 []), Acquires demo_marker_env ''t2.part'', Touches demo_marker_env 0]"

theorem partial_has_one_live_owner_witness:
  "map (\<lambda>h. (ho_inode h, hold_live (foldl staging_step demo_receivers demo_takeover) h))
     (ss_holds (foldl staging_step demo_receivers demo_takeover)) = [(20, False), (22, True)] \<and>
   (\<lambda>h h'. h = h') (ss_holds (foldl staging_step demo_receivers demo_takeover) ! 1)
     (ss_holds (foldl staging_step demo_receivers demo_takeover) ! 1)"
proof -
  define s where "s = foldl staging_step demo_receivers demo_takeover"
  have v: "map (\<lambda>h. (ho_inode h, hold_live s h)) (ss_holds s) = [(20, False), (22, True)]" unfolding s_def by code_simp
  then have len: "length (ss_holds s) = 2" by (metis length_map length_Cons list.size(3) numeral_2_eq_2)
  have h: "ss_holds s ! 1 \<in> set (ss_holds s)" using len by simp
  have live: "hold_live s (ss_holds s ! 1)" using arg_cong [OF v, of "\<lambda>xs. snd (xs ! 1)"] len by simp
  have ms: "list_all mannered demo_takeover" by code_simp
  have "ss_holds demo_receivers = []" by (simp add: demo_receivers_def)
  from partial_has_one_live_owner [OF this ms, folded s_def, OF h h refl live live] v show ?thesis by (simp add: s_def)
qed

text \<open>A displaced owner is told that it still holds its partial: the marker of another is refreshed for it.\<close>

lemma displaced_owner_refreshes:
  "let s = foldl staging_step demo_receivers (take 5 demo_takeover)
   in snd (touch_activity (marker_at (ss_clock s) demo_marker_env) ''t2.part'' (ss_area s)) \<and>
      \<not> own_marker (ss_area s) (ss_holds s ! 0)"
  by code_simp

end
