(* ===== verification/Rel_Path.thy ===== *)
theory Rel_Path
  imports Drop_Types
begin

text \<open>
  Directory structure preservation (internal/hub/relpath.go): \<open>SanitizeRelPath\<close> accepts or refuses
  a peer's relative path, \<open>JoinRelComponents\<close> makes a path of it (on a platform whose separator is
  the slash), \<open>EnsureRelDirs\<close> creates its parent directories without going through a link.
\<close>

section \<open>Components\<close>

definition max_rel_component :: nat where "max_rel_component = 200"
definition hub_rel_length :: nat where "hub_rel_length = 1024"
definition hub_rel_depth :: nat where "hub_rel_depth = 24"

definition device_names :: "string list" where
  "device_names =
     [''CON'', ''PRN'', ''AUX'', ''NUL'',
      ''COM1'', ''COM2'', ''COM3'', ''COM4'', ''COM5'', ''COM6'', ''COM7'', ''COM8'', ''COM9'',
      ''LPT1'', ''LPT2'', ''LPT3'', ''LPT4'', ''LPT5'', ''LPT6'', ''LPT7'', ''LPT8'', ''LPT9'']"

datatype rel_error =
    RelTooLong | RelAbsolute | RelDrive | RelTooDeep | RelEmpty | RelDots | RelControl | RelColon
  | RelIllegal | RelTrailing | RelWhitespace | RelComponentTooLong | RelReserved

text \<open>The scan of a component for control characters and colons: the first one decides.\<close>

fun scan_component :: "string \<Rightarrow> rel_error option" where
  "scan_component [] = None"
| "scan_component (c # cs) =
     (if control_char c then Some RelControl
      else if c = CHR '':'' then Some RelColon
      else scan_component cs)"

definition illegal_chars :: string where
  "illegal_chars = [CHR ''<'', CHR ''>'', CHR 0x22, CHR ''|'', CHR ''?'', CHR ''*'']"

definition component_refusal :: "string \<Rightarrow> rel_error option" where
  "component_refusal seg =
     (if seg = '''' then Some RelEmpty
      else if seg = ''.'' \<or> seg = ''..'' then Some RelDots
      else (case scan_component seg of
        Some e \<Rightarrow> Some e
      | None \<Rightarrow>
          if list_ex (\<lambda>c. c \<in> set illegal_chars) seg then Some RelIllegal
          else if seg \<noteq> trim_right_chars ''. '' seg then Some RelTrailing
          else if trim_space seg \<noteq> seg then Some RelWhitespace
          else if max_rel_component < length seg then Some RelComponentTooLong
          else if List.member device_names (to_upper (base_name seg)) then Some RelReserved
          else None))"

fun collect_components :: "string list \<Rightarrow> rel_error + string list" where
  "collect_components [] = Inr []"
| "collect_components (seg # segs) =
     (case component_refusal seg of
        Some e \<Rightarrow> Inl e
      | None \<Rightarrow> (case collect_components segs of Inl e \<Rightarrow> Inl e | Inr cs \<Rightarrow> Inr (seg # cs)))"

definition sanitize_rel_path :: "string \<Rightarrow> rel_error + string list" where
  "sanitize_rel_path rel =
     (if trim_space rel = '''' then Inr []
      else if hub_rel_length < length rel then Inl RelTooLong
      else
        let normalized = replace_char backslash (CHR ''/'') rel
        in if has_prefix normalized ''/'' then Inl RelAbsolute
           else if 2 \<le> length normalized \<and> normalized ! 1 = CHR '':'' then Inl RelDrive
           else
             let raw = split_on (CHR ''/'') normalized
             in if hub_rel_depth < length raw then Inl RelTooDeep else collect_components raw)"

text \<open>
  \<open>filepath.Join\<close> of components none of which is empty, a dot or contains a separator - what
  \<open>SanitizeRelPath\<close> returns - is the plain join.
\<close>

definition join_rel_components :: "string list \<Rightarrow> string" where
  "join_rel_components components = join_with (CHR ''/'') components"

section \<open>Parent directories\<close>

text \<open>
  The rooted tree \<open>EnsureRelDirs\<close> works on: what each path names. \<open>rt_lstat_fails\<close> and
  \<open>rt_mkdir_fails\<close> are errors other than absence and existence; \<open>rt_intruder\<close> is what somebody else
  creates at a path between the two calls.
\<close>

datatype entry = Folder | Link | Other

type_synonym tree = "string \<Rightarrow> entry option"

record root_env =
  rt_lstat_fails :: "string \<Rightarrow> bool"
  rt_mkdir_fails :: "string \<Rightarrow> bool"
  rt_restat_fails :: "string \<Rightarrow> bool"
  rt_intruder :: "string \<Rightarrow> entry option"

datatype dir_error = ThroughLink string | NotDirectory string | InspectFailed string
  | CreateFailed string | NotRealDirectory string

definition intrude :: "root_env \<Rightarrow> string \<Rightarrow> tree \<Rightarrow> tree" where
  "intrude env path t =
     (if t path = None then t(path := rt_intruder env path) else t)"

definition ensure_dir :: "root_env \<Rightarrow> string \<Rightarrow> tree \<Rightarrow> tree \<times> dir_error option" where
  "ensure_dir env path t =
     (if rt_lstat_fails env path then (t, Some (InspectFailed path))
      else (case t path of
        Some Link \<Rightarrow> (t, Some (ThroughLink path))
      | Some Other \<Rightarrow> (t, Some (NotDirectory path))
      | Some Folder \<Rightarrow> (t, None)
      | None \<Rightarrow>
          let t1 = intrude env path t
          in if rt_mkdir_fails env path then (t1, Some (CreateFailed path))
             else if t1 path = None then (t1(path \<mapsto> Folder), None)
             else if rt_restat_fails env path then (t1, Some (InspectFailed path))
             else if t1 path = Some Folder then (t1, None)
             else (t1, Some (NotRealDirectory path))))"

fun ensure_dirs_from :: "root_env \<Rightarrow> string \<Rightarrow> string list \<Rightarrow> tree \<Rightarrow> tree \<times> dir_error option" where
  "ensure_dirs_from env acc [] t = (t, None)"
| "ensure_dirs_from env acc (part # parts) t =
     (let path = (if acc = '''' then part else acc @ CHR ''/'' # part)
      in case ensure_dir env path t of
           (t1, Some e) \<Rightarrow> (t1, Some e)
         | (t1, None) \<Rightarrow> ensure_dirs_from env path parts t1)"

definition ensure_rel_dirs :: "root_env \<Rightarrow> string \<Rightarrow> tree \<Rightarrow> tree \<times> dir_error option" where
  "ensure_rel_dirs env rel t =
     (if rel = '''' then (t, None)
      else ensure_dirs_from env '''' (butlast (split_on (CHR ''/'') rel)) t)"

section \<open>Lemmas on components\<close>

lemma scan_component_none:
  "scan_component s = None \<longleftrightarrow> (\<forall>c \<in> set s. \<not> control_char c \<and> c \<noteq> CHR '':'')"
  by (induction s) auto

definition safe_component :: "string \<Rightarrow> bool" where
  "safe_component seg \<longleftrightarrow>
     seg \<noteq> '''' \<and> seg \<noteq> ''.'' \<and> seg \<noteq> ''..'' \<and>
     (\<forall>c \<in> set seg. \<not> control_char c \<and> c \<noteq> CHR '':'' \<and> c \<noteq> CHR ''/'' \<and> c \<noteq> backslash \<and>
        c \<notin> set illegal_chars) \<and>
     last seg \<noteq> CHR ''.'' \<and> last seg \<noteq> CHR '' '' \<and> trim_space seg = seg \<and>
     length seg \<le> max_rel_component \<and> to_upper (base_name seg) \<notin> set device_names"

lemma trim_right_chars_last:
  assumes "s = trim_right_chars cutset s" "s \<noteq> ''''"
  shows "last s \<notin> set cutset"
proof
  assume l: "last s \<in> set cutset"
  obtain c r where r: "rev s = c # r" using assms(2) by (cases "rev s") auto
  then have c: "c = last s" using assms(2) by (metis hd_rev list.sel(1))
  have "length (trim_right_chars cutset s) = length (dropWhile (\<lambda>c. c \<in> set cutset) r)"
    unfolding trim_right_chars_def r using l c by simp
  also have "\<dots> < length (rev s)" using r by (simp add: less_Suc_eq_le length_dropWhile_le)
  finally show False using assms(1) by simp
qed

lemma component_refusal_none:
  assumes "component_refusal seg = None" "CHR ''/'' \<notin> set seg" "backslash \<notin> set seg"
  shows "safe_component seg"
proof -
  from assms(1) have s: "seg \<noteq> ''''" "seg \<noteq> ''.''" "seg \<noteq> ''..''" "scan_component seg = None"
    "\<not> list_ex (\<lambda>c. c \<in> set illegal_chars) seg" "seg = trim_right_chars ''. '' seg"
    "trim_space seg = seg" "length seg \<le> max_rel_component"
    "to_upper (base_name seg) \<notin> set device_names"
    by (auto simp: component_refusal_def split: if_splits option.splits)
  from trim_right_chars_last [OF s(6,1)] have "last seg \<noteq> CHR ''.''" "last seg \<noteq> CHR '' ''" by auto
  with s assms(2,3) show ?thesis
    by (auto simp: safe_component_def scan_component_none list_ex_iff)
qed

lemma collect_components_ok:
  "collect_components segs = Inr cs \<longleftrightarrow> cs = segs \<and> (\<forall>s \<in> set segs. component_refusal s = None)"
proof (induction segs arbitrary: cs)
  case (Cons seg segs)
  show ?case
  proof (cases "component_refusal seg")
    case None
    then show ?thesis
      using Cons.IH by (cases "collect_components segs") auto
  qed simp
qed auto

lemma replace_char_gone: "a \<noteq> b \<Longrightarrow> a \<notin> set (replace_char a b s)"
  by (auto simp: replace_char_def)

lemma length_replace_char [simp]: "length (replace_char a b s) = length s"
  by (simp add: replace_char_def)

lemma replace_char_absent: "a \<notin> set s \<Longrightarrow> replace_char a b s = s"
  by (induction s) (auto simp: replace_char_def)

lemma sanitize_cases:
  assumes "sanitize_rel_path rel = Inr cs" "cs \<noteq> []"
  shows "cs = split_on (CHR ''/'') (replace_char backslash (CHR ''/'') rel)"
    "\<forall>c \<in> set cs. component_refusal c = None" "length rel \<le> hub_rel_length"
    "length cs \<le> hub_rel_depth" "\<not> has_prefix (replace_char backslash (CHR ''/'') rel) ''/''"
    "\<not> (2 \<le> length rel \<and> replace_char backslash (CHR ''/'') rel ! 1 = CHR '':'')"
    "trim_space rel \<noteq> ''''"
  using assms
  by (auto simp: sanitize_rel_path_def Let_def collect_components_ok split: if_splits)

section \<open>Lemmas on directories\<close>

text \<open>The paths of the parent directories, outermost first.\<close>

fun parent_paths :: "string \<Rightarrow> string list \<Rightarrow> string list" where
  "parent_paths acc [] = []"
| "parent_paths acc (part # parts) =
     (let path = (if acc = '''' then part else acc @ CHR ''/'' # part)
      in path # parent_paths path parts)"

definition parents :: "string \<Rightarrow> string list" where
  "parents rel = (if rel = '''' then [] else parent_paths '''' (butlast (split_on (CHR ''/'') rel)))"

lemma ensure_dir_facts:
  assumes "ensure_dir env path t = (t1, r)"
  shows "r = None \<Longrightarrow> t1 path = Some Folder" "t p \<noteq> None \<Longrightarrow> t1 p = t p"
    "p \<noteq> path \<Longrightarrow> t1 p = t p"
    "t path = Some Link \<or> t path = Some Other \<Longrightarrow> r \<noteq> None"
    "t p = None \<Longrightarrow> t1 p = Some x \<Longrightarrow> x = Folder \<or> rt_intruder env p = Some x"
  using assms
  by (auto simp: ensure_dir_def intrude_def Let_def split: if_splits option.splits entry.splits)

text \<open>
  A run stops after \<open>k\<close> of the paths: those are real folders, and nothing but them and the next path
  has changed.
\<close>

lemma ensure_dirs_from_facts:
  assumes "ensure_dirs_from env acc parts t = (t', r)"
  shows "\<exists>k \<le> length (parent_paths acc parts).
      (\<forall>i < k. t' (parent_paths acc parts ! i) = Some Folder) \<and>
      (\<forall>p. p \<notin> set (take (Suc k) (parent_paths acc parts)) \<longrightarrow> t' p = t p) \<and>
      (r = None \<longleftrightarrow> k = length (parent_paths acc parts))"
    and "\<forall>p. t p \<noteq> None \<longrightarrow> t' p = t p"
    and "\<forall>p x. t p = None \<longrightarrow> t' p = Some x \<longrightarrow> x = Folder \<or> rt_intruder env p = Some x"
proof -
  have "(\<exists>k \<le> length (parent_paths acc parts).
      (\<forall>i < k. t' (parent_paths acc parts ! i) = Some Folder) \<and>
      (\<forall>p. p \<notin> set (take (Suc k) (parent_paths acc parts)) \<longrightarrow> t' p = t p) \<and>
      (r = None \<longleftrightarrow> k = length (parent_paths acc parts))) \<and>
    (\<forall>p. t p \<noteq> None \<longrightarrow> t' p = t p) \<and>
    (\<forall>p x. t p = None \<longrightarrow> t' p = Some x \<longrightarrow> x = Folder \<or> rt_intruder env p = Some x)"
    using assms
  proof (induction env acc parts t arbitrary: t' r rule: ensure_dirs_from.induct)
    case (2 env acc part parts t)
    define path where "path = (if acc = '''' then part else acc @ CHR ''/'' # part)"
    obtain t1 r1 where e: "ensure_dir env path t = (t1, r1)" by (cases "ensure_dir env path t")
    note f = ensure_dir_facts [OF e]
    let ?ps = "parent_paths acc (part # parts)"
    have ps: "?ps = path # parent_paths path parts" by (simp add: path_def Let_def)
    show ?case
    proof (cases r1)
      case (Some err)
      then have t': "t' = t1" "r = Some err" using "2.prems" e by (simp_all add: path_def Let_def)
      have k0: "\<exists>k \<le> length ?ps. (\<forall>i < k. t' (?ps ! i) = Some Folder) \<and>
          (\<forall>p. p \<notin> set (take (Suc k) ?ps) \<longrightarrow> t' p = t p) \<and> (r = None \<longleftrightarrow> k = length ?ps)"
        using t' f(3) by (intro exI [of _ 0]) (simp add: ps del: parent_paths.simps)
      have "\<forall>p. t p \<noteq> None \<longrightarrow> t' p = t p" using f(2) unfolding t'(1) by blast
      moreover have "\<forall>p x. t p = None \<longrightarrow> t' p = Some x \<longrightarrow> x = Folder \<or> rt_intruder env p = Some x"
        using f(5) unfolding t'(1) by blast
      ultimately show ?thesis using k0 by blast
    next
      case None
      then have rest: "ensure_dirs_from env path parts t1 = (t', r)"
        using "2.prems" e by (simp add: path_def Let_def)
      from "2.IH" [OF path_def e [unfolded None, symmetric] refl rest] obtain k where
        k: "k \<le> length (parent_paths path parts)"
          "\<forall>i < k. t' (parent_paths path parts ! i) = Some Folder"
          "\<forall>p. p \<notin> set (take (Suc k) (parent_paths path parts)) \<longrightarrow> t' p = t1 p"
          "r = None \<longleftrightarrow> k = length (parent_paths path parts)"
        and keep: "\<forall>p. t1 p \<noteq> None \<longrightarrow> t' p = t1 p"
        and new: "\<forall>p x. t1 p = None \<longrightarrow> t' p = Some x \<longrightarrow> x = Folder \<or> rt_intruder env p = Some x"
        by blast
      have "t' path = Some Folder" using f(1) [OF None] keep by (metis option.distinct(1))
      then have "\<forall>i < Suc k. t' (?ps ! i) = Some Folder"
        using k(2) by (auto simp: ps less_Suc_eq_0_disj simp del: parent_paths.simps)
      moreover have "\<forall>p. p \<notin> set (take (Suc (Suc k)) ?ps) \<longrightarrow> t' p = t p"
        using k(3) f(3) by (simp add: ps del: parent_paths.simps)
      ultimately have ex: "\<exists>k \<le> length ?ps. (\<forall>i < k. t' (?ps ! i) = Some Folder) \<and>
          (\<forall>p. p \<notin> set (take (Suc k) ?ps) \<longrightarrow> t' p = t p) \<and> (r = None \<longleftrightarrow> k = length ?ps)"
        using k(1,4) by (intro exI [of _ "Suc k"]) (simp add: ps del: parent_paths.simps)
      moreover have "\<forall>p. t p \<noteq> None \<longrightarrow> t' p = t p" using f(2) keep by metis
      moreover have "\<forall>p x. t p = None \<longrightarrow> t' p = Some x \<longrightarrow> x = Folder \<or> rt_intruder env p = Some x"
        using f(5) keep new by (metis option.inject)
      ultimately show ?thesis by blast
    qed
  qed auto
  then show "\<exists>k \<le> length (parent_paths acc parts).
      (\<forall>i < k. t' (parent_paths acc parts ! i) = Some Folder) \<and>
      (\<forall>p. p \<notin> set (take (Suc k) (parent_paths acc parts)) \<longrightarrow> t' p = t p) \<and>
      (r = None \<longleftrightarrow> k = length (parent_paths acc parts))"
    and "\<forall>p. t p \<noteq> None \<longrightarrow> t' p = t p"
    and "\<forall>p x. t p = None \<longrightarrow> t' p = Some x \<longrightarrow> x = Folder \<or> rt_intruder env p = Some x"
    by simp_all
qed

lemma join_with_chars: "x \<in> set (join_with d ws) \<Longrightarrow> x = d \<or> (\<exists>w \<in> set ws. x \<in> set w)"
  by (induction d ws rule: join_with.induct) auto

section \<open>Properties\<close>

lemma sanitized_safe:
  assumes "sanitize_rel_path rel = Inr cs" "cs \<noteq> []"
  shows "\<forall>c \<in> set cs. safe_component c" "join_rel_components cs = replace_char backslash (CHR ''/'') rel"
    "split_on (CHR ''/'') (join_rel_components cs) = cs"
proof -
  note c = sanitize_cases [OF assms]
  show "\<forall>c \<in> set cs. safe_component c"
  proof
    fix w assume w: "w \<in> set cs"
    then have "CHR ''/'' \<notin> set w" using c(1) split_on_no_sep by blast
    moreover have "backslash \<notin> set w"
      using w c(1) split_on_chars [of w] replace_char_gone [of backslash "CHR ''/''" rel] by auto
    ultimately show "safe_component w" using c(2) w by (intro component_refusal_none) simp_all
  qed
  show j: "join_rel_components cs = replace_char backslash (CHR ''/'') rel"
    by (simp add: join_rel_components_def c(1))
  show "split_on (CHR ''/'') (join_rel_components cs) = cs" by (simp add: j flip: c(1))
qed

text \<open>
  C35. A relative path is accepted as it is or refused, never rewritten: the components that are
  returned joined with slashes are the path itself (backslashes read as slashes), every component is
  a plain name - not empty, a dot or two dots, free of separators, colons, control characters and the
  characters Windows rejects, not ending in a dot or space, of bounded length, no device name - and
  accepting the joined path again gives the same components. Whatever is accepted here also passes
  the check of the wire layer.
\<close>

theorem sanitized_path_is_plain:
  assumes "sanitize_rel_path rel = Inr cs" "cs \<noteq> []"
  shows "join_rel_components cs = replace_char backslash (CHR ''/'') rel \<and>
    split_on (CHR ''/'') (join_rel_components cs) = cs \<and>
    (\<forall>c \<in> set cs. safe_component c) \<and> length cs \<le> 24 \<and>
    sanitize_rel_path (join_rel_components cs) = Inr cs \<and> validate_rel_path rel = None"
proof -
  note c = sanitize_cases [OF assms] and safe = sanitized_safe [OF assms]
  let ?n = "replace_char backslash (CHR ''/'') rel"
  have n: "replace_char backslash (CHR ''/'') ?n = ?n"
    by (rule replace_char_absent) (rule replace_char_gone, simp)
  have trim: "trim_space ?n \<noteq> ''''"
  proof (cases "backslash \<in> set rel")
    case True
    then have "CHR ''/'' \<in> set ?n" by (auto simp: replace_char_def)
    then have "CHR ''/'' \<in> set (trim_space ?n)"
      by (rule trim_space_keeps_graph) (simp add: ascii_graph_def)
    then show ?thesis by auto
  qed (use c(7) in \<open>simp add: replace_char_absent\<close>)
  have idem: "sanitize_rel_path ?n = Inr cs"
    using c trim n by (simp add: sanitize_rel_path_def Let_def collect_components_ok)
  have chars: "\<not> list_ex control_char rel"
  proof
    assume "list_ex control_char rel"
    then obtain x where x: "x \<in> set rel" "control_char x" by (auto simp: list_ex_iff)
    then have "x \<in> set ?n" by (force simp: replace_char_def control_char_def)
    then have "x \<in> set (join_with (CHR ''/'') cs)" by (simp add: c(1))
    then have "x = CHR ''/'' \<or> (\<exists>w \<in> set cs. x \<in> set w)" by (rule join_with_chars)
    moreover have "\<forall>w \<in> set cs. \<forall>c \<in> set w. \<not> control_char c"
      using safe(1) by (simp add: safe_component_def)
    moreover have "\<not> control_char (CHR ''/'')" by (simp add: control_char_def)
    ultimately show False using x(2) by blast
  qed
  have "validate_rel_path rel = None"
  proof -
    have segs: "\<not> list_ex bad_segment (split_on (CHR ''/'') ?n)"
      using safe(1) c(1) by (auto simp: list_ex_iff bad_segment_def safe_component_def)
    have pre: "\<not> has_prefix rel ''/''" "\<not> has_prefix rel [backslash]"
      using c(5) by (cases rel; auto simp: has_prefix_def replace_char_def)+
    have drive: "\<not> (2 \<le> length rel \<and> rel ! 1 = CHR '':'')"
      using c(6) by (auto simp: replace_char_def)
    have "length (split_on (CHR ''/'') ?n) \<le> 24" "length rel \<le> 1024"
      using c(1,3,4) by (simp_all add: hub_rel_length_def hub_rel_depth_def)
    with segs pre drive chars show ?thesis
      by (simp add: validate_rel_path_def Let_def drop_limits hub_rel_length_def hub_rel_depth_def)
  qed
  with safe c(4) idem show ?thesis by (simp add: hub_rel_depth_def)
qed

theorem sanitized_path_is_plain_witness:
  "sanitize_rel_path ''docs/api/readme.md'' = Inr [''docs'', ''api'', ''readme.md''] \<and>
     safe_component ''docs'' \<and> safe_component ''api'' \<and> safe_component ''readme.md''"
proof -
  have s: "sanitize_rel_path ''docs/api/readme.md'' = Inr [''docs'', ''api'', ''readme.md'']" by code_simp
  from sanitized_path_is_plain [OF s] s show ?thesis by simp
qed

text \<open>
  Creating the parents of a destination never goes through a link or replaces anything: whatever
  is at a path stays there, the only paths that can change are the parents themselves, in order, up
  to the first one that is not a real folder; what appears there is a folder, or was put there by
  somebody else. If the call succeeds, every parent is a real folder; if some parent is a link or a
  plain file beforehand, it fails.
\<close>

theorem ensure_rel_dirs_confined:
  "let (t', r) = ensure_rel_dirs env rel t
   in (\<exists>k \<le> length (parents rel).
        (\<forall>i < k. t' (parents rel ! i) = Some Folder) \<and>
        (\<forall>p. p \<notin> set (take (Suc k) (parents rel)) \<longrightarrow> t' p = t p) \<and>
        (r = None \<longleftrightarrow> k = length (parents rel))) \<and>
      (\<forall>p. t p \<noteq> None \<longrightarrow> t' p = t p) \<and>
      (\<forall>p x. t p = None \<longrightarrow> t' p = Some x \<longrightarrow> x = Folder \<or> rt_intruder env p = Some x) \<and>
      (\<forall>p \<in> set (parents rel). t p = Some Link \<or> t p = Some Other \<longrightarrow> r \<noteq> None)"
proof -
  obtain t' r where e: "ensure_rel_dirs env rel t = (t', r)" by (cases "ensure_rel_dirs env rel t")
  show ?thesis
  proof (cases "rel = ''''")
    case True
    with e show ?thesis by (auto simp: ensure_rel_dirs_def parents_def)
  next
    case False
    with e have run: "ensure_dirs_from env '''' (butlast (split_on (CHR ''/'') rel)) t = (t', r)"
      by (simp add: ensure_rel_dirs_def)
    have ps: "parents rel = parent_paths '''' (butlast (split_on (CHR ''/'') rel))"
      using False by (simp add: parents_def)
    note f = ensure_dirs_from_facts [OF run, folded ps]
    obtain k where k: "k \<le> length (parents rel)" "\<forall>i < k. t' (parents rel ! i) = Some Folder"
      "r = None \<longleftrightarrow> k = length (parents rel)" using f(1) by blast
    have "r \<noteq> None" if p: "p \<in> set (parents rel)" and l: "t p = Some Link \<or> t p = Some Other" for p
    proof
      assume "r = None"
      with k p have "t' p = Some Folder" by (auto simp: in_set_conv_nth)
      with f(2) l show False by (metis entry.distinct(1,3) option.distinct(1) option.inject)
    qed
    with f e show ?thesis by simp
  qed
qed

theorem ensure_rel_dirs_confined_witness:
  "snd (ensure_rel_dirs \<lparr>rt_lstat_fails = (\<lambda>_. False), rt_mkdir_fails = (\<lambda>_. False),
     rt_restat_fails = (\<lambda>_. False), rt_intruder = (\<lambda>_. None)\<rparr> ''a/b/f'' [''a'' \<mapsto> Link]) \<noteq> None"
  using ensure_rel_dirs_confined [of "\<lparr>rt_lstat_fails = (\<lambda>_. False), rt_mkdir_fails = (\<lambda>_. False),
     rt_restat_fails = (\<lambda>_. False), rt_intruder = (\<lambda>_. None)\<rparr>" "''a/b/f''" "[''a'' \<mapsto> Link]"]
  by (simp add: split_def Let_def parents_def)

end
