(* ===== verification/Pairing_Code.thy ===== *)
theory Pairing_Code
  imports Wire_Protocol
begin

text \<open>
  Identities and the code two people compare when they pair their machines
  (internal/pairing/cert.go): the fingerprint of a certificate, the check of an identity, and the
  short authentication string over the transcript of a pairing. Decoding of PEM and X.509 and the
  hash are parameters.
\<close>

section \<open>Fingerprints and identities\<close>

text \<open>
  \<open>pem.Decode\<close> gives the type and the bytes of the first block and what follows it;
  \<open>pk_parses\<close> is \<open>x509.ParseCertificate\<close>, \<open>pk_key_pair\<close> is \<open>tls.X509KeyPair\<close>; \<open>pk_sha\<close> is SHA-256, of
  32 bytes.
\<close>

record pki =
  pk_pem :: "string \<Rightarrow> (string \<times> string \<times> string) option"
  pk_parses :: "string \<Rightarrow> bool"
  pk_key_pair :: "string \<Rightarrow> string \<Rightarrow> bool"
  pk_sha :: "string \<Rightarrow> string"

definition hex_digit :: "nat \<Rightarrow> char" where
  "hex_digit n = (if n < 10 then char_of (48 + n) else char_of (87 + n))"

definition hex_encode :: "string \<Rightarrow> string" where
  "hex_encode bs = concat (map (\<lambda>c. [hex_digit (code c div 16), hex_digit (code c mod 16)]) bs)"

datatype cert_error =
    WrongBlockType string | MultipleBlocks | BadCertificate | NoBlock | TrailingData

text \<open>A second block ends the loop of the code with an error, whatever it is.\<close>

definition fingerprint :: "pki \<Rightarrow> string \<Rightarrow> cert_error + string" where
  "fingerprint pk cert_pem =
     (case pk_pem pk cert_pem of
        None \<Rightarrow> Inl NoBlock
      | Some (type, der, rest) \<Rightarrow>
          if type \<noteq> ''CERTIFICATE'' then Inl (WrongBlockType type)
          else if \<not> pk_parses pk der then Inl BadCertificate
          else (case pk_pem pk rest of
            Some (type2, _, _) \<Rightarrow> if type2 \<noteq> ''CERTIFICATE'' then Inl (WrongBlockType type2) else Inl MultipleBlocks
          | None \<Rightarrow>
              if trim_space rest \<noteq> '''' then Inl TrailingData
              else Inr (hex_encode (pk_sha pk der))))"

record identity =
  id_cert :: string
  id_key :: string
  id_fingerprint :: string

datatype identity_error = IdentityNil | IdentityCert cert_error | IdentityMismatch | IdentityKeyPair

definition validate_identity :: "pki \<Rightarrow> identity option \<Rightarrow> identity_error option" where
  "validate_identity pk io =
     (case io of
        None \<Rightarrow> Some IdentityNil
      | Some i \<Rightarrow>
          (case fingerprint pk (id_cert i) of
             Inl e \<Rightarrow> Some (IdentityCert e)
           | Inr fp \<Rightarrow>
               if id_fingerprint i = '''' \<or> \<not> equal_fold (id_fingerprint i) fp then Some IdentityMismatch
               else if \<not> pk_key_pair pk (id_cert i) (id_key i) then Some IdentityKeyPair
               else None))"

definition sas_code :: "string \<Rightarrow> string" where
  "sas_code fp = (if length fp < 6 then fp else take 6 fp)"

section \<open>The short authentication string\<close>

definition sas_word_list :: "string list" where
  "sas_word_list =
    [
     ''able'', ''acid'', ''aged'', ''aloe'', ''arch'', ''atom'', ''aunt'', ''away'', ''axis'',
     ''baby'', ''back'', ''bald'', ''barn'', ''beam'', ''bear'', ''beat'', ''bell'', ''belt'',
     ''bend'', ''best'', ''bird'', ''bite'', ''blue'', ''boat'', ''body'', ''bold'', ''bone'',
     ''book'', ''boot'', ''born'', ''both'', ''bowl'', ''bulk'', ''burn'', ''bush'', ''busy'',
     ''cake'', ''calm'', ''came'', ''camp'', ''card'', ''care'', ''cart'', ''case'', ''cash'',
     ''cast'', ''cell'', ''chat'', ''chef'', ''chip'', ''city'', ''clay'', ''clip'', ''club'',
     ''coal'', ''coat'', ''code'', ''cold'', ''comb'', ''come'', ''cook'', ''cool'', ''cord'',
     ''corn'', ''cost'', ''crew'', ''crop'', ''dark'', ''dawn'', ''days'', ''deal'', ''deck'',
     ''deep'', ''deer'', ''desk'', ''dial'', ''dice'', ''diet'', ''dish'', ''docs'', ''dome'',
     ''done'', ''door'', ''dose'', ''down'', ''draw'', ''drew'', ''drop'', ''drum'', ''dual'',
     ''duck'', ''dust'', ''duty'', ''each'', ''earn'', ''ease'', ''east'', ''easy'', ''echo'',
     ''edge'', ''edit'', ''else'', ''even'', ''ever'', ''exam'', ''exit'', ''face'', ''fact'',
     ''fade'', ''fail'', ''fair'', ''fame'', ''farm'', ''fast'', ''fate'', ''fear'', ''feed'',
     ''feel'', ''fern'', ''file'', ''fill'', ''film'', ''find'', ''fine'', ''fire'', ''firm'',
     ''fish'', ''fist'', ''five'', ''flag'', ''flat'', ''flow'', ''foam'', ''fold'', ''food'',
     ''foot'', ''form'', ''fort'', ''four'', ''free'', ''from'', ''fuel'', ''full'', ''fund'',
     ''gain'', ''game'', ''gate'', ''gave'', ''gear'', ''gift'', ''girl'', ''give'', ''glad'',
     ''goal'', ''goes'', ''gold'', ''golf'', ''gone'', ''good'', ''gray'', ''grew'', ''grey'',
     ''grow'', ''gulf'', ''hair'', ''half'', ''hall'', ''hand'', ''hang'', ''hard'', ''harm'',
     ''hate'', ''have'', ''hawk'', ''head'', ''hear'', ''heat'', ''help'', ''here'', ''hero'',
     ''high'', ''hill'', ''hint'', ''hire'', ''hold'', ''hole'', ''holy'', ''home'', ''hope'',
     ''horn'', ''host'', ''hour'', ''huge'', ''hunt'', ''idea'', ''inch'', ''into'', ''iron'',
     ''item'', ''jazz'', ''join'', ''jump'', ''jury'', ''just'', ''keen'', ''keep'', ''kelp'',
     ''kind'', ''king'', ''kite'', ''knee'', ''know'', ''lace'', ''lake'', ''lamb'', ''lamp'',
     ''land'', ''lane'', ''lark'', ''last'', ''late'', ''lawn'', ''leaf'', ''lean'', ''leap'',
     ''left'', ''lens'', ''less'', ''life'', ''lift'', ''like'', ''lime'', ''line'', ''link'',
     ''lion'', ''list'', ''live'', ''load'', ''loaf'', ''loan'', ''lock'', ''loud'', ''luck'',
     ''lump'', ''lung'', ''made'', ''mail'', ''main'', ''make'', ''male'', ''mall'', ''many'',
     ''mark'', ''mask'', ''mass'', ''maze'', ''meal'', ''mean'', ''meat'', ''meet'', ''meld'',
     ''menu'', ''mild'', ''mile'', ''milk'', ''mill'', ''mind'', ''mine'', ''mint'', ''mist'',
     ''mode'', ''mood'', ''moon'', ''more'', ''most'', ''mule'', ''must'', ''nail'', ''name'',
     ''navy'', ''near'', ''neat'', ''neck'', ''need'', ''nest'', ''news'', ''next'', ''nice'',
     ''nine'', ''node'', ''none'', ''nose'', ''note'', ''oath'', ''obey'', ''odds'', ''once'',
     ''only'', ''open'', ''oral'', ''oval'', ''oven'', ''over'', ''pace'', ''pack'', ''page'',
     ''paid'', ''pair'', ''palm'', ''park'', ''part'', ''pass'', ''past'', ''path'', ''peak'',
     ''pear'', ''peer'', ''pick'', ''pier'', ''pile'', ''pine'', ''pink'', ''pipe'', ''plan'',
     ''play'', ''plot'', ''plug'', ''plus'', ''poll'', ''pool'', ''poor'', ''port'', ''post'',
     ''pump'', ''pure'', ''push'', ''quad'', ''quiz'', ''race'', ''rack'', ''raft'', ''rail'',
     ''rain'', ''rake'', ''rare'', ''rate'', ''read'', ''real'', ''reed'', ''reef'', ''rent'',
     ''rest'', ''rice'', ''ride'', ''ring'', ''rise'', ''road'', ''robe'', ''rock'', ''role'',
     ''roll'', ''roof'', ''room'', ''root'', ''rope'', ''rose'', ''ruby'', ''rule'', ''rush'',
     ''rust'', ''sail'', ''salt'', ''same'', ''sand'', ''sane'', ''save'', ''scan'', ''scar'',
     ''seal'', ''seam'', ''seat'', ''seed'', ''seek'', ''seem'', ''seen'', ''self'', ''sell'',
     ''send'', ''sept'', ''shut'', ''sick'', ''side'', ''sign'', ''silk'', ''sing'', ''sink'',
     ''site'', ''size'', ''skin'', ''slab'', ''slot'', ''slow'', ''snow'', ''soap'', ''soft'',
     ''soil'', ''sold'', ''solo'', ''some'', ''song'', ''soon'', ''sort'', ''soul'', ''spot'',
     ''star'', ''stay'', ''stem'', ''step'', ''stop'', ''such'', ''suit'', ''sulk'', ''sung'',
     ''sure'', ''surf'', ''swan'', ''tail'', ''take'', ''tale'', ''talk'', ''tall'', ''tank'',
     ''tape'', ''task'', ''team'', ''tear'', ''tech'', ''tell'', ''tend'', ''tent'', ''term'',
     ''test'', ''text'', ''than'', ''that'', ''them'', ''then'', ''thin'', ''this'', ''thud'',
     ''tide'', ''tidy'', ''tier'', ''tile'', ''tilt'', ''time'', ''tiny'', ''toll'', ''tomb'',
     ''tone'', ''tool'', ''torn'', ''tour'', ''town'', ''trap'', ''tray'', ''tree'', ''trip'',
     ''trod'', ''tune'', ''twin'', ''type'', ''ugly'', ''undo'', ''unit'', ''upon'', ''used'',
     ''user'', ''vast'', ''verb'', ''very'', ''vest'', ''view'', ''vine'', ''visa'', ''void'',
     ''vote'', ''wade'', ''wage'', ''wait'', ''wake'', ''walk'', ''wall'', ''wand'', ''want'',
     ''ward'', ''warm'', ''wash'', ''wave'', ''waxy'', ''weak'', ''weed'', ''week'', ''well'',
     ''went'', ''west'', ''what'', ''when'', ''whim'', ''whip'', ''whom'', ''wide''    ]"

definition sas_word_bits :: nat where "sas_word_bits = 9"
definition sas_word_total :: nat where "sas_word_total = 6"

definition write_length_prefixed :: "string \<Rightarrow> string" where
  "write_length_prefixed b = put_uint32 (length b) @ b"

text \<open>The bytes that are hashed: the contribution of the smaller fingerprint comes first.\<close>

definition transcript :: "string \<Rightarrow> string \<Rightarrow> string \<Rightarrow> string \<Rightarrow> string" where
  "transcript local_fp peer_fp local_nonce peer_nonce =
     (let l = (to_lower (trim_space local_fp), local_nonce); p = (to_lower (trim_space peer_fp), peer_nonce);
          (a, b) = (if fst p < fst l then (p, l) else (l, p))
      in ''tantu/pairing-sas/v2'' @ [CHR 0x00] @
         write_length_prefixed (fst a) @ write_length_prefixed (snd a) @
         write_length_prefixed (fst b) @ write_length_prefixed (snd b))"

text \<open>The index of word \<open>i\<close>: nine bits of the digest, from bit \<open>9 i\<close> on.\<close>

definition sas_index :: "string \<Rightarrow> nat \<Rightarrow> nat" where
  "sas_index digest i =
     (let bit_offset = i * sas_word_bits; byte_offset = bit_offset div 8; shift = bit_offset mod 8
      in (code (digest ! byte_offset) * 256 + code (digest ! (byte_offset + 1))) div 2 ^ (16 - sas_word_bits - shift)
         mod length sas_word_list)"

definition sas_text :: "string \<Rightarrow> string" where
  "sas_text digest =
     to_upper (join_with (CHR ''-'') (map (\<lambda>i. sas_word_list ! sas_index digest i) [0..<sas_word_total]))"

definition transcript_sas :: "pki \<Rightarrow> string \<Rightarrow> string \<Rightarrow> string \<Rightarrow> string \<Rightarrow> string" where
  "transcript_sas pk local_fp peer_fp local_nonce peer_nonce =
     sas_text (pk_sha pk (transcript local_fp peer_fp local_nonce peer_nonce))"

section \<open>What the code shows\<close>

lemma sas_word_list_length [simp]: "length sas_word_list = 512"
  by (simp add: sas_word_list_def)

lemma sas_word_list_sorted: "successively (<) sas_word_list"
  unfolding sas_word_list_def by code_simp

lemma sas_word_list_distinct: "distinct sas_word_list"
proof -
  have "sorted_wrt (<) sas_word_list"
    using sas_word_list_sorted by (simp add: successively_conv_sorted_wrt transp_on_less)
  then show ?thesis by (simp add: strict_sorted_iff)
qed

definition lower_letter :: "char \<Rightarrow> bool" where
  "lower_letter c \<longleftrightarrow> CHR ''a'' \<le> c \<and> c \<le> CHR ''z''"

lemma sas_word_list_letters: "list_all (list_all lower_letter) sas_word_list"
  unfolding sas_word_list_def by code_simp

text \<open>The bits of the digest the code shows: six bytes and six bits.\<close>

definition shown_bits :: "string \<Rightarrow> string \<times> nat" where
  "shown_bits digest = (take 6 digest, code (digest ! 6) div 4)"

lemma nine_bits:
  fixes a b d q :: nat
  assumes "q * d = 256" "a < 256" "b < 256"
  shows "(a * 256 + b) div d mod 512 = a mod (2 * d) * q + b div d"
proof -
  have d: "0 < d" using assms(1) by (cases d) simp_all
  have "(a * 256 + b) div d = a * q + b div d"
    using d by (simp add: assms(1) [symmetric] mult.assoc [symmetric])
  also have "a * q = a div (2 * d) * 512 + a mod (2 * d) * q"
  proof -
    have "a * q = (a div (2 * d) * (2 * d) + a mod (2 * d)) * q" by (simp only: div_mult_mod_eq)
    also have "\<dots> = a div (2 * d) * (2 * (q * d)) + a mod (2 * d) * q" by (simp add: algebra_simps)
    finally show ?thesis by (simp add: assms(1))
  qed
  finally have e: "(a * 256 + b) div d = a div (2 * d) * 512 + (a mod (2 * d) * q + b div d)" by simp
  have "b div d < q" using assms(1,3) d by (simp add: div_less_iff_less_mult mult.commute)
  moreover have "a mod (2 * d) * q \<le> (2 * d - 1) * q"
    using d by (intro mult_right_mono) (simp_all add: less_Suc_eq_le [symmetric])
  moreover have "(2 * d - 1) * q + q = 512"
    using assms(1) d by (cases d) (simp_all add: algebra_simps)
  ultimately have "a mod (2 * d) * q + b div d < 512" by linarith
  then show ?thesis by (simp add: e)
qed

lemma code_256 [simp]: "code c < (256 :: nat)"
  by simp

lemma sas_index_eqs:
  "sas_index d 0 = code (d ! 0) * 2 + code (d ! 1) div 128"
  "sas_index d (Suc 0) = code (d ! 1) mod 128 * 4 + code (d ! 2) div 64"
  "sas_index d 2 = code (d ! 2) mod 64 * 8 + code (d ! 3) div 32"
  "sas_index d 3 = code (d ! 3) mod 32 * 16 + code (d ! 4) div 16"
  "sas_index d 4 = code (d ! 4) mod 16 * 32 + code (d ! 5) div 8"
  "sas_index d 5 = code (d ! 5) mod 8 * 64 + code (d ! 6) div 4"
  using nine_bits [OF _ code_256 code_256, of 2 128] nine_bits [OF _ code_256 code_256, of 4 64]
    nine_bits [OF _ code_256 code_256, of 8 32] nine_bits [OF _ code_256 code_256, of 16 16]
    nine_bits [OF _ code_256 code_256, of 32 8] nine_bits [OF _ code_256 code_256, of 64 4]
  by (simp_all add: sas_index_def sas_word_bits_def numeral_2_eq_2 [symmetric])

lemma sas_index_less: "sas_index d i < 512"
  by (simp add: sas_index_def Let_def)

lemma sas_index_shown:
  assumes "7 \<le> length d" "7 \<le> length e"
  shows "map (sas_index d) [0..<6] = map (sas_index e) [0..<6] \<longleftrightarrow> shown_bits d = shown_bits e"
proof -
  obtain d0 d1 d2 d3 d4 d5 d6 dr where d: "d = [d0, d1, d2, d3, d4, d5, d6] @ dr"
    using assms(1) by (auto simp: numeral_eq_Suc Suc_le_length_iff)
  obtain e0 e1 e2 e3 e4 e5 e6 er where e: "e = [e0, e1, e2, e3, e4, e5, e6] @ er"
    using assms(2) by (auto simp: numeral_eq_Suc Suc_le_length_iff)
  have up: "[0..<6] = [0, Suc 0, 2, 3, 4, 5]" by (simp add: upt_rec)
  have glue: "x mod m * q + y = x' mod m * q + y' \<longleftrightarrow> x mod m = x' mod m \<and> y = y'"
    if "y < q" "y' < q" for x x' y y' m q :: nat
  proof
    assume eq: "x mod m * q + y = x' mod m * q + y'"
    have "(x mod m * q + y) div q = (x' mod m * q + y') div q" "(x mod m * q + y) mod q = (x' mod m * q + y') mod q"
      by (simp_all only: eq)
    then show "x mod m = x' mod m \<and> y = y'" using that by simp
  qed simp
  have split: "x div m = x' div m \<and> x mod m = x' mod m \<longleftrightarrow> x = x'" for x x' m :: nat
    using div_mult_mod_eq by metis
  have top: "code x div m < (q :: nat)" if "m * q = 256" for x m q
    using that by (cases "m = 0") (simp_all add: div_less_iff_less_mult mult.commute)
  have first: "code x * 2 + y = code x' * 2 + y' \<longleftrightarrow> x = x' \<and> y = y'" if "y < 2" "y' < (2 :: nat)" for x x' y y'
    using glue [OF that, of "code x" 256 "code x'"] by simp
  have t: "code x div 128 < (2 :: nat)" "code x div 64 < (4 :: nat)" "code x div 32 < (8 :: nat)"
      "code x div 16 < (16 :: nat)" "code x div 8 < (32 :: nat)" "code x div 4 < (64 :: nat)" for x
    by (rule top, simp)+
  have ci: "code x = (code x' :: nat) \<longleftrightarrow> x = x'" for x x' by simp
  have s: "code x div m = code x' div m \<Longrightarrow> code x mod m = (code x' mod m :: nat) \<Longrightarrow> x = x'" for x x' and m :: nat
    using split ci by metis
  have "map (sas_index d) [0..<6] = map (sas_index e) [0..<6] \<longleftrightarrow>
      (d0 = e0 \<and> code d1 div 128 = (code e1 div 128 :: nat)) \<and>
      (code d1 mod 128 = (code e1 mod 128 :: nat) \<and> code d2 div 64 = (code e2 div 64 :: nat)) \<and>
      (code d2 mod 64 = (code e2 mod 64 :: nat) \<and> code d3 div 32 = (code e3 div 32 :: nat)) \<and>
      (code d3 mod 32 = (code e3 mod 32 :: nat) \<and> code d4 div 16 = (code e4 div 16 :: nat)) \<and>
      (code d4 mod 16 = (code e4 mod 16 :: nat) \<and> code d5 div 8 = (code e5 div 8 :: nat)) \<and>
      (code d5 mod 8 = (code e5 mod 8 :: nat) \<and> code d6 div 4 = (code e6 div 4 :: nat))"
    by (simp add: up sas_index_eqs d e first [OF t(1) t(1)] glue [OF t(2) t(2)] glue [OF t(3) t(3)]
        glue [OF t(4) t(4)] glue [OF t(5) t(5)] glue [OF t(6) t(6)])
  also have "\<dots> \<longleftrightarrow> d0 = e0 \<and> d1 = e1 \<and> d2 = e2 \<and> d3 = e3 \<and> d4 = e4 \<and> d5 = e5 \<and> code d6 div 4 = (code e6 div 4 :: nat)"
    using s [of d1 128 e1] s [of d2 64 e2] s [of d3 32 e3] s [of d4 16 e4] s [of d5 8 e5] by blast
  also have "\<dots> \<longleftrightarrow> shown_bits d = shown_bits e"
    by (simp add: shown_bits_def d e)
  finally show ?thesis .
qed

lemma upper_lower_letter: "lower_letter c \<Longrightarrow> lower_char (upper_char c) = c \<and> upper_char c \<noteq> CHR ''-''"
proof -
  assume l: "lower_letter c"
  then have c: "97 \<le> code c" "code c \<le> (122 :: nat)" by (simp_all add: lower_letter_def less_eq_char_def)
  then have u: "upper_char c = char_of (code c - 32 :: nat)" by (simp add: upper_char_def)
  have uc: "code (upper_char c) = (code c - 32 :: nat)" using c unfolding u by simp
  have "upper_char c \<noteq> CHR ''-''"
  proof
    assume "upper_char c = CHR ''-''"
    then have "code (upper_char c) = (45 :: nat)" by simp
    then show False using uc c by simp
  qed
  moreover have "lower_char (upper_char c) = c"
  proof -
    have "65 \<le> code (upper_char c)" "code (upper_char c) \<le> (90 :: nat)" "code (upper_char c) + 32 = (code c :: nat)"
      using c uc by linarith+
    then show ?thesis by (simp add: lower_char_def)
  qed
  ultimately show ?thesis by simp
qed

lemma to_upper_join: "to_upper (join_with (CHR ''-'') ws) = join_with (CHR ''-'') (map to_upper ws)"
  by (induction "CHR ''-''" ws rule: join_with.induct) (simp_all add: to_upper_def upper_char_def)

lemma sas_text_shown:
  assumes "7 \<le> length d" "7 \<le> length e"
  shows "sas_text d = sas_text e \<longleftrightarrow> shown_bits d = shown_bits e"
proof -
  let ?w = "\<lambda>d. map (\<lambda>i. sas_word_list ! sas_index d i) [0..<6]"
  have w: "list_all lower_letter x" if "x \<in> set (?w d)" for x d
    using that sas_word_list_letters sas_index_less [of d] by (auto simp: list_all_length)
  have free: "CHR ''-'' \<notin> set v" if "v \<in> set (map to_upper (?w d))" for v d
  proof -
    from that obtain x where "x \<in> set (?w d)" "v = map upper_char x" by (auto simp: to_upper_def)
    moreover have "upper_char c \<noteq> CHR ''-''" if "c \<in> set x" for c
      using w [OF calculation(1)] that upper_lower_letter by (simp add: list_all_iff)
    ultimately show ?thesis by (metis imageE list.set_map)
  qed
  have undo: "to_lower (to_upper x) = x" if "x \<in> set (?w d)" for x d
    using w [OF that] upper_lower_letter by (induction x) (auto simp: to_lower_def to_upper_def)
  have "?w d = map to_lower (split_on (CHR ''-'') (sas_text d))" for d
  proof -
    have "split_on (CHR ''-'') (sas_text d) = map to_upper (?w d)"
      unfolding sas_text_def to_upper_join sas_word_total_def
      by (rule split_join) (use free in auto)
    moreover have "map (\<lambda>x. to_lower (to_upper x)) (?w d) = ?w d"
      by (rule map_idI) (rule undo)
    ultimately show ?thesis by (simp add: comp_def)
  qed
  then have words: "sas_text d = sas_text e \<longleftrightarrow> ?w d = ?w e"
    unfolding sas_text_def sas_word_total_def by metis
  have nth: "sas_word_list ! sas_index d i = sas_word_list ! sas_index e i \<longleftrightarrow> sas_index d i = sas_index e i" for i
    using sas_word_list_distinct sas_index_less by (simp add: nth_eq_iff_index_eq)
  show ?thesis unfolding words using sas_index_shown [OF assms] nth by simp
qed

section \<open>What equal codes mean\<close>

text \<open>The form in which a fingerprint enters the transcript.\<close>

definition norm_fp :: "string \<Rightarrow> string" where
  "norm_fp fp = to_lower (trim_space fp)"

definition small :: "string \<Rightarrow> bool" where
  "small s \<longleftrightarrow> length s < 4294967296"

lemma length_prefixed_inj:
  assumes "small a" "small b" "write_length_prefixed a @ s = write_length_prefixed b @ t"
  shows "a = b \<and> s = t"
proof -
  have "put_uint32 (length a) @ (a @ s) = put_uint32 (length b) @ (b @ t)"
    using assms(3) by (simp add: write_length_prefixed_def)
  then have p: "put_uint32 (length a) = put_uint32 (length b)" "a @ s = b @ t"
    by (simp_all add: append_eq_append_conv)
  from arg_cong [OF p(1), of get_uint32] have "length a = length b"
    using assms(1,2) by (simp add: get_put_uint32 small_def)
  with p(2) show ?thesis by simp
qed

lemma transcript_sym: "norm_fp l \<noteq> norm_fp p \<Longrightarrow> transcript l p ln pn = transcript p l pn ln"
  by (auto simp: transcript_def norm_fp_def Let_def)

lemma transcript_norm:
  "norm_fp f = norm_fp f' \<Longrightarrow> norm_fp g = norm_fp g' \<Longrightarrow> transcript f g m k = transcript f' g' m k"
  by (simp add: transcript_def norm_fp_def)

lemma transcript_inj:
  assumes "transcript l p ln pn = transcript l' p' ln' pn'"
    and "list_all small [norm_fp l, norm_fp p, ln, pn, norm_fp l', norm_fp p', ln', pn']"
  shows "norm_fp l = norm_fp l' \<and> ln = ln' \<and> norm_fp p = norm_fp p' \<and> pn = pn' \<or>
    norm_fp l = norm_fp p' \<and> ln = pn' \<and> norm_fp p = norm_fp l' \<and> pn = ln'"
proof -
  define msg where "msg = (\<lambda>(a, m) (b, n). write_length_prefixed a @ write_length_prefixed m @
      write_length_prefixed b @ write_length_prefixed n)"
  have t: "transcript u v un vn = ''tantu/pairing-sas/v2'' @ [CHR 0x00] @
      (if norm_fp v < norm_fp u then msg (norm_fp v, vn) (norm_fp u, un) else msg (norm_fp u, un) (norm_fp v, vn))" for u v un vn
    by (simp add: transcript_def norm_fp_def msg_def)
  have m: "a = c \<and> m = k \<and> b = d \<and> n = j"
    if "msg (a, m) (b, n) = msg (c, k) (d, j)" "small a" "small m" "small b" "small n" "small c" "small k" "small d" "small j"
    for a m b n c k d j
  proof -
    have 1: "a = c" "write_length_prefixed m @ write_length_prefixed b @ write_length_prefixed n =
        write_length_prefixed k @ write_length_prefixed d @ write_length_prefixed j"
      using length_prefixed_inj [OF that(2,6)] that(1) by (simp_all add: msg_def)
    have 2: "m = k" "write_length_prefixed b @ write_length_prefixed n = write_length_prefixed d @ write_length_prefixed j"
      using length_prefixed_inj [OF that(3,7) 1(2)] by simp_all
    have 3: "b = d" "write_length_prefixed n = write_length_prefixed j"
      using length_prefixed_inj [OF that(4,8) 2(2)] by simp_all
    have "n = j" using length_prefixed_inj [OF that(5,9), of "[]" "[]"] 3(2) by simp
    with 1 2 3 show ?thesis by simp
  qed
  show ?thesis
    using assms(1) assms(2) unfolding t by (auto split: if_splits dest!: m)
qed

lemma transcript_sas_shown:
  assumes "\<And>x. 7 \<le> length (pk_sha pk x)"
  shows "transcript_sas pk a b m n = transcript_sas pk c d k j \<longleftrightarrow>
    shown_bits (pk_sha pk (transcript a b m n)) = shown_bits (pk_sha pk (transcript c d k j))"
  unfolding transcript_sas_def by (rule sas_text_shown [OF assms assms])

text \<open>
  C11. The codes two machines show agree exactly when nobody stands between them. Machine 1 has the
  fingerprint \<open>f1\<close>, made the nonce \<open>n1\<close>, and received \<open>g2\<close> and \<open>m2\<close> as those of its peer; machine 2
  has \<open>f2\<close> and \<open>n2\<close> and received \<open>g1\<close> and \<open>m1\<close>. If the 54 bits of the digest that the code shows do
  not collide for their two transcripts, the codes are equal if and only if each received what the
  other sent, up to the letter case of the fingerprints.\<close>

theorem equal_codes_exclude_middle:
  assumes "norm_fp f1 \<noteq> norm_fp f2"
    and "list_all small [norm_fp f1, n1, norm_fp g2, m2, norm_fp f2, n2, norm_fp g1, m1]"
    and "\<And>x. length (pk_sha pk x) = 32"
    and "shown_bits (pk_sha pk (transcript f1 g2 n1 m2)) = shown_bits (pk_sha pk (transcript f2 g1 n2 m1)) \<Longrightarrow>
      transcript f1 g2 n1 m2 = transcript f2 g1 n2 m1"
  shows "transcript_sas pk f1 g2 n1 m2 = transcript_sas pk f2 g1 n2 m1 \<longleftrightarrow>
    norm_fp g2 = norm_fp f2 \<and> m2 = n2 \<and> norm_fp g1 = norm_fp f1 \<and> m1 = n1"
proof
  assume "transcript_sas pk f1 g2 n1 m2 = transcript_sas pk f2 g1 n2 m1"
  then have t: "transcript f1 g2 n1 m2 = transcript f2 g1 n2 m1"
    using assms(3,4) transcript_sas_shown by simp
  from transcript_inj [OF t] assms(1,2)
  show "norm_fp g2 = norm_fp f2 \<and> m2 = n2 \<and> norm_fp g1 = norm_fp f1 \<and> m1 = n1" by auto
next
  assume same: "norm_fp g2 = norm_fp f2 \<and> m2 = n2 \<and> norm_fp g1 = norm_fp f1 \<and> m1 = n1"
  have "transcript f1 g2 n1 m2 = transcript f1 f2 n1 m2" by (rule transcript_norm) (use same in simp_all)
  also have "\<dots> = transcript f2 f1 m2 n1" by (rule transcript_sym [OF assms(1)])
  also have "\<dots> = transcript f2 g1 m2 n1" by (rule transcript_norm) (use same in simp_all)
  also have "\<dots> = transcript f2 g1 n2 m1" using same by simp
  finally show "transcript_sas pk f1 g2 n1 m2 = transcript_sas pk f2 g1 n2 m1" by (simp add: transcript_sas_def)
qed

text \<open>Parameters to compute with; the hash is the last 32 bytes, the last one first.\<close>

definition demo_pki :: pki where
  "demo_pki = \<lparr>pk_pem = (\<lambda>s. case s of c # t \<Rightarrow> if c = CHR ''P'' then Some (''CERTIFICATE'', t, '''') else None | [] \<Rightarrow> None),
     pk_parses = (\<lambda>_. True), pk_key_pair = (\<lambda>_ _. True),
     pk_sha = (\<lambda>s. take 32 (rev s @ replicate 32 (CHR 0x00)))\<rparr>"

lemma demo_sha_length: "length (pk_sha demo_pki x) = 32"
  by (simp add: demo_pki_def)

theorem equal_codes_exclude_middle_witness:
  "transcript_sas demo_pki ''a1'' ''B2'' ''n'' ''m'' = transcript_sas demo_pki ''b2'' ''a1'' ''m'' ''n'' \<and>
   transcript_sas demo_pki ''a1'' ''c3'' ''n'' ''k'' \<noteq> transcript_sas demo_pki ''b2'' ''a1'' ''m'' ''n''"
proof
  have s: "list_all small [norm_fp ''a1'', ''n'', norm_fp ''B2'', ''m'', norm_fp ''b2'', ''m'', norm_fp ''a1'', ''n'']"
    "list_all small [norm_fp ''a1'', ''n'', norm_fp ''c3'', ''k'', norm_fp ''b2'', ''m'', norm_fp ''a1'', ''n'']"
    by (simp_all add: small_def norm_fp_def trim_space_graph ascii_graph_def)
  have n: "norm_fp ''a1'' = ''a1''" "norm_fp ''b2'' = ''b2''" "norm_fp ''B2'' = ''b2''" "norm_fp ''c3'' = ''c3''"
    by code_simp+
  have "transcript ''a1'' ''B2'' ''n'' ''m'' = transcript ''a1'' ''b2'' ''n'' ''m''" by (rule transcript_norm) (simp_all add: n)
  also have "\<dots> = transcript ''b2'' ''a1'' ''m'' ''n''" by (rule transcript_sym) (simp add: n)
  finally have t: "transcript ''a1'' ''B2'' ''n'' ''m'' = transcript ''b2'' ''a1'' ''m'' ''n''" .
  show "transcript_sas demo_pki ''a1'' ''B2'' ''n'' ''m'' = transcript_sas demo_pki ''b2'' ''a1'' ''m'' ''n''"
    using equal_codes_exclude_middle [OF _ s(1) demo_sha_length] n t by simp
  have "shown_bits (pk_sha demo_pki (transcript ''a1'' ''c3'' ''n'' ''k'')) \<noteq>
      shown_bits (pk_sha demo_pki (transcript ''b2'' ''a1'' ''m'' ''n''))"
    by (simp add: transcript_def n [unfolded norm_fp_def] write_length_prefixed_def put_uint32_def demo_pki_def shown_bits_def Let_def)
  then show "transcript_sas demo_pki ''a1'' ''c3'' ''n'' ''k'' \<noteq> transcript_sas demo_pki ''b2'' ''a1'' ''m'' ''n''"
    using equal_codes_exclude_middle [OF _ s(2) demo_sha_length] n by simp
qed

end
