(* ===== verification/Publication.thy ===== *)
theory Publication
  imports Staging_Area Rel_Path Pairing_Code
begin

text \<open>
  Under which name and how a received file becomes visible (internal/hub/hub.go and the standalone
  receiver in cmd/tantu/hardening.go): the sanitizing of its name, the choice of a free name, and the
  publication of the verified partial by renaming it or by a verified copy.
\<close>

section \<open>Names of received files\<close>

text \<open>
  Go's view of a string as UTF-8: the width of the first character, 0 if it is not one. A loop over the
  runes of a string replaces each byte that belongs to no character by U+FFFD.
\<close>

definition cont_byte :: "nat \<Rightarrow> nat \<Rightarrow> char \<Rightarrow> bool" where
  "cont_byte lo hi c \<longleftrightarrow> lo \<le> code c \<and> code c \<le> hi"

definition tail_ok :: "nat \<Rightarrow> nat \<Rightarrow> nat \<Rightarrow> string \<Rightarrow> bool" where
  "tail_ok k lo hi s \<longleftrightarrow>
     s \<noteq> [] \<and> cont_byte lo hi (hd s) \<and> k \<le> length s \<and> list_all (cont_byte 0x80 0xbf) (take k s)"

fun rune_width :: "string \<Rightarrow> nat" where
  "rune_width [] = 0"
| "rune_width (a # s) =
     (let n = code a :: nat in
      if n < 0x80 then 1
      else if 0xc2 \<le> n \<and> n \<le> 0xdf \<and> tail_ok 1 0x80 0xbf s then 2
      else if 0xe0 \<le> n \<and> n \<le> 0xef \<and> tail_ok 2 (if n = 0xe0 then 0xa0 else 0x80) (if n = 0xed then 0x9f else 0xbf) s then 3
      else if 0xf0 \<le> n \<and> n \<le> 0xf4 \<and> tail_ok 3 (if n = 0xf0 then 0x90 else 0x80) (if n = 0xf4 then 0x8f else 0xbf) s then 4
      else 0)"

definition replacement_rune :: string where
  "replacement_rune = [CHR 0xef, CHR 0xbf, CHR 0xbd]"

function go_runes :: "string \<Rightarrow> string list" where
  "go_runes s =
     (if s = [] then []
      else if rune_width s = 0 then replacement_rune # go_runes (tl s)
      else take (rune_width s) s # go_runes (drop (rune_width s) s))"
  by pat_completeness auto
termination by (relation "measure length") auto

declare go_runes.simps [simp del]

definition control_rune :: "string \<Rightarrow> bool" where
  "control_rune r \<longleftrightarrow> (case r of [c] \<Rightarrow> control_char c | _ \<Rightarrow> False)"

text \<open>\<open>filepath.Ext\<close>\<close>

definition file_ext :: "string \<Rightarrow> string" where
  "file_ext s =
     (let r = takeWhile (\<lambda>c. c \<noteq> CHR ''.'' \<and> c \<noteq> CHR ''/'') (rev s)
      in if length r < length s \<and> rev s ! length r = CHR ''.'' then CHR ''.'' # rev r else [])"

definition max_sanitized_drop_name :: nat where "max_sanitized_drop_name = 200"

function drop_runes :: "nat \<Rightarrow> string list \<Rightarrow> string list" where
  "drop_runes keep rs = (if keep < length (concat rs) then drop_runes keep (butlast rs) else rs)"
  by pat_completeness auto
termination
proof (relation "measure (\<lambda>(keep, rs). length rs)", simp, clarsimp)
  fix keep :: nat and rs :: "string list"
  assume "keep < length (concat rs)"
  then have "rs \<noteq> []" by auto
  then show "length rs - Suc 0 < length rs" by (cases rs) simp_all
qed

declare drop_runes.simps [simp del]

text \<open>The extension of an overlong name, and the bytes kept of the rest.\<close>

definition drop_name_parts :: "string \<Rightarrow> string \<times> nat" where
  "drop_name_parts name =
     (let ext = file_ext name; keep = max_sanitized_drop_name - length ext
      in if max_sanitized_drop_name - 8 < length ext then (take (max_sanitized_drop_name - 8) ext, 8)
         else (ext, if keep < 8 then 8 else keep))"

definition bound_drop_name :: "string \<Rightarrow> string" where
  "bound_drop_name name =
     (if length name \<le> max_sanitized_drop_name then name
      else
        let (ext, keep) = drop_name_parts name;
            trimmed = drop_runes keep (go_runes (take keep name));
            name1 = trim_right_chars '' .'' (concat trimmed) @ ext
        in if name1 = '''' \<or> name1 = ext then ''drop.bin'' else name1)"

definition sanitize_drop_filename :: "string \<Rightarrow> string" where
  "sanitize_drop_filename name =
     (let n1 = last (split_on (CHR ''/'') (replace_char backslash (CHR ''/'') name));
          n2 = takeWhile (\<lambda>c. c \<noteq> CHR '':'') n1;
          n3 = concat (filter (\<lambda>r. \<not> control_rune r) (go_runes n2));
          n4 = map (\<lambda>c. if c \<in> set illegal_chars then CHR ''_'' else c) n3;
          n5 = trim_chars '' .'' n4
      in if n5 = '''' \<or> n5 = ''.'' \<or> n5 = ''..'' then ''drop.bin''
         else bound_drop_name (if List.member device_names (to_upper (base_name n5)) then ''drop_'' @ n5 else n5))"

definition plain_char :: "char \<Rightarrow> bool" where
  "plain_char c \<longleftrightarrow> c \<noteq> CHR ''/'' \<and> c \<noteq> backslash \<and> c \<noteq> CHR '':'' \<and> c \<notin> set illegal_chars \<and> \<not> control_char c"

text \<open>A name that starts neither with a dot nor with a space and has only harmless characters.\<close>

definition plain_name :: "string \<Rightarrow> bool" where
  "plain_name n \<longleftrightarrow> n \<noteq> '''' \<and> hd n \<notin> set '' .'' \<and> list_all plain_char n"

lemma go_runes_chars: "c \<in> set (concat (go_runes s)) \<Longrightarrow> c \<in> set s \<or> c \<in> set replacement_rune"
proof (induction s rule: go_runes.induct)
  case (1 s)
  have "c \<in> set s \<or> c \<in> set replacement_rune" if s: "s \<noteq> []"
  proof (cases "rune_width s = 0")
    case True
    then have "c \<in> set replacement_rune \<or> c \<in> set (concat (go_runes (tl s)))"
      using 1(3) s by (subst (asm) go_runes.simps) auto
    then show ?thesis using 1(1) [OF s True] s by (auto dest: list.set_sel(2))
  next
    case False
    then have "c \<in> set (take (rune_width s) s) \<or> c \<in> set (concat (go_runes (drop (rune_width s) s)))"
      using 1(3) s by (subst (asm) go_runes.simps) auto
    then show ?thesis using 1(2) [OF s False] by (auto dest: in_set_takeD in_set_dropD)
  qed
  moreover have "s \<noteq> []" using 1(3) by (auto simp: go_runes.simps [of "[]"])
  ultimately show ?case by blast
qed

lemma go_runes_hd: "concat (go_runes s) \<noteq> [] \<Longrightarrow> hd (concat (go_runes s)) = hd s \<or> hd (concat (go_runes s)) = CHR 0xef"
proof -
  assume ne: "concat (go_runes s) \<noteq> []"
  then have s: "s \<noteq> []" by (auto simp: go_runes.simps [of "[]"])
  show ?thesis
  proof (cases "rune_width s = 0")
    case True
    then show ?thesis using s by (subst (1 2) go_runes.simps) (simp add: replacement_rune_def)
  next
    case False
    then have "hd (take (rune_width s) s @ xs) = hd s" for xs using s by (cases s; cases "rune_width s") auto
    then show ?thesis using s False by (subst (1 2) go_runes.simps) simp
  qed
qed

lemma drop_runes_take: "\<exists>n. drop_runes keep rs = take n rs"
proof (induction keep rs rule: drop_runes.induct)
  case (1 keep rs)
  show ?case
  proof (cases "keep < length (concat rs)")
    case True
    then obtain n where "drop_runes keep (butlast rs) = take n (butlast rs)" using 1 by blast
    then show ?thesis using True by (subst drop_runes.simps) (auto simp: butlast_conv_take)
  next
    case False
    then show ?thesis by (subst drop_runes.simps) (auto intro: exI [of _ "length rs"])
  qed
qed

lemma drop_runes_bound: "length (concat (drop_runes keep rs)) \<le> keep"
  by (induction keep rs rule: drop_runes.induct) (subst drop_runes.simps, auto)

lemma trim_right_prefix: "\<exists>n. trim_right_chars cs s = take n s"
  by (metis trim_right_chars_def dropWhile_eq_drop rev_drop rev_rev_ident)

lemma plain_prefix: "list_all P s \<Longrightarrow> list_all P (take n s)"
  by (auto simp: list_all_iff dest: in_set_takeD)

lemma plain_replacement: "list_all plain_char replacement_rune"
  by (simp add: replacement_rune_def plain_char_def illegal_chars_def control_char_def)

lemma file_ext_suffix: "\<exists>x. s = x @ file_ext s"
proof (cases "file_ext s = []")
  case False
  define r where "r = takeWhile (\<lambda>c. c \<noteq> CHR ''.'' \<and> c \<noteq> CHR ''/'') (rev s)"
  from False have f: "file_ext s = CHR ''.'' # rev r" "length r < length (rev s)" "rev s ! length r = CHR ''.''"
    by (auto simp: file_ext_def Let_def r_def split: if_splits)
  have "rev s = take (length r) (rev s) @ rev s ! length r # drop (Suc (length r)) (rev s)"
    by (rule id_take_nth_drop [OF f(2)])
  moreover have "take (length r) (rev s) = r" unfolding r_def by (rule takeWhile_eq_take [symmetric])
  ultimately have "rev s = r @ CHR ''.'' # drop (Suc (length r)) (rev s)" using f(3) by simp
  then have "s = rev (drop (Suc (length r)) (rev s)) @ CHR ''.'' # rev r" by (metis rev_append rev_rev_ident rev.simps(2) append.assoc append_Cons append_Nil)
  then show ?thesis using f(1) by auto
qed simp

lemma plain_trimmed:
  assumes "plain_name n"
    and t_def: "t = trim_right_chars '' .'' (concat (drop_runes keep (go_runes (take keep n))))"
  shows "list_all plain_char t \<and> (t \<noteq> '''' \<longrightarrow> hd t \<notin> set '' .'')"
proof -
  define full where "full = concat (go_runes (take keep n))"
  obtain i where i: "drop_runes keep (go_runes (take keep n)) = take i (go_runes (take keep n))"
    using drop_runes_take by blast
  obtain j where j: "concat (drop_runes keep (go_runes (take keep n))) = take j full"
    unfolding i full_def by (metis append_take_drop_id concat_append append_eq_conv_conj)
  obtain k where k: "t = take k full" unfolding t_def j using trim_right_prefix [of "'' .''" "take j full"]
    by (auto simp: take_take)
  have "list_all plain_char full" using assms(1) plain_replacement go_runes_chars [of _ "take keep n"]
    by (auto simp: full_def plain_name_def list_all_iff dest!: in_set_takeD)
  then have a: "list_all plain_char t" unfolding k by (rule plain_prefix)
  have "hd t \<notin> set '' .''" if t: "t \<noteq> ''''"
  proof -
    from t k have "full \<noteq> []" "hd t = hd full" by (cases full; cases k; auto)+
    then have "hd t = hd (take keep n) \<or> hd t = CHR 0xef" using go_runes_hd [of "take keep n"] by (simp add: full_def)
    moreover have "take keep n \<noteq> []"
    proof
      assume "take keep n = []"
      then have "full = concat (go_runes [])" by (simp only: full_def)
      with \<open>full \<noteq> []\<close> show False by (simp add: go_runes.simps [of "[]"])
    qed
    ultimately show ?thesis using assms(1) by (cases n; cases keep) (auto simp: plain_name_def)
  qed
  with a show ?thesis by simp
qed

lemma bound_drop_name_plain:
  assumes "plain_name n"
  shows "plain_name (bound_drop_name n) \<and> length (bound_drop_name n) \<le> max_sanitized_drop_name"
proof (cases "length n \<le> max_sanitized_drop_name")
  case True
  then show ?thesis using assms by (simp add: bound_drop_name_def)
next
  case False
  obtain ext keep where parts: "drop_name_parts n = (ext, keep)" by force
  define t where "t = trim_right_chars '' .'' (concat (drop_runes keep (go_runes (take keep n))))"
  have b: "bound_drop_name n = (if t @ ext = '''' \<or> t @ ext = ext then ''drop.bin'' else t @ ext)"
    using False by (simp only: bound_drop_name_def if_False parts Let_def case_prod_conv t_def)
  obtain x where x: "n = x @ file_ext n" using file_ext_suffix by blast
  have "list_all plain_char (file_ext n)" using assms x by (metis plain_name_def list_all_append)
  moreover have "\<exists>i. ext = take i (file_ext n)"
    using parts by (auto simp: drop_name_parts_def Let_def split: if_splits intro: exI [of _ "length (file_ext n)"])
  ultimately have pe: "list_all plain_char ext" by (metis plain_prefix)
  have pt: "list_all plain_char t \<and> (t \<noteq> '''' \<longrightarrow> hd t \<notin> set '' .'')" by (rule plain_trimmed [OF assms t_def])
  have "length t \<le> length (concat (drop_runes keep (go_runes (take keep n))))"
    using trim_right_prefix [of "'' .''" "concat (drop_runes keep (go_runes (take keep n)))"] unfolding t_def
    by (metis length_take min.cobounded1)
  then have "length t \<le> keep" using drop_runes_bound le_trans by blast
  moreover have "keep + length ext \<le> max_sanitized_drop_name"
    using parts by (auto simp: drop_name_parts_def Let_def max_sanitized_drop_name_def split: if_splits)
  ultimately have len: "length (t @ ext) \<le> max_sanitized_drop_name" by simp
  show ?thesis
  proof (cases "t = ''''")
    case True
    then show ?thesis by (simp add: b plain_name_def plain_char_def illegal_chars_def control_char_def max_sanitized_drop_name_def)
  next
    case False
    then show ?thesis using pt pe len by (simp add: b plain_name_def)
  qed
qed

lemma trim_chars_sub: "set (trim_chars cs s) \<subseteq> set s"
proof -
  obtain n where "trim_chars cs s = take n (dropWhile (\<lambda>c. c \<in> set cs) s)"
    unfolding trim_chars_def using trim_right_prefix by blast
  then show ?thesis by (auto dest: in_set_takeD set_dropWhileD)
qed

lemma trim_chars_hd: "trim_chars cs s \<noteq> [] \<Longrightarrow> hd (trim_chars cs s) \<notin> set cs"
proof -
  assume ne: "trim_chars cs s \<noteq> []"
  obtain n where "trim_chars cs s = take n (dropWhile (\<lambda>c. c \<in> set cs) s)"
    unfolding trim_chars_def using trim_right_prefix by blast
  with ne have "hd (trim_chars cs s) = hd (dropWhile (\<lambda>c. c \<in> set cs) s)" "dropWhile (\<lambda>c. c \<in> set cs) s \<noteq> []"
    by (cases "dropWhile (\<lambda>c. c \<in> set cs) s"; cases n; auto)+
  then show ?thesis using hd_dropWhile [of "\<lambda>c. c \<in> set cs" s] by simp
qed


lemma split_on_sub: "w \<in> set (split_on d s) \<Longrightarrow> set w \<subseteq> set s"
proof (induction s arbitrary: w)
  case (Cons c s)
  obtain x xs where sp: "split_on d s = x # xs" by (cases "split_on d s") auto
  then have "set x \<subseteq> set s" "\<And>y. y \<in> set xs \<Longrightarrow> set y \<subseteq> set s" using Cons.IH by auto
  with Cons.prems sp show ?case by (auto split: if_splits)
qed simp

lemma rune_high:
  assumes "1 < rune_width s" "c \<in> set (take (rune_width s) s)"
  shows "(0x80 :: nat) \<le> code c"
proof (cases s)
  case (Cons a r)
  have a: "\<not> code a < (0x80 :: nat)" using assms(1) Cons by (simp add: Let_def split: if_splits)
  obtain k lo hi where k: "rune_width s = Suc k" "tail_ok k lo hi r"
    using assms(1) Cons a by (simp add: Let_def split: if_splits)
  then have "c = a \<or> c \<in> set (take k r)" using assms(2) Cons by (simp only: k(1) take_Suc_Cons set_simps insert_iff)
  then show ?thesis using a k(2) by (auto simp: tail_ok_def list_all_iff cont_byte_def)
qed (use assms in simp)

lemma control_is_rune:
  assumes "r \<in> set (go_runes s)" "c \<in> set r" "control_char c"
  shows "r = [c]"
  using assms(1)
proof (induction s rule: go_runes.induct)
  case (1 s)
  have low: "(code c :: nat) < 0x80" using assms(3) by (auto simp: control_char_def)
  then have nr: "r \<noteq> replacement_rune" using assms(2) by (auto simp: replacement_rune_def)
  have s: "s \<noteq> []" using 1(3) by (auto simp: go_runes.simps [of "[]"])
  show ?case
  proof (cases "rune_width s = 0")
    case True
    then show ?thesis using 1(1) [OF s True] 1(3) nr s by (subst (asm) (2) go_runes.simps) auto
  next
    case False
    then consider "r = take (rune_width s) s" | "r \<in> set (go_runes (drop (rune_width s) s))"
      using 1(3) s by (subst (asm) go_runes.simps) auto
    then show ?thesis
    proof cases
      case 1
      then have "c \<in> set (take (rune_width s) s)" using assms(2) by simp
      then have "rune_width s = 1" using rune_high [of s c] low False by (cases "1 < rune_width s") auto
      with 1 show ?thesis using assms(2) s by (cases s) auto
    next
      case 2
      then show ?thesis by (rule "1.IH"(2) [OF s False])
    qed
  qed
qed

lemma device_free_prefix: "plain_name n \<Longrightarrow> plain_name (''drop_'' @ n)"
  by (simp add: plain_name_def plain_char_def illegal_chars_def control_char_def)

lemma sanitize_plain:
  "plain_name (sanitize_drop_filename name) \<and> length (sanitize_drop_filename name) \<le> max_sanitized_drop_name"
proof -
  define n0 where "n0 = replace_char backslash (CHR ''/'') name"
  define n1 where "n1 = last (split_on (CHR ''/'') n0)"
  define n2 where "n2 = takeWhile (\<lambda>c. c \<noteq> CHR '':'') n1"
  define n3 where "n3 = concat (filter (\<lambda>r. \<not> control_rune r) (go_runes n2))"
  define n4 where "n4 = map (\<lambda>c. if c \<in> set illegal_chars then CHR ''_'' else c) n3"
  define n5 where "n5 = trim_chars '' .'' n4"
  have split: "n1 \<in> set (split_on (CHR ''/'') n0)" by (simp add: n1_def)
  have c1: "c \<noteq> CHR ''/'' \<and> c \<noteq> backslash" if "c \<in> set n1" for c
    using that split_on_no_sep [OF split] split_on_sub [OF split] by (auto simp: n0_def replace_char_def)
  have c2: "c \<noteq> CHR ''/'' \<and> c \<noteq> backslash \<and> c \<noteq> CHR '':''" if "c \<in> set n2" for c
    using that c1 by (auto simp: n2_def dest: set_takeWhileD)
  have c3: "c \<noteq> CHR ''/'' \<and> c \<noteq> backslash \<and> c \<noteq> CHR '':'' \<and> \<not> control_char c" if "c \<in> set n3" for c
  proof -
    from that obtain r where r: "r \<in> set (go_runes n2)" "\<not> control_rune r" "c \<in> set r" by (auto simp: n3_def)
    have "\<not> control_char c" using control_is_rune [OF r(1,3)] r(2) by (auto simp: control_rune_def)
    moreover have "c \<in> set n2 \<or> c \<in> set replacement_rune" using r by (intro go_runes_chars) auto
    ultimately show ?thesis using c2 by (auto simp: replacement_rune_def)
  qed
  have "CHR ''_'' \<notin> set illegal_chars" "\<not> control_char (CHR ''_'')" by (simp_all add: illegal_chars_def control_char_def)
  then have "list_all plain_char n4" using c3 by (auto simp: n4_def list_all_iff plain_char_def)
  then have p5: "n5 \<noteq> '''' \<Longrightarrow> plain_name n5"
    using trim_chars_sub [of "'' .''" n4] trim_chars_hd [of "'' .''" n4] by (auto simp: plain_name_def n5_def list_all_iff)
  have drop: "plain_name ''drop.bin''" "length ''drop.bin'' \<le> max_sanitized_drop_name"
    by (simp_all add: plain_name_def plain_char_def illegal_chars_def control_char_def max_sanitized_drop_name_def)
  have "sanitize_drop_filename name =
    (if n5 = '''' \<or> n5 = ''.'' \<or> n5 = ''..'' then ''drop.bin''
     else bound_drop_name (if List.member device_names (to_upper (base_name n5)) then ''drop_'' @ n5 else n5))"
    by (simp only: sanitize_drop_filename_def Let_def n0_def n1_def n2_def n3_def n4_def n5_def)
  then show ?thesis using drop p5 bound_drop_name_plain device_free_prefix by auto
qed

lemma go_runes_ascii: "list_all (\<lambda>c. (code c :: nat) < 0x80) s \<Longrightarrow> go_runes s = map (\<lambda>c. [c]) s"
proof (induction s)
  case Nil
  then show ?case by (simp add: go_runes.simps)
next
  case (Cons c s)
  then show ?case by (subst go_runes.simps) simp
qed

lemma concat_singletons: "concat (map (\<lambda>c. [c]) s) = s"
  by (induction s) simp_all



section \<open>Publication\<close>

text \<open>
  The directory a file is published into and what its partial is under its staging name. Publication
  looks at a name and takes it later; \<open>pb_meddle\<close> is what others do to the directory in between, at
  each attempt before the partial is renamed and before a finished copy is, and \<open>pb_swap\<close> what they do to
  the staging name before the rename, which goes by this name. The bytes that reach the copy are what the
  open source then holds. The names of a nested publication are relative to the output directory; the
  temporary, which is made beside the file, has its bare name.
\<close>

datatype rename_result = RenameDone | RenameTaken | RenameRefused

datatype publish_shape = Flat | Nested | Standalone

record publish_env =
  pb_sha :: "string \<Rightarrow> string"
  pb_parents :: bool
  pb_stat_fails :: bool
  pb_verify_fails :: "bool \<times> bool \<times> bool"
  pb_lstat_fails :: "nat \<Rightarrow> bool"
  pb_inside :: bool
  pb_meddle :: "nat \<Rightarrow> nat \<Rightarrow> entries \<Rightarrow> entries"
  pb_swap :: "nat \<Rightarrow> dir_entry option \<Rightarrow> dir_entry option"
  pb_rename :: "nat \<Rightarrow> rename_result"
  pb_seek_fails :: "nat \<Rightarrow> bool"
  pb_random :: "nat \<Rightarrow> string option list"
  pb_open_fails :: "nat \<Rightarrow> bool"
  pb_copied :: "nat \<Rightarrow> string"
  pb_copy_fails :: "nat \<Rightarrow> bool"
  pb_remove_fails :: "nat \<Rightarrow> bool"
  pb_commit :: "nat \<Rightarrow> rename_result"
  pb_inode :: nat
  pb_now :: go_time

record pub_state =
  ps_dir :: entries
  ps_part :: "dir_entry option"

datatype publish_error =
    NoDirectory | SourceUnreadable | SourceSize int | SourceDigest digest_error | NameNotInspected
  | RewindForCopyFailed | NoTempName | TempNotOpened | CopyFailed | CopySize int | CopyDigest string
  | CommitRefused | NameTaken | TooManyCandidates

definition temp_name :: "string \<Rightarrow> string" where
  "temp_name raw = publication_temp_prefix @ hex_encode raw @ publication_temp_suffix"

text \<open>\<open>NewPublicationTempName\<close>: the random values drawn one after another; \<open>None\<close> is a failed draw.\<close>

fun pick_temp_name :: "bool \<Rightarrow> entries \<Rightarrow> string option list \<Rightarrow> string option" where
  "pick_temp_name lstat_fails d [] = None"
| "pick_temp_name lstat_fails d (None # rs) = None"
| "pick_temp_name lstat_fails d (Some raw # rs) =
     (if lstat_fails then None
      else if map_of d (temp_name raw) \<noteq> None then pick_temp_name lstat_fails d rs
      else Some (temp_name raw))"

definition new_publication_temp_name :: "publish_env \<Rightarrow> nat \<Rightarrow> entries \<Rightarrow> string option" where
  "new_publication_temp_name env i d = pick_temp_name (pb_lstat_fails env i) d (take 64 (pb_random env i))"

definition drop_temp :: "publish_env \<Rightarrow> nat \<Rightarrow> string \<Rightarrow> entries \<Rightarrow> entries" where
  "drop_temp env i temp d = (if pb_remove_fails env i then d else AList.delete temp d)"

text \<open>\<open>PublishStagedFile\<close>: a rename that replaces what is there.\<close>

definition publish_staged_file :: "publish_env \<Rightarrow> nat \<Rightarrow> string \<Rightarrow> string \<Rightarrow> entries \<Rightarrow> entries \<times> publish_error option" where
  "publish_staged_file env i temp final d =
     (if \<not> is_publication_temp_name temp then (d, Some CommitRefused)
      else (case (pb_commit env i, map_of d temp) of
        (RenameDone, Some x) \<Rightarrow> (AList.update final x (AList.delete temp d), None)
      | (RenameTaken, Some x) \<Rightarrow> (d, Some NameTaken)
      | _ \<Rightarrow> (d, Some CommitRefused)))"

definition copy_refusal :: "publish_env \<Rightarrow> nat \<Rightarrow> string \<Rightarrow> int \<Rightarrow> publish_error option" where
  "copy_refusal env i expected total_bytes =
     (let copied = pb_copied env i in
      if pb_copy_fails env i then Some CopyFailed
      else if 0 < total_bytes \<and> int (length copied) \<noteq> total_bytes then Some (CopySize (int (length copied)))
      else if expected \<noteq> '''' \<and> \<not> equal_fold (pb_sha env copied) expected then Some (CopyDigest (pb_sha env copied))
      else None)"

definition publish_via_temp ::
  "publish_env \<Rightarrow> nat \<Rightarrow> string \<Rightarrow> string \<Rightarrow> int \<Rightarrow> entries \<Rightarrow> entries \<times> publish_error option" where
  "publish_via_temp env i final expected total_bytes d =
     (case new_publication_temp_name env i d of
        None \<Rightarrow> (d, Some NoTempName)
      | Some temp \<Rightarrow>
          if pb_open_fails env i then (d, Some TempNotOpened)
          else
            let copy = \<lparr>en_kind = RegularKind, en_inode = pb_inode env, en_size = int (length (pb_copied env i)),
                        en_mtime = pb_now env, en_data = pb_copied env i\<rparr>;
                d1 = AList.update temp copy d
            in (case copy_refusal env i expected total_bytes of
                  Some e \<Rightarrow> (drop_temp env i temp d1, Some e)
                | None \<Rightarrow>
                    (case publish_staged_file env i temp final (pb_meddle env i 1 d1) of
                       (d2, None) \<Rightarrow> (d2, None)
                     | (d2, Some e) \<Rightarrow> (drop_temp env i temp d2, Some e))))"

datatype place_result = Placed | PlaceTaken | PlaceFailed | PlaceByCopy

text \<open>
  \<open>PublishFromStaging\<close>, and the rename of the nested publication, which does not look again.
\<close>

definition rename_partial :: "publish_env \<Rightarrow> nat \<Rightarrow> string \<Rightarrow> pub_state \<Rightarrow> pub_state \<times> place_result" where
  "rename_partial env i final s =
     (let d = pb_meddle env i 0 (ps_dir s); p = pb_swap env i (ps_part s) in
      case (pb_rename env i, p) of
        (RenameDone, Some x) \<Rightarrow> (\<lparr>ps_dir = AList.update final x d, ps_part = None\<rparr>, Placed)
      | (RenameTaken, Some x) \<Rightarrow> (\<lparr>ps_dir = d, ps_part = p\<rparr>, PlaceTaken)
      | _ \<Rightarrow> (\<lparr>ps_dir = d, ps_part = p\<rparr>, PlaceByCopy))"

definition publish_from_staging :: "publish_env \<Rightarrow> nat \<Rightarrow> string \<Rightarrow> pub_state \<Rightarrow> pub_state \<times> place_result" where
  "publish_from_staging env i final s =
     (if \<not> pb_inside env then (s, PlaceByCopy)
      else if pb_lstat_fails env i then (s, PlaceFailed)
      else if map_of (ps_dir s) final \<noteq> None then (s, PlaceTaken)
      else rename_partial env i final s)"

definition place_partial :: "publish_env \<Rightarrow> publish_shape \<Rightarrow> nat \<Rightarrow> string \<Rightarrow> pub_state \<Rightarrow> pub_state \<times> place_result" where
  "place_partial env shape i final s =
     (if shape = Nested then rename_partial env i final s else publish_from_staging env i final s)"

text \<open>
  The names that are tried, one for each shape of publication: \<open>publishFlat\<close>, \<open>publishNested\<close> with
  \<open>filepath.Base\<close>, \<open>Dir\<close> and \<open>Join\<close> on a clean relative path, \<open>publishIncomingFile\<close>.
\<close>

definition path_base :: "string \<Rightarrow> string" where
  "path_base s =
     (let t = dropWhile (\<lambda>c. c = CHR ''/'') (rev s)
      in if s = '''' then ''.'' else if t = '''' then ''/'' else rev (takeWhile (\<lambda>c. c \<noteq> CHR ''/'') t))"

definition path_dir :: "string \<Rightarrow> string" where
  "path_dir s = (let t = dropWhile (\<lambda>c. c \<noteq> CHR ''/'') (rev s) in if t = '''' then ''.'' else rev (tl t))"

definition path_join :: "string \<Rightarrow> string \<Rightarrow> string" where
  "path_join dir name = (if dir = ''.'' then name else dir @ ''/'' @ name)"

definition flat_candidate :: "string \<Rightarrow> nat \<Rightarrow> string" where
  "flat_candidate desired i =
     (let ext = file_ext desired; base = trim_suffix desired ext
      in if i = 0 then desired else base @ '' ('' @ nat_text i @ '')'' @ ext)"

definition nested_candidate :: "string \<Rightarrow> nat \<Rightarrow> string" where
  "nested_candidate desired i =
     (let ext = file_ext desired; base = trim_suffix desired ext
      in if i = 0 then desired
         else path_join (path_dir desired) (path_base base @ '' ('' @ nat_text i @ '')'' @ ext))"

definition incoming_candidate :: "string \<Rightarrow> nat \<Rightarrow> string" where
  "incoming_candidate desired i =
     (let ext = file_ext desired; base = trim_suffix desired ext
      in if i = 0 then desired else base @ ''-'' @ nat_text i @ ext)"

definition candidate_name :: "publish_shape \<Rightarrow> string \<Rightarrow> nat \<Rightarrow> string" where
  "candidate_name shape =
     (case shape of Flat \<Rightarrow> flat_candidate | Nested \<Rightarrow> nested_candidate | Standalone \<Rightarrow> incoming_candidate)"

lemma dot_file_candidate: "nested_candidate ''dir/.gitignore'' 1 = ''dir/dir (1).gitignore''"
  by code_simp

text \<open>
  The attempts at candidate names, \<open>publishFlat\<close>, \<open>publishNested\<close> and \<open>publishIncomingFile\<close>. The
  first two try 10000 names; the third has no limit, so that here the limit is fuel.
\<close>

function publish_attempts ::
  "publish_env \<Rightarrow> publish_shape \<Rightarrow> nat \<Rightarrow> string \<Rightarrow> string \<Rightarrow> int \<Rightarrow> nat \<Rightarrow> pub_state \<Rightarrow>
   pub_state \<times> (publish_error + (string \<times> bool))" where
  "publish_attempts env shape limit desired expected total_bytes i s =
     (if limit \<le> i then (s, Inl TooManyCandidates)
      else
        let final = candidate_name shape desired i in
        if pb_lstat_fails env i then (s, Inl NameNotInspected)
        else if map_of (ps_dir s) final \<noteq> None then publish_attempts env shape limit desired expected total_bytes (Suc i) s
        else (case place_partial env shape i final s of
          (s1, Placed) \<Rightarrow> (s1, Inr (final, True))
        | (s1, PlaceTaken) \<Rightarrow> publish_attempts env shape limit desired expected total_bytes (Suc i) s1
        | (s1, PlaceFailed) \<Rightarrow> (s1, Inl NameNotInspected)
        | (s1, PlaceByCopy) \<Rightarrow>
            if pb_seek_fails env i then (s1, Inl RewindForCopyFailed)
            else (case publish_via_temp env i final expected total_bytes (ps_dir s1) of
              (d, None) \<Rightarrow> (s1\<lparr>ps_dir := d\<rparr>, Inr (final, False))
            | (d, Some e) \<Rightarrow>
                if e = NameTaken then publish_attempts env shape limit desired expected total_bytes (Suc i) (s1\<lparr>ps_dir := d\<rparr>)
                else (s1\<lparr>ps_dir := d\<rparr>, Inl e))))"
  by pat_completeness auto
termination by (relation "measure (\<lambda>(env, shape, limit, desired, expected, total_bytes, i, s). limit - i)") auto

declare publish_attempts.simps [simp del]

text \<open>\<open>publishPartFile\<close> and \<open>publishIncomingFile\<close>: the source is checked before any name is taken.\<close>

definition publish_file ::
  "publish_env \<Rightarrow> publish_shape \<Rightarrow> nat \<Rightarrow> string \<Rightarrow> string \<Rightarrow> string \<Rightarrow> int \<Rightarrow> pub_state \<Rightarrow>
   pub_state \<times> (publish_error + (string \<times> bool))" where
  "publish_file env shape limit source desired expected total_bytes s =
     (if shape = Standalone \<and> \<not> pb_parents env then (s, Inl NoDirectory)
      else if pb_stat_fails env then (s, Inl SourceUnreadable)
      else if 0 < total_bytes \<and> int (length source) \<noteq> total_bytes then (s, Inl (SourceSize (int (length source))))
      else
        let (seek_fails, read_fails, reseek_fails) = pb_verify_fails env in
        (case verify_staged_digest (pb_sha env) (Some source) seek_fails read_fails reseek_fails expected of
           Some e \<Rightarrow> (s, Inl (SourceDigest e))
         | None \<Rightarrow>
             if shape \<noteq> Standalone \<and> \<not> pb_parents env then (s, Inl NoDirectory)
             else publish_attempts env shape limit desired expected total_bytes 0 s))"

text \<open>
  \<open>finalizePartFile\<close> and \<open>finalizeIncomingPart\<close>: the descriptor must still be the file under the
  staging name; a partial that stays behind after a copy is reported as such.
\<close>

record finalize_env =
  fz_sync_fails :: bool
  fz_stat_fails :: bool
  fz_lstat_fails :: bool
  fz_seek_fails :: bool
  fz_close_fails :: bool
  fz_remove_fails :: bool

datatype finalize_error =
    MissingSource | SyncFailed | InspectFailure | StagingChanged | RewindFailure | PublishFailed publish_error
  | CloseFailed string | CleanupIncomplete string

definition same_file :: "dir_entry \<Rightarrow> dir_entry \<Rightarrow> bool" where
  "same_file x y \<longleftrightarrow> en_inode x = en_inode y"

definition finalize_part ::
  "publish_env \<Rightarrow> finalize_env \<Rightarrow> publish_shape \<Rightarrow> nat \<Rightarrow> dir_entry option \<Rightarrow> string \<Rightarrow> string \<Rightarrow> int \<Rightarrow> pub_state \<Rightarrow>
   pub_state \<times> (finalize_error + string)" where
  "finalize_part env fz shape limit source desired expected total_bytes s =
     (case source of
        None \<Rightarrow> (s, Inl MissingSource)
      | Some x \<Rightarrow>
          if trim_space desired = '''' then (s, Inl MissingSource)
          else if fz_sync_fails fz then (s, Inl SyncFailed)
          else if fz_stat_fails fz \<or> en_kind x \<noteq> RegularKind then (s, Inl InspectFailure)
          else (case (if fz_lstat_fails fz then None else ps_part s) of
            None \<Rightarrow> (s, Inl StagingChanged)
          | Some y \<Rightarrow>
              if en_kind y \<noteq> RegularKind \<or> \<not> same_file x y then (s, Inl StagingChanged)
              else if fz_seek_fails fz then (s, Inl RewindFailure)
              else (case publish_file env shape limit (en_data x) desired expected total_bytes s of
                (s1, Inl e) \<Rightarrow> (s1, Inl (PublishFailed e))
              | (s1, Inr (name, renamed)) \<Rightarrow>
                  if fz_close_fails fz then (s1, Inl (CloseFailed name))
                  else if renamed then (s1, Inr name)
                  else (case ps_part s1 of
                    None \<Rightarrow> (s1, Inl (CleanupIncomplete name))
                  | Some z \<Rightarrow>
                      if en_kind z \<noteq> RegularKind \<or> \<not> same_file x z \<or> fz_remove_fails fz then (s1, Inl (CleanupIncomplete name))
                      else (s1\<lparr>ps_part := None\<rparr>, Inr name)))))"


text \<open>The functions of the hub and of the standalone receiver.\<close>

definition publish_flat :: "publish_env \<Rightarrow> string \<Rightarrow> string \<Rightarrow> int \<Rightarrow> pub_state \<Rightarrow> pub_state \<times> (publish_error + (string \<times> bool))" where
  "publish_flat env desired expected total_bytes s =
     (if \<not> pb_parents env then (s, Inl NoDirectory) else publish_attempts env Flat 10000 desired expected total_bytes 0 s)"

definition publish_nested :: "publish_env \<Rightarrow> string \<Rightarrow> string \<Rightarrow> int \<Rightarrow> pub_state \<Rightarrow> pub_state \<times> (publish_error + (string \<times> bool))" where
  "publish_nested env desired expected total_bytes s =
     (if \<not> pb_parents env then (s, Inl NoDirectory) else publish_attempts env Nested 10000 desired expected total_bytes 0 s)"

definition publish_part_file ::
  "publish_env \<Rightarrow> bool \<Rightarrow> string \<Rightarrow> string \<Rightarrow> string \<Rightarrow> int \<Rightarrow> pub_state \<Rightarrow> pub_state \<times> (publish_error + (string \<times> bool))" where
  "publish_part_file env in_root = publish_file env (if in_root then Flat else Nested) 10000"

definition publish_incoming_file ::
  "publish_env \<Rightarrow> nat \<Rightarrow> string \<Rightarrow> string \<Rightarrow> string \<Rightarrow> int \<Rightarrow> pub_state \<Rightarrow> pub_state \<times> (publish_error + (string \<times> bool))" where
  "publish_incoming_file env fuel = publish_file env Standalone fuel"

definition finalize_part_file ::
  "publish_env \<Rightarrow> finalize_env \<Rightarrow> bool \<Rightarrow> dir_entry option \<Rightarrow> string \<Rightarrow> string \<Rightarrow> int \<Rightarrow> pub_state \<Rightarrow> pub_state \<times> (finalize_error + string)" where
  "finalize_part_file env fz in_root = finalize_part env fz (if in_root then Flat else Nested) 10000"

definition finalize_incoming_part ::
  "publish_env \<Rightarrow> finalize_env \<Rightarrow> nat \<Rightarrow> dir_entry option \<Rightarrow> string \<Rightarrow> string \<Rightarrow> int \<Rightarrow> pub_state \<Rightarrow> pub_state \<times> (finalize_error + string)" where
  "finalize_incoming_part env fz fuel = finalize_part env fz Standalone fuel"

lemma publish_part_file_is:
  "publish_part_file env in_root source desired expected total_bytes s =
     (if pb_stat_fails env then (s, Inl SourceUnreadable)
      else if 0 < total_bytes \<and> int (length source) \<noteq> total_bytes then (s, Inl (SourceSize (int (length source))))
      else (case verify_staged_digest (pb_sha env) (Some source) (fst (pb_verify_fails env)) (fst (snd (pb_verify_fails env)))
               (snd (snd (pb_verify_fails env))) expected of
           Some e \<Rightarrow> (s, Inl (SourceDigest e))
         | None \<Rightarrow> if in_root then publish_flat env desired expected total_bytes s else publish_nested env desired expected total_bytes s))"
  by (simp add: publish_part_file_def publish_file_def publish_flat_def publish_nested_def split: option.splits prod.splits)


section \<open>What is published\<close>

definition hidden_name :: "string \<Rightarrow> bool" where
  "hidden_name n \<longleftrightarrow> has_prefix n publication_temp_prefix"

definition meets_promise :: "publish_env \<Rightarrow> string \<Rightarrow> int \<Rightarrow> string \<Rightarrow> bool" where
  "meets_promise env expected total_bytes bytes \<longleftrightarrow>
     (0 < total_bytes \<longrightarrow> int (length bytes) = total_bytes) \<and>
     (expected \<noteq> '''' \<longrightarrow> equal_fold (pb_sha env bytes) expected)"

definition temps_private :: "publish_env \<Rightarrow> bool" where
  "temps_private env \<longleftrightarrow> (\<forall>i k d n. hidden_name n \<longrightarrow> map_of (pb_meddle env i k d) n = map_of d n)"

definition partial_private :: "publish_env \<Rightarrow> bool" where
  "partial_private env \<longleftrightarrow> (\<forall>i p. pb_swap env i p = p)"

text \<open>What a publication that renames needs of the partial: that it meets the promise and stays in its place.\<close>

definition partial_good :: "publish_env \<Rightarrow> string \<Rightarrow> int \<Rightarrow> pub_state \<Rightarrow> bool" where
  "partial_good env expected total_bytes s \<longleftrightarrow>
     partial_private env \<and> (\<forall>x. ps_part s = Some x \<longrightarrow> meets_promise env expected total_bytes (en_data x))"

lemma has_prefix_append [simp]: "has_prefix (p @ s) p"
  by (simp add: has_prefix_def)

lemma temp_name_hidden: "hidden_name (temp_name raw)"
  by (simp add: hidden_name_def temp_name_def)

lemma pick_temp_name_result: "pick_temp_name b d rs = Some t \<Longrightarrow> hidden_name t \<and> map_of d t = None"
  by (induction b d rs rule: pick_temp_name.induct) (auto simp: temp_name_hidden split: if_splits)

lemma rename_partial_result:
  assumes "rename_partial env i final s = (s1, r)"
  shows "(r = Placed \<longrightarrow> (\<exists>x. pb_swap env i (ps_part s) = Some x \<and> map_of (ps_dir s1) final = Some x \<and> ps_part s1 = None)) \<and>
    (r \<noteq> Placed \<longrightarrow> ps_part s1 = ps_part s \<or> ps_part s1 = pb_swap env i (ps_part s)) \<and> r \<noteq> PlaceFailed"
  using assms
  by (auto simp: rename_partial_def Let_def update_conv' split: rename_result.splits option.splits)

lemma place_partial_result:
  assumes "place_partial env shape i final s = (s1, r)"
  shows "(r = Placed \<longrightarrow> (\<exists>x. pb_swap env i (ps_part s) = Some x \<and> map_of (ps_dir s1) final = Some x \<and> ps_part s1 = None)) \<and>
    (r \<noteq> Placed \<longrightarrow> ps_part s1 = ps_part s \<or> ps_part s1 = pb_swap env i (ps_part s))"
  using assms rename_partial_result [of env i final s s1 r]
  by (auto simp: place_partial_def publish_from_staging_def split: if_splits)

lemma publish_via_temp_result:
  assumes "publish_via_temp env i final expected total_bytes d = (d', None)" "temps_private env"
  shows "\<exists>y. map_of d' final = Some y \<and> meets_promise env expected total_bytes (en_data y)"
proof -
  obtain temp where t: "new_publication_temp_name env i d = Some temp"
    using assms(1) by (cases "new_publication_temp_name env i d") (auto simp: publish_via_temp_def)
  define copy where "copy = \<lparr>en_kind = RegularKind, en_inode = pb_inode env, en_size = int (length (pb_copied env i)),
                        en_mtime = pb_now env, en_data = pb_copied env i\<rparr>"
  have hid: "hidden_name temp" using t pick_temp_name_result by (auto simp: new_publication_temp_name_def)
  have ok: "copy_refusal env i expected total_bytes = None"
    using assms(1) t by (auto simp: publish_via_temp_def Let_def split: if_splits option.splits)
  obtain d2 e where st: "publish_staged_file env i temp final (pb_meddle env i 1 (AList.update temp copy d)) = (d2, e)" by force
  have "e = None \<and> d2 = d'"
    using assms(1) t ok st by (auto simp: publish_via_temp_def Let_def copy_def split: if_splits option.splits)
  moreover have "map_of (pb_meddle env i 1 (AList.update temp copy d)) temp = Some copy"
    using assms(2) hid by (simp add: temps_private_def update_conv')
  ultimately have "map_of d' final = Some copy"
    using st by (auto simp: publish_staged_file_def update_conv' split: if_splits rename_result.splits option.splits)
  moreover have "meets_promise env expected total_bytes (en_data copy)"
    using ok by (auto simp: copy_refusal_def Let_def meets_promise_def copy_def split: if_splits)
  ultimately show ?thesis by blast
qed

lemma publish_attempts_result:
  assumes "publish_attempts env shape limit desired expected total_bytes i s = (s', Inr (name, renamed))" "temps_private env"
    "renamed \<longrightarrow> partial_good env expected total_bytes s"
  shows "(\<exists>y. map_of (ps_dir s') name = Some y \<and> meets_promise env expected total_bytes (en_data y)) \<and>
    (renamed \<longrightarrow> ps_part s' = None) \<and> (\<not> renamed \<longrightarrow> partial_private env \<longrightarrow> ps_part s' = ps_part s) \<and>
    (\<exists>k < limit. name = candidate_name shape desired k)"
  using assms
proof (induction env shape limit desired expected total_bytes i s rule: publish_attempts.induct)
  case (1 env shape limit desired expected total_bytes i s)
  let ?c = "candidate_name shape desired i"
  note run = "1.prems"(1) [unfolded publish_attempts.simps [of env shape limit desired expected total_bytes i s]]
  have lim: "\<not> limit \<le> i" and look: "\<not> pb_lstat_fails env i" using run by (auto simp: Let_def split: if_splits)
  have self: "\<exists>k < limit. ?c = candidate_name shape desired k" using lim by (intro exI [of _ i]) simp
  show ?case
  proof (cases "map_of (ps_dir s) ?c")
    case (Some x)
    then show ?thesis using run lim look "1.prems"(2,3) by (intro "1.IH"(1)) (auto simp: Let_def)
  next
    case None
    obtain s1 r where pl: "place_partial env shape i ?c s = (s1, r)" by force
    note res = place_partial_result [OF pl]
    have good: "r \<noteq> Placed \<Longrightarrow> partial_good env expected total_bytes s \<Longrightarrow> partial_good env expected total_bytes t"
      if "ps_part t = ps_part s1" for t
      using res that by (auto simp: partial_good_def partial_private_def)
    show ?thesis
    proof (cases r)
      case Placed
      then have "renamed" "s' = s1" "name = ?c" using run lim look None pl by (auto simp: Let_def)
      then show ?thesis using Placed res "1.prems"(3) self by (auto simp: partial_good_def partial_private_def)
    next
      case PlaceTaken
      have "(\<exists>y. map_of (ps_dir s') name = Some y \<and> meets_promise env expected total_bytes (en_data y)) \<and>
          (renamed \<longrightarrow> ps_part s' = None) \<and> (\<not> renamed \<longrightarrow> partial_private env \<longrightarrow> ps_part s' = ps_part s1) \<and>
          (\<exists>k < limit. name = candidate_name shape desired k)"
        using lim look None pl PlaceTaken run "1.prems"(2,3) good [of s1]
        by (intro "1.IH"(2) [OF _ refl _ _ pl [symmetric]]) (auto simp: Let_def)
      moreover have "partial_private env \<Longrightarrow> ps_part s1 = ps_part s" using res PlaceTaken by (auto simp: partial_private_def)
      ultimately show ?thesis by auto
    next
      case PlaceFailed
      then show ?thesis using run lim look None pl by (simp add: Let_def)
    next
      case PlaceByCopy
      obtain d e where vt: "publish_via_temp env i ?c expected total_bytes (ps_dir s1) = (d, e)" by force
      have seek: "\<not> pb_seek_fails env i" using run lim look None pl PlaceByCopy by (auto simp: Let_def)
      show ?thesis
      proof (cases e)
        case none: None
        then have "\<not> renamed" "s' = s1\<lparr>ps_dir := d\<rparr>" "name = ?c"
          using run lim look None pl PlaceByCopy vt seek by (auto simp: Let_def)
        then show ?thesis using publish_via_temp_result [OF vt [unfolded none] "1.prems"(2)] self res PlaceByCopy
          by (auto simp: partial_private_def)
      next
        case (Some x)
        have x: "x = NameTaken" using run lim look None pl PlaceByCopy vt seek Some by (auto simp: Let_def split: if_splits)
        have "(\<exists>y. map_of (ps_dir s') name = Some y \<and> meets_promise env expected total_bytes (en_data y)) \<and>
            (renamed \<longrightarrow> ps_part s' = None) \<and> (\<not> renamed \<longrightarrow> partial_private env \<longrightarrow> ps_part s' = ps_part (s1\<lparr>ps_dir := d\<rparr>)) \<and>
            (\<exists>k < limit. name = candidate_name shape desired k)"
          using lim look None pl PlaceByCopy run vt seek Some x "1.prems"(2,3) good [of "s1\<lparr>ps_dir := d\<rparr>"]
          by (intro "1.IH"(3) [OF _ refl _ _ pl [symmetric] _ _ vt [symmetric]]) (auto simp: Let_def)
        moreover have "partial_private env \<Longrightarrow> ps_part s1 = ps_part s" using res PlaceByCopy by (auto simp: partial_private_def)
        ultimately show ?thesis by auto
      qed
    qed
  qed
qed

lemma publish_file_result:
  assumes "publish_file env shape limit source desired expected total_bytes s = (s', Inr (name, renamed))" "temps_private env"
    "renamed \<longrightarrow> partial_private env \<and> (\<forall>x. ps_part s = Some x \<longrightarrow> en_data x = source)"
  shows "(\<exists>y. map_of (ps_dir s') name = Some y \<and> meets_promise env expected total_bytes (en_data y)) \<and>
    (renamed \<longrightarrow> ps_part s' = None) \<and> (\<not> renamed \<longrightarrow> partial_private env \<longrightarrow> ps_part s' = ps_part s) \<and>
    (\<exists>k < limit. name = candidate_name shape desired k)"
proof -
  obtain a b c where vf: "pb_verify_fails env = (a, b, c)" using prod_cases3 by blast
  have run: "publish_attempts env shape limit desired expected total_bytes 0 s = (s', Inr (name, renamed))"
    and v: "verify_staged_digest (pb_sha env) (Some source) a b c expected = None"
    and len: "\<not> (0 < total_bytes \<and> int (length source) \<noteq> total_bytes)"
    using assms(1) vf by (auto simp: publish_file_def split: if_splits option.splits)
  have "meets_promise env expected total_bytes source"
    using v len by (auto simp: verify_staged_digest_def meets_promise_def split: if_splits)
  with assms(3) have "renamed \<longrightarrow> partial_good env expected total_bytes s" by (auto simp: partial_good_def)
  then show ?thesis by (rule publish_attempts_result [OF run assms(2)])
qed


section \<open>What publication leaves alone\<close>

definition undisturbed :: "publish_env \<Rightarrow> bool" where
  "undisturbed env \<longleftrightarrow> (\<forall>i k d. pb_meddle env i k d = d) \<and> partial_private env"

definition only_publishes :: "entries \<Rightarrow> entries \<Rightarrow> publish_error + (string \<times> bool) \<Rightarrow> bool" where
  "only_publishes d d' r \<longleftrightarrow>
     (\<forall>n. \<not> hidden_name n \<longrightarrow>
        map_of d' n = map_of d n \<or> map_of d n = None \<and> (case r of Inr (name, _) \<Rightarrow> name = n | Inl _ \<Rightarrow> False))"

lemma only_publishes_refl [simp]: "only_publishes d d r"
  by (simp add: only_publishes_def)

lemma only_publishes_hidden:
  "(\<And>n. \<not> hidden_name n \<Longrightarrow> map_of d1 n = map_of d n) \<Longrightarrow> only_publishes d1 d' r \<Longrightarrow> only_publishes d d' r"
  by (simp add: only_publishes_def)

lemma only_publishes_one:
  assumes "map_of d c = None" "\<And>n. \<not> hidden_name n \<Longrightarrow> n \<noteq> c \<Longrightarrow> map_of d' n = map_of d n"
  shows "only_publishes d d' (Inr (c, b))"
  unfolding only_publishes_def
proof (intro allI impI)
  fix n
  assume "\<not> hidden_name n"
  then show "map_of d' n = map_of d n \<or> map_of d n = None \<and> (case Inr (c, b) of Inr (name, _) \<Rightarrow> name = n | Inl _ \<Rightarrow> False)"
    using assms by (cases "n = c") simp_all
qed

lemma place_partial_alone:
  assumes "place_partial env shape i final s = (s1, r)" "undisturbed env"
  shows "(r = Placed \<longrightarrow> (\<forall>n. n \<noteq> final \<longrightarrow> map_of (ps_dir s1) n = map_of (ps_dir s) n)) \<and>
    (r \<noteq> Placed \<longrightarrow> ps_dir s1 = ps_dir s)"
  using assms
  by (auto simp: place_partial_def publish_from_staging_def rename_partial_def undisturbed_def partial_private_def Let_def update_conv'
      split: if_splits rename_result.splits option.splits)

lemma drop_temp_visible: "hidden_name t \<Longrightarrow> \<not> hidden_name n \<Longrightarrow> map_of (drop_temp env i t d) n = map_of d n"
  by (auto simp: drop_temp_def delete_conv')

lemma publish_via_temp_alone:
  assumes "publish_via_temp env i final expected total_bytes d = (d', e)" "undisturbed env" "\<not> hidden_name n"
  shows "(e \<noteq> None \<longrightarrow> map_of d' n = map_of d n) \<and> (n \<noteq> final \<longrightarrow> map_of d' n = map_of d n)"
proof (cases "new_publication_temp_name env i d")
  case None
  then show ?thesis using assms(1) by (auto simp: publish_via_temp_def)
next
  case (Some temp)
  have hid: "hidden_name temp" using Some pick_temp_name_result by (auto simp: new_publication_temp_name_def)
  then have ne: "n \<noteq> temp" using assms(3) by blast
  define d1 where "d1 = AList.update temp \<lparr>en_kind = RegularKind, en_inode = pb_inode env, en_size = int (length (pb_copied env i)),
                        en_mtime = pb_now env, en_data = pb_copied env i\<rparr> d"
  obtain d2 x where st: "publish_staged_file env i temp final d1 = (d2, x)" by force
  have d1: "map_of d1 n = map_of d n" using ne by (simp add: d1_def update_conv')
  have d2: "(x \<noteq> None \<longrightarrow> map_of d2 n = map_of d n) \<and> (n \<noteq> final \<longrightarrow> map_of d2 n = map_of d n)"
    using st d1 ne by (auto simp: publish_staged_file_def update_conv' delete_conv' split: if_splits rename_result.splits option.splits)
  show ?thesis
    using assms(1,2) Some d1 d2 st drop_temp_visible [OF hid assms(3)]
    by (auto simp: publish_via_temp_def Let_def undisturbed_def partial_private_def d1_def [symmetric] split: if_splits option.splits)
qed

lemma publish_attempts_alone:
  assumes "publish_attempts env shape limit desired expected total_bytes i s = (s', r)" "undisturbed env"
  shows "only_publishes (ps_dir s) (ps_dir s') r"
  using assms(1)
proof (induction "limit - i" arbitrary: i s rule: less_induct)
  case less
  let ?c = "candidate_name shape desired i"
  have IH: "only_publishes (ps_dir t) (ps_dir s') r"
    if "i < limit" "publish_attempts env shape limit desired expected total_bytes (Suc i) t = (s', r)" for t
    using that by (intro less.hyps [of "Suc i"]) simp_all
  note run = less.prems [unfolded publish_attempts.simps [of env shape limit desired expected total_bytes i s]]
  show ?case
  proof (cases "limit \<le> i \<or> pb_lstat_fails env i")
    case True
    then show ?thesis using run by (auto simp: Let_def split: if_splits)
  next
    case False
    then have lim: "\<not> limit \<le> i" and look: "\<not> pb_lstat_fails env i" by auto
    show ?thesis
    proof (cases "map_of (ps_dir s) ?c")
      case (Some x)
      then show ?thesis using run lim look by (intro IH) (simp_all add: Let_def)
    next
      case None
      obtain s1 q where pl: "place_partial env shape i ?c s = (s1, q)" by force
      note res = place_partial_alone [OF pl assms(2)]
      show ?thesis
      proof (cases q)
        case Placed
        then have "s' = s1" "r = Inr (?c, True)" using run lim look None pl by (auto simp: Let_def)
        moreover have "map_of (ps_dir s1) n = map_of (ps_dir s) n" if "n \<noteq> ?c" for n using res Placed that by simp
        ultimately show ?thesis using None by (simp add: only_publishes_one)
      next
        case PlaceTaken
        have "publish_attempts env shape limit desired expected total_bytes (Suc i) s1 = (s', r)"
          using run lim look None pl PlaceTaken by (simp add: Let_def)
        then have "only_publishes (ps_dir s1) (ps_dir s') r"
          using lim by (intro IH) simp_all
        then show ?thesis using res PlaceTaken by simp
      next
        case PlaceFailed
        then show ?thesis using run lim look None pl res by (auto simp: Let_def)
      next
        case PlaceByCopy
        have d1: "ps_dir s1 = ps_dir s" using res PlaceByCopy by simp
        obtain d e where vt: "publish_via_temp env i ?c expected total_bytes (ps_dir s1) = (d, e)" by force
        note al = publish_via_temp_alone [OF vt assms(2), unfolded d1]
        show ?thesis
        proof (cases "pb_seek_fails env i")
          case True
          then show ?thesis using run lim look None pl PlaceByCopy d1 by (auto simp: Let_def)
        next
          case seek: False
          show ?thesis
          proof (cases e)
            case none: None
            then have "ps_dir s' = d" "r = Inr (?c, False)" using run lim look None pl PlaceByCopy vt seek by (auto simp: Let_def)
            moreover have "map_of d n = map_of (ps_dir s) n" if "\<not> hidden_name n" "n \<noteq> ?c" for n using al that by simp
            ultimately show ?thesis using None by (simp add: only_publishes_one)
          next
            case (Some x)
            then have vis: "map_of d n = map_of (ps_dir s) n" if "\<not> hidden_name n" for n using al that by simp
            show ?thesis
            proof (cases "x = NameTaken")
              case True
              have nxt: "publish_attempts env shape limit desired expected total_bytes (Suc i) (s1\<lparr>ps_dir := d\<rparr>) = (s', r)"
                using run lim look None pl PlaceByCopy vt seek Some True by (simp add: Let_def)
              have "only_publishes (ps_dir (s1\<lparr>ps_dir := d\<rparr>)) (ps_dir s') r"
                by (rule IH [OF _ nxt]) (use lim in simp)
              then show ?thesis using only_publishes_hidden [of d "ps_dir s" "ps_dir s'" r] vis by simp
            next
              case False
              then have "ps_dir s' = d" using run lim look None pl PlaceByCopy vt seek Some by (auto simp: Let_def)
              then show ?thesis using vis by (simp add: only_publishes_def)
            qed
          qed
        qed
      qed
    qed
  qed
qed

lemma publish_file_alone:
  assumes "publish_file env shape limit source desired expected total_bytes s = (s', r)" "undisturbed env"
  shows "only_publishes (ps_dir s) (ps_dir s') r"
  using assms publish_attempts_alone
  by (fastforce simp: publish_file_def split: if_splits option.splits prod.splits)

section \<open>A free name is found\<close>

lemma file_ext_no_slash: "CHR ''/'' \<notin> set (file_ext s)"
  by (auto simp: file_ext_def Let_def dest: set_takeWhileD)

lemma split_ext: "s = trim_suffix s (file_ext s) @ file_ext s"
proof -
  obtain x where "s = x @ file_ext s" using file_ext_suffix by blast
  then have "has_suffix s (file_ext s)" by (metis has_suffix_append)
  then show ?thesis using \<open>s = x @ file_ext s\<close> by (metis append_eq_conv_conj length_append add_diff_cancel_right' trim_suffix_def)
qed

text \<open>The last element of a path is no shorter than what follows its last slash.\<close>

lemma path_base_length:
  assumes "CHR ''/'' \<notin> set q" "r = [] \<or> last r = CHR ''/''"
  shows "length q \<le> length (path_base (r @ q))"
proof (cases q rule: rev_cases)
  case (snoc q' c)
  then have c: "c \<noteq> CHR ''/''" using assms(1) by auto
  have "takeWhile (\<lambda>c. c \<noteq> CHR ''/'') (rev q @ rev r) = rev q"
  proof (cases r rule: rev_cases)
    case Nil
    then show ?thesis using assms(1) by (auto simp: takeWhile_eq_all_conv)
  next
    case (snoc r' d)
    have "\<And>c. c \<in> set (rev q) \<Longrightarrow> c \<noteq> CHR ''/''" using assms(1) by auto
    then show ?thesis using snoc assms(2) by (subst takeWhile_append2) auto
  qed
  then have "path_base (r @ q) = q" using snoc c by (simp add: path_base_def Let_def)
  then show ?thesis by simp
qed simp

lemma nested_candidate_longer: "length desired < length (nested_candidate desired (Suc i))"
proof -
  define ext where "ext = file_ext desired"
  define base where "base = trim_suffix desired ext"
  have d: "desired = base @ ext" and ext: "CHR ''/'' \<notin> set ext"
    unfolding base_def ext_def by (rule split_ext) (rule file_ext_no_slash)
  define q where "q = rev (takeWhile (\<lambda>c. c \<noteq> CHR ''/'') (rev base))"
  define r where "r = rev (dropWhile (\<lambda>c. c \<noteq> CHR ''/'') (rev base))"
  have b: "base = r @ q" unfolding q_def r_def by (metis rev_append rev_rev_ident takeWhile_dropWhile_id)
  have q: "CHR ''/'' \<notin> set q" by (auto simp: q_def dest: set_takeWhileD)
  have r: "r = [] \<or> last r = CHR ''/''"
  proof (cases "dropWhile (\<lambda>c. c \<noteq> CHR ''/'') (rev base)")
    case (Cons x xs)
    then show ?thesis using hd_dropWhile [of "\<lambda>c. c \<noteq> CHR ''/''" "rev base"] by (simp add: r_def)
  qed (simp add: r_def)
  let ?name = "path_base base @ '' ('' @ nat_text (Suc i) @ '')'' @ ext"
  have "dropWhile (\<lambda>c. c \<noteq> CHR ''/'') (rev desired) = rev r"
    using ext q r by (cases r rule: rev_cases) (auto simp: d b dropWhile_append)
  then have dir: "path_dir desired = (if r = [] then ''.'' else butlast r)"
    unfolding path_dir_def Let_def by (cases r rule: rev_cases) simp_all
  have len: "length q + 3 + length ext \<le> length ?name" using path_base_length [OF q r] by (simp add: b)
  have two: "length r \<le> 2" if "butlast r = ''.''" using arg_cong [OF that, of length] by simp
  have "length r + length ?name \<le> length (path_join (path_dir desired) ?name) + 2"
    using two by (auto simp: dir path_join_def)
  then have "length desired < length (path_join (path_dir desired) ?name)" using len by (simp add: d b)
  then show ?thesis by (simp add: nested_candidate_def Let_def ext_def base_def)
qed

lemma candidate_longer: "length desired < length (candidate_name shape desired (Suc i))"
proof (cases "shape = Nested")
  case False
  have "length desired = length (trim_suffix desired (file_ext desired)) + length (file_ext desired)"
    using arg_cong [OF split_ext [of desired], of length] by simp
  with False show ?thesis
    by (cases shape) (simp_all add: candidate_name_def flat_candidate_def incoming_candidate_def Let_def)
qed (simp add: candidate_name_def nested_candidate_longer)

lemma candidate_name_inj: "inj (candidate_name shape desired)"
proof (rule injI)
  fix i j
  assume eq: "candidate_name shape desired i = candidate_name shape desired j"
  have zero: "candidate_name shape desired 0 = desired"
    by (cases shape) (simp_all add: candidate_name_def flat_candidate_def nested_candidate_def incoming_candidate_def Let_def)
  show "i = j"
  proof (cases "i = 0 \<or> j = 0")
    case True
    then show ?thesis using eq zero candidate_longer [of desired shape] by (metis less_irrefl not0_implies_Suc)
  next
    case False
    then have "nat_text i = nat_text j"
      using eq by (cases shape) (auto simp: candidate_name_def flat_candidate_def nested_candidate_def incoming_candidate_def
          path_join_def Let_def split: if_splits)
    then show ?thesis by (simp add: nat_text_inj)
  qed
qed

lemma free_candidate:
  assumes "length (d :: entries) < limit"
  shows "\<exists>k < limit. map_of d (candidate_name shape desired k) = None"
proof (rule ccontr)
  assume "\<not> ?thesis"
  then have "candidate_name shape desired ` {..<limit} \<subseteq> fst ` set d"
    by (auto simp: map_of_eq_None_iff)
  then have "card (candidate_name shape desired ` {..<limit}) \<le> card (fst ` set d)" by (intro card_mono) simp_all
  also have "\<dots> \<le> length d" by (metis card_length length_map set_map)
  finally show False using assms card_image [OF inj_on_subset [OF candidate_name_inj], of "{..<limit}"] by simp
qed

text \<open>An attempt whose operations work: the partial can be renamed, or it cannot and the copy works.\<close>

definition attempt_works :: "publish_env \<Rightarrow> string \<Rightarrow> pub_state \<Rightarrow> nat \<Rightarrow> bool" where
  "attempt_works env source s i \<longleftrightarrow>
     \<not> pb_lstat_fails env i \<and> pb_inside env \<and>
     (pb_rename env i = RenameDone \<or>
      pb_rename env i = RenameRefused \<and> \<not> pb_seek_fails env i \<and> \<not> pb_open_fails env i \<and> \<not> pb_copy_fails env i \<and>
      pb_copied env i = source \<and> pb_commit env i = RenameDone \<and>
      (case pb_random env i of
         Some raw # _ \<Rightarrow> map_of (ps_dir s) (temp_name raw) = None \<and> is_publication_temp_name (temp_name raw)
       | _ \<Rightarrow> False))"

lemma attempt_publishes:
  assumes works: "attempt_works env source s k" and part: "ps_part s \<noteq> None" and alone: "undisturbed env"
    and good: "meets_promise env expected total_bytes source" and lim: "k < limit"
    and free: "map_of (ps_dir s) (candidate_name shape desired k) = None"
  shows "\<exists>b. snd (publish_attempts env shape limit desired expected total_bytes k s) = Inr (candidate_name shape desired k, b)"
proof -
  let ?c = "candidate_name shape desired k"
  obtain x where x: "ps_part s = Some x" using part by blast
  have look: "\<not> pb_lstat_fails env k" using works by (simp add: attempt_works_def)
  show ?thesis
  proof (cases "pb_rename env k = RenameDone")
    case True
    then have "place_partial env shape k ?c s = (\<lparr>ps_dir = AList.update ?c x (ps_dir s), ps_part = None\<rparr>, Placed)"
      using works free x alone
      by (simp add: place_partial_def publish_from_staging_def rename_partial_def attempt_works_def undisturbed_def partial_private_def Let_def)
    then have "snd (publish_attempts env shape limit desired expected total_bytes k s) = Inr (?c, True)"
      using lim look free by (subst publish_attempts.simps) (simp add: Let_def)
    then show ?thesis by blast
  next
    case False
    then have w: "pb_rename env k = RenameRefused" "\<not> pb_seek_fails env k" "\<not> pb_open_fails env k" "\<not> pb_copy_fails env k"
      "pb_copied env k = source" "pb_commit env k = RenameDone"
      using works by (auto simp: attempt_works_def)
    obtain raw rs where rnd: "pb_random env k = Some raw # rs" and tn: "map_of (ps_dir s) (temp_name raw) = None"
      "is_publication_temp_name (temp_name raw)"
      using works False by (auto simp: attempt_works_def split: list.splits option.splits)
    have pl: "place_partial env shape k ?c s = (s, PlaceByCopy)"
      using w works free x alone
      by (simp add: place_partial_def publish_from_staging_def rename_partial_def attempt_works_def undisturbed_def partial_private_def Let_def)
    have temp: "new_publication_temp_name env k (ps_dir s) = Some (temp_name raw)"
      using rnd tn look by (simp add: new_publication_temp_name_def numeral_eq_Suc)
    have "copy_refusal env k expected total_bytes = None"
      using w good by (auto simp: copy_refusal_def Let_def meets_promise_def)
    then have "snd (publish_via_temp env k ?c expected total_bytes (ps_dir s)) = None"
      using temp w tn alone
      by (simp add: publish_via_temp_def Let_def publish_staged_file_def undisturbed_def partial_private_def update_conv')
    then obtain d where "publish_via_temp env k ?c expected total_bytes (ps_dir s) = (d, None)" by (metis prod.collapse)
    then have "snd (publish_attempts env shape limit desired expected total_bytes k s) = Inr (?c, False)"
      using lim look free pl w by (subst publish_attempts.simps) (simp add: Let_def)
    then show ?thesis by blast
  qed
qed

lemma attempts_reach_free:
  assumes "\<forall>i < limit. attempt_works env source s i" "ps_part s \<noteq> None" "undisturbed env"
    "meets_promise env expected total_bytes source" "k < limit" "map_of (ps_dir s) (candidate_name shape desired k) = None"
    "\<forall>j < k. map_of (ps_dir s) (candidate_name shape desired j) \<noteq> None" "i \<le> k"
  shows "\<exists>b. snd (publish_attempts env shape limit desired expected total_bytes i s) = Inr (candidate_name shape desired k, b)"
  using assms(8)
proof (induction "k - i" arbitrary: i)
  case 0
  then have "i = k" by simp
  moreover have "attempt_works env source s k" using assms(1,5) by blast
  ultimately show ?case using attempt_publishes [OF _ assms(2-6)] by blast
next
  case (Suc n)
  then have i: "i < k" "n = k - Suc i" by auto
  have "\<not> pb_lstat_fails env i" using assms(1,5) i by (auto simp: attempt_works_def)
  moreover have "\<exists>x. map_of (ps_dir s) (candidate_name shape desired i) = Some x" using assms(7) i by blast
  ultimately have "publish_attempts env shape limit desired expected total_bytes i s =
      publish_attempts env shape limit desired expected total_bytes (Suc i) s"
    using i assms(5) by (subst publish_attempts.simps) (auto simp: Let_def)
  then show ?case using Suc.hyps(1) [of "Suc i"] i by simp
qed

lemma publish_file_succeeds:
  assumes "\<forall>i < limit. attempt_works env source s i" "ps_part s \<noteq> None" "undisturbed env"
    "meets_promise env expected total_bytes source" "length (ps_dir s) < limit"
    "pb_parents env" "\<not> pb_stat_fails env" "pb_verify_fails env = (False, False, False)"
  shows "\<exists>k < limit. \<exists>b. map_of (ps_dir s) (candidate_name shape desired k) = None \<and>
    (\<forall>j < k. map_of (ps_dir s) (candidate_name shape desired j) \<noteq> None) \<and>
    snd (publish_file env shape limit source desired expected total_bytes s) = Inr (candidate_name shape desired k, b)"
proof -
  define P where "P k \<longleftrightarrow> map_of (ps_dir s) (candidate_name shape desired k) = None" for k
  obtain m where m: "m < limit" "P m" using free_candidate [OF assms(5)] by (auto simp: P_def)
  define k where "k = (LEAST k. P k)"
  have k: "P k" "k \<le> m" "\<forall>j < k. \<not> P j" unfolding k_def using m(2) LeastI Least_le not_less_Least by metis+
  have "\<exists>b. snd (publish_attempts env shape limit desired expected total_bytes 0 s) = Inr (candidate_name shape desired k, b)"
    using k m(1) by (intro attempts_reach_free [OF assms(1-4)]) (auto simp: P_def)
  moreover have "publish_file env shape limit source desired expected total_bytes s =
      publish_attempts env shape limit desired expected total_bytes 0 s"
    using assms(4,6,7,8) by (auto simp: publish_file_def verify_staged_digest_def meets_promise_def)
  ultimately show ?thesis using k m(1) by (intro exI [of _ k]) (auto simp: P_def)
qed


section \<open>The properties\<close>

lemma hex_digit_lower: "k < 16 \<Longrightarrow> lower_hex_char (hex_digit k)"
proof -
  have "\<forall>k < 16. lower_hex_char (hex_digit k)" by code_simp
  then show "k < 16 \<Longrightarrow> lower_hex_char (hex_digit k)" by blast
qed

lemma length_hex_encode: "length (hex_encode s) = 2 * length s"
  by (induction s) (simp_all add: hex_encode_def)

lemma hex_encode_lower: "list_all lower_hex_char (hex_encode s)"
proof (induction s)
  case (Cons c s)
  have "(code c :: nat) < 16 * 16" by simp
  then have "code c div 16 < (16 :: nat)" "code c mod 16 < (16 :: nat)" by (simp_all only: less_mult_imp_div_less mod_less_divisor)
  then show ?case using Cons hex_digit_lower by (simp add: hex_encode_def)
qed (simp add: hex_encode_def)

text \<open>The names that \<open>NewPublicationTempName\<close> makes are those the sweep of temporaries recognises.\<close>

lemma temp_name_recognised:
  assumes "length raw = 12"
  shows "is_publication_temp_name (temp_name raw)"
proof -
  have "trim_prefix (temp_name raw) publication_temp_prefix = hex_encode raw @ publication_temp_suffix"
    by (simp add: temp_name_def trim_prefix_def)
  moreover have "has_suffix (temp_name raw) publication_temp_suffix"
    using has_suffix_append [of "publication_temp_prefix @ hex_encode raw"] by (simp add: temp_name_def)
  ultimately show ?thesis
    using hex_encode_lower [of raw] assms
    by (simp add: is_publication_temp_name_def length_hex_encode) (simp add: temp_name_def)
qed

text \<open>
  Whatever a peer calls its file, the name it is received under is not empty, starts neither with a dot
  nor with a space, has no separator, colon, control character or other character that a file system
  refuses, and has at most 200 bytes. In particular no peer can name the staging directory, a temporary
  of the publication or a directory above.
\<close>

theorem sanitized_filename_is_plain:
  "let n = sanitize_drop_filename name in
     n \<noteq> '''' \<and> hd n \<noteq> CHR ''.'' \<and> hd n \<noteq> CHR '' '' \<and> list_all plain_char n \<and> length n \<le> 200 \<and>
     n \<noteq> staging_dir_name \<and> \<not> is_publication_temp_name n \<and> n \<noteq> ''..''"
proof -
  define n where "n = sanitize_drop_filename name"
  have p: "n \<noteq> ''''" "hd n \<noteq> CHR ''.''" "hd n \<noteq> CHR '' ''" "list_all plain_char n" "length n \<le> 200"
    using sanitize_plain [of name] by (auto simp: n_def plain_name_def max_sanitized_drop_name_def)
  have "\<not> has_prefix n ''.tantu-publish-''" using p(1,2) by (cases n) (auto simp: has_prefix_def)
  then have "\<not> is_publication_temp_name n" by (simp add: is_publication_temp_name_def publication_temp_prefix_def)
  then show ?thesis using p unfolding n_def by (auto simp: Let_def staging_dir_name_def)
qed

text \<open>
  C14. A file that is reported as published is there under the reported name with the bytes that were
  promised: their number and their digest agree with the announcement, whatever failed before. A file that
  was copied is so whatever others did to the directory and to the staged file meanwhile, as long as they
  leave the random names of the temporaries alone. A file that was renamed is so if moreover the staged file
  held the bytes behind the open descriptor and nobody replaced it before the rename, which goes by its name.
\<close>

theorem published_file_is_verified:
  assumes "publish_file env shape limit source desired expected total_bytes s = (s', Inr (name, renamed))"
    and "temps_private env"
    and "renamed \<longrightarrow> partial_private env \<and> (\<forall>x. ps_part s = Some x \<longrightarrow> en_data x = source)"
  shows "(\<exists>y. map_of (ps_dir s') name = Some y \<and>
      (0 < total_bytes \<longrightarrow> int (length (en_data y)) = total_bytes) \<and>
      (expected \<noteq> '''' \<longrightarrow> equal_fold (pb_sha env (en_data y)) expected)) \<and>
    (partial_private env \<longrightarrow> ps_part s' = (if renamed then None else ps_part s))"
  using publish_file_result [OF assms] by (auto simp: meets_promise_def)

definition demo_publish :: publish_env where
  "demo_publish = \<lparr>pb_sha = (\<lambda>s. s), pb_parents = True, pb_stat_fails = False, pb_verify_fails = (False, False, False),
     pb_lstat_fails = (\<lambda>i. False), pb_inside = True, pb_meddle = (\<lambda>i k d. d), pb_swap = (\<lambda>i p. p), pb_rename = (\<lambda>i. RenameRefused),
     pb_seek_fails = (\<lambda>i. False), pb_random = (\<lambda>i. [Some ''0123456789ab'']), pb_open_fails = (\<lambda>i. False),
     pb_copied = (\<lambda>i. ''data''), pb_copy_fails = (\<lambda>i. False), pb_remove_fails = (\<lambda>i. False),
     pb_commit = (\<lambda>i. RenameDone), pb_inode = 9, pb_now = 70\<rparr>"

definition demo_target :: pub_state where
  "demo_target = \<lparr>ps_dir = [(''a.txt'', demo_staged 1 5 ''old'')], ps_part = Some (demo_staged 2 6 ''data'')\<rparr>"

definition demo_delivered :: pub_state where
  "demo_delivered = \<lparr>ps_dir = [(''a.txt'', demo_staged 1 5 ''old''), (''a (1).txt'', demo_staged 9 70 ''data'')],
     ps_part = Some (demo_staged 2 6 ''data'')\<rparr>"

definition demo_temp :: string where "demo_temp = temp_name ''0123456789ab''"

lemma demo_temp_hidden: "hidden_name demo_temp" "is_publication_temp_name demo_temp"
  unfolding demo_temp_def by (rule temp_name_hidden, rule temp_name_recognised) simp

lemma demo_temp_other: "demo_temp \<noteq> CHR ''a'' # x" "demo_temp \<noteq> CHR ''b'' # x" "CHR ''a'' # x \<noteq> demo_temp" "CHR ''b'' # x \<noteq> demo_temp"
  by (simp_all add: demo_temp_def temp_name_def publication_temp_prefix_def)

lemma demo_names:
  "candidate_name Flat ''a.txt'' 0 = ''a.txt''" "candidate_name Flat ''a.txt'' (Suc 0) = ''a (1).txt''"
  "candidate_name Flat ''b.txt'' 0 = ''b.txt''"
  by code_simp+

lemmas demo_publish_simps = Let_def demo_temp_other demo_temp_hidden demo_names demo_target_def demo_publish_def
  place_partial_def publish_from_staging_def rename_partial_def publish_via_temp_def new_publication_temp_name_def
  copy_refusal_def publish_staged_file_def publish_file_def verify_staged_digest_def demo_staged_def
  demo_temp_def [symmetric]

lemma demo_publish_runs:
  "publish_file demo_publish Flat 10000 ''data'' ''a.txt'' ''data'' 4 demo_target = (demo_delivered, Inr (''a (1).txt'', False))"
proof -
  have "publish_attempts demo_publish Flat 10000 ''a.txt'' ''data'' 4 0 demo_target =
      publish_attempts demo_publish Flat 10000 ''a.txt'' ''data'' 4 (Suc 0) demo_target"
    by (subst publish_attempts.simps) (simp add: demo_publish_simps)
  moreover have "publish_attempts demo_publish Flat 10000 ''a.txt'' ''data'' 4 (Suc 0) demo_target =
      (demo_delivered, Inr (''a (1).txt'', False))"
    by (subst publish_attempts.simps) (simp add: demo_publish_simps demo_delivered_def)
  moreover have "publish_file demo_publish Flat 10000 ''data'' ''a.txt'' ''data'' 4 demo_target =
      publish_attempts demo_publish Flat 10000 ''a.txt'' ''data'' 4 0 demo_target"
    by (simp add: publish_file_def verify_staged_digest_def demo_publish_def)
  ultimately show ?thesis by simp
qed

theorem published_file_is_verified_witness:
  "\<exists>y. map_of (ps_dir demo_delivered) ''a (1).txt'' = Some y \<and> length (en_data y) = 4 \<and> equal_fold (en_data y) ''data''"
proof -
  have t: "temps_private demo_publish" by (simp add: temps_private_def demo_publish_def)
  have p: "False \<longrightarrow> partial_private demo_publish \<and> (\<forall>x. ps_part demo_target = Some x \<longrightarrow> en_data x = ''data'')" by simp
  have sha: "pb_sha demo_publish = (\<lambda>s. s)" by (simp add: demo_publish_def)
  show ?thesis using published_file_is_verified [OF demo_publish_runs t p] by (auto simp: sha)
qed

text \<open>
  C15. Publication overwrites nothing. If nobody else writes to the directory or the staged file meanwhile, every
  name in it still means what it meant, but for the one that is reported as published, which was free; a
  publication that fails adds no visible name. Only names of temporaries are left out, and no received file has one.
\<close>

theorem publication_overwrites_nothing:
  assumes "publish_file env shape limit source desired expected total_bytes s = (s', r)" "undisturbed env" "\<not> hidden_name n"
  shows "map_of (ps_dir s') n = map_of (ps_dir s) n \<or>
    map_of (ps_dir s) n = None \<and> (\<exists>renamed. r = Inr (n, renamed))"
proof -
  have "only_publishes (ps_dir s) (ps_dir s') r" by (rule publish_file_alone [OF assms(1,2)])
  with assms(3) have a: "map_of (ps_dir s') n = map_of (ps_dir s) n \<or>
      map_of (ps_dir s) n = None \<and> (case r of Inr (name, _) \<Rightarrow> name = n | Inl _ \<Rightarrow> False)"
    by (simp add: only_publishes_def)
  show ?thesis
  proof (cases r)
    case (Inr p)
    with a show ?thesis by (cases p) auto
  qed (use a in simp)
qed

theorem publication_overwrites_nothing_witness:
  "map_of (ps_dir demo_delivered) ''a.txt'' = Some (demo_staged 1 5 ''old'')"
proof -
  have u: "undisturbed demo_publish" by (simp add: undisturbed_def partial_private_def demo_publish_def)
  have h: "\<not> hidden_name ''a.txt''" by (simp add: hidden_name_def has_prefix_def publication_temp_prefix_def)
  have "map_of (ps_dir demo_target) ''a.txt'' = Some (demo_staged 1 5 ''old'')" by (simp add: demo_target_def)
  then show ?thesis using publication_overwrites_nothing [OF demo_publish_runs u h] by simp
qed

text \<open>
  C24. A verified file gets a name. If the operations work (the partial can be renamed, or the system refuses
  to and the copy works) and the directory has fewer files than there are attempts, then publication
  succeeds, under the first candidate name that is free.
\<close>

theorem publication_finds_a_name:
  assumes "\<forall>i < limit. attempt_works env source s i" "ps_part s \<noteq> None" "undisturbed env"
    and "meets_promise env expected total_bytes source" "length (ps_dir s) < limit"
    and "pb_parents env" "\<not> pb_stat_fails env" "pb_verify_fails env = (False, False, False)"
  shows "\<exists>k < limit. \<exists>renamed. map_of (ps_dir s) (candidate_name shape desired k) = None \<and>
    (\<forall>j < k. map_of (ps_dir s) (candidate_name shape desired j) \<noteq> None) \<and>
    snd (publish_file env shape limit source desired expected total_bytes s) = Inr (candidate_name shape desired k, renamed)"
  by (rule publish_file_succeeds [OF assms])

theorem publication_finds_a_name_witness:
  "\<exists>k renamed. snd (publish_file demo_publish Nested 10000 ''data'' ''a.txt'' ''data'' 4 demo_target) =
     Inr (candidate_name Nested ''a.txt'' k, renamed)"
proof -
  have works: "\<forall>i < (10000 :: nat). attempt_works demo_publish ''data'' demo_target i"
    using demo_temp_other(1) demo_temp_hidden(2)
    by (simp add: attempt_works_def demo_publish_def demo_target_def demo_temp_def)
  have "ps_part demo_target \<noteq> None" "undisturbed demo_publish" "meets_promise demo_publish ''data'' 4 ''data''"
    "length (ps_dir demo_target) < 10000" "pb_parents demo_publish" "\<not> pb_stat_fails demo_publish"
    "pb_verify_fails demo_publish = (False, False, False)"
    by (simp_all add: demo_target_def demo_publish_def undisturbed_def partial_private_def meets_promise_def)
  from publication_finds_a_name [OF works this, of Nested "''a.txt''"] show ?thesis by blast
qed

text \<open>
  Two transfers of one receiver that publish under the same name: the second looks before the first
  commits, and commits after it. The first file is gone, though it was reported as saved.
\<close>

definition demo_race :: publish_env where
  "demo_race = demo_publish\<lparr>pb_meddle := (\<lambda>i k d. if k = 1 then AList.update ''b.txt'' (demo_staged 8 60 ''first'') d else d)\<rparr>"

lemma concurrent_publication_overwrites:
  "map_of (ps_dir (fst (publish_file demo_race Flat 10000 ''data'' ''b.txt'' ''data'' 4 demo_target))) ''b.txt'' =
     Some (demo_staged 9 70 ''data'')"
proof -
  have "publish_file demo_race Flat 10000 ''data'' ''b.txt'' ''data'' 4 demo_target =
      publish_attempts demo_race Flat 10000 ''b.txt'' ''data'' 4 0 demo_target"
    by (simp add: publish_file_def verify_staged_digest_def demo_publish_def demo_race_def)
  moreover have "map_of (ps_dir (fst (publish_attempts demo_race Flat 10000 ''b.txt'' ''data'' 4 0 demo_target))) ''b.txt'' =
      Some (demo_staged 9 70 ''data'')"
    by (subst publish_attempts.simps) (simp add: demo_publish_simps demo_race_def)
  ultimately show ?thesis by simp
qed

text \<open>
  The rename goes by name. A file put under the staging name after the checks of the descriptor is what is
  published, and reported as the verified one.
\<close>

definition demo_swap :: publish_env where
  "demo_swap = demo_publish\<lparr>pb_rename := (\<lambda>i. RenameDone), pb_swap := (\<lambda>i p. Some (demo_staged 7 65 ''evil''))\<rparr>"

lemma replaced_partial_is_published:
  "let (s, r) = finalize_part_file demo_swap \<lparr>fz_sync_fails = False, fz_stat_fails = False, fz_lstat_fails = False,
       fz_seek_fails = False, fz_close_fails = False, fz_remove_fails = False\<rparr> True (Some (demo_staged 2 6 ''data'')) ''b.txt'' ''data'' 4 demo_target
   in r = Inr ''b.txt'' \<and> map_of (ps_dir s) ''b.txt'' = Some (demo_staged 7 65 ''evil'')"
proof -
  have trim: "trim_space ''b.txt'' \<noteq> ''''" by code_simp
  have "publish_file demo_swap Flat 10000 ''data'' ''b.txt'' ''data'' 4 demo_target =
      publish_attempts demo_swap Flat 10000 ''b.txt'' ''data'' 4 0 demo_target"
    by (simp add: publish_file_def verify_staged_digest_def demo_publish_def demo_swap_def)
  moreover have "publish_attempts demo_swap Flat 10000 ''b.txt'' ''data'' 4 0 demo_target =
      (\<lparr>ps_dir = [(''a.txt'', demo_staged 1 5 ''old''), (''b.txt'', demo_staged 7 65 ''evil'')], ps_part = None\<rparr>, Inr (''b.txt'', True))"
    by (subst publish_attempts.simps) (simp add: demo_publish_simps demo_swap_def)
  ultimately have run: "publish_file demo_swap Flat 10000 ''data'' ''b.txt'' ''data'' 4 demo_target =
      (\<lparr>ps_dir = [(''a.txt'', demo_staged 1 5 ''old''), (''b.txt'', demo_staged 7 65 ''evil'')], ps_part = None\<rparr>, Inr (''b.txt'', True))"
    by simp
  have staged: "en_data (demo_staged 2 6 ''data'') = ''data''" "en_kind (demo_staged 2 6 ''data'') = RegularKind"
    by (simp_all add: demo_staged_def)
  show ?thesis using trim run
    by (simp add: finalize_part_file_def finalize_part_def staged demo_target_def same_file_def demo_staged_def)
qed

text \<open>A finalized file is the source, verified: the descriptor was the file under the staging name.\<close>

lemma finalize_publishes_source:
  assumes "finalize_part env fz shape limit (Some x) desired expected total_bytes s = (s', Inr name)" "temps_private env" "partial_private env"
    and "\<And>y. ps_part s = Some y \<Longrightarrow> same_file x y \<Longrightarrow> en_data y = en_data x"
  shows "\<exists>y. map_of (ps_dir s') name = Some y \<and> meets_promise env expected total_bytes (en_data y) \<and> ps_part s' = None"
proof -
  obtain y where y: "ps_part s = Some y" "same_file x y"
    using assms(1) by (auto simp: finalize_part_def split: if_splits option.splits)
  obtain s1 renamed where run: "publish_file env shape limit (en_data x) desired expected total_bytes s = (s1, Inr (name, renamed))"
    and s1: "ps_dir s' = ps_dir s1" "ps_part s' = None \<or> s' = s1 \<and> renamed"
    using assms(1) by (auto simp: finalize_part_def split: if_splits option.splits prod.splits sum.splits)
  have "renamed \<longrightarrow> partial_private env \<and> (\<forall>z. ps_part s = Some z \<longrightarrow> en_data z = en_data x)" using assms(3,4) y by simp
  from publish_file_result [OF run assms(2) this] s1 show ?thesis by auto
qed

end
