(* ===== verification/Partial_Files.thy ===== *)
theory Partial_Files
  imports Staging_Manifest
begin

text \<open>
  Opening the partial of an announced transfer: the hub (\<open>OnMeta\<close>, \<open>openResumePart\<close> and
  \<open>createStagingPart\<close> in internal/hub/hub.go) and the standalone receiver
  (\<open>openStandaloneStagingPart\<close> in cmd/tantu/hardening.go). What is under the names of the partial and of
  its manifest is a node; the activity marker is held throughout.
\<close>

section \<open>Opening\<close>

datatype open_result = OpenDone | OpenMissing | OpenRefused

record part_env =
  po_unmarshal :: "string \<Rightarrow> staging_manifest option"
  po_sha :: "string \<Rightarrow> string"
  po_manifest_read_fails :: bool
  po_lstat_fails :: bool
  po_open :: open_result
  po_changed :: bool
  po_links :: "nat option"
  po_head_seek_fails :: bool
  po_head_read_fails :: bool
  po_truncate_fails :: bool
  po_seek_fails :: bool
  po_create_fails :: bool
  po_remove_fails :: bool
  po_recreate_fails :: bool
  po_created_odd :: bool
  po_manifest_written :: bool

datatype part_error =
    BadManifest manifest_error | OtherTransfer | PartNotInspected | PartNotRegular | PartNotOpened | PartChanged
  | PartLinksUnknown | PartLinked | PartNotTruncated | PartNotSought | PartNotCreated | ManifestNotWritten | PartUnmarked

text \<open>The descriptor a receiver writes to: the bytes of the file and the position in it.\<close>

record opened_part =
  op_bytes :: string
  op_position :: int
  op_new :: bool

text \<open>Whether there is a manifest; one that is damaged or of another transfer is an error.\<close>

definition manifest_ready :: "part_env \<Rightarrow> drop_send \<Rightarrow> node option \<Rightarrow> part_error + bool" where
  "manifest_ready e meta n =
     (case read_staging_manifest (po_unmarshal e) (po_manifest_read_fails e) n of
        Inl ManifestMissing \<Rightarrow> Inr False
      | Inl x \<Rightarrow> Inl (BadManifest x)
      | Inr m \<Rightarrow> if manifest_matches m meta then Inr True else Inl OtherTransfer)"

text \<open>The checks of an opened partial: the file inspected before, and no other link to it.\<close>

definition opened_refusal :: "part_env \<Rightarrow> part_error option" where
  "opened_refusal e =
     (if po_changed e then Some PartChanged
      else (case po_links e of
        None \<Rightarrow> Some PartLinksUnknown
      | Some k \<Rightarrow> if 1 < k then Some PartLinked else None))"

definition resume_point_of :: "part_env \<Rightarrow> drop_send \<Rightarrow> string \<Rightarrow> int" where
  "resume_point_of e meta bytes =
     resume_prefix (po_sha e) \<lparr>pf_bytes = bytes, pf_seek_fails = po_head_seek_fails e, pf_read_fails = po_head_read_fails e\<rparr>
       (int (length bytes)) meta"

text \<open>\<open>createStagingPart\<close>: what is in the way is unlinked, once.\<close>

definition create_staging_part :: "part_env \<Rightarrow> node option \<Rightarrow> node option \<times> (part_error + opened_part)" where
  "create_staging_part e part =
     (let created = (Some (Regular ''''),
                     if po_created_odd e then Inl PartNotCreated else Inr \<lparr>op_bytes = '''', op_position = 0, op_new = True\<rparr>)
      in case part of
        None \<Rightarrow> if po_create_fails e then (None, Inl PartNotCreated) else created
      | Some n \<Rightarrow>
          if po_remove_fails e then (part, Inl PartNotCreated)
          else if po_recreate_fails e then (None, Inl PartNotCreated)
          else created)"

text \<open>The manifest of the transfer is written last; a file that was just made goes with it.\<close>

definition publish_manifest ::
  "part_env \<Rightarrow> node \<Rightarrow> (node option \<times> node option) \<times> (part_error + opened_part) \<Rightarrow>
   (node option \<times> node option) \<times> (part_error + opened_part)" where
  "publish_manifest e manifest r =
     (case r of
        (st, Inl x) \<Rightarrow> (st, Inl x)
      | ((part, old), Inr f) \<Rightarrow>
          if po_manifest_written e then ((part, Some manifest), Inr f)
          else if op_new f then ((None, None), Inl ManifestNotWritten)
          else ((part, old), Inl ManifestNotWritten))"

definition hub_open_part ::
  "part_env \<Rightarrow> drop_send \<Rightarrow> node \<Rightarrow> node option \<times> node option \<Rightarrow> (node option \<times> node option) \<times> (part_error + opened_part)" where
  "hub_open_part e meta manifest st =
     (let (part, old) = st;
          fresh = (let (part1, r) = create_staging_part e part in publish_manifest e manifest ((part1, old), r))
      in case manifest_ready e meta old of
        Inl x \<Rightarrow> (st, Inl x)
      | Inr ready \<Rightarrow>
          if po_lstat_fails e then (st, Inl PartNotInspected)
          else (case part of
            None \<Rightarrow> fresh
          | Some Symlink \<Rightarrow> (st, Inl PartNotRegular)
          | Some Special \<Rightarrow> (st, Inl PartNotRegular)
          | Some (Regular bytes) \<Rightarrow>
              if \<not> ready then fresh
              else (case po_open e of
                OpenMissing \<Rightarrow> fresh
              | OpenRefused \<Rightarrow> (st, Inl PartNotOpened)
              | OpenDone \<Rightarrow>
                  (case opened_refusal e of
                     Some x \<Rightarrow> (st, Inl x)
                   | None \<Rightarrow>
                       let n = resume_point_of e meta bytes; kept = take (nat n) bytes
                       in if n \<le> 0 then fresh
                          else if po_truncate_fails e then (st, Inl PartNotTruncated)
                          else if po_seek_fails e then ((Some (Regular kept), old), Inl PartNotSought)
                          else publish_manifest e manifest
                                 ((Some (Regular kept), old), Inr \<lparr>op_bytes = kept, op_position = n, op_new = False\<rparr>)))))"

definition standalone_open_part ::
  "part_env \<Rightarrow> drop_send \<Rightarrow> node \<Rightarrow> node option \<times> node option \<Rightarrow> (node option \<times> node option) \<times> (part_error + opened_part)" where
  "standalone_open_part e meta manifest st =
     (let (part, old) = st
      in case manifest_ready e meta old of
        Inl x \<Rightarrow> (st, Inl x)
      | Inr ready \<Rightarrow>
          if po_lstat_fails e then (st, Inl PartNotInspected)
          else (case part of
            None \<Rightarrow>
              if po_create_fails e then (st, Inl PartNotCreated)
              else publish_manifest e manifest
                     ((Some (Regular ''''), old), Inr \<lparr>op_bytes = '''', op_position = 0, op_new = True\<rparr>)
          | Some Symlink \<Rightarrow> (st, Inl PartNotRegular)
          | Some Special \<Rightarrow> (st, Inl PartNotRegular)
          | Some (Regular bytes) \<Rightarrow>
              if \<not> ready then (st, Inl PartUnmarked)
              else if po_open e \<noteq> OpenDone then (st, Inl PartNotOpened)
              else (case opened_refusal e of
                Some x \<Rightarrow> (st, Inl x)
              | None \<Rightarrow>
                  let n = resume_point_of e meta bytes; kept = take (nat n) bytes
                  in if n < int (length bytes) \<and> po_truncate_fails e then (st, Inl PartNotTruncated)
                     else if po_seek_fails e then ((Some (Regular kept), old), Inl PartNotSought)
                     else ((Some (Regular kept), old), Inr \<lparr>op_bytes = kept, op_position = n, op_new = False\<rparr>))))"

section \<open>Lemmas\<close>

lemma resume_point_range: "0 \<le> resume_point_of e meta bytes"
  by (simp add: resume_point_of_def resume_prefix_def Let_def)

lemma resume_point_zero: "resume_point_of e meta bytes \<le> 0 \<longleftrightarrow> resume_point_of e meta bytes = 0"
  using resume_point_range [of e meta bytes] by auto

definition own_prefix :: "part_env \<Rightarrow> drop_send \<Rightarrow> node option \<times> node option \<Rightarrow> node option \<Rightarrow> opened_part \<Rightarrow> bool" where
  "own_prefix e meta st part f \<longleftrightarrow>
     part = Some (Regular (op_bytes f)) \<and>
     (op_bytes f = '''' \<and> op_position f = 0 \<or>
      (\<exists>bytes. fst st = Some (Regular bytes) \<and> manifest_ready e meta (snd st) = Inr True \<and> opened_refusal e = None \<and>
         op_position f = resume_point_of e meta bytes \<and> op_bytes f = take (nat (op_position f)) bytes))"

lemma create_staging_part_result:
  "create_staging_part e part = (part1, Inr f) \<Longrightarrow> part1 = Some (Regular '''') \<and> f = \<lparr>op_bytes = '''', op_position = 0, op_new = True\<rparr>"
  by (auto simp: create_staging_part_def Let_def split: option.splits if_splits)

lemma publish_manifest_result:
  "publish_manifest e m r = (st', Inr f) \<Longrightarrow> \<exists>old. r = ((fst st', old), Inr f) \<and> st' = (fst st', Some m)"
  by (auto simp: publish_manifest_def split: prod.splits sum.splits if_splits)


lemma fresh_result:
  assumes "(let (part1, r) = create_staging_part e part in publish_manifest e m ((part1, old), r)) = (st', Inr f)"
  shows "st' = (Some (Regular ''''), Some m) \<and> f = \<lparr>op_bytes = '''', op_position = 0, op_new = True\<rparr>"
proof -
  obtain part1 r where c: "create_staging_part e part = (part1, r)" by force
  with assms obtain o1 where "((part1, old), r) = ((fst st', o1), Inr f)" "st' = (fst st', Some m)"
    using publish_manifest_result [of e m "((part1, old), r)" st' f] by auto
  with create_staging_part_result [of e part part1 f] c show ?thesis by auto
qed

lemma opens_prefix:
  assumes "opens = hub_open_part \<or> opens = standalone_open_part" "opens e meta m st = (st', Inr f)"
  shows "own_prefix e meta st (fst st') f"
proof -
  obtain part old where st: "st = (part, old)" by force
  obtain ready where r: "manifest_ready e meta old = Inr ready"
    using assms st by (cases "manifest_ready e meta old") (auto simp: hub_open_part_def standalone_open_part_def)
  have l: "\<not> po_lstat_fails e"
    using assms st r by (auto simp: hub_open_part_def standalone_open_part_def split: if_splits)
  show ?thesis
  proof (cases "\<exists>bytes. part = Some (Regular bytes) \<and> ready \<and> po_open e = OpenDone \<and> opened_refusal e = None \<and>
      \<not> (opens = hub_open_part \<and> resume_point_of e meta bytes \<le> 0)")
    case True
    then obtain bytes where b: "part = Some (Regular bytes)" "ready" "po_open e = OpenDone" "opened_refusal e = None"
      "opens = hub_open_part \<Longrightarrow> 0 < resume_point_of e meta bytes" by force
    have "fst st' = Some (Regular (op_bytes f)) \<and> op_position f = resume_point_of e meta bytes \<and>
        op_bytes f = take (nat (op_position f)) bytes"
      using assms(1)
    proof
      assume h: "opens = hub_open_part"
      show ?thesis using assms(2) st r l b(1-4) b(5) [OF h] unfolding h
        by (auto simp: hub_open_part_def Let_def split: if_splits dest!: publish_manifest_result)
    next
      assume h: "opens = standalone_open_part"
      show ?thesis using assms(2) st r l b(1-4) unfolding h
        by (auto simp: standalone_open_part_def Let_def split: if_splits)
    qed
    then show ?thesis using b r by (auto simp: own_prefix_def st)
  next
    case False
    have "fst st' = Some (Regular '''') \<and> op_bytes f = '''' \<and> op_position f = 0"
      using assms(1)
    proof
      assume h: "opens = hub_open_part"
      have "(let (part1, r) = create_staging_part e part in publish_manifest e m ((part1, old), r)) = (st', Inr f)"
        using assms(2) False st r l unfolding h
        by (auto simp: hub_open_part_def Let_def split: option.splits node.splits if_splits open_result.splits)
      from fresh_result [OF this] show ?thesis by simp
    next
      assume h: "opens = standalone_open_part"
      show ?thesis using assms(2) False st r l unfolding h
        by (auto simp: standalone_open_part_def Let_def resume_point_zero
            split: option.splits node.splits if_splits dest!: publish_manifest_result)
    qed
    then show ?thesis by (simp add: own_prefix_def)
  qed
qed

lemma manifest_ready_decoded:
  assumes "manifest_ready e meta n = Inr True"
  shows "\<exists>raw x. n = Some (Regular raw) \<and> po_unmarshal e raw = Some x \<and> manifest_matches x meta"
proof -
  obtain x where x: "read_staging_manifest (po_unmarshal e) (po_manifest_read_fails e) n = Inr x" "manifest_matches x meta"
    using assms by (auto simp: manifest_ready_def split: sum.splits manifest_error.splits if_splits)
  then show ?thesis
    by (auto simp: read_staging_manifest_def check_manifest_def split: option.splits node.splits if_splits)
qed

lemma resume_point_bound:
  assumes "int (length bytes) \<le> max_int64"
  shows "resume_point_of e meta bytes \<le> int (length bytes)"
proof (cases "resume_point_of e meta bytes = 0")
  case False
  let ?c = "if ds_chunk_size meta \<le> 0 then default_chunk_size else ds_chunk_size meta"
  have c: "0 < ?c" by (simp add: default_chunk_size_def)
  have "resume_point_of e meta bytes = i64 (go_div (int (length bytes)) ?c * ?c)"
    using False by (auto simp: resume_point_of_def resume_prefix_def Let_def split: if_splits)
  also have "go_div (int (length bytes)) ?c = int (length bytes) div ?c" using c by (intro go_div_nonneg) simp_all
  finally have eq: "resume_point_of e meta bytes = i64 (int (length bytes) div ?c * ?c)" .
  have "int (length bytes) = int (length bytes) div ?c * ?c + int (length bytes) mod ?c" by simp
  moreover have "0 \<le> int (length bytes) mod ?c" using c by (rule pos_mod_sign)
  ultimately have le: "int (length bytes) div ?c * ?c \<le> int (length bytes)" by linarith
  have "0 \<le> int (length bytes) div ?c * ?c"
    using c by (intro mult_nonneg_nonneg) (simp_all add: pos_imp_zdiv_nonneg_iff)
  then have "i64 (int (length bytes) div ?c * ?c) = int (length bytes) div ?c * ?c"
    using le assms by (intro i64_id) linarith+
  with eq le show ?thesis by simp
qed simp

section \<open>The properties\<close>

text \<open>
  C18. Whichever receiver opens a partial, and whatever lies under its name, the descriptor it writes to is of
  a regular file that holds exactly the bytes before the position at which it resumes; and if there are
  any, they are a prefix of the partial found there, of the length that the resume rule grants, and a
  valid manifest beside it described the same transfer. Bytes of different transfers are never mixed.
\<close>

theorem opened_partial_is_own_prefix:
  assumes "opens = hub_open_part \<or> opens = standalone_open_part" "opens e meta m st = (st', Inr f)"
    and "\<And>bytes. fst st = Some (Regular bytes) \<Longrightarrow> int (length bytes) \<le> max_int64"
  shows "fst st' = Some (Regular (op_bytes f)) \<and> int (length (op_bytes f)) = op_position f \<and>
    (op_bytes f = '''' \<or>
     (\<exists>bytes raw x. fst st = Some (Regular bytes) \<and> snd st = Some (Regular raw) \<and> po_unmarshal e raw = Some x \<and>
        manifest_matches x meta \<and> op_position f = resume_point_of e meta bytes \<and>
        op_bytes f = take (nat (op_position f)) bytes))"
proof -
  from opens_prefix [OF assms(1,2)] have p: "own_prefix e meta st (fst st') f" .
  have len: "int (length (op_bytes f)) = op_position f"
  proof (cases "op_bytes f = '''' \<and> op_position f = 0")
    case False
    with p obtain bytes where b: "fst st = Some (Regular bytes)" "op_position f = resume_point_of e meta bytes"
      "op_bytes f = take (nat (op_position f)) bytes"
      by (auto simp: own_prefix_def)
    show ?thesis using resume_point_bound [OF assms(3) [OF b(1)], of e meta] resume_point_range [of e meta bytes] b(2,3) by simp
  qed simp
  with p show ?thesis using manifest_ready_decoded [of e meta "snd st"] by (auto simp: own_prefix_def)
qed

text \<open>
  C19. The two receivers resume alike: where both can open the partial of a transfer, they resume at the same
  position with the same bytes, so that the sender sees one answer.
\<close>

theorem receivers_resume_alike:
  assumes "hub_open_part e meta m st = (st1, Inr f)" "standalone_open_part e meta m' st = (st2, Inr g)"
    and "\<And>bytes. fst st = Some (Regular bytes) \<Longrightarrow> int (length bytes) \<le> max_int64"
  shows "op_position f = op_position g \<and> op_bytes f = op_bytes g \<and> fst st1 = fst st2"
proof (cases "fst st")
  case None
  then have "fst st2 = Some (Regular '''')" "g = \<lparr>op_bytes = '''', op_position = 0, op_new = True\<rparr>"
    using assms(2) by (auto simp: standalone_open_part_def split: prod.splits sum.splits if_splits dest!: publish_manifest_result)
  moreover have "own_prefix e meta st (fst st1) f" using opens_prefix [where opens = hub_open_part, OF _ assms(1)] by simp
  ultimately show ?thesis using None by (simp add: own_prefix_def)
next
  case (Some n)
  obtain bytes where n: "n = Regular bytes"
    using assms(2) Some by (cases n) (auto simp: standalone_open_part_def split: prod.splits sum.splits if_splits)
  obtain old where st: "st = (Some (Regular bytes), old)" using Some n by (cases st) auto
  have s: "manifest_ready e meta old = Inr True" "\<not> po_lstat_fails e" "po_open e = OpenDone" "opened_refusal e = None"
    "fst st2 = Some (Regular (op_bytes g))" "op_bytes g = take (nat (resume_point_of e meta bytes)) bytes"
    "op_position g = resume_point_of e meta bytes"
    using assms(2) unfolding st
    by (auto simp: standalone_open_part_def Let_def split: sum.splits if_splits option.splits)
  show ?thesis
  proof (cases "resume_point_of e meta bytes \<le> 0")
    case True
    then have z: "resume_point_of e meta bytes = 0" using resume_point_range [of e meta bytes] by simp
    have "(let (part1, r) = create_staging_part e (Some (Regular bytes)) in publish_manifest e m ((part1, old), r)) = (st1, Inr f)"
      using assms(1) s(1-4) True unfolding st by (simp add: hub_open_part_def Let_def)
    from fresh_result [OF this] show ?thesis using s z by simp
  next
    case False
    have "fst st1 = Some (Regular (op_bytes f))" "op_position f = resume_point_of e meta bytes"
      "op_bytes f = take (nat (resume_point_of e meta bytes)) bytes"
      using assms(1) s(1-4) False unfolding st
      by (auto simp: hub_open_part_def Let_def split: if_splits dest!: publish_manifest_result)
    then show ?thesis using s by simp
  qed
qed

definition demo_kept :: staging_manifest where
  "demo_kept = demo_manifest\<lparr>sm_head_hash := replicate 64 (CHR ''a'')\<rparr>"

definition demo_resumed :: drop_send where
  "demo_resumed = demo_meta\<lparr>ds_head_hash := replicate 64 (CHR ''a'')\<rparr>"

definition demo_part_env :: part_env where
  "demo_part_env = \<lparr>po_unmarshal = (\<lambda>raw. if raw = ''json'' then Some demo_kept else None), po_sha = demo_sha,
     po_manifest_read_fails = False, po_lstat_fails = False, po_open = OpenDone, po_changed = False, po_links = Some 1,
     po_head_seek_fails = False, po_head_read_fails = False, po_truncate_fails = False, po_seek_fails = False,
     po_create_fails = False, po_remove_fails = False, po_recreate_fails = False, po_created_odd = False,
     po_manifest_written = True\<rparr>"

definition demo_before :: "node option \<times> node option" where
  "demo_before = (Some (Regular ''hell''), Some (Regular ''json''))"

definition demo_opened :: opened_part where
  "demo_opened = \<lparr>op_bytes = ''hel'', op_position = 3, op_new = False\<rparr>"

lemma demo_opens:
  "hub_open_part demo_part_env demo_resumed (Regular ''new'') demo_before =
     ((Some (Regular ''hel''), Some (Regular ''new'')), Inr demo_opened)"
  "standalone_open_part demo_part_env demo_resumed (Regular ''new'') demo_before =
     ((Some (Regular ''hel''), Some (Regular ''json'')), Inr demo_opened)"
proof -
  have "check_manifest demo_kept = Inr demo_kept" "manifest_matches demo_kept demo_resumed" by code_simp+
  then have r: "manifest_ready demo_part_env demo_resumed (Some (Regular ''json'')) = Inr True"
    by (simp add: manifest_ready_def read_staging_manifest_def demo_part_env_def max_staging_manifest_size_def)
  have n: "resume_point_of demo_part_env demo_resumed ''hell'' = 3"
    by (simp add: resume_point_of_def resume_prefix_def demo_part_env_def demo_resumed_def demo_meta_def head_hash_size_def go_simps)
  have o: "opened_refusal demo_part_env = None" "po_open demo_part_env = OpenDone" "\<not> po_lstat_fails demo_part_env"
    "\<not> po_truncate_fails demo_part_env" "\<not> po_seek_fails demo_part_env" "po_manifest_written demo_part_env"
    by (simp_all add: demo_part_env_def opened_refusal_def)
  show "hub_open_part demo_part_env demo_resumed (Regular ''new'') demo_before =
     ((Some (Regular ''hel''), Some (Regular ''new'')), Inr demo_opened)"
    using r n o by (simp add: hub_open_part_def demo_before_def publish_manifest_def demo_opened_def Let_def)
  show "standalone_open_part demo_part_env demo_resumed (Regular ''new'') demo_before =
     ((Some (Regular ''hel''), Some (Regular ''json'')), Inr demo_opened)"
    using r n o by (simp add: standalone_open_part_def demo_before_def demo_opened_def Let_def)
qed

lemma demo_before_small: "fst demo_before = Some (Regular bytes) \<Longrightarrow> int (length bytes) \<le> max_int64"
  by (auto simp: demo_before_def)

theorem opened_partial_is_own_prefix_witness:
  "\<exists>raw x. snd demo_before = Some (Regular raw) \<and> po_unmarshal demo_part_env raw = Some x \<and> manifest_matches x demo_resumed"
proof -
  have "hub_open_part = hub_open_part \<or> hub_open_part = standalone_open_part" by simp
  from opened_partial_is_own_prefix [OF this demo_opens(1) demo_before_small] show ?thesis
    by (auto simp: demo_opened_def)
qed

theorem receivers_resume_alike_witness:
  "op_position demo_opened = 3 \<and>
   fst (fst (hub_open_part demo_part_env demo_resumed (Regular ''new'') demo_before)) =
     fst (fst (standalone_open_part demo_part_env demo_resumed (Regular ''new'') demo_before))"
  using receivers_resume_alike [OF demo_opens demo_before_small] by (simp add: demo_opens) (simp add: demo_opened_def)

end
