(* ===== verification/Session_Registry.thy ===== *)
theory Session_Registry
  imports Prelude
begin

text \<open>
  The registry of in-flight sign-ins (internal/bridge/session_registry.go). Every method holds the
  mutex for its decisions, so each is one step; \<open>CancelByFlow\<close>, \<open>CancelOnPort\<close> and \<open>CancelAll\<close>
  collect ids under the lock and then cancel them one by one. The clock is an argument. Calling a
  session's \<open>context.CancelCauseFunc\<close> is an entry in the log \<open>sr_cancelled\<close>; the wait for the
  listener to close has no effect on the registry and is left out.
\<close>

section \<open>State\<close>

record session_info =
  si_request_id :: string
  si_flow_id :: string
  si_callback_port :: int
  si_peer :: string
  si_state :: string
  si_started_at :: go_time
  si_age :: go_duration
  si_age_seconds :: int

definition state_waiting_browser :: string where
  "state_waiting_browser = ''waiting_for_browser''"

record active_session =
  as_info :: session_info
  as_started :: go_time

record registry =
  sr_sessions :: "(string \<times> active_session) list"
  sr_max :: int
  sr_cancelled :: "session_info list"

definition default_max_sessions :: int where
  "default_max_sessions = 128"

definition new_registry :: registry where
  "new_registry = \<lparr>sr_sessions = [], sr_max = default_max_sessions, sr_cancelled = []\<rparr>"

datatype registry_error = RequestIdRequired | TooManySessions

section \<open>Operations\<close>

text \<open>\<open>Register\<close> returns the id its unregister function will delete.\<close>

definition register ::
  "go_time \<Rightarrow> session_info \<Rightarrow> registry \<Rightarrow> registry \<times> (registry_error + string)" where
  "register now info0 r =
     (let sid = trim_space (si_request_id info0)
      in if sid = '''' then (r, Inl RequestIdRequired)
         else if map_of (sr_sessions r) sid = None \<and> sr_max r \<le> int (length (sr_sessions r))
           then (r, Inl TooManySessions)
         else
           let info = info0\<lparr>si_request_id := sid, si_started_at := now,
                 si_state := (if si_state info0 = '''' then state_waiting_browser else si_state info0)\<rparr>
           in (r\<lparr>sr_sessions := AList.update sid \<lparr>as_info = info, as_started = now\<rparr> (sr_sessions r)\<rparr>,
               Inr sid))"

text \<open>The first call of the function \<open>Register\<close> returned; later calls do nothing (\<open>sync.Once\<close>).\<close>

definition unregister :: "string \<Rightarrow> registry \<Rightarrow> registry" where
  "unregister sid r = r\<lparr>sr_sessions := AList.delete sid (sr_sessions r)\<rparr>"

definition set_state :: "go_time \<Rightarrow> string \<Rightarrow> string \<Rightarrow> registry \<Rightarrow> registry" where
  "set_state now request_id state r =
     (let sid = trim_space request_id
      in case map_of (sr_sessions r) sid of
           None \<Rightarrow> r
         | Some s \<Rightarrow>
             r\<lparr>sr_sessions := AList.update sid
                 (s\<lparr>as_info := (as_info s)\<lparr>si_state := state, si_started_at := now\<rparr>\<rparr>) (sr_sessions r)\<rparr>)"

definition session_belongs_to_peer :: "session_info \<Rightarrow> string \<Rightarrow> bool" where
  "session_belongs_to_peer info peer =
     (let owner = trim_space (si_peer info); requester = trim_space peer
      in if owner = '''' \<or> requester = '''' then owner = '''' \<and> requester = ''''
         else equal_fold owner requester)"

definition cancel_session :: "string \<Rightarrow> string \<Rightarrow> registry \<Rightarrow> registry \<times> session_info option" where
  "cancel_session request_id peer r =
     (let sid = trim_space request_id
      in case map_of (sr_sessions r) sid of
           None \<Rightarrow> (r, None)
         | Some s \<Rightarrow>
             if \<not> session_belongs_to_peer (as_info s) peer then (r, None)
             else (r\<lparr>sr_sessions := AList.delete sid (sr_sessions r),
                     sr_cancelled := sr_cancelled r @ [as_info s]\<rparr>, Some (as_info s)))"

fun cancel_ids :: "string list \<Rightarrow> string \<Rightarrow> registry \<Rightarrow> registry \<times> session_info list" where
  "cancel_ids [] peer r = (r, [])"
| "cancel_ids (sid # ids) peer r =
     (let (r1, res) = cancel_session sid peer r; (r2, infos) = cancel_ids ids peer r1
      in (r2, (case res of None \<Rightarrow> infos | Some info \<Rightarrow> info # infos)))"

definition cancel_by_flow :: "string \<Rightarrow> string \<Rightarrow> registry \<Rightarrow> registry \<times> int" where
  "cancel_by_flow flow_id peer r =
     (let flow = trim_space flow_id
      in if flow = '''' then (r, 0)
         else
           let ids = map fst (filter (\<lambda>(sid, s). si_flow_id (as_info s) = flow) (sr_sessions r));
               (r1, infos) = cancel_ids ids peer r
           in (r1, int (length infos)))"

definition cancel_on_port ::
  "int \<Rightarrow> string \<Rightarrow> string \<Rightarrow> registry \<Rightarrow> registry \<times> session_info list" where
  "cancel_on_port port peer exclude_request_id r =
     (if port \<le> 0 then (r, [])
      else
        let exclude = trim_space exclude_request_id;
            ids = map fst (filter (\<lambda>(sid, s). si_callback_port (as_info s) = port \<and> sid \<noteq> exclude) (sr_sessions r))
        in cancel_ids ids peer r)"

definition cancel_all :: "string \<Rightarrow> registry \<Rightarrow> registry \<times> session_info list" where
  "cancel_all peer r = cancel_ids (map fst (sr_sessions r)) peer r"

definition with_age :: "go_time \<Rightarrow> active_session \<Rightarrow> session_info" where
  "with_age now s =
     (let age = now - as_started s
      in (as_info s)\<lparr>si_age := age, si_age_seconds := go_div age second\<rparr>)"

definition get_session :: "go_time \<Rightarrow> string \<Rightarrow> registry \<Rightarrow> session_info option" where
  "get_session now request_id r =
     map_option (with_age now) (map_of (sr_sessions r) (trim_space request_id))"

definition list_sessions :: "go_time \<Rightarrow> registry \<Rightarrow> session_info list" where
  "list_sessions now r =
     sort_key (\<lambda>i. (si_started_at i, si_request_id i)) (map (\<lambda>(sid, s). with_age now s) (sr_sessions r))"

definition count_sessions :: "registry \<Rightarrow> int" where
  "count_sessions r = int (length (sr_sessions r))"

section \<open>The invariant\<close>

definition registry_inv :: "registry \<Rightarrow> bool" where
  "registry_inv r \<longleftrightarrow>
     keys_distinct (sr_sessions r) \<and>
     (\<forall>(sid, s) \<in> set (sr_sessions r).
        sid \<noteq> '''' \<and> trim_space sid = sid \<and> si_request_id (as_info s) = sid) \<and>
     (0 < sr_max r \<longrightarrow> int (length (sr_sessions r)) \<le> sr_max r)"

text \<open>The events of a registry; \<open>Unregister\<close> with the id \<open>Register\<close> returned.\<close>

datatype registry_event =
    Register go_time session_info
  | Unregister string
  | SetState go_time string string
  | Cancel string string
  | CancelByFlow string string
  | CancelOnPort int string string
  | CancelAll string

fun registry_step :: "registry \<Rightarrow> registry_event \<Rightarrow> registry" where
  "registry_step r (Register now info) = fst (register now info r)"
| "registry_step r (Unregister sid) = unregister sid r"
| "registry_step r (SetState now sid state) = set_state now sid state r"
| "registry_step r (Cancel sid peer) = fst (cancel_session sid peer r)"
| "registry_step r (CancelByFlow flow peer) = fst (cancel_by_flow flow peer r)"
| "registry_step r (CancelOnPort port peer exclude) = fst (cancel_on_port port peer exclude r)"
| "registry_step r (CancelAll peer) = fst (cancel_all peer r)"

lemma alist_delete_sub: "x \<in> set (AList.delete k m) \<Longrightarrow> x \<in> set m"
  by (simp add: AList.delete_eq)

lemma registry_inv_delete: "registry_inv r \<Longrightarrow> registry_inv (unregister sid r)"
  using length_alist_delete_le [of sid "sr_sessions r"]
  by (force simp: registry_inv_def unregister_def AList.distinct_delete dest: alist_delete_sub)

lemma registry_inv_log [simp]: "registry_inv (r\<lparr>sr_cancelled := x\<rparr>) = registry_inv r"
  by (simp add: registry_inv_def)

lemma registry_inv_update:
  assumes "registry_inv r" "sid \<noteq> ''''" "trim_space sid = sid" "si_request_id (as_info s) = sid"
    and "map_of (sr_sessions r) sid \<noteq> None \<or> int (length (sr_sessions r)) < sr_max r"
  shows "registry_inv (r\<lparr>sr_sessions := AList.update sid s (sr_sessions r)\<rparr>)"
  using assms
  by (auto simp: registry_inv_def distinct_update length_alist_update map_of_eq_None_iff
      dest!: alist_update_cases)

lemma cancel_session_cases:
  obtains "cancel_session sid peer r = (r, None)"
  | s where "map_of (sr_sessions r) (trim_space sid) = Some s" "session_belongs_to_peer (as_info s) peer"
      "cancel_session sid peer r =
         ((unregister (trim_space sid) r)\<lparr>sr_cancelled := sr_cancelled r @ [as_info s]\<rparr>, Some (as_info s))"
proof (cases "map_of (sr_sessions r) (trim_space sid)")
  case None
  with that(1) show thesis by (simp add: cancel_session_def)
next
  case (Some s)
  with that show thesis
    by (cases "session_belongs_to_peer (as_info s) peer") (simp_all add: cancel_session_def unregister_def)
qed

lemma cancel_session_inv: "registry_inv r \<Longrightarrow> registry_inv (fst (cancel_session sid peer r))"
  by (cases rule: cancel_session_cases [of sid peer r]) (simp_all add: registry_inv_delete)

lemma cancel_ids_inv: "registry_inv r \<Longrightarrow> registry_inv (fst (cancel_ids ids peer r))"
proof (induction ids arbitrary: r)
  case (Cons sid ids)
  then show ?case
    using cancel_session_inv [of r sid peer] by (simp add: split_def Let_def)
qed simp

lemma registry_step_inv:
  assumes "registry_inv r"
  shows "registry_inv (registry_step r ev)"
proof (cases ev)
  case (Register now info)
  with assms show ?thesis
    by (auto simp: register_def Let_def intro!: registry_inv_update)
next
  case (SetState now sid state)
  show ?thesis
  proof (cases "map_of (sr_sessions r) (trim_space sid)")
    case (Some s)
    then have "(trim_space sid, s) \<in> set (sr_sessions r)" by (rule map_of_SomeD)
    then have "trim_space sid \<noteq> ''''" "si_request_id (as_info s) = trim_space sid"
      using assms by (auto simp: registry_inv_def)
    with SetState Some assms show ?thesis
      by (auto simp: set_state_def Let_def intro!: registry_inv_update)
  qed (use SetState assms in \<open>simp add: set_state_def\<close>)
qed (use assms in \<open>auto simp: registry_inv_delete cancel_session_inv cancel_ids_inv cancel_by_flow_def
    cancel_on_port_def cancel_all_def Let_def split_def\<close>)

lemma cancel_ids_max: "sr_max (fst (cancel_ids ids peer r)) = sr_max r"
proof (induction ids arbitrary: r)
  case (Cons sid ids)
  have "sr_max (fst (cancel_session sid peer r)) = sr_max r"
    by (cases rule: cancel_session_cases [of sid peer r]) (simp_all add: unregister_def)
  with Cons show ?case by (simp add: split_def Let_def)
qed simp

lemma registry_step_max: "sr_max (registry_step r ev) = sr_max r"
proof (cases ev)
  case (Cancel sid peer)
  then show ?thesis
    by (cases rule: cancel_session_cases [of sid peer r]) (simp_all add: unregister_def)
qed (auto simp: register_def unregister_def set_state_def cancel_by_flow_def cancel_on_port_def
    cancel_all_def cancel_ids_max Let_def split_def split: option.splits)

interpretation sign_ins: bounded_stepper registry_step registry_inv count_sessions sr_max
  by unfold_locales (simp_all add: registry_step_inv registry_step_max, simp add: registry_inv_def count_sessions_def)

section \<open>Ownership\<close>

text \<open>
  Events that are not the owner's: cancellations by a peer that does not own the session, and
  anything else that is about another session, or only changes a label.
\<close>

fun foreign_event :: "string \<Rightarrow> session_info \<Rightarrow> registry_event \<Rightarrow> bool" where
  "foreign_event sid owner (Register now info) \<longleftrightarrow> trim_space (si_request_id info) \<noteq> sid"
| "foreign_event sid owner (Unregister u) \<longleftrightarrow> u \<noteq> sid"
| "foreign_event sid owner (SetState now u state) \<longleftrightarrow> True"
| "foreign_event sid owner (Cancel u peer) \<longleftrightarrow> \<not> session_belongs_to_peer owner peer"
| "foreign_event sid owner (CancelByFlow flow peer) \<longleftrightarrow> \<not> session_belongs_to_peer owner peer"
| "foreign_event sid owner (CancelOnPort port peer exclude) \<longleftrightarrow>
     \<not> session_belongs_to_peer owner peer \<or> trim_space exclude = sid"
| "foreign_event sid owner (CancelAll peer) \<longleftrightarrow> \<not> session_belongs_to_peer owner peer"

text \<open>The session is there, with its owner, flow and port; only its label may have changed.\<close>

definition tracked :: "string \<Rightarrow> session_info \<Rightarrow> registry \<Rightarrow> bool" where
  "tracked sid owner r \<longleftrightarrow>
     registry_inv r \<and>
     (\<exists>s. map_of (sr_sessions r) sid = Some s \<and> si_peer (as_info s) = si_peer owner \<and>
        si_flow_id (as_info s) = si_flow_id owner \<and>
        si_callback_port (as_info s) = si_callback_port owner)"

lemma belongs_cong: "si_peer i = si_peer j \<Longrightarrow> session_belongs_to_peer i p = session_belongs_to_peer j p"
  by (simp add: session_belongs_to_peer_def)

lemma cancel_session_other:
  assumes "map_of (sr_sessions r) sid = Some s" "trim_space u \<noteq> sid \<or> \<not> session_belongs_to_peer (as_info s) peer"
  shows "map_of (sr_sessions (fst (cancel_session u peer r))) sid = Some s"
  using assms
  by (cases rule: cancel_session_cases [of u peer r])
    (auto simp: unregister_def AList.delete_conv')

lemma cancel_ids_other:
  assumes "map_of (sr_sessions r) sid = Some s"
    "\<not> session_belongs_to_peer (as_info s) peer \<or> (\<forall>u \<in> set ids. trim_space u \<noteq> sid)"
  shows "map_of (sr_sessions (fst (cancel_ids ids peer r))) sid = Some s"
  using assms
proof (induction ids arbitrary: r)
  case (Cons u ids)
  have "map_of (sr_sessions (fst (cancel_session u peer r))) sid = Some s"
    by (rule cancel_session_other [OF Cons.prems(1)]) (use Cons.prems(2) in auto)
  from Cons.IH [OF this] Cons.prems(2) show ?case by (auto simp: split_def Let_def)
qed simp

lemma registry_keys_trimmed:
  "registry_inv r \<Longrightarrow> k \<in> fst ` set (sr_sessions r) \<Longrightarrow> trim_space k = k"
  by (auto simp: registry_inv_def)

lemma tracked_step:
  assumes t: "tracked sid owner r" and f: "foreign_event sid owner ev"
  shows "tracked sid owner (registry_step r ev)"
proof -
  from t obtain s where s: "map_of (sr_sessions r) sid = Some s" "si_peer (as_info s) = si_peer owner"
      "si_flow_id (as_info s) = si_flow_id owner" "si_callback_port (as_info s) = si_callback_port owner"
    and inv: "registry_inv r" by (auto simp: tracked_def)
  have b: "session_belongs_to_peer (as_info s) p = session_belongs_to_peer owner p" for p
    by (rule belongs_cong [OF s(2)])
  have keep: "tracked sid owner r'" if "registry_inv r'" "map_of (sr_sessions r') sid = Some s" for r'
    using that s by (auto simp: tracked_def)
  have inv': "registry_inv (registry_step r ev)" by (rule registry_step_inv [OF inv])
  show ?thesis
  proof (cases ev)
    case (SetState now u state)
    then show ?thesis
      using inv' s
      by (auto simp: tracked_def set_state_def Let_def AList.update_conv' split: option.splits)
  next
    case (CancelOnPort port peer exclude)
    let ?ids = "map fst (filter (\<lambda>(u, s). si_callback_port (as_info s) = port \<and> u \<noteq> trim_space exclude)
        (sr_sessions r))"
    have "trim_space u \<noteq> sid" if "u \<in> set ?ids" "trim_space exclude = sid" for u
    proof -
      have "u \<in> fst ` set (sr_sessions r)" "u \<noteq> trim_space exclude" using that(1) by auto
      with registry_keys_trimmed [OF inv] that(2) show ?thesis by simp
    qed
    then have "map_of (sr_sessions (fst (cancel_ids ?ids peer r))) sid = Some s"
      using f CancelOnPort b by (intro cancel_ids_other [OF s(1)]) (metis foreign_event.simps(6))
    with s(1) CancelOnPort keep [OF inv'] show ?thesis
      by (simp add: cancel_on_port_def Let_def split: if_splits)
  qed (use f s(1) keep [OF inv'] b cancel_session_other [OF s(1)] cancel_ids_other [OF s(1)] in
    \<open>auto simp: register_def unregister_def cancel_by_flow_def cancel_all_def Let_def split_def
       AList.update_conv' AList.delete_conv'\<close>)
qed

interpretation ownership: guarded_stepper registry_step "foreign_event sid owner" "tracked sid owner"
  for sid owner
  by unfold_locales (rule tracked_step)

section \<open>Cancelling a set of sessions\<close>

lemma cancel_session_key:
  assumes "registry_inv r" "map_of (sr_sessions r) u = Some s"
  shows "cancel_session u peer r =
    (if session_belongs_to_peer (as_info s) peer
     then ((unregister u r)\<lparr>sr_cancelled := sr_cancelled r @ [as_info s]\<rparr>, Some (as_info s))
     else (r, None))"
proof -
  have "trim_space u = u"
    using assms map_of_SomeD [OF assms(2)] by (force intro: registry_keys_trimmed)
  with assms(2) show ?thesis by (simp add: cancel_session_def unregister_def)
qed

text \<open>Cancelling distinct tracked ids removes exactly those the peer owns, and reports them in order.\<close>

lemma cancel_ids_exact:
  assumes "registry_inv r" "distinct ids" "set ids \<subseteq> fst ` set (sr_sessions r)"
  shows "sr_sessions (fst (cancel_ids ids peer r)) =
      filter (\<lambda>(u, s). \<not> (u \<in> set ids \<and> session_belongs_to_peer (as_info s) peer)) (sr_sessions r)"
    "snd (cancel_ids ids peer r) =
      filter (\<lambda>i. session_belongs_to_peer i peer)
        (map (\<lambda>u. as_info (the (map_of (sr_sessions r) u))) ids)"
  using assms
proof (induction ids arbitrary: r)
  case (Cons u ids)
  {
    case 1
    note prems = 1
    obtain s where s: "map_of (sr_sessions r) u = Some s"
      using prems(3) by (metis (no_types, lifting) insert_subset list.set(2) map_of_eq_None_iff not_Some_eq)
    let ?r1 = "fst (cancel_session u peer r)"
    have r1: "sr_sessions ?r1 = filter (\<lambda>(v, s). \<not> (v = u \<and> session_belongs_to_peer (as_info s) peer)) (sr_sessions r)"
    proof -
      have "s' = s" if "(u, s') \<in> set (sr_sessions r)" for s'
        using that s prems(1) by (simp add: registry_inv_def)
      with cancel_session_key [OF prems(1) s] show ?thesis
        by (auto simp: unregister_def AList.delete_eq intro!: filter_cong filter_True [symmetric])
    qed
    have look: "map_of (sr_sessions ?r1) v = map_of (sr_sessions r) v" if "v \<in> set ids" for v
      using that prems(2) cancel_session_key [OF prems(1) s, of peer]
      by (auto simp: unregister_def AList.delete_conv')
    have sub: "set ids \<subseteq> fst ` set (sr_sessions ?r1)"
    proof
      fix v assume v: "v \<in> set ids"
      then have "map_of (sr_sessions r) v \<noteq> None" using prems(3) by (auto simp: map_of_eq_None_iff)
      with look [OF v] show "v \<in> fst ` set (sr_sessions ?r1)" by (metis map_of_eq_None_iff)
    qed
    have inv1: "registry_inv ?r1" by (rule cancel_session_inv [OF prems(1)])
    show ?case
      using Cons.IH(1) [OF inv1 _ sub] prems(2) r1
      by (auto simp: split_def Let_def intro!: filter_cong)
  }
  {
    case 2
    note prems = 2
    obtain s where s: "map_of (sr_sessions r) u = Some s"
      using prems(3) by (metis (no_types, lifting) insert_subset list.set(2) map_of_eq_None_iff not_Some_eq)
    let ?r1 = "fst (cancel_session u peer r)"
    have look: "map_of (sr_sessions ?r1) v = map_of (sr_sessions r) v" if "v \<in> set ids" for v
      using that prems(2) cancel_session_key [OF prems(1) s, of peer]
      by (auto simp: unregister_def AList.delete_conv')
    have sub: "set ids \<subseteq> fst ` set (sr_sessions ?r1)"
    proof
      fix v assume v: "v \<in> set ids"
      then have "map_of (sr_sessions r) v \<noteq> None" using prems(3) by (auto simp: map_of_eq_None_iff)
      with look [OF v] show "v \<in> fst ` set (sr_sessions ?r1)" by (metis map_of_eq_None_iff)
    qed
    have inv1: "registry_inv ?r1" by (rule cancel_session_inv [OF prems(1)])
    have d: "distinct ids" using prems(2) by simp
    have same: "map (\<lambda>v. as_info (the (map_of (sr_sessions ?r1) v))) ids =
        map (\<lambda>v. as_info (the (map_of (sr_sessions r) v))) ids"
      using look by simp
    have tail: "snd (cancel_ids ids peer ?r1) = filter (\<lambda>i. session_belongs_to_peer i peer)
        (map (\<lambda>v. as_info (the (map_of (sr_sessions r) v))) ids)"
      by (rule trans [OF Cons.IH(2) [OF inv1 d sub]]) (simp only: same)
    have "snd (cancel_session u peer r) =
        (if session_belongs_to_peer (as_info s) peer then Some (as_info s) else None)"
      by (simp add: cancel_session_key [OF prems(1) s])
    then show ?case by (simp add: split_def Let_def tail s)
  }
qed auto

section \<open>What the registry promises\<close>

lemma registry_inv_new: "registry_inv new_registry"
  by (simp add: registry_inv_def new_registry_def default_max_sessions_def)

text \<open>
  Whatever sequence of calls a bridge listener makes on the registry \<open>NewSessionRegistry\<close>
  returns, it never tracks more than \<open>DefaultMaxTrackedSessions\<close> (128) sign-ins, every one under
  its own trimmed, non-empty request id.\<close>

theorem registry_bounded:
  "let r = foldl registry_step new_registry es
   in count_sessions r \<le> 128 \<and> keys_distinct (sr_sessions r) \<and>
      list_all (\<lambda>(sid, s). sid \<noteq> '''' \<and> trim_space sid = sid \<and> si_request_id (as_info s) = sid) (sr_sessions r)"
proof -
  let ?r = "foldl registry_step new_registry es"
  have "count_sessions ?r \<le> sr_max new_registry"
    by (rule sign_ins.run_used [OF registry_inv_new]) (simp add: new_registry_def default_max_sessions_def)
  moreover have "registry_inv ?r" by (rule sign_ins.run_inv [OF registry_inv_new])
  ultimately show ?thesis
    by (simp add: registry_inv_def new_registry_def default_max_sessions_def list_all_iff Let_def)
qed

text \<open>
  C34. A tracked sign-in survives what is done for other peers: any sequence of cancellations by id, by
  flow, by port or wholesale on behalf of a peer that does not own it, of registrations and ends of
  sign-ins under other request ids, and of label changes leaves it listed, with its owner, flow and port
  unchanged. A registration of the same request id is not among these: it takes the entry over, whoever
  makes it (\<open>register_takes_over\<close>).\<close>

theorem only_the_owner_cancels:
  assumes "tracked sid owner r" "list_all (foreign_event sid owner) es"
  shows "\<exists>info. get_session now sid (foldl registry_step r es) = Some info \<and>
    si_peer info = si_peer owner \<and> si_flow_id info = si_flow_id owner \<and>
    si_callback_port info = si_callback_port owner"
proof -
  have t: "tracked sid owner (foldl registry_step r es)"
    by (rule ownership.allowed_run_inv [OF assms])
  then obtain s where s: "map_of (sr_sessions (foldl registry_step r es)) sid = Some s"
      "si_peer (as_info s) = si_peer owner" "si_flow_id (as_info s) = si_flow_id owner"
      "si_callback_port (as_info s) = si_callback_port owner"
    and inv: "registry_inv (foldl registry_step r es)" by (auto simp: tracked_def)
  have "trim_space sid = sid"
    using inv map_of_SomeD [OF s(1)] by (force intro: registry_keys_trimmed)
  with s show ?thesis by (simp add: get_session_def with_age_def Let_def)
qed

definition demo_info :: "string \<Rightarrow> int \<Rightarrow> string \<Rightarrow> session_info" where
  "demo_info sid port peer = \<lparr>si_request_id = sid, si_flow_id = ''f'', si_callback_port = port,
     si_peer = peer, si_state = '''', si_started_at = 0, si_age = 0, si_age_seconds = 0\<rparr>"

definition demo_registry :: registry where
  "demo_registry = foldl registry_step new_registry
     [Register 10 (demo_info ''a1'' 8085 ''AB12''), Register 20 (demo_info ''b2'' 8085 ''CD34'')]"

lemma demo_registry_eq:
  "demo_registry = \<lparr>sr_sessions =
      [(''a1'', \<lparr>as_info = (demo_info ''a1'' 8085 ''AB12'')\<lparr>si_started_at := 10, si_state := state_waiting_browser\<rparr>, as_started = 10\<rparr>),
       (''b2'', \<lparr>as_info = (demo_info ''b2'' 8085 ''CD34'')\<lparr>si_started_at := 20, si_state := state_waiting_browser\<rparr>, as_started = 20\<rparr>)],
    sr_max = 128, sr_cancelled = []\<rparr>"
  by code_simp

lemma demo_registry_inv: "registry_inv demo_registry"
  unfolding demo_registry_def by (rule sign_ins.run_inv [OF registry_inv_new])

lemma only_the_owner_cancels_witness:
  "\<exists>info. get_session 99 ''a1'' (foldl registry_step demo_registry
      [CancelAll ''CD34'', Cancel ''a1'' '''', CancelOnPort 8085 ''CD34'' '''', SetState 50 ''a1'' ''x'']) = Some info \<and>
    si_peer info = ''AB12'' \<and> si_flow_id info = ''f'' \<and> si_callback_port info = 8085"
proof -
  have t: "tracked ''a1'' (demo_info ''a1'' 8085 ''AB12'') demo_registry"
    by (simp add: tracked_def demo_registry_inv) (simp add: demo_registry_eq demo_info_def)
  have f: "list_all (foreign_event ''a1'' (demo_info ''a1'' 8085 ''AB12''))
      [CancelAll ''CD34'', Cancel ''a1'' '''', CancelOnPort 8085 ''CD34'' '''', SetState 50 ''a1'' ''x'']"
    by code_simp
  from only_the_owner_cancels [OF t f, of 99] show ?thesis by (simp add: demo_info_def)
qed

lemma map_of_pair: "keys_distinct m \<Longrightarrow> (k, v) \<in> set m \<Longrightarrow> map_of m k = Some v"
  by simp

lemma selected_ids:
  assumes "registry_inv r"
  defines "sel P \<equiv> filter (\<lambda>(u, s). P u (as_info s)) (sr_sessions r)"
  shows "sr_sessions (fst (cancel_ids (map fst (sel P)) peer r)) =
      filter (\<lambda>(u, s). \<not> (P u (as_info s) \<and> session_belongs_to_peer (as_info s) peer)) (sr_sessions r)"
    and "snd (cancel_ids (map fst (sel P)) peer r) =
      map (as_info \<circ> snd) (filter (\<lambda>(u, s). P u (as_info s) \<and> session_belongs_to_peer (as_info s) peer) (sr_sessions r))"
proof -
  have kd: "keys_distinct (sr_sessions r)" using assms(1) by (simp add: registry_inv_def)
  have d: "distinct (map fst (sel P))" unfolding sel_def by (rule keys_distinct_filter [OF kd])
  have sub: "set (map fst (sel P)) \<subseteq> fst ` set (sr_sessions r)" by (auto simp: sel_def)
  have mem: "u \<in> set (map fst (sel P)) \<longleftrightarrow> P u (as_info s)" if "(u, s) \<in> set (sr_sessions r)" for u s
  proof -
    have "u \<in> set (map fst (sel P)) \<longleftrightarrow> (\<exists>s'. (u, s') \<in> set (sr_sessions r) \<and> P u (as_info s'))"
      by (force simp: sel_def)
    moreover have "s' = s" if "(u, s') \<in> set (sr_sessions r)" for s'
      using map_of_pair [OF kd that] map_of_pair [OF kd \<open>(u, s) \<in> set (sr_sessions r)\<close>] by simp
    ultimately show ?thesis using that by blast
  qed
  show "sr_sessions (fst (cancel_ids (map fst (sel P)) peer r)) =
      filter (\<lambda>(u, s). \<not> (P u (as_info s) \<and> session_belongs_to_peer (as_info s) peer)) (sr_sessions r)"
    unfolding cancel_ids_exact(1) [OF assms(1) d sub] using mem by (intro filter_cong) auto
  have m: "map (\<lambda>u. as_info (the (map_of (sr_sessions r) u))) (map fst (sel P)) = map (as_info \<circ> snd) (sel P)"
    using map_of_pair [OF kd] by (auto simp: sel_def)
  show "snd (cancel_ids (map fst (sel P)) peer r) =
      map (as_info \<circ> snd) (filter (\<lambda>(u, s). P u (as_info s) \<and> session_belongs_to_peer (as_info s) peer) (sr_sessions r))"
    unfolding cancel_ids_exact(2) [OF assms(1) d sub] m
    by (simp add: sel_def filter_map o_def split_def conj_ac)
qed

text \<open>
  Releasing a callback port for a retry removes exactly the other sign-ins of the same peer that
  hold the port, reports exactly those, and asks exactly those to end: the retry's own session,
  sessions on other ports and sessions of other peers stay.\<close>

theorem cancel_on_port_exact:
  assumes "registry_inv r" "0 < port"
  shows "let hit = (\<lambda>(u, s). si_callback_port (as_info s) = port \<and> u \<noteq> trim_space exclude \<and>
               session_belongs_to_peer (as_info s) peer);
             (r', released) = cancel_on_port port peer exclude r
         in sr_sessions r' = filter (\<lambda>e. \<not> hit e) (sr_sessions r) \<and>
            released = map (as_info \<circ> snd) (filter hit (sr_sessions r)) \<and>
            sr_cancelled r' = sr_cancelled r @ released"
proof -
  let ?P = "\<lambda>u i. si_callback_port i = port \<and> u \<noteq> trim_space exclude"
  have log: "sr_cancelled (fst (cancel_ids ids peer r)) = sr_cancelled r @ snd (cancel_ids ids peer r)" for ids r
  proof (induction ids arbitrary: r)
    case (Cons u ids)
    then show ?case
      by (cases rule: cancel_session_cases [of u peer r]) (simp_all add: split_def Let_def unregister_def)
  qed simp
  show ?thesis
    using assms(2) selected_ids [OF assms(1), of ?P peer]
    by (simp add: cancel_on_port_def Let_def split_def log conj_assoc)
qed

lemma cancel_on_port_exact_witness:
  "let (r', released) = cancel_on_port 8085 ''ab12'' '' z9 '' demo_registry
   in map fst (sr_sessions r') = [''b2''] \<and> map si_request_id released = [''a1''] \<and>
      map si_request_id (sr_cancelled r') = [''a1'']"
proof -
  note e = cancel_on_port_exact [OF demo_registry_inv, of 8085 "'' z9 ''" "''ab12''"]
  have h: "filter (\<lambda>(u, s). si_callback_port (as_info s) = 8085 \<and> u \<noteq> trim_space '' z9 '' \<and>
        session_belongs_to_peer (as_info s) ''ab12'') (sr_sessions demo_registry) = [hd (sr_sessions demo_registry)]"
    "filter (\<lambda>e. \<not> (\<lambda>(u, s). si_callback_port (as_info s) = 8085 \<and> u \<noteq> trim_space '' z9 '' \<and>
        session_belongs_to_peer (as_info s) ''ab12'') e) (sr_sessions demo_registry) = tl (sr_sessions demo_registry)"
    unfolding demo_registry_eq by code_simp+
  from e show ?thesis unfolding Let_def h by (simp add: split_def demo_registry_eq demo_info_def)
qed


section \<open>Two weaknesses of the code\<close>

text \<open>A second peer that registers the same request id takes the entry over.\<close>

lemma register_takes_over:
  "let r = fst (register 30 (demo_info ''a1'' 9000 ''CD34'') demo_registry)
   in snd (cancel_session ''a1'' ''AB12'' r) = None \<and> snd (cancel_all ''AB12'' r) = [] \<and>
      map_option si_request_id (snd (cancel_session ''a1'' ''CD34'' r)) = Some ''a1'' \<and>
      map_of (sr_sessions (unregister ''a1'' r)) ''a1'' = None"
  unfolding demo_registry_eq by code_simp

text \<open>Changing a label restarts the time the listing is sorted by, but not the age.\<close>

lemma set_state_restarts:
  "let r = set_state 40 ''a1'' ''completing'' demo_registry
   in map si_request_id (list_sessions 50 r) = [''b2'', ''a1''] \<and>
      map si_age (list_sessions 50 r) = [30, 40]"
  unfolding demo_registry_eq by code_simp

end
