(* ===== verification/Callback_Guard.thy ===== *)
theory Callback_Guard
  imports Net_URL
begin

text \<open>
  What stands between a web page and the application waiting for an OAuth callback: the expectation
  derived from the authorization URL, the checks on the captured request (internal/bridge/aside.go),
  the header filter of both sides (session.go), the checks on the relayed request and the choice of
  the callback port (bside.go), and the reasons shown to the user (rejection.go). Errors are their
  kinds; the log texts that go with them are left out, the page shown to the user is not.
\<close>

section \<open>Loopback hosts\<close>

definition usable_loopback_port :: "url option \<Rightarrow> bool" where
  "usable_loopback_port uo =
     (case uo of
        None \<Rightarrow> False
      | Some u \<Rightarrow>
          if url_port u = '''' then False
          else (case atoi (url_port u) of None \<Rightarrow> False | Some p \<Rightarrow> 0 < p \<and> p \<le> 65535))"

definition is_loopback_host :: "net_lib \<Rightarrow> string \<Rightarrow> bool" where
  "is_loopback_host nl host =
     (if equal_fold host ''localhost'' then True
      else (case nl_ip_loopback nl (trim_chars ''[]'' host) of Some b \<Rightarrow> b | None \<Rightarrow> False))"

definition request_host_is_loopback :: "net_lib \<Rightarrow> string \<Rightarrow> bool" where
  "request_host_is_loopback nl host_header =
     (let host = trim_space host_header
      in if host = '''' then False
         else is_loopback_host nl
           (case nl_split_host_port nl host of Some (h, _) \<Rightarrow> h | None \<Rightarrow> trim_chars ''[]'' host))"

section \<open>The expectation\<close>

record expectation =
  ex_path :: string
  ex_state :: string
  ex_constrained :: bool
  ex_auth_origin :: string
  ex_unbound :: bool

text \<open>A loopback binding: plain http, a loopback host and a usable port.\<close>

definition loopback_binding :: "net_lib \<Rightarrow> (string \<Rightarrow> string) \<Rightarrow> string \<Rightarrow> url option" where
  "loopback_binding nl fold_host raw =
     (case nl_parse nl raw of
        None \<Rightarrow> None
      | Some u \<Rightarrow>
          if url_hostname u \<noteq> '''' \<and> is_loopback_host nl (fold_host (url_hostname u)) \<and>
             equal_fold (ur_scheme u) ''http'' \<and> usable_loopback_port (Some u)
          then Some u else None)"

definition callback_expectation :: "net_lib \<Rightarrow> string \<Rightarrow> expectation" where
  "callback_expectation nl raw =
     (case nl_parse nl raw of
        None \<Rightarrow> \<lparr>ex_path = '''', ex_state = '''', ex_constrained = False, ex_auth_origin = '''', ex_unbound = True\<rparr>
      | Some parsed \<Rightarrow>
          let q = url_query nl parsed;
              state = values_get q ''state''; redirect = values_get q ''redirect_uri'';
              origin = (if ur_scheme parsed \<noteq> '''' \<and> ur_host parsed \<noteq> ''''
                then to_lower (ur_scheme parsed) @ ''://'' @ to_lower (ur_host parsed) else '''');
              (constrained1, path1) =
                (if redirect = '''' then (False, '''')
                 else (case loopback_binding nl to_lower redirect of
                   None \<Rightarrow> (False, '''')
                 | Some u \<Rightarrow> (True, ur_path u)));
              (constrained, path) =
                (case loopback_binding nl (\<lambda>h. h) state of
                   None \<Rightarrow> (constrained1, path1)
                 | Some u \<Rightarrow> (True, if ur_path u \<noteq> '''' then ur_path u else path1))
          in if \<not> constrained
             then \<lparr>ex_path = '''', ex_state = state, ex_constrained = False, ex_auth_origin = origin, ex_unbound = True\<rparr>
             else \<lparr>ex_path = path, ex_state = state, ex_constrained = True, ex_auth_origin = origin, ex_unbound = False\<rparr>)"

section \<open>Rejections\<close>

datatype rejection_kind =
    RejectNone | RejectMethod | RejectNotLoopback | RejectNotNavigation | RejectSubresource
  | RejectOriginUnknown | RejectOriginMismatch | RejectPath | RejectState | RejectBodyUnreadable
  | RejectBodyTooLarge | RejectDuplicate

definition rejection_kind_name :: "rejection_kind \<Rightarrow> string" where
  "rejection_kind_name k =
     (case k of
        RejectNone \<Rightarrow> ''rejectNone'' | RejectMethod \<Rightarrow> ''rejectMethod'' | RejectNotLoopback \<Rightarrow> ''rejectNotLoopback''
      | RejectNotNavigation \<Rightarrow> ''rejectNotNavigation'' | RejectSubresource \<Rightarrow> ''rejectSubresource''
      | RejectOriginUnknown \<Rightarrow> ''rejectOriginUnknown'' | RejectOriginMismatch \<Rightarrow> ''rejectOriginMismatch''
      | RejectPath \<Rightarrow> ''rejectPath'' | RejectState \<Rightarrow> ''rejectState''
      | RejectBodyUnreadable \<Rightarrow> ''rejectBodyUnreadable'' | RejectBodyTooLarge \<Rightarrow> ''rejectBodyTooLarge''
      | RejectDuplicate \<Rightarrow> ''rejectDuplicate'')"

text \<open>What the person at the browser is told for each kind.\<close>

record rejection_advice =
  ra_title :: string
  ra_detail :: string
  ra_next :: string
  ra_status :: int

fun advice_for :: "rejection_kind \<Rightarrow> rejection_advice" where
  "advice_for RejectNone =
     \<lparr>ra_title = ''Tantu could not accept this sign-in'',
      ra_detail = ''The sign-in redirect arrived, but Tantu did not recognise it as the callback '' @
        ''it was waiting for.'',
      ra_next = ''Start the sign-in again from the application, and if it fails again check '' @
        ''Live Logs in the Tantu dashboard for the technical reason.'',
      ra_status = 400\<rparr>"
| "advice_for RejectMethod =
     \<lparr>ra_title = ''This sign-in returned in a form Tantu does not accept'',
      ra_detail = ''The sign-in redirected the browser using something other than a normal page '' @
        ''navigation.'',
      ra_next = ''Start the sign-in again. If it keeps failing, the application may need a '' @
        ''browser that supports the redirect it uses.'',
      ra_status = 400\<rparr>"
| "advice_for RejectNotLoopback =
     \<lparr>ra_title = ''This callback was addressed to another machine'',
      ra_detail = ''The sign-in redirected to a host that is not this computer, so the callback '' @
        ''cannot belong to the sign-in Tantu is relaying.'',
      ra_next = ''Check that the application registered a loopback redirect address such as '' @
        ''http://localhost, then start the sign-in again.'',
      ra_status = 400\<rparr>"
| "advice_for RejectNotNavigation =
     \<lparr>ra_title = ''The sign-in was fetched rather than followed'',
      ra_detail = ''Something on the sign-in page asked for the callback address directly, '' @
        ''instead of the browser following a redirect to it.'',
      ra_next = ''Start the sign-in again and let the browser follow the redirect to '' @
        ''completion. If the application always does this, it cannot be relayed this '' @
        ''way.'',
      ra_status = 400\<rparr>"
| "advice_for RejectSubresource =
     \<lparr>ra_title = ''The callback was loaded as page content, not as a page'',
      ra_detail = ''The callback address was requested as an image, script or stylesheet rather '' @
        ''than opened as a page.'',
      ra_next = ''Start the sign-in again and let the browser open the callback address as a '' @
        ''page.'',
      ra_status = 400\<rparr>"
| "advice_for RejectOriginUnknown =
     \<lparr>ra_title = ''Tantu could not verify where this sign-in came from'',
      ra_detail = ''The callback identified the site that sent it, but Tantu does not know which '' @
        ''site the sign-in started on, so it refused rather than assume.'',
      ra_next = ''Start the sign-in again. If it keeps failing, send the Live Logs entry for '' @
        ''this callback to whoever maintains the application.'',
      ra_status = 400\<rparr>"
| "advice_for RejectOriginMismatch =
     \<lparr>ra_title = ''This sign-in came from a different website'',
      ra_detail = ''The callback says it came from one site, but the sign-in Tantu started was on '' @
        ''another.'',
      ra_next = ''Start the sign-in again, making sure you begin it from the application'' @ [CHR 0x27] @ ''s own '' @
        ''sign-in link rather than a copy.'',
      ra_status = 400\<rparr>"
| "advice_for RejectPath =
     \<lparr>ra_title = ''The callback arrived on an address this sign-in did not register'',
      ra_detail = ''The sign-in registered a callback address with a specific path, and the '' @
        ''callback arrived somewhere else.'',
      ra_next = ''Start the sign-in again. If the application keeps calling back on a different '' @
        ''path, it needs to register the address it actually uses.'',
      ra_status = 400\<rparr>"
| "advice_for RejectState =
     \<lparr>ra_title = ''This sign-in is no longer waiting for a callback'',
      ra_detail = ''The callback belongs to a sign-in that has already finished, was cancelled, '' @
        ''or was replaced by a newer one.'',
      ra_next = ''Start the sign-in again from the application. This usually follows a second '' @
        ''sign-in attempt, or a sign-in that was cancelled.'',
      ra_status = 400\<rparr>"
| "advice_for RejectBodyUnreadable =
     \<lparr>ra_title = ''The callback could not be read'',
      ra_detail = ''The callback arrived but its contents could not be read, so nothing could be '' @
        ''forwarded to the application.'',
      ra_next = ''Start the sign-in again. If it keeps failing, check Live Logs for the '' @
        ''technical reason.'',
      ra_status = 400\<rparr>"
| "advice_for RejectBodyTooLarge =
     \<lparr>ra_title = ''The callback was too large to forward'',
      ra_detail = ''The callback carried more data than Tantu will forward to the application.'',
      ra_next = ''Start the sign-in again, and if it keeps failing report it: the application '' @
        ''appears to be returning a very large response.'',
      ra_status = 413\<rparr>"
| "advice_for RejectDuplicate =
     \<lparr>ra_title = ''This callback has already been forwarded'',
      ra_detail = ''Tantu already forwarded this sign-in'' @ [CHR 0x27] @ ''s callback to the application, so there '' @
        ''is nothing left to do here.'',
      ra_next = ''Return to the application. If it is still waiting, start the sign-in again.'',
      ra_status = 409\<rparr>"

text \<open>\<open>html.EscapeString\<close>, and the page \<open>renderCallbackRejection\<close> writes.\<close>

definition html_escape :: "string \<Rightarrow> string" where
  "html_escape s = concat (map (\<lambda>c.
     if c = CHR ''&'' then ''&amp;'' else if c = CHR ''<'' then ''&lt;'' else if c = CHR ''>'' then ''&gt;''
     else if c = CHR 0x22 then ''&#34;'' else if c = CHR 0x27 then ''&#39;'' else [c]) s)"

definition rejection_page :: "rejection_kind \<Rightarrow> int \<times> string" where
  "rejection_page k =
     (let a = advice_for k
      in (ra_status a, concat
        [''<!doctype html><html lang='', [CHR 0x22], ''en'', [CHR 0x22], ''><head><meta charset='', 
         [CHR 0x22], ''utf-8'', [CHR 0x22], ''>'', ''<meta name='', [CHR 0x22], ''viewport'', [CHR 0x22], 
         '' content='', [CHR 0x22], ''width=device-width,initial-scale=1'', [CHR 0x22], ''>'', 
         ''<title>'', html_escape (ra_title a), ''</title><style>'', 
         ''body{font:16px/1.5 system-ui,-apple-system,Segoe UI,sans-serif;margin:0;'', 
         ''background:#0f1117;color:#e6e6e6;display:flex;min-height:100vh;'', 
         ''align-items:center;justify-content:center}'', ''main{max-width:34rem;padding:2rem}'', 
         ''h1{font-size:1.35rem;margin:0 0 .75rem;line-height:1.3}'', 
         ''p{margin:0 0 1rem;color:#b9c0cc}'', 
         ''.next{border-left:3px solid #6aa9ff;padding:.5rem 0 .5rem .85rem;color:#e6e6e6}'', 
         ''.who{color:#8b93a1;font-size:.85rem;margin-top:2rem}'', ''</style></head><body><main>'', 
         ''<h1>'', html_escape (ra_title a), ''</h1>'', ''<p>'', html_escape (ra_detail a), ''</p>'', 
         ''<p class='', [CHR 0x22], ''next'', [CHR 0x22], ''>'', html_escape (ra_next a), ''</p>'', 
         ''<p class='', [CHR 0x22], ''who'', [CHR 0x22], 
         ''>This page is served by Tantu, the machine that relayed this sign-in. '', 
         ''No sign-in information is shown here.</p>'', ''</main></body></html>'']))"

section \<open>The captured request\<close>

type_synonym http_header = "(string \<times> string list) list"

record http_request =
  hr_method :: string
  hr_host :: string
  hr_header :: http_header
  hr_url :: url
  hr_request_uri :: string
  hr_body :: string

definition header_get :: "http_header \<Rightarrow> string \<Rightarrow> string" where
  "header_get h k = (case map_of h k of Some (v # _) \<Rightarrow> v | _ \<Rightarrow> '''')"

definition navigation_mode :: "string \<Rightarrow> bool" where
  "navigation_mode mode \<longleftrightarrow> mode = '''' \<or> equal_fold mode ''navigate'' \<or> equal_fold mode ''websocket''"

text \<open>The Origin check both sides make: absent and \<open>null\<close> pass, otherwise it has to be the provider's.\<close>

definition origin_refusal :: "string \<Rightarrow> string \<Rightarrow> rejection_kind option" where
  "origin_refusal auth_origin origin =
     (if origin = '''' \<or> equal_fold origin ''null'' then None
      else if auth_origin = '''' then Some RejectOriginUnknown
      else if \<not> equal_fold (trim_right_chars ''/'' origin) auth_origin then Some RejectOriginMismatch
      else None)"

definition validate_callback_fetch_metadata :: "http_header \<Rightarrow> expectation \<Rightarrow> rejection_kind option" where
  "validate_callback_fetch_metadata h expected =
     (if \<not> navigation_mode (trim_space (header_get h ''Sec-Fetch-Mode'')) then Some RejectNotNavigation
      else if trim_space (header_get h ''Sec-Fetch-Dest'') \<notin>
          {'''', ''document'', ''iframe'', ''frame'', ''object'', ''embed'', ''empty''} then Some RejectSubresource
      else origin_refusal (ex_auth_origin expected) (trim_space (header_get h ''Origin'')))"

definition validate_callback_request_state ::
  "net_lib \<Rightarrow> http_request \<Rightarrow> expectation \<Rightarrow> string \<Rightarrow> rejection_kind option" where
  "validate_callback_request_state nl r expected form_state =
     (if hr_method r \<noteq> ''GET'' \<and> hr_method r \<noteq> ''POST'' then Some RejectMethod
      else if \<not> request_host_is_loopback nl (hr_host r) then Some RejectNotLoopback
      else (case validate_callback_fetch_metadata (hr_header r) expected of
        Some k \<Rightarrow> Some k
      | None \<Rightarrow>
          if ex_constrained expected \<and> ex_path expected \<noteq> '''' \<and> ur_path (hr_url r) \<noteq> ex_path expected
          then Some RejectPath
          else
            let q = values_get (url_query nl (hr_url r)) ''state'';
                state = (if q = '''' then form_state else q)
            in if ex_state expected \<noteq> '''' \<and> (state = '''' \<or> state \<noteq> ex_state expected) then Some RejectState
               else None))"

definition validate_callback_request :: "net_lib \<Rightarrow> http_request \<Rightarrow> expectation \<Rightarrow> rejection_kind option" where
  "validate_callback_request nl r expected = validate_callback_request_state nl r expected ''''"

section \<open>Relayed headers\<close>

definition allowed_callback_relay_header :: "string \<Rightarrow> bool" where
  "allowed_callback_relay_header name \<longleftrightarrow>
     to_lower (trim_space name) \<in> {''accept'', ''accept-language'', ''content-type'', ''x-requested-with''}"

definition inspectable_callback_relay_header :: "string \<Rightarrow> bool" where
  "inspectable_callback_relay_header name \<longleftrightarrow>
     to_lower (trim_space name) \<in> {''sec-fetch-mode'', ''sec-fetch-dest'', ''sec-fetch-site'', ''origin''}"

text \<open>
  \<open>http.CanonicalHeaderKey\<close>: a name of token characters gets a capital first letter and one after
  each hyphen, the other letters in lower case; any other name stays.
\<close>

definition token_char :: "char \<Rightarrow> bool" where
  "token_char c \<longleftrightarrow> (CHR ''a'' \<le> c \<and> c \<le> CHR ''z'') \<or> (CHR ''A'' \<le> c \<and> c \<le> CHR ''Z'') \<or> digit_char c \<or>
     c \<in> set ''!#$%&*+-.^_`|~'' \<or> c = CHR 0x27"

fun capitalize :: "bool \<Rightarrow> string \<Rightarrow> string" where
  "capitalize up [] = []"
| "capitalize up (c # s) = (if up then upper_char c else lower_char c) # capitalize (c = CHR ''-'') s"

definition canonical_header_key :: "string \<Rightarrow> string" where
  "canonical_header_key name = (if list_all token_char name then capitalize True name else name)"

definition callback_headers :: "http_header \<Rightarrow> (string \<times> string) list" where
  "callback_headers h =
     foldl (\<lambda>headers (name, vs).
        case vs of
          [] \<Rightarrow> headers
        | v # _ \<Rightarrow>
            if v = '''' then headers
            else if allowed_callback_relay_header name \<or> inspectable_callback_relay_header name
              then AList.update (canonical_header_key name) v headers
            else headers) [] h"

text \<open>The keys in order; the first of two names that differ only in case or surrounding blanks wins.\<close>

definition canonical_relay_header_map :: "(string \<times> string) list \<Rightarrow> (string \<times> string) list" where
  "canonical_relay_header_map headers =
     foldl (\<lambda>out k.
        let lower = to_lower (trim_space k)
        in if lower = '''' \<or> lower \<in> fst ` set out then out
           else AList.update lower (the (map_of headers k)) out) [] (sort (map fst headers))"

definition canonical_relay_header :: "(string \<times> string) list \<Rightarrow> string \<Rightarrow> string" where
  "canonical_relay_header headers name =
     (case map_of (canonical_relay_header_map headers) (to_lower name) of None \<Rightarrow> '''' | Some v \<Rightarrow> v)"

definition filter_callback_relay_headers :: "(string \<times> string) list \<Rightarrow> (string \<times> string) list" where
  "filter_callback_relay_headers headers =
     foldl (\<lambda>out (name, value).
        if value = '''' \<or> \<not> allowed_callback_relay_header name then out
        else AList.update (canonical_header_key name) value out) [] (canonical_relay_header_map headers)"

section \<open>The relayed request\<close>

datatype relay_error =
    RelayBodyTooLarge | RelayTooManyHeaders | RelayHeadersTooLarge | RelayMethod | RelayPath
  | RelayPathMismatch | RelayStatesDisagree | RelayMetadata rejection_kind | RelayState

fun header_bytes_exceed :: "nat \<Rightarrow> (string \<times> string) list \<Rightarrow> bool" where
  "header_bytes_exceed n [] \<longleftrightarrow> False"
| "header_bytes_exceed n ((name, value) # hs) \<longleftrightarrow>
     (let n' = n + length name + length value in 16 * 1024 < n' \<or> header_bytes_exceed n' hs)"

definition validate_relay_fetch_metadata :: "callback_relay \<Rightarrow> expectation \<Rightarrow> rejection_kind option" where
  "validate_relay_fetch_metadata relay expected =
     (if \<not> navigation_mode (trim_space (canonical_relay_header (cr_headers relay) ''Sec-Fetch-Mode''))
      then Some RejectNotNavigation
      else origin_refusal (ex_auth_origin expected)
        (trim_space (canonical_relay_header (cr_headers relay) ''Origin'')))"

definition is_form :: "string \<Rightarrow> bool" where
  "is_form content_type \<longleftrightarrow> has_prefix (to_lower content_type) ''application/x-www-form-urlencoded''"

text \<open>The state of a relayed request: from its query, or from its form; \<open>None\<close> when they disagree.\<close>

definition relay_state :: "net_lib \<Rightarrow> callback_relay \<Rightarrow> url \<Rightarrow> string option" where
  "relay_state nl relay parsed =
     (let state = values_get (url_query nl parsed) ''state''
      in if cr_method relay = ''POST'' \<and> 0 < length (cr_body relay) \<and> length (cr_body relay) \<le> 1048576 \<and>
            is_form (canonical_relay_header (cr_headers relay) ''Content-Type'') then
           (case nl_parse_query nl (cr_body relay) of
              (form, ok) \<Rightarrow>
                let form_state = values_get form ''state''
                in if \<not> ok \<or> form_state = '''' then Some state
                   else if state \<noteq> '''' \<and> state \<noteq> form_state then None
                   else Some form_state)
         else Some state)"

definition validate_callback_relay :: "net_lib \<Rightarrow> expectation \<Rightarrow> callback_relay \<Rightarrow> relay_error option" where
  "validate_callback_relay nl expected relay =
     (if 1048576 < length (cr_body relay) then Some RelayBodyTooLarge
      else if 64 < length (cr_headers relay) then Some RelayTooManyHeaders
      else if header_bytes_exceed 0 (cr_headers relay) then Some RelayHeadersTooLarge
      else if cr_method relay \<noteq> '''' \<and> cr_method relay \<noteq> ''GET'' \<and> cr_method relay \<noteq> ''POST'' then Some RelayMethod
      else (case nl_parse_request_uri nl (cr_path relay) of
        None \<Rightarrow> Some RelayPath
      | Some parsed \<Rightarrow>
          if ur_scheme parsed \<noteq> '''' \<or> ur_host parsed \<noteq> '''' \<or> \<not> has_prefix (ur_path parsed) ''/'' then Some RelayPath
          else if \<not> ex_constrained expected then None
          else if ex_path expected \<noteq> '''' \<and> ur_path parsed \<noteq> ex_path expected then Some RelayPathMismatch
          else (case relay_state nl relay parsed of
            None \<Rightarrow> Some RelayStatesDisagree
          | Some state \<Rightarrow>
              (case validate_relay_fetch_metadata relay expected of
                 Some k \<Rightarrow> Some (RelayMetadata k)
               | None \<Rightarrow>
                   if ex_state expected \<noteq> '''' \<and> (state = '''' \<or> state \<noteq> ex_state expected) then Some RelayState
                   else None))))"

section \<open>The callback port\<close>

definition parse_unescaped :: "net_lib \<Rightarrow> string \<Rightarrow> url option" where
  "parse_unescaped nl raw =
     (case nl_parse nl raw of
        Some u \<Rightarrow> Some u
      | None \<Rightarrow> (case nl_query_unescape nl raw of None \<Rightarrow> None | Some unescaped \<Rightarrow> nl_parse nl unescaped))"

definition port_in_range :: "string \<Rightarrow> int option" where
  "port_in_range port =
     (case atoi port of None \<Rightarrow> None | Some p \<Rightarrow> if 0 < p \<and> p \<le> 65535 then Some p else None)"

definition port_from_url_text :: "net_lib \<Rightarrow> string \<Rightarrow> int option" where
  "port_from_url_text nl raw =
     (if raw = '''' then None
      else (case parse_unescaped nl raw of
        None \<Rightarrow> None
      | Some u \<Rightarrow> if url_port u = '''' then None else port_in_range (url_port u)))"

definition port_from_loopback_state :: "net_lib \<Rightarrow> string \<Rightarrow> int option" where
  "port_from_loopback_state nl state =
     (if state = '''' then None
      else (case parse_unescaped nl state of
        None \<Rightarrow> None
      | Some u \<Rightarrow>
          if \<not> is_loopback_host nl (to_lower (url_hostname u)) \<or> \<not> equal_fold (ur_scheme u) ''http'' then None
          else port_from_url_text nl state))"

datatype port_error =
    InvalidOAuthURL | MissingRedirect | InvalidRedirect | NoLoopbackCallback | UnsupportedScheme
  | MissingPort | InvalidPort

definition extract_callback_port :: "net_lib \<Rightarrow> string \<Rightarrow> port_error + int" where
  "extract_callback_port nl raw =
     (case nl_parse nl (sanitize_url nl raw) of
        None \<Rightarrow> Inl InvalidOAuthURL
      | Some parsed \<Rightarrow>
          let q = url_query nl parsed;
              redirect = values_get q ''redirect_uri''; state = values_get q ''state'';
              from_state = (\<lambda>err. case port_from_loopback_state nl state of Some p \<Rightarrow> Inr p | None \<Rightarrow> Inl err)
          in if redirect = '''' then from_state MissingRedirect
             else (case nl_parse nl redirect of
               None \<Rightarrow> from_state InvalidRedirect
             | Some ru \<Rightarrow>
                 if \<not> is_loopback_host nl (to_lower (url_hostname ru)) then from_state NoLoopbackCallback
                 else if \<not> equal_fold (ur_scheme ru) ''http'' then Inl UnsupportedScheme
                 else if url_port ru = '''' then Inl MissingPort
                 else (case port_in_range (url_port ru) of None \<Rightarrow> Inl InvalidPort | Some p \<Rightarrow> Inr p)))"

datatype redirect_error =
    RedirectParseURL | RedirectMissing | RedirectParse | RedirectNotHttp | RedirectNotLoopback

definition redirect_callback_host_is_loopback :: "net_lib \<Rightarrow> string \<Rightarrow> redirect_error option" where
  "redirect_callback_host_is_loopback nl raw =
     (case nl_parse nl raw of
        None \<Rightarrow> Some RedirectParseURL
      | Some parsed \<Rightarrow>
          let redirect = values_get (url_query nl parsed) ''redirect_uri''
          in if redirect = '''' then Some RedirectMissing
             else (case nl_parse nl redirect of
               None \<Rightarrow> Some RedirectParse
             | Some ru \<Rightarrow>
                 if is_loopback_host nl (to_lower (url_hostname ru)) then
                   (if \<not> equal_fold (ur_scheme ru) ''http'' then Some RedirectNotHttp else None)
                 else (case nl_parse nl (values_get (url_query nl parsed) ''state'') of
                   None \<Rightarrow> Some RedirectNotLoopback
                 | Some su \<Rightarrow>
                     if equal_fold (ur_scheme su) ''http'' \<and> is_loopback_host nl (to_lower (url_hostname su)) then None
                     else Some RedirectNotLoopback)))"

datatype target_error = InvalidRequestURI | NotAbsolutePath

definition callback_request_url :: "net_lib \<Rightarrow> int \<Rightarrow> string \<Rightarrow> target_error + url" where
  "callback_request_url nl port relay_path =
     (case nl_parse_request_uri nl (if relay_path = '''' then ''/'' else relay_path) of
        None \<Rightarrow> Inl InvalidRequestURI
      | Some parsed \<Rightarrow>
          if ur_scheme parsed \<noteq> '''' \<or> ur_host parsed \<noteq> '''' \<or> \<not> has_prefix (ur_path parsed) ''/'' then Inl NotAbsolutePath
          else Inr \<lparr>ur_scheme = ''http'', ur_opaque = '''', ur_user = '''',
            ur_host = join_host_port ''127.0.0.1'' (int_text port), ur_path = ur_path parsed,
            ur_raw_path = ur_raw_path parsed, ur_raw_query = ur_raw_query parsed, ur_force_query = False,
            ur_fragment = '''', ur_raw_fragment = ''''\<rparr>)"

text \<open>
  The two readings of an authorization URL agree. What the \<open>state\<close> names is folded to lower case by
  one function and not by the other, which makes no difference to a library that reads addresses
  without regard to case.
\<close>

definition fold_insensitive :: "net_lib \<Rightarrow> bool" where
  "fold_insensitive nl \<longleftrightarrow> (\<forall>h. nl_ip_loopback nl (to_lower h) = nl_ip_loopback nl h)"

lemma trim_chars_to_lower: "trim_chars ''[]'' (to_lower h) = to_lower (trim_chars ''[]'' h)"
proof -
  have br: "lower_char c = CHR ''['' \<longleftrightarrow> c = CHR ''[''" "lower_char c = CHR '']'' \<longleftrightarrow> c = CHR '']''" for c
  proof -
    have "code (lower_char c) = (if 65 \<le> code c \<and> code c \<le> (90::nat) then code c + 32 else code c :: nat)"
      by (simp add: lower_char_def)
    then show "lower_char c = CHR ''['' \<longleftrightarrow> c = CHR ''[''" "lower_char c = CHR '']'' \<longleftrightarrow> c = CHR '']''"
      by (auto simp: lower_char_def)
  qed
  have dw: "dropWhile (\<lambda>c. c \<in> set ''[]'') (map lower_char t) = map lower_char (dropWhile (\<lambda>c. c \<in> set ''[]'') t)" for t
    by (induction t) (simp_all add: br)
  show ?thesis
    by (simp only: trim_chars_def trim_right_chars_def to_lower_def dw rev_map)
qed

lemma to_lower_idem [simp]: "to_lower (to_lower s) = to_lower s"
  by (induction s) (auto simp: to_lower_def lower_char_def)

lemma is_loopback_host_fold: "fold_insensitive nl \<Longrightarrow> is_loopback_host nl (to_lower h) = is_loopback_host nl h"
  by (simp add: is_loopback_host_def equal_fold_def fold_insensitive_def trim_chars_to_lower)

lemma usable_port: "port_in_range (url_port u) = Some p \<Longrightarrow> url_port u \<noteq> '''' \<Longrightarrow> usable_loopback_port (Some u)"
  by (auto simp: port_in_range_def usable_loopback_port_def split: option.splits if_splits)

lemma loopback_host_nonempty: "nl_ip_loopback nl '''' = None \<Longrightarrow> is_loopback_host nl h \<Longrightarrow> h \<noteq> ''''"
  by (auto simp: is_loopback_host_def equal_fold_def to_lower_def trim_chars_def trim_right_chars_def)

text \<open>
  A sign-in the B-side agrees to start is always bound to the authorization request: if the
  redirect passes its check and a callback port can be extracted, the port is usable and the
  expectation both sides derive from the URL is constrained - so neither side ever skips the checks
  of path, origin and state for it. (For a URL that sanitizing leaves alone, as it does the ones it
  returns, and a library that finds no address in the empty string and reads addresses without
  regard to case.)\<close>

theorem accepted_redirect_is_bound:
  assumes "sanitize_url nl raw = raw" "redirect_callback_host_is_loopback nl raw = None"
    and "extract_callback_port nl raw = Inr port"
    and "fold_insensitive nl" "nl_ip_loopback nl '''' = None"
  shows "1 \<le> port \<and> port \<le> 65535 \<and> ex_constrained (callback_expectation nl raw) \<and>
    \<not> ex_unbound (callback_expectation nl raw)"
proof -
  obtain parsed where p: "nl_parse nl raw = Some parsed"
    using assms(2) by (auto simp: redirect_callback_host_is_loopback_def split: option.splits)
  let ?q = "url_query nl parsed"
  let ?redirect = "values_get ?q ''redirect_uri''" and ?state = "values_get ?q ''state''"
  note host = loopback_host_nonempty [OF assms(5)]
  from assms(2) p obtain ru where r: "?redirect \<noteq> ''''" "nl_parse nl ?redirect = Some ru"
    by (auto simp: redirect_callback_host_is_loopback_def Let_def split: if_splits option.splits)
  have range: "1 \<le> x \<and> x \<le> 65535" if "port_in_range s = Some x" for s x
    using that by (auto simp: port_in_range_def split: option.splits if_splits)
  have "1 \<le> port \<and> port \<le> 65535 \<and> (loopback_binding nl to_lower ?redirect \<noteq> None \<or> loopback_binding nl (\<lambda>h. h) ?state \<noteq> None)"
  proof (cases "is_loopback_host nl (to_lower (url_hostname ru))")
    case True
    then have l: "url_hostname ru \<noteq> ''''" using host by (auto simp: to_lower_def)
    with True assms(1,3) p r have h: "equal_fold (ur_scheme ru) ''http''" "url_port ru \<noteq> ''''"
      "port_in_range (url_port ru) = Some port"
      by (auto simp: extract_callback_port_def Let_def split: if_splits option.splits)
    with True l r usable_port show ?thesis
      by (auto simp: loopback_binding_def range)
  next
    case False
    with assms(2) p r obtain su where s: "nl_parse nl ?state = Some su" "equal_fold (ur_scheme su) ''http''"
        "is_loopback_host nl (to_lower (url_hostname su))"
      by (auto simp: redirect_callback_host_is_loopback_def Let_def split: if_splits option.splits)
    have "port_from_loopback_state nl ?state = Some port"
      using False assms(1,3) p r by (auto simp: extract_callback_port_def Let_def split: option.splits)
    then have "port_from_url_text nl ?state = Some port"
      by (auto simp: port_from_loopback_state_def split: if_splits option.splits)
    then have h: "url_port su \<noteq> ''''" "port_in_range (url_port su) = Some port"
      using s(1) by (auto simp: port_from_url_text_def parse_unescaped_def split: if_splits)
    have "url_hostname su \<noteq> ''''" using s(3) host by (auto simp: to_lower_def)
    with s h usable_port is_loopback_host_fold [OF assms(4)] show ?thesis
      by (auto simp: loopback_binding_def range)
  qed
  then show ?thesis
    using p r(1) by (auto simp: callback_expectation_def Let_def split: option.splits)
qed

lemma lower_char_code: "code (lower_char c) = (if 65 \<le> code c \<and> code c \<le> (90 :: nat) then code c + 32 else code c :: nat)"
  by (simp add: lower_char_def)

lemma lower_char_nonletter:
  "\<not> (97 \<le> code d \<and> code d \<le> (122 :: nat)) \<Longrightarrow> \<not> (65 \<le> code d \<and> code d \<le> (90 :: nat)) \<Longrightarrow> lower_char c = d \<longleftrightarrow> c = d"
  using lower_char_code [of c] by (auto simp: lower_char_def split: if_splits)

lemma to_lower_nonletters:
  "\<forall>d \<in> set t. \<not> (97 \<le> code d \<and> code d \<le> (122 :: nat)) \<and> \<not> (65 \<le> code d \<and> code d \<le> (90 :: nat)) \<Longrightarrow>
   to_lower h = t \<longleftrightarrow> h = t"
  unfolding to_lower_def by (induction t arbitrary: h) (auto simp: map_eq_Cons_conv lower_char_nonletter)

lemma demo_net_fold: "fold_insensitive demo_net"
proof -
  have "to_lower h = ''127.0.0.1'' \<longleftrightarrow> h = ''127.0.0.1''" for h
    by (rule to_lower_nonletters) simp
  then show ?thesis by (simp add: fold_insensitive_def demo_net_def)
qed

definition demo_auth_url :: string where
  "demo_auth_url = ''https://a.b/auth?redirect_uri=http://127.0.0.1:8085/cb''"

theorem accepted_redirect_is_bound_witness:
  "extract_callback_port demo_net demo_auth_url = Inr 8085 \<and> ex_constrained (callback_expectation demo_net demo_auth_url)"
proof -
  have "sanitize_url demo_net demo_auth_url = demo_auth_url"
    "redirect_callback_host_is_loopback demo_net demo_auth_url = None" by code_simp+
  moreover have e: "extract_callback_port demo_net demo_auth_url = Inr 8085" by code_simp
  moreover have "nl_ip_loopback demo_net '''' = None" by (simp add: demo_net_def)
  ultimately have "ex_constrained (callback_expectation demo_net demo_auth_url)"
    using accepted_redirect_is_bound [of demo_net demo_auth_url 8085] demo_net_fold by blast
  with e show ?thesis by simp
qed

section \<open>Headers on their way to the application\<close>

lemma lower_char_other: "b < 65 \<or> 122 < (b :: nat) \<Longrightarrow> code (lower_char d) = b \<longleftrightarrow> code d = b"
  using lower_char_code [of d] by (auto split: if_splits)

lemma wide_space2_to_lower: "wide_space2 (map code (map lower_char u)) = wide_space2 (map code u)"
  by (auto simp: wide_space2_def map_eq_Cons_conv lower_char_other)

lemma wide_space3_to_lower: "wide_space3 (map code (map lower_char u)) = wide_space3 (map code u)"
proof (cases "length u = 3")
  case True
  then obtain x y z where u: "u = [x, y, z]"
    by (metis (no_types, lifting) length_0_conv length_Suc_conv numeral_3_eq_3)
  have r: "0x80 \<le> code (lower_char d) \<and> code (lower_char d) \<le> (0x8A :: nat) \<longleftrightarrow> 0x80 \<le> code d \<and> code d \<le> (0x8A :: nat)" for d
    using lower_char_code [of d] by (auto split: if_splits)
  show ?thesis by (simp add: u lower_char_other r)
next
  case False
  then show ?thesis using wide_space_length(2) by (metis length_map)
qed

lemma ascii_space_to_lower: "ascii_space (lower_char c) = ascii_space c"
  by (simp add: ascii_space_def lower_char_other)

lemma space_width_to_lower: "space_width (to_lower s) = space_width s"
proof (cases s)
  case (Cons c t)
  have "wide_space2 (map code (take 2 (map lower_char (c # t)))) = wide_space2 (map code (take 2 (c # t)))"
    "wide_space3 (map code (take 3 (map lower_char (c # t)))) = wide_space3 (map code (take 3 (c # t)))"
    by (simp_all only: take_map wide_space2_to_lower wide_space3_to_lower)
  then show ?thesis
    unfolding Cons space_width_def to_lower_def using ascii_space_to_lower by simp
qed (simp add: to_lower_def)

lemma last_space_width_to_lower: "last_space_width (to_lower s) = last_space_width s"
proof (cases "s = []")
  case False
  have "wide_space2 (map code (drop (length s - 2) (map lower_char s))) = wide_space2 (map code (drop (length s - 2) s))"
    "wide_space3 (map code (drop (length s - 3) (map lower_char s))) = wide_space3 (map code (drop (length s - 3) s))"
    by (simp_all only: drop_map wide_space2_to_lower wide_space3_to_lower)
  with False show ?thesis
    by (simp add: last_space_width_def to_lower_def last_map ascii_space_to_lower)
qed (simp add: to_lower_def)

lemma to_lower_take: "to_lower (take n s) = take n (to_lower s)" and to_lower_drop: "to_lower (drop n s) = drop n (to_lower s)"
  by (simp_all add: to_lower_def take_map drop_map)

lemma trim_left_to_lower: "trim_left_space (to_lower s) = to_lower (trim_left_space s)"
proof (induction s rule: trim_left_space.induct)
  case (1 s)
  then show ?case
    by (cases "space_width s = 0")
      (simp add: trim_left_space_fix space_width_to_lower,
       subst (1 2) trim_left_space.simps, simp add: space_width_to_lower to_lower_drop)
qed

lemma trim_right_to_lower: "trim_right_space (to_lower s) = to_lower (trim_right_space s)"
proof (induction s rule: trim_right_space.induct)
  case (1 s)
  then show ?case
    by (cases "last_space_width s = 0")
      (simp add: trim_right_space_fix last_space_width_to_lower,
       subst (1 2) trim_right_space.simps, simp add: last_space_width_to_lower to_lower_take)
qed

lemma trim_space_to_lower: "trim_space (to_lower s) = to_lower (trim_space s)"
  by (simp add: trim_space_def trim_left_to_lower trim_right_to_lower)

text \<open>The name under which a header is looked up.\<close>

definition folded_name :: "string \<Rightarrow> string" where
  "folded_name k = to_lower (trim_space k)"

definition canonical_step :: "(string \<times> string) list \<Rightarrow> (string \<times> string) list \<Rightarrow> string \<Rightarrow> (string \<times> string) list" where
  "canonical_step headers out k =
     (if folded_name k = '''' \<or> folded_name k \<in> fst ` set out then out
      else AList.update (folded_name k) (the (map_of headers k)) out)"

lemma canonical_map_step:
  "canonical_relay_header_map headers = foldl (canonical_step headers) [] (sort (map fst headers))"
proof -
  have "canonical_step headers = (\<lambda>out k.
        let lower = to_lower (trim_space k)
        in if lower = '''' \<or> lower \<in> fst ` set out then out
           else AList.update lower (the (map_of headers k)) out)"
    by (intro ext) (simp add: canonical_step_def folded_name_def Let_def)
  then show ?thesis by (simp add: canonical_relay_header_map_def)
qed

lemma canonical_step_keys:
  "x \<in> set (foldl (canonical_step headers) out ks) \<Longrightarrow>
   x \<in> set out \<or> (\<exists>k \<in> set ks. x = (folded_name k, the (map_of headers k)))"
proof (induction ks arbitrary: out)
  case (Cons k ks)
  have "x \<in> set (foldl (canonical_step headers) (canonical_step headers out k) ks)" using Cons.prems by simp
  from Cons.IH [OF this] have "x \<in> set (canonical_step headers out k) \<or>
      (\<exists>j \<in> set ks. x = (folded_name j, the (map_of headers j)))" .
  moreover have "x \<in> set out \<or> x = (folded_name k, the (map_of headers k))"
    if "x \<in> set (canonical_step headers out k)"
    using that alist_update_cases [of x] by (auto simp: canonical_step_def split: if_splits)
  ultimately show ?case by auto
qed simp

lemma canonical_step_keep: "x \<notin> folded_name ` set ks \<Longrightarrow> map_of (foldl (canonical_step headers) out ks) x = map_of out x"
  by (induction ks arbitrary: out) (auto simp: canonical_step_def AList.update_conv')

lemma canonical_step_find:
  assumes "k \<in> set ks" "distinct ks" "inj_on folded_name (set ks)" "folded_name k \<noteq> ''''" "folded_name k \<notin> fst ` set out"
  shows "map_of (foldl (canonical_step headers) out ks) (folded_name k) = Some (the (map_of headers k))"
  using assms
proof (induction ks arbitrary: out)
  case (Cons j ks)
  show ?case
  proof (cases "k = j")
    case True
    with Cons.prems have "folded_name k \<notin> folded_name ` set ks" by auto
    with Cons.prems True show ?thesis
      by (simp add: canonical_step_keep) (simp add: canonical_step_def AList.update_conv')
  next
    case False
    with Cons.prems have ne: "folded_name k \<noteq> folded_name j" "k \<in> set ks" by (auto simp: inj_on_def)
    have "fst ` set (canonical_step headers out j) \<subseteq> insert (folded_name j) (fst ` set out)"
      by (simp add: canonical_step_def alist_update_keys subset_insertI)
    then have "folded_name k \<notin> fst ` set (canonical_step headers out j)"
      using Cons.prems(5) ne(1) by (meson insertE subsetD)
    with Cons.IH [of "canonical_step headers out j"] Cons.prems ne(2) show ?thesis by simp
  qed
qed simp

text \<open>With names that stay apart when folded, looking a header up is looking up its name.\<close>

lemma canonical_header_lookup:
  assumes "keys_distinct headers" "inj_on folded_name (fst ` set headers)" "to_lower name \<noteq> ''''"
  shows "canonical_relay_header headers name =
    (if \<exists>k \<in> fst ` set headers. folded_name k = to_lower name
     then the (map_of headers (THE k. k \<in> fst ` set headers \<and> folded_name k = to_lower name)) else '''')"
proof (cases "\<exists>k \<in> fst ` set headers. folded_name k = to_lower name")
  case True
  then obtain k where k: "k \<in> fst ` set headers" "folded_name k = to_lower name" by blast
  have the: "(THE k. k \<in> fst ` set headers \<and> folded_name k = to_lower name) = k"
  proof (rule the_equality)
    fix j assume "j \<in> fst ` set headers \<and> folded_name j = to_lower name"
    then show "j = k" using inj_onD [OF assms(2)] k by metis
  qed (use k in simp)
  have "map_of (canonical_relay_header_map headers) (folded_name k) = Some (the (map_of headers k))"
    unfolding canonical_map_step
    by (rule canonical_step_find) (use assms k(1) in \<open>simp_all add: k(2)\<close>)
  then have "canonical_relay_header headers name = the (map_of headers k)"
    by (simp add: canonical_relay_header_def k(2))
  with True the show ?thesis by (simp only: if_True)
next
  case False
  then have "map_of (canonical_relay_header_map headers) (to_lower name) = None"
    unfolding canonical_map_step by (subst canonical_step_keep) auto
  with False show ?thesis by (simp add: canonical_relay_header_def)
qed

text \<open>
  Whatever headers a peer puts into a relayed callback, only the four allowed ones reach the
  application, each under its canonical name and with a value the relay carries for it under some
  spelling of that name - never a cookie, an authorization or any other header.\<close>

theorem only_allowed_headers_delivered:
  assumes "(name, value) \<in> set (filter_callback_relay_headers headers)" "keys_distinct headers"
  shows "name \<in> {''Accept'', ''Accept-Language'', ''Content-Type'', ''X-Requested-With''} \<and> value \<noteq> '''' \<and>
    (\<exists>k. (k, value) \<in> set headers \<and> equal_fold (trim_space k) name)"
proof -
  define ok where "ok = (\<lambda>(n, v). \<exists>lk. (lk, v) \<in> set (canonical_relay_header_map headers) \<and> v \<noteq> '''' \<and>
    allowed_callback_relay_header lk \<and> n = canonical_header_key lk)"
  have "ok x" if "x \<in> set (foldl (\<lambda>out (name, value).
      if value = '''' \<or> \<not> allowed_callback_relay_header name then out
      else AList.update (canonical_header_key name) value out) out hs)"
    "set hs \<subseteq> set (canonical_relay_header_map headers)" "\<forall>y \<in> set out. ok y" for x out hs
    using that
  proof (induction hs arbitrary: out)
    case (Cons h hs)
    obtain n v where h: "h = (n, v)" by fastforce
    show ?case
    proof (cases "v = '''' \<or> \<not> allowed_callback_relay_header n")
      case False
      have "\<forall>y \<in> set (AList.update (canonical_header_key n) v out). ok y"
      proof
        fix y assume "y \<in> set (AList.update (canonical_header_key n) v out)"
        then have "y = (canonical_header_key n, v) \<or> y \<in> set out" by (rule alist_update_cases)
        moreover have "ok (canonical_header_key n, v)"
          using Cons.prems(2) h False by (auto simp: ok_def)
        ultimately show "ok y" using Cons.prems(3) by blast
      qed
      with Cons False h show ?thesis by simp
    qed (use Cons h in simp)
  qed (simp add: ok_def)
  from this [of "(name, value)" "[]" "canonical_relay_header_map headers"] assms(1) obtain lk where
    lk: "(lk, value) \<in> set (canonical_relay_header_map headers)" "value \<noteq> ''''"
      "allowed_callback_relay_header lk" "name = canonical_header_key lk"
    by (auto simp: filter_callback_relay_headers_def ok_def)
  from canonical_step_keys [OF lk(1) [unfolded canonical_map_step]] obtain k where
    k: "k \<in> fst ` set headers" "lk = folded_name k" "value = the (map_of headers k)" by auto
  have "lk = to_lower (trim_space lk)"
    by (simp add: k(2) folded_name_def trim_space_to_lower)
  with lk(3) have cases: "lk \<in> {''accept'', ''accept-language'', ''content-type'', ''x-requested-with''}"
    by (simp add: allowed_callback_relay_header_def)
  have c: "canonical_header_key ''accept'' = ''Accept''" "canonical_header_key ''accept-language'' = ''Accept-Language''"
    "canonical_header_key ''content-type'' = ''Content-Type''" "canonical_header_key ''x-requested-with'' = ''X-Requested-With''"
    by code_simp+
  have l: "to_lower ''Accept'' = ''accept''" "to_lower ''Accept-Language'' = ''accept-language''"
    "to_lower ''Content-Type'' = ''content-type''" "to_lower ''X-Requested-With'' = ''x-requested-with''"
    by code_simp+
  have "to_lower name = lk \<and> name \<in> {''Accept'', ''Accept-Language'', ''Content-Type'', ''X-Requested-With''}"
    using cases lk(4) c l by auto
  moreover have "(k, value) \<in> set headers"
    using k(1,3) assms(2) by auto
  ultimately show ?thesis
    using lk(2) k(2) by (auto simp: equal_fold_def folded_name_def)
qed

theorem only_allowed_headers_delivered_witness:
  "\<exists>k. (k, ''text/html'') \<in> set [('' ACCEPT'', ''text/html''), (''Cookie'', ''secret'')] \<and> equal_fold (trim_space k) ''Accept''"
proof -
  have "filter_callback_relay_headers [('' ACCEPT'', ''text/html''), (''Cookie'', ''secret'')] = [(''Accept'', ''text/html'')]"
    by code_simp
  then have "(''Accept'', ''text/html'') \<in> set (filter_callback_relay_headers [('' ACCEPT'', ''text/html''), (''Cookie'', ''secret'')])"
    by simp
  from only_allowed_headers_delivered [OF this] show ?thesis by simp
qed

section \<open>What the A-side relays\<close>

text \<open>Header maps as \<open>net/http\<close> delivers them: canonical names, each once.\<close>

definition canonical_headers :: "http_header \<Rightarrow> bool" where
  "canonical_headers h \<longleftrightarrow>
     keys_distinct h \<and> list_all (\<lambda>(k, vs). list_all token_char k \<and> canonical_header_key k = k) h"

definition relayable :: "string \<Rightarrow> bool" where
  "relayable name \<longleftrightarrow> allowed_callback_relay_header name \<or> inspectable_callback_relay_header name"

lemma token_char_graph: "token_char c \<Longrightarrow> ascii_graph c"
  by (auto simp: token_char_def ascii_graph_def less_eq_char_def digit_char_def)

lemma trim_space_token: "list_all token_char k \<Longrightarrow> trim_space k = k"
  by (simp add: trim_space_graph token_char_graph list_all_iff)

lemma upper_lower_char: "upper_char (lower_char c) = upper_char c"
proof (cases "65 \<le> code c \<and> code c \<le> (90 :: nat)")
  case True
  then have "code (lower_char c) = code c + (32 :: nat)" by (simp add: lower_char_code)
  with True have "upper_char (lower_char c) = char_of (code c :: nat)" by (simp add: upper_char_def)
  moreover have "upper_char c = c" using True by (simp add: upper_char_def)
  ultimately show ?thesis by simp
qed (auto simp: lower_char_def)

lemma lower_lower_char: "lower_char (lower_char c) = lower_char c"
  using to_lower_idem [of "[c]"] by (simp add: to_lower_def)

lemma capitalize_to_lower: "capitalize up (to_lower s) = capitalize up s"
  by (induction s arbitrary: up)
    (simp_all add: to_lower_def upper_lower_char lower_lower_char lower_char_nonletter)

lemma canonical_names_apart:
  assumes "list_all token_char j" "canonical_header_key j = j" "list_all token_char k" "canonical_header_key k = k"
    and "to_lower j = to_lower k"
  shows "j = k"
proof -
  have "i = capitalize True (to_lower i)" if "list_all token_char i" "canonical_header_key i = i" for i
    using that by (simp only: canonical_header_key_def capitalize_to_lower if_True)
  from this [OF assms(1,2)] this [OF assms(3,4)] assms(5) show ?thesis by simp
qed

definition sent_headers :: "http_header \<Rightarrow> http_header" where
  "sent_headers h = filter (\<lambda>(n, vs). vs \<noteq> [] \<and> hd vs \<noteq> '''' \<and> relayable n) h"

lemma callback_headers_eq:
  assumes "canonical_headers h"
  shows "callback_headers h = map (\<lambda>(n, vs). (n, hd vs)) (sent_headers h)"
proof -
  let ?step = "\<lambda>headers (name, vs).
        case vs of
          [] \<Rightarrow> headers
        | v # _ \<Rightarrow>
            if v = '''' then headers
            else if allowed_callback_relay_header name \<or> inspectable_callback_relay_header name
              then AList.update (canonical_header_key name) v headers
            else headers"
  have "foldl ?step out h = out @ map (\<lambda>(n, vs). (n, hd vs)) (sent_headers h)"
    if "canonical_headers h" "fst ` set out \<inter> fst ` set h = {}" for out
    using that
  proof (induction h arbitrary: out)
    case (Cons x h)
    obtain n vs where x: "x = (n, vs)" by fastforce
    have c: "canonical_headers h" "canonical_header_key n = n" "n \<notin> fst ` set h" "n \<notin> fst ` set out"
      "fst ` set out \<inter> fst ` set h = {}"
      using Cons.prems x by (auto simp: canonical_headers_def)
    show ?case
    proof (cases "vs \<noteq> [] \<and> hd vs \<noteq> '''' \<and> relayable n")
      case True
      then obtain v t where v: "vs = v # t" by (cases vs) auto
      have "?step out x = out @ [(n, v)]"
        using True v x c(2,4) by (simp add: relayable_def alist_update_new)
      moreover have "fst ` set (out @ [(n, v)]) \<inter> fst ` set h = {}" using c(3,5) by auto
      ultimately show ?thesis using Cons.IH [OF c(1)] True v x by (simp add: sent_headers_def)
    next
      case False
      then have "?step out x = out" using x by (cases vs) (auto simp: relayable_def)
      with Cons.IH [OF c(1) c(5)] False x show ?thesis by (simp add: sent_headers_def)
    qed
  qed (simp add: sent_headers_def)
  from this [OF assms, of "[]"] show ?thesis by (simp add: callback_headers_def)
qed

lemma callback_headers_name:
  assumes "canonical_headers h" "n \<in> fst ` set (callback_headers h)"
  shows "list_all token_char n \<and> canonical_header_key n = n \<and> relayable n \<and> folded_name n = to_lower n"
proof -
  have "map fst (callback_headers h) = map fst (sent_headers h)"
    by (simp add: callback_headers_eq [OF assms(1)] split_def)
  then have "n \<in> fst ` set (sent_headers h)" using assms(2) by (metis list.set_map)
  then obtain vs where "(n, vs) \<in> set h" "relayable n" by (auto simp: sent_headers_def)
  then have "list_all token_char n" "canonical_header_key n = n" "relayable n"
    using assms(1) by (auto simp: canonical_headers_def list_all_iff)
  then show ?thesis by (simp add: folded_name_def trim_space_token)
qed

lemma callback_headers_keys:
  assumes "canonical_headers h"
  shows "keys_distinct (callback_headers h)"
    and "inj_on folded_name (fst ` set (callback_headers h))"
    and "folded_name ` fst ` set (callback_headers h) \<subseteq>
      {''accept'', ''accept-language'', ''content-type'', ''x-requested-with'',
       ''sec-fetch-mode'', ''sec-fetch-dest'', ''sec-fetch-site'', ''origin''}"
proof -
  have k: "map fst (callback_headers h) = map fst (sent_headers h)"
    by (simp add: callback_headers_eq [OF assms] split_def)
  then show "keys_distinct (callback_headers h)"
    using assms by (simp add: sent_headers_def canonical_headers_def keys_distinct_filter)
  note name = callback_headers_name [OF assms]
  show "inj_on folded_name (fst ` set (callback_headers h))"
  proof (rule inj_onI)
    fix j k assume j: "j \<in> fst ` set (callback_headers h)" and k: "k \<in> fst ` set (callback_headers h)"
      and e: "folded_name j = folded_name k"
    have "to_lower j = to_lower k" using name [OF j] name [OF k] e by metis
    with name [OF j] name [OF k] show "j = k" by (blast intro: canonical_names_apart)
  qed
  show "folded_name ` fst ` set (callback_headers h) \<subseteq>
      {''accept'', ''accept-language'', ''content-type'', ''x-requested-with'',
       ''sec-fetch-mode'', ''sec-fetch-dest'', ''sec-fetch-site'', ''origin''}"
  proof
    fix x assume "x \<in> folded_name ` fst ` set (callback_headers h)"
    then obtain n where "n \<in> fst ` set (callback_headers h)" "x = folded_name n" by blast
    with name [of n] show "x \<in> {''accept'', ''accept-language'', ''content-type'', ''x-requested-with'',
       ''sec-fetch-mode'', ''sec-fetch-dest'', ''sec-fetch-site'', ''origin''}"
      by (auto simp: relayable_def allowed_callback_relay_header_def inspectable_callback_relay_header_def folded_name_def)
  qed
qed

lemma callback_headers_few:
  assumes "canonical_headers h" shows "length (callback_headers h) \<le> 8"
proof -
  let ?S = "{''accept'', ''accept-language'', ''content-type'', ''x-requested-with'',
       ''sec-fetch-mode'', ''sec-fetch-dest'', ''sec-fetch-site'', ''origin''}"
  have "length (callback_headers h) = card (fst ` set (callback_headers h))"
    using distinct_card [OF callback_headers_keys(1) [OF assms]] by simp
  also have "\<dots> = card (folded_name ` fst ` set (callback_headers h))"
    by (rule card_image [OF callback_headers_keys(2) [OF assms], symmetric])
  also have "\<dots> \<le> card ?S"
    by (rule card_mono [OF _ callback_headers_keys(3) [OF assms]]) simp
  also have "\<dots> \<le> 8" by (simp add: card_insert_if)
  finally show ?thesis .
qed

text \<open>The B-side reads in the relay what the A-side read in the request.\<close>

lemma relayed_header_lookup:
  assumes h: "canonical_headers h"
    and n: "list_all token_char n" "canonical_header_key n = n" "relayable n" "n \<noteq> ''''"
  shows "canonical_relay_header (callback_headers h) n = header_get h n"
proof -
  let ?hs = "callback_headers h"
  have kd: "keys_distinct h" using h by (simp add: canonical_headers_def)
  have f: "folded_name n = to_lower n" by (simp add: folded_name_def trim_space_token n(1))
  note name = callback_headers_name [OF h]
  have same: "k = n" if "k \<in> fst ` set ?hs" "folded_name k = to_lower n" for k
  proof -
    have "to_lower k = to_lower n" using name [OF that(1)] that(2) by metis
    with name [OF that(1)] n(1,2) show ?thesis by (blast intro: canonical_names_apart)
  qed
  have ne: "to_lower n \<noteq> ''''" using n(4) by (simp add: to_lower_def)
  note look = canonical_header_lookup [OF callback_headers_keys(1,2) [OF h] ne]
  show ?thesis
  proof (cases "n \<in> fst ` set ?hs")
    case True
    then obtain v where v: "(n, v) \<in> set ?hs" by auto
    then obtain vs where "(n, vs) \<in> set (sent_headers h)" "v = hd vs"
      by (auto simp: callback_headers_eq [OF h])
    with v have vs: "(n, vs) \<in> set h" "vs \<noteq> []" "(n, hd vs) \<in> set ?hs"
      by (auto simp: sent_headers_def)
    have the: "(THE k. k \<in> fst ` set ?hs \<and> folded_name k = to_lower n) = n"
      using True f same by (intro the_equality) auto
    have "canonical_relay_header ?hs n = the (map_of ?hs n)"
      unfolding look the using True f by auto
    also have "\<dots> = hd vs" using vs(3) callback_headers_keys(1) [OF h] by simp
    finally show ?thesis using vs(1,2) kd by (cases vs) (simp_all add: header_get_def)
  next
    case False
    then have "canonical_relay_header ?hs n = ''''"
      unfolding look using same by auto
    moreover have "header_get h n = ''''"
    proof (cases "map_of h n")
      case (Some vs)
      then have "(n, vs) \<in> set h" by (rule map_of_SomeD)
      have "\<not> (vs \<noteq> [] \<and> hd vs \<noteq> '''')"
      proof
        assume "vs \<noteq> [] \<and> hd vs \<noteq> ''''"
        with \<open>(n, vs) \<in> set h\<close> n(3) have "(n, hd vs) \<in> set ?hs"
          by (force simp: callback_headers_eq [OF h] sent_headers_def)
        with False show False by force
      qed
      with Some show ?thesis by (cases vs) (auto simp: header_get_def)
    qed (simp add: header_get_def)
    ultimately show ?thesis by simp
  qed
qed

text \<open>The relay the handler of the callback listener builds, and the form state it checks with.\<close>

definition relay_of_request :: "string \<Rightarrow> http_request \<Rightarrow> callback_relay" where
  "relay_of_request rid r =
     \<lparr>cr_id = rid, cr_method = hr_method r, cr_path = hr_request_uri r,
      cr_headers = callback_headers (hr_header r), cr_body = hr_body r, cr_status = 200\<rparr>"

definition form_state_of :: "net_lib \<Rightarrow> http_request \<Rightarrow> string" where
  "form_state_of nl r =
     (if hr_method r = ''POST'' \<and> is_form (header_get (hr_header r) ''Content-Type'') then
        (case nl_parse_query nl (hr_body r) of (form, ok) \<Rightarrow> if ok then values_get form ''state'' else '''')
      else '''')"

lemma relay_passes:
  assumes "canonical_headers (hr_header r)"
    and "validate_callback_request_state nl r expected (form_state_of nl r) = None"
    and "length (hr_body r) \<le> 1048576" "\<not> header_bytes_exceed 0 (callback_headers (hr_header r))"
    and "nl_parse_request_uri nl (hr_request_uri r) = Some p" "ur_scheme p = ''''" "ur_host p = ''''"
    and "has_prefix (ur_path p) ''/''" "ur_path p = ur_path (hr_url r)" "ur_raw_query p = ur_raw_query (hr_url r)"
    and "form_state_of nl r \<in> {'''', values_get (url_query nl (hr_url r)) ''state''} \<or>
      values_get (url_query nl (hr_url r)) ''state'' = ''''"
    and "nl_parse_query nl '''' = ([], True)"
  shows "validate_callback_relay nl expected (relay_of_request rid r) = None"
proof -
  let ?h = "callback_headers (hr_header r)" and ?relay = "relay_of_request rid r"
  let ?q = "values_get (url_query nl (hr_url r)) ''state''"
  have look: "canonical_relay_header ?h n = header_get (hr_header r) n"
    if "n \<in> {''Sec-Fetch-Mode'', ''Origin'', ''Content-Type''}" for n
  proof (rule relayed_header_lookup [OF assms(1)])
    have t: "list_all (list_all token_char) [''Sec-Fetch-Mode'', ''Origin'', ''Content-Type'']"
      "map canonical_header_key [''Sec-Fetch-Mode'', ''Origin'', ''Content-Type''] = [''Sec-Fetch-Mode'', ''Origin'', ''Content-Type'']"
      "list_all relayable [''Sec-Fetch-Mode'', ''Origin'', ''Content-Type'']" by code_simp+
    from that have n: "n = ''Sec-Fetch-Mode'' \<or> n = ''Origin'' \<or> n = ''Content-Type''" by simp
    then show "n \<noteq> ''''" by (elim disjE) simp_all
    from n show "list_all token_char n" by (elim disjE) (use t(1) in simp_all)
    from n show "canonical_header_key n = n" by (elim disjE) (use t(2) in simp_all)
    from n show "relayable n" by (elim disjE) (use t(3) in simp_all)
  qed
  have acc: "hr_method r = ''GET'' \<or> hr_method r = ''POST''"
    "validate_callback_fetch_metadata (hr_header r) expected = None"
    "\<not> (ex_constrained expected \<and> ex_path expected \<noteq> '''' \<and> ur_path (hr_url r) \<noteq> ex_path expected)"
    "ex_state expected \<noteq> '''' \<Longrightarrow>
       (if ?q = '''' then form_state_of nl r else ?q) = ex_state expected"
    using assms(2) by (auto simp: validate_callback_request_state_def Let_def split: if_splits option.splits)
  have meta: "validate_relay_fetch_metadata ?relay expected = None"
    using acc(2) look
    by (auto simp: validate_relay_fetch_metadata_def validate_callback_fetch_metadata_def relay_of_request_def split: if_splits)
  have q: "url_query nl p = url_query nl (hr_url r)" using assms(10) by (simp add: url_query_def)
  have st: "relay_state nl ?relay p = Some (if form_state_of nl r = '''' then ?q else form_state_of nl r)"
  proof (cases "hr_method r = ''POST'' \<and> is_form (header_get (hr_header r) ''Content-Type'')")
    case True
    obtain form ok where f: "nl_parse_query nl (hr_body r) = (form, ok)" by fastforce
    have fs: "form_state_of nl r = (if ok then values_get form ''state'' else '''')"
      using True f by (simp add: form_state_of_def)
    show ?thesis
    proof (cases "hr_body r = ''''")
      case empty: True
      then have "form = []" using f assms(12) by simp
      then have "form_state_of nl r = ''''" using fs by (simp add: values_get_def)
      with empty q show ?thesis by (simp add: relay_state_def relay_of_request_def)
    next
      case False
      have "relay_state nl ?relay p =
          (if \<not> ok \<or> values_get form ''state'' = '''' then Some ?q
           else if ?q \<noteq> '''' \<and> ?q \<noteq> values_get form ''state'' then None
           else Some (values_get form ''state''))"
        using True False assms(3) q look [of "''Content-Type''"] f
        by (simp add: relay_state_def relay_of_request_def Let_def)
      with fs assms(11) show ?thesis by (auto split: if_splits)
    qed
  next
    case False
    then have "form_state_of nl r = ''''" by (auto simp: form_state_of_def)
    with False q look [of "''Content-Type''"] show ?thesis
      by (auto simp: relay_state_def relay_of_request_def)
  qed
  have "(if form_state_of nl r = '''' then ?q else form_state_of nl r) = (if ?q = '''' then form_state_of nl r else ?q)"
    using assms(11) by auto
  with acc(3,4) assms(3-9) callback_headers_few [OF assms(1)] st meta acc(1) show ?thesis
    by (auto simp: validate_callback_relay_def relay_of_request_def)
qed

text \<open>
  What the machine with the browser accepts as a callback, the machine with the application
  accepts as a relay: for a request as \<open>net/http\<close> delivers it, whose request URI reads back as its
  path and query, with a body and headers within the limits and no contradicting second state, the
  checks of \<open>validateCallbackRelay\<close> pass whenever those of the callback listener did.\<close>

theorem accepted_callback_is_relayed:
  assumes "canonical_headers (hr_header r)"
    and "validate_callback_request_state nl r expected (form_state_of nl r) = None"
    and "length (hr_body r) \<le> 1048576" "\<not> header_bytes_exceed 0 (callback_headers (hr_header r))"
    and "nl_parse_request_uri nl (hr_request_uri r) = Some p" "ur_scheme p = ''''" "ur_host p = ''''"
    and "has_prefix (ur_path p) ''/''" "ur_path p = ur_path (hr_url r)" "ur_raw_query p = ur_raw_query (hr_url r)"
    and "form_state_of nl r \<in> {'''', values_get (url_query nl (hr_url r)) ''state''} \<or>
      values_get (url_query nl (hr_url r)) ''state'' = ''''"
    and "nl_parse_query nl '''' = ([], True)"
  shows "validate_callback_relay nl expected (relay_of_request rid r) = None"
  using assms by (rule relay_passes)

definition demo_callback :: http_request where
  "demo_callback = \<lparr>hr_method = ''GET'', hr_host = ''localhost'',
     hr_header = [(''Accept'', [''text/html'']), (''Sec-Fetch-Mode'', [''navigate'']), (''Cookie'', [''x''])],
     hr_url = the (demo_parse '':///cb?state=s1''), hr_request_uri = '':///cb?state=s1'', hr_body = ''''\<rparr>"

definition demo_expectation :: expectation where
  "demo_expectation = \<lparr>ex_path = ''/cb'', ex_state = ''s1'', ex_constrained = True,
     ex_auth_origin = ''https://a.b'', ex_unbound = False\<rparr>"

theorem accepted_callback_is_relayed_witness:
  "validate_callback_relay demo_net demo_expectation (relay_of_request ''r1'' demo_callback) = None"
proof -
  let ?u = "the (demo_parse '':///cb?state=s1'')"
  have "canonical_headers (hr_header demo_callback)"
    "validate_callback_request_state demo_net demo_callback demo_expectation (form_state_of demo_net demo_callback) = None"
    "\<not> header_bytes_exceed 0 (callback_headers (hr_header demo_callback))"
    "nl_parse_request_uri demo_net (hr_request_uri demo_callback) = Some ?u"
    "ur_scheme ?u = ''''" "ur_host ?u = ''''" "has_prefix (ur_path ?u) ''/''"
    "form_state_of demo_net demo_callback = ''''"
    by code_simp+
  moreover have "hr_url demo_callback = ?u" "length (hr_body demo_callback) \<le> 1048576"
    by (simp_all add: demo_callback_def)
  moreover have "nl_parse_query demo_net '''' = ([], True)" by (simp add: demo_net_def)
  ultimately show ?thesis by (intro accepted_callback_is_relayed [where p = ?u]) simp_all
qed

end
