(* ===== verification/OAuth_Sessions.thy ===== *)
theory OAuth_Sessions
  imports Prelude
begin

text \<open>
  The coordinator of sign-ins (\<open>OAuthSessionManager\<close>, internal/bridge/session.go): one owner per
  logical OAuth request, duplicates that wait for its outcome, and a window in which a completed
  request is replayed instead of opened again. A session object is known by its index in the heap
  \<open>om_heap\<close>; \<open>acquire\<close> and \<open>finish\<close> hold the mutex and are one step each.
\<close>

section \<open>State\<close>

definition default_replay_window :: go_duration where
  "default_replay_window = 2 * minute"

definition max_replay_entries :: nat where "max_replay_entries = 256"
definition max_active_sessions :: nat where "max_active_sessions = 128"
definition max_oauth_url_length :: nat where "max_oauth_url_length = 64 * 1024"
definition max_flow_id_length :: nat where "max_flow_id_length = 256"
definition max_request_id_length :: nat where "max_request_id_length = 128"

text \<open>A non-ASCII rune is refused like every other character; its bytes are not \<open>ident_char\<close>s.\<close>

definition valid_bridge_request_id :: "string \<Rightarrow> bool" where
  "valid_bridge_request_id rid \<longleftrightarrow>
     rid \<noteq> '''' \<and> length rid \<le> max_request_id_length \<and> list_all ident_char rid"

type_synonym go_error = "string option"

record oauth_session =
  os_success :: bool
  os_err :: go_error
  os_closed :: bool

record oauth_replay =
  or_expires :: go_time
  or_err :: go_error

record manager =
  om_active :: "(string \<times> nat) list"
  om_recent :: "(string \<times> oauth_replay) list"
  om_window :: go_duration
  om_heap :: "oauth_session list"

record session_lease =
  sl_key :: string
  sl_session :: "nat option"
  sl_owner :: bool
  sl_replay :: bool
  sl_replay_err :: go_error
  sl_refused :: bool

definition new_manager :: manager where
  "new_manager = \<lparr>om_active = [], om_recent = [], om_window = default_replay_window, om_heap = []\<rparr>"

definition new_manager_with_window :: "go_duration \<Rightarrow> manager" where
  "new_manager_with_window window =
     (if 0 < window then new_manager\<lparr>om_window := window\<rparr> else new_manager)"

section \<open>Operations\<close>

text \<open>The scan for the entry that expires first; the empty key counts as no key.\<close>

definition scan_oldest :: "(string \<times> oauth_replay) list \<Rightarrow> string" where
  "scan_oldest m =
     fst (foldl (\<lambda>(oldest_key, oldest_expiry) (key, replay).
        if oldest_key = '''' \<or> or_expires replay < oldest_expiry then (key, or_expires replay)
        else (oldest_key, oldest_expiry)) ('''', 0) m)"

lemma scan_oldest_in: "scan_oldest m \<in> insert '''' (fst ` set m)"
proof -
  have "fst (foldl (\<lambda>(oldest_key, oldest_expiry) (key, replay).
      if oldest_key = '''' \<or> or_expires replay < oldest_expiry then (key, or_expires replay)
      else (oldest_key, oldest_expiry)) (k, t) m) \<in> insert k (fst ` set m)" for k t
    by (induction m arbitrary: k t) (fastforce split: if_splits)+
  then show ?thesis by (simp add: scan_oldest_def)
qed

lemma length_alist_delete_less: "k \<in> fst ` set m \<Longrightarrow> length (AList.delete k m) < length m"
  by (auto simp: AList.delete_eq intro!: length_filter_less)

function evict_replays :: "(string \<times> oauth_replay) list \<Rightarrow> (string \<times> oauth_replay) list" where
  "evict_replays m =
     (if length m \<le> max_replay_entries then m
      else
        let k = scan_oldest m
        in if k = '''' then m else evict_replays (AList.delete k m))"
  by pat_completeness auto
termination
proof (relation "measure length")
  fix m :: "(string \<times> oauth_replay) list" and k
  assume "k = scan_oldest m" "k \<noteq> ''''"
  then have "k \<in> fst ` set m" using scan_oldest_in [of m] by simp
  then show "(AList.delete k m, m) \<in> measure length" by (simp add: length_alist_delete_less)
qed simp

declare evict_replays.simps [simp del]

definition prune_replays :: "go_time \<Rightarrow> (string \<times> oauth_replay) list \<Rightarrow> (string \<times> oauth_replay) list" where
  "prune_replays now m = evict_replays (filter (\<lambda>(k, r). \<not> or_expires r < now) m)"

definition no_lease :: "string \<Rightarrow> session_lease" where
  "no_lease key = \<lparr>sl_key = key, sl_session = None, sl_owner = False, sl_replay = False,
     sl_replay_err = None, sl_refused = False\<rparr>"

definition acquire :: "go_time \<Rightarrow> string \<Rightarrow> manager \<Rightarrow> manager \<times> session_lease" where
  "acquire now key m0 =
     (let m = m0\<lparr>om_recent := prune_replays now (om_recent m0)\<rparr>
      in case map_of (om_recent m) key of
           Some replay \<Rightarrow> (m, (no_lease key)\<lparr>sl_replay := True, sl_replay_err := or_err replay\<rparr>)
         | None \<Rightarrow>
             (case map_of (om_active m) key of
                Some session \<Rightarrow> (m, (no_lease key)\<lparr>sl_session := Some session\<rparr>)
              | None \<Rightarrow>
                  if max_active_sessions \<le> length (om_active m) then (m, (no_lease key)\<lparr>sl_refused := True\<rparr>)
                  else
                    let session = length (om_heap m)
                    in (m\<lparr>om_heap := om_heap m @ [\<lparr>os_success = False, os_err = None, os_closed = False\<rparr>],
                          om_active := AList.update key session (om_active m)\<rparr>,
                        (no_lease key)\<lparr>sl_session := Some session, sl_owner := True\<rparr>)))"

datatype wait_outcome = Blocked | ContextDone | Completed | NotCompleted go_error | NoState

text \<open>
  \<open>wait\<close>: what the duplicate sees, given whether its context is done; \<open>NotCompleted None\<close> stands for
  the generic failure. When both are ready the select may take either branch; \<open>prefer_ctx\<close> chooses.
\<close>

definition lease_wait :: "bool \<Rightarrow> bool \<Rightarrow> session_lease \<Rightarrow> manager \<Rightarrow> wait_outcome" where
  "lease_wait ctx_done prefer_ctx l m =
     (if sl_replay l then (case sl_replay_err l of None \<Rightarrow> Completed | Some e \<Rightarrow> NotCompleted (Some e))
      else (case sl_session l of
        None \<Rightarrow> NoState
      | Some session \<Rightarrow>
          let s = om_heap m ! session
          in if ctx_done \<and> (prefer_ctx \<or> \<not> os_closed s) then ContextDone
             else if \<not> os_closed s then Blocked
             else if os_success s then Completed
             else NotCompleted (os_err s)))"

definition finish :: "go_time \<Rightarrow> go_time \<Rightarrow> go_error \<Rightarrow> session_lease \<Rightarrow> manager \<Rightarrow> manager" where
  "finish now1 now2 err l m =
     (case sl_session l of
        None \<Rightarrow> m
      | Some session \<Rightarrow>
          if \<not> sl_owner l then m
          else if map_of (om_active m) (sl_key l) \<noteq> Some session \<or> os_closed (om_heap m ! session) then m
          else
            let m1 = m\<lparr>om_heap := (om_heap m)[session := \<lparr>os_success = (err = None), os_err = err, os_closed = True\<rparr>],
                       om_active := AList.delete (sl_key l) (om_active m)\<rparr>
            in if err = None then
                 m1\<lparr>om_recent := prune_replays now2
                      (AList.update (sl_key l) \<lparr>or_expires = now1 + om_window m, or_err = None\<rparr> (om_recent m1))\<rparr>
               else m1)"
section \<open>Well-formed managers\<close>

definition keyed_replays :: "(string \<times> oauth_replay) list \<Rightarrow> bool" where
  "keyed_replays m \<longleftrightarrow> keys_distinct m \<and> '''' \<notin> fst ` set m \<and> (\<forall>(k, r) \<in> set m. or_err r = None)"

lemma keyed_replays_filter: "keyed_replays m \<Longrightarrow> keyed_replays (filter P m)"
  by (auto simp: keyed_replays_def keys_distinct_filter)

lemma keyed_replays_delete: "keyed_replays m \<Longrightarrow> keyed_replays (AList.delete k m)"
  by (simp add: AList.delete_eq keyed_replays_filter)

lemma evict_replays_spec:
  "keyed_replays m \<Longrightarrow> keyed_replays (evict_replays m) \<and> length (evict_replays m) \<le> max_replay_entries \<and>
     set (evict_replays m) \<subseteq> set m"
proof (induction m rule: evict_replays.induct)
  case (1 m)
  show ?case
  proof (cases "length m \<le> max_replay_entries")
    case True
    with "1.prems" show ?thesis by (subst (1 2 3) evict_replays.simps) simp
  next
    case False
    then obtain e m' where m: "m = e # m'" by (cases m) auto
    have ne: "scan_oldest m \<noteq> ''''"
    proof -
      have scan: "fst (foldl (\<lambda>(oldest_key, oldest_expiry) (key, replay).
          if oldest_key = '''' \<or> or_expires replay < oldest_expiry then (key, or_expires replay)
          else (oldest_key, oldest_expiry)) (k, t) xs) \<noteq> ''''"
        if "k \<noteq> '''' \<or> xs \<noteq> []" "'''' \<notin> fst ` set xs" for k t xs
        using that by (induction xs arbitrary: k t) (auto simp: split_def)
      show ?thesis
        unfolding scan_oldest_def by (rule scan) (use "1.prems" m in \<open>simp_all add: keyed_replays_def\<close>)
    qed
    with False have eq: "evict_replays m = evict_replays (AList.delete (scan_oldest m) m)"
      by (subst evict_replays.simps) (simp add: Let_def)
    have "set (AList.delete (scan_oldest m) m) \<subseteq> set m" by (auto simp: AList.delete_eq)
    with "1.IH" [OF False refl ne keyed_replays_delete [OF "1.prems"]] show ?thesis
      unfolding eq by blast
  qed
qed

lemma prune_replays_spec:
  assumes "keyed_replays m"
  shows "keyed_replays (prune_replays now m)" "length (prune_replays now m) \<le> max_replay_entries"
    "set (prune_replays now m) \<subseteq> set m"
  using evict_replays_spec [OF keyed_replays_filter [OF assms]]
  by (auto simp: prune_replays_def)

lemma prune_replays_small:
  "length m \<le> max_replay_entries \<Longrightarrow> prune_replays now m = filter (\<lambda>(k, r). \<not> or_expires r < now) m"
  unfolding prune_replays_def
  by (subst evict_replays.simps) (meson le_trans length_filter_le)

definition sessions_inv :: "manager \<Rightarrow> bool" where
  "sessions_inv m \<longleftrightarrow>
     keys_distinct (om_active m) \<and> distinct (map snd (om_active m)) \<and>
     length (om_active m) \<le> max_active_sessions \<and>
     (\<forall>(k, s) \<in> set (om_active m). s < length (om_heap m) \<and> \<not> os_closed (om_heap m ! s)) \<and>
     keyed_replays (om_recent m) \<and> length (om_recent m) \<le> max_replay_entries \<and>
     fst ` set (om_active m) \<inter> fst ` set (om_recent m) = {}"

lemma sessions_inv_prune:
  assumes "sessions_inv m"
  shows "sessions_inv (m\<lparr>om_recent := prune_replays now (om_recent m)\<rparr>)"
proof -
  have "fst ` set (prune_replays now (om_recent m)) \<subseteq> fst ` set (om_recent m)"
    using prune_replays_spec(3) assms by (meson image_mono sessions_inv_def)
  then have "fst ` set (om_active m) \<inter> fst ` set (prune_replays now (om_recent m)) = {}"
    using assms unfolding sessions_inv_def by blast
  with assms prune_replays_spec(1,2) [of "om_recent m" now] show ?thesis
    by (simp add: sessions_inv_def)
qed

text \<open>The manager and the leases it has handed out.\<close>

type_synonym session_system = "manager \<times> session_lease list"

datatype session_event = Acquire go_time string | Finish nat go_time go_time go_error

fun system_step :: "session_system \<Rightarrow> session_event \<Rightarrow> session_system" where
  "system_step (m, ls) (Acquire now key) = (let (m1, l) = acquire now key m in (m1, ls @ [l]))"
| "system_step (m, ls) (Finish i now1 now2 err) =
     (if i < length ls then (finish now1 now2 err (ls ! i) m, ls) else (m, ls))"

text \<open>The callers' keys are digests, never empty.\<close>

fun keyed_event :: "session_event \<Rightarrow> bool" where
  "keyed_event (Acquire now key) \<longleftrightarrow> key \<noteq> ''''"
| "keyed_event (Finish i now1 now2 err) \<longleftrightarrow> True"

definition lease_ok :: "manager \<Rightarrow> session_lease \<Rightarrow> bool" where
  "lease_ok m l \<longleftrightarrow>
     sl_key l \<noteq> '''' \<and>
     (\<forall>s. sl_session l = Some s \<longrightarrow>
        s < length (om_heap m) \<and> (\<not> os_closed (om_heap m ! s) \<longrightarrow> map_of (om_active m) (sl_key l) = Some s)) \<and>
     (sl_owner l \<longrightarrow> sl_session l \<noteq> None) \<and> (sl_replay l \<longrightarrow> sl_session l = None)"

definition owned_sessions :: "session_lease list \<Rightarrow> nat list" where
  "owned_sessions ls = map (the \<circ> sl_session) (filter sl_owner ls)"

fun system_inv :: "session_system \<Rightarrow> bool" where
  "system_inv (m, ls) \<longleftrightarrow>
     sessions_inv m \<and> list_all (lease_ok m) ls \<and> distinct (owned_sessions ls)"

text \<open>\<open>acquire\<close>, by outcome.\<close>

lemma acquire_cases:
  obtains (replay) r where "map_of (prune_replays now (om_recent m)) key = Some r"
      "acquire now key m = (m\<lparr>om_recent := prune_replays now (om_recent m)\<rparr>,
         (no_lease key)\<lparr>sl_replay := True, sl_replay_err := or_err r\<rparr>)"
  | (duplicate) s where "map_of (om_active m) key = Some s"
      "acquire now key m = (m\<lparr>om_recent := prune_replays now (om_recent m)\<rparr>, (no_lease key)\<lparr>sl_session := Some s\<rparr>)"
  | (full) "acquire now key m = (m\<lparr>om_recent := prune_replays now (om_recent m)\<rparr>, (no_lease key)\<lparr>sl_refused := True\<rparr>)"
  | (owner) "map_of (prune_replays now (om_recent m)) key = None" "map_of (om_active m) key = None"
      "length (om_active m) < max_active_sessions"
      "acquire now key m =
         (m\<lparr>om_recent := prune_replays now (om_recent m),
            om_heap := om_heap m @ [\<lparr>os_success = False, os_err = None, os_closed = False\<rparr>],
            om_active := AList.update key (length (om_heap m)) (om_active m)\<rparr>,
          (no_lease key)\<lparr>sl_session := Some (length (om_heap m)), sl_owner := True\<rparr>)"
proof (cases "map_of (prune_replays now (om_recent m)) key")
  case (Some r)
  then show thesis by (intro replay) (simp_all add: acquire_def)
next
  case none: None
  show thesis
  proof (cases "map_of (om_active m) key")
    case (Some s)
    with none show thesis by (intro duplicate) (simp_all add: acquire_def)
  next
    case None
    with none show thesis
      by (cases "max_active_sessions \<le> length (om_active m)")
        (rule full owner; simp add: acquire_def Let_def)+
  qed
qed

lemma finish_cases:
  obtains (noop) "finish now1 now2 err l m = m"
  | (close) s m1 where "sl_owner l" "sl_session l = Some s" "map_of (om_active m) (sl_key l) = Some s"
      "\<not> os_closed (om_heap m ! s)"
      "m1 = m\<lparr>om_heap := (om_heap m)[s := \<lparr>os_success = (err = None), os_err = err, os_closed = True\<rparr>],
                om_active := AList.delete (sl_key l) (om_active m)\<rparr>"
      "finish now1 now2 err l m =
         (if err = None then m1\<lparr>om_recent := prune_replays now2
            (AList.update (sl_key l) \<lparr>or_expires = now1 + om_window m, or_err = None\<rparr> (om_recent m1))\<rparr> else m1)"
proof (cases "sl_session l")
  case None
  then show thesis by (intro noop) (simp add: finish_def)
next
  case (Some s)
  show thesis
  proof (cases "sl_owner l \<and> map_of (om_active m) (sl_key l) = Some s \<and> \<not> os_closed (om_heap m ! s)")
    case True
    with Some show thesis by (intro close [OF _ Some _ _ refl]) (simp_all add: finish_def Let_def)
  next
    case False
    with Some show thesis by (intro noop) (auto simp: finish_def Let_def)
  qed
qed

lemma disjoint_sub: "A \<inter> R = {} \<Longrightarrow> k \<notin> A \<Longrightarrow> P \<subseteq> insert k R \<Longrightarrow> A \<inter> P = {}"
  by blast

lemma keyed_replays_update:
  "keyed_replays m \<Longrightarrow> k \<noteq> '''' \<Longrightarrow> keyed_replays (AList.update k \<lparr>or_expires = t, or_err = None\<rparr> m)"
  by (auto simp: keyed_replays_def distinct_update image_iff dest!: alist_update_cases)

lemma acquire_inv:
  assumes inv: "system_inv (m, ls)" and key: "key \<noteq> ''''"
  shows "system_inv (system_step (m, ls) (Acquire now key))"
proof -
  let ?m = "m\<lparr>om_recent := prune_replays now (om_recent m)\<rparr>"
  have si: "sessions_inv ?m" using inv by (simp add: sessions_inv_prune)
  have lo: "list_all (lease_ok ?m) ls" using inv by (simp add: lease_ok_def list_all_iff)
  have d: "distinct (owned_sessions ls)" using inv by simp
  have no: "owned_sessions (ls @ [l]) = owned_sessions ls" if "\<not> sl_owner l" for l
    using that by (simp add: owned_sessions_def)
  show ?thesis
  proof (cases rule: acquire_cases [of now m key])
    case (duplicate s)
    then have "lease_ok ?m ((no_lease key)\<lparr>sl_session := Some s\<rparr>)"
      using key si map_of_SomeD [OF duplicate(1)] by (auto simp: lease_ok_def no_lease_def sessions_inv_def)
    with duplicate(2) si lo d show ?thesis by (simp add: no) (simp add: no_lease_def no)
  next
    case owner
    let ?h = "om_heap m @ [\<lparr>os_success = False, os_err = None, os_closed = False\<rparr>]"
    let ?a = "om_active m @ [(key, length (om_heap m))]"
    have fresh: "key \<notin> fst ` set (om_active m)" using owner(2) by (simp add: map_of_eq_None_iff)
    have upd: "AList.update key (length (om_heap m)) (om_active m) = ?a"
      by (rule alist_update_new [OF fresh])
    have "key \<notin> fst ` set (prune_replays now (om_recent m))" using owner(1) by (simp add: map_of_eq_None_iff)
    then have s1: "sessions_inv (?m\<lparr>om_heap := ?h, om_active := ?a\<rparr>)"
      using si owner(3) fresh by (fastforce simp: sessions_inv_def nth_append)
    have "lease_ok (?m\<lparr>om_heap := ?h, om_active := ?a\<rparr>) l" if "l \<in> set ls" for l
    proof -
      have l: "lease_ok ?m l" using lo that by (simp add: list_all_iff)
      have "sl_key l \<noteq> key" if "sl_session l = Some s" "\<not> os_closed (om_heap m ! s)" for s
        using l that owner(2) by (auto simp: lease_ok_def)
      with l show ?thesis
        by (auto simp: lease_ok_def nth_append map_add_def less_Suc_eq split: option.splits)
    qed
    moreover have "lease_ok (?m\<lparr>om_heap := ?h, om_active := ?a\<rparr>)
        ((no_lease key)\<lparr>sl_session := Some (length (om_heap m)), sl_owner := True\<rparr>)"
      using key owner(2) by (simp add: lease_ok_def no_lease_def map_add_def)
    moreover have "length (om_heap m) \<notin> set (owned_sessions ls)"
    proof
      assume "length (om_heap m) \<in> set (owned_sessions ls)"
      then obtain l where l: "l \<in> set ls" "sl_owner l" "length (om_heap m) = the (sl_session l)"
        by (auto simp: owned_sessions_def)
      then have "lease_ok ?m l" using lo by (simp add: list_all_iff)
      with l show False by (auto simp: lease_ok_def)
    qed
    ultimately show ?thesis
      using owner(4) s1 d upd by (simp add: list_all_iff owned_sessions_def)
  qed (use key si lo d in \<open>simp_all add: no lease_ok_def no_lease_def\<close>)
qed

lemma finish_inv:
  assumes inv: "system_inv (m, ls)" and i: "i < length ls"
  shows "system_inv (finish now1 now2 err (ls ! i) m, ls)"
proof (cases rule: finish_cases [of now1 now2 err "ls ! i" m])
  case (close s m1)
  let ?key = "sl_key (ls ! i)"
  have si: "sessions_inv m" and lo: "list_all (lease_ok m) ls" using inv by simp_all
  have key: "?key \<noteq> ''''" using lo i by (simp add: list_all_iff lease_ok_def)
  have s: "s < length (om_heap m)"
    using close(3) si map_of_SomeD [OF close(3)] by (auto simp: sessions_inv_def)
  have other: "s' \<noteq> s" if "(k, s') \<in> set (AList.delete ?key (om_active m))" for k s'
  proof
    assume "s' = s"
    moreover have "(k, s') \<in> set (om_active m)" "k \<noteq> ?key"
      using that by (auto simp: AList.delete_eq)
    moreover have "inj_on snd (set (om_active m))" using si by (simp add: sessions_inv_def distinct_map)
    ultimately show False
      using map_of_SomeD [OF close(3)] by (metis inj_onD prod.inject snd_conv)
  qed
  have act: "keys_distinct (om_active m1)" "distinct (map snd (om_active m1))"
    "length (om_active m1) \<le> max_active_sessions"
    using si
    by (auto simp: close(5) sessions_inv_def AList.delete_eq distinct_map_filter
        intro: order_trans [OF length_filter_le])
  have hp: "\<forall>(k, s) \<in> set (om_active m1). s < length (om_heap m1) \<and> \<not> os_closed (om_heap m1 ! s)"
    using si other by (fastforce simp: close(5) sessions_inv_def AList.delete_eq)
  have dis: "fst ` set (om_active m1) \<inter> fst ` set (om_recent m) = {}" "?key \<notin> fst ` set (om_active m1)"
    using si by (auto simp: close(5) sessions_inv_def AList.delete_eq)
  let ?r = "AList.update ?key \<lparr>or_expires = now1 + om_window m, or_err = None\<rparr> (om_recent m)"
  have kr: "keyed_replays ?r" using si key by (simp add: sessions_inv_def keyed_replays_update)
  have "fst ` set (prune_replays now2 ?r) \<subseteq> insert ?key (fst ` set (om_recent m))"
    by (rule order_trans [OF image_mono [OF prune_replays_spec(3) [OF kr]] alist_update_keys])
  from disjoint_sub [OF dis this]
  have dis': "fst ` set (om_active m1) \<inter> fst ` set (prune_replays now2 ?r) = {}" .
  have "sessions_inv (finish now1 now2 err (ls ! i) m)"
    using act hp dis dis' prune_replays_spec(1,2) [OF kr, of now2] si close(5,6)
    by (auto simp: sessions_inv_def)
  moreover have "list_all (lease_ok (finish now1 now2 err (ls ! i) m)) ls"
  proof -
    have "lease_ok m1 l" if "l \<in> set ls" for l
    proof -
      have l: "lease_ok m l" using lo that by (simp add: list_all_iff)
      have "sl_key l \<noteq> ?key" if "sl_session l = Some s'" "\<not> os_closed (om_heap m ! s')" "s' \<noteq> s" for s'
        using l that close(3) by (auto simp: lease_ok_def)
      with l s show ?thesis
        by (auto simp: lease_ok_def close(5) nth_list_update AList.delete_conv' split: if_splits)
    qed
    then show ?thesis using close(5,6) by (simp add: list_all_iff lease_ok_def)
  qed
  ultimately show ?thesis using inv by simp
qed (use inv in simp)

lemma system_step_inv: "system_inv st \<Longrightarrow> keyed_event ev \<Longrightarrow> system_inv (system_step st ev)"
  using acquire_inv finish_inv
  by (cases st; cases ev) (simp_all del: system_inv.simps system_step.simps(1))

interpretation sign_in_system: guarded_stepper system_step keyed_event system_inv
  by unfold_locales (rule system_step_inv)

lemma system_inv_new: "system_inv (new_manager, [])"
  by (simp add: sessions_inv_def new_manager_def keyed_replays_def owned_sessions_def)

section \<open>What the coordinator promises\<close>

definition session_run :: "session_event list \<Rightarrow> session_system" where
  "session_run es = foldl system_step (new_manager, []) es"

lemma session_run_inv: "list_all keyed_event es \<Longrightarrow> system_inv (session_run es)"
  unfolding session_run_def by (rule sign_in_system.allowed_run_inv [OF system_inv_new])

definition lease_open :: "manager \<Rightarrow> session_lease \<Rightarrow> bool" where
  "lease_open m l \<longleftrightarrow> (case sl_session l of None \<Rightarrow> False | Some s \<Rightarrow> \<not> os_closed (om_heap m ! s))"

lemma owned_sessions_inj:
  assumes "distinct (owned_sessions ls)" "i < length ls" "j < length ls"
    and "sl_owner (ls ! i)" "sl_owner (ls ! j)" "sl_session (ls ! i) = sl_session (ls ! j)"
  shows "i = j"
  using assms
proof (induction ls arbitrary: i j)
  case (Cons l ls)
  have mem: "the (sl_session (ls ! n)) \<in> set (owned_sessions ls)" if "n < length ls" "sl_owner (ls ! n)" for n
    using that by (auto simp: owned_sessions_def)
  from Cons show ?case
    using mem [of "i - 1"] mem [of "j - 1"]
    by (cases i; cases j) (auto simp: owned_sessions_def split: if_splits)
qed simp

text \<open>
  C40. In every interleaving of requests and completions, at most one lease per key is the owner of a
  request that is still open: identical requests never open a second browser flow. At most 128
  sign-ins are open and at most 256 completions remembered, whatever the callers do.\<close>

theorem single_flight:
  assumes "list_all keyed_event es"
  shows "let (m, ls) = session_run es
    in length (om_active m) \<le> 128 \<and> length (om_recent m) \<le> 256 \<and>
       \<not> (\<exists>i j. i < j \<and> j < length ls \<and> sl_key (ls ! i) = sl_key (ls ! j) \<and>
            sl_owner (ls ! i) \<and> sl_owner (ls ! j) \<and> lease_open m (ls ! i) \<and> lease_open m (ls ! j))"
proof -
  obtain m ls where r: "session_run es = (m, ls)" by fastforce
  have inv: "system_inv (m, ls)" using session_run_inv [OF assms] r by simp
  have "False" if h: "i < j" "j < length ls" "sl_key (ls ! i) = sl_key (ls ! j)"
      "sl_owner (ls ! i)" "sl_owner (ls ! j)" "lease_open m (ls ! i)" "lease_open m (ls ! j)" for i j
  proof -
    have "lease_ok m (ls ! i)" "lease_ok m (ls ! j)" using inv h(1,2) by (simp_all add: list_all_length)
    with h(3,6,7) have "sl_session (ls ! i) = sl_session (ls ! j)"
      by (auto simp: lease_ok_def lease_open_def split: option.splits)
    with owned_sessions_inj [of ls i j] inv h(1,2,4,5) show False by simp
  qed
  moreover have "length (om_active m) \<le> 128 \<and> length (om_recent m) \<le> 256"
    using inv by (simp add: sessions_inv_def max_active_sessions_def max_replay_entries_def)
  ultimately show ?thesis unfolding r Let_def by auto
qed

definition demo_session_events :: "session_event list" where
  "demo_session_events = [Acquire 0 ''k'', Acquire 1 ''k'', Acquire 2 ''j'']"

definition demo_owner_lease :: "string \<Rightarrow> nat \<Rightarrow> session_lease" where
  "demo_owner_lease k s = \<lparr>sl_key = k, sl_session = Some s, sl_owner = True, sl_replay = False,
     sl_replay_err = None, sl_refused = False\<rparr>"

lemma demo_session_run:
  "session_run demo_session_events =
     (\<lparr>om_active = [(''k'', 0), (''j'', 1)], om_recent = [], om_window = default_replay_window,
        om_heap = replicate 2 \<lparr>os_success = False, os_err = None, os_closed = False\<rparr>\<rparr>,
      [demo_owner_lease ''k'' 0, (demo_owner_lease ''k'' 0)\<lparr>sl_owner := False\<rparr>, demo_owner_lease ''j'' 1])"
  by (simp add: session_run_def demo_session_events_def new_manager_def acquire_def prune_replays_small
      no_lease_def max_active_sessions_def max_replay_entries_def demo_owner_lease_def Let_def numeral_2_eq_2)

theorem single_flight_witness:
  "let (m, ls) = session_run demo_session_events
   in \<not> (\<exists>i j. i < j \<and> j < length ls \<and> sl_key (ls ! i) = sl_key (ls ! j) \<and>
        sl_owner (ls ! i) \<and> sl_owner (ls ! j) \<and> lease_open m (ls ! i) \<and> lease_open m (ls ! j)) \<and>
      sl_owner (ls ! 0) \<and> lease_open m (ls ! 0) \<and> sl_key (ls ! 1) = sl_key (ls ! 0)"
proof -
  have "list_all keyed_event demo_session_events" by (simp add: demo_session_events_def)
  from single_flight [OF this] show ?thesis
    unfolding demo_session_run Let_def split_def by (simp add: demo_owner_lease_def lease_open_def)
qed

text \<open>A closed session never changes again.\<close>

lemma nth_update_closed: "os_closed (h ! s) \<Longrightarrow> \<not> os_closed (h ! a) \<Longrightarrow> h[a := x] ! s = h ! s"
  by (metis nth_list_update_neq)

lemma closed_step:
  assumes "s < length (om_heap (fst st))" "os_closed (om_heap (fst st) ! s)"
  shows "s < length (om_heap (fst (system_step st ev))) \<and>
    om_heap (fst (system_step st ev)) ! s = om_heap (fst st) ! s \<and>
    (i < length (snd st) \<longrightarrow> i < length (snd (system_step st ev)) \<and> snd (system_step st ev) ! i = snd st ! i)"
proof (cases st)
  case (Pair m ls)
  show ?thesis
  proof (cases ev)
    case (Acquire now key)
    with Pair assms show ?thesis
      by (cases rule: acquire_cases [of now m key]) (simp_all add: nth_append)
  next
    case (Finish k now1 now2 err)
    with Pair assms show ?thesis
      by (cases rule: finish_cases [of now1 now2 err "ls ! k" m]) (auto simp: nth_update_closed)
  qed
qed

lemma closed_run:
  assumes "s < length (om_heap (fst st))" "os_closed (om_heap (fst st) ! s)" "i < length (snd st)"
  shows "om_heap (fst (foldl system_step st es)) ! s = om_heap (fst st) ! s \<and>
    snd (foldl system_step st es) ! i = snd st ! i"
  using assms
proof (induction es arbitrary: st)
  case (Cons ev es)
  have "s < length (om_heap (fst (system_step st ev))) \<and>
    om_heap (fst (system_step st ev)) ! s = om_heap (fst st) ! s \<and>
    i < length (snd (system_step st ev)) \<and> snd (system_step st ev) ! i = snd st ! i"
    using closed_step [OF Cons.prems(1,2), of ev i] Cons.prems(3) by blast
  with Cons.IH [of "system_step st ev"] Cons.prems(2) show ?case by simp
qed simp

text \<open>
  A duplicate request gets the outcome of the owner it waited for, exactly, and for good: once the
  owner's handler finishes with a result - success or an error - every lease on the same session
  reports that result at any later time.\<close>

theorem waiters_share_outcome:
  assumes "list_all keyed_event es" "session_run es = (m, ls)"
    and "i < length ls" "sl_owner (ls ! i)" "lease_open m (ls ! i)"
    and "j < length ls" "sl_session (ls ! j) = sl_session (ls ! i)"
  shows "let (m', ls') = foldl system_step (m, ls) (Finish i now1 now2 err # later)
    in ls' ! j = ls ! j \<and>
       lease_wait False prefer_ctx (ls' ! j) m' = (if err = None then Completed else NotCompleted err)"
proof -
  have inv: "system_inv (m, ls)" using session_run_inv [OF assms(1)] assms(2) by simp
  obtain s where s: "sl_session (ls ! i) = Some s" "\<not> os_closed (om_heap m ! s)"
    using assms(5) by (auto simp: lease_open_def split: option.splits)
  have ok: "lease_ok m (ls ! i)" "lease_ok m (ls ! j)" using inv assms(3,6) by (simp_all add: list_all_length)
  then have a: "s < length (om_heap m)" "map_of (om_active m) (sl_key (ls ! i)) = Some s"
    using s by (simp_all add: lease_ok_def)
  define m1 where "m1 = finish now1 now2 err (ls ! i) m"
  have h: "s < length (om_heap m1)"
    "om_heap m1 ! s = \<lparr>os_success = (err = None), os_err = err, os_closed = True\<rparr>"
    using a s assms(4) by (simp_all add: m1_def finish_def Let_def)
  obtain m' ls' where r: "foldl system_step (m1, ls) later = (m', ls')" by fastforce
  have "om_heap m' ! s = om_heap m1 ! s \<and> ls' ! j = ls ! j"
    using closed_run [of s "(m1, ls)" j later] h assms(6) r by simp
  moreover have "\<not> sl_replay (ls ! j)" using ok(2) s(1) assms(7) by (auto simp: lease_ok_def)
  ultimately show ?thesis
    using h(2) s(1) assms(3,7) r by (simp add: lease_wait_def m1_def [symmetric] Let_def)
qed

theorem waiters_share_outcome_witness:
  "let (m, ls) = session_run demo_session_events;
       (m', ls') = foldl system_step (m, ls) [Finish 0 5 5 (Some ''timeout''), Acquire 6 ''k'']
   in lease_wait False True (ls' ! 1) m' = NotCompleted (Some ''timeout'')"
proof -
  let ?m = "fst (session_run demo_session_events)" and ?ls = "snd (session_run demo_session_events)"
  have k: "list_all keyed_event demo_session_events" by (simp add: demo_session_events_def)
  have r: "session_run demo_session_events = (?m, ?ls)" by simp
  have "0 < length ?ls" "sl_owner (?ls ! 0)" "lease_open ?m (?ls ! 0)" "1 < length ?ls"
    "sl_session (?ls ! 1) = sl_session (?ls ! 0)"
    by (simp_all add: demo_session_run demo_owner_lease_def lease_open_def)
  from waiters_share_outcome [OF k r this, of 5 5 "Some ''timeout''" "[Acquire 6 ''k'']" True]
  show ?thesis by (auto simp: split_def Let_def simp del: system_step.simps)
qed

section \<open>The replay window\<close>

fun finishes :: "session_event list \<Rightarrow> nat" where
  "finishes [] = 0"
| "finishes (Acquire now key # es) = finishes es"
| "finishes (Finish i now1 now2 err # es) = Suc (finishes es)"

fun event_before :: "go_time \<Rightarrow> session_event \<Rightarrow> bool" where
  "event_before t (Acquire now key) \<longleftrightarrow> now \<le> t"
| "event_before t (Finish i now1 now2 err) \<longleftrightarrow> now2 \<le> t"

definition remembered :: "string \<Rightarrow> go_time \<Rightarrow> manager \<Rightarrow> bool" where
  "remembered key t m \<longleftrightarrow>
     (\<exists>r. map_of (om_recent m) key = Some r \<and> or_err r = None \<and> t \<le> or_expires r)"

lemma map_of_prune_small:
  assumes "keyed_replays m" "length m \<le> max_replay_entries" "map_of m k = Some r" "now \<le> or_expires r"
  shows "map_of (prune_replays now m) k = Some r"
proof -
  have "(k, r) \<in> set (prune_replays now m)"
    using assms map_of_SomeD [OF assms(3)] by (simp add: prune_replays_small)
  moreover have "keys_distinct (prune_replays now m)"
    using prune_replays_spec(1) [OF assms(1)] by (simp add: keyed_replays_def)
  ultimately show ?thesis by simp
qed

lemma length_prune_small: "length m \<le> max_replay_entries \<Longrightarrow> length (prune_replays now m) \<le> length m"
  by (simp add: prune_replays_small)

lemma remembered_prune:
  assumes "keyed_replays (om_recent m)" "length (om_recent m) \<le> max_replay_entries" "remembered key t m" "now \<le> t"
  shows "remembered key t (m\<lparr>om_recent := prune_replays now (om_recent m)\<rparr>)"
  using assms map_of_prune_small by (fastforce simp: remembered_def)

lemma remembered_step:
  assumes inv: "system_inv (m, ls)" and rem: "remembered key t m"
    and before: "event_before t ev" and room: "length (om_recent m) + finishes [ev] \<le> max_replay_entries"
  shows "remembered key t (fst (system_step (m, ls) ev)) \<and>
    length (om_recent (fst (system_step (m, ls) ev))) \<le> length (om_recent m) + finishes [ev]"
proof (cases ev)
  case (Acquire now k)
  have len: "length (om_recent m) \<le> max_replay_entries" and kr: "keyed_replays (om_recent m)"
    using inv by (simp_all add: sessions_inv_def)
  have "om_recent (fst (acquire now k m)) = prune_replays now (om_recent m)"
    by (cases rule: acquire_cases [of now m k]) simp_all
  moreover have "now \<le> t" using before Acquire by simp
  ultimately show ?thesis
    using remembered_prune [OF kr len rem] length_prune_small [OF len] Acquire
    by (simp add: remembered_def split_def Let_def)
next
  case (Finish i now1 now2 err)
  show ?thesis
  proof (cases "i < length ls")
    case True
    show ?thesis
    proof (cases rule: finish_cases [of now1 now2 err "ls ! i" m])
      case (close s m1)
      let ?k = "sl_key (ls ! i)"
      let ?r = "AList.update ?k \<lparr>or_expires = now1 + om_window m, or_err = None\<rparr> (om_recent m)"
      have si: "sessions_inv m" and ok: "lease_ok m (ls ! i)"
        using inv True by (simp_all add: list_all_length)
      have fresh: "?k \<notin> fst ` set (om_recent m)"
      proof
        assume "?k \<in> fst ` set (om_recent m)"
        moreover have "?k \<in> fst ` set (om_active m)" using map_of_SomeD [OF close(3)] by force
        ultimately show False using si unfolding sessions_inv_def by (meson disjoint_iff)
      qed
      then have "map_of (om_recent m) ?k = None" by (simp add: map_of_eq_None_iff)
      with rem have "?k \<noteq> key" by (auto simp: remembered_def)
      then have rem': "remembered key t (m1\<lparr>om_recent := ?r\<rparr>)"
        using rem by (auto simp: remembered_def AList.update_conv')
      have len: "length ?r \<le> max_replay_entries" "length ?r \<le> Suc (length (om_recent m))"
        using room Finish by (simp_all add: length_alist_update)
      have kr: "keyed_replays ?r"
        using si ok by (intro keyed_replays_update) (simp_all add: sessions_inv_def lease_ok_def)
      have "now2 \<le> t" using before Finish by simp
      with remembered_prune [of "m1\<lparr>om_recent := ?r\<rparr>", OF _ _ rem'] kr len
        length_prune_small [OF len(1), of now2] close(5,6) Finish True rem
      show ?thesis by (cases err) (simp_all add: remembered_def)
    qed (use Finish True rem in simp)
  qed (use Finish rem in simp)
qed

lemma remembered_run:
  assumes "system_inv st" "list_all keyed_event es" "remembered key t (fst st)" "list_all (event_before t) es"
    and "length (om_recent (fst st)) + finishes es \<le> max_replay_entries"
  shows "remembered key t (fst (foldl system_step st es)) \<and>
    length (om_recent (fst (foldl system_step st es))) \<le> max_replay_entries"
  using assms
proof (induction es arbitrary: st)
  case (Cons ev es)
  obtain m ls where st: "st = (m, ls)" by fastforce
  have f: "finishes (ev # es) = finishes [ev] + finishes es" by (cases ev) simp_all
  have step: "remembered key t (fst (system_step st ev))"
    "length (om_recent (fst (system_step st ev))) \<le> length (om_recent (fst st)) + finishes [ev]"
    using remembered_step [of m ls key t ev] Cons.prems f st by simp_all
  have "system_inv (system_step st ev)" using system_step_inv [of st ev] Cons.prems(1,2) by simp
  with Cons.IH [of "system_step st ev"] Cons.prems step f show ?case by simp
qed simp

text \<open>
  A completed sign-in is not opened again within its replay window: after the owner finishes
  successfully, every identical request up to the end of the window is answered as a completed
  replay, whatever other requests come and go in between - as long as the completions remembered
  stay within the 256 the manager keeps.\<close>

theorem replay_after_success:
  assumes "list_all keyed_event es" "session_run es = (m, ls)"
    and "i < length ls" "sl_owner (ls ! i)" "lease_open m (ls ! i)"
    and "now2 \<le> now1 + om_window m" "list_all keyed_event later"
    and "list_all (event_before (now1 + om_window m)) later"
    and "length (om_recent m) + Suc (finishes later) \<le> 256" "now \<le> now1 + om_window m"
  shows "let (m', ls') = foldl system_step (m, ls) (Finish i now1 now2 None # later);
             (m'', l) = acquire now (sl_key (ls ! i)) m'
    in sl_replay l \<and> \<not> sl_owner l \<and> lease_wait ctx_done prefer_ctx l m'' = Completed"
proof -
  let ?key = "sl_key (ls ! i)" and ?t = "now1 + om_window m"
  have inv: "system_inv (m, ls)" using session_run_inv [OF assms(1)] assms(2) by simp
  obtain s where s: "sl_session (ls ! i) = Some s" "\<not> os_closed (om_heap m ! s)"
    using assms(5) by (auto simp: lease_open_def split: option.splits)
  have ok: "lease_ok m (ls ! i)" using inv assms(3) by (simp add: list_all_length)
  then have a: "map_of (om_active m) ?key = Some s" using s by (simp add: lease_ok_def)
  define r where "r = AList.update ?key \<lparr>or_expires = ?t, or_err = None\<rparr> (om_recent m)"
  define st1 where "st1 = system_step (m, ls) (Finish i now1 now2 None)"
  have rec: "om_recent (fst st1) = prune_replays now2 r"
    using a s assms(3,4) by (simp add: st1_def finish_def Let_def r_def)
  have len: "length r \<le> Suc (length (om_recent m))" by (simp add: r_def length_alist_update)
  have small: "length r \<le> max_replay_entries" using len assms(9) by (simp add: max_replay_entries_def)
  have kr: "keyed_replays r"
    using inv ok by (simp add: r_def keyed_replays_update sessions_inv_def lease_ok_def)
  have "map_of r ?key = Some \<lparr>or_expires = ?t, or_err = None\<rparr>" by (simp add: r_def AList.update_conv')
  then have "remembered ?key ?t (fst st1)"
    using map_of_prune_small [OF kr small] assms(6) rec by (simp add: remembered_def)
  moreover have inv1: "system_inv st1" unfolding st1_def by (rule system_step_inv [OF inv]) simp
  moreover have "length (om_recent (fst st1)) + finishes later \<le> max_replay_entries"
    using length_prune_small [OF small, of now2] len assms(9) rec by (simp add: max_replay_entries_def)
  ultimately have fin: "remembered ?key ?t (fst (foldl system_step st1 later))"
    "length (om_recent (fst (foldl system_step st1 later))) \<le> max_replay_entries"
    using remembered_run [OF _ assms(7) _ assms(8)] by blast+
  obtain m' ls' where e: "foldl system_step st1 later = (m', ls')" by fastforce
  have "system_inv (m', ls')"
    using sign_in_system.allowed_run_inv [OF inv1 assms(7)] e by simp
  then have "keyed_replays (om_recent m')" by (simp add: sessions_inv_def)
  then have "remembered ?key ?t (m'\<lparr>om_recent := prune_replays now (om_recent m')\<rparr>)"
    using remembered_prune fin e assms(10) by simp
  then obtain q where q: "map_of (prune_replays now (om_recent m')) ?key = Some q" "or_err q = None"
    by (auto simp: remembered_def)
  then have acq: "acquire now ?key m' = (m'\<lparr>om_recent := prune_replays now (om_recent m')\<rparr>,
      (no_lease ?key)\<lparr>sl_replay := True\<rparr>)"
    by (simp add: acquire_def no_lease_def)
  have "foldl system_step (m, ls) (Finish i now1 now2 None # later) = (m', ls')"
    using e by (simp add: st1_def)
  with acq show ?thesis
    by (simp add: Let_def del: foldl_Cons) (simp add: no_lease_def lease_wait_def)
qed

theorem replay_after_success_witness:
  "let (m, ls) = session_run demo_session_events;
       (m', ls') = foldl system_step (m, ls) [Finish 0 5 6 None, Acquire 7 ''x''];
       (m'', l) = acquire 1000 ''k'' m'
   in sl_replay l \<and> \<not> sl_owner l \<and> lease_wait False False l m'' = Completed"
proof -
  let ?m = "fst (session_run demo_session_events)" and ?ls = "snd (session_run demo_session_events)"
  have k: "list_all keyed_event demo_session_events" by (simp add: demo_session_events_def)
  have r: "session_run demo_session_events = (?m, ?ls)" by simp
  have h: "0 < length ?ls" "sl_owner (?ls ! 0)" "lease_open ?m (?ls ! 0)"
    by (simp_all add: demo_session_run demo_owner_lease_def lease_open_def)
  have w: "om_window ?m = 120000000000" "length (om_recent ?m) = 0" "sl_key (?ls ! 0) = ''k''"
    by (simp_all add: demo_session_run default_replay_window_def demo_owner_lease_def)
  from replay_after_success [OF k r h, of 6 5 "[Acquire 7 ''x'']" 1000 False False]
  show ?thesis by (simp add: split_def Let_def w del: system_step.simps)
qed

end
