(* ===== verification/A_Side.thy ===== *)
theory A_Side
  imports Callback_Guard Session_Registry OAuth_Sessions
begin

text \<open>
  The A-side of a sign-in, \<open>ASide.Run\<close> with its callback handler (internal/bridge/aside.go): the
  machine with the browser. A session is a state machine over what reaches it: frames from the
  B-side, requests at its callback listener, the end of its context, and the steps of other sessions
  on the shared registry and coordinator.
\<close>

section \<open>State\<close>

datatype bind_error = BindForbidden | BindInUse

text \<open>\<open>bindListenErrorText\<close>: whether the text blames the policy of the system or another process.\<close>

definition bind_listen_error_text :: "bind_error \<Rightarrow> int \<Rightarrow> string" where
  "bind_listen_error_text e port =
     (case e of
        BindForbidden \<Rightarrow> ''callback port '' @ int_text port @ '' cannot be bound on this machine (OS policy forbids it; '' @
          ''on Windows see `netsh interface ipv4 show excludedportrange`). The login cannot proceed for an app '' @
          ''pinned to this port''
      | BindInUse \<Rightarrow> ''callback port '' @ int_text port @ '' is in use on this machine'')"

datatype aside_error =
    AReceive | ABadHeartbeat | ASend | AUnexpectedType | ABadRequest | ABadRequestId | AUrlTooLong
  | AFlowTooLong | ATooManySignIns | AInvalidUrl url_error | ABadPort | ATooManySessions
  | ADuplicateFailed | ABind | ANoPort | ACancelled | ATimeout | AContext | AServe | ABody
  | ABadComplete | ACompleteMismatch | ACompleteFailed string

datatype aside_phase = ARequest | AWaitOwner | ACallback | AComplete | ADone "aside_error option"

datatype sent_frame = SentAck bridge_ack | SentRelay callback_relay | SentHeartbeat string

text \<open>A frame that arrives: its message type, and its payload decoded (\<open>None\<close> if that fails).\<close>

datatype aside_frame =
    FrameHeartbeat "string option"
  | FrameRequest "bridge_request option"
  | FrameComplete "bridge_complete option"
  | FrameOther

text \<open>
  Fixed during a session: the URL library and hash, the peer's identity and address, whether the
  listener can be bound (and to which port), whether a browser is opened, which sends fail
  (by the number of frames sent before), and the texts of the errors that wrap those of the library.
\<close>

record aside_env =
  ae_net :: net_lib
  ae_sha :: "string \<Rightarrow> string"
  ae_peer :: string
  ae_remote :: "string option"
  ae_bind :: "int \<Rightarrow> bind_error + int"
  ae_opens_browser :: bool
  ae_send_fails :: "nat \<Rightarrow> bool"
  ae_error_text :: "aside_error \<Rightarrow> string"
  ae_context_text :: string

record aside_state =
  a_phase :: aside_phase
  a_req :: "bridge_request option"
  a_sent :: "sent_frame list"
  a_registry :: registry
  a_registered :: bool
  a_system :: session_system
  a_lease :: "nat option"
  a_listening :: "int option"
  a_opened :: "string list"
  a_captured :: bool
  a_completion :: "bool option"
  a_pages :: "rejection_kind list"
  a_body_errors :: nat

definition aside_start :: "registry \<Rightarrow> session_system \<Rightarrow> aside_state" where
  "aside_start reg sys =
     \<lparr>a_phase = ARequest, a_req = None, a_sent = [], a_registry = reg, a_registered = False,
      a_system = sys, a_lease = None, a_listening = None, a_opened = [], a_captured = False,
      a_completion = None, a_pages = [], a_body_errors = 0\<rparr>"

section \<open>Steps\<close>

text \<open>\<open>conn.Send\<close>: the new state and whether the frame went out.\<close>

definition a_send :: "aside_env \<Rightarrow> sent_frame \<Rightarrow> aside_state \<Rightarrow> aside_state \<times> bool" where
  "a_send env f s =
     (if ae_send_fails env (length (a_sent s)) then (s, False) else (s\<lparr>a_sent := a_sent s @ [f]\<rparr>, True))"

text \<open>\<open>signalCompletion\<close>: the channel holds one result; a later one is dropped.\<close>

definition signal_completion :: "bool \<Rightarrow> aside_state \<Rightarrow> aside_state" where
  "signal_completion ok s = (case a_completion s of None \<Rightarrow> s\<lparr>a_completion := Some ok\<rparr> | Some _ \<Rightarrow> s)"

text \<open>The texts of the errors the acknowledgements name.\<close>

definition url_error_text :: "net_lib \<Rightarrow> string \<Rightarrow> url_error \<Rightarrow> string" where
  "url_error_text nl raw e =
     (case e of
        EmptyURL \<Rightarrow> ''url cannot be empty''
      | InvalidURL \<Rightarrow> ''invalid url''
      | InvalidScheme \<Rightarrow> ''url scheme must be http or https: got '' @ [CHR 0x22] @
          (case nl_parse nl (trim_space raw) of None \<Rightarrow> '''' | Some u \<Rightarrow> ur_scheme u) @ [CHR 0x22]
      | MissingHost \<Rightarrow> ''url must have a host'')"

definition wait_error_text :: "aside_env \<Rightarrow> wait_outcome \<Rightarrow> string" where
  "wait_error_text env outcome =
     (case outcome of
        ContextDone \<Rightarrow> ae_context_text env
      | NotCompleted (Some e) \<Rightarrow> e
      | NotCompleted None \<Rightarrow> ''OAuth session failed''
      | NoState \<Rightarrow> ''OAuth session has no completion state''
      | _ \<Rightarrow> '''')"

definition request_of :: "aside_state \<Rightarrow> bridge_request" where
  "request_of s = the (a_req s)"

text \<open>
  Returning from \<open>Run\<close>: the deferred calls close the listener, finish the lease with the result and
  remove the session from the registry.
\<close>

definition error_text_of :: "aside_env \<Rightarrow> aside_error option \<Rightarrow> go_error" where
  "error_text_of env e =
     (case e of None \<Rightarrow> None
      | Some err \<Rightarrow> Some (case err of ACompleteFailed msg \<Rightarrow> msg | _ \<Rightarrow> ae_error_text env err))"

definition aside_return :: "aside_env \<Rightarrow> go_time \<Rightarrow> aside_error option \<Rightarrow> aside_state \<Rightarrow> aside_state" where
  "aside_return env now res s =
     (let s1 = s\<lparr>a_listening := None\<rparr>;
          s2 = (case a_lease s1 of
             None \<Rightarrow> s1
           | Some i \<Rightarrow> s1\<lparr>a_system := system_step (a_system s1) (Finish i now now (error_text_of env res))\<rparr>);
          s3 = (if a_registered s2
             then s2\<lparr>a_registry := unregister (trim_space (rq_id (request_of s2))) (a_registry s2), a_registered := False\<rparr>
             else s2)
      in s3\<lparr>a_phase := ADone res\<rparr>)"

definition refuse_request :: "aside_env \<Rightarrow> go_time \<Rightarrow> string \<Rightarrow> aside_error \<Rightarrow> aside_state \<Rightarrow> aside_state" where
  "refuse_request env now text err s =
     aside_return env now (Some err) (fst (a_send env (SentAck \<lparr>ba_id = rq_id (request_of s), ba_port = 0,
       ba_error = text, ba_replay = False\<rparr>) s))"

text \<open>The checks before the session is registered.\<close>

definition request_refusal :: "bridge_request \<Rightarrow> (string \<times> aside_error) option" where
  "request_refusal rq =
     (if \<not> valid_bridge_request_id (rq_id rq) then Some (''invalid or missing bridge request ID'', ABadRequestId)
      else if max_oauth_url_length < length (rq_url rq)
        then Some (''OAuth authorization URL exceeds the maximum supported length'', AUrlTooLong)
      else if max_flow_id_length < length (rq_flow_id rq)
        then Some (''OAuth flow ID exceeds the maximum supported length'', AFlowTooLong)
      else None)"

definition session_info_of :: "aside_env \<Rightarrow> bridge_request \<Rightarrow> session_info" where
  "session_info_of env rq =
     \<lparr>si_request_id = rq_id rq, si_flow_id = trim_space (rq_flow_id rq), si_callback_port = rq_callback_port rq,
      si_peer = ae_peer env, si_state = state_waiting_browser, si_started_at = 0, si_age = 0, si_age_seconds = 0\<rparr>"

text \<open>The owner of a session: earlier sign-ins on the port are released, the listener is bound.\<close>

definition start_listening :: "aside_env \<Rightarrow> go_time \<Rightarrow> aside_state \<Rightarrow> aside_state" where
  "start_listening env now s =
     (let rq = request_of s;
          s1 = s\<lparr>a_registry := fst (cancel_on_port (rq_callback_port rq) (ae_peer env) (rq_id rq) (a_registry s))\<rparr>
      in case ae_bind env (rq_callback_port rq) of
           Inl e \<Rightarrow> refuse_request env now (bind_listen_error_text e (rq_callback_port rq)) ABind s1
         | Inr port \<Rightarrow>
             let s2 = s1\<lparr>a_listening := Some port\<rparr>
             in if port = 0 then aside_return env now (Some ANoPort) s2
                else (case a_send env (SentAck \<lparr>ba_id = rq_id rq, ba_port = port, ba_error = '''', ba_replay = False\<rparr>) s2 of
                  (s3, False) \<Rightarrow> aside_return env now (Some ASend) s3
                | (s3, True) \<Rightarrow>
                    (if ae_opens_browser env
                     then s3\<lparr>a_registry := set_state now (rq_id rq) ''waiting_for_callback'' (a_registry s3),
                             a_opened := a_opened s3 @ [rq_url rq], a_phase := ACallback\<rparr>
                     else s3\<lparr>a_phase := ACallback\<rparr>)))"

definition start_session :: "aside_env \<Rightarrow> go_time \<Rightarrow> aside_state \<Rightarrow> aside_state" where
  "start_session env now s0 =
     (let rq0 = request_of s0; rq = rq0\<lparr>rq_url := sanitize_url (ae_net env) (rq_url rq0)\<rparr>; s = s0\<lparr>a_req := Some rq\<rparr>
      in case validate_url (ae_net env) (rq_url rq) of
           Some e \<Rightarrow> refuse_request env now (''invalid url: '' @ url_error_text (ae_net env) (rq_url rq) e) (AInvalidUrl e) s
         | None \<Rightarrow>
             if rq_callback_port rq < 0 \<or> 65535 < rq_callback_port rq
             then refuse_request env now (''invalid callback port '' @ int_text (rq_callback_port rq)) ABadPort s
             else
               let key = oauth_session_key (ae_net env) (ae_sha env) (ae_peer env) (ae_remote env) rq;
                   i = length (snd (a_system s));
                   s1 = s\<lparr>a_system := system_step (a_system s) (Acquire now key), a_lease := Some i\<rparr>;
                   lease = snd (a_system s1) ! i
               in if sl_refused lease then refuse_request env now ''too many active OAuth sessions'' ATooManySessions s1
                  else if \<not> sl_owner lease then s1\<lparr>a_phase := AWaitOwner\<rparr>
                  else start_listening env now s1)"

definition on_request :: "aside_env \<Rightarrow> go_time \<Rightarrow> bridge_request \<Rightarrow> aside_state \<Rightarrow> aside_state" where
  "on_request env now rq s0 =
     (let s = s0\<lparr>a_req := Some rq\<rparr>
      in case request_refusal rq of
           Some (text, err) \<Rightarrow> refuse_request env now text err s
         | None \<Rightarrow>
             (case register now (session_info_of env rq) (a_registry s) of
                (reg, Inl e) \<Rightarrow>
                  refuse_request env now
                    ''too many sign-ins are already open on this machine; close one and retry'' ATooManySignIns s
              | (reg, Inr sid) \<Rightarrow> start_session env now (s\<lparr>a_registry := reg, a_registered := True\<rparr>)))"

text \<open>Answering a heartbeat; \<open>fail\<close> is what the loop does on an error.\<close>

definition on_heartbeat ::
  "aside_env \<Rightarrow> (aside_error \<Rightarrow> aside_state \<Rightarrow> aside_state) \<Rightarrow> string option \<Rightarrow> aside_state \<Rightarrow> aside_state" where
  "on_heartbeat env fail hb s =
     (case hb of
        None \<Rightarrow> fail ABadHeartbeat s
      | Some rid \<Rightarrow> (case a_send env (SentHeartbeat rid) s of (s1, True) \<Rightarrow> s1 | (s1, False) \<Rightarrow> fail ASend s1))"

definition fail_completion :: "aside_env \<Rightarrow> go_time \<Rightarrow> aside_error \<Rightarrow> aside_state \<Rightarrow> aside_state" where
  "fail_completion env now err s = aside_return env now (Some err) (signal_completion False s)"

definition on_complete :: "aside_env \<Rightarrow> go_time \<Rightarrow> bridge_complete option \<Rightarrow> aside_state \<Rightarrow> aside_state" where
  "on_complete env now reply s =
     (case reply of
        None \<Rightarrow> fail_completion env now ABadComplete s
      | Some c \<Rightarrow>
          if bc_id c \<noteq> rq_id (request_of s) then fail_completion env now ACompleteMismatch s
          else if \<not> bc_success c then
            fail_completion env now (ACompleteFailed
              (if bc_error c \<noteq> '''' then redact_bridge_message (ae_net env) (bc_error c)
               else ''bridge completion reported failure'')) s
          else aside_return env now None (signal_completion True s))"

text \<open>
  The callback handler: the request, and whether its body could be read. A body that cannot be used
  ends a session that is still waiting; afterwards the channel holds one such error, and a further
  handler stays blocked on it, before its page is written.
\<close>

definition on_callback :: "aside_env \<Rightarrow> go_time \<Rightarrow> http_request \<Rightarrow> bool \<Rightarrow> aside_state \<Rightarrow> aside_state" where
  "on_callback env now r body_ok s =
     (let rq = request_of s; expected = callback_expectation (ae_net env) (rq_url rq);
          page = (\<lambda>k st. st\<lparr>a_pages := a_pages st @ [k]\<rparr>);
          broken = (\<lambda>k.
            if a_phase s = ACallback then fail_completion env now ABody (page k s)
            else if a_body_errors s = 0 then page k (s\<lparr>a_body_errors := 1\<rparr>)
            else s)
      in case validate_callback_request (ae_net env) r (expected\<lparr>ex_state := ''''\<rparr>) of
           Some k \<Rightarrow> page k s
         | None \<Rightarrow>
             if \<not> body_ok then broken RejectBodyUnreadable
             else if 1048576 < length (hr_body r) then broken RejectBodyTooLarge
             else (case validate_callback_request_state (ae_net env) r expected (form_state_of (ae_net env) r) of
               Some k \<Rightarrow> page k s
             | None \<Rightarrow>
                 if a_captured s then page RejectDuplicate s
                 else
                   let s1 = s\<lparr>a_captured := True\<rparr>
                   in (case a_send env (SentRelay (relay_of_request (rq_id rq) r)) s1 of
                     (s2, False) \<Rightarrow> fail_completion env now ASend s2
                   | (s2, True) \<Rightarrow>
                       s2\<lparr>a_registry := set_state now (rq_id rq) ''completing'' (a_registry s2), a_phase := AComplete\<rparr>)))"

datatype context_end = UserCancelled | DeadlineExceeded | ParentDone

datatype aside_event =
    Frame go_time aside_frame
  | ReceiveFailed go_time
  | Callback go_time http_request bool
  | ContextEnd go_time context_end
  | ServeFailed go_time
  | Waiter go_time bool bool
  | OtherRegistry registry_event
  | OtherSession session_event

definition on_context_end :: "aside_env \<Rightarrow> go_time \<Rightarrow> context_end \<Rightarrow> aside_state \<Rightarrow> aside_state" where
  "on_context_end env now cause s =
     (case a_phase s of
        ACallback \<Rightarrow>
          fail_completion env now
            (case cause of UserCancelled \<Rightarrow> ACancelled | DeadlineExceeded \<Rightarrow> ATimeout | ParentDone \<Rightarrow> AContext) s
      | AComplete \<Rightarrow> fail_completion env now AReceive s
      | ARequest \<Rightarrow> aside_return env now (Some AReceive) s
      | _ \<Rightarrow> s)"

text \<open>A duplicate whose owner has an outcome, or whose own context is done.\<close>

definition on_owner_outcome :: "aside_env \<Rightarrow> go_time \<Rightarrow> wait_outcome \<Rightarrow> aside_state \<Rightarrow> aside_state" where
  "on_owner_outcome env now outcome s =
     (case outcome of
        Blocked \<Rightarrow> s
      | Completed \<Rightarrow>
          (case a_send env (SentAck \<lparr>ba_id = rq_id (request_of s), ba_port = 0, ba_error = '''', ba_replay = True\<rparr>) s of
             (s1, True) \<Rightarrow> aside_return env now None s1
           | (s1, False) \<Rightarrow> aside_return env now (Some ASend) s1)
      | _ \<Rightarrow>
          refuse_request env now (''duplicate OAuth request did not complete: '' @ wait_error_text env outcome) ADuplicateFailed s)"

fun aside_step :: "aside_env \<Rightarrow> aside_state \<Rightarrow> aside_event \<Rightarrow> aside_state" where
  "aside_step env s (Frame now f) =
     (case a_phase s of
        ARequest \<Rightarrow>
          (case f of
             FrameHeartbeat hb \<Rightarrow> on_heartbeat env (\<lambda>e. aside_return env now (Some e)) hb s
           | FrameRequest None \<Rightarrow> aside_return env now (Some ABadRequest) s
           | FrameRequest (Some rq) \<Rightarrow> on_request env now rq s
           | _ \<Rightarrow> aside_return env now (Some AUnexpectedType) s)
      | AComplete \<Rightarrow>
          (case f of
             FrameHeartbeat hb \<Rightarrow> on_heartbeat env (fail_completion env now) hb s
           | FrameComplete c \<Rightarrow> on_complete env now c s
           | _ \<Rightarrow> fail_completion env now AUnexpectedType s)
      | _ \<Rightarrow> s)"
| "aside_step env s (ReceiveFailed now) =
     (case a_phase s of
        ARequest \<Rightarrow> aside_return env now (Some AReceive) s
      | AComplete \<Rightarrow> fail_completion env now AReceive s
      | _ \<Rightarrow> s)"
| "aside_step env s (Callback now r body_ok) =
     (if a_listening s \<noteq> None \<and> (a_phase s = ACallback \<or> a_phase s = AComplete)
      then on_callback env now r body_ok s else s)"
| "aside_step env s (ContextEnd now cause) = on_context_end env now cause s"
| "aside_step env s (ServeFailed now) = (if a_phase s = ACallback then fail_completion env now AServe s else s)"
| "aside_step env s (Waiter now ctx_done prefer_ctx) =
     (case (a_phase s, a_lease s) of
        (AWaitOwner, Some i) \<Rightarrow>
          on_owner_outcome env now
            (lease_wait ctx_done prefer_ctx (snd (a_system s) ! i) (fst (a_system s))) s
      | _ \<Rightarrow> s)"
| "aside_step env s (OtherRegistry ev) = s\<lparr>a_registry := registry_step (a_registry s) ev\<rparr>"
| "aside_step env s (OtherSession ev) =
     (case ev of
        Finish j _ _ _ \<Rightarrow> if Some j = a_lease s then s else s\<lparr>a_system := system_step (a_system s) ev\<rparr>
      | Acquire _ _ \<Rightarrow> s\<lparr>a_system := system_step (a_system s) ev\<rparr>)"

section \<open>What a session sends\<close>

fun is_relay :: "sent_frame \<Rightarrow> bool" where
  "is_relay (SentRelay r) \<longleftrightarrow> True"
| "is_relay _ \<longleftrightarrow> False"

definition accepted_callback :: "aside_env \<Rightarrow> bridge_request \<Rightarrow> http_request \<Rightarrow> bool" where
  "accepted_callback env rq r \<longleftrightarrow>
     length (hr_body r) \<le> 1048576 \<and>
     validate_callback_request_state (ae_net env) r (callback_expectation (ae_net env) (rq_url rq))
       (form_state_of (ae_net env) r) = None"

definition port_ack :: "bridge_request \<Rightarrow> int \<Rightarrow> sent_frame" where
  "port_ack rq port = SentAck \<lparr>ba_id = rq_id rq, ba_port = port, ba_error = '''', ba_replay = False\<rparr>"

definition replay_ack :: "bridge_request \<Rightarrow> sent_frame" where
  "replay_ack rq = SentAck \<lparr>ba_id = rq_id rq, ba_port = 0, ba_error = '''', ba_replay = True\<rparr>"

text \<open>The frames hold no relay, or one: after the acknowledgement of the port, of an accepted callback.\<close>

definition no_relay :: "sent_frame list \<Rightarrow> bool" where
  "no_relay fs \<longleftrightarrow> list_all (\<lambda>f. \<not> is_relay f) fs"

definition one_relay :: "aside_env \<Rightarrow> bridge_request \<Rightarrow> sent_frame list \<Rightarrow> bool" where
  "one_relay env rq fs \<longleftrightarrow>
     (\<exists>pre r post port. fs = pre @ SentRelay (relay_of_request (rq_id rq) r) # post \<and> no_relay pre \<and> no_relay post \<and>
        port \<noteq> 0 \<and> port_ack rq port \<in> set pre \<and> accepted_callback env rq r)"

definition aside_inv :: "aside_env \<Rightarrow> aside_state \<Rightarrow> bool" where
  "aside_inv env s \<longleftrightarrow>
     (case a_phase s of
        ACallback \<Rightarrow> no_relay (a_sent s) \<and> \<not> a_captured s \<and> (\<exists>port. port \<noteq> 0 \<and> port_ack (request_of s) port \<in> set (a_sent s))
      | AComplete \<Rightarrow> one_relay env (request_of s) (a_sent s) \<and> a_captured s
      | ADone res \<Rightarrow>
          (no_relay (a_sent s) \<or> one_relay env (request_of s) (a_sent s)) \<and>
          (res = None \<longrightarrow> one_relay env (request_of s) (a_sent s) \<or> replay_ack (request_of s) \<in> set (a_sent s)) \<and>
          a_listening s = None \<and> \<not> a_registered s
      | _ \<Rightarrow> no_relay (a_sent s) \<and> \<not> a_captured s \<and> a_listening s = None)"

lemma no_relay_append [simp]: "no_relay (fs @ gs) \<longleftrightarrow> no_relay fs \<and> no_relay gs"
  by (simp add: no_relay_def)

lemma no_relay_simps [simp]:
  "no_relay []" "no_relay (SentAck a # fs) \<longleftrightarrow> no_relay fs" "no_relay (SentHeartbeat h # fs) \<longleftrightarrow> no_relay fs"
  by (simp_all add: no_relay_def)

lemma one_relay_append: "one_relay env rq fs \<Longrightarrow> no_relay gs \<Longrightarrow> one_relay env rq (fs @ gs)"
  by (fastforce simp: one_relay_def)

lemma aside_return_simps [simp]:
  "a_sent (aside_return env now res s) = a_sent s" "a_req (aside_return env now res s) = a_req s"
  "request_of (aside_return env now res s) = request_of s"
  "a_phase (aside_return env now res s) = ADone res" "a_listening (aside_return env now res s) = None"
  "a_registered (aside_return env now res s) = False"
  by (simp_all add: aside_return_def Let_def request_of_def split: option.splits)

lemma signal_completion_simps [simp]:
  "a_sent (signal_completion ok s) = a_sent s" "a_req (signal_completion ok s) = a_req s"
  "request_of (signal_completion ok s) = request_of s" "a_phase (signal_completion ok s) = a_phase s"
  "a_lease (signal_completion ok s) = a_lease s" "a_registered (signal_completion ok s) = a_registered s"
  "a_registry (signal_completion ok s) = a_registry s" "a_system (signal_completion ok s) = a_system s"
  by (simp_all add: signal_completion_def request_of_def split: option.splits)

lemma a_send_cases:
  obtains "a_send env f s = (s, False)" | "a_send env f s = (s\<lparr>a_sent := a_sent s @ [f]\<rparr>, True)"
  by (cases "ae_send_fails env (length (a_sent s))") (simp_all add: a_send_def)

lemma aside_inv_return:
  "no_relay (a_sent s) \<or> one_relay env (request_of s) (a_sent s) \<Longrightarrow>
   (res = None \<Longrightarrow> one_relay env (request_of s) (a_sent s) \<or> replay_ack (request_of s) \<in> set (a_sent s)) \<Longrightarrow>
   aside_inv env (aside_return env now res s)"
  by (simp add: aside_inv_def)

lemma aside_inv_fail:
  "no_relay (a_sent s) \<or> one_relay env (request_of s) (a_sent s) \<Longrightarrow> aside_inv env (fail_completion env now err s)"
  unfolding fail_completion_def by (rule aside_inv_return) simp_all

lemma aside_inv_refuse:
  "no_relay (a_sent s) \<Longrightarrow> aside_inv env (refuse_request env now text err s)"
  unfolding refuse_request_def
  by (rule aside_inv_return) (auto simp: a_send_def request_of_def)

lemma request_of_upd [simp]: "request_of (s\<lparr>a_sent := x\<rparr>) = request_of s" "request_of (s\<lparr>a_registry := r\<rparr>) = request_of s"
  "request_of (s\<lparr>a_captured := c\<rparr>) = request_of s" "request_of (s\<lparr>a_phase := p\<rparr>) = request_of s"
  "request_of (s\<lparr>a_listening := l\<rparr>) = request_of s" "request_of (s\<lparr>a_pages := g\<rparr>) = request_of s"
  "request_of (s\<lparr>a_opened := o'\<rparr>) = request_of s" "request_of (s\<lparr>a_system := y\<rparr>) = request_of s"
  "request_of (s\<lparr>a_body_errors := n\<rparr>) = request_of s" "request_of (s\<lparr>a_req := Some rq\<rparr>) = rq"
  "request_of (s\<lparr>a_lease := ls\<rparr>) = request_of s" "request_of (s\<lparr>a_registered := b\<rparr>) = request_of s"
  by (simp_all add: request_of_def)

lemma start_listening_inv:
  assumes "no_relay (a_sent s)" "\<not> a_captured s"
  shows "aside_inv env (start_listening env now s)"
proof (cases "ae_bind env (rq_callback_port (request_of s))")
  case (Inl e)
  then show ?thesis using assms by (simp add: start_listening_def Let_def aside_inv_refuse)
next
  case (Inr port)
  let ?s1 = "s\<lparr>a_registry := fst (cancel_on_port (rq_callback_port (request_of s)) (ae_peer env) (rq_id (request_of s)) (a_registry s)),
    a_listening := Some port\<rparr>"
  show ?thesis
  proof (cases "port = 0")
    case True
    then show ?thesis using Inr assms by (auto simp: start_listening_def Let_def intro!: aside_inv_return)
  next
    case False
    note p = False
    show ?thesis
    proof (cases rule: a_send_cases [of env "port_ack (request_of s) port" ?s1])
      case 1
      then have "start_listening env now s = aside_return env now (Some ASend) ?s1"
        using Inr p by (simp add: start_listening_def Let_def port_ack_def)
      then show ?thesis using assms by (auto intro!: aside_inv_return)
    next
      case 2
      then have "a_sent (start_listening env now s) = a_sent s @ [port_ack (request_of s) port] \<and>
          a_phase (start_listening env now s) = ACallback \<and> a_captured (start_listening env now s) = a_captured s \<and>
          request_of (start_listening env now s) = request_of s"
        using Inr p by (simp add: start_listening_def Let_def port_ack_def)
      then show ?thesis using assms p by (auto simp: aside_inv_def port_ack_def)
    qed
  qed
qed

lemma start_session_inv:
  assumes "no_relay (a_sent s)" "\<not> a_captured s" "a_listening s = None"
  shows "aside_inv env (start_session env now s)"
proof -
  have w: "aside_inv env (s'\<lparr>a_phase := AWaitOwner\<rparr>)"
    if "no_relay (a_sent s')" "\<not> a_captured s'" "a_listening s' = None" for s'
    using that by (simp add: aside_inv_def)
  show ?thesis
    unfolding start_session_def Let_def
    using assms
    by (auto intro!: aside_inv_refuse start_listening_inv w split: option.split simp del: system_step.simps)
qed

lemma on_request_inv:
  assumes "no_relay (a_sent s)" "\<not> a_captured s" "a_listening s = None"
  shows "aside_inv env (on_request env now rq s)"
  unfolding on_request_def Let_def
  using assms by (auto intro!: aside_inv_refuse start_session_inv split: option.split prod.split sum.split)

lemma aside_inv_relays:
  "aside_inv env s \<Longrightarrow> no_relay (a_sent s) \<or> one_relay env (request_of s) (a_sent s)"
  by (auto simp: aside_inv_def split: aside_phase.splits)

text \<open>A step that only writes a page, an error count or the shared objects.\<close>

lemma aside_inv_cong:
  "aside_inv env s \<Longrightarrow> a_phase s' = a_phase s \<Longrightarrow> a_sent s' = a_sent s \<Longrightarrow> a_req s' = a_req s \<Longrightarrow>
   a_captured s' = a_captured s \<Longrightarrow> a_listening s' = a_listening s \<Longrightarrow> a_registered s' = a_registered s \<Longrightarrow>
   aside_inv env s'"
  by (cases "a_phase s") (simp_all add: aside_inv_def request_of_def)

lemma on_callback_inv:
  assumes inv: "aside_inv env s" and ph: "a_phase s = ACallback \<or> a_phase s = AComplete"
  shows "aside_inv env (on_callback env now r body_ok s)"
proof -
  let ?rq = "request_of s"
  let ?ex = "callback_expectation (ae_net env) (rq_url ?rq)"
  note keep = aside_inv_relays [OF inv]
  have page: "aside_inv env (s\<lparr>a_pages := a_pages s @ [k]\<rparr>)" "aside_inv env (s\<lparr>a_body_errors := 1, a_pages := a_pages s @ [k]\<rparr>)" for k
    by (rule aside_inv_cong [OF inv]; simp)+
  have fail: "aside_inv env (fail_completion env now err (s\<lparr>a_pages := pg\<rparr>))" for err pg
    by (rule aside_inv_fail) (use keep in simp)
  show ?thesis
  proof (cases "validate_callback_request (ae_net env) r (?ex\<lparr>ex_state := ''''\<rparr>) = None \<and> body_ok \<and>
      length (hr_body r) \<le> 1048576 \<and>
      validate_callback_request_state (ae_net env) r ?ex (form_state_of (ae_net env) r) = None \<and> \<not> a_captured s")
    case True
    then have acc: "accepted_callback env ?rq r" by (simp add: accepted_callback_def)
    have cb: "a_phase s = ACallback" using True ph inv by (auto simp: aside_inv_def)
    with inv obtain port where p: "no_relay (a_sent s)" "port \<noteq> 0" "port_ack ?rq port \<in> set (a_sent s)"
      by (auto simp: aside_inv_def)
    show ?thesis
    proof (cases rule: a_send_cases [of env "SentRelay (relay_of_request (rq_id ?rq) r)" "s\<lparr>a_captured := True\<rparr>"])
      case 1
      have "on_callback env now r body_ok s = fail_completion env now ASend (s\<lparr>a_captured := True\<rparr>)"
        using 1 True by (simp add: on_callback_def Let_def)
      moreover have "aside_inv env (fail_completion env now ASend (s\<lparr>a_captured := True\<rparr>))"
        by (rule aside_inv_fail) (use p(1) in simp)
      ultimately show ?thesis by simp
    next
      case 2
      have "a_sent (on_callback env now r body_ok s) = a_sent s @ [SentRelay (relay_of_request (rq_id ?rq) r)] \<and>
          a_phase (on_callback env now r body_ok s) = AComplete \<and> a_captured (on_callback env now r body_ok s) \<and>
          request_of (on_callback env now r body_ok s) = ?rq"
        using 2 True by (simp add: on_callback_def Let_def)
      moreover have "one_relay env ?rq (a_sent s @ [SentRelay (relay_of_request (rq_id ?rq) r)])"
        unfolding one_relay_def using p acc
        by (intro exI [of _ "a_sent s"] exI [of _ r] exI [of _ "[]"] exI [of _ port]) simp
      ultimately show ?thesis by (simp add: aside_inv_def)
    qed
  next
    case False
    then show ?thesis
      unfolding on_callback_def Let_def
      using page fail inv by (auto split: option.split)
  qed
qed

lemma on_heartbeat_inv:
  assumes inv: "aside_inv env s" and fail: "\<And>e. aside_inv env (fail e s)"
    and ph: "a_phase s = ARequest \<or> a_phase s = AComplete"
  shows "aside_inv env (on_heartbeat env fail hb s)"
proof (cases hb)
  case (Some rid)
  show ?thesis
  proof (cases rule: a_send_cases [of env "SentHeartbeat rid" s])
    case 2
    then have "on_heartbeat env fail hb s = s\<lparr>a_sent := a_sent s @ [SentHeartbeat rid]\<rparr>"
      using Some by (simp add: on_heartbeat_def)
    with inv ph one_relay_append [of env "request_of s" "a_sent s" "[SentHeartbeat rid]"] show ?thesis
      by (auto simp: aside_inv_def)
  qed (use Some fail in \<open>simp add: on_heartbeat_def\<close>)
qed (use fail in \<open>simp add: on_heartbeat_def\<close>)

lemma on_complete_inv:
  assumes inv: "aside_inv env s" and ph: "a_phase s = AComplete"
  shows "aside_inv env (on_complete env now reply s)"
proof -
  have one: "one_relay env (request_of s) (a_sent s)" using inv ph by (simp add: aside_inv_def)
  have "aside_inv env (aside_return env now None (signal_completion True s))"
    by (rule aside_inv_return) (use one in simp_all)
  moreover have "aside_inv env (fail_completion env now err s)" for err
    by (rule aside_inv_fail) (use one in simp)
  ultimately show ?thesis by (auto simp: on_complete_def split: option.split)
qed

lemma on_owner_outcome_inv:
  assumes inv: "aside_inv env s" and ph: "a_phase s = AWaitOwner"
  shows "aside_inv env (on_owner_outcome env now outcome s)"
proof -
  have nr: "no_relay (a_sent s)" using inv ph by (simp add: aside_inv_def)
  have "aside_inv env (aside_return env now None (s\<lparr>a_sent := a_sent s @ [replay_ack (request_of s)]\<rparr>))"
    by (rule aside_inv_return) (use nr in \<open>simp_all add: replay_ack_def\<close>)
  moreover have "aside_inv env (aside_return env now (Some ASend) s)"
    by (rule aside_inv_return) (use nr in simp_all)
  ultimately show ?thesis
    using aside_inv_refuse [OF nr] inv
    by (cases rule: a_send_cases [of env "replay_ack (request_of s)" s])
      (auto simp: on_owner_outcome_def replay_ack_def split: wait_outcome.split)
qed

lemma aside_step_inv:
  assumes inv: "aside_inv env s"
  shows "aside_inv env (aside_step env s ev)"
proof -
  note keep = aside_inv_relays [OF inv]
  have ret: "aside_inv env (aside_return env now (Some err) s)" for now err
    by (rule aside_inv_return) (use keep in simp_all)
  have fail: "aside_inv env (fail_completion env now err s)" for now err
    by (rule aside_inv_fail [OF keep])
  have start: "no_relay (a_sent s) \<and> \<not> a_captured s \<and> a_listening s = None" if "a_phase s = ARequest"
    using inv that by (simp add: aside_inv_def)
  show ?thesis
  proof (cases ev)
    case (Frame now f)
    show ?thesis
    proof (cases "a_phase s")
      case ARequest
      then show ?thesis
        using Frame ret start on_request_inv on_heartbeat_inv [OF inv, of "\<lambda>e. aside_return env now (Some e)"]
        by (auto split: aside_frame.split option.split)
    next
      case AComplete
      then show ?thesis
        using Frame fail on_complete_inv [OF inv] on_heartbeat_inv [OF inv, of "fail_completion env now"]
        by (auto split: aside_frame.split)
    qed (use Frame inv in simp_all)
  next
    case (Callback now r body_ok)
    then show ?thesis using inv on_callback_inv [OF inv] by simp
  next
    case (ContextEnd now cause)
    then show ?thesis using inv ret fail by (auto simp: on_context_end_def split: aside_phase.split)
  next
    case (Waiter now ctx_done prefer_ctx)
    then show ?thesis using inv on_owner_outcome_inv [OF inv] by (auto split: aside_phase.split option.split)
  next
    case (OtherRegistry rev)
    show ?thesis unfolding OtherRegistry by (rule aside_inv_cong [OF inv]) simp_all
  next
    case (OtherSession sev)
    show ?thesis
      unfolding OtherSession
      by (rule aside_inv_cong [OF inv]; cases sev) (simp_all del: system_step.simps)
  qed (use inv ret fail in \<open>auto split: aside_phase.split\<close>)
qed

interpretation aside: stepper "aside_step env" "aside_inv env" for env
  by unfold_locales (rule aside_step_inv)

lemma aside_inv_start: "aside_inv env (aside_start reg sys)"
  by (simp add: aside_inv_def aside_start_def)

text \<open>Success has two sources.\<close>

definition confirms :: "string \<Rightarrow> aside_event \<Rightarrow> bool" where
  "confirms rid ev \<longleftrightarrow>
     (\<exists>now c. ev = Frame now (FrameComplete (Some c)) \<and> bc_id c = rid \<and> bc_success c)"

lemma phase_refuse [simp]: "a_phase (refuse_request env now text err s) = ADone (Some err)"
  by (simp add: refuse_request_def)

lemma phase_fail [simp]: "a_phase (fail_completion env now err s) = ADone (Some err)"
  by (simp add: fail_completion_def)

lemma start_listening_not_done: "a_phase (start_listening env now s) \<noteq> ADone None"
  by (auto simp: start_listening_def Let_def split: sum.split prod.split bool.split)

lemma start_session_not_done: "a_phase (start_session env now s) \<noteq> ADone None"
  using start_listening_not_done
  by (auto simp: start_session_def Let_def split: option.split simp del: system_step.simps)

lemma on_request_not_done: "a_phase (on_request env now rq s) \<noteq> ADone None"
  using start_session_not_done
  by (auto simp: on_request_def Let_def split: option.split prod.split sum.split)

lemma on_callback_not_done: "a_phase s \<noteq> ADone None \<Longrightarrow> a_phase (on_callback env now r body_ok s) \<noteq> ADone None"
  by (auto simp: on_callback_def Let_def split: option.split prod.split bool.split)

lemma on_heartbeat_not_done:
  "a_phase s \<noteq> ADone None \<Longrightarrow> (\<And>e s. a_phase (fail e s) \<noteq> ADone None) \<Longrightarrow> a_phase (on_heartbeat env fail hb s) \<noteq> ADone None"
  by (cases rule: a_send_cases [of env "SentHeartbeat (the hb)" s]) (auto simp: on_heartbeat_def split: option.split)

lemma success_step:
  assumes "a_phase (aside_step env s ev) = ADone None" "a_phase s \<noteq> ADone None"
  shows "confirms (rq_id (request_of (aside_step env s ev))) ev \<or>
    replay_ack (request_of (aside_step env s ev)) \<in> set (a_sent (aside_step env s ev))"
proof (cases ev)
  case (Frame now f)
  show ?thesis
  proof (cases "a_phase s")
    case ARequest
    with assms Frame on_request_not_done on_heartbeat_not_done [of s "\<lambda>e. aside_return env now (Some e)"]
    show ?thesis by (auto split: aside_frame.splits option.splits)
  next
    case AComplete
    then obtain c where "f = FrameComplete c"
      using assms Frame on_heartbeat_not_done [of s "fail_completion env now"] by (cases f) auto
    with assms AComplete Frame show ?thesis
      by (auto simp: confirms_def on_complete_def split: option.splits if_splits)
  qed (use assms Frame in simp_all)
next
  case (Callback now r body_ok)
  then show ?thesis using assms on_callback_not_done by (auto split: if_splits)
next
  case (ContextEnd now cause)
  then show ?thesis using assms by (auto simp: on_context_end_def split: aside_phase.splits)
next
  case (Waiter now ctx_done prefer_ctx)
  then show ?thesis
    using assms
    by (cases rule: a_send_cases [of env "replay_ack (request_of s)" s])
      (auto simp: on_owner_outcome_def replay_ack_def split: aside_phase.splits option.splits wait_outcome.splits)
next
  case (OtherSession sev)
  then show ?thesis using assms by (cases sev) (auto simp del: system_step.simps split: if_splits)
qed (use assms in \<open>auto split: aside_phase.splits\<close>)

lemma done_step:
  assumes "a_phase s = ADone res"
  shows "a_phase (aside_step env s ev) = ADone res \<and> request_of (aside_step env s ev) = request_of s \<and>
    a_sent (aside_step env s ev) = a_sent s"
  using assms
  by (cases ev) (auto simp: on_context_end_def request_of_def split: session_event.split simp del: system_step.simps)

lemma success_run:
  assumes "a_phase (foldl (aside_step env) s es) = ADone None" "a_phase s \<noteq> ADone None"
  shows "let t = foldl (aside_step env) s es
    in list_ex (confirms (rq_id (request_of t))) es \<or> replay_ack (request_of t) \<in> set (a_sent t)"
  using assms
proof (induction es rule: rev_induct)
  case (snoc ev es)
  let ?t = "foldl (aside_step env) s es"
  show ?case
  proof (cases "a_phase ?t = ADone None")
    case True
    with snoc done_step [OF True, of env ev] show ?thesis by (auto simp: Let_def)
  next
    case False
    with snoc.prems success_step [of env ?t ev] show ?thesis by (auto simp: Let_def)
  qed
qed simp

text \<open>
  C8. Whatever frames, browser requests, cancellations, timeouts and other sessions come in whatever
  order, a session of the A-side relays at most one callback; it relays one only after it told the
  B-side its port, and only a request that passed every check against the authorization URL, with a
  body of at most 1 MiB. It reports success only if it relayed one and the B-side confirmed it, or if
  the request was answered as the replay of a completed one.\<close>

theorem aside_relays_once_checked:
  "let s = foldl (aside_step env) (aside_start reg sys) es
   in (no_relay (a_sent s) \<or> one_relay env (request_of s) (a_sent s)) \<and>
      (if a_phase s = ADone None
       then replay_ack (request_of s) \<in> set (a_sent s) \<or>
         one_relay env (request_of s) (a_sent s) \<and> list_ex (confirms (rq_id (request_of s))) es
       else True)"
proof -
  have inv: "aside_inv env (foldl (aside_step env) (aside_start reg sys) es)"
    by (rule aside.run_inv [OF aside_inv_start])
  have "a_phase (aside_start reg sys) \<noteq> ADone None" by (simp add: aside_start_def)
  from success_run [OF _ this] inv show ?thesis
    by (auto simp: Let_def aside_inv_def split: aside_phase.splits)
qed

definition demo_aenv :: aside_env where
  "demo_aenv = \<lparr>ae_net = demo_net, ae_sha = demo_sha_text, ae_peer = ''AB'', ae_remote = None,
     ae_bind = Inr, ae_opens_browser = True, ae_send_fails = (\<lambda>_. False),
     ae_error_text = (\<lambda>_. ''failed''), ae_context_text = ''context canceled''\<rparr>"

section \<open>What a session leaves behind\<close>

definition lease_done :: "session_system \<Rightarrow> nat \<Rightarrow> bool" where
  "lease_done sys i \<longleftrightarrow>
     i < length (snd sys) \<and> \<not> (sl_owner (snd sys ! i) \<and> lease_open (fst sys) (snd sys ! i))"

definition clean_base :: "string \<Rightarrow> aside_state \<Rightarrow> bool" where
  "clean_base rid s \<longleftrightarrow>
     system_inv (a_system s) \<and>
     (case a_lease s of None \<Rightarrow> True | Some i \<Rightarrow> i < length (snd (a_system s))) \<and>
     (if a_registered s then trim_space (rq_id (request_of s)) = rid else rid \<notin> fst ` set (sr_sessions (a_registry s)))"

definition clean_done :: "aside_state \<Rightarrow> bool" where
  "clean_done s \<longleftrightarrow>
     (case a_phase s of
        ADone res \<Rightarrow> \<not> a_registered s \<and> (case a_lease s of None \<Rightarrow> True | Some i \<Rightarrow> lease_done (a_system s) i)
      | ARequest \<Rightarrow> \<not> a_registered s
      | _ \<Rightarrow> True)"

definition clean_inv :: "string \<Rightarrow> aside_state \<Rightarrow> bool" where
  "clean_inv rid s \<longleftrightarrow> clean_base rid s \<and> clean_done s"

text \<open>
  What is assumed of the events: requests on this connection carry the id in question, no other
  session registers it meanwhile, and keys are digests.
\<close>

fun own_event :: "string \<Rightarrow> aside_event \<Rightarrow> bool" where
  "own_event rid (Frame now (FrameRequest (Some rq))) \<longleftrightarrow> trim_space (rq_id rq) = rid"
| "own_event rid (OtherRegistry (Register now info)) \<longleftrightarrow> trim_space (si_request_id info) \<noteq> rid"
| "own_event rid (OtherSession ev) \<longleftrightarrow> keyed_event ev"
| "own_event rid _ \<longleftrightarrow> True"

lemma finish_closes:
  assumes "system_inv (m, ls)" "i < length ls" "sl_owner (ls ! i)"
  shows "\<not> lease_open (finish now1 now2 err (ls ! i) m) (ls ! i)"
proof -
  have ok: "lease_ok m (ls ! i)" using assms(1,2) by (simp add: list_all_length)
  then obtain s where s: "sl_session (ls ! i) = Some s" "s < length (om_heap m)"
      "\<not> os_closed (om_heap m ! s) \<Longrightarrow> map_of (om_active m) (sl_key (ls ! i)) = Some s"
    using assms(3) by (auto simp: lease_ok_def)
  show ?thesis
    using s assms(3) by (cases "os_closed (om_heap m ! s)") (simp_all add: lease_open_def finish_def Let_def)
qed

lemma lease_done_finish:
  assumes "system_inv sys" "i < length (snd sys)"
  shows "lease_done (system_step sys (Finish i now1 now2 err)) i"
  using assms finish_closes [of "fst sys" "snd sys" i now1 now2 err]
  by (cases sys) (auto simp: lease_done_def)

lemma system_step_keeps:
  assumes "i < length (snd sys)"
  shows "i < length (snd (system_step sys ev)) \<and> snd (system_step sys ev) ! i = snd sys ! i"
  using assms by (cases sys; cases ev) (simp_all add: Let_def split_def nth_append)

lemma lease_done_step:
  assumes inv: "system_inv sys" and d: "lease_done sys i"
  shows "lease_done (system_step sys ev) i"
proof -
  have i: "i < length (snd sys)" using d by (simp add: lease_done_def)
  note k = system_step_keeps [OF i, of ev]
  show ?thesis
  proof (cases "sl_owner (snd sys ! i)")
    case True
    have "lease_ok (fst sys) (snd sys ! i)" using inv i by (cases sys) (simp add: list_all_length)
    then obtain s where s: "sl_session (snd sys ! i) = Some s" "s < length (om_heap (fst sys))"
      using True by (auto simp: lease_ok_def)
    with d True have "os_closed (om_heap (fst sys) ! s)" by (simp add: lease_done_def lease_open_def)
    with closed_step [OF s(2) this, of ev i] s(1) k show ?thesis
      by (simp add: lease_done_def lease_open_def)
  qed (use k in \<open>simp add: lease_done_def\<close>)
qed

lemma cancel_ids_keys: "fst ` set (sr_sessions (fst (cancel_ids ids peer r))) \<subseteq> fst ` set (sr_sessions r)"
proof (induction ids arbitrary: r)
  case (Cons u ids)
  have "fst ` set (sr_sessions (fst (cancel_session u peer r))) \<subseteq> fst ` set (sr_sessions r)"
    by (cases rule: cancel_session_cases [of u peer r]) (auto simp: unregister_def AList.delete_eq)
  with Cons [of "fst (cancel_session u peer r)"] show ?case by (auto simp: split_def Let_def)
qed simp

lemma set_state_keys: "fst ` set (sr_sessions (set_state now u st r)) \<subseteq> fst ` set (sr_sessions r)"
proof (cases "map_of (sr_sessions r) (trim_space u)")
  case (Some s)
  then have "trim_space u \<in> fst ` set (sr_sessions r)" by (metis image_eqI map_of_SomeD fst_conv)
  with Some alist_update_keys [of "trim_space u" _ "sr_sessions r"] show ?thesis
    by (simp add: set_state_def Let_def) (meson insert_subset order_refl order_trans subset_insertI2 insert_absorb subset_trans)
qed (simp add: set_state_def)

lemma registry_step_keys:
  assumes "k \<in> fst ` set (sr_sessions (registry_step r ev))" "k \<notin> fst ` set (sr_sessions r)"
  shows "\<exists>now info. ev = Register now info \<and> trim_space (si_request_id info) = k"
proof (cases ev)
  case (Register now info)
  have "fst ` set (sr_sessions (fst (register now info r))) \<subseteq>
      insert (trim_space (si_request_id info)) (fst ` set (sr_sessions r))"
    by (simp add: register_def Let_def alist_update_keys subset_insertI)
  with assms Register show ?thesis by auto
next
  case (Unregister u)
  with assms show ?thesis by (auto simp: unregister_def AList.delete_eq)
next
  case (SetState now u st)
  have "fst ` set (sr_sessions (registry_step r ev)) \<subseteq> fst ` set (sr_sessions r)"
    unfolding SetState registry_step.simps by (rule set_state_keys)
  from subsetD [OF this assms(1)] assms(2) show ?thesis by contradiction
next
  case (Cancel u peer)
  with assms cancel_ids_keys [of "[u]" peer r] show ?thesis by (auto simp: split_def Let_def)
next
  case (CancelByFlow flow peer)
  have "fst ` set (sr_sessions (registry_step r ev)) \<subseteq> fst ` set (sr_sessions r)"
    unfolding CancelByFlow by (simp add: cancel_by_flow_def Let_def split_def cancel_ids_keys)
  from subsetD [OF this assms(1)] assms(2) show ?thesis by contradiction
next
  case (CancelOnPort port peer exclude)
  have "fst ` set (sr_sessions (registry_step r ev)) \<subseteq> fst ` set (sr_sessions r)"
    unfolding CancelOnPort by (simp add: cancel_on_port_def Let_def split_def cancel_ids_keys)
  from subsetD [OF this assms(1)] assms(2) show ?thesis by contradiction
next
  case (CancelAll peer)
  have "fst ` set (sr_sessions (registry_step r ev)) \<subseteq> fst ` set (sr_sessions r)"
    unfolding CancelAll by (simp add: cancel_all_def cancel_ids_keys)
  from subsetD [OF this assms(1)] assms(2) show ?thesis by contradiction
qed

lemma clean_return:
  assumes "clean_base rid s"
  shows "clean_inv rid (aside_return env now res s)"
proof -
  let ?t = "aside_return env now res s"
  have sys: "a_system ?t = (case a_lease s of None \<Rightarrow> a_system s
      | Some i \<Rightarrow> system_step (a_system s) (Finish i now now (error_text_of env res)))"
    "a_lease ?t = a_lease s"
    by (simp_all add: aside_return_def Let_def split: option.split)
  have reg: "sr_sessions (a_registry ?t) =
      (if a_registered s then AList.delete (trim_space (rq_id (request_of s))) (sr_sessions (a_registry s))
       else sr_sessions (a_registry s))"
    by (simp add: aside_return_def Let_def unregister_def request_of_def split: option.split)
  have "rid \<notin> fst ` set (sr_sessions (a_registry ?t))"
    using assms reg by (auto simp: clean_base_def AList.delete_eq split: if_splits)
  moreover have "system_inv (a_system ?t) \<and> (case a_lease ?t of None \<Rightarrow> True
      | Some i \<Rightarrow> i < length (snd (a_system ?t)) \<and> lease_done (a_system ?t) i)"
  proof (cases "a_lease s")
    case (Some i)
    then have i: "system_inv (a_system s)" "i < length (snd (a_system s))" using assms by (simp_all add: clean_base_def)
    then have "system_inv (a_system ?t)" using Some sys by (simp add: system_step_inv del: system_step.simps)
    moreover have "lease_done (a_system ?t) i" using Some sys lease_done_finish [OF i] by simp
    ultimately show ?thesis using Some sys by (simp add: lease_done_def)
  qed (use assms sys in \<open>simp add: clean_base_def\<close>)
  ultimately show ?thesis
    by (cases "a_lease ?t") (simp_all add: clean_inv_def clean_base_def clean_done_def)
qed

lemma clean_base_cong:
  "clean_base rid s \<Longrightarrow> a_system s' = a_system s \<Longrightarrow> a_lease s' = a_lease s \<Longrightarrow> a_registered s' = a_registered s \<Longrightarrow>
   rq_id (request_of s') = rq_id (request_of s) \<Longrightarrow>
   fst ` set (sr_sessions (a_registry s')) \<subseteq> fst ` set (sr_sessions (a_registry s)) \<Longrightarrow> clean_base rid s'"
  unfolding clean_base_def
  by (cases "a_lease s"; cases "a_registered s") (auto dest: subsetD)

lemma clean_send: "clean_base rid s \<Longrightarrow> clean_base rid (fst (a_send env f s))"
  by (cases rule: a_send_cases [of env f s]) (auto elim!: clean_base_cong)

lemma clean_refuse: "clean_base rid s \<Longrightarrow> clean_inv rid (refuse_request env now text err s)"
  unfolding refuse_request_def by (rule clean_return [OF clean_send])

lemma clean_fail: "clean_base rid s \<Longrightarrow> clean_inv rid (fail_completion env now err s)"
  unfolding fail_completion_def by (rule clean_return) (auto elim!: clean_base_cong)

lemma clean_live:
  "clean_base rid s \<Longrightarrow> (\<And>res. a_phase s \<noteq> ADone res) \<Longrightarrow> a_phase s \<noteq> ARequest \<or> \<not> a_registered s \<Longrightarrow> clean_inv rid s"
  by (auto simp: clean_inv_def clean_done_def split: aside_phase.split)

lemma clean_start_listening:
  assumes b: "clean_base rid s"
  shows "clean_inv rid (start_listening env now s)"
proof -
  let ?rq = "request_of s"
  let ?s1 = "s\<lparr>a_registry := fst (cancel_on_port (rq_callback_port ?rq) (ae_peer env) (rq_id ?rq) (a_registry s))\<rparr>"
  have b1: "clean_base rid ?s1"
    by (rule clean_base_cong [OF b]) (use cancel_ids_keys in \<open>simp_all add: cancel_on_port_def Let_def\<close>)
  have b2: "clean_base rid (?s1\<lparr>a_listening := l\<rparr>)" for l by (rule clean_base_cong [OF b1]) simp_all
  have b3: "clean_base rid (?s1\<lparr>a_listening := l, a_sent := x\<rparr>)" for l x by (rule clean_base_cong [OF b1]) simp_all
  have b4: "clean_base rid (?s1\<lparr>a_listening := l, a_sent := x, a_phase := ACallback\<rparr>)" for l x
    by (rule clean_base_cong [OF b1]) simp_all
  have b5: "clean_base rid (?s1\<lparr>a_listening := l, a_sent := x,
      a_registry := set_state now u st (a_registry ?s1), a_opened := y, a_phase := ACallback\<rparr>)" for l x u st y
    by (rule clean_base_cong [OF b1]) (use set_state_keys in simp_all)
  show ?thesis
  proof (cases "ae_bind env (rq_callback_port ?rq)")
    case (Inl e)
    then show ?thesis using clean_refuse [OF b1] by (simp add: start_listening_def Let_def)
  next
    case (Inr port)
    show ?thesis
    proof (cases rule: a_send_cases [of env "port_ack ?rq port" "?s1\<lparr>a_listening := Some port\<rparr>"])
      case 1
      then show ?thesis
        using Inr clean_return [OF b2] by (simp add: start_listening_def Let_def port_ack_def)
    next
      case 2
      then show ?thesis
        using Inr clean_return [OF b2] clean_live [OF b4] clean_live [OF b5]
        by (simp add: start_listening_def Let_def port_ack_def)
    qed
  qed
qed

lemma clean_start_session:
  assumes b: "clean_base rid s" and key: "\<forall>x. ae_sha env x \<noteq> ''''"
  shows "clean_inv rid (start_session env now s)"
proof -
  let ?rq = "(request_of s)\<lparr>rq_url := sanitize_url (ae_net env) (rq_url (request_of s))\<rparr>"
  let ?key = "oauth_session_key (ae_net env) (ae_sha env) (ae_peer env) (ae_remote env) ?rq"
  let ?i = "length (snd (a_system s))"
  let ?s1 = "s\<lparr>a_req := Some ?rq\<rparr>"
  let ?s2 = "s\<lparr>a_req := Some ?rq, a_system := system_step (a_system s) (Acquire now ?key), a_lease := Some ?i\<rparr>"
  have b1: "clean_base rid ?s1" by (rule clean_base_cong [OF b]) simp_all
  have k: "?key \<noteq> ''''" using key by (simp add: oauth_session_key_def)
  have "?i < length (snd (system_step (a_system s) (Acquire now ?key)))"
    by (cases "a_system s") (simp add: split_def Let_def)
  then have b2: "clean_base rid ?s2"
    using b system_step_inv [of "a_system s" "Acquire now ?key"] k
    by (cases "a_registered s") (simp_all add: clean_base_def del: system_step.simps)
  have b3: "clean_base rid (?s2\<lparr>a_phase := AWaitOwner\<rparr>)" by (rule clean_base_cong [OF b2]) simp_all
  show ?thesis
    using clean_refuse [OF b1] clean_refuse [OF b2] clean_live [OF b3] clean_start_listening [OF b2]
    by (simp add: start_session_def Let_def del: system_step.simps split: option.split)
qed

lemma clean_on_request:
  assumes b: "clean_base rid s" and rid: "trim_space (rq_id rq) = rid" and nr: "\<not> a_registered s"
    and key: "\<forall>x. ae_sha env x \<noteq> ''''"
  shows "clean_inv rid (on_request env now rq s)"
proof -
  let ?s = "s\<lparr>a_req := Some rq\<rparr>"
  have b1: "clean_base rid ?s" using b nr by (cases "a_lease s") (simp_all add: clean_base_def)
  show ?thesis
  proof (cases "request_refusal rq")
    case None
    show ?thesis
    proof (cases "register now (session_info_of env rq) (a_registry s)")
      case (Pair reg res)
      show ?thesis
      proof (cases res)
        case (Inl e)
        then show ?thesis using None Pair clean_refuse [OF b1] by (simp add: on_request_def Let_def)
      next
        case (Inr sid)
        have "clean_base rid (?s\<lparr>a_registry := reg, a_registered := True\<rparr>)"
          using b rid by (cases "a_lease s") (simp_all add: clean_base_def)
        from clean_start_session [OF this key] None Pair Inr show ?thesis by (simp add: on_request_def Let_def)
      qed
    qed
  next
    case (Some e)
    then show ?thesis using clean_refuse [OF b1] by (cases e) (simp add: on_request_def Let_def)
  qed
qed

lemma clean_on_callback:
  assumes b: "clean_base rid s" and ph: "a_phase s = ACallback \<or> a_phase s = AComplete"
  shows "clean_inv rid (on_callback env now r body_ok s)"
proof -
  have live: "clean_inv rid (s\<lparr>a_pages := pg\<rparr>)" "clean_inv rid (s\<lparr>a_body_errors := 1, a_pages := pg\<rparr>)" "clean_inv rid s" for pg
    by (rule clean_live; use ph in \<open>auto intro!: clean_base_cong [OF b]\<close>)+
  have fail: "clean_inv rid (fail_completion env now err (s\<lparr>a_pages := pg\<rparr>))"
     "clean_inv rid (fail_completion env now err (s\<lparr>a_captured := True\<rparr>))" for err pg
    by (rule clean_fail; rule clean_base_cong [OF b]; simp)+
  have sent: "clean_inv rid (s\<lparr>a_captured := True, a_sent := x, a_registry := set_state now u st (a_registry s), a_phase := AComplete\<rparr>)" for x u st
    by (rule clean_live; (rule clean_base_cong [OF b])?; use set_state_keys in simp)
  show ?thesis
    using live fail sent
    by (cases rule: a_send_cases [of env "SentRelay (relay_of_request (rq_id (request_of s)) r)" "s\<lparr>a_captured := True\<rparr>"])
      (simp_all add: on_callback_def Let_def split: option.split)
qed

lemma clean_on_heartbeat:
  assumes inv: "clean_inv rid s" and ph: "a_phase s = ARequest \<or> a_phase s = AComplete"
    and fail: "\<And>e. clean_inv rid (fail e s)"
  shows "clean_inv rid (on_heartbeat env fail hb s)"
proof -
  have b: "clean_base rid s" using inv by (simp add: clean_inv_def)
  have "clean_inv rid (s\<lparr>a_sent := x\<rparr>)" for x
    by (rule clean_live; use ph inv in \<open>auto simp: clean_inv_def clean_done_def intro!: clean_base_cong [OF b]\<close>)
  with fail show ?thesis
    by (cases rule: a_send_cases [of env "SentHeartbeat (the hb)" s]) (auto simp: on_heartbeat_def split: option.split)
qed

lemma clean_on_complete:
  assumes "clean_base rid s"
  shows "clean_inv rid (on_complete env now reply s)"
proof -
  have "clean_base rid (signal_completion True s)" by (rule clean_base_cong [OF assms]) simp_all
  with assms show ?thesis by (auto simp: on_complete_def clean_fail clean_return split: option.split)
qed

lemma clean_on_owner_outcome:
  assumes inv: "clean_inv rid s"
  shows "clean_inv rid (on_owner_outcome env now outcome s)"
proof -
  have b: "clean_base rid s" using inv by (simp add: clean_inv_def)
  have "clean_base rid (s\<lparr>a_sent := x\<rparr>)" for x by (rule clean_base_cong [OF b]) simp_all
  then show ?thesis
    using inv clean_refuse [OF b] clean_return [OF b] clean_return
    by (cases rule: a_send_cases [of env "replay_ack (request_of s)" s])
      (auto simp: on_owner_outcome_def replay_ack_def split: wait_outcome.split)
qed

text \<open>The steps of other sessions.\<close>

lemma clean_other_registry:
  assumes inv: "clean_inv rid s" and own: "own_event rid (OtherRegistry ev)"
  shows "clean_inv rid (s\<lparr>a_registry := registry_step (a_registry s) ev\<rparr>)"
proof -
  have "rid \<notin> fst ` set (sr_sessions (registry_step (a_registry s) ev))"
    if "rid \<notin> fst ` set (sr_sessions (a_registry s))"
    using registry_step_keys [of rid "a_registry s" ev] that own by (cases ev) auto
  with inv show ?thesis
    by (cases "a_lease s"; cases "a_registered s")
      (auto simp: clean_inv_def clean_base_def clean_done_def split: aside_phase.splits)
qed

lemma clean_other_session:
  assumes inv: "clean_inv rid s" and key: "keyed_event ev"
  shows "clean_inv rid (s\<lparr>a_system := system_step (a_system s) ev\<rparr>)"
proof -
  have sys: "system_inv (a_system s)" using inv by (simp add: clean_inv_def clean_base_def)
  have "system_inv (system_step (a_system s) ev)" by (rule system_step_inv [OF sys key])
  with inv show ?thesis
    using lease_done_step [OF sys] system_step_keeps
    by (cases "a_lease s"; cases "a_registered s")
      (auto simp: clean_inv_def clean_base_def clean_done_def split: aside_phase.splits simp del: system_step.simps)
qed

lemma aside_step_clean:
  assumes inv: "clean_inv rid s" and own: "own_event rid ev" and key: "\<forall>x. ae_sha env x \<noteq> ''''"
  shows "clean_inv rid (aside_step env s ev)"
proof -
  have b: "clean_base rid s" using inv by (simp add: clean_inv_def)
  note ret = clean_return [OF b] and fail = clean_fail [OF b]
  show ?thesis
  proof (cases ev)
    case (Frame now f)
    show ?thesis
    proof (cases "a_phase s")
      case ARequest
      have hb: "clean_inv rid (on_heartbeat env (\<lambda>e. aside_return env now (Some e)) h s)" for h
        by (rule clean_on_heartbeat [OF inv]) (use ARequest ret in simp_all)
      have "\<not> a_registered s" using inv ARequest by (simp add: clean_inv_def clean_done_def)
      then show ?thesis
        using Frame ARequest ret hb clean_on_request [OF b _ _ key] own
        by (auto split: aside_frame.split option.split)
    next
      case AComplete
      have hb: "clean_inv rid (on_heartbeat env (fail_completion env now) h s)" for h
        by (rule clean_on_heartbeat [OF inv]) (use AComplete fail in simp_all)
      with AComplete show ?thesis
        using Frame fail clean_on_complete [OF b] by (auto split: aside_frame.split)
    qed (use Frame inv in simp_all)
  next
    case (Callback now r body_ok)
    then show ?thesis using inv clean_on_callback [OF b] by simp
  next
    case (ContextEnd now cause)
    then show ?thesis using inv ret fail by (auto simp: on_context_end_def split: aside_phase.split)
  next
    case (Waiter now ctx_done prefer_ctx)
    then show ?thesis using inv clean_on_owner_outcome [OF inv] by (auto split: aside_phase.split option.split)
  next
    case (OtherRegistry rev)
    then show ?thesis using clean_other_registry [OF inv] own by simp
  next
    case (OtherSession sev)
    then have "keyed_event sev" using own by simp
    from clean_other_session [OF inv this] inv OtherSession show ?thesis
      by (auto split: session_event.split simp del: system_step.simps)
  qed (use inv ret fail in \<open>auto split: aside_phase.split\<close>)
qed

text \<open>For hashes that are never empty.\<close>

interpretation aside_tidy: guarded_stepper "aside_step env" "own_event rid"
  "\<lambda>s. clean_inv rid s \<and> (\<forall>x. ae_sha env x \<noteq> '''')" for env rid
  by unfold_locales (simp add: aside_step_clean)

text \<open>
  C9. However a session of the A-side ends - completed, refused, cancelled, timed out, or with a
  broken connection - it leaves nothing behind: its callback listener is closed, the registry no
  longer lists it, and if it owned a request, the coordinator counts the request as finished, so that
  duplicates are released. Other sessions may run at the same time, as long as none of them registers
  the same request id.\<close>

theorem aside_leaves_nothing:
  assumes "\<forall>x. ae_sha env x \<noteq> ''''" "system_inv sys" "rid \<notin> fst ` set (sr_sessions reg)"
    and "list_all (own_event rid) es"
    and "a_phase (foldl (aside_step env) (aside_start reg sys) es) = ADone res"
  shows "let s = foldl (aside_step env) (aside_start reg sys) es
    in a_listening s = None \<and> rid \<notin> fst ` set (sr_sessions (a_registry s)) \<and>
       (case a_lease s of None \<Rightarrow> True | Some i \<Rightarrow> lease_done (a_system s) i)"
proof -
  let ?s = "foldl (aside_step env) (aside_start reg sys) es"
  have "clean_inv rid (aside_start reg sys)"
    using assms(2,3) by (simp add: clean_inv_def clean_base_def clean_done_def aside_start_def)
  then have c: "clean_inv rid ?s" using aside_tidy.allowed_run_inv [OF _ assms(4)] assms(1) by blast
  have "aside_inv env ?s" by (rule aside.run_inv [OF aside_inv_start])
  then have "a_listening ?s = None" using assms(5) by (simp add: aside_inv_def)
  with c assms(5) show ?thesis by (simp add: clean_inv_def clean_base_def clean_done_def Let_def)
qed

lemma demo_aside_refusal: "request_refusal (demo_request demo_auth_url 8085 ''f'') = None"
  by (simp add: request_refusal_def demo_request_def demo_auth_url_def valid_bridge_request_id_def
      max_request_id_length_def ident_char_def max_oauth_url_length_def max_flow_id_length_def less_eq_char_def)

lemma demo_aside_url:
  "sanitize_url demo_net demo_auth_url = demo_auth_url" "validate_url demo_net demo_auth_url = None"
  "trim_space ''r1'' = ''r1''" "trim_space ''f'' = ''f''"
  by code_simp+

lemma demo_acquire:
  "acquire now key new_manager =
     (new_manager\<lparr>om_heap := [\<lparr>os_success = False, os_err = None, os_closed = False\<rparr>], om_active := [(key, 0)]\<rparr>,
      (no_lease key)\<lparr>sl_session := Some 0, sl_owner := True\<rparr>)"
  by (simp add: acquire_def new_manager_def prune_replays_small max_active_sessions_def)

text \<open>A session that got its port and is then cancelled.\<close>

definition demo_aside_events :: "aside_event list" where
  "demo_aside_events = [Frame 10 (FrameRequest (Some (demo_request demo_auth_url 8085 ''f''))), ContextEnd 20 UserCancelled]"

lemma demo_aside_listens:
  "let s = aside_step demo_aenv (aside_start new_registry (new_manager, [])) (hd demo_aside_events)
   in a_phase s = ACallback \<and> a_listening s = Some 8085 \<and> a_lease s = Some 0 \<and>
      fst ` set (sr_sessions (a_registry s)) = {''r1''} \<and> a_registered s \<and> a_req s = Some (demo_request demo_auth_url 8085 ''f'') \<and>
      a_sent s = [port_ack (demo_request demo_auth_url 8085 ''f'') 8085]"
proof -
  let ?rq = "demo_request demo_auth_url 8085 ''f''"
  have rq: "rq_url ?rq = demo_auth_url" "rq_callback_port ?rq = 8085" "rq_id ?rq = ''r1''" "rq_flow_id ?rq = ''f''"
    "?rq\<lparr>rq_url := demo_auth_url\<rparr> = ?rq"
    by (simp_all add: demo_request_def)
  have env: "ae_net demo_aenv = demo_net" "ae_bind demo_aenv = Inr" "ae_opens_browser demo_aenv" "ae_peer demo_aenv = ''AB''"
    "ae_send_fails demo_aenv = (\<lambda>_. False)"
    by (simp_all add: demo_aenv_def)
  let ?info = "session_info_of demo_aenv ?rq"
  have reg: "register 10 ?info new_registry =
      (new_registry\<lparr>sr_sessions := [(''r1'', \<lparr>as_info = ?info\<lparr>si_started_at := 10\<rparr>, as_started = 10\<rparr>)]\<rparr>, Inr ''r1'')"
    by (simp add: register_def session_info_of_def rq env demo_aside_url new_registry_def default_max_sessions_def
        state_waiting_browser_def Let_def)
  have port: "fst (cancel_on_port 8085 p ''r1'' (new_registry\<lparr>sr_sessions := [(''r1'', a)]\<rparr>)) =
      new_registry\<lparr>sr_sessions := [(''r1'', a)]\<rparr>" for p a
    by (simp add: cancel_on_port_def demo_aside_url Let_def)
  show ?thesis
    by (simp add: demo_aside_events_def aside_start_def on_request_def demo_aside_refusal reg start_session_def rq env
        demo_aside_url demo_acquire no_lease_def start_listening_def request_of_def port a_send_def port_ack_def
        set_state_def Let_def)
qed

theorem aside_leaves_nothing_witness:
  "let s = foldl (aside_step demo_aenv) (aside_start new_registry (new_manager, [])) demo_aside_events
   in a_phase s = ADone (Some ACancelled) \<and> a_listening s = None \<and> ''r1'' \<notin> fst ` set (sr_sessions (a_registry s)) \<and>
      lease_done (a_system s) 0"
proof -
  let ?s1 = "aside_step demo_aenv (aside_start new_registry (new_manager, [])) (hd demo_aside_events)"
  let ?s = "foldl (aside_step demo_aenv) (aside_start new_registry (new_manager, [])) demo_aside_events"
  have s: "?s = fail_completion demo_aenv 20 ACancelled ?s1"
    using demo_aside_listens by (simp add: demo_aside_events_def on_context_end_def Let_def)
  have ph: "a_phase ?s = ADone (Some ACancelled)" unfolding s by simp
  have l: "a_lease ?s = Some 0"
    unfolding s using demo_aside_listens
    by (simp add: fail_completion_def aside_return_def Let_def split: option.split)
  have n: "\<forall>x. ae_sha demo_aenv x \<noteq> ''''"
  proof
    fix x have "length (demo_sha_text x) = 200" by (simp add: demo_sha_text_def)
    then show "ae_sha demo_aenv x \<noteq> ''''" by (auto simp: demo_aenv_def)
  qed
  have o: "list_all (own_event ''r1'') demo_aside_events"
    by (simp add: demo_aside_events_def demo_request_def demo_aside_url)
  have r: "''r1'' \<notin> fst ` set (sr_sessions new_registry)" by (simp add: new_registry_def)
  from aside_leaves_nothing [OF n system_inv_new r o ph] ph l show ?thesis by (simp add: Let_def)
qed

end
