(* ===== verification/B_Side.thy ===== *)
theory B_Side
  imports Callback_Guard OAuth_Sessions
begin

text \<open>
  The B-side of a sign-in, \<open>BSide.Run\<close> (internal/bridge/bside.go): the machine with the application. A
  session sends the request, waits for the port, then for one relayed callback, which it checks and
  delivers to the application's listener on the loopback interface. The end of its context shows as
  a failed receive, since it closes the connection.
\<close>

section \<open>State\<close>

datatype bside_error =
    BUrlTooLong | BFlowTooLong | BInvalidUrl url_error | BRedirect redirect_error | BPort port_error | BSend | BReceive
  | BBadHeartbeat | BUnexpectedType | BBadAck | BAckMismatch | BAckError string | BAckPort | BBadRelay
  | BRelayMismatch | BMethod | BRelay relay_error | BTarget target_error | BDelivery string

datatype bside_phase = BAck | BCallback | BDone "bside_error option"

datatype bside_sent = SentRequest bridge_request | SentBHeartbeat string | SentComplete bridge_complete

datatype bside_frame =
    BFrameHeartbeat "string option"
  | BFrameAck "bridge_ack option"
  | BFrameRelay "callback_relay option"
  | BFrameOther

text \<open>The HTTP request to the application: \<open>dl_host\<close> overrides the Host header.\<close>

record delivery =
  dl_method :: string
  dl_url :: url
  dl_headers :: "(string \<times> string) list"
  dl_host :: "string option"
  dl_body :: string

text \<open>
  Fixed during a session: the library and hash, the request id that is generated, the caller's flow
  id, which sends fail, whether \<open>http.NewRequest\<close> takes a request, and how the application answers:
  a status, or the text of a transport error.
\<close>

record bside_env =
  be_net :: net_lib
  be_sha :: "string \<Rightarrow> string"
  be_req_id :: string
  be_flow :: string
  be_send_fails :: "nat \<Rightarrow> bool"
  be_request_error :: "delivery \<Rightarrow> string option"
  be_http :: "delivery \<Rightarrow> string + int"

record bside_state =
  b_phase :: bside_phase
  b_url :: string
  b_port :: int
  b_sent :: "bside_sent list"
  b_delivered :: "delivery list"

section \<open>Steps\<close>

definition b_send :: "bside_env \<Rightarrow> bside_sent \<Rightarrow> bside_state \<Rightarrow> bside_state \<times> bool" where
  "b_send env f s =
     (if be_send_fails env (length (b_sent s)) then (s, False) else (s\<lparr>b_sent := b_sent s @ [f]\<rparr>, True))"

definition b_fail :: "bside_error \<Rightarrow> bside_state \<Rightarrow> bside_state" where
  "b_fail err s = s\<lparr>b_phase := BDone (Some err)\<rparr>"

definition request_flow :: "bside_env \<Rightarrow> string \<Rightarrow> string" where
  "request_flow env raw =
     (let flow = trim_space (be_flow env)
      in if flow = '''' then derive_oauth_flow_id (be_net env) (be_sha env) raw else flow)"

text \<open>The refusals before anything is sent.\<close>

definition start_refusal :: "bside_env \<Rightarrow> string \<Rightarrow> bside_error option" where
  "start_refusal env raw =
     (if max_oauth_url_length < length raw then Some BUrlTooLong
      else if max_flow_id_length < length (trim_space (be_flow env)) then Some BFlowTooLong
      else (case validate_url (be_net env) raw of
        Some e \<Rightarrow> Some (BInvalidUrl e)
      | None \<Rightarrow>
          (case redirect_callback_host_is_loopback (be_net env) raw of
             Some e \<Rightarrow> Some (BRedirect e)
           | None \<Rightarrow>
               (case extract_callback_port (be_net env) raw of Inl e \<Rightarrow> Some (BPort e) | Inr port \<Rightarrow> None))))"

definition bside_request :: "bside_env \<Rightarrow> string \<Rightarrow> int \<Rightarrow> bridge_request" where
  "bside_request env raw port =
     \<lparr>rq_url = raw, rq_callback_port = port, rq_id = be_req_id env, rq_flow_id = request_flow env raw\<rparr>"

definition bside_start :: "bside_env \<Rightarrow> string \<Rightarrow> bside_state" where
  "bside_start env raw0 =
     (let raw = sanitize_url (be_net env) raw0;
          s = \<lparr>b_phase = BAck, b_url = raw, b_port = 0, b_sent = [], b_delivered = []\<rparr>
      in case start_refusal env raw of
           Some e \<Rightarrow> b_fail e s
         | None \<Rightarrow>
             let port = (case extract_callback_port (be_net env) raw of Inl e \<Rightarrow> 0 | Inr p \<Rightarrow> p);
                 s1 = s\<lparr>b_port := port\<rparr>
             in (case b_send env (SentRequest (bside_request env raw port)) s1 of
               (s2, False) \<Rightarrow> b_fail BSend s2
             | (s2, True) \<Rightarrow> s2))"

definition on_b_heartbeat :: "bside_env \<Rightarrow> string option \<Rightarrow> bside_state \<Rightarrow> bside_state" where
  "on_b_heartbeat env hb s =
     (case hb of
        None \<Rightarrow> b_fail BBadHeartbeat s
      | Some rid \<Rightarrow> (case b_send env (SentBHeartbeat rid) s of (s1, True) \<Rightarrow> s1 | (s1, False) \<Rightarrow> b_fail BSend s1))"

definition on_bridge_ack :: "bside_env \<Rightarrow> bridge_ack option \<Rightarrow> bside_state \<Rightarrow> bside_state" where
  "on_bridge_ack env ao s =
     (case ao of
        None \<Rightarrow> b_fail BBadAck s
      | Some ack \<Rightarrow>
          if ba_id ack \<noteq> be_req_id env then b_fail BAckMismatch s
          else if ba_error ack \<noteq> '''' then b_fail (BAckError (redact_bridge_message (be_net env) (ba_error ack))) s
          else if ba_replay ack then s\<lparr>b_phase := BDone None\<rparr>
          else if ba_port ack \<le> 0 \<or> 65535 < ba_port ack then b_fail BAckPort s
          else s\<lparr>b_phase := BCallback\<rparr>)"

definition delivery_of :: "bside_env \<Rightarrow> string \<Rightarrow> url \<Rightarrow> callback_relay \<Rightarrow> delivery" where
  "delivery_of env method target relay =
     (let host = canonical_relay_header (cr_headers relay) ''Host''
      in \<lparr>dl_method = method, dl_url = target, dl_headers = filter_callback_relay_headers (cr_headers relay),
          dl_host = (if host \<noteq> '''' \<and> request_host_is_loopback (be_net env) host then Some host else None),
          dl_body = cr_body relay\<rparr>)"

text \<open>
  The single attempt to deliver: the new state, and the text of the error. A request that could not
  be built is not sent.
\<close>

definition deliver_once :: "bside_env \<Rightarrow> delivery \<Rightarrow> bside_state \<Rightarrow> bside_state \<times> string option" where
  "deliver_once env d s =
     (case be_request_error env d of
        Some e \<Rightarrow> (s, Some (''create delivery request: '' @ e))
      | None \<Rightarrow>
          (s\<lparr>b_delivered := b_delivered s @ [d]\<rparr>,
           case be_http env d of
             Inl e \<Rightarrow> Some e
           | Inr status \<Rightarrow>
               if 200 \<le> status \<and> status < 400 then None
               else Some (''local callback returned HTTP '' @ int_text status)))"

definition complete_frame :: "bside_env \<Rightarrow> string option \<Rightarrow> bside_sent" where
  "complete_frame env cause =
     SentComplete \<lparr>bc_id = be_req_id env, bc_success = (cause = None), bc_error = safe_bridge_error (be_net env) cause\<rparr>"

definition deliver :: "bside_env \<Rightarrow> delivery \<Rightarrow> bside_state \<Rightarrow> bside_state" where
  "deliver env d s =
     (case deliver_once env d s of
        (s1, Some e) \<Rightarrow>
          let text = ''deliver callback to localhost:'' @ int_text (b_port s) @ '' failed: '' @ e
          in b_fail (BDelivery text) (fst (b_send env (complete_frame env (Some text)) s1))
      | (s1, None) \<Rightarrow>
          (case b_send env (complete_frame env None) s1 of
             (s2, True) \<Rightarrow> s2\<lparr>b_phase := BDone None\<rparr>
           | (s2, False) \<Rightarrow> b_fail BSend s2))"

definition relay_method :: "callback_relay \<Rightarrow> string" where
  "relay_method relay = (if cr_method relay = '''' then ''GET'' else cr_method relay)"

definition on_relay :: "bside_env \<Rightarrow> callback_relay option \<Rightarrow> bside_state \<Rightarrow> bside_state" where
  "on_relay env ro s =
     (case ro of
        None \<Rightarrow> b_fail BBadRelay s
      | Some relay \<Rightarrow>
          if cr_id relay \<noteq> be_req_id env then b_fail BRelayMismatch s
          else
            let method = relay_method relay
            in if method \<noteq> ''GET'' \<and> method \<noteq> ''POST'' then b_fail BMethod s
               else (case validate_callback_relay (be_net env) (callback_expectation (be_net env) (b_url s)) relay of
                 Some e \<Rightarrow> b_fail (BRelay e) s
               | None \<Rightarrow>
                   (case callback_request_url (be_net env) (b_port s) (cr_path relay) of
                      Inl e \<Rightarrow> b_fail (BTarget e) s
                    | Inr target \<Rightarrow> deliver env (delivery_of env method target relay) s)))"

datatype bside_event = BFrame bside_frame | BReceiveFailed

fun bside_step :: "bside_env \<Rightarrow> bside_state \<Rightarrow> bside_event \<Rightarrow> bside_state" where
  "bside_step env s (BFrame f) =
     (case b_phase s of
        BDone res \<Rightarrow> s
      | BAck \<Rightarrow>
          (case f of
             BFrameHeartbeat hb \<Rightarrow> on_b_heartbeat env hb s
           | BFrameAck a \<Rightarrow> on_bridge_ack env a s
           | _ \<Rightarrow> b_fail BUnexpectedType s)
      | BCallback \<Rightarrow>
          (case f of
             BFrameHeartbeat hb \<Rightarrow> on_b_heartbeat env hb s
           | BFrameRelay r \<Rightarrow> on_relay env r s
           | _ \<Rightarrow> b_fail BUnexpectedType s))"
| "bside_step env s BReceiveFailed =
     (case b_phase s of BDone res \<Rightarrow> s | _ \<Rightarrow> b_fail BReceive s)"

section \<open>What is delivered\<close>

text \<open>
  What the B-side may do with the frames of a set \<open>E\<close>: deliver one relay that passed every check
  against the authorization URL, and report success for it, or without a delivery when the A-side
  answered that the same request had been completed.
\<close>

definition checked_relay :: "bside_env \<Rightarrow> bside_event set \<Rightarrow> string \<Rightarrow> callback_relay \<Rightarrow> url \<Rightarrow> bool" where
  "checked_relay env E raw relay target \<longleftrightarrow>
     BFrame (BFrameRelay (Some relay)) \<in> E \<and> cr_id relay = be_req_id env \<and>
     validate_callback_relay (be_net env) (callback_expectation (be_net env) raw) relay = None \<and>
     (\<exists>port. extract_callback_port (be_net env) raw = Inr port \<and>
        callback_request_url (be_net env) port (cr_path relay) = Inr target)"

definition checked_delivery :: "bside_env \<Rightarrow> bside_event set \<Rightarrow> string \<Rightarrow> delivery \<Rightarrow> bool" where
  "checked_delivery env E raw d \<longleftrightarrow>
     (\<exists>relay target. checked_relay env E raw relay target \<and> d = delivery_of env (relay_method relay) target relay)"

definition handed_over :: "bside_env \<Rightarrow> bside_state \<Rightarrow> bool" where
  "handed_over env s \<longleftrightarrow>
     (\<exists>d status. b_delivered s = [d] \<and> be_http env d = Inr status \<and> 200 \<le> status \<and> status < 400 \<and>
        complete_frame env None \<in> set (b_sent s))"

definition replayed :: "bside_env \<Rightarrow> bside_event set \<Rightarrow> bside_state \<Rightarrow> bool" where
  "replayed env E s \<longleftrightarrow> b_delivered s = [] \<and>
     (\<exists>ack. BFrame (BFrameAck (Some ack)) \<in> E \<and> ba_id ack = be_req_id env \<and> ba_error ack = '''' \<and> ba_replay ack)"

definition bside_inv :: "bside_env \<Rightarrow> bside_event set \<Rightarrow> string \<Rightarrow> bside_state \<Rightarrow> bool" where
  "bside_inv env E raw s \<longleftrightarrow>
     b_url s = raw \<and>
     (case b_phase s of
        BDone res \<Rightarrow>
          (b_delivered s = [] \<or> (\<exists>d. b_delivered s = [d] \<and> checked_delivery env E raw d)) \<and>
          (res = None \<longrightarrow> handed_over env s \<or> replayed env E s)
      | _ \<Rightarrow> b_delivered s = [] \<and> start_refusal env raw = None \<and> extract_callback_port (be_net env) raw = Inr (b_port s))"

lemma b_send_cases:
  obtains "b_send env f s = (s, False)" | "b_send env f s = (s\<lparr>b_sent := b_sent s @ [f]\<rparr>, True)"
  by (cases "be_send_fails env (length (b_sent s))") (simp_all add: b_send_def)

lemma bside_inv_fail:
  "b_url s = raw \<Longrightarrow> b_delivered s = [] \<or> (\<exists>d. b_delivered s = [d] \<and> checked_delivery env E raw d) \<Longrightarrow>
   bside_inv env E raw (b_fail err s)"
  by (simp add: bside_inv_def b_fail_def)

lemma bside_inv_start: "bside_inv env E (sanitize_url (be_net env) raw0) (bside_start env raw0)"
proof (cases "start_refusal env (sanitize_url (be_net env) raw0)")
  case None
  then obtain port where "extract_callback_port (be_net env) (sanitize_url (be_net env) raw0) = Inr port"
    by (auto simp: start_refusal_def split: if_splits option.splits sum.splits)
  with None show ?thesis
    by (simp add: bside_start_def Let_def b_send_def)
      (simp add: bside_inv_def b_fail_def)
qed (simp add: bside_start_def Let_def bside_inv_fail)

lemma bside_inv_waiting:
  "bside_inv env E raw s \<Longrightarrow> b_phase s = BAck \<or> b_phase s = BCallback \<Longrightarrow>
   b_url s = raw \<and> b_delivered s = [] \<and> start_refusal env raw = None \<and> extract_callback_port (be_net env) raw = Inr (b_port s)"
  by (auto simp: bside_inv_def)

lemma bside_inv_waiting_fail:
  "bside_inv env E raw s \<Longrightarrow> b_phase s = BAck \<or> b_phase s = BCallback \<Longrightarrow> bside_inv env E raw (b_fail err s)"
  by (rule bside_inv_fail) (use bside_inv_waiting in blast)+

lemma on_b_heartbeat_inv:
  assumes "bside_inv env E raw s" "b_phase s = BAck \<or> b_phase s = BCallback"
  shows "bside_inv env E raw (on_b_heartbeat env hb s)"
proof -
  have "bside_inv env E raw (s\<lparr>b_sent := x\<rparr>)" for x using assms by (auto simp: bside_inv_def)
  with bside_inv_waiting_fail [OF assms] show ?thesis
    by (cases rule: b_send_cases [of env "SentBHeartbeat (the hb)" s]) (auto simp: on_b_heartbeat_def split: option.split)
qed

lemma on_bridge_ack_inv:
  assumes "bside_inv env E raw s" "b_phase s = BAck" "BFrame (BFrameAck a) \<in> E"
  shows "bside_inv env E raw (on_bridge_ack env a s)"
proof -
  have w: "b_url s = raw" "b_delivered s = []" "start_refusal env raw = None" "extract_callback_port (be_net env) raw = Inr (b_port s)"
    using bside_inv_waiting [OF assms(1)] assms(2) by blast+
  have replay: "bside_inv env E raw (s\<lparr>b_phase := BDone None\<rparr>)"
    if "a = Some ack" "ba_id ack = be_req_id env" "ba_error ack = ''''" "ba_replay ack" for ack
    using that w assms(3) by (auto simp: bside_inv_def replayed_def)
  have go: "bside_inv env E raw (s\<lparr>b_phase := BCallback\<rparr>)" using w by (simp add: bside_inv_def)
  show ?thesis
    using bside_inv_waiting_fail [OF assms(1)] assms(2) go replay by (auto simp: on_bridge_ack_def split: option.split)
qed

lemma deliver_inv:
  assumes "b_url s = raw" "b_delivered s = []" "checked_delivery env E raw d"
  shows "bside_inv env E raw (deliver env d s)"
proof -
  obtain s1 out where o: "deliver_once env d s = (s1, out)" by fastforce
  have s1: "b_url s1 = raw" "b_delivered s1 = [] \<or> b_delivered s1 = [d]"
    "out = None \<Longrightarrow> b_delivered s1 = [d] \<and> (\<exists>status. be_http env d = Inr status \<and> 200 \<le> status \<and> status < 400)"
    using o assms(1,2) by (auto simp: deliver_once_def split: option.splits sum.splits if_splits)
  show ?thesis
  proof (cases out)
    case None
    then have d: "b_delivered s1 = [d]" "\<exists>status. be_http env d = Inr status \<and> 200 \<le> status \<and> status < 400"
      using s1(3) by blast+
    have "bside_inv env E raw (s1\<lparr>b_sent := b_sent s1 @ [complete_frame env None], b_phase := BDone None\<rparr>)"
      using d s1(1) assms(3) by (auto simp: bside_inv_def handed_over_def)
    moreover have "bside_inv env E raw (b_fail BSend s1)" using d s1(1) assms(3) by (intro bside_inv_fail) auto
    ultimately show ?thesis
      using o None by (cases rule: b_send_cases [of env "complete_frame env None" s1]) (simp_all add: deliver_def)
  next
    case (Some e)
    let ?text = "''deliver callback to localhost:'' @ int_text (b_port s) @ '' failed: '' @ e"
    have "bside_inv env E raw (b_fail (BDelivery ?text) (s1\<lparr>b_sent := x\<rparr>))" for x
      using s1(1,2) assms(3) by (intro bside_inv_fail) auto
    from this [of "b_sent s1"] this show ?thesis
      using o Some
      by (cases rule: b_send_cases [of env "complete_frame env (Some ?text)" s1]) (simp_all add: deliver_def Let_def)
  qed
qed

lemma on_relay_inv:
  assumes inv: "bside_inv env E raw s" and ph: "b_phase s = BCallback" and E: "BFrame (BFrameRelay ro) \<in> E"
  shows "bside_inv env E raw (on_relay env ro s)"
proof -
  have w: "b_url s = raw" "b_delivered s = []" "extract_callback_port (be_net env) raw = Inr (b_port s)"
    using bside_inv_waiting [OF inv] ph by blast+
  have fail: "bside_inv env E raw (b_fail e s)" for e using bside_inv_waiting_fail [OF inv] ph by blast
  have "bside_inv env E raw (deliver env (delivery_of env m target relay) s)"
    if "relay_method relay = m" "ro = Some relay" "cr_id relay = be_req_id env"
      "validate_callback_relay (be_net env) (callback_expectation (be_net env) raw) relay = None"
      "callback_request_url (be_net env) (b_port s) (cr_path relay) = Inr target" for relay target m
    using that w E by (intro deliver_inv) (auto simp: checked_delivery_def checked_relay_def)
  then show ?thesis
    using fail w(1) by (auto simp: on_relay_def Let_def split: option.split sum.split)
qed

lemma bside_step_inv:
  assumes inv: "bside_inv env E raw s" and e: "ev \<in> E"
  shows "bside_inv env E raw (bside_step env s ev)"
proof (cases ev)
  case (BFrame f)
  show ?thesis
  proof (cases "b_phase s")
    case BAck
    then show ?thesis
      using BFrame e bside_inv_waiting_fail [OF inv] on_b_heartbeat_inv [OF inv] on_bridge_ack_inv [OF inv]
      by (auto split: bside_frame.split)
  next
    case BCallback
    then show ?thesis
      using BFrame e bside_inv_waiting_fail [OF inv] on_b_heartbeat_inv [OF inv] on_relay_inv [OF inv]
      by (auto split: bside_frame.split)
  qed (use BFrame inv in simp)
next
  case BReceiveFailed
  then show ?thesis using inv bside_inv_waiting_fail [OF inv] by (auto split: bside_phase.split)
qed

interpretation bside: guarded_stepper "bside_step env" "\<lambda>ev. ev \<in> E" "bside_inv env E raw" for env E raw
  by unfold_locales (rule bside_step_inv)
lemma delivery_of_simps [simp]:
  "dl_method (delivery_of env m target relay) = m" "dl_url (delivery_of env m target relay) = target"
  "dl_body (delivery_of env m target relay) = cr_body relay"
  by (simp_all add: delivery_of_def Let_def)

lemma request_url_loopback:
  "callback_request_url nl port p = Inr target \<Longrightarrow>
   ur_scheme target = ''http'' \<and> ur_host target = join_host_port ''127.0.0.1'' (int_text port) \<and>
   ur_user target = '''' \<and> has_prefix (ur_path target) ''/''"
  by (auto simp: callback_request_url_def split: option.splits if_splits)

lemma checked_relay_method:
  "validate_callback_relay nl ex relay = None \<Longrightarrow> relay_method relay = ''GET'' \<or> relay_method relay = ''POST''"
  by (auto simp: validate_callback_relay_def relay_method_def split: if_splits)

text \<open>
  C10. Whatever frames the A-side sends, in whatever order, and whatever fails on the way: a sign-in
  on the B-side makes at most one request to the application. The request goes to 127.0.0.1 at the
  callback port of the authorization URL, over plain http, with GET or POST; it carries the body of a
  relay that arrived, names this request and passed the checks against the authorization URL. The
  sign-in is reported as successful only after the application answered it with a status from 200 to
  399 and the completion was sent, or without any delivery when the A-side answered this request id
  as a completed duplicate.\<close>

theorem bside_delivers_checked:
  assumes "s = foldl (bside_step env) (bside_start env raw0) es"
    and "raw = sanitize_url (be_net env) raw0"
  shows "(b_delivered s = [] \<or>
      (\<exists>d relay port. b_delivered s = [d] \<and> BFrame (BFrameRelay (Some relay)) \<in> set es \<and>
         cr_id relay = be_req_id env \<and> dl_body d = cr_body relay \<and>
         validate_callback_relay (be_net env) (callback_expectation (be_net env) raw) relay = None \<and>
         extract_callback_port (be_net env) raw = Inr port \<and>
         ur_scheme (dl_url d) = ''http'' \<and> ur_host (dl_url d) = join_host_port ''127.0.0.1'' (int_text port) \<and>
         (dl_method d = ''GET'' \<or> dl_method d = ''POST''))) \<and>
    (b_phase s = BDone None \<longrightarrow> handed_over env s \<or> replayed env (set es) s)"
proof -
  have inv: "bside_inv env (set es) raw s"
    unfolding assms(1) by (rule bside.allowed_run_inv) (simp_all add: assms(2) bside_inv_start list_all_iff)
  then have "b_delivered s = [] \<or> (\<exists>d. b_delivered s = [d] \<and> checked_delivery env (set es) raw d)"
    by (auto simp: bside_inv_def split: bside_phase.splits)
  moreover have "b_phase s = BDone None \<longrightarrow> handed_over env s \<or> replayed env (set es) s"
    using inv by (cases "b_phase s") (auto simp: bside_inv_def)
  moreover have "\<exists>relay port. BFrame (BFrameRelay (Some relay)) \<in> set es \<and>
         cr_id relay = be_req_id env \<and> dl_body d = cr_body relay \<and>
         validate_callback_relay (be_net env) (callback_expectation (be_net env) raw) relay = None \<and>
         extract_callback_port (be_net env) raw = Inr port \<and>
         ur_scheme (dl_url d) = ''http'' \<and> ur_host (dl_url d) = join_host_port ''127.0.0.1'' (int_text port) \<and>
         (dl_method d = ''GET'' \<or> dl_method d = ''POST'')"
    if "checked_delivery env (set es) raw d" for d
    using that checked_relay_method request_url_loopback
    by (fastforce simp: checked_delivery_def checked_relay_def)
  ultimately show ?thesis by blast
qed

text \<open>A sign-in whose callback the application takes.\<close>

definition demo_benv :: bside_env where
  "demo_benv = \<lparr>be_net = demo_net, be_sha = demo_sha_text, be_req_id = ''r1'', be_flow = ''f'',
     be_send_fails = (\<lambda>_. False), be_request_error = (\<lambda>_. None), be_http = (\<lambda>_. Inr 200)\<rparr>"

definition demo_relay :: callback_relay where
  "demo_relay = \<lparr>cr_id = ''r1'', cr_method = ''GET'', cr_path = '':///cb'',
     cr_headers = [(''Accept'', ''text/html'')], cr_body = '''', cr_status = 200\<rparr>"

definition demo_bside_events :: "bside_event list" where
  "demo_bside_events =
     [BFrame (BFrameAck (Some \<lparr>ba_id = ''r1'', ba_port = 8085, ba_error = '''', ba_replay = False\<rparr>)),
      BFrame (BFrameRelay (Some demo_relay))]"

lemma demo_bside_start:
  "bside_start demo_benv demo_auth_url =
     \<lparr>b_phase = BAck, b_url = demo_auth_url, b_port = 8085,
      b_sent = [SentRequest \<lparr>rq_url = demo_auth_url, rq_callback_port = 8085, rq_id = ''r1'', rq_flow_id = ''f''\<rparr>],
      b_delivered = []\<rparr>"
proof -
  have e: "sanitize_url demo_net demo_auth_url = demo_auth_url" "validate_url demo_net demo_auth_url = None"
    "redirect_callback_host_is_loopback demo_net demo_auth_url = None"
    "extract_callback_port demo_net demo_auth_url = Inr 8085" "trim_space ''f'' = ''f''" by code_simp+
  have l: "length demo_auth_url \<le> max_oauth_url_length" "length ''f'' \<le> max_flow_id_length"
    by (simp_all add: demo_auth_url_def max_oauth_url_length_def max_flow_id_length_def)
  have env: "be_net demo_benv = demo_net" "be_flow demo_benv = ''f''" "be_req_id demo_benv = ''r1''"
    "be_send_fails demo_benv = (\<lambda>_. False)" by (simp_all add: demo_benv_def)
  from l(2) have "Suc 0 \<le> max_flow_id_length" by simp
  with l show ?thesis
    by (simp add: bside_start_def start_refusal_def env e Let_def b_send_def bside_request_def request_flow_def linorder_not_less [symmetric])
qed

theorem bside_delivers_checked_witness:
  "let s = foldl (bside_step demo_benv) (bside_start demo_benv demo_auth_url) demo_bside_events
   in b_phase s = BDone None \<and> length (b_delivered s) = 1 \<and> handed_over demo_benv s"
proof -
  let ?s = "foldl (bside_step demo_benv) (bside_start demo_benv demo_auth_url) demo_bside_events"
  let ?u = "the (demo_parse '':///cb'')" and ?ex = "callback_expectation demo_net demo_auth_url"
  have p: "nl_parse_request_uri demo_net (cr_path demo_relay) = Some ?u" "ur_scheme ?u = ''''" "ur_host ?u = ''''"
    "has_prefix (ur_path ?u) ''/''" "ur_path ?u = ex_path ?ex" "relay_state demo_net demo_relay ?u = Some ''''"
    "ex_state ?ex = ''''" "validate_relay_fetch_metadata demo_relay ?ex = None"
    "\<not> header_bytes_exceed 0 (cr_headers demo_relay)"
    by code_simp+
  have v: "validate_callback_relay demo_net ?ex demo_relay = None"
    using p by (simp add: validate_callback_relay_def demo_relay_def)
  have "nl_parse_request_uri demo_net '':///cb'' = Some ?u" using p(1) by (simp add: demo_relay_def)
  then obtain target where t: "callback_request_url demo_net 8085 '':///cb'' = Inr target"
    using p(2-4) by (simp add: callback_request_url_def)
  have env: "be_net demo_benv = demo_net" "be_req_id demo_benv = ''r1''" "be_send_fails demo_benv = (\<lambda>_. False)"
    "be_request_error demo_benv = (\<lambda>_. None)" "be_http demo_benv = (\<lambda>_. Inr 200)" by (simp_all add: demo_benv_def)
  have r: "cr_id demo_relay = ''r1''" "cr_method demo_relay = ''GET''" "cr_path demo_relay = '':///cb''"
    by (simp_all add: demo_relay_def)
  have run: "b_phase ?s = BDone None \<and> length (b_delivered ?s) = 1"
    by (simp add: demo_bside_start demo_bside_events_def on_bridge_ack_def on_relay_def relay_method_def env r v t
        deliver_def deliver_once_def b_send_def Let_def)
  then have "b_delivered ?s \<noteq> []" by auto
  then have "\<not> replayed demo_benv (set demo_bside_events) ?s" by (simp add: replayed_def)
  with run bside_delivers_checked [of ?s demo_benv demo_auth_url demo_bside_events "sanitize_url demo_net demo_auth_url"] env(1)
  show ?thesis by (simp add: Let_def)
qed

end
