(* ===== verification/Sign_In.thy ===== *)
theory Sign_In
  imports A_Side B_Side
begin

text \<open>
  Both sides of a sign-in over one connection: what the frames of one side do to the other, in every
  interleaving with the browser, the ends of the contexts, lost connections and other sessions.
\<close>

section \<open>The two sides and the connection\<close>

text \<open>A frame arrives as it was sent; the codec is the subject of \<open>Wire_Protocol\<close>.\<close>

fun to_b :: "sent_frame \<Rightarrow> bside_frame" where
  "to_b (SentAck a) = BFrameAck (Some a)"
| "to_b (SentRelay r) = BFrameRelay (Some r)"
| "to_b (SentHeartbeat h) = BFrameHeartbeat (Some h)"

fun to_a :: "bside_sent \<Rightarrow> aside_frame" where
  "to_a (SentRequest rq) = FrameRequest (Some rq)"
| "to_a (SentBHeartbeat h) = FrameHeartbeat (Some h)"
| "to_a (SentComplete c) = FrameComplete (Some c)"

text \<open>The sides, and how many frames of the other side each has received.\<close>

record sign_in =
  si_a :: aside_state
  si_b :: bside_state
  si_a_in :: nat
  si_b_in :: nat

text \<open>
  What happens next: a side receives the next frame, something else happens to the A-side, or a
  receive of the B-side fails. The A-side reads the connection only while it waits for the request
  or the completion.
\<close>

datatype sign_in_event = AReceives go_time | BReceives | ALocal aside_event | BLost

definition a_reads :: "aside_state \<Rightarrow> bool" where
  "a_reads s \<longleftrightarrow> a_phase s = ARequest \<or> a_phase s = AComplete"

fun is_frame :: "aside_event \<Rightarrow> bool" where
  "is_frame (Frame now f) \<longleftrightarrow> True"
| "is_frame _ \<longleftrightarrow> False"

fun sign_in_step :: "aside_env \<Rightarrow> bside_env \<Rightarrow> sign_in \<Rightarrow> sign_in_event \<Rightarrow> sign_in" where
  "sign_in_step ae be s (AReceives now) =
     (if a_reads (si_a s) \<and> si_a_in s < length (b_sent (si_b s))
      then s\<lparr>si_a := aside_step ae (si_a s) (Frame now (to_a (b_sent (si_b s) ! si_a_in s))), si_a_in := si_a_in s + 1\<rparr>
      else s)"
| "sign_in_step ae be s BReceives =
     (if si_b_in s < length (a_sent (si_a s))
      then s\<lparr>si_b := bside_step be (si_b s) (BFrame (to_b (a_sent (si_a s) ! si_b_in s))), si_b_in := si_b_in s + 1\<rparr>
      else s)"
| "sign_in_step ae be s (ALocal ev) = (if is_frame ev then s else s\<lparr>si_a := aside_step ae (si_a s) ev\<rparr>)"
| "sign_in_step ae be s BLost = s\<lparr>si_b := bside_step be (si_b s) BReceiveFailed\<rparr>"

definition sign_in_start :: "registry \<Rightarrow> session_system \<Rightarrow> bside_env \<Rightarrow> string \<Rightarrow> sign_in" where
  "sign_in_start reg sys be raw = \<lparr>si_a = aside_start reg sys, si_b = bside_start be raw, si_a_in = 0, si_b_in = 0\<rparr>"

section \<open>Frames stay sent\<close>

lemma refuse_sent [simp]:
  "a_sent (refuse_request env now text err s) =
     a_sent (fst (a_send env (SentAck \<lparr>ba_id = rq_id (request_of s), ba_port = 0, ba_error = text, ba_replay = False\<rparr>) s))"
  by (simp add: refuse_request_def)

lemma fail_sent [simp]: "a_sent (fail_completion env now err s) = a_sent s"
  by (simp add: fail_completion_def)

text \<open>A step sends at most one frame; the frame is a relay only for an accepted callback.\<close>

definition sends :: "aside_state \<Rightarrow> (sent_frame \<Rightarrow> bool) \<Rightarrow> aside_state \<Rightarrow> bool" where
  "sends s ok t \<longleftrightarrow> a_sent t = a_sent s \<or> (\<exists>f. ok f \<and> a_sent t = a_sent s @ [f])"

definition callback_relay_of :: "aside_env \<Rightarrow> aside_state \<Rightarrow> aside_event \<Rightarrow> callback_relay \<Rightarrow> bool" where
  "callback_relay_of env s ev x \<longleftrightarrow>
     (\<exists>now r. ev = Callback now r True \<and> x = relay_of_request (rq_id (request_of s)) r \<and>
        accepted_callback env (request_of s) r \<and> (a_phase s = ACallback \<or> a_phase s = AComplete))"

lemma sends_same [simp]: "a_sent t = a_sent s \<Longrightarrow> sends s ok t"
  by (simp add: sends_def)

lemma sends_refuse: "a_sent t = a_sent s \<Longrightarrow> sends s (\<lambda>f. \<not> is_relay f) (refuse_request env now text err t)"
  by (auto simp: sends_def a_send_def)

lemma sends_start_listening: "sends s (\<lambda>f. \<not> is_relay f) (start_listening env now s)"
proof (cases "ae_bind env (rq_callback_port (request_of s))")
  case (Inr port)
  then show ?thesis
    by (auto simp: start_listening_def Let_def sends_def a_send_def)
qed (simp add: start_listening_def Let_def sends_refuse)

lemma sends_cong: "sends s ok t \<Longrightarrow> a_sent s = a_sent s' \<Longrightarrow> sends s' ok t"
  by (simp add: sends_def)

lemma sends_start_session: "sends s (\<lambda>f. \<not> is_relay f) (start_session env now s)"
  using sends_cong [OF sends_start_listening]
  by (auto simp: start_session_def Let_def sends_refuse split: option.split simp del: system_step.simps)

lemma sends_on_request: "sends s (\<lambda>f. \<not> is_relay f) (on_request env now rq s)"
proof (cases "request_refusal rq")
  case None
  obtain reg res where "register now (session_info_of env rq) (a_registry s) = (reg, res)" by fastforce
  with None show ?thesis
    using sends_cong [OF sends_start_session]
    by (cases res) (auto simp: on_request_def Let_def sends_refuse)
next
  case (Some e)
  then show ?thesis by (cases e) (simp add: on_request_def Let_def sends_refuse)
qed

lemma sends_heartbeat:
  "(\<And>e t. a_sent (fail e t) = a_sent t) \<Longrightarrow> sends s (\<lambda>f. \<not> is_relay f) (on_heartbeat env fail hb s)"
  by (cases rule: a_send_cases [of env "SentHeartbeat (the hb)" s]) (auto simp: on_heartbeat_def sends_def split: option.split)

lemma sends_owner_outcome: "sends s (\<lambda>f. \<not> is_relay f) (on_owner_outcome env now outcome s)"
  by (cases rule: a_send_cases [of env "replay_ack (request_of s)" s])
    (use sends_refuse [of s s] in \<open>auto simp: on_owner_outcome_def replay_ack_def split: wait_outcome.split\<close>,
     simp_all add: sends_def)

lemma sends_callback:
  assumes "a_phase s = ACallback \<or> a_phase s = AComplete"
  shows "sends s (\<lambda>f. \<exists>x. f = SentRelay x \<and> callback_relay_of env s (Callback now r b) x) (on_callback env now r b s)"
proof -
  let ?x = "relay_of_request (rq_id (request_of s)) r"
  have x: "callback_relay_of env s (Callback now r b) ?x" if "b" "\<not> 1048576 < length (hr_body r)"
      "validate_callback_request_state (ae_net env) r (callback_expectation (ae_net env) (rq_url (request_of s)))
         (form_state_of (ae_net env) r) = None"
    using that assms by (auto simp: callback_relay_of_def accepted_callback_def)
  show ?thesis
    by (cases rule: a_send_cases [of env "SentRelay ?x" "s\<lparr>a_captured := True\<rparr>"])
      (use x in \<open>auto simp: on_callback_def Let_def sends_def split: option.split\<close>)
qed

lemma sends_mono: "sends s ok t \<Longrightarrow> (\<And>f. ok f \<Longrightarrow> ok' f) \<Longrightarrow> sends s ok' t"
  by (auto simp: sends_def)

definition may_send :: "aside_env \<Rightarrow> aside_state \<Rightarrow> aside_event \<Rightarrow> sent_frame \<Rightarrow> bool" where
  "may_send env s ev f \<longleftrightarrow> (case f of SentRelay x \<Rightarrow> callback_relay_of env s ev x | _ \<Rightarrow> True)"

lemma may_send_frame: "\<not> is_relay f \<Longrightarrow> may_send env s ev f"
  by (cases f) (simp_all add: may_send_def)

lemma aside_step_sends: "sends s (may_send env s ev) (aside_step env s ev)"
proof -
  note mono = sends_mono [OF _ may_send_frame]
  show ?thesis
  proof (cases ev)
    case (Frame now f)
    show ?thesis
      unfolding Frame
      using mono [OF sends_on_request] mono [OF sends_heartbeat]
      by (auto simp: on_complete_def split: aside_phase.split aside_frame.split option.split)
  next
    case (Callback now r b)
    have "may_send env s ev f" if "\<exists>x. f = SentRelay x \<and> callback_relay_of env s (Callback now r b) x" for f
      using that Callback by (auto simp: may_send_def)
    with Callback sends_mono [OF sends_callback] show ?thesis by simp
  next
    case (ContextEnd now cause)
    then show ?thesis by (auto simp: on_context_end_def split: aside_phase.split)
  next
    case (Waiter now ctx_done prefer_ctx)
    then show ?thesis using mono [OF sends_owner_outcome] by (auto split: aside_phase.split option.split)
  qed (auto split: aside_phase.split session_event.split simp del: system_step.simps)
qed
section \<open>Where frames come from\<close>

text \<open>The request of a session once its listener is open, and the relays of browser requests.\<close>

definition sanitized :: "aside_env \<Rightarrow> bridge_request \<Rightarrow> bridge_request" where
  "sanitized env rq = rq\<lparr>rq_url := sanitize_url (ae_net env) (rq_url rq)\<rparr>"

definition browser_relay :: "aside_env \<Rightarrow> aside_event set \<Rightarrow> callback_relay \<Rightarrow> bool" where
  "browser_relay env E x \<longleftrightarrow>
     (\<exists>now r t rq. Callback now r True \<in> E \<and> Frame t (FrameRequest (Some rq)) \<in> E \<and>
        x = relay_of_request (rq_id rq) r \<and> accepted_callback env (sanitized env rq) r)"

definition live_request :: "aside_env \<Rightarrow> aside_event set \<Rightarrow> aside_state \<Rightarrow> bool" where
  "live_request env E s \<longleftrightarrow>
     (a_phase s = ACallback \<or> a_phase s = AComplete \<longrightarrow>
        (\<exists>t rq. Frame t (FrameRequest (Some rq)) \<in> E \<and> a_req s = Some (sanitized env rq)))"

definition origin_inv :: "aside_env \<Rightarrow> aside_event set \<Rightarrow> aside_state \<Rightarrow> bool" where
  "origin_inv env E s \<longleftrightarrow> live_request env E s \<and> list_all (\<lambda>f. case f of SentRelay x \<Rightarrow> browser_relay env E x | _ \<Rightarrow> True) (a_sent s)"

lemma refuse_req [simp]: "a_req (refuse_request env now text err s) = a_req s"
  by (simp add: refuse_request_def a_send_def)

lemma fail_req [simp]: "a_req (fail_completion env now err s) = a_req s"
  by (simp add: fail_completion_def)

lemma start_listening_req [simp]: "a_req (start_listening env now s) = a_req s"
  by (simp add: start_listening_def Let_def a_send_def split: sum.split)

lemma on_request_req: "\<exists>res. a_phase (on_request env now rq s) = ADone res \<or> a_req (on_request env now rq s) = Some (sanitized env rq)"
proof (cases "request_refusal rq")
  case None
  obtain reg res where "register now (session_info_of env rq) (a_registry s) = (reg, res)" by fastforce
  with None show ?thesis
    by (cases res) (auto simp: on_request_def start_session_def sanitized_def Let_def split: option.split simp del: system_step.simps)
next
  case (Some e)
  then show ?thesis by (cases e) (simp add: on_request_def Let_def)
qed

lemma heartbeat_keeps:
  "(\<And>e t. \<exists>res. a_phase (fail e t) = ADone res) \<Longrightarrow>
   (\<exists>res. a_phase (on_heartbeat env fail hb s) = ADone res) \<or>
   a_phase (on_heartbeat env fail hb s) = a_phase s \<and> a_req (on_heartbeat env fail hb s) = a_req s"
  by (cases rule: a_send_cases [of env "SentHeartbeat (the hb)" s]) (auto simp: on_heartbeat_def split: option.split)

lemma callback_keeps: "a_req (on_callback env now r b s) = a_req s"
  by (simp add: on_callback_def a_send_def Let_def split: option.split)

lemma live_done: "\<exists>res. a_phase s = ADone res \<Longrightarrow> live_request env E s"
  by (auto simp: live_request_def)

lemma live_cong: "live_request env E s \<Longrightarrow> a_phase t = a_phase s \<Longrightarrow> a_req t = a_req s \<Longrightarrow> live_request env E t"
  by (simp add: live_request_def)

lemma live_heartbeat:
  assumes "live_request env E s" "\<And>e t. \<exists>res. a_phase (fail e t) = ADone res"
  shows "live_request env E (on_heartbeat env fail hb s)"
  using heartbeat_keeps [of fail env hb s] assms live_done live_cong by metis

lemma live_callback:
  "live_request env E s \<Longrightarrow> a_phase s = ACallback \<or> a_phase s = AComplete \<Longrightarrow> live_request env E (on_callback env now r b s)"
  by (simp add: live_request_def callback_keeps)

lemma live_request_step:
  assumes inv: "live_request env E s" and e: "ev \<in> E"
  shows "live_request env E (aside_step env s ev)"
proof (cases ev)
  case (Frame now f)
  show ?thesis
  proof (cases "a_phase s")
    case ARequest
    have rq: "live_request env E (on_request env now rq s)" if "f = FrameRequest (Some rq)" for rq
      using on_request_req [of env now rq s] that e Frame by (auto simp: live_request_def)
    show ?thesis
      using Frame ARequest rq live_heartbeat [OF inv] live_done by (auto split: aside_frame.split option.split)
  next
    case AComplete
    then show ?thesis
      using Frame live_heartbeat [OF inv] live_done
      by (auto simp: on_complete_def split: aside_frame.split option.split)
  qed (use Frame inv in simp_all)
next
  case (Callback now r b)
  then show ?thesis using inv live_callback [OF inv] by simp
next
  case (ContextEnd now cause)
  then show ?thesis using inv live_done by (auto simp: on_context_end_def split: aside_phase.split)
next
  case (Waiter now ctx_done prefer_ctx)
  have "live_request env E (on_owner_outcome env now outcome s)" for outcome
    using inv live_done
    by (cases rule: a_send_cases [of env "replay_ack (request_of s)" s])
      (auto simp: on_owner_outcome_def replay_ack_def refuse_request_def split: wait_outcome.split)
  then show ?thesis using Waiter inv by (auto split: aside_phase.split option.split)
next
  case (OtherRegistry rev)
  then show ?thesis by (auto intro: live_cong [OF inv])
next
  case (OtherSession sev)
  then show ?thesis using inv by (auto intro: live_cong [OF inv] split: session_event.split simp del: system_step.simps)
qed (use inv live_done in \<open>auto split: aside_phase.split\<close>)

lemma origin_inv_step:
  assumes inv: "origin_inv env E s" and e: "ev \<in> E"
  shows "origin_inv env E (aside_step env s ev)"
proof -
  have live: "live_request env E s" using inv by (simp add: origin_inv_def)
  have "case f of SentRelay x \<Rightarrow> browser_relay env E x | _ \<Rightarrow> True" if "may_send env s ev f" for f
  proof (cases f)
    case (SentRelay x)
    then have "callback_relay_of env s ev x" using that by (simp add: may_send_def)
    then obtain now r where r: "ev = Callback now r True" "x = relay_of_request (rq_id (request_of s)) r"
      "accepted_callback env (request_of s) r" "a_phase s = ACallback \<or> a_phase s = AComplete"
      unfolding callback_relay_of_def by blast
    from live r(4) obtain t rq where q: "Frame t (FrameRequest (Some rq)) \<in> E" "a_req s = Some (sanitized env rq)"
      by (auto simp: live_request_def)
    then have "request_of s = sanitized env rq" "rq_id (sanitized env rq) = rq_id rq"
      by (simp_all add: request_of_def sanitized_def)
    with r q(1) e show ?thesis unfolding SentRelay by (auto simp: browser_relay_def)
  qed simp_all
  with inv aside_step_sends [of s env ev] live_request_step [OF live e] show ?thesis
    by (auto simp: origin_inv_def sends_def)
qed

interpretation origin: guarded_stepper "aside_step env" "\<lambda>ev. ev \<in> E" "origin_inv env E" for env E
  by unfold_locales (rule origin_inv_step)

text \<open>What the B-side has sent: a completion reports success only after the application took the callback.\<close>

definition honest_frame :: "bside_env \<Rightarrow> string \<Rightarrow> bside_state \<Rightarrow> bside_sent \<Rightarrow> bool" where
  "honest_frame env raw s f \<longleftrightarrow>
     (case f of
        SentRequest rq \<Rightarrow> \<exists>port. extract_callback_port (be_net env) raw = Inr port \<and> rq = bside_request env raw port
      | SentBHeartbeat h \<Rightarrow> True
      | SentComplete c \<Rightarrow> (\<exists>res. b_phase s = BDone res) \<and>
          (bc_success c \<longrightarrow> (\<exists>d status. b_delivered s = [d] \<and> be_http env d = Inr status \<and> 200 \<le> status \<and> status < 400)))"

definition honest_inv :: "bside_env \<Rightarrow> string \<Rightarrow> bside_state \<Rightarrow> bool" where
  "honest_inv env raw s \<longleftrightarrow> list_all (honest_frame env raw s) (b_sent s) \<and>
     (b_phase s = BAck \<or> b_phase s = BCallback \<longrightarrow> b_delivered s = [])"

lemma honest_start: "honest_inv env (sanitize_url (be_net env) raw0) (bside_start env raw0)"
proof (cases "start_refusal env (sanitize_url (be_net env) raw0)")
  case None
  then obtain port where "extract_callback_port (be_net env) (sanitize_url (be_net env) raw0) = Inr port"
    by (auto simp: start_refusal_def split: if_splits option.splits sum.splits)
  with None show ?thesis
    by (simp add: bside_start_def Let_def b_send_def b_fail_def honest_inv_def honest_frame_def)
qed (simp add: bside_start_def Let_def b_fail_def honest_inv_def)

lemma honest_mono:
  "honest_frame env raw s f \<Longrightarrow> b_delivered t = b_delivered s \<Longrightarrow> b_phase t = b_phase s \<or> (\<exists>res. b_phase t = BDone res) \<Longrightarrow>
   honest_frame env raw t f"
  by (cases f) (auto simp: honest_frame_def)

lemma honest_fail: "honest_inv env raw s \<Longrightarrow> honest_inv env raw (b_fail err s)"
  using honest_mono [of env raw s _ "b_fail err s"] by (auto simp: honest_inv_def b_fail_def list_all_iff)

lemma honest_heartbeat: "honest_inv env raw s \<Longrightarrow> honest_inv env raw (on_b_heartbeat env hb s)"
proof -
  assume inv: "honest_inv env raw s"
  have h: "honest_inv env raw (s\<lparr>b_sent := b_sent s @ [SentBHeartbeat h]\<rparr>)" for h
  proof -
    let ?t = "s\<lparr>b_sent := b_sent s @ [SentBHeartbeat h]\<rparr>"
    have "honest_frame env raw ?t (SentBHeartbeat h)" by (simp add: honest_frame_def)
    with inv show ?thesis using honest_mono [of env raw s _ ?t] by (auto simp: honest_inv_def list_all_iff)
  qed
  show ?thesis
    using honest_fail [OF inv] h inv
    by (cases rule: b_send_cases [of env "SentBHeartbeat (the hb)" s]) (auto simp: on_b_heartbeat_def split: option.split)
qed

lemma honest_waiting:
  "honest_inv env raw s \<Longrightarrow> b_phase s = BAck \<or> b_phase s = BCallback \<Longrightarrow> f \<in> set (b_sent s) \<Longrightarrow>
   (case f of SentRequest rq \<Rightarrow> \<exists>port. extract_callback_port (be_net env) raw = Inr port \<and> rq = bside_request env raw port
    | SentBHeartbeat h \<Rightarrow> True | SentComplete c \<Rightarrow> False)"
  by (fastforce simp: honest_inv_def honest_frame_def list_all_iff split: bside_sent.splits)

lemma honest_ack: "honest_inv env raw s \<Longrightarrow> b_phase s = BAck \<Longrightarrow> honest_inv env raw (on_bridge_ack env a s)"
proof -
  assume inv: "honest_inv env raw s" and ph: "b_phase s = BAck"
  have "honest_inv env raw (s\<lparr>b_phase := p\<rparr>)" if "p = BCallback \<or> p = BDone None" for p
    using honest_waiting [OF inv] ph inv that
    unfolding honest_inv_def list_all_iff by (fastforce simp: honest_frame_def split: bside_sent.splits)
  with honest_fail [OF inv] show ?thesis by (auto simp: on_bridge_ack_def split: option.split)
qed

lemma honest_deliver:
  assumes inv: "honest_inv env raw s" and ph: "b_phase s = BCallback"
  shows "honest_inv env raw (deliver env d s)"
proof -
  obtain s1 out where o: "deliver_once env d s = (s1, out)" by fastforce
  have d: "b_delivered s = []" using inv ph by (simp add: honest_inv_def)
  have s1: "b_sent s1 = b_sent s" "b_phase s1 = BCallback"
    "out = None \<Longrightarrow> b_delivered s1 = [d] \<and> (\<exists>status. be_http env d = Inr status \<and> 200 \<le> status \<and> status < 400)"
    using o d ph by (auto simp: deliver_once_def split: option.splits sum.splits if_splits)
  have keep: "list_all (honest_frame env raw t) (b_sent s)" for t
    using honest_waiting [OF inv] ph unfolding list_all_iff by (fastforce simp: honest_frame_def split: bside_sent.splits)
  show ?thesis
  proof (cases out)
    case None
    then have "\<exists>status. b_delivered s1 = [d] \<and> be_http env d = Inr status \<and> 200 \<le> status \<and> status < 400" using s1(3) by blast
    with None o s1 keep show ?thesis
      by (cases rule: b_send_cases [of env "complete_frame env None" s1])
        (auto simp: deliver_def honest_inv_def b_fail_def complete_frame_def honest_frame_def)
  next
    case (Some e)
    let ?f = "complete_frame env (Some (''deliver callback to localhost:'' @ int_text (b_port s) @ '' failed: '' @ e))"
    from Some o s1 keep show ?thesis
      by (cases rule: b_send_cases [of env ?f s1])
        (auto simp: deliver_def honest_inv_def b_fail_def complete_frame_def honest_frame_def Let_def)
  qed
qed

lemma honest_relay: "honest_inv env raw s \<Longrightarrow> b_phase s = BCallback \<Longrightarrow> honest_inv env raw (on_relay env ro s)"
  using honest_fail [of env raw s] honest_deliver [of env raw s]
  by (auto simp: on_relay_def Let_def split: option.split sum.split)

lemma honest_step: "honest_inv env raw s \<Longrightarrow> honest_inv env raw (bside_step env s ev)"
proof (cases ev)
  case (BFrame f)
  assume "honest_inv env raw s"
  with BFrame show ?thesis
    using honest_fail honest_heartbeat honest_ack honest_relay by (auto split: bside_phase.split bside_frame.split)
qed (auto simp: honest_fail split: bside_phase.split)

interpretation honest: stepper "bside_step env" "honest_inv env raw" for env raw
  by unfold_locales (rule honest_step)
lemma b_sent_mono: "set (b_sent s) \<subseteq> set (b_sent (bside_step env s ev))"
proof -
  have f: "b_sent (b_fail e t) = b_sent t" for e t by (simp add: b_fail_def)
  have send: "set (b_sent t) \<subseteq> set (b_sent (fst (b_send env g t)))" for g t by (auto simp: b_send_def)
  have hb: "set (b_sent s) \<subseteq> set (b_sent (on_b_heartbeat env h s))" for h
    by (cases rule: b_send_cases [of env "SentBHeartbeat (the h)" s]) (auto simp: on_b_heartbeat_def f split: option.split)
  have ack: "set (b_sent s) \<subseteq> set (b_sent (on_bridge_ack env a s))" for a
    by (auto simp: on_bridge_ack_def f split: option.split)
  have del: "set (b_sent s) \<subseteq> set (b_sent (deliver env d s))" for d
  proof -
    obtain s1 out where o: "deliver_once env d s = (s1, out)" by fastforce
    then have s1: "b_sent s1 = b_sent s" by (auto simp: deliver_once_def split: option.splits)
    show ?thesis
    proof (cases out)
      case None
      with o s1 show ?thesis
        by (cases rule: b_send_cases [of env "complete_frame env None" s1]) (auto simp: deliver_def f)
    next
      case (Some e)
      let ?g = "complete_frame env (Some (''deliver callback to localhost:'' @ int_text (b_port s) @ '' failed: '' @ e))"
      from Some o s1 send [of s1 ?g] show ?thesis by (simp add: deliver_def f Let_def)
    qed
  qed
  then have rel: "set (b_sent s) \<subseteq> set (b_sent (on_relay env r s))" for r
    by (simp add: on_relay_def f Let_def split: option.split sum.split)
  show ?thesis
  proof (cases ev)
    case (BFrame g)
    then show ?thesis using hb ack rel by (simp add: f split: bside_phase.split bside_frame.split)
  qed (simp add: f split: bside_phase.split)
qed

lemma a_sent_mono: "set (a_sent s) \<subseteq> set (a_sent (aside_step env s ev))"
  using aside_step_sends [of s env ev] by (auto simp: sends_def)

section \<open>Each side sees only what the other sent\<close>

definition a_inputs :: "sign_in_event list \<Rightarrow> sign_in \<Rightarrow> aside_event set" where
  "a_inputs es s = {Frame t (to_a f) | t f. f \<in> set (b_sent (si_b s))} \<union> {ev. ALocal ev \<in> set es \<and> \<not> is_frame ev}"

definition b_inputs :: "sign_in \<Rightarrow> bside_event set" where
  "b_inputs s = {BFrame (to_b f) | f. f \<in> set (a_sent (si_a s))} \<union> {BReceiveFailed}"

lemma inputs_mono:
  "set (b_sent (si_b s)) \<subseteq> set (b_sent (si_b t)) \<Longrightarrow> set es \<subseteq> set es' \<Longrightarrow> a_inputs es s \<subseteq> a_inputs es' t"
  "set (a_sent (si_a s)) \<subseteq> set (a_sent (si_a t)) \<Longrightarrow> b_inputs s \<subseteq> b_inputs t"
  by (auto simp: a_inputs_def b_inputs_def)

text \<open>A step of the two is a step of one of them, on an input of its own, or nothing.\<close>

lemma sign_in_step_cases:
  obtains "sign_in_step ae be s ev = s"
  | (A) x where "si_a (sign_in_step ae be s ev) = aside_step ae (si_a s) x" "si_b (sign_in_step ae be s ev) = si_b s"
      "x \<in> a_inputs [ev] s"
  | (B) x where "si_b (sign_in_step ae be s ev) = bside_step be (si_b s) x" "si_a (sign_in_step ae be s ev) = si_a s"
      "x \<in> b_inputs s"
proof (cases ev)
  case (AReceives now)
  have "Frame now (to_a (b_sent (si_b s) ! si_a_in s)) \<in> a_inputs [ev] s" if "si_a_in s < length (b_sent (si_b s))"
    unfolding a_inputs_def using nth_mem [OF that] by blast
  with AReceives show thesis using that(1) A [of "Frame now (to_a (b_sent (si_b s) ! si_a_in s))"]
    by (cases "a_reads (si_a s) \<and> si_a_in s < length (b_sent (si_b s))") simp_all
next
  case BReceives
  have "BFrame (to_b (a_sent (si_a s) ! si_b_in s)) \<in> b_inputs s" if "si_b_in s < length (a_sent (si_a s))"
    unfolding b_inputs_def using nth_mem [OF that] by blast
  with BReceives show thesis using that(1) B [of "BFrame (to_b (a_sent (si_a s) ! si_b_in s))"]
    by (cases "si_b_in s < length (a_sent (si_a s))") simp_all
next
  case (ALocal x)
  then show thesis using that(1) A [of x] by (cases "is_frame x") (simp_all add: a_inputs_def)
next
  case BLost
  then show thesis using B [of BReceiveFailed] by (simp add: b_inputs_def)
qed

lemma two_sides:
  fixes es ae be reg sys raw
  defines "s \<equiv> foldl (sign_in_step ae be) (sign_in_start reg sys be raw) es"
  obtains as bs where "si_a s = foldl (aside_step ae) (aside_start reg sys) as" "set as \<subseteq> a_inputs es s"
    "si_b s = foldl (bside_step be) (bside_start be raw) bs" "set bs \<subseteq> b_inputs s"
proof -
  have "\<exists>as bs. si_a s = foldl (aside_step ae) (aside_start reg sys) as \<and> set as \<subseteq> a_inputs es s \<and>
      si_b s = foldl (bside_step be) (bside_start be raw) bs \<and> set bs \<subseteq> b_inputs s"
    unfolding s_def
  proof (induction es rule: rev_induct)
    case Nil
    show ?case by (intro exI [of _ "[]"]) (simp add: sign_in_start_def)
  next
    case (snoc ev es)
    let ?s = "foldl (sign_in_step ae be) (sign_in_start reg sys be raw) es"
    let ?t = "sign_in_step ae be ?s ev"
    from snoc obtain as bs where ih: "si_a ?s = foldl (aside_step ae) (aside_start reg sys) as" "set as \<subseteq> a_inputs es ?s"
      "si_b ?s = foldl (bside_step be) (bside_start be raw) bs" "set bs \<subseteq> b_inputs ?s" by blast
    have grow: "set es \<subseteq> set (es @ [ev])" "set [ev] \<subseteq> set (es @ [ev])" by auto
    show ?case
    proof (cases rule: sign_in_step_cases [of ae be ?s ev])
      case 1
      have "a_inputs es ?s \<subseteq> a_inputs (es @ [ev]) ?s" by (rule inputs_mono) (use grow in simp_all)
      with ih 1 show ?thesis by (intro exI [of _ as] exI [of _ bs]) auto
    next
      case (A x)
      have "set (b_sent (si_b ?s)) \<subseteq> set (b_sent (si_b ?t))" "set (a_sent (si_a ?s)) \<subseteq> set (a_sent (si_a ?t))"
        using A(1,2) a_sent_mono by simp_all
      then have "a_inputs es ?s \<subseteq> a_inputs (es @ [ev]) ?t" "a_inputs [ev] ?s \<subseteq> a_inputs (es @ [ev]) ?t"
        "b_inputs ?s \<subseteq> b_inputs ?t"
        using inputs_mono grow by metis+
      with ih A show ?thesis by (intro exI [of _ "as @ [x]"] exI [of _ bs]) auto
    next
      case (B x)
      have "set (b_sent (si_b ?s)) \<subseteq> set (b_sent (si_b ?t))" "set (a_sent (si_a ?s)) \<subseteq> set (a_sent (si_a ?t))"
        using B(1,2) b_sent_mono by simp_all
      then have "a_inputs es ?s \<subseteq> a_inputs (es @ [ev]) ?t" "b_inputs ?s \<subseteq> b_inputs ?t"
        using inputs_mono grow by metis+
      with ih B show ?thesis by (intro exI [of _ as] exI [of _ "bs @ [x]"]) auto
    qed
  qed
  then show thesis using that by blast
qed

lemma relayed_method:
  "accepted_callback ae rq r \<Longrightarrow> relay_method (relay_of_request rid r) = hr_method r"
  by (auto simp: accepted_callback_def validate_callback_request_state_def relay_method_def relay_of_request_def split: if_splits)

text \<open>
  C5. End to end, in every interleaving of the two sides, the browser, cancellations, lost
  connections, failing sends and other sessions: the application receives at most one request, and
  it is a request the browser made, with its method, body, path, query and allowed headers, which the
  A-side accepted against the authorization URL the B-side had sent. And the A-side reports success
  only if the application answered that request with a status from 200 to 399, or if it answered the
  B-side that the same request had been completed before.\<close>

theorem application_gets_browser_request:
  assumes "s = foldl (sign_in_step ae be) (sign_in_start reg sys be raw0) es"
    and "raw = sanitize_url (be_net be) raw0"
  shows "(b_delivered (si_b s) = [] \<or>
      (\<exists>d now r port. b_delivered (si_b s) = [d] \<and> ALocal (Callback now r True) \<in> set es \<and>
         extract_callback_port (be_net be) raw = Inr port \<and>
         accepted_callback ae (sanitized ae (bside_request be raw port)) r \<and>
         dl_method d = hr_method r \<and> dl_body d = hr_body r \<and>
         dl_headers d = filter_callback_relay_headers (callback_headers (hr_header r)) \<and>
         callback_request_url (be_net be) port (hr_request_uri r) = Inr (dl_url d))) \<and>
    (a_phase (si_a s) = ADone None \<longrightarrow>
      (\<exists>d status. b_delivered (si_b s) = [d] \<and> be_http be d = Inr status \<and> 200 \<le> status \<and> status < 400) \<or>
      replay_ack (request_of (si_a s)) \<in> set (a_sent (si_a s)))"
proof -
  obtain as bs where a: "si_a s = foldl (aside_step ae) (aside_start reg sys) as" "set as \<subseteq> a_inputs es s"
    and b: "si_b s = foldl (bside_step be) (bside_start be raw0) bs" "set bs \<subseteq> b_inputs s"
    unfolding assms(1) by (rule two_sides)
  have bi: "bside_inv be (set bs) raw (si_b s)"
    unfolding b(1) by (rule bside.allowed_run_inv) (simp_all add: assms(2) bside_inv_start list_all_iff)
  have hon: "honest_inv be raw (si_b s)"
    unfolding b(1) assms(2) by (rule honest.run_inv [OF honest_start])
  have "origin_inv ae (set as) (aside_start reg sys)"
    by (simp add: origin_inv_def live_request_def aside_start_def)
  then have orig: "origin_inv ae (set as) (si_a s)"
    unfolding a(1) by (rule origin.allowed_run_inv) (simp add: list_all_iff)
  have request: "\<exists>port. extract_callback_port (be_net be) raw = Inr port \<and> rq = bside_request be raw port"
    if "Frame t (FrameRequest (Some rq)) \<in> set as" for t rq
  proof -
    from that a(2) obtain f where "to_a f = FrameRequest (Some rq)" "f \<in> set (b_sent (si_b s))"
      by (auto simp: a_inputs_def)
    then have "SentRequest rq \<in> set (b_sent (si_b s))" by (cases f) simp_all
    with hon show ?thesis by (fastforce simp: honest_inv_def honest_frame_def list_all_iff)
  qed
  have ex: "\<exists>now r port. ALocal (Callback now r True) \<in> set es \<and> extract_callback_port (be_net be) raw = Inr port \<and>
      accepted_callback ae (sanitized ae (bside_request be raw port)) r \<and>
      dl_method d = hr_method r \<and> dl_body d = hr_body r \<and>
      dl_headers d = filter_callback_relay_headers (callback_headers (hr_header r)) \<and>
      callback_request_url (be_net be) port (hr_request_uri r) = Inr (dl_url d)"
    if cd: "checked_delivery be (set bs) raw d" for d
  proof -
    obtain relay target port where r: "BFrame (BFrameRelay (Some relay)) \<in> set bs" "d = delivery_of be (relay_method relay) target relay"
      "extract_callback_port (be_net be) raw = Inr port" "callback_request_url (be_net be) port (cr_path relay) = Inr target"
      using cd by (auto simp: checked_delivery_def checked_relay_def)
    from r(1) b(2) obtain f where f: "to_b f = BFrameRelay (Some relay)" "f \<in> set (a_sent (si_a s))"
      by (auto simp: b_inputs_def)
    then have "SentRelay relay \<in> set (a_sent (si_a s))" by (cases f) simp_all
    with orig have "browser_relay ae (set as) relay" by (fastforce simp: origin_inv_def list_all_iff)
    then obtain now q t rq where q: "Callback now q True \<in> set as" "Frame t (FrameRequest (Some rq)) \<in> set as"
      "relay = relay_of_request (rq_id rq) q" "accepted_callback ae (sanitized ae rq) q"
      by (auto simp: browser_relay_def)
    from request [OF q(2)] r(3) have rq: "rq = bside_request be raw port" by auto
    have "ALocal (Callback now q True) \<in> set es" using q(1) a(2) by (auto simp: a_inputs_def)
    moreover have "relay_method relay = hr_method q" using q(3) relayed_method [OF q(4)] by simp
    ultimately show ?thesis
      using q(3,4) r(2-4) rq by (auto simp: relay_of_request_def delivery_of_def Let_def)
  qed
  have one: "b_delivered (si_b s) = [] \<or> (\<exists>d. b_delivered (si_b s) = [d] \<and> checked_delivery be (set bs) raw d)"
    using bi by (auto simp: bside_inv_def split: bside_phase.splits)
  have "(\<exists>d status. b_delivered (si_b s) = [d] \<and> be_http be d = Inr status \<and> 200 \<le> status \<and> status < 400) \<or>
      replay_ack (request_of (si_a s)) \<in> set (a_sent (si_a s))" if fin: "a_phase (si_a s) = ADone None"
  proof (cases "replay_ack (request_of (si_a s)) \<in> set (a_sent (si_a s))")
    case False
    have "a_phase (aside_start reg sys) \<noteq> ADone None" by (simp add: aside_start_def)
    with success_run [of ae "aside_start reg sys" as] False fin a(1) obtain t c where
      c: "Frame t (FrameComplete (Some c)) \<in> set as" "bc_success c"
      by (auto simp: Let_def list_ex_iff confirms_def)
    from c(1) a(2) obtain f where "to_a f = FrameComplete (Some c)" "f \<in> set (b_sent (si_b s))"
      by (auto simp: a_inputs_def)
    then have "SentComplete c \<in> set (b_sent (si_b s))" by (cases f) simp_all
    with hon c(2) show ?thesis by (fastforce simp: honest_inv_def honest_frame_def list_all_iff)
  qed simp
  with one ex show ?thesis by blast
qed
section \<open>A sign-in without faults\<close>

text \<open>Each step of it.\<close>

lemma b_starts:
  assumes "sanitize_url (be_net be) raw = raw" "start_refusal be raw = None"
    and "extract_callback_port (be_net be) raw = Inr port" "\<not> be_send_fails be 0"
  shows "bside_start be raw = \<lparr>b_phase = BAck, b_url = raw, b_port = port,
     b_sent = [SentRequest (bside_request be raw port)], b_delivered = []\<rparr>"
  using assms by (simp add: bside_start_def b_send_def Let_def)

lemma a_listens:
  fixes sys :: session_system and ae :: aside_env and rq :: bridge_request
  defines "key \<equiv> oauth_session_key (ae_net ae) (ae_sha ae) (ae_peer ae) (ae_remote ae) rq"
  assumes "request_refusal rq = None" "snd (register now (session_info_of ae rq) reg) = Inr sid"
    and "sanitize_url (ae_net ae) (rq_url rq) = rq_url rq" "validate_url (ae_net ae) (rq_url rq) = None"
    and "1 \<le> rq_callback_port rq" "rq_callback_port rq \<le> 65535"
    and "\<not> sl_refused (snd (acquire now key (fst sys)))" "sl_owner (snd (acquire now key (fst sys)))"
    and "ae_bind ae (rq_callback_port rq) = Inr port" "1 \<le> port" "\<not> ae_send_fails ae 0"
  shows "let s = aside_step ae (aside_start reg sys) (Frame now (FrameRequest (Some rq)))
    in a_phase s = ACallback \<and> a_req s = Some rq \<and> a_sent s = [port_ack rq port] \<and> a_listening s = Some port \<and> \<not> a_captured s"
proof -
  obtain reg' where reg: "register now (session_info_of ae rq) reg = (reg', Inr sid)"
    using assms(3) by (cases "register now (session_info_of ae rq) reg") simp
  have upd: "rq\<lparr>rq_url := rq_url rq\<rparr> = rq" by simp
  obtain m ls where sys: "sys = (m, ls)" by (cases sys)
  have lease: "snd (system_step sys (Acquire now key)) ! length (snd sys) = snd (acquire now key (fst sys))"
    by (simp add: sys split_def Let_def)
  show ?thesis
    using assms(2,4-12) lease
    by (simp add: aside_start_def on_request_def start_session_def start_listening_def request_of_def reg upd a_send_def port_ack_def
        key_def [symmetric] Let_def del: system_step.simps)
qed

lemma a_relays:
  assumes "a_phase s = ACallback" "a_req s = Some rq" "a_sent s = [ack]" "a_listening s = Some port" "\<not> a_captured s"
    and "accepted_callback ae rq r" "validate_callback_request (ae_net ae) r ((callback_expectation (ae_net ae) (rq_url rq))\<lparr>ex_state := ''''\<rparr>) = None"
    and "\<not> ae_send_fails ae 1"
  shows "let t = aside_step ae s (Callback now r True)
    in a_phase t = AComplete \<and> a_req t = Some rq \<and> a_sent t = [ack, SentRelay (relay_of_request (rq_id rq) r)]"
  using assms by (simp add: on_callback_def accepted_callback_def request_of_def a_send_def Let_def)

lemma accepted_without_state:
  assumes "validate_callback_request_state nl r ex form = None"
  shows "validate_callback_request nl r (ex\<lparr>ex_state := ''''\<rparr>) = None"
  using assms
  by (cases ex) (auto simp: validate_callback_request_def validate_callback_request_state_def
      validate_callback_fetch_metadata_def Let_def split: if_splits option.splits)

lemma b_waits_for_callback:
  assumes "b_phase s = BAck" "1 \<le> p" "p \<le> 65535"
  shows "bside_step be s (BFrame (to_b (SentAck \<lparr>ba_id = be_req_id be, ba_port = p, ba_error = '''', ba_replay = False\<rparr>))) =
    s\<lparr>b_phase := BCallback\<rparr>"
  using assms by (simp add: on_bridge_ack_def)

lemma b_delivers:
  fixes s be relay target
  defines "d \<equiv> delivery_of be (relay_method relay) target relay"
  assumes "b_phase s = BCallback" "b_delivered s = []" "cr_id relay = be_req_id be"
    and "validate_callback_relay (be_net be) (callback_expectation (be_net be) (b_url s)) relay = None"
    and "callback_request_url (be_net be) (b_port s) (cr_path relay) = Inr target"
    and "be_request_error be d = None" "be_http be d = Inr status" "200 \<le> status" "status < 400"
    and "\<not> be_send_fails be (length (b_sent s))"
  shows "bside_step be s (BFrame (to_b (SentRelay relay))) =
    s\<lparr>b_phase := BDone None, b_delivered := [d], b_sent := b_sent s @ [complete_frame be None]\<rparr>"
  using assms checked_relay_method [OF assms(5)]
  by (auto simp: on_relay_def deliver_def deliver_once_def b_send_def Let_def)

lemma a_succeeds:
  assumes "a_phase s = AComplete" "a_req s = Some rq" "rq_id rq = be_req_id be"
  shows "a_phase (aside_step ae s (Frame now (to_a (complete_frame be None)))) = ADone None"
  using assms by (simp add: complete_frame_def on_complete_def request_of_def)

lemma extracted_port_range:
  assumes "extract_callback_port nl raw = Inr port"
  shows "1 \<le> port \<and> port \<le> 65535"
proof -
  have range: "port_in_range t = Some p \<Longrightarrow> 1 \<le> p \<and> p \<le> 65535" for t p
    by (auto simp: port_in_range_def split: option.splits if_splits)
  have from_url: "port_from_url_text nl t = Some p \<Longrightarrow> 1 \<le> p \<and> p \<le> 65535" for t p
    using range by (auto simp: port_from_url_text_def split: option.splits if_splits)
  have state: "port_from_loopback_state nl t = Some p \<Longrightarrow> 1 \<le> p \<and> p \<le> 65535" for t p
    using from_url by (auto simp: port_from_loopback_state_def split: option.splits if_splits)
  show ?thesis
    using assms range state
    by (auto simp: extract_callback_port_def Let_def split: option.splits if_splits)
qed

text \<open>
  What has to hold for a sign-in of the application behind \<open>raw\<close> to go through: the URL is one the
  B-side starts, the A-side has room and its port is free, nothing is lost, and the application is
  ready to answer.
\<close>

definition sign_in_ready :: "aside_env \<Rightarrow> bside_env \<Rightarrow> registry \<Rightarrow> session_system \<Rightarrow> go_time \<Rightarrow> string \<Rightarrow> int \<Rightarrow> bool" where
  "sign_in_ready ae be reg sys now raw port \<longleftrightarrow>
     (let rq = bside_request be raw port;
          key = oauth_session_key (ae_net ae) (ae_sha ae) (ae_peer ae) (ae_remote ae) rq
      in ae_net ae = be_net be \<and> sanitize_url (be_net be) raw = raw \<and> start_refusal be raw = None \<and>
         extract_callback_port (be_net be) raw = Inr port \<and>
         valid_bridge_request_id (be_req_id be) \<and> length (request_flow be raw) \<le> max_flow_id_length \<and>
         (\<exists>sid. snd (register now (session_info_of ae rq) reg) = Inr sid) \<and>
         \<not> sl_refused (snd (acquire now key (fst sys))) \<and> sl_owner (snd (acquire now key (fst sys))) \<and>
         ae_bind ae port = Inr port)"

lemma start_refusal_url: "start_refusal be raw = None \<Longrightarrow> length raw \<le> max_oauth_url_length \<and> validate_url (be_net be) raw = None"
  by (auto simp: start_refusal_def split: if_splits option.splits)

lemma sign_in_run:
  fixes ae be reg sys t1 t2 t3 raw port r p target
  defines "s \<equiv> foldl (sign_in_step ae be) (sign_in_start reg sys be raw)
      [AReceives t1, BReceives, ALocal (Callback t2 r True), BReceives, AReceives t3]"
    and "relay \<equiv> relay_of_request (be_req_id be) r"
  assumes ready: "sign_in_ready ae be reg sys t1 raw port"
    and sends: "\<And>n. \<not> ae_send_fails ae n" "\<And>n. \<not> be_send_fails be n"
    and acc: "accepted_callback ae (bside_request be raw port) r"
    and relayed: "validate_callback_relay (be_net be) (callback_expectation (be_net be) raw) relay = None"
    and target: "callback_request_url (be_net be) port (hr_request_uri r) = Inr target"
    and app: "be_request_error be (delivery_of be (hr_method r) target relay) = None"
      "be_http be (delivery_of be (hr_method r) target relay) = Inr status" "200 \<le> status" "status < 400"
  shows "a_phase (si_a s) = ADone None \<and> b_phase (si_b s) = BDone None \<and>
    b_delivered (si_b s) = [delivery_of be (hr_method r) target relay]"
proof -
  let ?rq = "bside_request be raw port"
  let ?d = "delivery_of be (hr_method r) target relay"
  have rq: "rq_url ?rq = raw" "rq_callback_port ?rq = port" "rq_id ?rq = be_req_id be" "rq_flow_id ?rq = request_flow be raw"
    by (simp_all add: bside_request_def)
  note ready = ready [unfolded sign_in_ready_def Let_def]
  have port: "1 \<le> port" "port \<le> 65535" using ready extracted_port_range by blast+
  have net: "ae_net ae = be_net be" "sanitize_url (be_net be) raw = raw" using ready by blast+
  have b0: "bside_start be raw = \<lparr>b_phase = BAck, b_url = raw, b_port = port, b_sent = [SentRequest ?rq], b_delivered = []\<rparr>"
    using ready sends(2) by (intro b_starts) blast+
  have refusal: "request_refusal ?rq = None"
    using ready start_refusal_url [of be raw] by (simp add: request_refusal_def rq linorder_not_less)
  obtain sid where sid: "snd (register t1 (session_info_of ae ?rq) reg) = Inr sid" using ready by blast
  let ?a1 = "aside_step ae (aside_start reg sys) (Frame t1 (FrameRequest (Some ?rq)))"
  have a1: "a_phase ?a1 = ACallback" "a_req ?a1 = Some ?rq" "a_sent ?a1 = [port_ack ?rq port]" "a_listening ?a1 = Some port" "\<not> a_captured ?a1"
    using a_listens [OF refusal sid, of sys port] ready start_refusal_url [of be raw] port sends(1) net rq
    by (simp_all add: Let_def)
  have v: "validate_callback_request (ae_net ae) r ((callback_expectation (ae_net ae) (rq_url ?rq))\<lparr>ex_state := ''''\<rparr>) = None"
    using acc by (intro accepted_without_state [where form = "form_state_of (ae_net ae) r"]) (simp add: accepted_callback_def)
  let ?a2 = "aside_step ae ?a1 (Callback t2 r True)"
  have a2: "a_phase ?a2 = AComplete" "a_req ?a2 = Some ?rq" "a_sent ?a2 = [port_ack ?rq port, SentRelay relay]"
    using a_relays [OF a1 acc v sends(1)] rq(3) by (simp_all add: Let_def relay_def)
  let ?b0 = "bside_start be raw"
  have b1: "bside_step be ?b0 (BFrame (to_b (port_ack ?rq port))) = ?b0\<lparr>b_phase := BCallback\<rparr>"
    using b_waits_for_callback [of ?b0 port be] port rq(3) by (simp add: b0 port_ack_def)
  have m: "relay_method relay = hr_method r" using relayed_method [OF acc] by (simp add: relay_def)
  have path: "cr_path relay = hr_request_uri r" "cr_id relay = be_req_id be" by (simp_all add: relay_def relay_of_request_def)
  let ?b2 = "bside_step be (?b0\<lparr>b_phase := BCallback\<rparr>) (BFrame (to_b (SentRelay relay)))"
  have b2: "?b2 = ?b0\<lparr>b_phase := BDone None, b_delivered := [?d], b_sent := [SentRequest ?rq, complete_frame be None]\<rparr>"
    using b_delivers [of "?b0\<lparr>b_phase := BCallback\<rparr>" relay be target status] relayed target app sends(2) m path
    by (simp add: b0)
  have done3: "a_phase (aside_step ae ?a2 (Frame t3 (to_a (complete_frame be None)))) = ADone None"
    by (rule a_succeeds [OF a2(1,2) rq(3)])
  show ?thesis
    using a1 a2 b1 b2 done3
    by (simp add: s_def sign_in_start_def a_reads_def b0 aside_start_def numeral_2_eq_2 del: aside_step.simps bside_step.simps)
qed

text \<open>
  C4. A sign-in without faults completes: when the B-side can start it, the A-side has room for it
  and gets its port, nothing is lost, the browser comes back with a request the A-side accepts (as
  \<open>net/http\<close> delivers requests, with body and headers within the limits), and the application answers
  with a status from 200 to 399, then both sides end without an error and the application has
  received exactly the browser's request: its method, path and query at the callback port, its
  allowed headers and its body.\<close>

theorem sign_in_completes:
  assumes "s = foldl (sign_in_step ae be) (sign_in_start reg sys be raw)
      [AReceives t1, BReceives, ALocal (Callback t2 r True), BReceives, AReceives t3]"
    and "sign_in_ready ae be reg sys t1 raw port"
    and "\<And>n. \<not> ae_send_fails ae n" "\<And>n. \<not> be_send_fails be n"
    and "accepted_callback ae (bside_request be raw port) r"
    and "canonical_headers (hr_header r)" "\<not> header_bytes_exceed 0 (callback_headers (hr_header r))"
    and "nl_parse_request_uri (be_net be) (hr_request_uri r) = Some p" "ur_scheme p = ''''" "ur_host p = ''''"
    and "has_prefix (ur_path p) ''/''" "ur_path p = ur_path (hr_url r)" "ur_raw_query p = ur_raw_query (hr_url r)"
    and "form_state_of (be_net be) r \<in> {'''', values_get (url_query (be_net be) (hr_url r)) ''state''} \<or>
      values_get (url_query (be_net be) (hr_url r)) ''state'' = ''''"
    and "nl_parse_query (be_net be) '''' = ([], True)"
    and "hr_request_uri r \<noteq> ''''"
    and "\<And>d. be_request_error be d = None" "\<And>d. be_http be d = Inr status" "200 \<le> status" "status < 400"
  shows "\<exists>d. a_phase (si_a s) = ADone None \<and> b_phase (si_b s) = BDone None \<and> b_delivered (si_b s) = [d] \<and>
    dl_method d = hr_method r \<and> dl_body d = hr_body r \<and>
    ur_host (dl_url d) = join_host_port ''127.0.0.1'' (int_text port) \<and>
    ur_path (dl_url d) = ur_path (hr_url r) \<and> ur_raw_query (dl_url d) = ur_raw_query (hr_url r) \<and>
    dl_headers d = filter_callback_relay_headers (callback_headers (hr_header r))"
proof -
  let ?relay = "relay_of_request (be_req_id be) r"
  have net: "ae_net ae = be_net be" using assms(2) by (simp add: sign_in_ready_def Let_def)
  have acc: "length (hr_body r) \<le> 1048576"
    "validate_callback_request_state (be_net be) r (callback_expectation (be_net be) raw) (form_state_of (be_net be) r) = None"
    using assms(5) net by (simp_all add: accepted_callback_def bside_request_def)
  have v: "validate_callback_relay (be_net be) (callback_expectation (be_net be) raw) ?relay = None"
    by (rule relay_passes [OF assms(6) acc(2) acc(1) assms(7-15)])
  show ?thesis
  proof (cases "callback_request_url (be_net be) port (hr_request_uri r)")
    case (Inr target)
    have t: "ur_host target = join_host_port ''127.0.0.1'' (int_text port)" "ur_path target = ur_path (hr_url r)"
      "ur_raw_query target = ur_raw_query (hr_url r)"
      using Inr assms(8-13,16) by (auto simp: callback_request_url_def split: if_splits option.splits)
    from sign_in_run [OF assms(2-5) v Inr assms(17,18,19,20)] t show ?thesis
      unfolding assms(1) by (auto simp: delivery_of_def relay_of_request_def Let_def)
  next
    case (Inl e)
    with assms(8-11,16) show ?thesis by (simp add: callback_request_url_def split: if_splits)
  qed
qed

text \<open>The application of \<open>demo_auth_url\<close> gets its callback.\<close>

definition demo_browser_request :: http_request where
  "demo_browser_request = \<lparr>hr_method = ''GET'', hr_host = ''localhost'', hr_header = [(''Accept'', [''text/html''])],
     hr_url = the (demo_parse '':///cb?code=7''), hr_request_uri = '':///cb?code=7'', hr_body = ''''\<rparr>"

definition demo_sign_in_events :: "sign_in_event list" where
  "demo_sign_in_events = [AReceives 10, BReceives, ALocal (Callback 20 demo_browser_request True), BReceives, AReceives 30]"

lemma demo_ready: "sign_in_ready demo_aenv demo_benv new_registry (new_manager, []) 10 demo_auth_url 8085"
proof -
  have env: "ae_net demo_aenv = demo_net" "be_net demo_benv = demo_net" "ae_bind demo_aenv = Inr" "be_req_id demo_benv = ''r1''"
    "be_flow demo_benv = ''f''" "be_sha demo_benv = demo_sha_text"
    by (simp_all add: demo_aenv_def demo_benv_def)
  have b: "b_phase (bside_start demo_benv demo_auth_url) = BAck" by (simp add: demo_bside_start)
  then have "start_refusal demo_benv demo_auth_url = None"
    by (cases "start_refusal demo_benv demo_auth_url") (simp_all add: bside_start_def env demo_aside_url b_fail_def)
  moreover have "extract_callback_port demo_net demo_auth_url = Inr 8085" by code_simp
  moreover have "request_flow demo_benv demo_auth_url = ''f''" by (simp add: request_flow_def env demo_aside_url)
  moreover have "valid_bridge_request_id ''r1''"
    by (simp add: valid_bridge_request_id_def max_request_id_length_def ident_char_def less_eq_char_def)
  moreover have "\<exists>sid. snd (register 10 (session_info_of demo_aenv rq) new_registry) = Inr sid" if "rq_id rq = ''r1''" for rq
    by (simp add: register_def session_info_of_def that demo_aside_url new_registry_def default_max_sessions_def
        state_waiting_browser_def Let_def)
  ultimately show ?thesis
    by (simp add: sign_in_ready_def env demo_aside_url demo_acquire no_lease_def bside_request_def max_flow_id_length_def Let_def)
qed

lemma demo_browser:
  "accepted_callback demo_aenv (bside_request demo_benv demo_auth_url 8085) demo_browser_request"
  "canonical_headers (hr_header demo_browser_request)"
  "\<not> header_bytes_exceed 0 (callback_headers (hr_header demo_browser_request))"
  "nl_parse_request_uri demo_net (hr_request_uri demo_browser_request) = Some (hr_url demo_browser_request)"
  "ur_scheme (hr_url demo_browser_request) = ''''" "ur_host (hr_url demo_browser_request) = ''''"
  "has_prefix (ur_path (hr_url demo_browser_request)) ''/''"
  "form_state_of demo_net demo_browser_request = ''''"
  "ur_path (hr_url demo_browser_request) = ''/cb''"
proof -
  have "validate_callback_request_state demo_net demo_browser_request (callback_expectation demo_net demo_auth_url)
      (form_state_of demo_net demo_browser_request) = None" by code_simp
  then show "accepted_callback demo_aenv (bside_request demo_benv demo_auth_url 8085) demo_browser_request"
    by (simp add: accepted_callback_def demo_aenv_def bside_request_def, simp add: demo_browser_request_def)
qed code_simp+

lemma demo_sides:
  "be_net demo_benv = demo_net" "nl_parse_query demo_net '''' = ([], True)" "hr_request_uri demo_browser_request \<noteq> ''''"
  "\<not> ae_send_fails demo_aenv n" "\<not> be_send_fails demo_benv n" "be_request_error demo_benv d = None" "be_http demo_benv d = Inr 200"
  by (simp_all add: demo_benv_def demo_net_def demo_aenv_def demo_browser_request_def)

abbreviation demo_sign_in :: sign_in where
  "demo_sign_in \<equiv> foldl (sign_in_step demo_aenv demo_benv)
     (sign_in_start new_registry (new_manager, []) demo_benv demo_auth_url) demo_sign_in_events"

theorem sign_in_completes_witness:
  "a_phase (si_a demo_sign_in) = ADone None \<and> b_phase (si_b demo_sign_in) = BDone None \<and>
   ur_path (dl_url (hd (b_delivered (si_b demo_sign_in)))) = ''/cb''"
proof -
  have "\<exists>d. a_phase (si_a demo_sign_in) = ADone None \<and> b_phase (si_b demo_sign_in) = BDone None \<and>
    b_delivered (si_b demo_sign_in) = [d] \<and> dl_method d = hr_method demo_browser_request \<and>
    dl_body d = hr_body demo_browser_request \<and> ur_host (dl_url d) = join_host_port ''127.0.0.1'' (int_text 8085) \<and>
    ur_path (dl_url d) = ur_path (hr_url demo_browser_request) \<and>
    ur_raw_query (dl_url d) = ur_raw_query (hr_url demo_browser_request) \<and>
    dl_headers d = filter_callback_relay_headers (callback_headers (hr_header demo_browser_request))"
    unfolding demo_sign_in_events_def
    by (rule sign_in_completes [OF refl demo_ready demo_sides(4,5) demo_browser(1-3), unfolded demo_sides(1),
      OF demo_browser(4-7) refl refl _ demo_sides(2,3,6,7)]) (simp_all add: demo_browser(8))
  then obtain d where "a_phase (si_a demo_sign_in) = ADone None" "b_phase (si_b demo_sign_in) = BDone None"
    "b_delivered (si_b demo_sign_in) = [d]" "ur_path (dl_url d) = ''/cb''"
    unfolding demo_browser(9) by blast
  then show ?thesis by (simp only: list.sel simp_thms)
qed

lemma demo_delivered: "b_delivered (si_b demo_sign_in) \<noteq> []"
proof -
  let ?ex = "callback_expectation demo_net demo_auth_url"
  have acc: "length (hr_body demo_browser_request) \<le> 1048576"
    "validate_callback_request_state demo_net demo_browser_request ?ex (form_state_of demo_net demo_browser_request) = None"
    using demo_browser(1) by (simp_all add: accepted_callback_def bside_request_def demo_aenv_def)
  have v: "validate_callback_relay demo_net ?ex (relay_of_request (be_req_id demo_benv) demo_browser_request) = None"
    by (rule relay_passes [OF demo_browser(2) acc(2) acc(1) demo_browser(3-7) refl refl _ demo_sides(2)])
      (simp add: demo_browser(8))
  obtain target where t: "callback_request_url demo_net 8085 (hr_request_uri demo_browser_request) = Inr target"
    using demo_browser(4-7) demo_sides(3) by (simp add: callback_request_url_def)
  have "b_delivered (si_b demo_sign_in) =
      [delivery_of demo_benv (hr_method demo_browser_request) target (relay_of_request (be_req_id demo_benv) demo_browser_request)]"
    unfolding demo_sign_in_events_def
    using sign_in_run [OF demo_ready demo_sides(4,5) demo_browser(1), unfolded demo_sides(1), OF v t demo_sides(6,7), of 20 30]
    by (simp only: simp_thms)
  then show ?thesis by (simp only: list.distinct simp_thms not_False_eq_True)
qed

theorem application_gets_browser_request_witness:
  "\<exists>d r. b_delivered (si_b demo_sign_in) = [d] \<and> ALocal (Callback 20 r True) \<in> set demo_sign_in_events \<and> dl_body d = hr_body r"
proof -
  from application_gets_browser_request [OF refl refl, of demo_aenv demo_benv new_registry "(new_manager, [])"
      demo_auth_url demo_sign_in_events] demo_delivered
  obtain d now r where "b_delivered (si_b demo_sign_in) = [d]" "ALocal (Callback now r True) \<in> set demo_sign_in_events"
    "dl_body d = hr_body r" by blast
  moreover from this(2) have "now = 20" by (simp add: demo_sign_in_events_def)
  ultimately show ?thesis by blast
qed

end
