(* ===== verification/Peer_Store.thy ===== *)
theory Peer_Store
  imports Pairing_Code Callback_Guard "HOL-Library.Product_Lexorder"
begin

text \<open>
  The trust store (internal/pairing/store.go): the peers a machine trusts and the peer selected as
  active, as the two files hold them, and every operation on them. An operation that changes the
  store is one transaction under the lock of the directory; what can fail in it is its environment.
\<close>

section \<open>Peers\<close>

text \<open>The zero time is 0.\<close>

record peer =
  pr_fingerprint :: string
  pr_name :: string
  pr_alias :: string
  pr_default :: bool
  pr_address :: string
  pr_cert :: string
  pr_first_seen :: go_time
  pr_last_seen :: go_time
  pr_confirmed :: go_time

type_synonym peers = "(string \<times> peer) list"

definition peer_sas :: "peer \<Rightarrow> string" where
  "peer_sas p = sas_code (pr_fingerprint p)"

definition display_name :: "peer \<Rightarrow> string" where
  "display_name p =
     (if pr_alias p \<noteq> '''' then pr_alias p
      else if pr_name p \<noteq> '''' then pr_name p
      else ''peer-'' @ peer_sas p)"

definition default_lan_port :: int where "default_lan_port = 9877"

definition normalize_peer_address :: "net_lib \<Rightarrow> string \<Rightarrow> string" where
  "normalize_peer_address nl addr0 =
     (let addr = trim_space addr0
      in if addr = '''' then addr
         else if nl_split_host_port nl addr \<noteq> None then addr
         else join_host_port addr (int_text default_lan_port))"

section \<open>Checks\<close>

text \<open>
  Some rune is a control character (\<open>unicode.IsControl\<close>): a byte of the ASCII ones, or the two bytes
  of one from U+0080 to U+009F.
\<close>

fun has_control :: "string \<Rightarrow> bool" where
  "has_control [] \<longleftrightarrow> False"
| "has_control [c] \<longleftrightarrow> control_char c"
| "has_control (c # d # s) \<longleftrightarrow>
     control_char c \<or> (code c = (0xC2 :: nat) \<and> 0x80 \<le> code d \<and> code d \<le> (0x9F :: nat)) \<or> has_control (d # s)"

datatype store_error =
    LabelTooLong | LabelControl | AddressInvalid | AddressControl | AddressNotHostPort | HostInvalid | PortInvalid
  | FingerprintEmpty | FingerprintInvalid | CertTooLarge | CertInvalid cert_error | CertMismatch
  | LockFailed | LoadFailed | SaveFailed | ActiveFailed | ActiveNotRegular | ActiveTooLarge | ActiveUndecodable
  | PeerNotFound string

definition validate_peer_label :: "string \<Rightarrow> store_error option" where
  "validate_peer_label label =
     (if 256 < length label then Some LabelTooLong
      else if has_control label then Some LabelControl
      else None)"

definition validate_peer_host :: "string \<Rightarrow> store_error option" where
  "validate_peer_host host0 =
     (let host = trim_space host0
      in if host = '''' then Some AddressNotHostPort
         else if list_ex (\<lambda>c. c \<in> {CHR '' '', CHR 0x09, CHR ''/'', CHR ''@''}) host \<or> contains_sub ''://'' host
           then Some HostInvalid
         else None)"

definition validate_peer_port :: "string \<Rightarrow> store_error option" where
  "validate_peer_port port =
     (case atoi (trim_space port) of
        None \<Rightarrow> Some PortInvalid
      | Some n \<Rightarrow> if n < 1 \<or> 65535 < n then Some PortInvalid else None)"

definition validate_peer_address :: "net_lib \<Rightarrow> string \<Rightarrow> store_error option" where
  "validate_peer_address nl addr0 =
     (let addr = trim_space addr0
      in if addr = '''' \<or> 256 < length addr then Some AddressInvalid
         else if has_control addr then Some AddressControl
         else (case nl_split_host_port nl addr of
           Some (host, port) \<Rightarrow>
             (case validate_peer_host host of Some e \<Rightarrow> Some e | None \<Rightarrow> validate_peer_port port)
         | None \<Rightarrow>
             if nl_ip_loopback nl addr \<noteq> None then None
             else if CHR '':'' \<in> set addr then Some AddressNotHostPort
             else validate_peer_host addr))"

section \<open>The store and its transactions\<close>

text \<open>
  \<open>peers.json\<close> may be absent or unreadable; the file of the active peer is a regular file or not, and
  holds a fingerprint, something that cannot be decoded, or too much.
\<close>

datatype peers_file = PeersAbsent | PeersUnreadable | PeersStored peers

datatype active_content = Names string | Undecodable | TooLarge

datatype active_file = ActiveAbsent | ActiveRegular active_content | ActiveOther active_content

record store =
  st_peers :: peers_file
  st_active :: active_file

text \<open>
  A transaction: whether the lock is taken, reading and replacing files succeeds, the clock, and the
  parameters of the model.
\<close>

record tx =
  tx_net :: net_lib
  tx_pki :: pki
  tx_lock :: bool
  tx_load :: bool
  tx_save :: bool
  tx_active :: bool
  tx_now :: go_time

definition load_peers_map :: "tx \<Rightarrow> store \<Rightarrow> store_error + peers" where
  "load_peers_map t s =
     (if \<not> tx_load t then Inl LoadFailed
      else (case st_peers s of
        PeersAbsent \<Rightarrow> Inr []
      | PeersUnreadable \<Rightarrow> Inl LoadFailed
      | PeersStored m \<Rightarrow> Inr m))"

definition save_peers_map :: "tx \<Rightarrow> peers \<Rightarrow> store \<Rightarrow> store \<times> store_error option" where
  "save_peers_map t m s =
     (if tx_save t then (s\<lparr>st_peers := PeersStored m\<rparr>, None) else (s, Some SaveFailed))"

definition with_lock :: "tx \<Rightarrow> (store \<Rightarrow> store \<times> store_error option) \<Rightarrow> store \<Rightarrow> store \<times> store_error option" where
  "with_lock t f s = (if tx_lock t then f s else (s, Some LockFailed))"

text \<open>Load, change, save.\<close>

definition mutate_peers ::
  "tx \<Rightarrow> (peers \<Rightarrow> store_error + peers) \<Rightarrow> store \<Rightarrow> store \<times> store_error option" where
  "mutate_peers t f s =
     (case load_peers_map t s of
        Inl e \<Rightarrow> (s, Some e)
      | Inr m \<Rightarrow> (case f m of Inl e \<Rightarrow> (s, Some e) | Inr m' \<Rightarrow> save_peers_map t m' s))"

definition fold_fingerprint :: "string \<Rightarrow> string" where
  "fold_fingerprint fp = to_lower (trim_space fp)"

section \<open>Operations\<close>

text \<open>The refusals of \<open>AddPeer\<close> before the transaction.\<close>

definition peer_refusal :: "tx \<Rightarrow> peer \<Rightarrow> store_error option" where
  "peer_refusal t p =
     (if pr_fingerprint p = '''' then Some FingerprintEmpty
      else if 256 < length (pr_fingerprint p) \<or>
          list_ex (\<lambda>c. c \<in> {CHR 0x0D, CHR 0x0A, CHR 0x00}) (pr_fingerprint p) then Some FingerprintInvalid
      else (case validate_peer_label (pr_name p) of Some e \<Rightarrow> Some e | None \<Rightarrow>
        (case validate_peer_label (pr_alias p) of Some e \<Rightarrow> Some e | None \<Rightarrow>
          (case
            (if pr_cert p = '''' then None
             else if 64 * 1024 < length (pr_cert p) then Some CertTooLarge
             else (case fingerprint (tx_pki t) (pr_cert p) of
               Inl e \<Rightarrow> Some (CertInvalid e)
             | Inr fp \<Rightarrow> if \<not> equal_fold fp (pr_fingerprint p) then Some CertMismatch else None))
           of Some e \<Rightarrow> Some e | None \<Rightarrow>
            if trim_space (pr_address p) \<noteq> '''' then validate_peer_address (tx_net t) (pr_address p) else None))))"

text \<open>What a peer that is added again keeps of its record.\<close>

definition merge_peer :: "peer \<Rightarrow> peer \<Rightarrow> peer" where
  "merge_peer existing p =
     p\<lparr>pr_first_seen := (if pr_first_seen p = 0 then pr_first_seen existing else pr_first_seen p),
       pr_alias := (if pr_alias p = '''' then pr_alias existing else pr_alias p),
       pr_default := (if \<not> pr_default p then pr_default existing else pr_default p),
       pr_name := (if pr_name p = '''' then pr_name existing else pr_name p),
       pr_cert := (if pr_cert p = '''' then pr_cert existing else pr_cert p),
       pr_address := (if pr_address p = '''' then pr_address existing else pr_address p)\<rparr>"

definition stamp_peer :: "go_time \<Rightarrow> peer \<Rightarrow> peer" where
  "stamp_peer now p =
     p\<lparr>pr_first_seen := (if pr_first_seen p = 0 then now else pr_first_seen p),
       pr_last_seen := now,
       pr_confirmed := (if pr_address p \<noteq> '''' then now else pr_confirmed p)\<rparr>"

definition add_peer :: "tx \<Rightarrow> peer \<Rightarrow> store \<Rightarrow> store \<times> store_error option" where
  "add_peer t p0 s =
     (let p = p0\<lparr>pr_fingerprint := fold_fingerprint (pr_fingerprint p0)\<rparr>
      in case peer_refusal t p of
           Some e \<Rightarrow> (s, Some e)
         | None \<Rightarrow> with_lock t (mutate_peers t (\<lambda>m.
             let q = (case map_of m (pr_fingerprint p) of None \<Rightarrow> p | Some existing \<Rightarrow> merge_peer existing p)
             in Inr (AList.update (pr_fingerprint p) (stamp_peer (tx_now t) q) m))) s)"

definition get_peer :: "tx \<Rightarrow> string \<Rightarrow> store \<Rightarrow> peer option" where
  "get_peer t fp s = (case load_peers_map t s of Inl e \<Rightarrow> None | Inr m \<Rightarrow> map_of m (fold_fingerprint fp))"

definition is_trusted :: "tx \<Rightarrow> string \<Rightarrow> store \<Rightarrow> bool" where
  "is_trusted t fp s \<longleftrightarrow> get_peer t fp s \<noteq> None"

definition has_peer :: "tx \<Rightarrow> string \<Rightarrow> store \<Rightarrow> store_error + bool" where
  "has_peer t fp s =
     (case load_peers_map t s of Inl e \<Rightarrow> Inl e | Inr m \<Rightarrow> Inr (map_of m (fold_fingerprint fp) \<noteq> None))"

definition has_peer_at_address :: "tx \<Rightarrow> string \<Rightarrow> store \<Rightarrow> bool" where
  "has_peer_at_address t addr s =
     (let trimmed = trim_space addr;
          host_of = (\<lambda>a. case nl_split_host_port (tx_net t) a of Some (h, _) \<Rightarrow> h | None \<Rightarrow> a)
      in if trimmed = '''' then False
         else (case load_peers_map t s of
           Inl e \<Rightarrow> False
         | Inr m \<Rightarrow> list_ex (\<lambda>(k, p). equal_fold (host_of (pr_address p)) (host_of trimmed)) m))"

definition list_peers :: "tx \<Rightarrow> store \<Rightarrow> peer list" where
  "list_peers t s =
     (case load_peers_map t s of
        Inl e \<Rightarrow> []
      | Inr m \<Rightarrow> sort_key (\<lambda>p. (pr_fingerprint p, display_name p)) (map snd m))"

subsection \<open>The active peer\<close>

definition remove_active :: "tx \<Rightarrow> store \<Rightarrow> store \<times> store_error option" where
  "remove_active t s =
     (case st_active s of
        ActiveAbsent \<Rightarrow> (s, None)
      | _ \<Rightarrow> if tx_active t then (s\<lparr>st_active := ActiveAbsent\<rparr>, None) else (s, Some ActiveFailed))"

definition load_active_peer :: "tx \<Rightarrow> store \<Rightarrow> store \<times> (store_error + string)" where
  "load_active_peer t s =
     (if \<not> tx_lock t then (s, Inl LockFailed)
      else (case st_active s of
        ActiveAbsent \<Rightarrow> (s, Inr '''')
      | ActiveOther c \<Rightarrow> (s, Inl (if tx_active t then ActiveNotRegular else ActiveFailed))
      | ActiveRegular c \<Rightarrow>
          if \<not> tx_active t then (s, Inl ActiveFailed)
          else (case c of
            TooLarge \<Rightarrow> (s, Inl ActiveTooLarge)
          | Undecodable \<Rightarrow> (s, Inl ActiveUndecodable)
          | Names raw \<Rightarrow>
              let fp = fold_fingerprint raw
              in if fp = '''' then (s, Inr '''')
                 else (case load_peers_map t s of
                   Inl e \<Rightarrow> (s, Inl e)
                 | Inr m \<Rightarrow>
                     if map_of m fp = None then
                       (case remove_active t s of (s', None) \<Rightarrow> (s', Inr '''') | (s', Some e) \<Rightarrow> (s', Inl e))
                     else (s, Inr fp)))))"

definition save_active_peer :: "tx \<Rightarrow> string \<Rightarrow> store \<Rightarrow> store \<times> store_error option" where
  "save_active_peer t fp0 s =
     (let fp = fold_fingerprint fp0
      in with_lock t (\<lambda>s.
           if fp = '''' then remove_active t s
           else (case load_peers_map t s of
             Inl e \<Rightarrow> (s, Some e)
           | Inr m \<Rightarrow>
               if map_of m fp = None then (s, Some (PeerNotFound fp))
               else if tx_save t then (s\<lparr>st_active := ActiveRegular (Names fp)\<rparr>, None)
               else (s, Some SaveFailed))) s)"

definition clear_active_if_matches :: "tx \<Rightarrow> string \<Rightarrow> store \<Rightarrow> store \<times> store_error option" where
  "clear_active_if_matches t fp s =
     (let decide = (\<lambda>c. case c of
            Names raw \<Rightarrow> if equal_fold (trim_space raw) fp then remove_active t s else (s, None)
          | _ \<Rightarrow> (s, None))
      in case st_active s of
           ActiveAbsent \<Rightarrow> (s, None)
         | ActiveRegular c \<Rightarrow> if tx_active t then decide c else (s, Some ActiveFailed)
         | ActiveOther c \<Rightarrow> if tx_active t then decide c else (s, Some ActiveFailed))"

definition clear_active_peer :: "tx \<Rightarrow> store \<Rightarrow> store \<times> store_error option" where
  "clear_active_peer t s = with_lock t (remove_active t) s"

subsection \<open>Changes of one peer\<close>

definition remove_peer :: "tx \<Rightarrow> string \<Rightarrow> store \<Rightarrow> store \<times> store_error option" where
  "remove_peer t fp0 s =
     (let fp = fold_fingerprint fp0
      in with_lock t (\<lambda>s.
           case mutate_peers t (\<lambda>m. Inr (AList.delete fp m)) s of
             (s', Some e) \<Rightarrow> (s', Some e)
           | (s', None) \<Rightarrow> clear_active_if_matches t fp s') s)"

text \<open>An operation on the peer under a fingerprint.\<close>

definition update_peer :: "tx \<Rightarrow> string \<Rightarrow> (peer \<Rightarrow> peer) \<Rightarrow> store \<Rightarrow> store \<times> store_error option" where
  "update_peer t fp f s = with_lock t (mutate_peers t (\<lambda>m.
     case map_of m fp of
       None \<Rightarrow> Inl (PeerNotFound fp)
     | Some p \<Rightarrow> Inr (AList.update fp (f p) m))) s"

definition set_alias :: "tx \<Rightarrow> string \<Rightarrow> string \<Rightarrow> store \<Rightarrow> store \<times> store_error option" where
  "set_alias t fp alias0 s =
     (let alias = trim_space alias0
      in case validate_peer_label alias of
           Some e \<Rightarrow> (s, Some e)
         | None \<Rightarrow> update_peer t (fold_fingerprint fp) (pr_alias_update (\<lambda>_. trim_space alias)) s)"

definition set_default :: "tx \<Rightarrow> string \<Rightarrow> store \<Rightarrow> store \<times> store_error option" where
  "set_default t fp0 s =
     (let fp = fold_fingerprint fp0
      in with_lock t (mutate_peers t (\<lambda>m.
           if map_of m fp = None then Inl (PeerNotFound fp)
           else Inr (map (\<lambda>(k, p). (k, p\<lparr>pr_default := (k = fp)\<rparr>)) m))) s)"

definition update_peer_address :: "tx \<Rightarrow> string \<Rightarrow> string \<Rightarrow> store \<Rightarrow> store \<times> store_error option" where
  "update_peer_address t fp addr s =
     (case (if trim_space addr \<noteq> '''' then validate_peer_address (tx_net t) addr else None) of
        Some e \<Rightarrow> (s, Some e)
      | None \<Rightarrow> update_peer t (fold_fingerprint fp)
          (\<lambda>p. p\<lparr>pr_address := addr, pr_last_seen := tx_now t, pr_confirmed := tx_now t\<rparr>) s)"

definition confirm_peer_address :: "tx \<Rightarrow> string \<Rightarrow> string \<Rightarrow> store \<Rightarrow> store \<times> (store_error + bool)" where
  "confirm_peer_address t fp0 observed0 s =
     (let fp = fold_fingerprint fp0; observed = trim_space observed0
      in if observed = '''' then (s, Inr False)
         else (case validate_peer_address (tx_net t) observed of
           Some e \<Rightarrow> (s, Inl e)
         | None \<Rightarrow>
             let moved = (\<lambda>p. normalize_peer_address (tx_net t) (pr_address p) \<noteq> normalize_peer_address (tx_net t) observed)
             in (case update_peer t fp (\<lambda>p. (if moved p then p\<lparr>pr_address := observed, pr_last_seen := tx_now t\<rparr> else p)
                        \<lparr>pr_confirmed := tx_now t\<rparr>) s of
                   (s', Some e) \<Rightarrow> (s', Inl e)
                 | (s', None) \<Rightarrow>
                     (s', Inr (case load_peers_map t s of
                        Inl e \<Rightarrow> False
                      | Inr m \<Rightarrow> (case map_of m fp of None \<Rightarrow> False | Some p \<Rightarrow> moved p))))))"

section \<open>Resolving a query\<close>

datatype resolve_error =
    NoPeers | NoDefault | PrefixAmbiguous | SasAmbiguous | TiersAmbiguous | NotResolved string

text \<open>The first peer that satisfies a predicate.\<close>

definition first_peer :: "(peer \<Rightarrow> bool) \<Rightarrow> peer list \<Rightarrow> peer option" where
  "first_peer P ps = List.find P ps"

definition address_matches :: "net_lib \<Rightarrow> string \<Rightarrow> peer \<Rightarrow> bool" where
  "address_matches nl q p \<longleftrightarrow>
     equal_fold (pr_address p) q \<or>
     (case nl_split_host_port nl (pr_address p) of Some (h, _) \<Rightarrow> equal_fold h q | None \<Rightarrow> False)"

definition resolve_peer :: "tx \<Rightarrow> string \<Rightarrow> store \<Rightarrow> resolve_error + peer" where
  "resolve_peer t query s =
     (let peers = list_peers t s; q = trim_space query
      in if peers = [] then Inl NoPeers
         else if q = '''' then
           (case first_peer pr_default peers of
              Some p \<Rightarrow> Inr p
            | None \<Rightarrow> (case peers of [p] \<Rightarrow> Inr p | _ \<Rightarrow> Inl NoDefault))
         else (case first_peer (\<lambda>p. equal_fold (pr_fingerprint p) q) peers of
           Some p \<Rightarrow> Inr p
         | None \<Rightarrow>
             let prefix = (if 6 \<le> length q
                   then filter (\<lambda>p. has_prefix (to_lower (pr_fingerprint p)) (to_lower q)) peers else []);
                 sas = filter (\<lambda>p. equal_fold (peer_sas p) q) peers
             in if 1 < length prefix then Inl PrefixAmbiguous
                else if 1 < length sas then Inl SasAmbiguous
                else (case (prefix, sas) of
                  ([p], [p2]) \<Rightarrow>
                    if \<not> equal_fold (pr_fingerprint p) (pr_fingerprint p2) then Inl TiersAmbiguous else Inr p
                | ([p], _) \<Rightarrow> Inr p
                | (_, [p]) \<Rightarrow> Inr p
                | _ \<Rightarrow>
                    (case first_peer (\<lambda>p. pr_alias p \<noteq> '''' \<and> equal_fold (pr_alias p) q) peers of
                       Some p \<Rightarrow> Inr p
                     | None \<Rightarrow>
                         (case first_peer (\<lambda>p. pr_name p \<noteq> '''' \<and> equal_fold (pr_name p) q) peers of
                            Some p \<Rightarrow> Inr p
                          | None \<Rightarrow>
                              (case first_peer (address_matches (tx_net t) q) peers of
                                 Some p \<Rightarrow> Inr p
                               | None \<Rightarrow> Inl (NotResolved query)))))))"

section \<open>Well-formed stores\<close>

text \<open>
  A record is filed under its own fingerprint, in the folded form; labels and address passed their
  checks; a certificate is the one of the fingerprint.
\<close>

definition cert_ok :: "pki \<Rightarrow> string \<Rightarrow> string \<Rightarrow> bool" where
  "cert_ok pk cert fp \<longleftrightarrow> cert = '''' \<or>
     length cert \<le> 64 * 1024 \<and> (case fingerprint pk cert of Inl e \<Rightarrow> False | Inr f \<Rightarrow> equal_fold f fp)"

definition address_ok :: "net_lib \<Rightarrow> string \<Rightarrow> bool" where
  "address_ok nl a \<longleftrightarrow> trim_space a = '''' \<or> validate_peer_address nl a = None"

definition peer_ok :: "net_lib \<Rightarrow> pki \<Rightarrow> string \<Rightarrow> peer \<Rightarrow> bool" where
  "peer_ok nl pk k p \<longleftrightarrow>
     pr_fingerprint p = k \<and> k \<noteq> '''' \<and> length k \<le> 256 \<and> fold_fingerprint k = k \<and>
     validate_peer_label (pr_name p) = None \<and> validate_peer_label (pr_alias p) = None \<and>
     cert_ok pk (pr_cert p) k \<and> address_ok nl (pr_address p)"

definition peers_ok :: "net_lib \<Rightarrow> pki \<Rightarrow> peers \<Rightarrow> bool" where
  "peers_ok nl pk m \<longleftrightarrow> keys_distinct m \<and> list_all (\<lambda>(k, p). peer_ok nl pk k p) m"

definition store_ok :: "net_lib \<Rightarrow> pki \<Rightarrow> store \<Rightarrow> bool" where
  "store_ok nl pk s \<longleftrightarrow> (case st_peers s of PeersStored m \<Rightarrow> peers_ok nl pk m | _ \<Rightarrow> True)"

lemma fold_fingerprint_idem [simp]: "fold_fingerprint (fold_fingerprint s) = fold_fingerprint s"
  by (simp add: fold_fingerprint_def trim_space_to_lower)

lemma peers_ok_update:
  assumes "peers_ok nl pk m" "peer_ok nl pk k p"
  shows "peers_ok nl pk (AList.update k p m)"
proof -
  have "peer_ok nl pk k' p'" if "(k', p') \<in> set (AList.update k p m)" for k' p'
    using alist_update_cases [OF that] assms by (auto simp: peers_ok_def list_all_iff)
  with assms(1) show ?thesis by (auto simp: peers_ok_def list_all_iff distinct_update)
qed

lemma peers_ok_lookup: "peers_ok nl pk m \<Longrightarrow> map_of m k = Some p \<Longrightarrow> peer_ok nl pk k p"
  by (auto simp: peers_ok_def list_all_iff dest: map_of_SomeD)

lemma peers_ok_delete: "peers_ok nl pk m \<Longrightarrow> peers_ok nl pk (AList.delete k m)"
  by (auto simp: peers_ok_def list_all_iff AList.delete_eq keys_distinct_filter)

lemma store_ok_active [simp]: "store_ok nl pk (s\<lparr>st_active := a\<rparr>) = store_ok nl pk s"
  by (simp add: store_ok_def)

lemma mutate_ok:
  assumes "store_ok nl pk s"
    and "\<And>m m'. peers_ok nl pk m \<Longrightarrow> f m = Inr m' \<Longrightarrow> peers_ok nl pk m'"
  shows "store_ok nl pk (fst (mutate_peers t f s))"
proof (cases "load_peers_map t s")
  case (Inr m)
  then have "peers_ok nl pk m"
    using assms(1) by (auto simp: load_peers_map_def store_ok_def peers_ok_def split: if_splits peers_file.splits)
  with Inr assms show ?thesis
    by (cases "f m") (auto simp: mutate_peers_def save_peers_map_def store_ok_def)
qed (use assms in \<open>simp add: mutate_peers_def\<close>)

lemma with_lock_ok: "store_ok nl pk s \<Longrightarrow> (tx_lock t \<Longrightarrow> store_ok nl pk (fst (f s))) \<Longrightarrow> store_ok nl pk (fst (with_lock t f s))"
  by (simp add: with_lock_def)

lemma remove_active_ok [simp]: "store_ok nl pk (fst (remove_active t s)) = store_ok nl pk s"
  by (simp add: remove_active_def split: active_file.split)

lemma update_peer_ok:
  assumes "store_ok nl pk s" "\<And>p. peer_ok nl pk fp p \<Longrightarrow> peer_ok nl pk fp (f p)"
  shows "store_ok nl pk (fst (update_peer t fp f s))"
  unfolding update_peer_def
proof (intro with_lock_ok mutate_ok)
  fix m m' assume "peers_ok nl pk m" "(case map_of m fp of None \<Rightarrow> Inl (PeerNotFound fp) | Some p \<Rightarrow> Inr (AList.update fp (f p) m)) = Inr m'"
  then show "peers_ok nl pk m'"
    using assms(2) by (auto intro!: peers_ok_update dest: peers_ok_lookup split: option.splits)
qed (use assms in simp_all)

lemma peer_refusal_none:
  assumes "peer_refusal t p = None"
  shows "pr_fingerprint p \<noteq> '''' \<and> length (pr_fingerprint p) \<le> 256 \<and> validate_peer_label (pr_name p) = None \<and>
    validate_peer_label (pr_alias p) = None \<and> cert_ok (tx_pki t) (pr_cert p) (pr_fingerprint p) \<and>
    address_ok (tx_net t) (pr_address p)"
  using assms by (auto simp: peer_refusal_def cert_ok_def address_ok_def split: if_splits option.splits sum.splits)

lemma add_peer_ok:
  assumes "store_ok nl pk s" "tx_net t = nl" "tx_pki t = pk"
  shows "store_ok nl pk (fst (add_peer t p0 s))"
proof -
  let ?p = "p0\<lparr>pr_fingerprint := fold_fingerprint (pr_fingerprint p0)\<rparr>"
  have stamp: "peer_ok nl pk k (stamp_peer now q) = peer_ok nl pk k q" for k q now
    by (simp add: peer_ok_def stamp_peer_def)
  have merge: "peer_ok nl pk k (merge_peer e q)" if "peer_ok nl pk k e" "peer_ok nl pk k q" for k e q
    using that by (simp add: peer_ok_def merge_peer_def)
  show ?thesis
  proof (cases "peer_refusal t ?p")
    case None
    then have p: "peer_ok nl pk (pr_fingerprint ?p) ?p"
      using peer_refusal_none [OF None] assms(2,3) by (simp add: peer_ok_def)
    have "store_ok nl pk (fst (with_lock t (mutate_peers t (\<lambda>m.
             let q = (case map_of m (pr_fingerprint ?p) of None \<Rightarrow> ?p | Some existing \<Rightarrow> merge_peer existing ?p)
             in Inr (AList.update (pr_fingerprint ?p) (stamp_peer (tx_now t) q) m))) s))"
    proof (intro with_lock_ok mutate_ok)
      fix m m'
      assume ok: "peers_ok nl pk m" and e: "(let q = (case map_of m (pr_fingerprint ?p) of None \<Rightarrow> ?p | Some existing \<Rightarrow> merge_peer existing ?p)
             in Inr (AList.update (pr_fingerprint ?p) (stamp_peer (tx_now t) q) m)) = (Inr m' :: store_error + peers)"
      show "peers_ok nl pk m'"
      proof (cases "map_of m (pr_fingerprint ?p)")
        case None
        with e have "m' = AList.update (pr_fingerprint ?p) (stamp_peer (tx_now t) ?p) m" by simp
        with ok p stamp show ?thesis by (simp add: peers_ok_update del: peer.select_convs)
      next
        case (Some existing)
        with e have "m' = AList.update (pr_fingerprint ?p) (stamp_peer (tx_now t) (merge_peer existing ?p)) m" by simp
        with ok p stamp merge [OF peers_ok_lookup [OF ok Some]] show ?thesis
          by (simp add: peers_ok_update del: peer.select_convs)
      qed
    qed (use assms in simp_all)
    with None show ?thesis by (simp add: add_peer_def Let_def)
  qed (use assms in \<open>simp add: add_peer_def Let_def\<close>)
qed

section \<open>Runs\<close>

datatype store_event =
    AddPeer tx peer
  | RemovePeer tx string
  | SetAlias tx string string
  | SetDefault tx string
  | UpdateAddress tx string string
  | ConfirmAddress tx string string
  | LoadActive tx
  | SaveActive tx string
  | ClearActive tx

fun store_step :: "store \<Rightarrow> store_event \<Rightarrow> store" where
  "store_step s (AddPeer t p) = fst (add_peer t p s)"
| "store_step s (RemovePeer t fp) = fst (remove_peer t fp s)"
| "store_step s (SetAlias t fp a) = fst (set_alias t fp a s)"
| "store_step s (SetDefault t fp) = fst (set_default t fp s)"
| "store_step s (UpdateAddress t fp a) = fst (update_peer_address t fp a s)"
| "store_step s (ConfirmAddress t fp a) = fst (confirm_peer_address t fp a s)"
| "store_step s (LoadActive t) = fst (load_active_peer t s)"
| "store_step s (SaveActive t fp) = fst (save_active_peer t fp s)"
| "store_step s (ClearActive t) = fst (clear_active_peer t s)"

primrec event_tx :: "store_event \<Rightarrow> tx" where
  "event_tx (AddPeer t p) = t"
| "event_tx (RemovePeer t fp) = t"
| "event_tx (SetAlias t fp a) = t"
| "event_tx (SetDefault t fp) = t"
| "event_tx (UpdateAddress t fp a) = t"
| "event_tx (ConfirmAddress t fp a) = t"
| "event_tx (LoadActive t) = t"
| "event_tx (SaveActive t fp) = t"
| "event_tx (ClearActive t) = t"

definition same_world :: "net_lib \<Rightarrow> pki \<Rightarrow> store_event \<Rightarrow> bool" where
  "same_world nl pk e \<longleftrightarrow> tx_net (event_tx e) = nl \<and> tx_pki (event_tx e) = pk"

definition empty_store :: store where
  "empty_store = \<lparr>st_peers = PeersAbsent, st_active = ActiveAbsent\<rparr>"

lemma peer_ok_upd [simp]:
  "peer_ok nl pk k (p\<lparr>pr_default := d\<rparr>) = peer_ok nl pk k p"
  "peer_ok nl pk k (p\<lparr>pr_last_seen := ls\<rparr>) = peer_ok nl pk k p"
  "peer_ok nl pk k (p\<lparr>pr_confirmed := c\<rparr>) = peer_ok nl pk k p"
  by (simp_all add: peer_ok_def)

lemma peer_ok_alias: "peer_ok nl pk k p \<Longrightarrow> validate_peer_label a = None \<Longrightarrow> peer_ok nl pk k (p\<lparr>pr_alias := a\<rparr>)"
  by (simp add: peer_ok_def)

lemma peer_ok_address: "peer_ok nl pk k p \<Longrightarrow> address_ok nl a \<Longrightarrow> peer_ok nl pk k (p\<lparr>pr_address := a\<rparr>)"
  by (simp add: peer_ok_def)

text \<open>The effects of an operation on the two files, for the active peer first.\<close>

lemma load_active_cases:
  "fst (load_active_peer t s) = s \<or> fst (load_active_peer t s) = fst (remove_active t s)"
  by (cases "remove_active t s")
    (simp add: load_active_peer_def Let_def split: active_file.split active_content.split sum.split option.split)

lemma active_ops_peers [simp]:
  "st_peers (fst (remove_active t s)) = st_peers s"
  "st_peers (fst (clear_active_if_matches t fp s)) = st_peers s"
  "st_peers (fst (clear_active_peer t s)) = st_peers s"
  "st_peers (fst (save_active_peer t fp s)) = st_peers s"
  "st_peers (fst (load_active_peer t s)) = st_peers s"
proof -
  show r: "st_peers (fst (remove_active t s)) = st_peers s" for s
    by (simp add: remove_active_def split: active_file.split)
  then show "st_peers (fst (clear_active_if_matches t fp s)) = st_peers s"
    by (simp add: clear_active_if_matches_def Let_def split: active_file.split active_content.split)
  show "st_peers (fst (clear_active_peer t s)) = st_peers s"
    using r by (simp add: clear_active_peer_def with_lock_def)
  show "st_peers (fst (save_active_peer t fp s)) = st_peers s"
    using r by (simp add: save_active_peer_def with_lock_def Let_def split: sum.split)
  show "st_peers (fst (load_active_peer t s)) = st_peers s"
    using load_active_cases [of t s] r [of s] by auto
qed

lemma store_ok_peers: "st_peers s' = st_peers s \<Longrightarrow> store_ok nl pk s' = store_ok nl pk s"
  by (simp add: store_ok_def)

lemma remove_peer_peers:
  "st_peers (fst (remove_peer t fp s)) =
     st_peers (fst (with_lock t (mutate_peers t (\<lambda>m. Inr (AList.delete (fold_fingerprint fp) m))) s))"
  by (simp add: remove_peer_def with_lock_def Let_def split: prod.split option.split)

lemma confirm_address_peers:
  "fst (confirm_peer_address t fp a s) = s \<or>
   (validate_peer_address (tx_net t) (trim_space a) = None \<and> (\<exists>f.
     fst (confirm_peer_address t fp a s) = fst (update_peer t (fold_fingerprint fp) f s) \<and>
     (\<forall>p. f p = p\<lparr>pr_confirmed := tx_now t\<rparr> \<or>
          f p = p\<lparr>pr_address := trim_space a, pr_last_seen := tx_now t, pr_confirmed := tx_now t\<rparr>)))"
proof (cases "trim_space a = '''' \<or> validate_peer_address (tx_net t) (trim_space a) \<noteq> None")
  case True
  then show ?thesis by (auto simp: confirm_peer_address_def Let_def)
next
  case False
  let ?f = "\<lambda>p. (if normalize_peer_address (tx_net t) (pr_address p) \<noteq> normalize_peer_address (tx_net t) (trim_space a)
      then p\<lparr>pr_address := trim_space a, pr_last_seen := tx_now t\<rparr> else p)\<lparr>pr_confirmed := tx_now t\<rparr>"
  have "fst (confirm_peer_address t fp a s) = fst (update_peer t (fold_fingerprint fp) ?f s)"
    using False by (simp add: confirm_peer_address_def Let_def split: prod.split option.split)
  then show ?thesis using False by (intro disjI2 conjI exI [of _ ?f]) auto
qed

lemma store_step_ok:
  assumes ok: "store_ok nl pk s" and w: "same_world nl pk e"
  shows "store_ok nl pk (store_step s e)"
proof (cases e)
  case (AddPeer t p)
  then show ?thesis using add_peer_ok [OF ok] w by (simp add: same_world_def)
next
  case (RemovePeer t fp)
  have "store_ok nl pk (fst (with_lock t (mutate_peers t (\<lambda>m. Inr (AList.delete (fold_fingerprint fp) m))) s))"
    by (intro with_lock_ok mutate_ok ok) (auto intro: peers_ok_delete)
  then show ?thesis using store_ok_peers [OF remove_peer_peers] RemovePeer by simp
next
  case (SetAlias t fp a)
  have "store_ok nl pk (fst (update_peer t k (pr_alias_update (\<lambda>_. trim_space (trim_space a))) s))"
    if "validate_peer_label (trim_space a) = None" for k
    using that by (intro update_peer_ok [OF ok]) (simp add: peer_ok_alias)
  then show ?thesis using ok SetAlias by (simp add: set_alias_def Let_def split: option.split)
next
  case (SetDefault t fp)
  have "peers_ok nl pk (map (\<lambda>(k, p). (k, p\<lparr>pr_default := k = k'\<rparr>)) m)" if "peers_ok nl pk m" for m k'
    using that by (auto simp: peers_ok_def list_all_iff comp_def split_def)
  then show ?thesis
    using SetDefault ok
    by (auto simp: set_default_def Let_def intro!: with_lock_ok mutate_ok split: if_splits)
next
  case (UpdateAddress t fp a)
  have "address_ok nl a" if "(if trim_space a \<noteq> '''' then validate_peer_address (tx_net t) a else None) = None"
    using that w UpdateAddress by (auto simp: address_ok_def same_world_def split: if_splits)
  then show ?thesis
    using ok UpdateAddress
    by (auto simp: update_peer_address_def peer_ok_address intro!: update_peer_ok split: option.split)
next
  case (ConfirmAddress t fp a)
  have n: "tx_net t = nl" using w ConfirmAddress by (simp add: same_world_def)
  from confirm_address_peers [of t fp a s] show ?thesis
  proof (elim disjE conjE exE)
    fix f assume v: "validate_peer_address (tx_net t) (trim_space a) = None"
      and c: "fst (confirm_peer_address t fp a s) = fst (update_peer t (fold_fingerprint fp) f s)"
      and f: "\<forall>p. f p = p\<lparr>pr_confirmed := tx_now t\<rparr> \<or>
          f p = p\<lparr>pr_address := trim_space a, pr_last_seen := tx_now t, pr_confirmed := tx_now t\<rparr>"
    have a: "address_ok nl (trim_space a)" using v n by (simp add: address_ok_def)
    have "peer_ok nl pk k (f p)" if "peer_ok nl pk k p" for k p
      using f [rule_format, of p] peer_ok_address [OF that a] that by (elim disjE) simp_all
    then show ?thesis using ConfirmAddress c update_peer_ok [OF ok] by simp
  qed (use ok ConfirmAddress in simp)
qed (use ok store_ok_peers [OF active_ops_peers(5)] store_ok_peers [OF active_ops_peers(4)]
      store_ok_peers [OF active_ops_peers(3)] in simp_all)

interpretation trust_store: guarded_stepper store_step "same_world nl pk" "store_ok nl pk" for nl pk
  by unfold_locales (rule store_step_ok)

section \<open>Who is trusted\<close>

definition trusted :: "store \<Rightarrow> string set" where
  "trusted s = (case st_peers s of PeersStored m \<Rightarrow> fst ` set m | _ \<Rightarrow> {})"

text \<open>What an operation that succeeds does to the set of trusted fingerprints.\<close>

fun trust_spec :: "store_event \<Rightarrow> string set \<Rightarrow> string set" where
  "trust_spec (AddPeer t p) T = insert (fold_fingerprint (pr_fingerprint p)) T"
| "trust_spec (RemovePeer t fp) T = T - {fold_fingerprint fp}"
| "trust_spec _ T = T"

lemma trusted_peers: "st_peers s' = st_peers s \<Longrightarrow> trusted s' = trusted s"
  by (simp add: trusted_def)

lemma key_lookup: "map_of m k = Some v \<Longrightarrow> k \<in> fst ` set m"
  by (metis domI dom_map_of_conv_image_fst)

lemma mutate_trusted:
  assumes "\<And>m m'. f m = Inr m' \<Longrightarrow> fst ` set m' = g (fst ` set m)"
  shows "trusted (fst (mutate_peers t f s)) = trusted s \<and> snd (mutate_peers t f s) \<noteq> None \<or>
    trusted (fst (mutate_peers t f s)) = g (trusted s)"
proof (cases "load_peers_map t s")
  case (Inr m)
  then have m: "trusted s = fst ` set m"
    by (auto simp: load_peers_map_def trusted_def split: if_splits peers_file.splits)
  show ?thesis
  proof (cases "f m")
    case (Inr m')
    from assms [OF this] m Inr \<open>load_peers_map t s = Inr m\<close> show ?thesis
      by (auto simp: mutate_peers_def save_peers_map_def trusted_def)
  qed (use \<open>load_peers_map t s = Inr m\<close> in \<open>simp add: mutate_peers_def\<close>)
qed (simp add: mutate_peers_def)

lemma update_peer_trusted: "trusted (fst (update_peer t k f s)) = trusted s"
proof -
  let ?f = "\<lambda>m. case map_of m k of None \<Rightarrow> Inl (PeerNotFound k) | Some p \<Rightarrow> Inr (AList.update k (f p) m)"
  have "fst ` set m' = fst ` set m" if "?f m = Inr m'" for m m'
  proof (cases "map_of m k")
    case (Some p)
    with that have "m' = AList.update k (f p) m" by simp
    then have "fst ` set m' = insert k (fst ` set m)" by (simp only: keys_update)
    then show ?thesis using key_lookup [OF Some] by (simp only: insert_absorb)
  qed (use that in simp)
  then have "trusted (fst (mutate_peers t ?f s)) = trusted s"
    using mutate_trusted [of ?f "\<lambda>T. T" t s] by blast
  then show ?thesis by (simp add: update_peer_def with_lock_def)
qed

lemma remove_peer_trusted:
  "trusted (fst (remove_peer t fp s)) = trusted s \<and> snd (remove_peer t fp s) \<noteq> None \<or>
   trusted (fst (remove_peer t fp s)) = trusted s - {fold_fingerprint fp}"
proof -
  let ?m = "mutate_peers t (\<lambda>m. Inr (AList.delete (fold_fingerprint fp) m)) s"
  have "fst ` set (AList.delete k m) = fst ` set m - {k}" for k :: string and m :: peers
    by (auto simp: AList.delete_eq)
  with mutate_trusted [of "\<lambda>m. Inr (AList.delete (fold_fingerprint fp) m)" "\<lambda>T. T - {fold_fingerprint fp}" t s]
  have "trusted (fst ?m) = trusted s \<and> snd ?m \<noteq> None \<or> trusted (fst ?m) = trusted s - {fold_fingerprint fp}" by simp
  then show ?thesis
    using trusted_peers [OF active_ops_peers(2)]
    by (cases ?m; cases "snd ?m") (auto simp: remove_peer_def with_lock_def Let_def)
qed

lemma store_step_trusted: "trusted (store_step s e) = trusted s \<or> trusted (store_step s e) = trust_spec e (trusted s)"
proof (cases e)
  case (AddPeer t p)
  have "trusted (fst (mutate_peers t (\<lambda>m. Inr (AList.update k (h m) m)) s)) = trusted s \<or>
      trusted (fst (mutate_peers t (\<lambda>m. Inr (AList.update k (h m) m)) s)) = insert k (trusted s)" for k h
    using mutate_trusted [of "\<lambda>m. Inr (AList.update k (h m) m)" "insert k" t s] by (auto simp: keys_update)
  then show ?thesis
    using AddPeer by (auto simp: add_peer_def with_lock_def Let_def split: option.split)
next
  case (RemovePeer t fp)
  then show ?thesis using remove_peer_trusted [of t fp s] by auto
next
  case (SetAlias t fp a)
  then show ?thesis by (simp add: set_alias_def Let_def update_peer_trusted split: option.split)
next
  case (SetDefault t fp)
  let ?f = "\<lambda>m. if map_of m (fold_fingerprint fp) = None then Inl (PeerNotFound (fold_fingerprint fp))
    else Inr (map (\<lambda>(k, p). (k, p\<lparr>pr_default := k = fold_fingerprint fp\<rparr>)) m)"
  have "fst ` set m' = fst ` set m" if "?f m = Inr m'" for m m'
    using that by (force split: if_splits)
  then have "trusted (fst (mutate_peers t ?f s)) = trusted s"
    using mutate_trusted [of ?f "\<lambda>T. T" t s] by blast
  then show ?thesis using SetDefault by (simp add: set_default_def with_lock_def Let_def)
next
  case (UpdateAddress t fp a)
  then show ?thesis by (simp add: update_peer_address_def update_peer_trusted split: option.split)
next
  case (ConfirmAddress t fp a)
  then show ?thesis using confirm_address_peers [of t fp a s] update_peer_trusted by auto
qed (use trusted_peers [OF active_ops_peers(5)] trusted_peers [OF active_ops_peers(4)]
      trusted_peers [OF active_ops_peers(3)] in simp_all)

definition adds :: "string \<Rightarrow> store_event \<Rightarrow> bool" where
  "adds fp e \<longleftrightarrow> (case e of AddPeer t p \<Rightarrow> fold_fingerprint (pr_fingerprint p) = fold_fingerprint fp | _ \<Rightarrow> False)"

interpretation untrusted: guarded_stepper store_step "\<lambda>e. \<not> adds fp e" "\<lambda>s. fold_fingerprint fp \<notin> trusted s" for fp
proof
  fix s e assume "fold_fingerprint fp \<notin> trusted s" "\<not> adds fp e"
  then show "fold_fingerprint fp \<notin> trusted (store_step s e)"
    using store_step_trusted [of s e] by (cases e) (auto simp: adds_def)
qed

lemma loaded_trusted: "load_peers_map t s = Inr m \<Longrightarrow> trusted s = fst ` set m"
  by (auto simp: load_peers_map_def trusted_def split: if_splits peers_file.splits)

lemma is_trusted_trusted: "is_trusted t fp s \<Longrightarrow> fold_fingerprint fp \<in> trusted s"
  by (auto simp: is_trusted_def get_peer_def loaded_trusted key_lookup split: sum.splits)

lemma load_active_trusted: "snd (load_active_peer t s) = Inr fp \<Longrightarrow> fp \<noteq> '''' \<Longrightarrow> fp \<in> trusted s"
proof -
  assume a: "snd (load_active_peer t s) = Inr fp" "fp \<noteq> ''''"
  obtain s' res where r: "remove_active t s = (s', res)" by fastforce
  from a obtain m where "load_peers_map t s = Inr m" "map_of m fp \<noteq> None"
    by (auto simp: load_active_peer_def r Let_def split: if_splits active_file.splits active_content.splits sum.splits option.splits)
  then show ?thesis by (auto simp: loaded_trusted key_lookup)
qed

lemma list_peers_trusted:
  assumes "store_ok nl pk s" "p \<in> set (list_peers t s)"
  shows "pr_fingerprint p \<in> trusted s"
proof -
  obtain m where m: "load_peers_map t s = Inr m" "p \<in> snd ` set m"
    using assms(2) by (cases "load_peers_map t s") (simp_all add: list_peers_def)
  then have "peers_ok nl pk m"
    using assms(1) by (auto simp: load_peers_map_def store_ok_def peers_ok_def split: if_splits peers_file.splits)
  moreover from m(2) obtain k where k: "(k, p) \<in> set m" by auto
  ultimately have "pr_fingerprint p = k" by (auto simp: peers_ok_def list_all_iff peer_ok_def)
  with k loaded_trusted [OF m(1)] show ?thesis by force
qed

lemma filter_singleton: "filter P xs = [x] \<Longrightarrow> x \<in> set xs"
  by (metis filter_is_subset list.set_intros(1) subsetD)

text \<open>The peers that answer a query of each tier.\<close>

definition by_prefix :: "tx \<Rightarrow> string \<Rightarrow> store \<Rightarrow> peer list" where
  "by_prefix t q s = filter (\<lambda>p. has_prefix (to_lower (pr_fingerprint p)) (to_lower q)) (list_peers t s)"

definition by_sas :: "tx \<Rightarrow> string \<Rightarrow> store \<Rightarrow> peer list" where
  "by_sas t q s = filter (\<lambda>p. equal_fold (peer_sas p) q) (list_peers t s)"

lemma first_peer_some: "first_peer P ps = Some p \<Longrightarrow> p \<in> set ps \<and> P p"
  by (auto simp: first_peer_def find_Some_iff)

text \<open>
  A query never resolves to a peer that is not in the trust store, nor to one of several
  candidates by a code: the result is the default or the only peer for an empty query; otherwise the
  query is its fingerprint, or at least six characters that start its fingerprint and no other, or its
  six-character code and no other's, or its alias, name or address.\<close>

theorem resolve_peer_sound:
  assumes "resolve_peer t query s = Inr p" "q = trim_space query"
  shows "p \<in> set (list_peers t s) \<and>
    (if q = '''' then pr_default p \<or> list_peers t s = [p]
     else equal_fold (pr_fingerprint p) q \<or> (6 \<le> length q \<and> by_prefix t q s = [p]) \<or> by_sas t q s = [p] \<or>
       equal_fold (pr_alias p) q \<or> equal_fold (pr_name p) q \<or> address_matches (tx_net t) q p)"
proof (cases "q = ''''")
  case True
  with assms show ?thesis
    by (auto simp: resolve_peer_def Let_def dest: first_peer_some split: if_splits option.splits list.splits)
next
  case False
  let ?prefix = "if 6 \<le> length q then by_prefix t q s else []" and ?sas = "by_sas t q s"
  have sub: "x \<in> set (list_peers t s)" if "?prefix = [x] \<or> ?sas = [x]" for x
  proof -
    from that have "x \<in> set (by_prefix t q s) \<or> x \<in> set (by_sas t q s)" by (auto split: if_splits)
    then show ?thesis by (auto simp: by_prefix_def by_sas_def)
  qed
  from assms False have r: "list_peers t s \<noteq> []"
    "(case first_peer (\<lambda>p. equal_fold (pr_fingerprint p) q) (list_peers t s) of
       Some x \<Rightarrow> x = p
     | None \<Rightarrow> ?prefix = [p] \<or> ?sas = [p] \<or>
        (case first_peer (\<lambda>p. pr_alias p \<noteq> '''' \<and> equal_fold (pr_alias p) q) (list_peers t s) of
           Some x \<Rightarrow> x = p
         | None \<Rightarrow> (case first_peer (\<lambda>p. pr_name p \<noteq> '''' \<and> equal_fold (pr_name p) q) (list_peers t s) of
             Some x \<Rightarrow> x = p
           | None \<Rightarrow> first_peer (address_matches (tx_net t) q) (list_peers t s) = Some p)))"
    unfolding by_prefix_def by_sas_def
    by (auto simp: resolve_peer_def Let_def split: if_splits option.splits list.splits)
  from r(2) False show ?thesis
    using sub [of p] by (auto dest: first_peer_some split: option.splits if_splits)
qed

text \<open>Transactions without faults, over the library and certificates of the examples.\<close>

definition demo_tx :: "go_time \<Rightarrow> tx" where
  "demo_tx now = \<lparr>tx_net = demo_net, tx_pki = demo_pki, tx_lock = True, tx_load = True, tx_save = True,
     tx_active = True, tx_now = now\<rparr>"

definition demo_peer :: "string \<Rightarrow> string \<Rightarrow> peer" where
  "demo_peer fp name = \<lparr>pr_fingerprint = fp, pr_name = name, pr_alias = '''', pr_default = False, pr_address = ''10.0.0.1'',
     pr_cert = '''', pr_first_seen = 0, pr_last_seen = 0, pr_confirmed = 0\<rparr>"

definition demo_store :: store where
  "demo_store = \<lparr>st_peers = PeersStored [(''ab12cd'', demo_peer ''ab12cd'' ''mac''), (''ab12ef'', demo_peer ''ab12ef'' ''box'')],
     st_active = ActiveRegular (Names ''ab12ef'')\<rparr>"

theorem resolve_peer_sound_witness:
  "resolve_peer (demo_tx 1) '' AB12CD '' demo_store = Inr (demo_peer ''ab12cd'' ''mac'') \<and>
   demo_peer ''ab12cd'' ''mac'' \<in> set (list_peers (demo_tx 1) demo_store)"
proof -
  have r: "resolve_peer (demo_tx 1) '' AB12CD '' demo_store = Inr (demo_peer ''ab12cd'' ''mac'')" by code_simp
  with resolve_peer_sound [OF r refl] show ?thesis by simp
qed

text \<open>
  C27. The store stays well formed over every run, whatever fails in it: each record is filed under
  its own fingerprint in lower case, its labels and address passed their checks, and a certificate in
  it is the certificate of that fingerprint. And the peer reported as active is always one of the
  trusted ones.\<close>

theorem store_well_formed:
  assumes "store_ok nl pk s0" "list_all (same_world nl pk) es" "s = foldl store_step s0 es"
  shows "store_ok nl pk s \<and> (case snd (load_active_peer t s) of Inl e \<Rightarrow> True | Inr fp \<Rightarrow> fp = '''' \<or> fp \<in> trusted s)"
  using trust_store.allowed_run_inv [OF assms(1,2)] assms(3) load_active_trusted
  by (auto split: sum.split)

theorem store_well_formed_witness:
  "let s = foldl store_step empty_store [AddPeer (demo_tx 5) (demo_peer '' AB12CD'' ''mac''), SaveActive (demo_tx 6) ''ab12cd'']
   in store_ok demo_net demo_pki s \<and> snd (load_active_peer (demo_tx 7) s) = Inr ''ab12cd'' \<and> ''ab12cd'' \<in> trusted s"
proof -
  let ?es = "[AddPeer (demo_tx 5) (demo_peer '' AB12CD'' ''mac''), SaveActive (demo_tx 6) ''ab12cd'']"
  have "store_ok demo_net demo_pki empty_store" "list_all (same_world demo_net demo_pki) ?es"
    by (simp_all add: store_ok_def empty_store_def same_world_def demo_tx_def)
  from store_well_formed [OF this refl, of "demo_tx 7"]
  have ok: "store_ok demo_net demo_pki (foldl store_step empty_store ?es)"
    "case snd (load_active_peer (demo_tx 7) (foldl store_step empty_store ?es)) of Inl e \<Rightarrow> True
     | Inr fp \<Rightarrow> fp = '''' \<or> fp \<in> trusted (foldl store_step empty_store ?es)" by blast+
  have cases: "(case snd (load_active_peer (demo_tx 7) (foldl store_step empty_store ?es)) of Inl e \<Rightarrow> '''' | Inr fp \<Rightarrow> fp) = ''ab12cd''"
    by code_simp
  then have "snd (load_active_peer (demo_tx 7) (foldl store_step empty_store ?es)) = Inr ''ab12cd''"
    by (cases "snd (load_active_peer (demo_tx 7) (foldl store_step empty_store ?es))") simp_all
  with ok show ?thesis by (simp add: Let_def del: foldl.simps)
qed

text \<open>
  C26. A peer that was removed stays out. After \<open>RemovePeer\<close> reported success, and through every run
  of operations in which that fingerprint is not paired again - with any failures - it is not trusted,
  it is never reported as the active peer, and no query resolves to it.\<close>

theorem removed_peer_stays_out:
  assumes "remove_peer t0 fp s0 = (s1, None)" "fold_fingerprint fp \<noteq> ''''"
    and "store_ok nl pk s0" "same_world nl pk (RemovePeer t0 fp)"
    and "list_all (\<lambda>e. same_world nl pk e \<and> \<not> adds fp e) es" "s = foldl store_step s1 es"
  shows "\<not> is_trusted t fp s \<and> snd (load_active_peer t s) \<noteq> Inr (fold_fingerprint fp) \<and>
    (case resolve_peer t query s of Inl e \<Rightarrow> True | Inr p \<Rightarrow> pr_fingerprint p \<noteq> fold_fingerprint fp)"
proof -
  have s1: "s1 = store_step s0 (RemovePeer t0 fp)" using assms(1) by simp
  have "store_ok nl pk s1" unfolding s1 by (rule store_step_ok [OF assms(3,4)])
  moreover have w: "list_all (same_world nl pk) es" "list_all (\<lambda>e. \<not> adds fp e) es"
    using assms(5) by (simp_all add: list_all_iff)
  ultimately have ok: "store_ok nl pk s" unfolding assms(6) by (intro trust_store.allowed_run_inv) simp_all
  have "fold_fingerprint fp \<notin> trusted s1" using remove_peer_trusted [of t0 fp s0] assms(1) by auto
  then have out: "fold_fingerprint fp \<notin> trusted s"
    unfolding assms(6) by (intro untrusted.allowed_run_inv w(2)) simp_all
  have "pr_fingerprint p \<noteq> fold_fingerprint fp" if "resolve_peer t query s = Inr p" for p
  proof -
    have "p \<in> set (list_peers t s)"
      using that by (auto simp: resolve_peer_def Let_def dest: first_peer_some filter_singleton split: if_splits option.splits list.splits)
    with list_peers_trusted [OF ok] out show ?thesis by metis
  qed
  then show ?thesis
    using out is_trusted_trusted load_active_trusted [of t s "fold_fingerprint fp"] assms(2)
    by (auto split: sum.split)
qed

lemma demo_store_ok: "store_ok demo_net demo_pki demo_store"
proof -
  have "validate_peer_address demo_net ''10.0.0.1'' = None" by code_simp
  moreover have "fold_fingerprint ''ab12cd'' = ''ab12cd''" "fold_fingerprint ''ab12ef'' = ''ab12ef''"
    "validate_peer_label ''mac'' = None" "validate_peer_label ''box'' = None" "validate_peer_label '''' = None" by code_simp+
  ultimately show ?thesis
    by (simp add: store_ok_def demo_store_def peers_ok_def peer_ok_def demo_peer_def cert_ok_def address_ok_def)
qed

theorem removed_peer_stays_out_witness:
  "let s = foldl store_step (fst (remove_peer (demo_tx 3) ''AB12EF'' demo_store)) [SetAlias (demo_tx 4) ''ab12cd'' ''ab12ef'']
   in \<not> is_trusted (demo_tx 5) ''AB12EF'' s \<and> snd (load_active_peer (demo_tx 5) s) \<noteq> Inr ''ab12ef'' \<and>
      resolve_peer (demo_tx 5) ''ab12ef'' s \<noteq> Inr (demo_peer ''ab12ef'' ''box'')"
proof -
  let ?s = "foldl store_step (fst (remove_peer (demo_tx 3) ''AB12EF'' demo_store)) [SetAlias (demo_tx 4) ''ab12cd'' ''ab12ef'']"
  have "snd (remove_peer (demo_tx 3) ''AB12EF'' demo_store) = None" by code_simp
  then have r: "remove_peer (demo_tx 3) ''AB12EF'' demo_store = (fst (remove_peer (demo_tx 3) ''AB12EF'' demo_store), None)"
    by (metis prod.collapse)
  have f: "fold_fingerprint ''AB12EF'' = ''ab12ef''" by code_simp
  have w: "same_world demo_net demo_pki (RemovePeer (demo_tx 3) ''AB12EF'')"
    "list_all (\<lambda>e. same_world demo_net demo_pki e \<and> \<not> adds ''AB12EF'' e) [SetAlias (demo_tx 4) ''ab12cd'' ''ab12ef'']"
    by (simp_all add: same_world_def demo_tx_def adds_def)
  have "fold_fingerprint ''AB12EF'' \<noteq> ''''" by (simp add: f)
  from removed_peer_stays_out [OF r this demo_store_ok w refl, of "demo_tx 5" "''ab12ef''"] show ?thesis
    unfolding f by (auto simp: demo_peer_def Let_def simp del: foldl.simps)
qed

text \<open>
  Where the operations end their promises: a removal interrupted before the active peer is cleared is
  undone for the selection by pairing again, if nobody asked for the active peer in between; and an
  alias wins over another peer's name without an error.
\<close>

lemma interrupted_removal_returns:
  "let s = foldl store_step demo_store
     [RemovePeer ((demo_tx 1)\<lparr>tx_active := False\<rparr>) ''ab12ef'', AddPeer (demo_tx 2) (demo_peer ''ab12ef'' ''box'')]
   in (case snd (load_active_peer (demo_tx 3) s) of Inl e \<Rightarrow> '''' | Inr fp \<Rightarrow> fp) = ''ab12ef''"
  by code_simp

lemma alias_shadows_name:
  "(case resolve_peer (demo_tx 2) ''box'' (store_step demo_store (SetAlias (demo_tx 1) ''ab12cd'' ''box'')) of
      Inl e \<Rightarrow> '''' | Inr p \<Rightarrow> pr_fingerprint p) = ''ab12cd''"
  by code_simp

end
