(* ===== verification/Store_Files.thy ===== *)
theory Store_Files
  imports Peer_Store Atomic_Publish
begin

text \<open>
  The files of the trust store on the disk (internal/pairing/store.go): replacing one so that a crash
  loses nothing, restoring the copy that an interrupted replacement left behind, and the transaction
  on \<open>peers.json\<close> and the identity built from them. \<open>Peer_Store\<close> is the view of the same operations in
  which a file is read and replaced in one step; the refinement between the two is proved here.
\<close>

section \<open>Replacing and restoring a file\<close>

text \<open>The faults of a replacement, with the removal of a leftover backup.\<close>

record store_faults = faults +
  fl_remove_backup :: bool

definition backup_suffix :: string where "backup_suffix = ''.bak''"

definition backup_path :: "string \<Rightarrow> string" where "backup_path path = path @ backup_suffix"

definition preserve_destination :: "store_faults \<Rightarrow> string \<Rightarrow> fs \<Rightarrow> fs \<times> string option" where
  "preserve_destination fl dst f =
     (let backup = backup_path dst;
          f1 = remove_file (fl_remove_backup fl) backup f
      in case rename_file (fl_backup_rename fl) dst backup f1 of
           None \<Rightarrow> (f1, None)
         | Some f2 \<Rightarrow> (f2, Some backup))"

definition write_atomic :: "store_faults \<Rightarrow> string \<Rightarrow> string \<Rightarrow> string \<Rightarrow> fs \<Rightarrow> fs \<times> bool" where
  "write_atomic fl tmp dst data f =
     (case fill_temp (faults.truncate fl) tmp data f of
        Inl f1 \<Rightarrow> (f1, False)
      | Inr f1 \<Rightarrow>
          let drop_tmp = remove_file (fl_cleanup fl) tmp
          in (case rename_file (fl_rename fl) tmp dst f1 of
            Some f2 \<Rightarrow> (f2, True)
          | None \<Rightarrow>
              (case preserve_destination fl dst f1 of
                (f2, None) \<Rightarrow> (drop_tmp f2, False)
              | (f2, Some backup) \<Rightarrow>
                  (case rename_file (fl_retry fl) tmp dst f2 of
                    Some f3 \<Rightarrow> (remove_file (fl_cleanup fl) backup f3, True)
                  | None \<Rightarrow>
                      (case rename_file (fl_restore fl) backup dst f2 of
                        Some f3 \<Rightarrow> (drop_tmp f3, False)
                      | None \<Rightarrow> (drop_tmp f2, False))))))"

text \<open>The faults of a load, in the order of the code.\<close>

record load_faults =
  lf_read :: bool
  lf_stat_backup :: bool
  lf_stat_path :: bool
  lf_restore :: bool
  lf_reread :: bool

definition restore_backup_if_missing :: "load_faults \<Rightarrow> string \<Rightarrow> fs \<Rightarrow> fs \<times> bool" where
  "restore_backup_if_missing lf path f =
     (let backup = backup_path path
      in if lf_stat_backup lf then (f, False)
         else if fs_dir f backup = None then (f, True)
         else if lf_stat_path lf then (f, False)
         else if fs_dir f path \<noteq> None then (f, True)
         else (case rename_file (lf_restore lf) backup path f of
           Some f1 \<Rightarrow> (f1, True)
         | None \<Rightarrow> (f, False)))"

datatype file_content = FileFailed | FileAbsent | FileBytes string

text \<open>\<open>os.ReadFile\<close>.\<close>

definition read_file :: "bool \<Rightarrow> string \<Rightarrow> fs \<Rightarrow> file_content" where
  "read_file fails path f =
     (if fails then FileFailed
      else (case fs_dir f path of
        None \<Rightarrow> FileAbsent
      | Some (Regular bs) \<Rightarrow> FileBytes bs
      | Some _ \<Rightarrow> FileFailed))"

text \<open>
  The load path of both files: an absent file is restored from its backup and read again, and when
  that fails, for whatever reason, it counts as absent.
\<close>

definition load_store_file :: "load_faults \<Rightarrow> string \<Rightarrow> fs \<Rightarrow> fs \<times> file_content" where
  "load_store_file lf path f =
     (case read_file (lf_read lf) path f of
        FileFailed \<Rightarrow> (f, FileFailed)
      | FileBytes bs \<Rightarrow> (f, FileBytes bs)
      | FileAbsent \<Rightarrow>
          (case restore_backup_if_missing lf path f of
            (f1, False) \<Rightarrow> (f1, FileFailed)
          | (f1, True) \<Rightarrow>
              (f1, case read_file (lf_reread lf) path f1 of FileBytes bs \<Rightarrow> FileBytes bs | _ \<Rightarrow> FileAbsent)))"

section \<open>The transaction on the peers\<close>

text \<open>The codec of \<open>peers.json\<close> is a parameter; encoding may fail.\<close>

record peers_codec =
  pc_encode :: "peers \<Rightarrow> string option"
  pc_decode :: "string \<Rightarrow> peers option"

definition decode_peers :: "peers_codec \<Rightarrow> file_content \<Rightarrow> store_error + peers" where
  "decode_peers pc r =
     (case r of
        FileFailed \<Rightarrow> Inl LoadFailed
      | FileAbsent \<Rightarrow> Inr []
      | FileBytes bs \<Rightarrow>
          if bs = '''' then Inr []
          else (case pc_decode pc bs of None \<Rightarrow> Inl LoadFailed | Some m \<Rightarrow> Inr m))"

definition load_peers_file :: "peers_codec \<Rightarrow> load_faults \<Rightarrow> string \<Rightarrow> fs \<Rightarrow> fs \<times> (store_error + peers)" where
  "load_peers_file pc lf path f = (case load_store_file lf path f of (f1, r) \<Rightarrow> (f1, decode_peers pc r))"

definition save_peers_file ::
  "peers_codec \<Rightarrow> store_faults \<Rightarrow> string \<Rightarrow> string \<Rightarrow> peers \<Rightarrow> fs \<Rightarrow> fs \<times> store_error option" where
  "save_peers_file pc fl tmp path m f =
     (case pc_encode pc m of
        None \<Rightarrow> (f, Some SaveFailed)
      | Some data \<Rightarrow> (case write_atomic fl tmp path data f of (f1, ok) \<Rightarrow> (f1, if ok then None else Some SaveFailed)))"

definition mutate_peers_file ::
  "peers_codec \<Rightarrow> load_faults \<Rightarrow> store_faults \<Rightarrow> string \<Rightarrow> string \<Rightarrow> (peers \<Rightarrow> store_error + peers) \<Rightarrow> fs \<Rightarrow>
   fs \<times> store_error option" where
  "mutate_peers_file pc lf fl tmp path g f =
     (case load_peers_file pc lf path f of
        (f1, Inl e) \<Rightarrow> (f1, Some e)
      | (f1, Inr m) \<Rightarrow> (case g m of Inl e \<Rightarrow> (f1, Some e) | Inr m' \<Rightarrow> save_peers_file pc fl tmp path m' f1))"

section \<open>The identity\<close>

record identity_codec =
  ic_encode :: "identity \<Rightarrow> string option"
  ic_decode :: "string \<Rightarrow> identity option"

datatype identity_load_error =
    IdentityUnreadable | IdentityUndecodable | IdentityInvalid identity_error | IdentityNotGenerated | IdentityNotSaved

definition load_identity ::
  "identity_codec \<Rightarrow> pki \<Rightarrow> load_faults \<Rightarrow> string \<Rightarrow> fs \<Rightarrow> fs \<times> (identity_load_error + identity option)" where
  "load_identity ic pk lf path f =
     (case load_store_file lf path f of
        (f1, FileFailed) \<Rightarrow> (f1, Inl IdentityUnreadable)
      | (f1, FileAbsent) \<Rightarrow> (f1, Inr None)
      | (f1, FileBytes bs) \<Rightarrow>
          (f1, case ic_decode ic bs of
                 None \<Rightarrow> Inl IdentityUndecodable
               | Some i \<Rightarrow> (case validate_identity pk (Some i) of Some e \<Rightarrow> Inl (IdentityInvalid e) | None \<Rightarrow> Inr (Some i))))"

definition save_identity_unlocked ::
  "identity_codec \<Rightarrow> store_faults \<Rightarrow> string \<Rightarrow> string \<Rightarrow> identity \<Rightarrow> fs \<Rightarrow> fs \<times> bool" where
  "save_identity_unlocked ic fl tmp path i f =
     (case ic_encode ic i of None \<Rightarrow> (f, False) | Some data \<Rightarrow> write_atomic fl tmp path data f)"

definition save_identity ::
  "identity_codec \<Rightarrow> pki \<Rightarrow> store_faults \<Rightarrow> string \<Rightarrow> string \<Rightarrow> identity option \<Rightarrow> fs \<Rightarrow> fs \<times> bool" where
  "save_identity ic pk fl tmp path io f =
     (case (validate_identity pk io, io) of
        (None, Some i) \<Rightarrow> save_identity_unlocked ic fl tmp path i f
      | _ \<Rightarrow> (f, False))"

text \<open>\<open>made\<close> is the outcome of \<open>GenerateIdentity\<close>.\<close>

definition load_or_create_identity ::
  "identity_codec \<Rightarrow> pki \<Rightarrow> load_faults \<Rightarrow> store_faults \<Rightarrow> string \<Rightarrow> string \<Rightarrow> identity option \<Rightarrow> fs \<Rightarrow>
   fs \<times> (identity_load_error + identity)" where
  "load_or_create_identity ic pk lf fl tmp path made f =
     (case load_identity ic pk lf path f of
        (f1, Inl e) \<Rightarrow> (f1, Inl e)
      | (f1, Inr (Some i)) \<Rightarrow> (f1, Inr i)
      | (f1, Inr None) \<Rightarrow>
          (case made of
            None \<Rightarrow> (f1, Inl IdentityNotGenerated)
          | Some i \<Rightarrow>
              (case save_identity_unlocked ic fl tmp path i f1 of
                (f2, True) \<Rightarrow> (f2, Inr i)
              | (f2, False) \<Rightarrow> (f2, Inl IdentityNotSaved))))"

section \<open>What survives\<close>

text \<open>What the next load without faults finds in a directory.\<close>

definition no_load_faults :: load_faults where
  "no_load_faults = \<lparr>lf_read = False, lf_stat_backup = False, lf_stat_path = False, lf_restore = False, lf_reread = False\<rparr>"

definition recovered :: "string \<Rightarrow> directory \<Rightarrow> file_content" where
  "recovered path d = snd (load_store_file no_load_faults path (fs_now d))"

lemma backup_name [simp]: "backup_path path \<noteq> path" "path \<noteq> backup_path path"
  by (simp_all add: backup_path_def backup_suffix_def)

lemma recovered_eq:
  "recovered path d =
     (case d path of
        Some (Regular bs) \<Rightarrow> FileBytes bs
      | Some _ \<Rightarrow> FileFailed
      | None \<Rightarrow> (case d (backup_path path) of Some (Regular bs) \<Rightarrow> FileBytes bs | _ \<Rightarrow> FileAbsent))"
  by (auto simp: recovered_def load_store_file_def read_file_def no_load_faults_def restore_backup_if_missing_def
      rename_file_def split: option.splits node.splits)

lemma recovered_other [simp]:
  "a \<noteq> path \<Longrightarrow> a \<noteq> backup_path path \<Longrightarrow> recovered path (d(a := x)) = recovered path d"
  by (cases "d path") (auto simp: recovered_eq)

text \<open>Only regular files stand under the two names of a store file.\<close>

definition plain_files :: "string \<Rightarrow> directory \<Rightarrow> bool" where
  "plain_files path d \<longleftrightarrow>
     d path \<notin> {Some Symlink, Some Special} \<and> d (backup_path path) \<notin> {Some Symlink, Some Special}"

text \<open>A load changes nothing of what can be recovered and, unless its second read fails, returns it.\<close>

lemma restore_backup_cases:
  "restore_backup_if_missing lf path f = (f', ok) \<Longrightarrow> fs_dir f path = None \<Longrightarrow>
     f' = f \<and> (ok \<longrightarrow> fs_dir f (backup_path path) = None) \<or>
     ok \<and> (\<exists>n. fs_dir f (backup_path path) = Some n \<and>
       f' = observe ((fs_dir f)(path := Some n, backup_path path := None)) f)"
  by (auto simp: restore_backup_if_missing_def rename_file_def Let_def split: if_splits)

lemma load_store_file_keeps:
  assumes l: "load_store_file lf path f = (f', r)" and p: "plain_files path (fs_dir f)"
  shows "recovered path (fs_dir f') = recovered path (fs_dir f) \<and>
    (list_all (\<lambda>d. recovered path d = recovered path (fs_dir f)) (fs_log f) \<longrightarrow>
       list_all (\<lambda>d. recovered path d = recovered path (fs_dir f)) (fs_log f')) \<and>
    plain_files path (fs_dir f') \<and>
    (r \<noteq> FileFailed \<longrightarrow> (fs_dir f' path = None \<longrightarrow> fs_dir f' (backup_path path) = None) \<and>
       (\<not> lf_reread lf \<longrightarrow> r = recovered path (fs_dir f)))"
proof (cases "lf_read lf \<or> fs_dir f path \<noteq> None")
  case True
  then have "f' = f" "r \<noteq> FileFailed \<Longrightarrow> fs_dir f path \<noteq> None \<and> r = recovered path (fs_dir f)"
    using l by (auto simp: load_store_file_def read_file_def recovered_eq split: if_splits option.splits node.splits)
  with p show ?thesis by auto
next
  case False
  then have absent: "fs_dir f path = None" by simp
  obtain f1 ok where r1: "restore_backup_if_missing lf path f = (f1, ok)" by fastforce
  have l1: "f' = f1" "r = (if \<not> ok then FileFailed
      else case read_file (lf_reread lf) path f1 of FileBytes bs \<Rightarrow> FileBytes bs | _ \<Rightarrow> FileAbsent)"
    using l False r1 by (auto simp: load_store_file_def read_file_def split: bool.splits)
  from restore_backup_cases [OF r1 absent] show ?thesis
  proof (elim disjE conjE exE)
    assume "f1 = f" "ok \<longrightarrow> fs_dir f (backup_path path) = None"
    with l1 p absent show ?thesis by (auto simp: read_file_def recovered_eq)
  next
    fix n assume n: "ok" "fs_dir f (backup_path path) = Some n"
      "f1 = observe ((fs_dir f)(path := Some n, backup_path path := None)) f"
    with p obtain bs where "n = Regular bs" by (cases n) (auto simp: plain_files_def)
    with n l1 p absent show ?thesis by (auto simp: read_file_def recovered_eq plain_files_def)
  qed
qed

text \<open>
  A replacement in a directory where the backup is not the only copy: every directory observed on the
  way recovers the old content or, when the replacement succeeds, the complete new one, and the outcome
  says which it is at the end.
\<close>

lemma fill_temp_recovered:
  assumes "tmp \<noteq> path" "tmp \<noteq> backup_path path" "list_all (\<lambda>d. recovered path d = c) (fs_log f)"
    "recovered path (fs_dir f) = c"
  shows "fill_temp fl tmp data f = Inl g \<Longrightarrow> list_all (\<lambda>d. recovered path d = c) (fs_log g) \<and> recovered path (fs_dir g) = c"
    "fill_temp fl tmp data f = Inr g \<Longrightarrow> list_all (\<lambda>d. recovered path d = c) (fs_log g) \<and> recovered path (fs_dir g) = c"
  using always_fill [of "\<lambda>d. recovered path d = c" f tmp fl data g] assms by (simp_all add: always_def)

definition old_or_new :: "string \<Rightarrow> file_content \<Rightarrow> bool \<Rightarrow> string \<Rightarrow> directory \<Rightarrow> bool" where
  "old_or_new path c ok data d \<longleftrightarrow> recovered path d = c \<or> ok \<and> recovered path d = FileBytes data"

lemma old_or_new_mono: "list_all (\<lambda>d. recovered path d = c) ds \<Longrightarrow> list_all (old_or_new path c ok data) ds"
  by (auto simp: list_all_iff old_or_new_def)

lemma write_atomic_keeps:
  assumes names: "tmp \<noteq> path" "tmp \<noteq> backup_path path"
    and only: "fs_dir f path = None \<longrightarrow> fs_dir f (backup_path path) = None"
    and plain: "plain_files path (fs_dir f)"
    and log: "list_all (\<lambda>d. recovered path d = recovered path (fs_dir f)) (fs_log f)"
    and w: "write_atomic fl tmp path data f = (f', ok)"
  shows "list_all (old_or_new path (recovered path (fs_dir f)) ok data) (fs_log f') \<and>
    recovered path (fs_dir f') = (if ok then FileBytes data else recovered path (fs_dir f))"
proof (cases "fill_temp (faults.truncate fl) tmp data f")
  case (Inl g)
  with w fill_temp_recovered(1) [OF names log refl Inl] show ?thesis
    by (auto simp: write_atomic_def intro: old_or_new_mono)
next
  case (Inr g)
  let ?c = "recovered path (fs_dir f)"
  have g: "list_all (old_or_new path ?c ok data) (fs_log g)" "recovered path (fs_dir g) = ?c"
    using fill_temp_recovered(2) [OF names log refl Inr] by (auto intro: old_or_new_mono)
  have d: "fs_dir g path = fs_dir f path" "fs_dir g (backup_path path) = fs_dir f (backup_path path)"
    "fs_dir g tmp = Some (Regular data)"
    using fill_temp_dir [OF Inr] names by simp_all
  show ?thesis
  proof (cases "rename_file (fl_rename fl) tmp path g")
    case (Some h)
    with w Inr d g names show ?thesis
      by (auto simp: write_atomic_def rename_cases old_or_new_def recovered_eq)
  next
    case None
    show ?thesis
    proof (cases "fs_dir f path")
      case absent: None
      with only have b: "fs_dir f (backup_path path) = None" by blast
      have "preserve_destination fl path g = (remove_file (fl_remove_backup fl) (backup_path path) g, None)"
        using absent d by (simp add: preserve_destination_def Let_def rename_file_def remove_file_def)
      with w Inr None absent b d g names show ?thesis
        by (auto simp: write_atomic_def remove_file_def old_or_new_def recovered_eq)
    next
      case (Some n)
      then obtain bs where n: "n = Regular bs" using plain by (cases n) (auto simp: plain_files_def)
      have c: "?c = FileBytes bs" using Some n by (simp add: recovered_eq)
      let ?f1 = "remove_file (fl_remove_backup fl) (backup_path path) g"
      have f1: "fs_dir ?f1 path = Some (Regular bs)" "fs_dir ?f1 tmp = Some (Regular data)"
        "list_all (old_or_new path ?c ok data) (fs_log ?f1)"
        using Some n d g names by (auto simp: remove_file_def old_or_new_def recovered_eq c)
      show ?thesis
      proof (cases "fl_backup_rename fl")
        case True
        then have "preserve_destination fl path g = (?f1, None)"
          by (simp add: preserve_destination_def Let_def rename_file_def)
        with w Inr None f1 names c show ?thesis
          by (auto simp: write_atomic_def remove_file_def old_or_new_def recovered_eq split: if_splits)
      next
        case False
        let ?f2 = "observe ((fs_dir ?f1)(backup_path path := Some (Regular bs), path := None)) ?f1"
        have p: "preserve_destination fl path g = (?f2, Some (backup_path path))"
          using False f1 by (simp add: preserve_destination_def Let_def rename_file_def)
        have f2: "list_all (old_or_new path ?c ok data) (fs_log ?f2)" "fs_dir ?f2 tmp = Some (Regular data)"
          "fs_dir ?f2 path = None" "fs_dir ?f2 (backup_path path) = Some (Regular bs)"
          using f1 names unfolding c by (simp_all add: old_or_new_def recovered_eq)
        have w2: "(f', ok) =
          (case rename_file (fl_retry fl) tmp path ?f2 of
             Some f3 \<Rightarrow> (remove_file (fl_cleanup fl) (backup_path path) f3, True)
           | None \<Rightarrow> (case rename_file (fl_restore fl) (backup_path path) path ?f2 of
               Some f3 \<Rightarrow> (remove_file (fl_cleanup fl) tmp f3, False)
             | None \<Rightarrow> (remove_file (fl_cleanup fl) tmp ?f2, False)))"
          using w Inr None p by (simp add: write_atomic_def Let_def)
        show ?thesis
          using w2 f2 names unfolding c
          by (cases "fl_retry fl"; cases "fl_restore fl"; cases "fl_cleanup fl")
            (simp_all add: rename_file_def remove_file_def old_or_new_def recovered_eq)
      qed
    qed
  qed
qed

section \<open>The refinement\<close>

text \<open>
  A directory as the trust store of \<open>Peer_Store\<close> sees it, and the peers in it as a map: the order in
  which a codec writes them does not matter.
\<close>

definition peers_view :: "peers_codec \<Rightarrow> string \<Rightarrow> directory \<Rightarrow> peers_file" where
  "peers_view pc path d =
     (case recovered path d of
        FileAbsent \<Rightarrow> PeersAbsent
      | r \<Rightarrow> (case decode_peers pc r of Inl e \<Rightarrow> PeersUnreadable | Inr m \<Rightarrow> PeersStored m))"

primrec peers_map :: "peers_file \<Rightarrow> (string \<Rightarrow> peer option) option" where
  "peers_map PeersAbsent = Some Map.empty"
| "peers_map PeersUnreadable = None"
| "peers_map (PeersStored m) = Some (map_of m)"

text \<open>What is relied on of the codec: an encoding is not empty and is decoded to the same map.\<close>

definition codec_ok :: "peers_codec \<Rightarrow> bool" where
  "codec_ok pc \<longleftrightarrow> (\<forall>m data. pc_encode pc m = Some data \<longrightarrow>
     data \<noteq> '''' \<and> (\<exists>m'. pc_decode pc data = Some m' \<and> map_of m' = map_of m))"

lemma view_recovered: "recovered path d' = recovered path d \<Longrightarrow> peers_view pc path d' = peers_view pc path d"
  by (simp add: peers_view_def)

lemma view_written:
  assumes "codec_ok pc" "pc_encode pc m = Some data" "recovered path d = FileBytes data"
  shows "peers_map (peers_view pc path d) = Some (map_of m)"
  using assms unfolding codec_ok_def by (fastforce simp: peers_view_def decode_peers_def)

lemma save_peers_file_view:
  assumes names: "tmp \<noteq> path" "tmp \<noteq> backup_path path"
    and only: "fs_dir f path = None \<longrightarrow> fs_dir f (backup_path path) = None"
    and plain: "plain_files path (fs_dir f)"
    and log: "list_all (\<lambda>d. recovered path d = recovered path (fs_dir f)) (fs_log f)"
    and pc: "codec_ok pc"
    and s: "save_peers_file pc fl tmp path m f = (f', r)"
  shows "list_all (\<lambda>d. peers_view pc path d = peers_view pc path (fs_dir f) \<or>
      r = None \<and> peers_map (peers_view pc path d) = Some (map_of m)) (fs_log f') \<and>
    (r = None \<and> peers_map (peers_view pc path (fs_dir f')) = Some (map_of m) \<or>
     r = Some SaveFailed \<and> peers_view pc path (fs_dir f') = peers_view pc path (fs_dir f))"
proof (cases "pc_encode pc m")
  case None
  with s log show ?thesis by (auto simp: save_peers_file_def list_all_iff intro!: view_recovered)
next
  case (Some data)
  obtain g ok where w: "write_atomic fl tmp path data f = (g, ok)" by fastforce
  with s Some have g: "f' = g" "r = (if ok then None else Some SaveFailed)"
    by (simp_all add: save_peers_file_def)
  from write_atomic_keeps [OF names only plain log w]
  show ?thesis using g view_written [OF pc Some]
    by (auto simp: list_all_iff old_or_new_def intro: view_recovered)
qed

text \<open>
  C28. The transaction on peers.json refines the one-step transaction of the trust store, crashes
  included. Whatever fails on the way - short of the second read after a restored backup - the
  directory at the end holds, under the file's name or its backup, the peers that the one-step
  transaction leaves when its load and its save fail or succeed accordingly, with the same error;
  and in every directory a crash could leave behind on the way, the next load finds the peers of
  before or those.
\<close>

theorem peers_file_refines:
  assumes "tmp \<noteq> path" "tmp \<noteq> backup_path path" "plain_files path d" "codec_ok pc" "\<not> lf_reread lf"
    and "mutate_peers_file pc lf fl tmp path g (fs_now d) = (f, r)"
    and "st_peers s = peers_view pc path d"
  shows "\<exists>loads saves. let t' = t\<lparr>tx_load := loads, tx_save := saves\<rparr>;
      after = peers_map (st_peers (fst (mutate_peers t' g s)))
    in peers_map (peers_view pc path (fs_dir f)) = after \<and> r = snd (mutate_peers t' g s) \<and>
       list_all (\<lambda>d'. peers_map (peers_view pc path d') \<in> {peers_map (peers_view pc path d), after}) (fs_log f)"
proof -
  let ?t = "\<lambda>loads saves. t\<lparr>tx_load := loads, tx_save := saves\<rparr>"
  obtain f1 c where l: "load_store_file lf path (fs_now d) = (f1, c)" by fastforce
  note k = load_store_file_keeps [OF l, simplified, OF assms(3)]
  then have log: "list_all (\<lambda>d'. recovered path d' = recovered path (fs_dir f1)) (fs_log f1)"
    and view1: "peers_view pc path (fs_dir f1) = peers_view pc path d"
    and "\<forall>d' \<in> set (fs_log f1). recovered path d' = recovered path d"
    by (auto simp: list_all_iff intro: view_recovered)
  then have old: "list_all (\<lambda>d'. peers_map (peers_view pc path d') = peers_map (peers_view pc path d)) (fs_log f1)"
    unfolding list_all_iff by (metis view_recovered)
  have same: ?thesis if "f = f1" "r = snd (mutate_peers (?t a b) g s)" "fst (mutate_peers (?t a b) g s) = s" for a b
    using that old view1 assms(7) by (intro exI [of _ a] exI [of _ b]) (auto simp: Let_def list_all_iff)
  show ?thesis
  proof (cases "decode_peers pc c")
    case (Inl e)
    then have "f = f1" "r = Some e" "e = LoadFailed"
      using assms(6) l by (auto simp: mutate_peers_file_def load_peers_file_def decode_peers_def
          split: file_content.splits if_splits option.splits)
    then show ?thesis by (intro same [of False False]) (simp_all add: mutate_peers_def load_peers_map_def)
  next
    case (Inr m)
    then have "c \<noteq> FileFailed" by (auto simp: decode_peers_def)
    with k assms(5) have c: "c = recovered path d" and only: "fs_dir f1 path = None \<longrightarrow> fs_dir f1 (backup_path path) = None"
      by auto
    then have loaded: "load_peers_map (?t True b) s = Inr m" for b
      using Inr assms(7) by (auto simp: load_peers_map_def peers_view_def decode_peers_def split: file_content.splits if_splits)
    have step: "(f, r) = (case g m of Inl e \<Rightarrow> (f1, Some e) | Inr m' \<Rightarrow> save_peers_file pc fl tmp path m' f1)"
      using assms(6) l Inr by (simp add: mutate_peers_file_def load_peers_file_def)
    show ?thesis
    proof (cases "g m")
      case (Inl e)
      with step loaded show ?thesis by (intro same [of True True]) (simp_all add: mutate_peers_def)
    next
      case (Inr m')
      with step have sv: "save_peers_file pc fl tmp path m' f1 = (f, r)" by simp
      have m: "mutate_peers (?t True b) g s = save_peers_map (?t True b) m' s" for b
        using Inr loaded by (simp add: mutate_peers_def)
      from save_peers_file_view [OF assms(1,2) only _ log assms(4) sv] k
      show ?thesis
        by (intro exI [of _ True] exI [of _ "r = None"])
          (auto simp: m save_peers_map_def view1 assms(7) Let_def list_all_iff)
    qed
  qed
qed

definition demo_codec :: peers_codec where
  "demo_codec = \<lparr>pc_encode = (\<lambda>m. if m = [] then Some ''{}'' else None), pc_decode = (\<lambda>s. if s = ''{}'' then Some [] else None)\<rparr>"

definition demo_load_faults :: load_faults where "demo_load_faults = no_load_faults"

definition demo_store_faults :: store_faults where
  "demo_store_faults = faults.extend demo_faults \<lparr>fl_remove_backup = False\<rparr>"

theorem peers_file_refines_witness:
  "\<exists>loads saves. let t' = (demo_tx 1)\<lparr>tx_load := loads, tx_save := saves\<rparr>;
      after = peers_map (st_peers (fst (mutate_peers t' Inr \<lparr>st_peers = PeersStored [], st_active = ActiveAbsent\<rparr>)));
      f = fst (mutate_peers_file demo_codec demo_load_faults demo_store_faults ''x'' ''p'' Inr (fs_now [''p'' \<mapsto> Regular ''{}'']))
    in peers_map (peers_view demo_codec ''p'' (fs_dir f)) = after"
proof -
  let ?m = "mutate_peers_file demo_codec demo_load_faults demo_store_faults ''x'' ''p'' Inr (fs_now [''p'' \<mapsto> Regular ''{}''])"
  have "backup_path ''p'' = ''p.bak''" by (simp add: backup_path_def backup_suffix_def)
  then have "plain_files ''p'' [''p'' \<mapsto> Regular ''{}'']" "''x'' \<noteq> backup_path ''p''" by (simp_all add: plain_files_def)
  moreover have "peers_view demo_codec ''p'' [''p'' \<mapsto> Regular ''{}''] = PeersStored []"
    by (simp add: peers_view_def recovered_eq decode_peers_def demo_codec_def)
  moreover have "codec_ok demo_codec" by (auto simp: codec_ok_def demo_codec_def)
  ultimately show ?thesis
    using peers_file_refines [of "''x''" "''p''" "[''p'' \<mapsto> Regular ''{}'']" demo_codec demo_load_faults demo_store_faults
      Inr "fst ?m" "snd ?m" "\<lparr>st_peers = PeersStored [], st_active = ActiveAbsent\<rparr>" "demo_tx 1"]
    by (simp add: demo_load_faults_def no_load_faults_def Let_def) blast
qed

section \<open>The identity is never replaced\<close>

definition identity_codec_ok :: "identity_codec \<Rightarrow> bool" where
  "identity_codec_ok ic \<longleftrightarrow> (\<forall>i data. ic_encode ic i = Some data \<longrightarrow> ic_decode ic data = Some i)"

text \<open>The identity that the next load without faults returns.\<close>

definition stored_identity :: "identity_codec \<Rightarrow> string \<Rightarrow> directory \<Rightarrow> identity option" where
  "stored_identity ic path d = (case recovered path d of FileBytes bs \<Rightarrow> ic_decode ic bs | _ \<Rightarrow> None)"

lemma load_identity_recovered:
  assumes "load_identity ic pk lf path (fs_now d) = (f', r)" "plain_files path d" "\<not> lf_reread lf"
  shows "plain_files path (fs_dir f') \<and> recovered path (fs_dir f') = recovered path d \<and>
    list_all (\<lambda>d'. recovered path d' = recovered path (fs_dir f')) (fs_log f') \<and>
    (\<forall>i. r = Inr (Some i) \<longrightarrow> stored_identity ic path d = Some i) \<and>
    (r = Inr None \<longrightarrow> recovered path d = FileAbsent)"
proof -
  obtain c where l: "load_store_file lf path (fs_now d) = (f', c)"
    using assms(1) by (auto simp: load_identity_def split: prod.splits file_content.splits)
  note k = load_store_file_keeps [OF l, simplified, OF assms(2)]
  show ?thesis
    using assms(1,3) l k by (auto simp: load_identity_def stored_identity_def split: file_content.splits option.splits)
qed

lemma absent_log: "recovered path (fs_dir f) = FileAbsent \<Longrightarrow> plain_files path (fs_dir f) \<Longrightarrow>
    fs_dir f path = None \<and> fs_dir f (backup_path path) = None"
  by (auto simp: recovered_eq plain_files_def split: option.splits node.splits)

lemma load_or_create_stored:
  assumes "tmp \<noteq> path" "tmp \<noteq> backup_path path" "plain_files path d" "\<not> lf_reread lf" "identity_codec_ok ic"
    and "load_or_create_identity ic pk lf fl tmp path made (fs_now d) = (f', r)"
  shows "(\<forall>i. r = Inr i \<longrightarrow> stored_identity ic path (fs_dir f') = Some i) \<and>
    (recovered path d \<noteq> FileAbsent \<longrightarrow> recovered path (fs_dir f') = recovered path d)"
proof -
  obtain f1 r1 where l: "load_identity ic pk lf path (fs_now d) = (f1, r1)" by fastforce
  note k = load_identity_recovered [OF l assms(3,4)]
  then have same: "stored_identity ic path (fs_dir f1) = stored_identity ic path d"
    by (simp add: stored_identity_def)
  show ?thesis
  proof (cases "r1 = Inr None \<and> made \<noteq> None")
    case False
    then have "f' = f1" "\<And>i. r = Inr i \<Longrightarrow> r1 = Inr (Some i)"
      using assms(6) l by (auto simp: load_or_create_identity_def split: sum.splits option.splits)
    with k same show ?thesis by auto
  next
    case True
    then obtain i where i: "made = Some i" and n: "r1 = Inr None" by blast
    from k n have a: "recovered path d = FileAbsent" "recovered path (fs_dir f1) = FileAbsent" by simp_all
    with absent_log [OF a(2)] k have only: "fs_dir f1 path = None \<longrightarrow> fs_dir f1 (backup_path path) = None" by blast
    show ?thesis
    proof (cases "ic_encode ic i")
      case None
      then show ?thesis using assms(6) l n i a
        by (simp add: load_or_create_identity_def save_identity_unlocked_def) blast
    next
      case (Some data)
      obtain f2 ok where w: "write_atomic fl tmp path data f1 = (f2, ok)" by fastforce
      have "f' = f2" "r = (if ok then Inr i else Inl IdentityNotSaved)"
        using assms(6) l n i Some w by (cases ok; simp add: load_or_create_identity_def save_identity_unlocked_def)+
      moreover have "recovered path (fs_dir f2) = (if ok then FileBytes data else FileAbsent)"
        using write_atomic_keeps [OF assms(1,2) only _ _ w] k a by simp
      ultimately show ?thesis using a Some assms(5)
        by (auto simp: stored_identity_def identity_codec_ok_def)
    qed
  qed
qed

text \<open>A first write, in a directory without the file and without its backup, leaves only regular files.\<close>

lemma first_write_plain:
  assumes "tmp \<noteq> path" "tmp \<noteq> backup_path path" "fs_dir f path = None" "fs_dir f (backup_path path) = None"
    and "write_atomic fl tmp path data f = (f', ok)"
  shows "plain_files path (fs_dir f')"
proof (cases "fill_temp (faults.truncate fl) tmp data f")
  case (Inl g)
  then have "fs_dir g path = None" "fs_dir g (backup_path path) = None"
    using fill_temp_failed [OF Inl] assms(1-4) by simp_all
  with Inl assms(5) show ?thesis by (auto simp: write_atomic_def plain_files_def)
next
  case (Inr g)
  have d: "fs_dir g path = None" "fs_dir g (backup_path path) = None" "fs_dir g tmp = Some (Regular data)"
    using fill_temp_dir [OF Inr] assms(1-4) by simp_all
  then have "preserve_destination fl path g = (remove_file (fl_remove_backup fl) (backup_path path) g, None)"
    by (simp add: preserve_destination_def Let_def rename_file_def remove_file_def)
  with Inr d assms(1,2,5) show ?thesis
    by (auto simp: write_atomic_def rename_file_def remove_file_def plain_files_def split: if_splits)
qed

lemma load_or_create_plain:
  assumes "tmp \<noteq> path" "tmp \<noteq> backup_path path" "plain_files path d" "\<not> lf_reread lf"
    and "load_or_create_identity ic pk lf fl tmp path made (fs_now d) = (f', r)"
  shows "plain_files path (fs_dir f')"
proof -
  obtain f1 r1 where l: "load_identity ic pk lf path (fs_now d) = (f1, r1)" by fastforce
  note k = load_identity_recovered [OF l assms(3,4)]
  show ?thesis
  proof (cases "fs_dir f' = fs_dir f1")
    case True
    with k show ?thesis by simp
  next
    case False
    then obtain i data ok where n: "r1 = Inr None" and w: "write_atomic fl tmp path data f1 = (f', ok)"
      using assms(5) l by (auto simp: load_or_create_identity_def save_identity_unlocked_def
          split: sum.splits option.splits prod.splits bool.splits)
    from k n have a: "recovered path (fs_dir f1) = FileAbsent" "plain_files path (fs_dir f1)" by simp_all
    from absent_log [OF a] show ?thesis using first_write_plain [OF assms(1,2) _ _ w] by blast
  qed
qed

text \<open>
  Any number of starts, one after the other: the faults of each, its temporary name and the key it would
  make, with the identities returned, in order.
\<close>

record identity_start =
  is_load :: load_faults
  is_store :: store_faults
  is_tmp :: string
  is_made :: "identity option"

primrec identity_starts ::
  "identity_codec \<Rightarrow> pki \<Rightarrow> string \<Rightarrow> identity_start list \<Rightarrow> directory \<Rightarrow> directory \<times> (identity_load_error + identity) list" where
  "identity_starts ic pk path [] d = (d, [])"
| "identity_starts ic pk path (x # xs) d =
     (case load_or_create_identity ic pk (is_load x) (is_store x) (is_tmp x) path (is_made x) (fs_now d) of
        (f, r) \<Rightarrow> (case identity_starts ic pk path xs (fs_dir f) of (d', rs) \<Rightarrow> (d', r # rs)))"

text \<open>The starts meant: the second read after a restored backup works, and the temporary name is neither of the two.\<close>

definition ordinary_start :: "string \<Rightarrow> identity_start \<Rightarrow> bool" where
  "ordinary_start path x \<longleftrightarrow> \<not> lf_reread (is_load x) \<and> is_tmp x \<noteq> path \<and> is_tmp x \<noteq> backup_path path"

lemma identity_starts_stored:
  "identity_starts ic pk path xs d = (d', rs) \<Longrightarrow> list_all (ordinary_start path) xs \<Longrightarrow> plain_files path d \<Longrightarrow>
     identity_codec_ok ic \<Longrightarrow>
     (recovered path d \<noteq> FileAbsent \<longrightarrow> recovered path d' = recovered path d) \<and>
     (\<forall>i. Inr i \<in> set rs \<longrightarrow> stored_identity ic path d' = Some i)"
proof (induction xs arbitrary: d rs)
  case Nil
  then show ?case by simp
next
  case (Cons x xs)
  obtain f r where one: "load_or_create_identity ic pk (is_load x) (is_store x) (is_tmp x) path (is_made x) (fs_now d) = (f, r)"
    by fastforce
  obtain rs' where more: "identity_starts ic pk path xs (fs_dir f) = (d', rs')" "rs = r # rs'"
    using Cons.prems(1) one by (auto split: prod.splits)
  have o: "\<not> lf_reread (is_load x)" "is_tmp x \<noteq> path" "is_tmp x \<noteq> backup_path path"
    using Cons.prems(2) by (simp_all add: ordinary_start_def)
  note s = load_or_create_stored [OF o(2,3) Cons.prems(3) o(1) Cons.prems(4) one]
  note p = load_or_create_plain [OF o(2,3) Cons.prems(3) o(1) one]
  have ih: "recovered path (fs_dir f) \<noteq> FileAbsent \<Longrightarrow> recovered path d' = recovered path (fs_dir f)"
    "\<And>i. Inr i \<in> set rs' \<Longrightarrow> stored_identity ic path d' = Some i"
    using Cons.IH [OF more(1) _ p Cons.prems(4)] Cons.prems(2) by auto
  have "stored_identity ic path d' = Some i" if "r = Inr i" for i
  proof -
    from s that have "stored_identity ic path (fs_dir f) = Some i" by blast
    moreover from this have "recovered path (fs_dir f) \<noteq> FileAbsent" by (auto simp: stored_identity_def)
    ultimately show ?thesis using ih(1) by (simp add: stored_identity_def)
  qed
  with s ih more(2) show ?case by auto
qed

text \<open>
  C29. A machine keeps one identity. Over any number of starts one after another, with nobody else
  writing the file in between, all that return an identity, loaded or newly made, return the same one,
  whatever fails in any of them short of the second read after a restored backup, and whatever keys they
  would have made themselves; and a file that is there at the beginning, readable or not, is there
  unchanged, under its name or its backup, after all of them.
\<close>

theorem identity_never_replaced:
  assumes "list_all (ordinary_start path) xs" "plain_files path d" "identity_codec_ok ic"
    and "identity_starts ic pk path xs d = (d', rs)"
  shows "(\<forall>i j. Inr i \<in> set rs \<and> Inr j \<in> set rs \<longrightarrow> i = j) \<and>
    (recovered path d \<noteq> FileAbsent \<longrightarrow> recovered path d' = recovered path d)"
  using identity_starts_stored [OF assms(4,1,2,3)] by (metis option.inject)

definition demo_identity :: "string \<Rightarrow> identity" where
  "demo_identity k = \<lparr>id_cert = ''Pc'', id_key = k, id_fingerprint = hex_encode (pk_sha demo_pki ''c'')\<rparr>"

lemma demo_identity_valid: "validate_identity demo_pki (Some (demo_identity k)) = None"
  by (simp add: validate_identity_def demo_identity_def fingerprint_def demo_pki_def trim_space_graph hex_encode_def)

lemma demo_identity_eq: "demo_identity k = demo_identity k' \<longleftrightarrow> k = k'" "id_key (demo_identity k) = k"
  by (auto simp: demo_identity_def)

definition demo_identity_codec :: identity_codec where
  "demo_identity_codec = \<lparr>ic_encode = (\<lambda>i. if i = demo_identity (id_key i) then Some (id_key i) else None),
     ic_decode = (\<lambda>s. Some (demo_identity s))\<rparr>"

lemma demo_identity_codec_ok: "identity_codec_ok demo_identity_codec"
  by (auto simp: identity_codec_ok_def demo_identity_codec_def split: if_splits)

definition no_faults :: store_faults where
  "no_faults = faults.extend (demo_faults\<lparr>fl_rename := False\<rparr>) \<lparr>fl_remove_backup = False\<rparr>"

definition demo_start :: "string \<Rightarrow> string \<Rightarrow> bool \<Rightarrow> identity_start" where
  "demo_start tmp k restarts = \<lparr>is_load = no_load_faults\<lparr>lf_stat_backup := restarts\<rparr>, is_store = no_faults, is_tmp = tmp,
     is_made = Some (demo_identity k)\<rparr>"

text \<open>Three starts in an empty directory, the first of which cannot look for a backup.\<close>

definition demo_starts :: "identity_start list" where
  "demo_starts = [demo_start ''x'' ''k0'' True, demo_start ''x'' ''k1'' False, demo_start ''y'' ''k2'' False]"

lemma demo_starts_run:
  "snd (identity_starts demo_identity_codec demo_pki ''i'' demo_starts Map.empty) =
     [Inl IdentityUnreadable, Inr (demo_identity ''k1''), Inr (demo_identity ''k1'')]"
  by (simp add: demo_starts_def demo_start_def load_or_create_identity_def load_identity_def load_store_file_def read_file_def
      restore_backup_if_missing_def save_identity_unlocked_def write_atomic_def fill_temp_def rename_file_def
      demo_identity_codec_def demo_identity_eq demo_identity_valid no_faults_def no_load_faults_def demo_faults_def faults.defs
      backup_path_def backup_suffix_def Let_def)

theorem identity_never_replaced_witness:
  "let rs = snd (identity_starts demo_identity_codec demo_pki ''i'' demo_starts Map.empty)
   in length rs = 3 \<and> rs ! 1 = Inr (demo_identity ''k1'') \<and> rs ! 2 \<noteq> Inr (demo_identity ''k2'')"
proof -
  let ?s = "identity_starts demo_identity_codec demo_pki ''i'' demo_starts Map.empty"
  have "plain_files ''i'' Map.empty" by (simp add: plain_files_def)
  moreover have "list_all (ordinary_start ''i'') demo_starts"
    by (simp add: demo_starts_def demo_start_def ordinary_start_def no_load_faults_def backup_path_def backup_suffix_def)
  ultimately have same: "i = j" if "Inr i \<in> set (snd ?s)" "Inr j \<in> set (snd ?s)" for i j
    using identity_never_replaced [of "''i''" demo_starts Map.empty demo_identity_codec demo_pki "fst ?s" "snd ?s"]
      demo_identity_codec_ok that by (metis prod.collapse)
  have l: "length (snd ?s) = 3" "snd ?s ! 1 = Inr (demo_identity ''k1'')" by (simp_all add: demo_starts_run)
  have "1 < length (snd ?s)" "2 < length (snd ?s)" unfolding l(1) by simp_all
  then have m: "snd ?s ! 1 \<in> set (snd ?s)" "snd ?s ! 2 \<in> set (snd ?s)" by (simp_all only: nth_mem)
  have "snd ?s ! 2 \<noteq> Inr (demo_identity ''k2'')"
  proof
    assume "snd ?s ! 2 = Inr (demo_identity ''k2'')"
    with m l(2) have "Inr (demo_identity ''k2'') \<in> set (snd ?s)" "Inr (demo_identity ''k1'') \<in> set (snd ?s)" by argo+
    from same [OF this] show False by (simp add: demo_identity_eq)
  qed
  with l show ?thesis by (simp add: Let_def)
qed

text \<open>
  Why the second read matters: when it fails, the restored file counts as absent and is replaced, for
  the identity by a fresh key.
\<close>

lemma second_read_failure_replaces_identity:
  "let f = fst (load_or_create_identity demo_identity_codec demo_pki (no_load_faults\<lparr>lf_reread := True\<rparr>) no_faults ''x'' ''i''
      (Some (demo_identity ''k2'')) (fs_now [''i.bak'' \<mapsto> Regular ''k1'']))
   in stored_identity demo_identity_codec ''i'' [''i.bak'' \<mapsto> Regular ''k1''] = Some (demo_identity ''k1'') \<and>
      stored_identity demo_identity_codec ''i'' (fs_dir f) = Some (demo_identity ''k2'')"
  by (simp add: load_or_create_identity_def load_identity_def load_store_file_def read_file_def restore_backup_if_missing_def
      save_identity_unlocked_def write_atomic_def fill_temp_def rename_file_def demo_identity_codec_def demo_identity_eq
      no_faults_def no_load_faults_def demo_faults_def faults.defs backup_path_def backup_suffix_def Let_def
      stored_identity_def recovered_eq)

text \<open>
  And a replacement that is not preceded by a load: with the file missing, the leftover backup is
  removed as outdated although it is the only copy, and a failing rename then leaves nothing.
\<close>

lemma save_without_load_loses_backup:
  "let f = fst (save_identity_unlocked demo_identity_codec (no_faults\<lparr>fl_rename := True\<rparr>) ''x'' ''i'' (demo_identity ''k2'')
      (fs_now [''i.bak'' \<mapsto> Regular ''k1'']))
   in stored_identity demo_identity_codec ''i'' [''i.bak'' \<mapsto> Regular ''k1''] = Some (demo_identity ''k1'') \<and>
      stored_identity demo_identity_codec ''i'' (fs_dir f) = None"
  by (simp add: save_identity_unlocked_def write_atomic_def preserve_destination_def fill_temp_def rename_file_def remove_file_def
      demo_identity_codec_def demo_identity_eq no_faults_def demo_faults_def faults.defs backup_path_def backup_suffix_def Let_def
      stored_identity_def recovered_eq)

end
