(* ===== verification/Pairing_Session.thy ===== *)
theory Pairing_Session
  imports Peer_Store
begin

text \<open>
  The pairing ceremony (internal/pairing/handshake.go and pair.go): hello, comparison of the code by the
  user, exchange of decisions. The four variants of a side are one machine: the in-band protocol over an
  established connection, and the legacy protocol on a connection of its own, each as the side that
  dialled and the one that was dialled. The messages are JSON objects that both protocols can read.
\<close>

section \<open>Messages\<close>

text \<open>\<open>PairHelloPayload\<close>, and the fields of the same names of the legacy \<open>pairHello\<close>.\<close>

record pair_hello =
  ph_cert :: string
  ph_name :: string
  ph_port :: int
  ph_nonce :: string

record pair_answer =
  an_accept :: bool
  an_reason :: string

text \<open>
  An object on the wire as a reader that knows the fields sees it: those of the legacy messages at the
  top, and what its payload decodes to, if it does. Everything that is no such object is \<open>Garbage\<close>.
\<close>

record pair_object =
  po_hello :: pair_hello
  po_answer :: pair_answer
  po_type :: string
  po_payload :: "(pair_hello \<times> pair_answer) option"

datatype pair_frame = Object pair_object | Garbage

definition no_hello :: pair_hello where
  "no_hello = \<lparr>ph_cert = '''', ph_name = '''', ph_port = 0, ph_nonce = ''''\<rparr>"

definition no_answer :: pair_answer where
  "no_answer = \<lparr>an_accept = False, an_reason = ''''\<rparr>"

definition type_pair_hello :: string where "type_pair_hello = ''pair_hello''"
definition type_pair_decision :: string where "type_pair_decision = ''pair_decision''"

text \<open>The envelopes of the in-band protocol.\<close>

definition hello_envelope :: "pair_hello \<Rightarrow> pair_object" where
  "hello_envelope h = \<lparr>po_hello = no_hello, po_answer = no_answer, po_type = type_pair_hello, po_payload = Some (h, no_answer)\<rparr>"

definition decision_envelope :: "bool \<Rightarrow> pair_object" where
  "decision_envelope a = \<lparr>po_hello = no_hello, po_answer = no_answer, po_type = type_pair_decision,
     po_payload = Some (no_hello, \<lparr>an_accept = a, an_reason = ''''\<rparr>)\<rparr>"

text \<open>
  The messages of the legacy protocol carry everything twice; the port is set afterwards, on the outer
  one only.
\<close>

definition new_pair_hello :: "string \<Rightarrow> string \<Rightarrow> string \<Rightarrow> int \<Rightarrow> pair_object" where
  "new_pair_hello cert name nonce port =
     \<lparr>po_hello = \<lparr>ph_cert = cert, ph_name = name, ph_port = port, ph_nonce = nonce\<rparr>, po_answer = no_answer,
       po_type = ''pair_hello'',
       po_payload = Some (\<lparr>ph_cert = cert, ph_name = name, ph_port = 0, ph_nonce = nonce\<rparr>, no_answer)\<rparr>"

definition new_pair_decision :: "bool \<Rightarrow> string \<Rightarrow> pair_object" where
  "new_pair_decision accept reason =
     \<lparr>po_hello = no_hello, po_answer = \<lparr>an_accept = accept, an_reason = reason\<rparr>, po_type = ''pair_decision'',
       po_payload = Some (no_hello, \<lparr>an_accept = accept, an_reason = reason\<rparr>)\<rparr>"

text \<open>Reading a legacy message: the outer hello, or else the inner one without its port.\<close>

definition unmarshal_pair_hello :: "pair_object \<Rightarrow> pair_hello option" where
  "unmarshal_pair_hello ob =
     (if ph_cert (po_hello ob) \<noteq> '''' then Some (po_hello ob)
      else (case po_payload ob of
        Some (inner, _) \<Rightarrow>
          if ph_cert inner \<noteq> '''' then Some (inner\<lparr>ph_port := 0\<rparr>) else None
      | None \<Rightarrow> None))"

definition unmarshal_pair_decision :: "pair_object \<Rightarrow> pair_answer" where
  "unmarshal_pair_decision ob = (case po_payload ob of Some (_, inner) \<Rightarrow> inner | None \<Rightarrow> po_answer ob)"

section \<open>Checks and addresses\<close>

datatype pair_error =
    PairIdentity | PairKeyPair | PairNonce | PairSend | PairReceive | PairUnsupported string | PairDecode
  | HelloCert | HelloName | HelloControl | HelloPort | PairCert cert_error | PairTransport | PairNoTls
  | PairContext | PairUnexpected string | PairSave store_error

definition max_pair_message_size :: nat where "max_pair_message_size = 64 * 1024"

definition validate_pair_hello_fields :: "pair_hello \<Rightarrow> pair_error option" where
  "validate_pair_hello_fields h =
     (if ph_cert h = '''' \<or> max_pair_message_size < length (ph_cert h) then Some HelloCert
      else if 256 < length (ph_name h) then Some HelloName
      else if has_control (ph_name h) then Some HelloControl
      else if ph_port h < 0 \<or> 65535 < ph_port h then Some HelloPort
      else None)"

text \<open>What the connection proves about the peer: the fingerprint of the certificate it presented.\<close>

datatype tls_peer = NotTls | NoCertificate | Presented string

definition peer_fingerprint :: "tls_peer \<Rightarrow> string" where
  "peer_fingerprint tp = (case tp of Presented fp \<Rightarrow> fp | _ \<Rightarrow> '''')"

definition verify_pair_transport_identity :: "tls_peer \<Rightarrow> string \<Rightarrow> pair_error option" where
  "verify_pair_transport_identity tp claimed =
     (if peer_fingerprint tp \<noteq> '''' \<and> \<not> equal_fold (peer_fingerprint tp) claimed then Some PairTransport else None)"

definition verify_tls_claim :: "pki \<Rightarrow> tls_peer \<Rightarrow> string \<Rightarrow> pair_error option" where
  "verify_tls_claim pk tp claimed_cert =
     (case tp of
        NotTls \<Rightarrow> None
      | NoCertificate \<Rightarrow> Some PairNoTls
      | Presented actual \<Rightarrow>
          (case fingerprint pk claimed_cert of
            Inl e \<Rightarrow> Some (PairCert e)
          | Inr fp \<Rightarrow> if \<not> equal_fold fp actual then Some PairTransport else None))"

definition default_pairing_port :: string where "default_pairing_port = ''9877''"

definition address_with_port :: "net_lib \<Rightarrow> string option \<Rightarrow> int \<Rightarrow> string" where
  "address_with_port nl remote port0 =
     (case remote of
        None \<Rightarrow> join_host_port ''127.0.0.1'' default_pairing_port
      | Some addr \<Rightarrow>
          let host = (case nl_split_host_port nl addr of Some (h, _) \<Rightarrow> if h = '''' then addr else h | None \<Rightarrow> addr);
              port = (if port0 \<le> 0 \<or> 65535 < port0 then 9877 else port0)
          in join_host_port host (int_text port))"

definition clean_peer_address :: "net_lib \<Rightarrow> string \<Rightarrow> string" where
  "clean_peer_address nl addr =
     (case nl_split_host_port nl addr of
        Some (host, port) \<Rightarrow> if port \<noteq> '''' then join_host_port host port else join_host_port addr default_pairing_port
      | None \<Rightarrow> join_host_port addr default_pairing_port)"

definition options_listen_port :: "int \<Rightarrow> int" where
  "options_listen_port p = (if 0 < p \<and> p \<le> 65535 then p else 0)"

section \<open>One side\<close>

text \<open>
  The side that is dialled in-band (\<open>HandleInboundPairing\<close>), the one that dials
  (\<open>PairResponderInBand\<close>), and the two of the legacy protocol (\<open>PairInitiator\<close>, \<open>PairResponder\<close>).
\<close>

datatype pair_role = Inbound | InBandDialer | LegacyListener | LegacyDialer

fun legacy_role :: "pair_role \<Rightarrow> bool" where
  "legacy_role Inbound = False"
| "legacy_role InBandDialer = False"
| "legacy_role LegacyListener = True"
| "legacy_role LegacyDialer = True"

text \<open>
  The environment of a side: what loading its identity gives, its nonce, host name, listener and
  options, what the connection knows of the peer, whether there is a function to ask the user, which
  sends fail, and the transaction that stores the peer.
\<close>

record pair_env =
  pe_role :: pair_role
  pe_identity :: "identity option"
  pe_nonce :: "string option"
  pe_hostname :: string
  pe_framed :: bool
  pe_local_port :: "int option"
  pe_options :: int
  pe_tls :: tls_peer
  pe_remote :: "string option"
  pe_peer_addr :: string
  pe_confirm :: bool
  pe_send_ok :: "nat \<Rightarrow> bool"
  pe_tx :: tx

abbreviation pe_pki :: "pair_env \<Rightarrow> pki" where "pe_pki e \<equiv> tx_pki (pe_tx e)"
abbreviation pe_net :: "pair_env \<Rightarrow> net_lib" where "pe_net e \<equiv> tx_net (pe_tx e)"

definition local_listen_port :: "int option \<Rightarrow> int" where
  "local_listen_port addr = (case addr of None \<Rightarrow> 0 | Some p \<Rightarrow> p)"

definition advertised_listen_port :: "pair_env \<Rightarrow> int" where
  "advertised_listen_port e =
     (if pe_framed e then 0
      else if peer_fingerprint (pe_tls e) = '''' then 0
      else local_listen_port (pe_local_port e))"

definition pairing_listen_port :: "pair_env \<Rightarrow> int" where
  "pairing_listen_port e =
     (if options_listen_port (pe_options e) \<noteq> 0 then options_listen_port (pe_options e) else advertised_listen_port e)"

text \<open>The outcome of an attempt.\<close>

record pair_result =
  re_fingerprint :: string
  re_peer_sas :: string
  re_local_sas :: string
  re_accepted :: bool

datatype pair_phase =
    AwaitHello
  | AwaitUser pair_hello string string
  | AwaitDecision pair_hello string string bool
  | PairEnded "pair_error + pair_result"

text \<open>
  The state of a side: its phase, the messages it sent, the codes it showed to the user, the store and
  the peers it handed to \<open>AddPeer\<close>.
\<close>

record pair_state =
  pp_phase :: pair_phase
  pp_sent :: "pair_object list"
  pp_shown :: "string list"
  pp_store :: store
  pp_added :: "peer list"

definition pair_end :: "pair_error + pair_result \<Rightarrow> pair_state \<Rightarrow> pair_state" where
  "pair_end r s = s\<lparr>pp_phase := PairEnded r\<rparr>"

definition pair_fail :: "pair_error \<Rightarrow> pair_state \<Rightarrow> pair_state" where
  "pair_fail e s = pair_end (Inl e) s"

definition pair_send :: "pair_env \<Rightarrow> pair_object \<Rightarrow> (pair_state \<Rightarrow> pair_state) \<Rightarrow> pair_state \<Rightarrow> pair_state" where
  "pair_send e ob k s =
     (if pe_send_ok e (length (pp_sent s)) then k (s\<lparr>pp_sent := pp_sent s @ [ob]\<rparr>) else pair_fail PairSend s)"

definition host_name :: "pair_env \<Rightarrow> string" where
  "host_name e =
     (if pe_hostname e \<noteq> '''' then pe_hostname e
      else if pe_role e \<in> {Inbound, LegacyListener} then ''initiator'' else ''responder'')"

text \<open>The hello of a side with an identity and a nonce.\<close>

definition hello_object :: "pair_env \<Rightarrow> identity \<Rightarrow> string \<Rightarrow> pair_object" where
  "hello_object e i nonce =
     (case pe_role e of
        LegacyListener \<Rightarrow> new_pair_hello (id_cert i) (host_name e) nonce (local_listen_port (pe_local_port e))
      | LegacyDialer \<Rightarrow> new_pair_hello (id_cert i) (host_name e) nonce (options_listen_port (pe_options e))
      | _ \<Rightarrow> hello_envelope \<lparr>ph_cert = id_cert i, ph_name = host_name e, ph_port = pairing_listen_port e, ph_nonce = nonce\<rparr>)"

definition decision_object :: "pair_env \<Rightarrow> bool \<Rightarrow> pair_object" where
  "decision_object e a = (if legacy_role (pe_role e) then new_pair_decision a '''' else decision_envelope a)"

text \<open>Identity and nonce of a side, in the order in which their failures are reported.\<close>

definition own_parts :: "pair_env \<Rightarrow> pair_error + (identity \<times> string)" where
  "own_parts e =
     (case pe_identity e of
        None \<Rightarrow> Inl PairIdentity
      | Some i \<Rightarrow>
          if legacy_role (pe_role e) \<and> \<not> pk_key_pair (pe_pki e) (id_cert i) (id_key i) then Inl PairKeyPair
          else (case pe_nonce e of None \<Rightarrow> Inl PairNonce | Some n \<Rightarrow> Inr (i, n)))"

text \<open>Every side but the one dialled in-band begins with its hello.\<close>

definition pair_start :: "pair_env \<Rightarrow> store \<Rightarrow> pair_state" where
  "pair_start e st =
     (let s = \<lparr>pp_phase = AwaitHello, pp_sent = [], pp_shown = [], pp_store = st, pp_added = []\<rparr>
      in if pe_role e = Inbound then s
         else (case own_parts e of
           Inl er \<Rightarrow> pair_fail er s
         | Inr (i, n) \<Rightarrow> pair_send e (hello_object e i n) (\<lambda>s. s) s))"

text \<open>The hello in a frame, for a reader of either protocol.\<close>

definition read_hello :: "bool \<Rightarrow> pair_frame \<Rightarrow> pair_error + pair_hello" where
  "read_hello legacy fr =
     (case fr of
        Garbage \<Rightarrow> Inl PairReceive
      | Object ob \<Rightarrow>
          if legacy then (case unmarshal_pair_hello ob of None \<Rightarrow> Inl PairReceive | Some h \<Rightarrow> Inr h)
          else if po_type ob \<noteq> type_pair_hello then Inl (PairUnsupported (po_type ob))
          else (case po_payload ob of None \<Rightarrow> Inl PairDecode | Some (h, _) \<Rightarrow> Inr h))"

text \<open>The checks of a hello: the fields, the certificate, and that it is the one of the connection.\<close>

definition check_hello :: "pair_env \<Rightarrow> pair_hello \<Rightarrow> pair_error + string" where
  "check_hello e h =
     (case validate_pair_hello_fields h of
        Some er \<Rightarrow> Inl er
      | None \<Rightarrow>
          (case fingerprint (pe_pki e) (ph_cert h) of
            Inl er \<Rightarrow> Inl (PairCert er)
          | Inr fp \<Rightarrow>
              (case (if legacy_role (pe_role e) then verify_tls_claim (pe_pki e) (pe_tls e) (ph_cert h)
                     else verify_pair_transport_identity (pe_tls e) fp) of
                Some er \<Rightarrow> Inl er
              | None \<Rightarrow> Inr fp)))"

definition show_code :: "pair_hello \<Rightarrow> string \<Rightarrow> string \<Rightarrow> pair_state \<Rightarrow> pair_state" where
  "show_code h fp sas s = s\<lparr>pp_phase := AwaitUser h fp sas, pp_shown := pp_shown s @ [sas]\<rparr>"

definition on_hello :: "pair_env \<Rightarrow> pair_frame \<Rightarrow> pair_state \<Rightarrow> pair_state" where
  "on_hello e fr s =
     (case read_hello (legacy_role (pe_role e)) fr of
        Inl er \<Rightarrow> pair_fail er s
      | Inr h \<Rightarrow>
          (case check_hello e h of
            Inl er \<Rightarrow> pair_fail er s
          | Inr fp \<Rightarrow>
              (case own_parts e of
                Inl er \<Rightarrow> pair_fail er s
              | Inr (i, n) \<Rightarrow>
                  let sas = transcript_sas (pe_pki e) (id_fingerprint i) fp n (ph_nonce h)
                  in if pe_role e = Inbound then pair_send e (hello_object e i n) (show_code h fp sas) s
                     else show_code h fp sas s)))"

text \<open>The user's answer; without a function to ask, it is no.\<close>

definition on_answer :: "pair_env \<Rightarrow> pair_hello \<Rightarrow> string \<Rightarrow> string \<Rightarrow> bool \<Rightarrow> pair_state \<Rightarrow> pair_state" where
  "on_answer e h fp sas yes s =
     (let accepted = (yes \<and> pe_confirm e)
      in pair_send e (decision_object e accepted) (\<lambda>s. s\<lparr>pp_phase := AwaitDecision h fp sas accepted\<rparr>) s)"

definition read_decision :: "bool \<Rightarrow> pair_frame \<Rightarrow> pair_error + bool" where
  "read_decision legacy fr =
     (case fr of
        Garbage \<Rightarrow> Inl PairReceive
      | Object ob \<Rightarrow>
          if legacy then Inr (an_accept (unmarshal_pair_decision ob))
          else if po_type ob \<noteq> type_pair_decision then Inl (PairUnexpected (po_type ob))
          else (case po_payload ob of None \<Rightarrow> Inl PairDecode | Some (_, a) \<Rightarrow> Inr (an_accept a)))"

text \<open>The peer as it is stored.\<close>

definition paired_peer :: "pair_env \<Rightarrow> pair_hello \<Rightarrow> string \<Rightarrow> string \<Rightarrow> peer" where
  "paired_peer e h fp sas =
     \<lparr>pr_fingerprint = fp,
      pr_name = (if ph_name h = '''' then ''peer-'' @ sas else ph_name h),
      pr_alias = '''', pr_default = False,
      pr_address = (if pe_role e = LegacyDialer then clean_peer_address (pe_net e) (pe_peer_addr e)
                    else address_with_port (pe_net e) (pe_remote e) (ph_port h)),
      pr_cert = ph_cert h, pr_first_seen = 0, pr_last_seen = 0, pr_confirmed = 0\<rparr>"

definition on_decision :: "pair_env \<Rightarrow> pair_hello \<Rightarrow> string \<Rightarrow> string \<Rightarrow> bool \<Rightarrow> pair_frame \<Rightarrow> pair_state \<Rightarrow> pair_state" where
  "on_decision e h fp sas accepted fr s =
     (case read_decision (legacy_role (pe_role e)) fr of
        Inl er \<Rightarrow> pair_fail er s
      | Inr peer_accepts \<Rightarrow>
          let success = (accepted \<and> peer_accepts);
              result = \<lparr>re_fingerprint = fp, re_peer_sas = sas, re_local_sas = sas, re_accepted = success\<rparr>
          in if \<not> success then pair_end (Inr result) s
             else
               (case add_peer (pe_tx e) (paired_peer e h fp sas) (pp_store s) of
                 (st, out) \<Rightarrow>
                   let s1 = s\<lparr>pp_store := st, pp_added := pp_added s @ [paired_peer e h fp sas]\<rparr>
                   in (case out of Some er \<Rightarrow> pair_fail (PairSave er) s1 | None \<Rightarrow> pair_end (Inr result) s1)))"

text \<open>
  A frame arrives while one is awaited, receiving fails, the user answers, or the context ends (it
  closes the connection, so that a pending receive fails).
\<close>

datatype pair_event = FrameArrives pair_frame | ReceiveBreaks | UserAnswers bool | PairContextEnds

fun pair_step :: "pair_env \<Rightarrow> pair_state \<Rightarrow> pair_event \<Rightarrow> pair_state" where
  "pair_step e s (FrameArrives fr) =
     (case pp_phase s of
        AwaitHello \<Rightarrow> on_hello e fr s
      | AwaitDecision h fp sas a \<Rightarrow> on_decision e h fp sas a fr s
      | _ \<Rightarrow> s)"
| "pair_step e s ReceiveBreaks =
     (case pp_phase s of
        AwaitHello \<Rightarrow> pair_fail PairReceive s
      | AwaitDecision h fp sas a \<Rightarrow> pair_fail PairReceive s
      | _ \<Rightarrow> s)"
| "pair_step e s (UserAnswers yes) =
     (case pp_phase s of AwaitUser h fp sas \<Rightarrow> on_answer e h fp sas yes s | _ \<Rightarrow> s)"
| "pair_step e s PairContextEnds =
     (case pp_phase s of
        AwaitUser h fp sas \<Rightarrow> pair_fail PairContext s
      | PairEnded r \<Rightarrow> s
      | _ \<Rightarrow> pair_fail PairReceive s)"

section \<open>What a side stores\<close>

definition pair_run :: "pair_env \<Rightarrow> store \<Rightarrow> pair_event list \<Rightarrow> pair_state" where
  "pair_run e st evs = foldl (pair_step e) (pair_start e st) evs"

text \<open>The hello that arrived, the fingerprint and the code of a session in progress belong together.\<close>

definition session_of :: "pair_env \<Rightarrow> pair_event list \<Rightarrow> pair_hello \<Rightarrow> string \<Rightarrow> string \<Rightarrow> bool" where
  "session_of e evs h fp sas \<longleftrightarrow>
     (\<exists>fr. FrameArrives fr \<in> set evs \<and> read_hello (legacy_role (pe_role e)) fr = Inr h) \<and>
     check_hello e h = Inr fp \<and>
     (\<exists>i n. own_parts e = Inr (i, n) \<and> sas = transcript_sas (pe_pki e) (id_fingerprint i) fp n (ph_nonce h))"

text \<open>
  A peer was handed to the store: it is the one of the session whose code, the only one, was shown, the
  user accepted it, the peer's acceptance arrived, and the store holds the outcome.
\<close>

definition stored_well :: "pair_env \<Rightarrow> store \<Rightarrow> pair_event list \<Rightarrow> pair_state \<Rightarrow> bool" where
  "stored_well e st evs s \<longleftrightarrow>
     (pp_added s = [] \<and> pp_store s = st) \<or>
     (\<exists>h fp sas fr. session_of e evs h fp sas \<and> pp_shown s = [sas] \<and> pp_added s = [paired_peer e h fp sas] \<and>
        pp_store s = fst (add_peer (pe_tx e) (paired_peer e h fp sas) st) \<and>
        pe_confirm e \<and> UserAnswers True \<in> set evs \<and>
        FrameArrives fr \<in> set evs \<and> read_decision (legacy_role (pe_role e)) fr = Inr True)"

definition pair_inv :: "pair_env \<Rightarrow> store \<Rightarrow> pair_event list \<Rightarrow> pair_state \<Rightarrow> bool" where
  "pair_inv e st evs s \<longleftrightarrow> stored_well e st evs s \<and>
     (case pp_phase s of
        AwaitHello \<Rightarrow> pp_shown s = [] \<and> pp_added s = []
      | AwaitUser h fp sas \<Rightarrow> session_of e evs h fp sas \<and> pp_shown s = [sas] \<and> pp_added s = []
      | AwaitDecision h fp sas a \<Rightarrow> session_of e evs h fp sas \<and> pp_shown s = [sas] \<and> pp_added s = [] \<and>
          (a \<longrightarrow> pe_confirm e \<and> UserAnswers True \<in> set evs)
      | PairEnded r \<Rightarrow> (case r of Inl er \<Rightarrow> True | Inr res \<Rightarrow> re_accepted res \<longleftrightarrow> pp_added s \<noteq> []))"

lemma paired_peer_sel [simp]:
  "pr_fingerprint (paired_peer e h fp sas) = fp" "pr_cert (paired_peer e h fp sas) = ph_cert h"
  by (simp_all add: paired_peer_def)

lemma session_mono: "session_of e evs h fp sas \<Longrightarrow> session_of e (evs @ [ev]) h fp sas"
  by (auto simp: session_of_def)

lemma stored_well_mono: "stored_well e st evs s \<Longrightarrow> stored_well e st (evs @ [ev]) s"
  unfolding stored_well_def using session_mono [of e evs _ _ _ ev] by fastforce

lemma stored_well_none: "pp_added s = [] \<Longrightarrow> stored_well e st evs s \<Longrightarrow> pp_store s = st"
  by (auto simp: stored_well_def)

lemma fail_inv: "stored_well e st evs s \<Longrightarrow> pair_inv e st evs (pair_fail er s)"
  by (simp add: pair_inv_def pair_fail_def pair_end_def stored_well_def)

lemma pair_send_cases:
  "pair_send e ob k s = (if pe_send_ok e (length (pp_sent s)) then k (s\<lparr>pp_sent := pp_sent s @ [ob]\<rparr>) else pair_fail PairSend s)"
  by (simp add: pair_send_def)

lemma start_inv: "pair_inv e st [] (pair_start e st)"
  by (auto simp: pair_start_def pair_inv_def pair_send_def stored_well_def pair_fail_def pair_end_def Let_def
      split: sum.splits)

lemma hello_inv:
  assumes "stored_well e st evs s" "pp_shown s = []" "pp_added s = []" "FrameArrives fr \<in> set evs"
  shows "pair_inv e st evs (on_hello e fr s)"
proof (cases "read_hello (legacy_role (pe_role e)) fr")
  case (Inl er)
  with fail_inv [OF assms(1)] show ?thesis by (simp add: on_hello_def)
next
  case (Inr h)
  show ?thesis
  proof (cases "check_hello e h")
    case (Inl er)
    with Inr fail_inv [OF assms(1)] show ?thesis by (simp add: on_hello_def)
  next
    case fp: (Inr fp)
    show ?thesis
    proof (cases "own_parts e")
      case (Inl er)
      with Inr fp fail_inv [OF assms(1)] show ?thesis by (simp add: on_hello_def)
    next
      case own: (Inr parts)
      obtain i n where parts: "parts = (i, n)" by fastforce
      have "session_of e evs h fp (transcript_sas (pe_pki e) (id_fingerprint i) fp n (ph_nonce h))"
        using fp own parts Inr assms(4) by (auto simp: session_of_def)
      moreover have "pp_store s = st" using stored_well_none assms(1,3) by blast
      ultimately have shown: "pair_inv e st evs (show_code h fp (transcript_sas (pe_pki e) (id_fingerprint i) fp n (ph_nonce h)) (s\<lparr>pp_sent := x\<rparr>))" for x
        using assms(2,3) by (simp add: show_code_def pair_inv_def stored_well_def)
      have "s = s\<lparr>pp_sent := pp_sent s\<rparr>" by simp
      with shown [of "pp_sent s"] shown fail_inv [OF assms(1), of PairSend] show ?thesis
        using Inr fp own parts
        by (simp add: on_hello_def Let_def pair_send_cases)
    qed
  qed
qed

lemma answer_inv:
  assumes "stored_well e st evs s" "session_of e evs h fp sas" "pp_shown s = [sas]" "pp_added s = []" "yes \<Longrightarrow> UserAnswers True \<in> set evs"
  shows "pair_inv e st evs (on_answer e h fp sas yes s)"
  using assms fail_inv [OF assms(1), of PairSend] stored_well_none [OF assms(4,1)]
  by (auto simp: on_answer_def Let_def pair_send_def pair_inv_def stored_well_def)

lemma decision_inv:
  assumes "stored_well e st evs s" "session_of e evs h fp sas" "pp_shown s = [sas]" "pp_added s = []"
    "a \<Longrightarrow> pe_confirm e \<and> UserAnswers True \<in> set evs" "FrameArrives fr \<in> set evs"
  shows "pair_inv e st evs (on_decision e h fp sas a fr s)"
proof (cases "read_decision (legacy_role (pe_role e)) fr")
  case (Inl er)
  with fail_inv [OF assms(1)] show ?thesis by (simp add: on_decision_def)
next
  case (Inr b)
  show ?thesis
  proof (cases "a \<and> b")
    case False
    with Inr assms show ?thesis
      by (auto simp: on_decision_def Let_def pair_inv_def pair_end_def stored_well_def)
  next
    case True
    obtain st' out where ad: "add_peer (pe_tx e) (paired_peer e h fp sas) (pp_store s) = (st', out)" by fastforce
    have "pp_store s = st" by (rule stored_well_none [OF assms(4,1)])
    with ad have st': "st' = fst (add_peer (pe_tx e) (paired_peer e h fp sas) st)" by simp
    let ?s = "s\<lparr>pp_store := st', pp_added := pp_added s @ [paired_peer e h fp sas]\<rparr>"
    have well: "stored_well e st evs ?s"
      unfolding stored_well_def using assms True Inr st'
      by (intro disjI2 exI [of _ h] exI [of _ fp] exI [of _ sas] exI [of _ fr]) simp
    show ?thesis
    proof (cases out)
      case None
      with Inr True ad well show ?thesis
        by (simp add: on_decision_def Let_def pair_inv_def pair_end_def stored_well_def)
    next
      case (Some er)
      with Inr True ad fail_inv [OF well] show ?thesis by (simp add: on_decision_def Let_def)
    qed
  qed
qed

lemma pair_step_inv:
  assumes "pair_inv e st evs s"
  shows "pair_inv e st (evs @ [ev]) (pair_step e s ev)"
proof -
  have w: "stored_well e st (evs @ [ev]) s" using assms stored_well_mono by (simp add: pair_inv_def)
  have same: "pair_inv e st (evs @ [ev]) s" using assms w session_mono by (auto simp: pair_inv_def split: pair_phase.splits)
  show ?thesis
  proof (cases ev)
    case (FrameArrives fr)
    show ?thesis
    proof (cases "pp_phase s")
      case AwaitHello
      with assms FrameArrives hello_inv [OF w] show ?thesis by (simp add: pair_inv_def)
    next
      case (AwaitDecision h fp sas a)
      with assms FrameArrives decision_inv [OF w] session_mono show ?thesis by (simp add: pair_inv_def)
    qed (use FrameArrives same in simp_all)
  next
    case (UserAnswers yes)
    show ?thesis
    proof (cases "pp_phase s")
      case (AwaitUser h fp sas)
      with assms UserAnswers answer_inv [OF w] session_mono show ?thesis by (simp add: pair_inv_def)
    qed (use UserAnswers same in simp_all)
  qed (use same fail_inv [OF w] in \<open>cases "pp_phase s"; simp\<close>)+
qed

interpretation pair_history: history_stepper "pair_step e" "pair_inv e st" for e st
  by unfold_locales (rule pair_step_inv)

lemma pair_run_inv: "pair_inv e st evs (pair_run e st evs)"
  unfolding pair_run_def by (rule pair_history.history_run [OF start_inv])

lemma check_hello_binds:
  "check_hello e h = Inr fp \<Longrightarrow> fingerprint (pe_pki e) (ph_cert h) = Inr fp \<and> validate_pair_hello_fields h = None \<and>
     (\<forall>t. pe_tls e = Presented t \<and> t \<noteq> '''' \<longrightarrow> equal_fold t fp)"
  by (auto simp: check_hello_def verify_tls_claim_def verify_pair_transport_identity_def peer_fingerprint_def
      equal_fold_def split: option.splits sum.splits if_splits)

text \<open>
  What a stored peer rests on: the code, computed from the own identity and nonce and from the
  certificate and the nonce of the hello that arrived, was shown and accepted; the peer's acceptance arrived;
  and the certificate is the one the connection presented, if any.
\<close>

definition confirmed_pairing ::
  "pair_env \<Rightarrow> pair_event list \<Rightarrow> pair_state \<Rightarrow> peer \<Rightarrow> pair_hello \<Rightarrow> identity \<Rightarrow> string \<Rightarrow> bool" where
  "confirmed_pairing e evs s p h i n \<longleftrightarrow>
     own_parts e = Inr (i, n) \<and>
     (\<exists>fr. FrameArrives fr \<in> set evs \<and> read_hello (legacy_role (pe_role e)) fr = Inr h) \<and>
     pp_shown s = [transcript_sas (pe_pki e) (id_fingerprint i) (pr_fingerprint p) n (ph_nonce h)] \<and>
     pe_confirm e \<and> UserAnswers True \<in> set evs \<and>
     (\<exists>fr. FrameArrives fr \<in> set evs \<and> read_decision (legacy_role (pe_role e)) fr = Inr True) \<and>
     pr_cert p = ph_cert h \<and> fingerprint (pe_pki e) (pr_cert p) = Inr (pr_fingerprint p) \<and>
     (peer_fingerprint (pe_tls e) \<noteq> '''' \<longrightarrow> equal_fold (peer_fingerprint (pe_tls e)) (pr_fingerprint p))"

lemma stored_confirmed:
  assumes "pp_added (pair_run e st evs) \<noteq> []"
  shows "\<exists>p h i n. pp_added (pair_run e st evs) = [p] \<and> pp_store (pair_run e st evs) = fst (add_peer (pe_tx e) p st) \<and>
    confirmed_pairing e evs (pair_run e st evs) p h i n"
proof -
  from pair_run_inv [of e st evs] assms obtain h fp sas fr
    where st: "session_of e evs h fp sas" "pp_shown (pair_run e st evs) = [sas]" "pp_added (pair_run e st evs) = [paired_peer e h fp sas]"
      "pp_store (pair_run e st evs) = fst (add_peer (pe_tx e) (paired_peer e h fp sas) st)"
      "pe_confirm e" "UserAnswers True \<in> set evs" "FrameArrives fr \<in> set evs" "read_decision (legacy_role (pe_role e)) fr = Inr True"
    by (auto simp: pair_inv_def stored_well_def)
  then obtain i n gr where own: "own_parts e = Inr (i, n)" "sas = transcript_sas (pe_pki e) (id_fingerprint i) fp n (ph_nonce h)"
    "FrameArrives gr \<in> set evs" "read_hello (legacy_role (pe_role e)) gr = Inr h"
    by (auto simp: session_of_def)
  have b: "fingerprint (pe_pki e) (ph_cert h) = Inr fp"
    "peer_fingerprint (pe_tls e) \<noteq> '''' \<Longrightarrow> equal_fold (peer_fingerprint (pe_tls e)) fp"
    using check_hello_binds [of e h fp] st(1) by (auto simp: session_of_def peer_fingerprint_def split: tls_peer.splits)
  from st own b have "confirmed_pairing e evs (pair_run e st evs) (paired_peer e h fp sas) h i n"
    by (auto simp: confirmed_pairing_def)
  with st show ?thesis by blast
qed

text \<open>
  C6. A machine becomes trusted only by a pairing that the user confirmed. Whatever arrives, fails or is
  answered in a session of either protocol, the store is unchanged unless exactly one code was shown,
  the user accepted it, and the peer's acceptance arrived; then one peer was handed to the store: the
  one whose certificate the code was computed from, together with both nonces, filed under the
  fingerprint of that certificate, which is the certificate the connection presented, if any. And a
  result reported as accepted means that the peer was handed to the store.\<close>

theorem pairing_needs_confirmation:
  "let s = pair_run e st evs
   in ((pp_store s = st \<and> pp_added s = []) \<or>
       (\<exists>p h i n. pp_added s = [p] \<and> pp_store s = fst (add_peer (pe_tx e) p st) \<and> confirmed_pairing e evs s p h i n)) \<and>
      (case pp_phase s of PairEnded (Inr r) \<Rightarrow> re_accepted r \<longleftrightarrow> pp_added s \<noteq> [] | _ \<Rightarrow> True)"
proof -
  let ?s = "pair_run e st evs"
  note inv = pair_run_inv [of e st evs]
  have "case pp_phase ?s of PairEnded (Inr r) \<Rightarrow> re_accepted r \<longleftrightarrow> pp_added ?s \<noteq> [] | _ \<Rightarrow> True"
    using inv by (auto simp: pair_inv_def split: pair_phase.splits sum.splits)
  moreover have "pp_added ?s = [] \<Longrightarrow> pp_store ?s = st" using inv stored_well_none unfolding pair_inv_def by blast
  moreover note stored_confirmed [of e st evs]
  ultimately show ?thesis unfolding Let_def by blast
qed

text \<open>
  C7. Users who compared the codes paired with each other. If two sides, of any variants and with an
  attacker choosing everything that arrives at either, each stored a peer after showing the same code,
  then each stored the certificate of the other, and used the nonce the other had made; unless the 54
  bits of the digest that the code shows collide for the transcripts of these two sessions.\<close>

theorem same_code_pairs_each_other:
  assumes "confirmed_pairing e1 evs1 (pair_run e1 st1 evs1) p1 h1 i1 n1"
    and "confirmed_pairing e2 evs2 (pair_run e2 st2 evs2) p2 h2 i2 n2"
    and "pp_shown (pair_run e1 st1 evs1) = pp_shown (pair_run e2 st2 evs2)"
    and "pe_pki e1 = pk" "pe_pki e2 = pk" "\<And>x. length (pk_sha pk x) = 32"
    and "norm_fp (id_fingerprint i1) \<noteq> norm_fp (id_fingerprint i2)"
    and "list_all small [norm_fp (id_fingerprint i1), n1, norm_fp (pr_fingerprint p1), ph_nonce h1,
      norm_fp (id_fingerprint i2), n2, norm_fp (pr_fingerprint p2), ph_nonce h2]"
    and "shown_bits (pk_sha pk (transcript (id_fingerprint i1) (pr_fingerprint p1) n1 (ph_nonce h1))) =
        shown_bits (pk_sha pk (transcript (id_fingerprint i2) (pr_fingerprint p2) n2 (ph_nonce h2))) \<Longrightarrow>
      transcript (id_fingerprint i1) (pr_fingerprint p1) n1 (ph_nonce h1) =
      transcript (id_fingerprint i2) (pr_fingerprint p2) n2 (ph_nonce h2)"
  shows "norm_fp (pr_fingerprint p1) = norm_fp (id_fingerprint i2) \<and> ph_nonce h1 = n2 \<and>
    norm_fp (pr_fingerprint p2) = norm_fp (id_fingerprint i1) \<and> ph_nonce h2 = n1 \<and>
    fingerprint pk (pr_cert p1) = Inr (pr_fingerprint p1) \<and> fingerprint pk (pr_cert p2) = Inr (pr_fingerprint p2)"
proof -
  let ?t1 = "transcript (id_fingerprint i1) (pr_fingerprint p1) n1 (ph_nonce h1)"
  let ?t2 = "transcript (id_fingerprint i2) (pr_fingerprint p2) n2 (ph_nonce h2)"
  have "transcript_sas pk (id_fingerprint i1) (pr_fingerprint p1) n1 (ph_nonce h1) =
      transcript_sas pk (id_fingerprint i2) (pr_fingerprint p2) n2 (ph_nonce h2)"
    using assms(1-5) by (simp add: confirmed_pairing_def)
  then have "?t1 = ?t2" using transcript_sas_shown [of pk] assms(6,9) by simp
  moreover have "list_all small [norm_fp (id_fingerprint i1), norm_fp (pr_fingerprint p1), n1, ph_nonce h1,
      norm_fp (id_fingerprint i2), norm_fp (pr_fingerprint p2), n2, ph_nonce h2]" using assms(8) by simp
  ultimately have "norm_fp (id_fingerprint i1) = norm_fp (id_fingerprint i2) \<or>
      norm_fp (id_fingerprint i1) = norm_fp (pr_fingerprint p2) \<and> n1 = ph_nonce h2 \<and>
      norm_fp (pr_fingerprint p1) = norm_fp (id_fingerprint i2) \<and> ph_nonce h1 = n2"
    using transcript_inj by blast
  with assms(7) assms(1,2,4,5) show ?thesis
    by (auto simp: confirmed_pairing_def)
qed

section \<open>Two sides over one connection\<close>

text \<open>
  Side 1 dialled, side 2 was dialled; each message that one sent is delivered to the other once and in
  order, when it awaits one. The connection may break for either side at any time.
\<close>

record pair_link =
  pl_dialer :: pair_state
  pl_dialed :: pair_state
  pl_to_dialer :: nat
  pl_to_dialed :: nat

datatype link_event =
    ToDialer | ToDialed | DialerAnswers bool | DialedAnswers bool | DialerBreaks pair_event | DialedBreaks pair_event

definition awaits_frame :: "pair_state \<Rightarrow> bool" where
  "awaits_frame s \<longleftrightarrow> (case pp_phase s of AwaitHello \<Rightarrow> True | AwaitDecision h fp sas a \<Rightarrow> True | _ \<Rightarrow> False)"

definition link_start :: "pair_env \<Rightarrow> pair_env \<Rightarrow> store \<Rightarrow> store \<Rightarrow> pair_link" where
  "link_start e1 e2 st1 st2 =
     \<lparr>pl_dialer = pair_start e1 st1, pl_dialed = pair_start e2 st2, pl_to_dialer = 0, pl_to_dialed = 0\<rparr>"

text \<open>A break is the failure of a receive or the end of a context.\<close>

definition break_event :: "pair_event \<Rightarrow> pair_event" where
  "break_event ev = (if ev = PairContextEnds then PairContextEnds else ReceiveBreaks)"

fun link_step :: "pair_env \<Rightarrow> pair_env \<Rightarrow> pair_link \<Rightarrow> link_event \<Rightarrow> pair_link" where
  "link_step e1 e2 l ToDialer =
     (if awaits_frame (pl_dialer l) \<and> pl_to_dialer l < length (pp_sent (pl_dialed l))
      then l\<lparr>pl_dialer := pair_step e1 (pl_dialer l) (FrameArrives (Object (pp_sent (pl_dialed l) ! pl_to_dialer l))),
             pl_to_dialer := pl_to_dialer l + 1\<rparr>
      else l)"
| "link_step e1 e2 l ToDialed =
     (if awaits_frame (pl_dialed l) \<and> pl_to_dialed l < length (pp_sent (pl_dialer l))
      then l\<lparr>pl_dialed := pair_step e2 (pl_dialed l) (FrameArrives (Object (pp_sent (pl_dialer l) ! pl_to_dialed l))),
             pl_to_dialed := pl_to_dialed l + 1\<rparr>
      else l)"
| "link_step e1 e2 l (DialerAnswers yes) = l\<lparr>pl_dialer := pair_step e1 (pl_dialer l) (UserAnswers yes)\<rparr>"
| "link_step e1 e2 l (DialedAnswers yes) = l\<lparr>pl_dialed := pair_step e2 (pl_dialed l) (UserAnswers yes)\<rparr>"
| "link_step e1 e2 l (DialerBreaks ev) = l\<lparr>pl_dialer := pair_step e1 (pl_dialer l) (break_event ev)\<rparr>"
| "link_step e1 e2 l (DialedBreaks ev) = l\<lparr>pl_dialed := pair_step e2 (pl_dialed l) (break_event ev)\<rparr>"

subsection \<open>Nobody is stored without both users\<close>

lemma read_decision_object [simp]: "read_decision l (Object (decision_object e a)) = Inr a"
  by (simp add: read_decision_def decision_object_def new_pair_decision_def decision_envelope_def unmarshal_pair_decision_def
      type_pair_decision_def)

text \<open>What a side has sent, as far as its user answered.\<close>

definition sent_shape :: "pair_env \<Rightarrow> bool \<Rightarrow> pair_object list \<Rightarrow> bool" where
  "sent_shape e answered obs \<longleftrightarrow>
     obs = [] \<or> (\<exists>ob. obs = [ob]) \<or> (\<exists>ob a. obs = [ob, decision_object e a] \<and> (a \<longrightarrow> answered))"

definition link_side :: "pair_env \<Rightarrow> bool \<Rightarrow> pair_state \<Rightarrow> nat \<Rightarrow> bool" where
  "link_side e answered s c \<longleftrightarrow> sent_shape e answered (pp_sent s) \<and>
     (case pp_phase s of
        AwaitHello \<Rightarrow> c = 0 \<and> pp_added s = [] \<and> length (pp_sent s) = (if pe_role e = Inbound then 0 else 1)
      | AwaitUser h fp sas \<Rightarrow> c = 1 \<and> pp_added s = [] \<and> length (pp_sent s) = 1
      | AwaitDecision h fp sas a \<Rightarrow> c = 1 \<and> pp_added s = [] \<and> (a \<longrightarrow> answered)
      | PairEnded r \<Rightarrow> True)"

lemma link_side_mono: "link_side e a s c \<Longrightarrow> (a \<Longrightarrow> a') \<Longrightarrow> link_side e a' s c"
  by (auto simp: link_side_def sent_shape_def split: pair_phase.splits)

lemma link_side_failed: "sent_shape e a (pp_sent s) \<Longrightarrow> link_side e a (pair_fail er s) c"
  by (simp add: link_side_def pair_fail_def pair_end_def)

lemma link_side_start: "link_side e a (pair_start e st) 0"
  by (auto simp: link_side_def sent_shape_def pair_start_def pair_fail_def pair_end_def pair_send_def Let_def split: sum.splits)

lemma added_start [simp]: "pp_added (pair_start e st) = []"
  by (auto simp: pair_start_def pair_fail_def pair_end_def pair_send_def Let_def split: sum.splits)

lemma link_side_hello:
  assumes "link_side e a s 0" "pp_phase s = AwaitHello"
  shows "link_side e a (on_hello e fr s) 1 \<and> pp_added (on_hello e fr s) = []"
  using assms
  by (auto simp: on_hello_def link_side_def sent_shape_def pair_fail_def pair_end_def pair_send_def show_code_def Let_def length_Suc_conv
      split: sum.splits if_splits)

lemma link_side_answer:
  assumes "link_side e a s c" "pp_phase s = AwaitUser h fp sas" "yes \<Longrightarrow> a"
  shows "link_side e a (on_answer e h fp sas yes s) c \<and> pp_added (on_answer e h fp sas yes s) = []"
  using assms
  by (auto simp: on_answer_def link_side_def sent_shape_def pair_fail_def pair_end_def pair_send_def Let_def length_Suc_conv)

lemma link_side_decision:
  assumes "link_side e a s c" "pp_phase s = AwaitDecision h fp sas y"
  shows "link_side e a (on_decision e h fp sas y fr s) c' \<and>
    (pp_added (on_decision e h fp sas y fr s) \<noteq> [] \<longrightarrow> y \<and> read_decision (legacy_role (pe_role e)) fr = Inr True)"
proof -
  have "sent_shape e a (pp_sent (on_decision e h fp sas y fr s)) \<and> (\<exists>r. pp_phase (on_decision e h fp sas y fr s) = PairEnded r) \<and>
    (pp_added (on_decision e h fp sas y fr s) \<noteq> [] \<longrightarrow> y \<and> read_decision (legacy_role (pe_role e)) fr = Inr True)"
    using assms
    by (cases "read_decision (legacy_role (pe_role e)) fr")
      (auto simp: on_decision_def link_side_def pair_fail_def pair_end_def Let_def split: prod.splits option.splits)
  then show ?thesis by (auto simp: link_side_def)
qed

lemma link_side_break:
  "link_side e a s c \<Longrightarrow> link_side e a (pair_step e s (break_event ev)) c \<and>
     pp_added (pair_step e s (break_event ev)) = pp_added s"
  by (auto simp: break_event_def link_side_def pair_fail_def pair_end_def split: pair_phase.splits)

definition link_inv :: "pair_env \<Rightarrow> pair_env \<Rightarrow> link_event list \<Rightarrow> pair_link \<Rightarrow> bool" where
  "link_inv e1 e2 evs l \<longleftrightarrow>
     link_side e1 (DialerAnswers True \<in> set evs) (pl_dialer l) (pl_to_dialer l) \<and>
     link_side e2 (DialedAnswers True \<in> set evs) (pl_dialed l) (pl_to_dialed l) \<and>
     (pp_added (pl_dialer l) \<noteq> [] \<or> pp_added (pl_dialed l) \<noteq> [] \<longrightarrow>
        DialerAnswers True \<in> set evs \<and> DialedAnswers True \<in> set evs)"

text \<open>The second message of a side is its decision.\<close>

lemma second_message:
  "link_side e a s c \<Longrightarrow> 1 < length (pp_sent s) \<Longrightarrow> read_decision l (Object (pp_sent s ! 1)) = Inr True \<Longrightarrow> a"
  by (auto simp: link_side_def sent_shape_def)

lemma link_step_inv:
  assumes "link_inv e1 e2 evs l"
  shows "link_inv e1 e2 (evs @ [ev]) (link_step e1 e2 l ev)"
proof -
  let ?A = "\<lambda>es. DialerAnswers True \<in> set es" and ?B = "\<lambda>es. DialedAnswers True \<in> set es"
  have s1: "link_side e1 (?A (evs @ [ev])) (pl_dialer l) (pl_to_dialer l)"
    and s2: "link_side e2 (?B (evs @ [ev])) (pl_dialed l) (pl_to_dialed l)"
    and add: "pp_added (pl_dialer l) \<noteq> [] \<or> pp_added (pl_dialed l) \<noteq> [] \<Longrightarrow> ?A (evs @ [ev]) \<and> ?B (evs @ [ev])"
    using assms link_side_mono by (auto simp: link_inv_def)
  have same: "link_inv e1 e2 (evs @ [ev]) l" using s1 s2 add by (auto simp: link_inv_def)
  show ?thesis
  proof (cases ev)
    case ToDialer
    show ?thesis
    proof (cases "awaits_frame (pl_dialer l) \<and> pl_to_dialer l < length (pp_sent (pl_dialed l))")
      case True
      let ?fr = "Object (pp_sent (pl_dialed l) ! pl_to_dialer l)"
      show ?thesis
      proof (cases "pp_phase (pl_dialer l)")
        case AwaitHello
        with s1 have "pl_to_dialer l = 0" by (simp add: link_side_def)
        with link_side_hello [of e1 _ "pl_dialer l" ?fr] s1 s2 AwaitHello True ToDialer add show ?thesis
          by (auto simp: link_inv_def)
      next
        case (AwaitDecision h fp sas y)
        with s1 have c: "pl_to_dialer l = 1" "y \<longrightarrow> ?A (evs @ [ev])" by (simp_all add: link_side_def)
        have "read_decision (legacy_role (pe_role e1)) ?fr = Inr True \<Longrightarrow> ?B (evs @ [ev])"
          using second_message [OF s2] True c(1) by simp
        with link_side_decision [OF s1 AwaitDecision, of ?fr "Suc (pl_to_dialer l)"] c s2 AwaitDecision True ToDialer add
        show ?thesis by (auto simp: link_inv_def)
      qed (use True in \<open>simp_all add: awaits_frame_def\<close>)
    qed (use same ToDialer in auto)
  next
    case ToDialed
    show ?thesis
    proof (cases "awaits_frame (pl_dialed l) \<and> pl_to_dialed l < length (pp_sent (pl_dialer l))")
      case True
      let ?fr = "Object (pp_sent (pl_dialer l) ! pl_to_dialed l)"
      show ?thesis
      proof (cases "pp_phase (pl_dialed l)")
        case AwaitHello
        with s2 have "pl_to_dialed l = 0" by (simp add: link_side_def)
        with link_side_hello [of e2 _ "pl_dialed l" ?fr] s1 s2 AwaitHello True ToDialed add show ?thesis
          by (auto simp: link_inv_def)
      next
        case (AwaitDecision h fp sas y)
        with s2 have c: "pl_to_dialed l = 1" "y \<longrightarrow> ?B (evs @ [ev])" by (simp_all add: link_side_def)
        have "read_decision (legacy_role (pe_role e2)) ?fr = Inr True \<Longrightarrow> ?A (evs @ [ev])"
          using second_message [OF s1] True c(1) by simp
        with link_side_decision [OF s2 AwaitDecision, of ?fr "Suc (pl_to_dialed l)"] c s1 AwaitDecision True ToDialed add
        show ?thesis by (auto simp: link_inv_def)
      qed (use True in \<open>simp_all add: awaits_frame_def\<close>)
    qed (use same ToDialed in auto)
  next
    case (DialerAnswers yes)
    show ?thesis
    proof (cases "pp_phase (pl_dialer l)")
      case (AwaitUser h fp sas)
      with link_side_answer [OF s1 AwaitUser, of yes] DialerAnswers s2 add show ?thesis by (auto simp: link_inv_def)
    qed (use same DialerAnswers in auto)
  next
    case (DialedAnswers yes)
    show ?thesis
    proof (cases "pp_phase (pl_dialed l)")
      case (AwaitUser h fp sas)
      with link_side_answer [OF s2 AwaitUser, of yes] DialedAnswers s1 add show ?thesis by (auto simp: link_inv_def)
    qed (use same DialedAnswers in auto)
  next
    case (DialerBreaks b)
    with link_side_break [OF s1, of b] s2 add show ?thesis by (auto simp: link_inv_def)
  next
    case (DialedBreaks b)
    with link_side_break [OF s2, of b] s1 add show ?thesis by (auto simp: link_inv_def)
  qed
qed

interpretation link_history: history_stepper "link_step e1 e2" "link_inv e1 e2" for e1 e2
  by unfold_locales (rule link_step_inv)

definition link_run :: "pair_env \<Rightarrow> pair_env \<Rightarrow> store \<Rightarrow> store \<Rightarrow> link_event list \<Rightarrow> pair_link" where
  "link_run e1 e2 st1 st2 evs = foldl (link_step e1 e2) (link_start e1 e2 st1 st2) evs"

lemma link_run_inv: "link_inv e1 e2 evs (link_run e1 e2 st1 st2 evs)"
  unfolding link_run_def
  by (rule link_history.history_run) (simp add: link_inv_def link_start_def link_side_start)

text \<open>
  On an undisturbed or breaking connection, in every interleaving and between sides of either
  protocol, neither machine stores the other unless both users accepted.\<close>

theorem pairing_needs_both_users:
  assumes "l = link_run e1 e2 st1 st2 evs"
    and "pp_added (pl_dialer l) \<noteq> [] \<or> pp_added (pl_dialed l) \<noteq> []"
  shows "DialerAnswers True \<in> set evs \<and> DialedAnswers True \<in> set evs"
  using link_run_inv [of e1 e2 evs st1 st2] assms by (simp add: link_inv_def)

subsection \<open>An undisturbed pairing completes\<close>

text \<open>
  A side of a pairing without faults: an identity whose fingerprint the other side computes, a nonce, a
  user to ask, sends that succeed, a hello within the limits, a connection that presents the other's
  certificate or none, and a store that can be read and written and accepts the address.
\<close>

definition honest_side :: "pair_env \<Rightarrow> identity \<Rightarrow> string \<Rightarrow> identity \<Rightarrow> store \<Rightarrow> bool" where
  "honest_side e i n other st \<longleftrightarrow>
     own_parts e = Inr (i, n) \<and> pe_confirm e \<and> (\<forall>k. pe_send_ok e k) \<and>
     id_cert i \<noteq> '''' \<and> length (id_cert i) \<le> max_pair_message_size \<and>
     length (host_name e) \<le> 256 \<and> \<not> has_control (host_name e) \<and>
     (case pe_local_port e of None \<Rightarrow> True | Some p \<Rightarrow> 0 \<le> p \<and> p \<le> 65535) \<and>
     fingerprint (pe_pki e) (id_cert other) = Inr (id_fingerprint other) \<and>
     (\<forall>x. length (pk_sha (pe_pki e) x) = 32) \<and>
     pe_tls e \<in> {NotTls, Presented (id_fingerprint other)} \<and>
     tx_lock (pe_tx e) \<and> tx_load (pe_tx e) \<and> tx_save (pe_tx e) \<and> st_peers st \<noteq> PeersUnreadable \<and>
     validate_peer_address (pe_net e) (clean_peer_address (pe_net e) (pe_peer_addr e)) = None \<and>
     (\<forall>port. validate_peer_address (pe_net e) (address_with_port (pe_net e) (pe_remote e) port) = None)"

definition honest_pair :: "pair_env \<Rightarrow> pair_env \<Rightarrow> identity \<Rightarrow> identity \<Rightarrow> string \<Rightarrow> string \<Rightarrow> store \<Rightarrow> store \<Rightarrow> bool" where
  "honest_pair e1 e2 i1 i2 n1 n2 st1 st2 \<longleftrightarrow>
     pe_role e1 \<in> {InBandDialer, LegacyDialer} \<and> pe_role e2 \<in> {Inbound, LegacyListener} \<and>
     honest_side e1 i1 n1 i2 st1 \<and> honest_side e2 i2 n2 i1 st2 \<and> pe_pki e1 = pe_pki e2 \<and>
     norm_fp (id_fingerprint i1) \<noteq> norm_fp (id_fingerprint i2)"

text \<open>The hello of a side as the other reads it; the port is lost from an envelope read by a legacy side.\<close>

definition hello_port :: "pair_env \<Rightarrow> int" where
  "hello_port e =
     (case pe_role e of
        LegacyListener \<Rightarrow> local_listen_port (pe_local_port e)
      | LegacyDialer \<Rightarrow> options_listen_port (pe_options e)
      | _ \<Rightarrow> pairing_listen_port e)"

definition received_hello :: "bool \<Rightarrow> pair_env \<Rightarrow> identity \<Rightarrow> string \<Rightarrow> pair_hello" where
  "received_hello legacy e i n =
     \<lparr>ph_cert = id_cert i, ph_name = host_name e,
      ph_port = (if legacy = legacy_role (pe_role e) then hello_port e else 0), ph_nonce = n\<rparr>"

lemma read_own_hello:
  "id_cert i \<noteq> '''' \<Longrightarrow> read_hello legacy (Object (hello_object e i n)) = Inr (received_hello legacy e i n)"
  by (cases "pe_role e"; cases legacy)
    (simp_all add: read_hello_def hello_object_def received_hello_def hello_port_def new_pair_hello_def hello_envelope_def
      unmarshal_pair_hello_def type_pair_hello_def no_hello_def)

lemma hello_port_range:
  assumes "case pe_local_port e of None \<Rightarrow> True | Some p \<Rightarrow> 0 \<le> p \<and> p \<le> 65535"
  shows "0 \<le> hello_port e \<and> hello_port e \<le> 65535"
  using assms
  by (auto simp: hello_port_def local_listen_port_def options_listen_port_def pairing_listen_port_def advertised_listen_port_def
      split: pair_role.splits option.splits)

lemma check_own_hello:
  assumes "honest_side e i n other st" "honest_side e' i' n' other' st'" "other = i'" "pe_pki e = pe_pki e'"
  shows "check_hello e (received_hello l e' i' n') = Inr (id_fingerprint i')"
proof -
  have "0 \<le> hello_port e'" "hello_port e' \<le> 65535" using hello_port_range [of e'] assms(2) by (simp_all add: honest_side_def)
  then have "validate_pair_hello_fields (received_hello l e' i' n') = None"
    using assms(2) by (simp add: validate_pair_hello_fields_def received_hello_def honest_side_def)
  moreover have "fingerprint (pe_pki e) (ph_cert (received_hello l e' i' n')) = Inr (id_fingerprint i')"
    using assms by (simp add: honest_side_def received_hello_def)
  moreover have "pe_tls e \<in> {NotTls, Presented (id_fingerprint i')}" using assms by (simp add: honest_side_def)
  ultimately show ?thesis
    by (auto simp: check_hello_def verify_tls_claim_def verify_pair_transport_identity_def peer_fingerprint_def)
qed

text \<open>A fingerprint that was computed is in its folded form and of plain digits.\<close>

lemma hex_digit_plain:
  assumes "n < 16"
  shows "ascii_graph (hex_digit n) \<and> lower_char (hex_digit n) = hex_digit n \<and> hex_digit n \<notin> {CHR 0x0D, CHR 0x0A, CHR 0x00}"
proof -
  have code: "code (hex_digit n) = (if n < 10 then 48 + n else 87 + n)"
    using assms by (simp add: hex_digit_def)
  moreover have "hex_digit n \<noteq> c" if "code c < (33 :: nat)" for c using code that by (auto split: if_splits)
  ultimately show ?thesis using assms by (auto simp: ascii_graph_def lower_char_def)
qed

lemma hex_encode_plain:
  assumes "c \<in> set (hex_encode bs)"
  shows "ascii_graph c \<and> lower_char c = c \<and> c \<notin> {CHR 0x0D, CHR 0x0A, CHR 0x00}"
proof -
  obtain b where "c = hex_digit (code b div 16) \<or> c = hex_digit (code b mod 16)"
    using assms by (auto simp: hex_encode_def)
  moreover have "code b div 16 < (16 :: nat)" using code_256 [of b] by linarith
  ultimately show ?thesis using hex_digit_plain by fastforce
qed

lemma computed_fingerprint:
  assumes "fingerprint pk cert = Inr fp" "\<forall>x. length (pk_sha pk x) = 32"
  shows "length fp = 64 \<and> fold_fingerprint fp = fp \<and> \<not> list_ex (\<lambda>c. c \<in> {CHR 0x0D, CHR 0x0A, CHR 0x00}) fp"
proof -
  obtain der where fp: "fp = hex_encode (pk_sha pk der)"
    using assms(1) by (auto simp: fingerprint_def split: option.splits if_splits)
  then have "\<forall>c \<in> set fp. ascii_graph c" "\<forall>c \<in> set fp. lower_char c = c"
    and ex: "\<not> list_ex (\<lambda>c. c \<in> {CHR 0x0D, CHR 0x0A, CHR 0x00}) fp"
    using hex_encode_plain by (fastforce simp: list_ex_iff)+
  then have "fold_fingerprint fp = fp"
    by (simp add: fold_fingerprint_def trim_space_graph to_lower_def map_idI)
  moreover have "length (hex_encode bs) = 2 * length bs" for bs
    by (induction bs) (simp_all add: hex_encode_def)
  ultimately show ?thesis using ex assms(2) fp by simp
qed

text \<open>The store takes a peer that passes the checks.\<close>

lemma add_peer_trusts:
  assumes "peer_refusal t p = None" "fold_fingerprint (pr_fingerprint p) = pr_fingerprint p"
    "tx_lock t" "tx_load t" "tx_save t" "st_peers s \<noteq> PeersUnreadable"
  shows "snd (add_peer t p s) = None \<and> pr_fingerprint p \<in> trusted (fst (add_peer t p s))"
proof -
  have "p\<lparr>pr_fingerprint := pr_fingerprint p\<rparr> = p" by simp
  with assms show ?thesis
    by (cases "st_peers s")
      (auto simp: add_peer_def with_lock_def mutate_peers_def load_peers_map_def save_peers_map_def trusted_def Let_def
        dom_update insert_absorb split: option.split)
qed

lemma honest_add:
  assumes "honest_side e i n other st" "honest_side e' other n' i' st'" "pe_pki e = pe_pki e'" "h = received_hello l e' other n'"
  shows "snd (add_peer (pe_tx e) (paired_peer e h (id_fingerprint other) sas) st) = None \<and>
    id_fingerprint other \<in> trusted (fst (add_peer (pe_tx e) (paired_peer e h (id_fingerprint other) sas) st))"
proof -
  have fp: "fingerprint (pe_pki e) (id_cert other) = Inr (id_fingerprint other)" "\<forall>x. length (pk_sha (pe_pki e) x) = 32"
    using assms(1) by (simp_all add: honest_side_def)
  note c = computed_fingerprint [OF fp]
  have name: "ph_name h = host_name e'" "host_name e' \<noteq> ''''" "ph_cert h = id_cert other"
    using assms(4) by (simp_all add: received_hello_def host_name_def)
  have label: "validate_peer_label (host_name e') = None" "validate_peer_label '''' = None"
    using assms(2) by (simp_all add: validate_peer_label_def honest_side_def)
  have addr: "validate_peer_address (pe_net e) (pr_address (paired_peer e h (id_fingerprint other) sas)) = None"
    using assms(1) by (simp add: paired_peer_def honest_side_def)
  have "length (id_cert other) \<le> 64 * 1024" using assms(2) by (simp add: honest_side_def max_pair_message_size_def)
  with c label addr name fp have "peer_refusal (pe_tx e) (paired_peer e h (id_fingerprint other) sas) = None"
    by (auto simp: peer_refusal_def paired_peer_def)
  with add_peer_trusts [of "pe_tx e" "paired_peer e h (id_fingerprint other) sas" st] c assms(1)
  show ?thesis by (simp add: honest_side_def)
qed

text \<open>
  The stages of an undisturbed side: before the hello, before the answer, before the decision, and done.
\<close>

definition stage :: "pair_env \<Rightarrow> identity \<Rightarrow> string \<Rightarrow> pair_hello \<Rightarrow> string \<Rightarrow> store \<Rightarrow> nat \<Rightarrow> pair_state" where
  "stage e i n h fp st k =
     (let sas = transcript_sas (pe_pki e) (id_fingerprint i) fp n (ph_nonce h); p = paired_peer e h fp sas
      in \<lparr>pp_phase = (if k = 0 then AwaitHello else if k = 1 then AwaitUser h fp sas else if k = 2 then AwaitDecision h fp sas True
            else PairEnded (Inr \<lparr>re_fingerprint = fp, re_peer_sas = sas, re_local_sas = sas, re_accepted = True\<rparr>)),
          pp_sent = (if k = 0 then (if pe_role e = Inbound then [] else [hello_object e i n])
            else if k = 1 then [hello_object e i n] else [hello_object e i n, decision_object e True]),
          pp_shown = (if k = 0 then [] else [sas]),
          pp_store = (if k < 3 then st else fst (add_peer (pe_tx e) p st)),
          pp_added = (if k < 3 then [] else [p])\<rparr>)"

lemma stage_start:
  "honest_side e i n other st \<Longrightarrow> pair_start e st = stage e i n h fp st 0"
  by (auto simp: pair_start_def stage_def honest_side_def pair_send_def Let_def)

lemma stage_hello:
  assumes "honest_side e i n other st" "honest_side e' other n' i' st'" "pe_pki e = pe_pki e'"
    "h = received_hello (legacy_role (pe_role e)) e' other n'"
  shows "pair_step e (stage e i n h (id_fingerprint other) st 0) (FrameArrives (Object (hello_object e' other n'))) =
    stage e i n h (id_fingerprint other) st 1"
proof -
  have "read_hello (legacy_role (pe_role e)) (Object (hello_object e' other n')) = Inr h"
    using read_own_hello assms(2,4) by (simp add: honest_side_def)
  moreover have "check_hello e h = Inr (id_fingerprint other)"
    using check_own_hello [OF assms(1,2) refl assms(3)] assms(4) by simp
  ultimately show ?thesis using assms(1)
    by (auto simp: stage_def on_hello_def honest_side_def pair_send_def show_code_def Let_def)
qed

lemma stage_answer:
  assumes "honest_side e i n other st"
  shows "pair_step e (stage e i n h fp st k) (UserAnswers True) = stage e i n h fp st (if k = 1 then 2 else k)"
  using assms by (auto simp: stage_def on_answer_def honest_side_def pair_send_def Let_def)

lemma stage_decision:
  assumes "honest_side e i n other st" "honest_side e' other n' i' st'" "pe_pki e = pe_pki e'"
    "h = received_hello (legacy_role (pe_role e)) e' other n'"
  shows "pair_step e (stage e i n h (id_fingerprint other) st 2) (FrameArrives (Object (decision_object e' True))) =
    stage e i n h (id_fingerprint other) st 3"
  using honest_add [OF assms(1,2,3), of h "legacy_role (pe_role e)" "transcript_sas (pe_pki e) (id_fingerprint i) (id_fingerprint other) n (ph_nonce h)"] assms(4)
  by (auto simp: stage_def on_decision_def pair_end_def received_hello_def Let_def split: prod.splits)

definition link_at ::
  "pair_env \<Rightarrow> pair_env \<Rightarrow> identity \<Rightarrow> identity \<Rightarrow> string \<Rightarrow> string \<Rightarrow> store \<Rightarrow> store \<Rightarrow> nat \<times> nat \<Rightarrow> pair_link" where
  "link_at e1 e2 i1 i2 n1 n2 st1 st2 k =
     (let taken = (\<lambda>k :: nat. if k = 0 then 0 else if k < 3 then 1 else 2)
      in \<lparr>pl_dialer = stage e1 i1 n1 (received_hello (legacy_role (pe_role e1)) e2 i2 n2) (id_fingerprint i2) st1 (fst k),
          pl_dialed = stage e2 i2 n2 (received_hello (legacy_role (pe_role e2)) e1 i1 n1) (id_fingerprint i1) st2 (snd k),
          pl_to_dialer = taken (fst k), pl_to_dialed = taken (snd k)\<rparr>)"

fun rank_step :: "bool \<Rightarrow> nat \<times> nat \<Rightarrow> link_event \<Rightarrow> nat \<times> nat" where
  "rank_step inbound (k1, k2) ToDialer =
     (if k1 = 0 \<and> (inbound \<longrightarrow> 1 \<le> k2) then 1 else if k1 = 2 \<and> 2 \<le> k2 then 3 else k1, k2)"
| "rank_step inbound (k1, k2) ToDialed = (k1, if k2 = 0 then 1 else if k2 = 2 \<and> 2 \<le> k1 then 3 else k2)"
| "rank_step inbound (k1, k2) (DialerAnswers yes) = (if k1 = 1 then 2 else k1, k2)"
| "rank_step inbound (k1, k2) (DialedAnswers yes) = (k1, if k2 = 1 then 2 else k2)"
| "rank_step inbound k _ = k"

definition all_events :: "link_event list" where
  "all_events = [ToDialer, ToDialed, DialerAnswers True, DialedAnswers True]"

lemma stage_awaits [simp]: "awaits_frame (stage e i n h fp st k) \<longleftrightarrow> k = 0 \<or> k = 2"
  by (simp add: awaits_frame_def stage_def Let_def)

lemma stage_sent:
  "pp_sent (stage e i n h fp st k) = [] \<longleftrightarrow> k = 0 \<and> pe_role e = Inbound"
  "1 < length (pp_sent (stage e i n h fp st k)) \<longleftrightarrow> 2 \<le> k"
  "k \<noteq> 0 \<or> pe_role e \<noteq> Inbound \<Longrightarrow> pp_sent (stage e i n h fp st k) ! 0 = hello_object e i n"
  "2 \<le> k \<Longrightarrow> pp_sent (stage e i n h fp st k) ! 1 = decision_object e True"
  by (auto simp: stage_def Let_def)

lemma small_stage: "(k :: nat) \<le> 3 \<Longrightarrow> k = 0 \<or> k = 1 \<or> k = 2 \<or> k = 3"
  by linarith

lemma link_step_rank:
  assumes "honest_pair e1 e2 i1 i2 n1 n2 st1 st2" "ev \<in> set all_events" "fst k \<le> 3" "snd k \<le> 3"
  shows "link_step e1 e2 (link_at e1 e2 i1 i2 n1 n2 st1 st2 k) ev =
    link_at e1 e2 i1 i2 n1 n2 st1 st2 (rank_step (pe_role e2 = Inbound) k ev)"
proof -
  have h: "honest_side e1 i1 n1 i2 st1" "honest_side e2 i2 n2 i1 st2" "pe_pki e1 = pe_pki e2" "pe_pki e2 = pe_pki e1"
    and r: "pe_role e1 \<noteq> Inbound" using assms(1) by (auto simp: honest_pair_def)
  note hello = stage_hello [OF h(1,2,3) refl] stage_hello [OF h(2,1,4) refl]
  note decision = stage_decision [OF h(1,2,3) refl] stage_decision [OF h(2,1,4) refl]
  obtain k1 k2 where k: "k = (k1, k2)" by fastforce
  have b: "k1 \<le> 3" "k2 \<le> 3" using assms(3,4) k by simp_all
  consider "ev = ToDialer" | "ev = ToDialed" | "ev = DialerAnswers True" | "ev = DialedAnswers True"
    using assms(2) by (auto simp: all_events_def)
  then show ?thesis
  proof cases
    case 1
    show ?thesis
    proof (cases "k1 = 0 \<or> k1 = 2")
      case True
      then show ?thesis unfolding k 1 link_at_def Let_def
        by (elim disjE) (simp_all add: stage_sent hello decision del: One_nat_def pair_step.simps)
    next
      case False
      then show ?thesis unfolding k 1 link_at_def Let_def by simp
    qed
  next
    case 2
    show ?thesis
    proof (cases "k2 = 0 \<or> k2 = 2")
      case True
      then show ?thesis using r unfolding k 2 link_at_def Let_def
        by (elim disjE) (simp_all add: stage_sent hello decision del: One_nat_def pair_step.simps)
    next
      case False
      then show ?thesis unfolding k 2 link_at_def Let_def by simp
    qed
  next
    case 3
    then show ?thesis unfolding k 3 link_at_def Let_def
      by (simp add: stage_answer [OF h(1)] del: pair_step.simps)
  next
    case 4
    then show ?thesis unfolding k 4 link_at_def Let_def
      by (simp add: stage_answer [OF h(2)] del: pair_step.simps)
  qed
qed

text \<open>As long as the two sides are not done, one of the four kinds of event takes a step.\<close>

lemma rank_mono: "fst k \<le> fst (rank_step b k ev) \<and> snd k \<le> snd (rank_step b k ev)"
  by (cases k; cases ev) auto

lemma rank_bound: "fst k \<le> 3 \<Longrightarrow> snd k \<le> 3 \<Longrightarrow> fst (rank_step b k ev) \<le> 3 \<and> snd (rank_step b k ev) \<le> 3"
  by (cases k; cases ev) auto

lemma rank_moves:
  assumes "fst k \<le> 3" "snd k \<le> 3" "k \<noteq> (3, 3)"
  shows "\<exists>ev \<in> set all_events. rank_step b k ev \<noteq> k"
  using small_stage [OF assms(1)] small_stage [OF assms(2)] assms(3)
  by (cases k) (auto simp: all_events_def)

lemma rank_run_mono: "fst k \<le> fst (foldl (rank_step b) k evs) \<and> snd k \<le> snd (foldl (rank_step b) k evs)"
proof (induction evs arbitrary: k)
  case (Cons ev evs)
  show ?case using Cons [of "rank_step b k ev"] rank_mono [of k b ev] by simp
qed simp

lemma rank_run_bound: "fst k \<le> 3 \<Longrightarrow> snd k \<le> 3 \<Longrightarrow> fst (foldl (rank_step b) k evs) \<le> 3 \<and> snd (foldl (rank_step b) k evs) \<le> 3"
  by (induction evs arbitrary: k) (simp_all add: rank_bound)

lemma rank_stays: "foldl (rank_step b) k evs = k \<Longrightarrow> ev \<in> set evs \<Longrightarrow> rank_step b k ev = k"
proof (induction evs)
  case (Cons a evs)
  have "fst (rank_step b k a) \<le> fst k \<and> snd (rank_step b k a) \<le> snd k"
    using rank_run_mono [of "rank_step b k a" b evs] Cons.prems(1) by simp
  with rank_mono [of k b a] have "rank_step b k a = k" by (simp add: prod_eq_iff)
  with Cons show ?case by auto
qed simp

definition rank :: "nat \<times> nat \<Rightarrow> nat" where "rank k = fst k + snd k"

lemma rank_round:
  assumes "fst k \<le> 3" "snd k \<le> 3" "k \<noteq> (3, 3)" "set all_events \<subseteq> set evs"
  shows "rank k < rank (foldl (rank_step b) k evs)"
proof -
  have "foldl (rank_step b) k evs \<noteq> k"
    using rank_moves [OF assms(1-3), of b] rank_stays [of b k evs] assms(4) by blast
  with rank_run_mono [of k b evs] show ?thesis by (auto simp: rank_def prod_eq_iff)
qed

lemma rank_rounds:
  assumes "list_all (\<lambda>r. set all_events \<subseteq> set r) rounds" "fst k \<le> 3" "snd k \<le> 3" "6 \<le> rank k + length rounds"
  shows "foldl (rank_step b) k (concat rounds) = (3, 3)"
  using assms
proof (induction rounds arbitrary: k)
  case Nil
  then have "fst k = 3" "snd k = 3" by (simp_all add: rank_def)
  then show ?case by (simp add: prod_eq_iff)
next
  case (Cons r rounds)
  let ?k = "foldl (rank_step b) k r"
  have "fst ?k \<le> 3" "snd ?k \<le> 3" using rank_run_bound Cons.prems(2,3) by blast+
  moreover have "6 \<le> rank ?k + length rounds"
  proof (cases "k = (3, 3)")
    case True
    with rank_run_mono [of k b r] show ?thesis by (simp add: rank_def)
  next
    case False
    with rank_round [OF Cons.prems(2,3), of r b] Cons.prems(1,4) show ?thesis by simp
  qed
  ultimately show ?case using Cons by simp
qed

lemma link_run_rank:
  assumes "honest_pair e1 e2 i1 i2 n1 n2 st1 st2" "list_all (\<lambda>ev. ev \<in> set all_events) evs" "fst k \<le> 3" "snd k \<le> 3"
  shows "foldl (link_step e1 e2) (link_at e1 e2 i1 i2 n1 n2 st1 st2 k) evs =
    link_at e1 e2 i1 i2 n1 n2 st1 st2 (foldl (rank_step (pe_role e2 = Inbound)) k evs)"
  using assms(2-4)
proof (induction evs arbitrary: k)
  case (Cons ev evs)
  with link_step_rank [OF assms(1), of ev k] rank_bound [of k "pe_role e2 = Inbound" ev] show ?case by simp
qed simp

text \<open>
  C12. An undisturbed pairing of two machines whose users both accept completes, whichever protocol each
  side speaks and however the events interleave: after six rounds in each of which every message on the
  way is offered for delivery and every user asked has answered, both sides report an accepted pairing,
  both had shown the same code, and each trusts the other's certificate under its fingerprint.\<close>

theorem pairing_completes:
  assumes "honest_pair e1 e2 i1 i2 n1 n2 st1 st2"
    and "list_all (\<lambda>r. set r = set all_events) rounds" "6 \<le> length rounds"
    and "l = link_run e1 e2 st1 st2 (concat rounds)"
  shows "(\<exists>r1 r2. pp_phase (pl_dialer l) = PairEnded (Inr r1) \<and> re_accepted r1 \<and>
      pp_phase (pl_dialed l) = PairEnded (Inr r2) \<and> re_accepted r2) \<and>
    (\<exists>sas. pp_shown (pl_dialer l) = [sas] \<and> pp_shown (pl_dialed l) = [sas]) \<and>
    id_fingerprint i2 \<in> trusted (pp_store (pl_dialer l)) \<and> id_fingerprint i1 \<in> trusted (pp_store (pl_dialed l))"
proof -
  have h: "honest_side e1 i1 n1 i2 st1" "honest_side e2 i2 n2 i1 st2" "pe_pki e1 = pe_pki e2" "pe_pki e2 = pe_pki e1"
    "norm_fp (id_fingerprint i1) \<noteq> norm_fp (id_fingerprint i2)" using assms(1) by (auto simp: honest_pair_def)
  have evs: "list_all (\<lambda>ev. ev \<in> set all_events) (concat rounds)" "list_all (\<lambda>r. set all_events \<subseteq> set r) rounds"
    using assms(2) unfolding list_all_iff set_concat by blast+
  have "link_start e1 e2 st1 st2 = link_at e1 e2 i1 i2 n1 n2 st1 st2 (0, 0)"
    using stage_start [OF h(1)] stage_start [OF h(2)] by (simp add: link_start_def link_at_def)
  then have l: "l = link_at e1 e2 i1 i2 n1 n2 st1 st2 (3, 3)"
    using link_run_rank [OF assms(1) evs(1), of "(0, 0)"] rank_rounds [OF evs(2), of "(0, 0)"] assms(3,4)
    by (simp add: link_run_def rank_def)
  have "transcript_sas (pe_pki e1) (id_fingerprint i1) (id_fingerprint i2) n1 n2 =
      transcript_sas (pe_pki e2) (id_fingerprint i2) (id_fingerprint i1) n2 n1"
    using transcript_sym [OF h(5)] h(3) by (simp add: transcript_sas_def)
  then show ?thesis
    using honest_add [OF h(1,2,3) refl] honest_add [OF h(2,1,4) refl]
    by (simp add: l link_at_def stage_def Let_def received_hello_def)
qed

section \<open>A concrete pairing\<close>

definition pair_demo_net :: net_lib where
  "pair_demo_net = demo_net\<lparr>nl_split_host_port := (\<lambda>s.
     if s = ''127.0.0.1:9877'' then Some (''127.0.0.1'', ''9877'')
     else if s = ''127.0.0.1:9878'' then Some (''127.0.0.1'', ''9878'') else None)\<rparr>"

text \<open>The machine whose certificate is the byte \<open>c\<close>.\<close>

definition machine :: "char \<Rightarrow> identity" where
  "machine c = \<lparr>id_cert = [CHR ''P'', c], id_key = ''k'', id_fingerprint = hex_encode (pk_sha demo_pki [c])\<rparr>"

definition demo_pair_env :: "pair_role \<Rightarrow> char \<Rightarrow> char \<Rightarrow> pair_env" where
  "demo_pair_env role c other =
     \<lparr>pe_role = role, pe_identity = Some (machine c), pe_nonce = Some [c], pe_hostname = ''box'', pe_framed = True,
       pe_local_port = Some 9877, pe_options = 0, pe_tls = Presented (id_fingerprint (machine other)), pe_remote = None,
       pe_peer_addr = ''127.0.0.1:9877'', pe_confirm = True, pe_send_ok = (\<lambda>_. True), pe_tx = (demo_tx 1)\<lparr>tx_net := pair_demo_net\<rparr>\<rparr>"

lemma demo_pair_address:
  "join_host_port ''127.0.0.1'' default_pairing_port = ''127.0.0.1:9877''"
  "clean_peer_address pair_demo_net ''127.0.0.1:9877'' = ''127.0.0.1:9877''"
  "validate_peer_address pair_demo_net ''127.0.0.1:9877'' = None"
  "clean_peer_address pair_demo_net ''127.0.0.1:9878'' = ''127.0.0.1:9878''"
  "validate_peer_address pair_demo_net ''127.0.0.1:9878'' = None"
  by code_simp+

lemma demo_fingerprint: "fingerprint demo_pki [CHR ''P'', c] = Inr (hex_encode (pk_sha demo_pki [c]))"
  by (simp add: fingerprint_def demo_pki_def trim_space_graph)

lemma demo_honest_at:
  assumes "addr = ''127.0.0.1:9877'' \<or> addr = ''127.0.0.1:9878''" "st_peers st \<noteq> PeersUnreadable"
  shows "honest_side ((demo_pair_env role c other)\<lparr>pe_peer_addr := addr\<rparr>) (machine c) [c] (machine other) st"
proof -
  have "\<not> has_control ''box''" by code_simp
  then show ?thesis using assms
    by (auto simp: honest_side_def demo_pair_env_def own_parts_def machine_def host_name_def demo_tx_def empty_store_def
        demo_fingerprint demo_sha_length demo_pair_address address_with_port_def max_pair_message_size_def)
      (simp_all add: demo_pki_def)
qed

lemma demo_honest: "honest_side (demo_pair_env role c other) (machine c) [c] (machine other) empty_store"
  using demo_honest_at [of "''127.0.0.1:9877''" empty_store role c other] by (simp add: demo_pair_env_def empty_store_def)

lemma demo_distinct: "norm_fp (id_fingerprint (machine (CHR ''a''))) \<noteq> norm_fp (id_fingerprint (machine (CHR ''b'')))"
  by code_simp

lemma demo_honest_pair:
  assumes "r1 \<in> {InBandDialer, LegacyDialer}" "r2 \<in> {Inbound, LegacyListener}"
  shows "honest_pair (demo_pair_env r1 (CHR ''a'') (CHR ''b'')) (demo_pair_env r2 (CHR ''b'') (CHR ''a''))
    (machine (CHR ''a'')) (machine (CHR ''b'')) ''a'' ''b'' empty_store empty_store"
  using assms demo_honest demo_distinct by (simp add: honest_pair_def) (simp add: demo_pair_env_def)

theorem pairing_completes_witness:
  "let l = link_run (demo_pair_env InBandDialer (CHR ''a'') (CHR ''b'')) (demo_pair_env Inbound (CHR ''b'') (CHR ''a''))
     empty_store empty_store (concat (replicate 6 all_events))
   in id_fingerprint (machine (CHR ''b'')) \<in> trusted (pp_store (pl_dialer l)) \<and>
      id_fingerprint (machine (CHR ''a'')) \<in> trusted (pp_store (pl_dialed l))"
  using pairing_completes [OF demo_honest_pair [of InBandDialer Inbound] _ _ refl, of "replicate 6 all_events"]
  by (simp add: Let_def list_all_iff)

text \<open>The same pairing as the side that dialled sees it, and as the other does.\<close>

definition demo_dialer_events :: "pair_event list" where
  "demo_dialer_events =
     [FrameArrives (Object (hello_object (demo_pair_env Inbound (CHR ''b'') (CHR ''a'')) (machine (CHR ''b'')) ''b'')),
      UserAnswers True, FrameArrives (Object (decision_envelope True))]"

definition demo_dialed_events :: "pair_event list" where
  "demo_dialed_events =
     [FrameArrives (Object (hello_object (demo_pair_env InBandDialer (CHR ''a'') (CHR ''b'')) (machine (CHR ''a'')) ''a'')),
      UserAnswers True, FrameArrives (Object (decision_envelope True))]"

lemma stage_done:
  assumes "honest_side e i n other st" "honest_side e' other n' i' st'" "pe_pki e = pe_pki e'"
  shows "pair_run e st [FrameArrives (Object (hello_object e' other n')), UserAnswers True, FrameArrives (Object (decision_object e' True))] =
    stage e i n (received_hello (legacy_role (pe_role e)) e' other n') (id_fingerprint other) st 3"
  using stage_start [OF assms(1)] stage_hello [OF assms refl] stage_answer [OF assms(1), of _ _ 1] stage_decision [OF assms refl]
  by (simp add: pair_run_def del: pair_step.simps One_nat_def)

lemma done_confirmed:
  assumes "honest_side e i n other st" "honest_side e' other n' i' st'" "pe_pki e = pe_pki e'"
    "h = received_hello (legacy_role (pe_role e)) e' other n'"
  shows "confirmed_pairing e [FrameArrives (Object (hello_object e' other n')), UserAnswers True, FrameArrives (Object (decision_object e' True))]
    (stage e i n h (id_fingerprint other) st 3) (paired_peer e h (id_fingerprint other)
      (transcript_sas (pe_pki e) (id_fingerprint i) (id_fingerprint other) n (ph_nonce h))) h i n"
proof -
  have "read_hello (legacy_role (pe_role e)) (Object (hello_object e' other n')) = Inr h"
    using read_own_hello assms(2,4) by (simp add: honest_side_def)
  moreover have "read_decision (legacy_role (pe_role e)) (Object (decision_object e' True)) = Inr True" by simp
  moreover have "ph_cert h = id_cert other" using assms(4) by (simp add: received_hello_def)
  ultimately show ?thesis
    using assms(1) unfolding confirmed_pairing_def
    by (auto simp: stage_def honest_side_def peer_fingerprint_def Let_def)
qed

theorem pairing_needs_both_users_witness:
  "let l = link_run (demo_pair_env LegacyDialer (CHR ''a'') (CHR ''b'')) (demo_pair_env Inbound (CHR ''b'') (CHR ''a''))
     empty_store empty_store (concat (replicate 6 all_events))
   in pp_added (pl_dialer l) \<noteq> [] \<and> DialedAnswers True \<in> set (concat (replicate 6 all_events))"
proof -
  let ?e1 = "demo_pair_env LegacyDialer (CHR ''a'') (CHR ''b'')" and ?e2 = "demo_pair_env Inbound (CHR ''b'') (CHR ''a'')"
  let ?evs = "concat (replicate 6 all_events)"
  have h: "honest_pair ?e1 ?e2 (machine (CHR ''a'')) (machine (CHR ''b'')) ''a'' ''b'' empty_store empty_store"
    by (rule demo_honest_pair) simp_all
  then have s: "honest_side ?e1 (machine (CHR ''a'')) ''a'' (machine (CHR ''b'')) empty_store"
    "honest_side ?e2 (machine (CHR ''b'')) ''b'' (machine (CHR ''a'')) empty_store" by (simp_all add: honest_pair_def)
  have evs: "list_all (\<lambda>ev. ev \<in> set all_events) ?evs" by (auto simp: list_all_iff)
  have r: "list_all (\<lambda>r. set all_events \<subseteq> set r) (replicate 6 all_events)" by (simp add: list_all_iff)
  have "link_start ?e1 ?e2 empty_store empty_store =
      link_at ?e1 ?e2 (machine (CHR ''a'')) (machine (CHR ''b'')) ''a'' ''b'' empty_store empty_store (0, 0)"
    using stage_start [OF s(1)] stage_start [OF s(2)] by (simp add: link_start_def link_at_def)
  then have l: "link_run ?e1 ?e2 empty_store empty_store ?evs =
      link_at ?e1 ?e2 (machine (CHR ''a'')) (machine (CHR ''b'')) ''a'' ''b'' empty_store empty_store (3, 3)"
    using link_run_rank [OF h evs, of "(0, 0)"] rank_rounds [OF r, of "(0, 0)"]
    by (simp add: link_run_def rank_def del: concat.simps concat_replicate_trivial)
  then have a: "pp_added (pl_dialer (link_run ?e1 ?e2 empty_store empty_store ?evs)) \<noteq> []"
    by (simp add: link_at_def stage_def Let_def)
  then show ?thesis using pairing_needs_both_users [OF refl disjI1 [OF a]] by (simp add: Let_def)
qed

theorem same_code_pairs_each_other_witness:
  "let i1 = machine (CHR ''a''); i2 = machine (CHR ''b'');
       e1 = demo_pair_env InBandDialer (CHR ''a'') (CHR ''b''); e2 = demo_pair_env Inbound (CHR ''b'') (CHR ''a'');
       s1 = pair_run e1 empty_store demo_dialer_events; s2 = pair_run e2 empty_store demo_dialed_events
   in pp_shown s1 = pp_shown s2 \<and> map (\<lambda>p. norm_fp (pr_fingerprint p)) (pp_added s1) = [norm_fp (id_fingerprint i2)]"
proof -
  let ?i1 = "machine (CHR ''a'')" and ?i2 = "machine (CHR ''b'')"
  let ?e1 = "demo_pair_env InBandDialer (CHR ''a'') (CHR ''b'')" and ?e2 = "demo_pair_env Inbound (CHR ''b'') (CHR ''a'')"
  let ?h1 = "received_hello False ?e2 ?i2 ''b''" and ?h2 = "received_hello False ?e1 ?i1 ''a''"
  have hs: "honest_side ?e1 ?i1 ''a'' ?i2 empty_store" "honest_side ?e2 ?i2 ''b'' ?i1 empty_store" by (rule demo_honest)+
  have pk: "pe_pki ?e1 = demo_pki" "pe_pki ?e2 = demo_pki" "pe_pki ?e1 = pe_pki ?e2" "pe_pki ?e2 = pe_pki ?e1"
    by (simp_all add: demo_pair_env_def demo_tx_def)
  have roles: "pe_role ?e1 = InBandDialer" "pe_role ?e2 = Inbound" by (simp_all add: demo_pair_env_def)
  have evs: "demo_dialer_events = [FrameArrives (Object (hello_object ?e2 ?i2 ''b'')), UserAnswers True, FrameArrives (Object (decision_object ?e2 True))]"
    "demo_dialed_events = [FrameArrives (Object (hello_object ?e1 ?i1 ''a'')), UserAnswers True, FrameArrives (Object (decision_object ?e1 True))]"
    by (simp_all add: demo_dialer_events_def demo_dialed_events_def decision_object_def roles)
  have run1: "pair_run ?e1 empty_store demo_dialer_events = stage ?e1 ?i1 ''a'' ?h1 (id_fingerprint ?i2) empty_store 3"
    and run2: "pair_run ?e2 empty_store demo_dialed_events = stage ?e2 ?i2 ''b'' ?h2 (id_fingerprint ?i1) empty_store 3"
    unfolding evs using stage_done [OF hs pk(3)] stage_done [OF hs(2,1) pk(4)] roles by simp_all
  have c1: "confirmed_pairing ?e1 demo_dialer_events (pair_run ?e1 empty_store demo_dialer_events)
      (paired_peer ?e1 ?h1 (id_fingerprint ?i2) (transcript_sas demo_pki (id_fingerprint ?i1) (id_fingerprint ?i2) ''a'' (ph_nonce ?h1)))
      ?h1 ?i1 ''a''"
    and c2: "confirmed_pairing ?e2 demo_dialed_events (pair_run ?e2 empty_store demo_dialed_events)
      (paired_peer ?e2 ?h2 (id_fingerprint ?i1) (transcript_sas demo_pki (id_fingerprint ?i2) (id_fingerprint ?i1) ''b'' (ph_nonce ?h2)))
      ?h2 ?i2 ''b''"
    unfolding run1 run2 unfolding evs
    using done_confirmed [OF hs pk(3), of ?h1] done_confirmed [OF hs(2,1) pk(4), of ?h2] roles pk(1,2) by simp_all
  have t: "transcript (id_fingerprint ?i1) (id_fingerprint ?i2) ''a'' (ph_nonce ?h1) =
      transcript (id_fingerprint ?i2) (id_fingerprint ?i1) ''b'' (ph_nonce ?h2)"
    using transcript_sym [OF demo_distinct] by (simp add: received_hello_def)
  then have shown: "pp_shown (pair_run ?e1 empty_store demo_dialer_events) = pp_shown (pair_run ?e2 empty_store demo_dialed_events)"
    unfolding run1 run2 by (simp add: stage_def pk transcript_sas_def Let_def)
  have len: "length (norm_fp (id_fingerprint ?i1)) = 64" "length (norm_fp (id_fingerprint ?i2)) = 64" by code_simp+
  from same_code_pairs_each_other [OF c1 c2 shown pk(1,2) demo_sha_length demo_distinct] t len
  show ?thesis using shown by (simp add: Let_def run1 stage_def small_def received_hello_def)
qed

end
