(* ===== verification/Pairing_Dial.thy ===== *)
theory Pairing_Dial
  imports Pairing_Session
begin

text \<open>
  Dialling a peer for a pairing (\<open>dialInBandPairing\<close> in internal/pairing/handshake.go): the in-band
  session, the fallbacks to the legacy protocol, and what becomes of the store and of the user's
  attention on the way.
\<close>

section \<open>Dialling a peer\<close>

text \<open>
  What \<open>dialInBandPairing\<close> meets: the in-band session on the connection it opens, if it opens one, and
  for each address the legacy session there, if the connection and its handshake succeed. A session is
  its environment and what happens in it, up to the end of its context.
\<close>

record dial_env =
  de_addr :: string
  de_own :: pair_env
  de_in_band :: "(pair_env \<times> pair_event list) option"
  de_legacy :: "string \<Rightarrow> (pair_env \<times> pair_event list) option"

datatype dial_error = DialIdentity | DialKeyPair | DialSession pair_error | DialFailed

record dial_state =
  ds_store :: store
  ds_shown :: "string list"

definition legacy_pairing_port :: string where "legacy_pairing_port = ''9878''"

definition run_session :: "(pair_env \<times> pair_event list) \<Rightarrow> dial_state \<Rightarrow> dial_state \<times> (pair_error + pair_result)" where
  "run_session x d =
     (case x of (e, evs) \<Rightarrow>
        let s = pair_run e (ds_store d) (evs @ [PairContextEnds])
        in (d\<lparr>ds_store := pp_store s, ds_shown := ds_shown d @ pp_shown s\<rparr>,
            case pp_phase s of PairEnded r \<Rightarrow> r | _ \<Rightarrow> Inl PairContext))"

text \<open>The legacy session at an address; \<open>None\<close> is a failed one.\<close>

definition legacy_attempt :: "dial_env \<Rightarrow> string \<Rightarrow> dial_state \<Rightarrow> dial_state \<times> (pair_error + pair_result)" where
  "legacy_attempt de addr d =
     (case de_legacy de addr of
        None \<Rightarrow> (d, Inl PairReceive)
      | Some (e, evs) \<Rightarrow> run_session (e\<lparr>pe_role := LegacyDialer, pe_peer_addr := addr\<rparr>, evs) d)"

text \<open>After a legacy session the address of the peer it named, if it is known, is replaced.\<close>

definition readdress :: "tx \<Rightarrow> string \<Rightarrow> string \<Rightarrow> store \<Rightarrow> store" where
  "readdress t fp addr s =
     (case first_peer (\<lambda>p. pr_fingerprint p = fp) (list_peers t s) of
        None \<Rightarrow> s
      | Some p \<Rightarrow> fst (add_peer t (p\<lparr>pr_address := addr\<rparr>) s))"

definition after_legacy ::
  "dial_env \<Rightarrow> string \<Rightarrow> dial_state \<Rightarrow> pair_result \<Rightarrow> dial_state \<times> (dial_error + pair_result)" where
  "after_legacy de addr d r =
     (d\<lparr>ds_store := readdress (pe_tx (de_own de)) (re_fingerprint r) addr (ds_store d)\<rparr>, Inr r)"

definition dial_fallback ::
  "dial_env \<Rightarrow> string \<Rightarrow> bool \<Rightarrow> string \<Rightarrow> dial_error \<Rightarrow> dial_state \<Rightarrow> dial_state \<times> (dial_error + pair_result)" where
  "dial_fallback de host explicit dial_addr er0 d =
     (case legacy_attempt de dial_addr d of
        (d1, Inr r) \<Rightarrow> after_legacy de (clean_peer_address (pe_net (de_own de)) dial_addr) d1 r
      | (d1, Inl _) \<Rightarrow>
          if explicit then (d1, Inl er0)
          else (case legacy_attempt de (join_host_port host legacy_pairing_port) d1 of
            (d2, Inr r) \<Rightarrow> after_legacy de (join_host_port host default_pairing_port) d2 r
          | (d2, Inl _) \<Rightarrow> (d2, Inl er0)))"

text \<open>Only a peer that does not speak the framed protocol is tried with the legacy one.\<close>

definition legacy_fallback_allowed :: "pair_error \<Rightarrow> bool" where
  "legacy_fallback_allowed er = (case er of PairUnsupported _ \<Rightarrow> True | _ \<Rightarrow> False)"

definition dial_in_band_pairing :: "dial_env \<Rightarrow> store \<Rightarrow> dial_state \<times> (dial_error + pair_result)" where
  "dial_in_band_pairing de st =
     (let d = \<lparr>ds_store = st, ds_shown = []\<rparr>
      in case pe_identity (de_own de) of
           None \<Rightarrow> (d, Inl DialIdentity)
         | Some i \<Rightarrow>
             if \<not> pk_key_pair (pe_pki (de_own de)) (id_cert i) (id_key i) then (d, Inl DialKeyPair)
             else
               let split = nl_split_host_port (pe_net (de_own de)) (de_addr de);
                   explicit = (split \<noteq> None);
                   (host, port) = (case split of Some hp \<Rightarrow> hp | None \<Rightarrow> (de_addr de, default_pairing_port));
                   dial_addr = join_host_port host port
               in if port = legacy_pairing_port then
                    (case legacy_attempt de dial_addr d of
                       (d1, Inr r) \<Rightarrow> after_legacy de (join_host_port host default_pairing_port) d1 r
                     | (d1, Inl er) \<Rightarrow> (d1, Inl (DialSession er)))
                  else (case de_in_band de of
                    None \<Rightarrow> dial_fallback de host explicit dial_addr DialFailed d
                  | Some (e, evs) \<Rightarrow>
                      (case run_session (e\<lparr>pe_role := InBandDialer\<rparr>, evs) d of
                        (d1, Inr r) \<Rightarrow> (d1, Inr r)
                      | (d1, Inl er) \<Rightarrow>
                          if legacy_fallback_allowed er
                          then dial_fallback de host explicit dial_addr (DialSession er) d1
                          else (d1, Inl (DialSession er)))))"

subsection \<open>An in-band session that asked its user is the only one\<close>

definition unasked :: "pair_state \<Rightarrow> bool" where
  "unasked s \<longleftrightarrow>
     (case pp_phase s of
        AwaitHello \<Rightarrow> pp_shown s = []
      | PairEnded (Inl (PairUnsupported ty)) \<Rightarrow> pp_shown s = []
      | _ \<Rightarrow> True)"

lemma unasked_fail: "\<forall>ty. er \<noteq> PairUnsupported ty \<Longrightarrow> unasked (pair_fail er s)"
  by (cases er) (auto simp: unasked_def pair_fail_def pair_end_def)

lemma unasked_fail_shown: "pp_shown s = [] \<Longrightarrow> unasked (pair_fail er s)"
  by (cases er) (simp_all add: unasked_def pair_fail_def pair_end_def)

lemma unasked_send: "(\<And>s. unasked (k s)) \<Longrightarrow> unasked (pair_send e ob k s)"
  by (simp add: pair_send_def unasked_fail)

lemma unasked_start: "unasked (pair_start e st)"
  by (auto simp: pair_start_def unasked_def pair_fail_def pair_end_def pair_send_def Let_def split: sum.splits pair_error.splits)

lemma unasked_hello: "pp_shown s = [] \<Longrightarrow> unasked (on_hello e fr s)"
  by (auto simp: on_hello_def Let_def unasked_fail_shown intro!: unasked_send split: sum.splits)
    (simp_all add: show_code_def unasked_def)

lemma decision_not_unsupported: "read_decision l fr = Inl er \<Longrightarrow> er \<noteq> PairUnsupported ty"
  by (auto simp: read_decision_def split: pair_frame.splits if_splits option.splits)

lemma unasked_decision: "unasked (on_decision e h fp sas a fr s)"
  using decision_not_unsupported [of "legacy_role (pe_role e)" fr]
  by (auto simp: on_decision_def Let_def unasked_fail pair_end_def unasked_def split: sum.splits prod.splits option.splits)
    (simp_all add: pair_fail_def pair_end_def split: pair_error.splits)

lemma unasked_step: "unasked s \<Longrightarrow> unasked (pair_step e s ev)"
proof (cases ev)
  case (FrameArrives fr)
  assume "unasked s"
  with FrameArrives unasked_hello unasked_decision show ?thesis
    by (cases "pp_phase s") (simp_all add: unasked_def [of s])
next
  case (UserAnswers yes)
  assume "unasked s"
  moreover have "unasked (on_answer e h fp sas yes s)" for h fp sas
    by (auto simp: on_answer_def Let_def intro!: unasked_send) (simp add: unasked_def)
  ultimately show ?thesis using UserAnswers by (cases "pp_phase s") simp_all
qed (auto simp: unasked_fail split: pair_phase.splits)

interpretation unasked_runs: stepper "pair_step e" unasked for e
  by unfold_locales (rule unasked_step)

lemma unsupported_unasked:
  "pp_phase (pair_run e st evs) = PairEnded (Inl (PairUnsupported ty)) \<Longrightarrow> pp_shown (pair_run e st evs) = []"
proof -
  have "unasked (pair_run e st evs)" unfolding pair_run_def by (rule unasked_runs.run_inv [OF unasked_start])
  then show "pp_phase (pair_run e st evs) = PairEnded (Inl (PairUnsupported ty)) \<Longrightarrow> ?thesis" by (simp add: unasked_def)
qed

text \<open>A context that ends ends the session.\<close>

lemma run_session_ends: "\<exists>r. pp_phase (pair_run e st (evs @ [PairContextEnds])) = PairEnded r"
  by (simp add: pair_run_def pair_fail_def pair_end_def split: pair_phase.split)

text \<open>
  Dialling a peer asks the user about one code when the peer speaks the framed protocol. Once the
  in-band session has shown its code, whatever happens then - a refusal, a broken connection, an
  answer of another kind - the attempt ends with that session: no other code is shown, and its result
  and its store are those of the attempt.\<close>

theorem in_band_prompt_is_final:
  assumes "de_in_band de = Some (e, evs)" "pe_identity (de_own de) = Some i" "pk_key_pair (pe_pki (de_own de)) (id_cert i) (id_key i)"
    and "\<forall>h. nl_split_host_port (pe_net (de_own de)) (de_addr de) \<noteq> Some (h, legacy_pairing_port)"
    and "s = pair_run (e\<lparr>pe_role := InBandDialer\<rparr>) st (evs @ [PairContextEnds])" "pp_shown s \<noteq> []"
  shows "ds_shown (fst (dial_in_band_pairing de st)) = pp_shown s \<and> ds_store (fst (dial_in_band_pairing de st)) = pp_store s \<and>
    (case snd (dial_in_band_pairing de st) of
       Inr r \<Rightarrow> pp_phase s = PairEnded (Inr r)
     | Inl er \<Rightarrow> (\<exists>er'. er = DialSession er' \<and> pp_phase s = PairEnded (Inl er')))"
proof -
  obtain r where r: "pp_phase s = PairEnded r" using run_session_ends assms(5) by blast
  have run: "run_session (e\<lparr>pe_role := InBandDialer\<rparr>, evs) \<lparr>ds_store = st, ds_shown = []\<rparr> =
      (\<lparr>ds_store = pp_store s, ds_shown = pp_shown s\<rparr>, r)"
    using r assms(5) by (simp add: run_session_def Let_def)
  have final: "\<not> legacy_fallback_allowed er" if "r = Inl er" for er
    using that unsupported_unasked [of _ st "evs @ [PairContextEnds]"] r assms(5,6)
    by (auto simp: legacy_fallback_allowed_def split: pair_error.splits)
  have port: "port \<noteq> legacy_pairing_port"
    if "(host, port) = (case nl_split_host_port (pe_net (de_own de)) (de_addr de) of Some hp \<Rightarrow> hp | None \<Rightarrow> (de_addr de, default_pairing_port))" for host port
    using that assms(4) by (auto simp: legacy_pairing_port_def default_pairing_port_def split: option.splits)
  obtain host port where hp: "(case nl_split_host_port (pe_net (de_own de)) (de_addr de) of Some hp \<Rightarrow> hp | None \<Rightarrow> (de_addr de, default_pairing_port)) = (host, port)"
    by fastforce
  with port [of host port] show ?thesis
    using assms(1-3) run final r
    by (cases r) (auto simp: dial_in_band_pairing_def Let_def split: option.splits)
qed

lemma demo_hello_events:
  "honest_side e i n other st \<Longrightarrow> honest_side e' other n' i' st' \<Longrightarrow> pe_pki e = pe_pki e' \<Longrightarrow>
     pp_shown (pair_run e st [FrameArrives (Object (hello_object e' other n')), PairContextEnds]) \<noteq> []"
  using stage_start [of e i n other st] stage_hello [of e i n other st e' n' i' st' _, OF _ _ _ refl]
  by (simp add: pair_run_def del: pair_step.simps(1)) (simp add: stage_def pair_fail_def pair_end_def Let_def)

definition demo_dial :: "(string \<Rightarrow> (pair_env \<times> pair_event list) option) \<Rightarrow> (pair_env \<times> pair_event list) option \<Rightarrow> dial_env" where
  "demo_dial legacy in_band = \<lparr>de_addr = ''127.0.0.1'', de_own = demo_pair_env InBandDialer (CHR ''a'') (CHR ''b''),
     de_in_band = in_band, de_legacy = legacy\<rparr>"

definition demo_hello :: pair_event where
  "demo_hello = FrameArrives (Object (hello_object (demo_pair_env Inbound (CHR ''b'') (CHR ''a'')) (machine (CHR ''b'')) ''b''))"

theorem in_band_prompt_is_final_witness:
  "length (ds_shown (fst (dial_in_band_pairing
     (demo_dial (\<lambda>_. Some (demo_pair_env LegacyDialer (CHR ''a'') (CHR ''b''), [demo_hello]))
        (Some (demo_pair_env InBandDialer (CHR ''a'') (CHR ''b''), [demo_hello]))) empty_store))) = 1"
proof -
  let ?e = "demo_pair_env InBandDialer (CHR ''a'') (CHR ''b'')"
  let ?de = "demo_dial (\<lambda>_. Some (demo_pair_env LegacyDialer (CHR ''a'') (CHR ''b''), [demo_hello])) (Some (?e, [demo_hello]))"
  let ?s = "pair_run (?e\<lparr>pe_role := InBandDialer\<rparr>) empty_store ([demo_hello] @ [PairContextEnds])"
  have e: "?e\<lparr>pe_role := InBandDialer\<rparr> = ?e" by (simp add: demo_pair_env_def)
  have pk: "pe_pki ?e = pe_pki (demo_pair_env Inbound (CHR ''b'') (CHR ''a''))" by (simp add: demo_pair_env_def)
  have shown: "pp_shown ?s \<noteq> []"
    using demo_hello_events [OF demo_honest demo_honest pk] unfolding e by (simp add: demo_hello_def)
  have inv: "pair_inv (?e\<lparr>pe_role := InBandDialer\<rparr>) empty_store ([demo_hello] @ [PairContextEnds]) ?s" by (rule pair_run_inv)
  have de: "de_in_band ?de = Some (?e, [demo_hello])" "pe_identity (de_own ?de) = Some (machine (CHR ''a''))"
    "pk_key_pair (pe_pki (de_own ?de)) (id_cert (machine (CHR ''a''))) (id_key (machine (CHR ''a'')))"
    "\<forall>h. nl_split_host_port (pe_net (de_own ?de)) (de_addr ?de) \<noteq> Some (h, legacy_pairing_port)"
    by (simp_all add: demo_dial_def demo_pair_env_def demo_tx_def demo_pki_def pair_demo_net_def)
  from in_band_prompt_is_final [OF de refl shown]
  have "ds_shown (fst (dial_in_band_pairing ?de empty_store)) = pp_shown ?s" by blast
  moreover have "length (pp_shown ?s) = 1"
    using stage_start [OF demo_honest] stage_hello [OF demo_honest demo_honest pk refl] unfolding e
    by (simp add: pair_run_def demo_hello_def del: pair_step.simps(1)) (simp add: stage_def pair_fail_def pair_end_def Let_def)
  ultimately show ?thesis by simp
qed

text \<open>
  Where the attempt does less well. When the in-band connection cannot be opened, a legacy session that
  failed after the user answered is followed by another one that asks again. And a legacy session that
  ends with a refusal, which is a result and no failure, still replaces the address of a peer that was
  trusted before.
\<close>

lemma asked_session:
  assumes "honest_side e i n other st" "honest_side e' other n' i' st'" "pe_pki e = pe_pki e'" "hello = FrameArrives (Object (hello_object e' other n'))"
  shows "length (pp_shown (pair_run e st [hello, UserAnswers True, PairContextEnds])) = 1 \<and>
      pp_phase (pair_run e st [hello, UserAnswers True, PairContextEnds]) = PairEnded (Inl PairReceive) \<and>
      pp_store (pair_run e st [hello, UserAnswers True, PairContextEnds]) = st"
    and "\<exists>sas. pp_phase (pair_run e st [hello, UserAnswers False, FrameArrives (Object (decision_envelope True)), PairContextEnds]) =
        PairEnded (Inr \<lparr>re_fingerprint = id_fingerprint other, re_peer_sas = sas, re_local_sas = sas, re_accepted = False\<rparr>) \<and>
      pp_store (pair_run e st [hello, UserAnswers False, FrameArrives (Object (decision_envelope True)), PairContextEnds]) = st"
proof -
  let ?h = "received_hello (legacy_role (pe_role e)) e' other n'"
  have one: "pair_step e (pair_start e st) hello = stage e i n ?h (id_fingerprint other) st 1"
    using stage_start [OF assms(1)] stage_hello [OF assms(1-3) refl] assms(4) by simp
  have two: "pair_step e (stage e i n ?h (id_fingerprint other) st 1) (UserAnswers True) = stage e i n ?h (id_fingerprint other) st 2"
    using stage_answer [OF assms(1), of _ _ 1] by simp
  show "length (pp_shown (pair_run e st [hello, UserAnswers True, PairContextEnds])) = 1 \<and>
      pp_phase (pair_run e st [hello, UserAnswers True, PairContextEnds]) = PairEnded (Inl PairReceive) \<and>
      pp_store (pair_run e st [hello, UserAnswers True, PairContextEnds]) = st"
    by (simp add: pair_run_def one two del: pair_step.simps One_nat_def) (simp add: stage_def pair_fail_def pair_end_def Let_def)
  have d: "read_decision l (Object (decision_envelope True)) = Inr True" for l
    by (simp add: read_decision_def decision_envelope_def unmarshal_pair_decision_def type_pair_decision_def)
  show "\<exists>sas. pp_phase (pair_run e st [hello, UserAnswers False, FrameArrives (Object (decision_envelope True)), PairContextEnds]) =
        PairEnded (Inr \<lparr>re_fingerprint = id_fingerprint other, re_peer_sas = sas, re_local_sas = sas, re_accepted = False\<rparr>) \<and>
      pp_store (pair_run e st [hello, UserAnswers False, FrameArrives (Object (decision_envelope True)), PairContextEnds]) = st"
    using assms(1)
    by (simp add: pair_run_def one del: pair_step.simps One_nat_def)
      (simp add: stage_def on_answer_def pair_send_def honest_side_def on_decision_def d pair_end_def Let_def)
qed

text \<open>The legacy session of the examples at an address, on any store.\<close>

lemma demo_legacy_asked:
  assumes "addr = ''127.0.0.1:9877'' \<or> addr = ''127.0.0.1:9878''" "st_peers (ds_store d) \<noteq> PeersUnreadable"
    "de_legacy de = (\<lambda>_. Some (demo_pair_env LegacyDialer (CHR ''a'') (CHR ''b''), [demo_hello, UserAnswers True]))"
  shows "\<exists>sas. legacy_attempt de addr d = (d\<lparr>ds_shown := ds_shown d @ [sas]\<rparr>, Inl PairReceive)"
proof -
  let ?e = "(demo_pair_env LegacyDialer (CHR ''a'') (CHR ''b''))\<lparr>pe_peer_addr := addr\<rparr>"
  have e: "(demo_pair_env LegacyDialer (CHR ''a'') (CHR ''b''))\<lparr>pe_role := LegacyDialer, pe_peer_addr := addr\<rparr> = ?e"
    by (simp add: demo_pair_env_def)
  have pk: "pe_pki ?e = pe_pki (demo_pair_env Inbound (CHR ''b'') (CHR ''a''))" by (simp add: demo_pair_env_def)
  from asked_session(1) [OF demo_honest_at [OF assms(1,2)] demo_honest pk demo_hello_def]
  obtain sas where "pp_shown (pair_run ?e (ds_store d) [demo_hello, UserAnswers True, PairContextEnds]) = [sas]"
    "pp_phase (pair_run ?e (ds_store d) [demo_hello, UserAnswers True, PairContextEnds]) = PairEnded (Inl PairReceive)"
    "pp_store (pair_run ?e (ds_store d) [demo_hello, UserAnswers True, PairContextEnds]) = ds_store d"
    by (auto simp: length_Suc_conv)
  then have "legacy_attempt de addr d = (d\<lparr>ds_shown := ds_shown d @ [sas]\<rparr>, Inl PairReceive)"
    using assms(3) by (simp add: legacy_attempt_def run_session_def e Let_def)
  then show ?thesis by blast
qed

lemma demo_own:
  "pe_identity (de_own (demo_dial l b)) = Some (machine (CHR ''a''))"
  "pk_key_pair (pe_pki (de_own (demo_dial l b))) x y"
  "nl_split_host_port (pe_net (de_own (demo_dial l b))) (de_addr (demo_dial l b)) = None"
  "de_addr (demo_dial l b) = ''127.0.0.1''" "de_in_band (demo_dial l b) = b" "de_legacy (demo_dial l b) = l"
  "pe_tx (de_own (demo_dial l b)) = (demo_tx 1)\<lparr>tx_net := pair_demo_net\<rparr>"
  "nl_split_host_port pair_demo_net ''127.0.0.1'' = None"
  by (simp_all add: demo_dial_def demo_pair_env_def demo_tx_def demo_pki_def pair_demo_net_def)

lemma demo_dial_addresses:
  "join_host_port ''127.0.0.1'' legacy_pairing_port = ''127.0.0.1:9878''" "default_pairing_port \<noteq> legacy_pairing_port"
  by code_simp+

lemma demo_dial_fallback:
  "dial_in_band_pairing (demo_dial l None) st =
     dial_fallback (demo_dial l None) ''127.0.0.1'' False ''127.0.0.1:9877'' DialFailed \<lparr>ds_store = st, ds_shown = []\<rparr>"
  using demo_own(2) [of l None "id_cert (machine (CHR ''a''))" "id_key (machine (CHR ''a''))"]
  by (simp add: dial_in_band_pairing_def demo_own demo_pair_address demo_dial_addresses Let_def)

lemma legacy_attempts_ask_twice:
  "length (ds_shown (fst (dial_in_band_pairing
     (demo_dial (\<lambda>_. Some (demo_pair_env LegacyDialer (CHR ''a'') (CHR ''b''), [demo_hello, UserAnswers True])) None) empty_store))) = 2"
proof -
  let ?de = "demo_dial (\<lambda>_. Some (demo_pair_env LegacyDialer (CHR ''a'') (CHR ''b''), [demo_hello, UserAnswers True])) None"
  let ?d = "\<lambda>ss. \<lparr>ds_store = empty_store, ds_shown = ss\<rparr>"
  have st: "st_peers (ds_store (?d ss)) \<noteq> PeersUnreadable" for ss by (simp add: empty_store_def)
  obtain s1 where 1: "legacy_attempt ?de ''127.0.0.1:9877'' (?d []) = (?d [s1], Inl PairReceive)"
    using demo_legacy_asked [where addr = "''127.0.0.1:9877''" and d = "?d []" and de = ?de, OF _ st demo_own(6)] by auto
  obtain s2 where 2: "legacy_attempt ?de ''127.0.0.1:9878'' (?d [s1]) = (?d [s1, s2], Inl PairReceive)"
    using demo_legacy_asked [where addr = "''127.0.0.1:9878''" and d = "?d [s1]" and de = ?de, OF _ st demo_own(6)] by auto
  show ?thesis
    by (simp add: demo_dial_fallback dial_fallback_def demo_dial_addresses 1 2)
qed

definition demo_trusting :: "string \<Rightarrow> store" where
  "demo_trusting addr = \<lparr>st_peers = PeersStored [(id_fingerprint (machine (CHR ''b'')),
     (demo_peer (id_fingerprint (machine (CHR ''b''))) ''box'')\<lparr>pr_address := addr\<rparr>)], st_active = ActiveAbsent\<rparr>"

lemma demo_readdressed:
  "map pr_address (list_peers ((demo_tx 1)\<lparr>tx_net := pair_demo_net\<rparr>)
     (readdress ((demo_tx 1)\<lparr>tx_net := pair_demo_net\<rparr>) (id_fingerprint (machine (CHR ''b''))) ''127.0.0.1:9877'' (demo_trusting ''10.0.0.7''))) =
   [''127.0.0.1:9877'']"
  by code_simp

lemma refused_pairing_moves_address:
  "let r = dial_in_band_pairing (demo_dial (\<lambda>_. Some (demo_pair_env LegacyDialer (CHR ''a'') (CHR ''b''),
       [demo_hello, UserAnswers False, FrameArrives (Object (decision_envelope True))])) None) (demo_trusting ''10.0.0.7'')
   in (case snd r of Inr res \<Rightarrow> \<not> re_accepted res | _ \<Rightarrow> False) \<and>
      map pr_address (list_peers ((demo_tx 1)\<lparr>tx_net := pair_demo_net\<rparr>) (ds_store (fst r))) = [''127.0.0.1:9877'']"
proof -
  let ?st = "demo_trusting ''10.0.0.7''"
  let ?evs = "[demo_hello, UserAnswers False, FrameArrives (Object (decision_envelope True))]"
  let ?e = "(demo_pair_env LegacyDialer (CHR ''a'') (CHR ''b''))\<lparr>pe_peer_addr := ''127.0.0.1:9877''\<rparr>"
  let ?de = "demo_dial (\<lambda>_. Some (demo_pair_env LegacyDialer (CHR ''a'') (CHR ''b''), ?evs)) None"
  have e: "(demo_pair_env LegacyDialer (CHR ''a'') (CHR ''b''))\<lparr>pe_role := LegacyDialer, pe_peer_addr := ''127.0.0.1:9877''\<rparr> = ?e"
    by (simp add: demo_pair_env_def)
  have st: "st_peers ?st \<noteq> PeersUnreadable" by (simp add: demo_trusting_def)
  have pk: "pe_pki ?e = pe_pki (demo_pair_env Inbound (CHR ''b'') (CHR ''a''))" by (simp add: demo_pair_env_def)
  obtain res where r: "pp_phase (pair_run ?e ?st (?evs @ [PairContextEnds])) = PairEnded (Inr res)"
    "pp_store (pair_run ?e ?st (?evs @ [PairContextEnds])) = ?st" "re_fingerprint res = id_fingerprint (machine (CHR ''b''))" "\<not> re_accepted res"
    using asked_session(2) [OF demo_honest_at [OF _ st] demo_honest pk demo_hello_def] by fastforce
  have "\<exists>ss. legacy_attempt ?de ''127.0.0.1:9877'' \<lparr>ds_store = ?st, ds_shown = []\<rparr> = (\<lparr>ds_store = ?st, ds_shown = ss\<rparr>, Inr res)"
    using r by (simp add: legacy_attempt_def run_session_def demo_own e Let_def)
  then obtain ss where a: "legacy_attempt ?de ''127.0.0.1:9877'' \<lparr>ds_store = ?st, ds_shown = []\<rparr> = (\<lparr>ds_store = ?st, ds_shown = ss\<rparr>, Inr res)"
    by blast
  show ?thesis
    using r(3,4) demo_readdressed
    by (simp add: demo_dial_fallback dial_fallback_def after_legacy_def demo_own demo_pair_address a Let_def)
qed

subsection \<open>Whom an attempt makes trusted\<close>

text \<open>The sessions an attempt can have.\<close>

definition session_in :: "dial_env \<Rightarrow> pair_env \<Rightarrow> pair_event list \<Rightarrow> bool" where
  "session_in de e evs \<longleftrightarrow>
     (\<exists>e0 evs0. de_in_band de = Some (e0, evs0) \<and> e = e0\<lparr>pe_role := InBandDialer\<rparr> \<and> evs = evs0 @ [PairContextEnds]) \<or>
     (\<exists>addr e0 evs0. de_legacy de addr = Some (e0, evs0) \<and> e = e0\<lparr>pe_role := LegacyDialer, pe_peer_addr := addr\<rparr> \<and>
        evs = evs0 @ [PairContextEnds])"

text \<open>All transactions use the same library and certificates.\<close>

definition dial_world :: "net_lib \<Rightarrow> pki \<Rightarrow> dial_env \<Rightarrow> bool" where
  "dial_world nl pk de \<longleftrightarrow> tx_net (pe_tx (de_own de)) = nl \<and> tx_pki (pe_tx (de_own de)) = pk \<and>
     (\<forall>e evs. session_in de e evs \<longrightarrow> tx_net (pe_tx e) = nl \<and> tx_pki (pe_tx e) = pk)"

definition newly_trusted :: "dial_env \<Rightarrow> string \<Rightarrow> bool" where
  "newly_trusted de fp \<longleftrightarrow> (\<exists>e evs st p h i n. session_in de e evs \<and>
     confirmed_pairing e evs (pair_run e st evs) p h i n \<and> fold_fingerprint (pr_fingerprint p) = fp)"

definition trust_grows_by :: "net_lib \<Rightarrow> pki \<Rightarrow> dial_env \<Rightarrow> store \<Rightarrow> store \<Rightarrow> bool" where
  "trust_grows_by nl pk de st st' \<longleftrightarrow> store_ok nl pk st' \<and> (\<forall>fp \<in> trusted st'. fp \<in> trusted st \<or> newly_trusted de fp)"

lemma grows_refl: "store_ok nl pk st \<Longrightarrow> trust_grows_by nl pk de st st"
  by (simp add: trust_grows_by_def)

lemma grows_trans: "trust_grows_by nl pk de st st' \<Longrightarrow> trust_grows_by nl pk de st' st'' \<Longrightarrow> trust_grows_by nl pk de st st''"
  by (auto simp: trust_grows_by_def)

lemma add_peer_grows:
  assumes "store_ok nl pk st" "tx_net t = nl" "tx_pki t = pk"
  shows "store_ok nl pk (fst (add_peer t p st)) \<and>
    (trusted (fst (add_peer t p st)) \<subseteq> insert (fold_fingerprint (pr_fingerprint p)) (trusted st))"
  using store_step_ok [of nl pk st "AddPeer t p"] store_step_trusted [of st "AddPeer t p"] assms
  by (auto simp: same_world_def)

lemma session_grows:
  assumes "dial_world nl pk de" "session_in de e evs" "store_ok nl pk st"
  shows "trust_grows_by nl pk de st (pp_store (pair_run e st evs))"
proof (cases "pp_added (pair_run e st evs) = []")
  case True
  with pair_run_inv [of e st evs] have "pp_store (pair_run e st evs) = st"
    using stored_well_none unfolding pair_inv_def by blast
  with assms(3) show ?thesis by (simp add: grows_refl)
next
  case False
  from stored_confirmed [OF this] obtain p h i n
    where p: "pp_store (pair_run e st evs) = fst (add_peer (pe_tx e) p st)" "confirmed_pairing e evs (pair_run e st evs) p h i n" by blast
  have "tx_net (pe_tx e) = nl" "tx_pki (pe_tx e) = pk" using assms(1,2) unfolding dial_world_def by blast+
  moreover have "newly_trusted de (fold_fingerprint (pr_fingerprint p))"
    using p(2) assms(2) unfolding newly_trusted_def by blast
  ultimately show ?thesis using add_peer_grows [OF assms(3), of "pe_tx e" p] p(1) by (auto simp: trust_grows_by_def)
qed

lemma run_session_grows:
  assumes "dial_world nl pk de" "session_in de e (evs @ [PairContextEnds])" "store_ok nl pk (ds_store d)" "run_session (e, evs) d = (d', r)"
  shows "trust_grows_by nl pk de (ds_store d) (ds_store d')"
  using session_grows [OF assms(1-3)] assms(4) by (auto simp: run_session_def Let_def)

lemma legacy_attempt_grows:
  assumes "dial_world nl pk de" "store_ok nl pk (ds_store d)" "legacy_attempt de addr d = (d', r)"
  shows "trust_grows_by nl pk de (ds_store d) (ds_store d')"
proof (cases "de_legacy de addr")
  case None
  with assms grows_refl show ?thesis by (auto simp: legacy_attempt_def)
next
  case (Some x)
  obtain e evs where x: "x = (e, evs)" by fastforce
  then have "session_in de (e\<lparr>pe_role := LegacyDialer, pe_peer_addr := addr\<rparr>) (evs @ [PairContextEnds])"
    using Some by (auto simp: session_in_def)
  from run_session_grows [OF assms(1) this assms(2)] assms(3) Some x show ?thesis by (simp add: legacy_attempt_def)
qed

lemma list_peers_ok:
  assumes "store_ok nl pk s" "p \<in> set (list_peers t s)"
  shows "pr_fingerprint p \<in> trusted s \<and> fold_fingerprint (pr_fingerprint p) = pr_fingerprint p"
proof -
  obtain m where m: "load_peers_map t s = Inr m" "p \<in> snd ` set m"
    using assms(2) by (cases "load_peers_map t s") (simp_all add: list_peers_def)
  then have "peers_ok nl pk m"
    using assms(1) by (auto simp: load_peers_map_def store_ok_def peers_ok_def split: if_splits peers_file.splits)
  with m(2) have "fold_fingerprint (pr_fingerprint p) = pr_fingerprint p" by (auto simp: peers_ok_def list_all_iff peer_ok_def)
  with list_peers_trusted [OF assms] show ?thesis by simp
qed

lemma readdress_grows:
  assumes "store_ok nl pk st" "tx_net t = nl" "tx_pki t = pk"
  shows "trust_grows_by nl pk de st (readdress t fp addr st)"
proof (cases "first_peer (\<lambda>p. pr_fingerprint p = fp) (list_peers t st)")
  case None
  with assms(1) show ?thesis by (simp add: readdress_def grows_refl)
next
  case (Some p)
  then have "p \<in> set (list_peers t st)" using first_peer_some by blast
  from list_peers_ok [OF assms(1) this] add_peer_grows [OF assms, of "p\<lparr>pr_address := addr\<rparr>"] Some
  show ?thesis by (auto simp: readdress_def trust_grows_by_def)
qed

lemma after_legacy_grows:
  assumes "dial_world nl pk de" "trust_grows_by nl pk de st (ds_store d)" "after_legacy de addr d r = (d', r')"
  shows "trust_grows_by nl pk de st (ds_store d')"
proof -
  have "store_ok nl pk (ds_store d)" "tx_net (pe_tx (de_own de)) = nl" "tx_pki (pe_tx (de_own de)) = pk"
    using assms(1,2) by (simp_all add: dial_world_def trust_grows_by_def)
  from readdress_grows [OF this] have "trust_grows_by nl pk de (ds_store d) (ds_store d')"
    using assms(3) by (auto simp: after_legacy_def)
  with assms(2) grows_trans show ?thesis by blast
qed

lemma dial_fallback_grows:
  assumes w: "dial_world nl pk de" and g: "trust_grows_by nl pk de st (ds_store d)"
    and f: "dial_fallback de host explicit addr er0 d = (d', r)"
  shows "trust_grows_by nl pk de st (ds_store d')"
proof -
  obtain d1 r1 where 1: "legacy_attempt de addr d = (d1, r1)" by fastforce
  have ok: "store_ok nl pk (ds_store d)" using g by (simp add: trust_grows_by_def)
  have g1: "trust_grows_by nl pk de st (ds_store d1)" using legacy_attempt_grows [OF w ok 1] g grows_trans by blast
  then have ok1: "store_ok nl pk (ds_store d1)" by (simp add: trust_grows_by_def)
  obtain d2 r2 where 2: "legacy_attempt de (join_host_port host legacy_pairing_port) d1 = (d2, r2)" by fastforce
  have g2: "trust_grows_by nl pk de st (ds_store d2)" using legacy_attempt_grows [OF w ok1 2] g1 grows_trans by blast
  show ?thesis using f 1 2 g1 g2 after_legacy_grows [OF w g1] after_legacy_grows [OF w g2]
    by (cases r1; cases r2) (auto simp: dial_fallback_def split: if_splits)
qed

lemma dial_eq:
  assumes "pe_identity (de_own de) = Some i" "pk_key_pair (pe_pki (de_own de)) (id_cert i) (id_key i)"
    and "(case nl_split_host_port (pe_net (de_own de)) (de_addr de) of Some hp \<Rightarrow> hp | None \<Rightarrow> (de_addr de, default_pairing_port)) = (host, port)"
    and "explicit = (nl_split_host_port (pe_net (de_own de)) (de_addr de) \<noteq> None)" "d = \<lparr>ds_store = st, ds_shown = []\<rparr>"
  shows "dial_in_band_pairing de st =
    (if port = legacy_pairing_port then
       (case legacy_attempt de (join_host_port host port) d of
          (d1, Inr r) \<Rightarrow> after_legacy de (join_host_port host default_pairing_port) d1 r
        | (d1, Inl er) \<Rightarrow> (d1, Inl (DialSession er)))
     else (case de_in_band de of
       None \<Rightarrow> dial_fallback de host explicit (join_host_port host port) DialFailed d
     | Some (e, evs) \<Rightarrow>
         (case run_session (e\<lparr>pe_role := InBandDialer\<rparr>, evs) d of
           (d1, Inr r) \<Rightarrow> (d1, Inr r)
         | (d1, Inl er) \<Rightarrow>
             if legacy_fallback_allowed er then dial_fallback de host explicit (join_host_port host port) (DialSession er) d1
             else (d1, Inl (DialSession er)))))"
  unfolding dial_in_band_pairing_def Let_def assms(1) option.case assms(3) prod.case assms(4,5)
  using assms(2) by (simp only: not_not if_False simp_thms)

text \<open>
  Dialling a peer makes a machine trusted only through a session that its user confirmed. Whatever
  the in-band and the legacy sessions of an attempt meet, and whichever of them take place, a
  fingerprint that is trusted afterwards was trusted before, or is the one of a certificate whose
  code was shown and accepted in a session of this attempt; and the store stays well formed.\<close>

theorem dialling_trusts_confirmed:
  assumes "dial_world nl pk de" "store_ok nl pk st" "dial_in_band_pairing de st = (d, r)"
  shows "store_ok nl pk (ds_store d) \<and> (\<forall>fp \<in> trusted (ds_store d). fp \<in> trusted st \<or> newly_trusted de fp)"
proof -
  let ?d = "\<lparr>ds_store = st, ds_shown = []\<rparr>"
  have g: "trust_grows_by nl pk de st (ds_store ?d)" using assms(2) by (simp add: grows_refl)
  have legacy: "trust_grows_by nl pk de st (ds_store d')" if "legacy_attempt de addr ?d = (d', r')" for addr d' r'
    using legacy_attempt_grows [OF assms(1) _ that] assms(2) by simp
  have inband: "trust_grows_by nl pk de st (ds_store d')"
    if "de_in_band de = Some (e, evs)" "run_session (e\<lparr>pe_role := InBandDialer\<rparr>, evs) ?d = (d', r')" for e evs d' r'
    using run_session_grows [OF assms(1) _ _ that(2)] that(1) assms(2) by (simp add: session_in_def)
  obtain host port where hp: "(case nl_split_host_port (pe_net (de_own de)) (de_addr de) of Some hp \<Rightarrow> hp | None \<Rightarrow> (de_addr de, default_pairing_port)) = (host, port)"
    by fastforce
  have "trust_grows_by nl pk de st (ds_store d)"
  proof (cases "\<exists>i. pe_identity (de_own de) = Some i \<and> pk_key_pair (pe_pki (de_own de)) (id_cert i) (id_key i)")
    case False
    with assms(3) g show ?thesis by (auto simp: dial_in_band_pairing_def Let_def split: option.splits if_splits)
  next
    case True
    then obtain i where i: "pe_identity (de_own de) = Some i" "pk_key_pair (pe_pki (de_own de)) (id_cert i) (id_key i)" by blast
    note run = assms(3) [unfolded dial_eq [OF i hp refl refl]]
    show ?thesis
    proof (cases "port = legacy_pairing_port")
      case True
      obtain d1 r1 where 1: "legacy_attempt de (join_host_port host port) ?d = (d1, r1)" by fastforce
      show ?thesis using run True 1 legacy [OF 1] after_legacy_grows [OF assms(1) legacy [OF 1]] by (cases r1) auto
    next
      case False
      show ?thesis
      proof (cases "de_in_band de")
        case None
        with run False dial_fallback_grows [OF assms(1) g] show ?thesis by simp
      next
        case (Some x)
        obtain e evs where x: "x = (e, evs)" by fastforce
        obtain d1 r1 where 1: "run_session (e\<lparr>pe_role := InBandDialer\<rparr>, evs) ?d = (d1, r1)" by fastforce
        note g1 = inband [OF Some [unfolded x] 1]
        show ?thesis using run False Some x 1 g1 dial_fallback_grows [OF assms(1) g1] by (cases r1) (auto split: if_splits)
      qed
    qed
  qed
  then show ?thesis by (simp add: trust_grows_by_def)
qed

theorem dialling_trusts_confirmed_witness:
  "store_ok pair_demo_net demo_pki (ds_store (fst (dial_in_band_pairing
     (demo_dial (\<lambda>_. None) (Some (demo_pair_env InBandDialer (CHR ''a'') (CHR ''b''), demo_dialer_events))) empty_store)))"
proof -
  let ?de = "demo_dial (\<lambda>_. None) (Some (demo_pair_env InBandDialer (CHR ''a'') (CHR ''b''), demo_dialer_events))"
  have w: "dial_world pair_demo_net demo_pki ?de"
    by (auto simp: dial_world_def session_in_def demo_dial_def demo_pair_env_def demo_tx_def)
  have "store_ok pair_demo_net demo_pki empty_store" by (simp add: store_ok_def empty_store_def)
  from dialling_trusts_confirmed [OF w this, of "fst (dial_in_band_pairing ?de empty_store)" "snd (dial_in_band_pairing ?de empty_store)"]
  show ?thesis by simp
qed

end
