(* ===== verification/Peer_Health.thy ===== *)
theory Peer_Health
  imports Peer_Store
begin

text \<open>
  The proactive heartbeat of the hub (internal/hub/peer_health.go): which peers are probed and when, the
  backoff of a peer that does not answer, and what the hub believes about the reachability of a peer.
  Durations and times are nanoseconds; products and shifts of durations wrap as int64 does.
\<close>

section \<open>Health and schedule of a peer\<close>

definition peer_heartbeat_interval :: int where "peer_heartbeat_interval = 60000000000"
definition peer_heartbeat_max_backoff :: int where "peer_heartbeat_max_backoff = 900000000000"
definition peer_heartbeat_max_probes_per_interval :: int where "peer_heartbeat_max_probes_per_interval = 6"
definition peer_heartbeat_max_concurrent :: nat where "peer_heartbeat_max_concurrent = 8"

record peer_health =
  hl_reachable :: bool
  hl_last_checked :: go_time
  hl_last_ok :: go_time
  hl_failures :: int

definition no_health :: peer_health where
  "no_health = \<lparr>hl_reachable = False, hl_last_checked = 0, hl_last_ok = 0, hl_failures = 0\<rparr>"

definition health_failed :: "go_time \<Rightarrow> peer_health \<Rightarrow> peer_health" where
  "health_failed now h = h\<lparr>hl_reachable := False, hl_last_checked := now, hl_failures := hl_failures h + 1\<rparr>"

definition health_succeeded :: "go_time \<Rightarrow> peer_health \<Rightarrow> peer_health" where
  "health_succeeded now h = h\<lparr>hl_reachable := True, hl_last_checked := now, hl_last_ok := now, hl_failures := 0\<rparr>"

record peer_probe =
  pb_next :: go_time
  pb_interval :: int
  pb_failures :: nat

definition heartbeat_max_backoff_for :: "int \<Rightarrow> int" where
  "heartbeat_max_backoff_for base =
     (let scaled = i64 (base * 16)
      in if scaled < peer_heartbeat_max_backoff then scaled else peer_heartbeat_max_backoff)"

definition schedule_probe_next :: "bool \<Rightarrow> go_time \<Rightarrow> int \<Rightarrow> peer_probe \<Rightarrow> peer_probe" where
  "schedule_probe_next ok now base p =
     (let p1 =
        (if ok then p\<lparr>pb_failures := 0, pb_interval := base\<rparr>
         else
           let failures = pb_failures p + 1;
               interval = i64 (base * 2 ^ (failures - 1));
               cap = heartbeat_max_backoff_for base
           in p\<lparr>pb_failures := failures, pb_interval := (if interval > cap then cap else interval)\<rparr>)
      in p1\<lparr>pb_next := now + pb_interval p1\<rparr>)"

definition heartbeat_interval_for_peers :: "int \<Rightarrow> int \<Rightarrow> int" where
  "heartbeat_interval_for_peers base peers =
     (if peers \<le> peer_heartbeat_max_probes_per_interval then base
      else
        let rounds = go_div (peers + peer_heartbeat_max_probes_per_interval - 1) peer_heartbeat_max_probes_per_interval
        in i64 (base * rounds))"

definition heartbeat_interval_for :: "int \<Rightarrow> int" where
  "heartbeat_interval_for configured = (if configured > 0 then configured else peer_heartbeat_interval)"

section \<open>The heartbeat\<close>

text \<open>
  The schedule, the beliefs (\<open>Hub.peerHealth\<close>), and the probes in flight, each with the interval it
  will be scheduled with and the time it began.
\<close>

record heartbeat =
  hb_probes :: "(string \<times> peer_probe) list"
  hb_health :: "(string \<times> peer_health) list"
  hb_flight :: "(string \<times> int \<times> go_time) list"

definition health_for :: "string \<Rightarrow> (string \<times> peer_health) list \<Rightarrow> peer_health" where
  "health_for fp m = (case map_of m (fold_fingerprint fp) of Some h \<Rightarrow> h | None \<Rightarrow> no_health)"

definition set_peer_health :: "string \<Rightarrow> peer_health \<Rightarrow> (string \<times> peer_health) list \<Rightarrow> (string \<times> peer_health) list" where
  "set_peer_health fp h m =
     (if hl_last_checked h = 0 then AList.delete (fold_fingerprint fp) m else AList.update (fold_fingerprint fp) h m)"

text \<open>\<open>syncProbes\<close>, for the fingerprints of the peers the store lists.\<close>

fun index_of :: "string \<Rightarrow> string list \<Rightarrow> nat" where
  "index_of x [] = 0"
| "index_of x (y # ys) = (if x = y then 0 else Suc (index_of x ys))"

definition probe_offset :: "int \<Rightarrow> string list \<Rightarrow> string \<Rightarrow> int" where
  "probe_offset interval listed fp =
     (if 1 < length listed then go_div (i64 (int (index_of fp listed) * interval)) (int (length listed)) else 0)"

definition add_probe :: "go_time \<Rightarrow> int \<Rightarrow> string list \<Rightarrow> string \<Rightarrow> (string \<times> peer_probe) list \<Rightarrow> (string \<times> peer_probe) list" where
  "add_probe now interval listed fp m =
     (if map_of m fp \<noteq> None then m
      else m @ [(fp, \<lparr>pb_next = now + probe_offset interval listed fp, pb_interval = interval, pb_failures = 0\<rparr>)])"

definition sync_probes :: "go_time \<Rightarrow> int \<Rightarrow> string list \<Rightarrow> heartbeat \<Rightarrow> heartbeat" where
  "sync_probes now interval listed s =
     (let added = fold (add_probe now interval listed) listed (hb_probes s);
          dropped = filter (\<lambda>k. k \<notin> set listed) (map fst added)
      in s\<lparr>hb_probes := filter (\<lambda>(k, _). k \<in> set listed) added,
           hb_health := fold (\<lambda>k. set_peer_health k no_health) dropped (hb_health s)\<rparr>)"

text \<open>
  Taking the due probes: the map is walked in any order, and each due key takes a slot while one is
  free; then each is started unless the hub is stopping. \<open>tk_rank\<close> is the order of the walk.
\<close>

record tick =
  tk_now :: go_time
  tk_listening :: bool
  tk_lan :: bool
  tk_listed :: "string list option"
  tk_rank :: "string \<Rightarrow> nat"
  tk_stopping :: bool

definition due_probes :: "tick \<Rightarrow> heartbeat \<Rightarrow> string list" where
  "due_probes t s =
     (let due = map fst (filter (\<lambda>(k, p). \<not> tk_now t < pb_next p) (sort_key (\<lambda>(k, p). tk_rank t k) (hb_probes s)))
      in take (peer_heartbeat_max_concurrent - length (hb_flight s)) due)"

definition start_probes :: "tick \<Rightarrow> int \<Rightarrow> string list \<Rightarrow> heartbeat \<Rightarrow> heartbeat" where
  "start_probes t base due s =
     (if tk_stopping t then s else s\<lparr>hb_flight := hb_flight s @ map (\<lambda>k. (k, base, tk_now t)) due\<rparr>)"

definition on_tick :: "int \<Rightarrow> tick \<Rightarrow> heartbeat \<Rightarrow> heartbeat" where
  "on_tick interval t s =
     (if \<not> tk_listening t \<or> \<not> tk_lan t then s
      else
        let s1 = (case tk_listed t of Some listed \<Rightarrow> sync_probes (tk_now t) interval listed s | None \<Rightarrow> s);
            base = heartbeat_interval_for_peers interval (int (length (hb_probes s1)))
        in start_probes t base (due_probes t s1) s1)"

text \<open>
  The end of the probe at a position of the flight: its verdict is recorded, with the time it began,
  and the next one scheduled, only while its peer is still on the schedule.
\<close>

definition on_finish :: "nat \<Rightarrow> bool \<Rightarrow> go_time \<Rightarrow> heartbeat \<Rightarrow> heartbeat" where
  "on_finish i answered finished s =
     (if length (hb_flight s) \<le> i then s
      else (case hb_flight s ! i of (k, base, began) \<Rightarrow>
        let s1 = s\<lparr>hb_flight := take i (hb_flight s) @ drop (Suc i) (hb_flight s)\<rparr>;
            h = health_for k (hb_health s);
            verdict = (if answered then health_succeeded began h else health_failed began h)
        in (case map_of (hb_probes s) k of
              None \<Rightarrow> s1
            | Some p \<Rightarrow> s1\<lparr>hb_health := set_peer_health k verdict (hb_health s),
                hb_probes := AList.update k (schedule_probe_next answered finished base p) (hb_probes s)\<rparr>)))"

datatype heartbeat_event = Tick tick | ProbeEnds nat bool go_time

fun heartbeat_step :: "int \<Rightarrow> heartbeat \<Rightarrow> heartbeat_event \<Rightarrow> heartbeat" where
  "heartbeat_step interval s (Tick t) = on_tick interval t s"
| "heartbeat_step interval s (ProbeEnds i answered finished) = on_finish i answered finished s"

definition no_heartbeat :: heartbeat where
  "no_heartbeat = \<lparr>hb_probes = [], hb_health = [], hb_flight = []\<rparr>"

section \<open>The backoff ladder\<close>

lemma i64_small: "0 \<le> x \<Longrightarrow> x < 2 ^ 63 \<Longrightarrow> i64 x = x"
  by (simp add: i64_id)

text \<open>
  A peer that does not answer is probed ever less often, up to a ceiling. While the doubled interval
  fits 63 bits, the next probe after the n-th failure in a row comes after the base interval times
  2^(n-1), or after the ceiling - sixteen base intervals or fifteen minutes, whichever is less - if
  that is shorter; it is later than the failure; and an answer brings back the base interval.\<close>

theorem backoff_ladder:
  assumes "0 < base" "base * 16 < 2 ^ 63" "base * 2 ^ pb_failures p < 2 ^ 63"
  shows "pb_interval (schedule_probe_next False now base p) =
      min (base * 2 ^ pb_failures p) (min (base * 16) peer_heartbeat_max_backoff) \<and>
    now < pb_next (schedule_probe_next False now base p) \<and>
    pb_next (schedule_probe_next False now base p) \<le> now + peer_heartbeat_max_backoff \<and>
    pb_failures (schedule_probe_next False now base p) = pb_failures p + 1 \<and>
    pb_interval (schedule_probe_next True now base p) = base \<and> pb_failures (schedule_probe_next True now base p) = 0"
proof -
  define v w where "v = base * 2 ^ pb_failures p" and "w = base * 16"
  have vw: "0 < v" "v < 2 ^ 63" "0 < w" "w < 2 ^ 63" using assms by (simp_all add: v_def w_def)
  then have "i64 v = v" "i64 w = w" by (simp_all add: i64_small)
  with vw show ?thesis unfolding v_def [symmetric] w_def [symmetric]
    by (auto simp: schedule_probe_next_def heartbeat_max_backoff_for_def peer_heartbeat_max_backoff_def Let_def min_def
        v_def [symmetric] w_def [symmetric])
qed

theorem backoff_ladder_witness:
  "pb_next (schedule_probe_next False 7 peer_heartbeat_interval \<lparr>pb_next = 0, pb_interval = 0, pb_failures = 2\<rparr>) \<le>
     7 + peer_heartbeat_max_backoff \<and>
   pb_interval (schedule_probe_next False 7 peer_heartbeat_interval \<lparr>pb_next = 0, pb_interval = 0, pb_failures = 2\<rparr>) = 240000000000"
  using backoff_ladder [of peer_heartbeat_interval "\<lparr>pb_next = 0, pb_interval = 0, pb_failures = 2\<rparr>" 7]
  by (simp add: peer_heartbeat_interval_def peer_heartbeat_max_backoff_def)

text \<open>
  Past that the ladder breaks: after the 29th failure in a row the shifted interval is negative, and
  after the 54th it is zero, so the peer is due again at every tick.
\<close>

lemma backoff_wraps:
  "pb_next (schedule_probe_next False now peer_heartbeat_interval \<lparr>pb_next = 0, pb_interval = 0, pb_failures = 28\<rparr>) < now"
  "pb_next (schedule_probe_next False now peer_heartbeat_interval \<lparr>pb_next = 0, pb_interval = 0, pb_failures = 53\<rparr>) = now"
  by (simp_all add: schedule_probe_next_def heartbeat_max_backoff_for_def peer_heartbeat_max_backoff_def
      peer_heartbeat_interval_def i64_def Let_def)

text \<open>The aggregate rate: over the per-peer interval, never more than six probes per base interval.\<close>

lemma aggregate_rate:
  assumes "0 < base" "0 \<le> peers" "base * (peers + 5) < 2 ^ 63"
  shows "peers * base \<le> peer_heartbeat_max_probes_per_interval * heartbeat_interval_for_peers base peers"
proof (cases "peers \<le> 6")
  case True
  then show ?thesis using assms(1)
    by (simp add: heartbeat_interval_for_peers_def peer_heartbeat_max_probes_per_interval_def)
next
  case False
  let ?r = "(peers + 5) div 6"
  have r: "peers \<le> 6 * ?r" "?r \<le> peers + 5" using False by presburger+
  have "go_div (peers + 6 - 1) 6 = ?r" using False by (simp add: go_div_def)
  moreover have "i64 (base * ?r) = base * ?r"
  proof (rule i64_small)
    show "0 \<le> base * ?r" using assms False by simp
    have "base * ?r \<le> base * (peers + 5)" using r(2) assms(1) by simp
    then show "base * ?r < 2 ^ 63" using assms(3) by linarith
  qed
  moreover have "peers * base \<le> 6 * (base * ?r)"
    using mult_right_mono [OF r(1), of base] assms(1) by (simp add: algebra_simps)
  ultimately show ?thesis using False
    by (simp add: heartbeat_interval_for_peers_def peer_heartbeat_max_probes_per_interval_def Let_def)
qed

section \<open>Runs of the heartbeat\<close>

text \<open>
  Never more probes in flight than slots, one schedule entry per peer, and beliefs only about peers on
  the schedule - in the folded form in which a well-formed store lists them.
\<close>

definition heartbeat_ok :: "heartbeat \<Rightarrow> bool" where
  "heartbeat_ok s \<longleftrightarrow>
     length (hb_flight s) \<le> peer_heartbeat_max_concurrent \<and> keys_distinct (hb_probes s) \<and> keys_distinct (hb_health s) \<and>
     list_all (\<lambda>(k, p). fold_fingerprint k = k) (hb_probes s) \<and>
     fst ` set (hb_health s) \<subseteq> fst ` set (hb_probes s)"

definition lists_folded :: "heartbeat_event \<Rightarrow> bool" where
  "lists_folded ev \<longleftrightarrow>
     (case ev of Tick t \<Rightarrow> (case tk_listed t of Some l \<Rightarrow> list_all (\<lambda>k. fold_fingerprint k = k) l | None \<Rightarrow> True) | _ \<Rightarrow> True)"

lemma add_probe_keys: "fst ` set (add_probe now interval listed fp m) = insert fp (fst ` set m)"
  by (cases "map_of m fp") (auto simp: add_probe_def map_of_eq_None_iff key_lookup insert_absorb)

lemma add_probe_distinct: "keys_distinct m \<Longrightarrow> keys_distinct (add_probe now interval listed fp m)"
  by (auto simp: add_probe_def map_of_eq_None_iff)

lemma added_probes:
  "keys_distinct m \<Longrightarrow> keys_distinct (fold (add_probe now interval listed) fps m) \<and>
     fst ` set (fold (add_probe now interval listed) fps m) = set fps \<union> fst ` set m"
  by (induction fps arbitrary: m) (auto simp: add_probe_keys add_probe_distinct)

lemma cleared_health:
  assumes "keys_distinct m" "list_all (\<lambda>k. fold_fingerprint k = k) ks"
  shows "keys_distinct (fold (\<lambda>k. set_peer_health k no_health) ks m) \<and>
    fst ` set (fold (\<lambda>k. set_peer_health k no_health) ks m) = fst ` set m - set ks"
  using assms
proof (induction ks arbitrary: m)
  case (Cons k ks)
  have d: "set_peer_health k no_health m = AList.delete k m"
    using Cons.prems(2) by (simp add: set_peer_health_def no_health_def)
  have "keys_distinct (AList.delete k m)" using Cons.prems(1) by (simp add: distinct_delete)
  with Cons.IH [of "AList.delete k m"] Cons.prems(2) d show ?case by (auto simp: AList.delete_eq)
qed simp

lemma sync_probes_ok:
  assumes "heartbeat_ok s" "list_all (\<lambda>k. fold_fingerprint k = k) listed"
  shows "heartbeat_ok (sync_probes now interval listed s) \<and>
    fst ` set (hb_probes (sync_probes now interval listed s)) = set listed"
proof -
  let ?a = "fold (add_probe now interval listed) listed (hb_probes s)"
  let ?d = "filter (\<lambda>k. k \<notin> set listed) (map fst ?a)"
  have a: "keys_distinct ?a" "fst ` set ?a = set listed \<union> fst ` set (hb_probes s)"
    using added_probes [of "hb_probes s"] assms(1) by (simp_all add: heartbeat_ok_def)
  then have folded: "\<forall>k \<in> fst ` set ?a. fold_fingerprint k = k" using assms by (auto simp: heartbeat_ok_def list_all_iff)
  have "fst ` set (filter (\<lambda>(k, _). k \<in> set listed) ?a) = set listed" using a(2) by force
  moreover have "keys_distinct (filter (\<lambda>(k, _). k \<in> set listed) ?a)"
    using a(1) by (induction ?a rule: rev_induct) (auto simp: distinct_map_filter intro: distinct_map_filter)
  moreover have "list_all (\<lambda>k. fold_fingerprint k = k) ?d" unfolding list_all_iff set_filter set_map using folded by blast
  note cleared_health [OF _ this, of "hb_health s"]
  ultimately show ?thesis
    using assms a folded by (auto simp: sync_probes_def heartbeat_ok_def Let_def list_all_iff)
qed

lemma start_probes_ok: "heartbeat_ok s \<Longrightarrow> heartbeat_ok (start_probes t base (due_probes t s) s)"
  by (auto simp: start_probes_def heartbeat_ok_def due_probes_def Let_def)

lemma set_peer_health_keys:
  assumes "keys_distinct m"
  shows "keys_distinct (set_peer_health fp h m) \<and> fst ` set (set_peer_health fp h m) \<subseteq> insert (fold_fingerprint fp) (fst ` set m)"
proof -
  have "keys_distinct (AList.delete k m)" for k using assms by (simp add: distinct_delete)
  moreover have "fst ` set (AList.delete k m) \<subseteq> fst ` set m" for k by (auto simp: AList.delete_eq)
  ultimately show ?thesis using assms by (auto simp: set_peer_health_def distinct_update keys_update)
qed

lemma finish_ok:
  assumes "heartbeat_ok s"
  shows "heartbeat_ok (on_finish i answered finished s)"
proof (cases "length (hb_flight s) \<le> i")
  case False
  obtain k base began where f: "hb_flight s ! i = (k, base, began)" by (cases "hb_flight s ! i") auto
  let ?s1 = "s\<lparr>hb_flight := take i (hb_flight s) @ drop (Suc i) (hb_flight s)\<rparr>"
  have s1: "heartbeat_ok ?s1" using assms False by (auto simp: heartbeat_ok_def)
  show ?thesis
  proof (cases "map_of (hb_probes s) k")
    case None
    with False f s1 show ?thesis by (simp add: on_finish_def Let_def)
  next
    case (Some p)
    have k: "k \<in> fst ` set (hb_probes s)" using key_lookup [OF Some] .
    then have fk: "fold_fingerprint k = k" using assms by (auto simp: heartbeat_ok_def list_all_iff)
    let ?h = "health_for k (hb_health s)"
    let ?v = "if answered then health_succeeded began ?h else health_failed began ?h"
    have h: "keys_distinct (set_peer_health k ?v (hb_health s))"
      "fst ` set (set_peer_health k ?v (hb_health s)) \<subseteq> insert k (fst ` set (hb_health s))"
      using assms fk set_peer_health_keys [of "hb_health s" k] by (simp_all add: heartbeat_ok_def)
    have p: "keys_distinct (AList.update k q (hb_probes s))" "fst ` set (AList.update k q (hb_probes s)) = fst ` set (hb_probes s)"
      "list_all (\<lambda>(k, p). fold_fingerprint k = k) (AList.update k q (hb_probes s))" for q
    proof -
      show "keys_distinct (AList.update k q (hb_probes s))" using assms by (simp add: heartbeat_ok_def distinct_update)
      show d: "fst ` set (AList.update k q (hb_probes s)) = fst ` set (hb_probes s)" using k by (simp only: keys_update insert_absorb)
      have "\<forall>k \<in> fst ` set (hb_probes s). fold_fingerprint k = k" using assms by (auto simp: heartbeat_ok_def list_all_iff)
      then have "\<forall>k' \<in> fst ` set (AList.update k q (hb_probes s)). fold_fingerprint k' = k'" unfolding d .
      then show "list_all (\<lambda>(k, p). fold_fingerprint k = k) (AList.update k q (hb_probes s))" by (auto simp: list_all_iff)
    qed
    have "fst ` set (hb_health s) \<subseteq> fst ` set (hb_probes s)" using assms by (simp add: heartbeat_ok_def)
    with h(2) k have "fst ` set (set_peer_health k ?v (hb_health s)) \<subseteq> fst ` set (hb_probes s)" by blast
    with h(1) p s1 False f Some show ?thesis by (simp add: on_finish_def heartbeat_ok_def Let_def)
  qed
qed (use assms in \<open>simp add: on_finish_def\<close>)

lemma heartbeat_step_ok:
  assumes "heartbeat_ok s" "lists_folded ev"
  shows "heartbeat_ok (heartbeat_step interval s ev)"
proof (cases ev)
  case (Tick t)
  have "heartbeat_ok (case tk_listed t of Some listed \<Rightarrow> sync_probes (tk_now t) interval listed s | None \<Rightarrow> s)"
    using sync_probes_ok [OF assms(1)] assms Tick by (auto simp: lists_folded_def split: option.splits)
  from start_probes_ok [OF this] assms(1) Tick show ?thesis by (auto simp: on_tick_def Let_def)
qed (use assms(1) finish_ok in simp)

interpretation heartbeat_runs: guarded_stepper "heartbeat_step interval" lists_folded heartbeat_ok for interval
  by unfold_locales (rule heartbeat_step_ok)

lemma start_probes_sel [simp]:
  "hb_probes (start_probes t base due s) = hb_probes s" "hb_health (start_probes t base due s) = hb_health s"
  by (simp_all add: start_probes_def)

lemma finish_probes: "fst ` set (hb_probes (on_finish i answered finished s)) = fst ` set (hb_probes s)"
proof (cases "length (hb_flight s) \<le> i")
  case False
  obtain k base began where f: "hb_flight s ! i = (k, base, began)" by (cases "hb_flight s ! i") auto
  show ?thesis
  proof (cases "map_of (hb_probes s) k")
    case (Some p)
    have "k \<in> fst ` set (hb_probes s)" using key_lookup [OF Some] .
    with False f Some show ?thesis by (simp add: on_finish_def Let_def keys_update insert_absorb)
  qed (use False f in \<open>simp add: on_finish_def Let_def\<close>)
qed (simp add: on_finish_def)

lemma finishes_probes:
  "list_all (\<lambda>ev. case ev of ProbeEnds i a f \<Rightarrow> True | _ \<Rightarrow> False) evs \<Longrightarrow>
     fst ` set (hb_probes (foldl (heartbeat_step interval) s evs)) = fst ` set (hb_probes s)"
  by (induction evs arbitrary: s) (auto simp: finish_probes split: heartbeat_event.splits)

text \<open>
  The hub holds beliefs only about machines it trusts, and never has more than eight probes under
  way. Over every run of ticks and probe results, in any order and with probes of any length: at most
  eight probes are in flight, and after a tick that listed the trusted peers - and whatever probes end
  until the next one, also those of a peer removed meanwhile - every recorded verdict belongs to a
  peer of that list.\<close>

theorem heartbeat_tracks_trusted:
  assumes "list_all lists_folded evs" "lists_folded (Tick t)" "tk_listed t = Some listed" "tk_listening t" "tk_lan t"
    and "list_all (\<lambda>ev. case ev of ProbeEnds i a f \<Rightarrow> True | _ \<Rightarrow> False) later"
    and "s = foldl (heartbeat_step interval) no_heartbeat (evs @ [Tick t] @ later)"
  shows "length (hb_flight s) \<le> peer_heartbeat_max_concurrent \<and> fst ` set (hb_health s) \<subseteq> set listed"
proof -
  have start: "heartbeat_ok no_heartbeat" by (simp add: heartbeat_ok_def no_heartbeat_def)
  have "list_all lists_folded (evs @ [Tick t] @ later)"
    using assms(1,2,6) by (auto simp: list_all_iff lists_folded_def split: heartbeat_event.splits)
  then have ok: "heartbeat_ok s" using heartbeat_runs.allowed_run_inv [OF start] assms(7) by blast
  let ?s0 = "foldl (heartbeat_step interval) no_heartbeat evs"
  have ok0: "heartbeat_ok ?s0" using heartbeat_runs.allowed_run_inv [OF start assms(1)] .
  have "list_all (\<lambda>k. fold_fingerprint k = k) listed" using assms(2,3) by (simp add: lists_folded_def)
  then have "fst ` set (hb_probes (on_tick interval t ?s0)) = set listed"
    using sync_probes_ok [OF ok0] assms(3-5) by (simp add: on_tick_def Let_def)
  then have "fst ` set (hb_probes s) = set listed"
    using finishes_probes [OF assms(6)] assms(7) by simp
  with ok show ?thesis by (simp add: heartbeat_ok_def)
qed

definition demo_tick :: "go_time \<Rightarrow> string list \<Rightarrow> tick" where
  "demo_tick now listed = \<lparr>tk_now = now, tk_listening = True, tk_lan = True, tk_listed = Some listed,
     tk_rank = (\<lambda>_. 0), tk_stopping = False\<rparr>"

theorem heartbeat_tracks_trusted_witness:
  "let s = foldl (heartbeat_step 60) no_heartbeat ([Tick (demo_tick 1 [''ab'', ''cd''])] @ [Tick (demo_tick 2 [''cd''])] @ [ProbeEnds 0 True 3])
   in length (hb_flight s) \<le> peer_heartbeat_max_concurrent \<and> fst ` set (hb_health s) \<subseteq> {''cd''}"
proof -
  have f: "fold_fingerprint ''ab'' = ''ab''" "fold_fingerprint ''cd'' = ''cd''" by code_simp+
  from heartbeat_tracks_trusted [of "[Tick (demo_tick 1 [''ab'', ''cd''])]" "demo_tick 2 [''cd'']" "[''cd'']" "[ProbeEnds 0 True 3]" _ 60]
  show ?thesis by (simp add: lists_folded_def demo_tick_def f Let_def del: foldl.simps)
qed

text \<open>
  A probe in flight does not keep its peer from being due: a machine whose probe takes longer than a
  tick is probed again at every tick, until it holds every slot.
\<close>

lemma slow_peer_takes_every_slot:
  "map fst (hb_flight (foldl (heartbeat_step peer_heartbeat_interval) no_heartbeat (map (\<lambda>i. Tick (demo_tick (int i) [''ab''])) [1..<9]))) =
     replicate 8 ''ab''"
  by code_simp

end
