(* ===== verification/Hub_History.thy ===== *)
theory Hub_History
  imports Peer_Store Atomic_Publish
begin

text \<open>
  What the hub remembers of what it did: the bounded ledgers of transfers (internal/hub/operations.go)
  and of sign-ins (internal/hub/relay_history.go), their files, and how the failure of a transfer is
  reported to the user.
\<close>

section \<open>Bounded ledgers\<close>

text \<open>Items from the oldest to the newest, and the capacity.\<close>

record 'a ledger =
  lg_capacity :: int
  lg_items :: "'a list"

definition max_outbound_operations :: int where "max_outbound_operations = 50"
definition max_relay_history :: int where "max_relay_history = 50"
definition transfer_retention_days :: int where "transfer_retention_days = 30"
definition relay_history_retention_days :: int where "relay_history_retention_days = 30"

definition new_ledger :: "int \<Rightarrow> int \<Rightarrow> 'a ledger" where
  "new_ledger bound capacity = \<lparr>lg_capacity = (if capacity \<le> 0 then bound else capacity), lg_items = []\<rparr>"

text \<open>Oldest items go while the ledger is full.\<close>

function make_room :: "int \<Rightarrow> 'a list \<Rightarrow> 'a list" where
  "make_room capacity items =
     (if capacity \<le> int (length items) \<and> items \<noteq> [] then make_room capacity (tl items) else items)"
  by pat_completeness auto
termination by (relation "measure (\<lambda>(_, items). length items)") (auto simp: neq_Nil_conv)

declare make_room.simps [simp del]

text \<open>The day of \<open>AddDate\<close> is taken to have 24 hours.\<close>

definition retention_cutoff :: "int \<Rightarrow> go_time \<Rightarrow> go_time" where
  "retention_cutoff days now = now - days * 86400000000000"

definition prune_by_age :: "('a \<Rightarrow> go_time) \<Rightarrow> go_time \<Rightarrow> 'a list \<Rightarrow> 'a list" where
  "prune_by_age created cutoff items = filter (\<lambda>x. created x = 0 \<or> \<not> created x < cutoff) items"

text \<open>The newest items that fit the bound of a file.\<close>

definition newest :: "int \<Rightarrow> 'a list \<Rightarrow> 'a list" where
  "newest bound items =
     (if int (length items) > bound then drop (nat (int (length items) - bound)) items else items)"

definition append_bounded :: "('a \<Rightarrow> go_time) \<Rightarrow> go_time \<Rightarrow> 'a \<Rightarrow> 'a ledger \<Rightarrow> 'a ledger" where
  "append_bounded created cutoff x l =
     l\<lparr>lg_items := prune_by_age created cutoff (make_room (lg_capacity l) (lg_items l) @ [x])\<rparr>"

definition ledger_clear :: "'a ledger \<Rightarrow> 'a ledger \<times> nat" where
  "ledger_clear l = (l\<lparr>lg_items := []\<rparr>, length (lg_items l))"

definition ensure_capacity :: "int \<Rightarrow> 'a ledger \<Rightarrow> 'a ledger" where
  "ensure_capacity bound l = (if lg_capacity l \<le> 0 then l\<lparr>lg_capacity := bound\<rparr> else l)"

section \<open>Transfers\<close>

record operation =
  op_id :: string
  op_drop_id :: string
  op_kind :: string
  op_name :: string
  op_size :: int
  op_mime :: string
  op_destination :: string
  op_destination_fp :: string
  op_destination_addr :: string
  op_state :: string
  op_created :: go_time
  op_updated :: go_time
  op_bytes :: int
  op_verified :: bool
  op_retry_safe :: bool
  op_duplicate_risk :: bool
  op_data_safe :: bool
  op_error_code :: string
  op_error_message :: string
  op_next_action :: string
  op_diagnostic :: string

definition new_operation_ledger :: "int \<Rightarrow> operation ledger" where
  "new_operation_ledger capacity = new_ledger max_outbound_operations capacity"

text \<open>\<open>UpdateProgress\<close>: the first record of the id decides.\<close>

fun update_first :: "string \<Rightarrow> int \<Rightarrow> operation list \<Rightarrow> operation list \<times> bool" where
  "update_first i n [] = ([], False)"
| "update_first i n (x # xs) =
     (if op_id x \<noteq> i then (let (ys, b) = update_first i n xs in (x # ys, b))
      else if op_state x \<noteq> '''' then (x # xs, False)
      else ((if n > op_bytes x then x\<lparr>op_bytes := n\<rparr> else x) # xs, True))"

definition update_progress :: "string \<Rightarrow> int \<Rightarrow> operation ledger \<Rightarrow> operation ledger \<times> bool" where
  "update_progress i n l =
     (if i = '''' then (l, False)
      else (case update_first i n (lg_items l) of (items, b) \<Rightarrow> (l\<lparr>lg_items := items\<rparr>, b)))"

fun replace_first :: "operation \<Rightarrow> operation list \<Rightarrow> operation list option" where
  "replace_first x [] = None"
| "replace_first x (y # ys) =
     (if op_id y = op_id x then Some (x # ys)
      else (case replace_first x ys of None \<Rightarrow> None | Some zs \<Rightarrow> Some (y # zs)))"

definition add_operation :: "go_time \<Rightarrow> operation \<Rightarrow> operation ledger \<Rightarrow> operation ledger" where
  "add_operation now x l0 =
     (let l = ensure_capacity max_outbound_operations l0
      in case (if op_id x \<noteq> '''' then replace_first x (lg_items l) else None) of
           Some items \<Rightarrow> l\<lparr>lg_items := items\<rparr>
         | None \<Rightarrow> append_bounded op_created (retention_cutoff transfer_retention_days now) x l)"

definition state_completed :: string where "state_completed = ''completed''"
definition state_retryable_failure :: string where "state_retryable_failure = ''retryable_failure''"
definition state_terminal_failure :: string where "state_terminal_failure = ''terminal_failure''"
definition state_cancelled :: string where "state_cancelled = ''cancelled''"
definition state_duplicate_risk :: string where "state_duplicate_risk = ''duplicate_risk''"
definition state_submitted :: string where "state_submitted = ''submitted''"
definition state_negotiating :: string where "state_negotiating = ''negotiating''"
definition state_sending :: string where "state_sending = ''sending''"
definition state_verifying :: string where "state_verifying = ''verifying''"
definition state_duplicate_suppressed :: string where "state_duplicate_suppressed = ''duplicate_suppressed''"

lemmas operation_states =
  state_completed_def state_retryable_failure_def state_terminal_failure_def state_cancelled_def state_duplicate_risk_def
  state_submitted_def state_negotiating_def state_sending_def state_verifying_def state_duplicate_suppressed_def

definition valid_persisted_operation :: "operation \<Rightarrow> bool" where
  "valid_persisted_operation x \<longleftrightarrow>
     \<not> (trim_space (op_id x) = '''' \<or> op_created x = 0) \<and>
     op_kind x \<in> {''text'', ''file''} \<and>
     op_state x \<in> {state_completed, state_retryable_failure, state_terminal_failure, state_cancelled,
       state_duplicate_risk, state_submitted, state_negotiating, state_sending, state_verifying}"

text \<open>\<open>operationStateForFailure\<close>\<close>

definition operation_state_for_failure :: "bool \<Rightarrow> bool \<Rightarrow> bool \<Rightarrow> string" where
  "operation_state_for_failure retry_safe duplicate_risk cancelled =
     (if cancelled then state_cancelled
      else if duplicate_risk then state_duplicate_risk
      else if retry_safe then state_retryable_failure
      else state_terminal_failure)"

section \<open>Sign-ins\<close>

record relay_attempt =
  ra_id :: string
  ra_peer :: string
  ra_peer_fp :: string
  ra_peer_addr :: string
  ra_origin :: string
  ra_state :: string
  ra_created :: go_time
  ra_updated :: go_time
  ra_error_code :: string
  ra_next_action :: string
  ra_diagnostic :: string

definition relay_submitted :: string where "relay_submitted = ''submitted''"
definition relay_waiting :: string where "relay_waiting = ''waiting_callback''"
definition relay_complete :: string where "relay_complete = ''complete''"
definition relay_failed :: string where "relay_failed = ''failed''"
definition relay_cancelled :: string where "relay_cancelled = ''cancelled''"

definition new_relay_ledger :: "int \<Rightarrow> relay_attempt ledger" where
  "new_relay_ledger capacity = new_ledger max_relay_history capacity"

definition add_relay :: "go_time \<Rightarrow> relay_attempt \<Rightarrow> relay_attempt ledger \<Rightarrow> relay_attempt ledger" where
  "add_relay now x l =
     append_bounded ra_created (retention_cutoff relay_history_retention_days now) x (ensure_capacity max_relay_history l)"

fun change_first :: "string \<Rightarrow> (relay_attempt \<Rightarrow> relay_attempt) \<Rightarrow> relay_attempt list \<Rightarrow> relay_attempt list" where
  "change_first i f [] = []"
| "change_first i f (x # xs) = (if ra_id x = i then f x # xs else x # change_first i f xs)"

definition update_relay ::
  "go_time \<Rightarrow> string \<Rightarrow> (relay_attempt \<Rightarrow> relay_attempt) \<Rightarrow> relay_attempt ledger \<Rightarrow> relay_attempt ledger" where
  "update_relay now i f l = l\<lparr>lg_items := change_first i (\<lambda>x. (f x)\<lparr>ra_updated := now\<rparr>) (lg_items l)\<rparr>"

definition valid_relay_attempt :: "relay_attempt \<Rightarrow> bool" where
  "valid_relay_attempt x \<longleftrightarrow>
     \<not> (trim_space (ra_id x) = '''' \<or> ra_created x = 0) \<and>
     ra_state x \<in> {relay_submitted, relay_waiting, relay_complete, relay_failed, relay_cancelled}"

text \<open>\<open>safeRelayOrigin\<close>: the host of the URL alone, cut to 253 bytes.\<close>

definition safe_relay_origin :: "net_lib \<Rightarrow> string \<Rightarrow> string" where
  "safe_relay_origin nl sanitized =
     (case nl_parse nl (trim_space sanitized) of
        None \<Rightarrow> ''''
      | Some u \<Rightarrow>
          let host = to_lower (trim_space (url_hostname u))
          in if host = '''' then '''' else if 253 < length host then take 253 host else host)"

section \<open>The files\<close>

definition transfer_persist_file_name :: string where "transfer_persist_file_name = ''transfers.json''"
definition relay_history_filename :: string where "relay_history_filename = ''authorizations.json''"
definition max_history_bytes :: nat where "max_history_bytes = 1048576"

text \<open>The JSON of a versioned envelope is a parameter.\<close>

record 'a history_codec =
  hc_encode :: "'a list \<Rightarrow> string option"
  hc_decode :: "string \<Rightarrow> 'a list option"

text \<open>What one file operation meets: the clock, the faults, the two temporary names, a failing read or removal.\<close>

record history_io =
  io_now :: go_time
  io_faults :: faults
  io_tmp :: string
  io_bak :: string
  io_read :: bool
  io_remove :: bool

text \<open>
  \<open>writeAtomicTransferFile\<close> goes the way of \<open>writeTombstoneFile\<close>: a private temporary file, filled,
  synced and renamed; when the rename fails, the old file is moved to a backup name, the rename is
  retried, and the backup is moved back.
\<close>

definition write_atomic_transfer_file :: "faults \<Rightarrow> string \<Rightarrow> string \<Rightarrow> string \<Rightarrow> string \<Rightarrow> fs \<Rightarrow> fs \<times> bool" where
  "write_atomic_transfer_file fl tmp bak dst data f = write_tombstone_file fl tmp bak dst (Some data) f"

definition persist_history ::
  "('a \<Rightarrow> go_time) \<Rightarrow> int \<Rightarrow> int \<Rightarrow> 'a history_codec \<Rightarrow> string \<Rightarrow> string \<Rightarrow> history_io \<Rightarrow> 'a list \<Rightarrow> fs \<Rightarrow> fs \<times> bool" where
  "persist_history created days bound hc name dir io items f =
     (if trim_space dir = '''' then (f, False)
      else
        let kept = newest bound (prune_by_age created (retention_cutoff days (io_now io)) items)
        in (case hc_encode hc kept of
              None \<Rightarrow> (f, False)
            | Some data \<Rightarrow> write_atomic_transfer_file (io_faults io) (io_tmp io) (io_bak io) name data f))"

text \<open>\<open>None\<close> for a file that is absent, unreadable, too large or undecodable.\<close>

definition load_history ::
  "('a \<Rightarrow> go_time) \<Rightarrow> ('a \<Rightarrow> bool) \<Rightarrow> int \<Rightarrow> int \<Rightarrow> 'a history_codec \<Rightarrow> string \<Rightarrow> history_io \<Rightarrow> fs \<Rightarrow> 'a list option" where
  "load_history created valid days bound hc name io f =
     (case (if io_read io then None else fs_dir f name) of
        Some (Regular raw) \<Rightarrow>
          if max_history_bytes < length raw then None
          else (case hc_decode hc raw of
            None \<Rightarrow> None
          | Some items \<Rightarrow>
              Some (newest bound (prune_by_age created (retention_cutoff days (io_now io)) (filter valid items))))
      | _ \<Rightarrow> None)"

definition persist_outbound_operations ::
  "operation history_codec \<Rightarrow> string \<Rightarrow> history_io \<Rightarrow> operation list \<Rightarrow> fs \<Rightarrow> fs \<times> bool" where
  "persist_outbound_operations hc =
     persist_history op_created transfer_retention_days max_outbound_operations hc transfer_persist_file_name"

definition persist_relay_history ::
  "relay_attempt history_codec \<Rightarrow> string \<Rightarrow> history_io \<Rightarrow> relay_attempt list \<Rightarrow> fs \<Rightarrow> fs \<times> bool" where
  "persist_relay_history hc =
     persist_history ra_created relay_history_retention_days max_relay_history hc relay_history_filename"

definition read_saved_relay_history :: "relay_attempt history_codec \<Rightarrow> string \<Rightarrow> history_io \<Rightarrow> fs \<Rightarrow> relay_attempt list option" where
  "read_saved_relay_history hc dir io f =
     (if trim_space dir = '''' then None
      else (case (if io_read io then None else fs_dir f relay_history_filename) of
        Some (Regular raw) \<Rightarrow> if max_history_bytes < length raw then None else hc_decode hc raw
      | _ \<Rightarrow> None))"

section \<open>The hub\<close>

text \<open>The two ledgers of a hub, its store directory (empty before it starts), and the files in it.\<close>

record hub_history =
  hs_dir :: string
  hs_operations :: "operation ledger"
  hs_relays :: "relay_attempt ledger"
  hs_files :: fs

definition record_outbound_operation :: "operation history_codec \<Rightarrow> history_io \<Rightarrow> operation \<Rightarrow> hub_history \<Rightarrow> hub_history" where
  "record_outbound_operation hc io x h =
     (let l = add_operation (io_now io) x (hs_operations h); h1 = h\<lparr>hs_operations := l\<rparr>
      in if hs_dir h = '''' then h1
         else h1\<lparr>hs_files := fst (persist_outbound_operations hc (hs_dir h) io (lg_items l) (hs_files h))\<rparr>)"

definition begin_outbound_operation ::
  "operation history_codec \<Rightarrow> history_io \<Rightarrow> string \<Rightarrow> operation \<Rightarrow> hub_history \<Rightarrow> hub_history \<times> string" where
  "begin_outbound_operation hc io fresh x0 h =
     (let x = (if op_id x0 = '''' then x0\<lparr>op_id := fresh\<rparr> else x0)
      in (record_outbound_operation hc io x h, op_id x))"

definition advance_outbound_progress :: "string \<Rightarrow> int \<Rightarrow> hub_history \<Rightarrow> hub_history" where
  "advance_outbound_progress i n h = h\<lparr>hs_operations := fst (update_progress i n (hs_operations h))\<rparr>"

definition clear_history :: "string \<Rightarrow> history_io \<Rightarrow> hub_history \<Rightarrow> hub_history" where
  "clear_history name io h = (if hs_dir h = '''' then h else h\<lparr>hs_files := remove_file (io_remove io) name (hs_files h)\<rparr>)"

definition clear_outbound_operations :: "history_io \<Rightarrow> hub_history \<Rightarrow> hub_history \<times> nat" where
  "clear_outbound_operations io h =
     (case ledger_clear (hs_operations h) of (l, n) \<Rightarrow>
        (clear_history transfer_persist_file_name io (h\<lparr>hs_operations := l\<rparr>), n))"

text \<open>A transfer history that cannot be loaded leaves the ledger alone; that of the sign-ins is then empty.\<close>

definition load_outbound_operations :: "operation history_codec \<Rightarrow> history_io \<Rightarrow> string \<Rightarrow> hub_history \<Rightarrow> hub_history" where
  "load_outbound_operations hc io dir h =
     (if trim_space dir = '''' then h
      else (case load_history op_created valid_persisted_operation transfer_retention_days max_outbound_operations hc
              transfer_persist_file_name io (hs_files h) of
        None \<Rightarrow> h
      | Some items \<Rightarrow> h\<lparr>hs_operations := (hs_operations h)\<lparr>lg_items := items\<rparr>\<rparr>))"

definition record_relay_attempt :: "relay_attempt history_codec \<Rightarrow> history_io \<Rightarrow> relay_attempt \<Rightarrow> hub_history \<Rightarrow> hub_history" where
  "record_relay_attempt hc io x h =
     (let l = add_relay (io_now io) x (hs_relays h); h1 = h\<lparr>hs_relays := l\<rparr>
      in if hs_dir h = '''' then h1
         else h1\<lparr>hs_files := fst (persist_relay_history hc (hs_dir h) io (lg_items l) (hs_files h))\<rparr>)"

definition update_relay_attempt ::
  "relay_attempt history_codec \<Rightarrow> history_io \<Rightarrow> string \<Rightarrow> string \<Rightarrow> string \<Rightarrow> string \<Rightarrow> hub_history \<Rightarrow> hub_history" where
  "update_relay_attempt hc io i state err_code next_action h =
     (let l = update_relay (io_now io) i (\<lambda>x. x\<lparr>ra_state := state, ra_error_code := err_code, ra_next_action := next_action\<rparr>)
                (hs_relays h);
          h1 = h\<lparr>hs_relays := l\<rparr>
      in if hs_dir h = '''' then h1
         else h1\<lparr>hs_files := fst (persist_relay_history hc (hs_dir h) io (lg_items l) (hs_files h))\<rparr>)"

definition clear_relay_history :: "history_io \<Rightarrow> hub_history \<Rightarrow> hub_history \<times> nat" where
  "clear_relay_history io h =
     (case ledger_clear (hs_relays h) of (l, n) \<Rightarrow>
        (clear_history relay_history_filename io (h\<lparr>hs_relays := l\<rparr>), n))"

definition load_relay_history :: "relay_attempt history_codec \<Rightarrow> history_io \<Rightarrow> string \<Rightarrow> fs \<Rightarrow> relay_attempt list" where
  "load_relay_history hc io dir f =
     (if trim_space dir = '''' then []
      else (case load_history ra_created valid_relay_attempt relay_history_retention_days max_relay_history hc
              relay_history_filename io f of
        None \<Rightarrow> []
      | Some items \<Rightarrow> items))"

definition load_relay_history_into :: "relay_attempt history_codec \<Rightarrow> history_io \<Rightarrow> string \<Rightarrow> hub_history \<Rightarrow> hub_history" where
  "load_relay_history_into hc io dir h =
     (if trim_space dir = '''' then h
      else h\<lparr>hs_relays := (hs_relays h)\<lparr>lg_items := load_relay_history hc io dir (hs_files h)\<rparr>\<rparr>)"

section \<open>What a failed transfer is reported as\<close>

text \<open>
  \<open>ClassifyTransferError\<close> reads a rejection of the receiver by its type (\<open>Inl\<close>, with its reason) and
  every other error by its text.
\<close>

record verdict =
  ve_code :: string
  ve_plain :: string
  ve_next :: string
  ve_retry_safe :: bool
  ve_duplicate_risk :: bool
  ve_data_safe :: bool

definition retryable :: "string \<Rightarrow> string \<Rightarrow> string \<Rightarrow> verdict" where
  "retryable c plain next_action = \<lparr>ve_code = c, ve_plain = plain, ve_next = next_action,
     ve_retry_safe = True, ve_duplicate_risk = False, ve_data_safe = True\<rparr>"

definition maybe_saved :: "string \<Rightarrow> string \<Rightarrow> string \<Rightarrow> verdict" where
  "maybe_saved c plain next_action = \<lparr>ve_code = c, ve_plain = plain, ve_next = next_action,
     ve_retry_safe = False, ve_duplicate_risk = True, ve_data_safe = True\<rparr>"

definition mentions :: "string \<Rightarrow> string list \<Rightarrow> bool" where
  "mentions s words = list_ex (contains_sub s) words"

definition classify_rejection :: "string \<Rightarrow> verdict" where
  "classify_rejection reason =
     (let lower = to_lower reason
      in if mentions lower [''idempotency key''] then
           retryable ''idempotency_key_conflict''
             ''The receiver already completed a different transfer under this idempotency key, so this one was refused. Nothing new was saved.''
             ''Send again with a new idempotency key, or resend the original content to reuse the existing one. Nothing needs cleaning up.''
         else if mentions lower [''checksum'', ''sha-256'', ''size mismatch'', ''byte count mismatch''] then
           retryable ''integrity_rejected''
             ''The receiver rejected this transfer as damaged in transit. Nothing was saved.''
             ''Safe to retry. If it repeats, check network stability and re-send the source file.''
         else if mentions lower [''quota'', ''too many'', ''busy'', ''no space''] then
           retryable ''receiver_busy''
             ''The receiver declined this transfer because it is full or busy. Nothing was saved.''
             ''Free space or wait a moment on the receiver, then retry. Check `tantu doctor` there for its limits.''
         else if mentions lower [''not paired or trusted'', ''unauthorized''] then
           retryable ''untrusted_peer''
             ''The receiver no longer trusts this machine - it was removed from the receiver's paired devices (or pairing was never completed there). Nothing was saved.''
             ''On the receiver, open the dashboard, go to Peers, and pair again; both machines confirm a fresh code. Only pair if you still recognise that machine.''
         else
           retryable ''receiver_rejected''
             ''The receiver refused this transfer and saved nothing.''
             ''Read the reason in the details, fix the cause, then send again as a new transfer.'')"

definition unknown_outcome :: verdict where
  "unknown_outcome = maybe_saved ''unknown_outcome''
     ''Transfer may have completed but confirmation was lost. The file may already be saved.''
     ''Check the receiver inbox before retrying to avoid a duplicate. Retrying creates a new transfer.''"

definition transfer_interrupted :: verdict where
  "transfer_interrupted = retryable ''transfer_interrupted''
     ''Transfer interrupted. No complete file was saved.''
     ''Safe to retry. A retry creates a new transfer; any partial is retained briefly then cleaned.''"

definition destination_unreachable :: verdict where
  "destination_unreachable = retryable ''destination_unreachable''
     ''Could not reach the destination. No data was sent.''
     ''Check the peer is online and paired, then retry. Use `tantu status` to verify trust.''"

definition classify_transfer_error :: "string + string \<Rightarrow> int \<Rightarrow> int \<Rightarrow> bool \<Rightarrow> verdict" where
  "classify_transfer_error err bytes_sent size_total cancelled =
     (case err of Inl reason \<Rightarrow> classify_rejection reason
      | Inr msg \<Rightarrow>
        (let lower = to_lower msg; all_sent = (size_total > 0 \<and> bytes_sent \<ge> size_total \<and> bytes_sent > 0)
         in if cancelled \<or> mentions lower [''context canceled'', ''context cancelled''] then
              (if all_sent then
                 maybe_saved ''cancelled_after_send''
                   ''Transfer cancelled after sending. The file may already be saved on the receiver.''
                   ''Check the receiver inbox before retrying to avoid a duplicate. Retrying creates a new transfer.''
               else
                 retryable ''cancelled''
                   ''Transfer cancelled. No complete file was saved.''
                   ''Safe to retry. A retry creates a new transfer; any partial is retained briefly then cleaned.'')
            else if mentions lower [''deadline exceeded'', ''timeout''] then
              (if all_sent then
                 maybe_saved ''confirmation_timeout''
                   ''Transfer timed out waiting for confirmation. The file may already be saved.''
                   ''Check the receiver inbox before retrying. If missing, retry creates a new transfer.''
               else
                 retryable ''transfer_timeout''
                   ''Transfer timed out before completing. No complete file was saved.''
                   ''Safe to retry when the peer is reachable. A retry creates a new transfer.'')
            else if mentions lower [''quota'', ''too many'', ''busy'', ''503''] then
              retryable ''receiver_busy''
                ''Receiver is busy. No data was sent.''
                ''Wait a moment and retry. If it persists, check receiver load and try again later.''
            else if mentions lower [''checksum'', ''sha-256'', ''sha256'', ''final size mismatch'', ''byte count mismatch''] then
              retryable ''integrity_rejected''
                ''Transfer failed the integrity check. The file was not saved on the receiver.''
                ''Safe to retry. If it repeats, check the source file and network stability.''
            else if mentions lower [''drop_ack'', ''resume offset'', ''invalid resume'', ''resumption''] then
              retryable ''negotiation_failed''
                ''Transfer could not start. No file was saved.''
                ''Safe to retry. If it repeats, restart the Hub on both machines and try again.''
            else if mentions lower [''drop_complete'', ''receive drop_complete''] then unknown_outcome
            else if mentions lower [''drop_data'', ''read payload'', ''write payload'', ''chunk''] then transfer_interrupted
            else if mentions lower [''dial'', ''connection refused'', ''no such host'', ''i/o timeout'', ''tls'', ''certificate'',
                ''not a trusted'', ''not the configured'', ''failed to connect''] then destination_unreachable
            else if mentions lower [''connect''] then destination_unreachable
            else if all_sent then unknown_outcome
            else if bytes_sent > 0 then transfer_interrupted
            else
              retryable ''transfer_failed''
                ''Transfer failed before sending. No data was sent.''
                ''Check the error details, then retry. If the peer is offline, bring it online first.''))"

section \<open>Lemmas on ledgers\<close>

lemma make_room_suffix: "\<exists>n. make_room c xs = drop n xs"
proof (induction c xs rule: make_room.induct)
  case (1 c xs)
  show ?case
  proof (cases "c \<le> int (length xs) \<and> xs \<noteq> []")
    case True
    with 1 obtain n where "make_room c (tl xs) = drop n (tl xs)" by blast
    with True show ?thesis by (subst make_room.simps) (auto simp: drop_Suc intro: exI [of _ "Suc n"])
  next
    case False
    then show ?thesis by (subst make_room.simps) (auto intro: exI [of _ 0])
  qed
qed

lemma make_room_room: "0 < c \<Longrightarrow> int (length (make_room c xs)) < c"
proof (induction c xs rule: make_room.induct)
  case (1 c xs)
  then show ?case by (cases "c \<le> int (length xs) \<and> xs \<noteq> []") (subst make_room.simps, auto)+
qed

lemma make_room_id: "int (length xs) < c \<Longrightarrow> make_room c xs = xs"
  by (subst make_room.simps) simp

lemma set_make_room: "set (make_room c xs) \<subseteq> set xs"
  using make_room_suffix [of c xs] set_drop_subset by metis

lemma newest_all: "int (length xs) \<le> b \<Longrightarrow> newest b xs = xs"
  by (simp add: newest_def)

lemma prune_idem [simp]: "prune_by_age cr t (prune_by_age cr t xs) = prune_by_age cr t xs"
  by (simp add: prune_by_age_def)

lemma length_prune: "length (prune_by_age cr t xs) \<le> length xs"
  by (simp add: prune_by_age_def)

lemma set_prune: "set (prune_by_age cr t xs) \<subseteq> set xs"
  by (auto simp: prune_by_age_def)

lemma append_bounded_cap [simp]: "lg_capacity (append_bounded cr t x l) = lg_capacity l"
  by (simp add: append_bounded_def)

lemma append_bounded_length:
  assumes "0 < lg_capacity l"
  shows "int (length (lg_items (append_bounded cr t x l))) \<le> lg_capacity l"
proof -
  have "length (lg_items (append_bounded cr t x l)) \<le> length (make_room (lg_capacity l) (lg_items l)) + 1"
    using length_prune [of cr t "make_room (lg_capacity l) (lg_items l) @ [x]"] by (simp add: append_bounded_def)
  with make_room_room [OF assms, of "lg_items l"] show ?thesis by linarith
qed

lemma set_append_bounded: "set (lg_items (append_bounded cr t x l)) \<subseteq> insert x (set (lg_items l))"
  using set_make_room [of "lg_capacity l" "lg_items l"] set_prune [of cr t]
  by (fastforce simp: append_bounded_def)

section \<open>One row for each transfer\<close>

text \<open>The ids of the records that have one.\<close>

definition row_ids :: "operation list \<Rightarrow> string list" where
  "row_ids xs = filter (\<lambda>i. i \<noteq> '''') (map op_id xs)"

lemma row_ids_simps [simp]:
  "row_ids [] = []" "row_ids (x # xs) = (if op_id x = '''' then row_ids xs else op_id x # row_ids xs)"
  "row_ids (xs @ ys) = row_ids xs @ row_ids ys"
  by (simp_all add: row_ids_def)

lemma set_row_ids: "set (row_ids xs) = op_id ` set xs - {''''}"
  by (auto simp: row_ids_def)

lemma distinct_row_ids_filter: "distinct (row_ids xs) \<Longrightarrow> distinct (row_ids (filter P xs))"
  by (induction xs) (auto simp: set_row_ids)

lemma distinct_row_ids_drop: "distinct (row_ids xs) \<Longrightarrow> distinct (row_ids (drop n xs))"
proof (induction n arbitrary: xs)
  case (Suc n)
  then show ?case by (cases xs) (auto split: if_splits)
qed simp

lemma replace_first_some:
  "replace_first x xs = Some ys \<Longrightarrow> map op_id ys = map op_id xs \<and> length ys = length xs \<and> x \<in> set ys"
  by (induction xs arbitrary: ys) (auto split: if_splits option.splits)

lemma replace_first_none: "replace_first x xs = None \<longleftrightarrow> op_id x \<notin> op_id ` set xs"
  by (induction xs) (auto split: option.splits)

lemma replace_first_others: "replace_first x xs = Some ys \<Longrightarrow> y \<in> set ys \<Longrightarrow> y = x \<or> y \<in> set xs"
  by (induction xs arbitrary: ys) (auto split: if_splits option.splits)

lemma replace_first_keeps:
  "replace_first x xs = Some ys \<Longrightarrow> op_id x \<noteq> i \<Longrightarrow> filter (\<lambda>y. op_id y = i) ys = filter (\<lambda>y. op_id y = i) xs"
  by (induction xs arbitrary: ys) (auto split: if_splits option.splits)

lemma update_first_ids: "map op_id (fst (update_first i n xs)) = map op_id xs"
  by (induction xs) (auto simp: Let_def split: prod.splits)

lemma update_first_length [simp]: "length (fst (update_first i n xs)) = length xs"
  by (metis length_map update_first_ids)

lemma update_first_settled:
  assumes "op_state x \<noteq> ''''"
  shows "x \<in> set (fst (update_first i n xs)) \<longleftrightarrow> x \<in> set xs"
  using assms by (induction xs) (auto simp: Let_def split: prod.splits)

text \<open>The operations on the ledger of the transfers; \<open>LoadRows\<close> is what a start loads.\<close>

datatype ledger_event =
    AddRow go_time operation
  | TickRow string int
  | ClearRows
  | LoadRows "operation list"

fun ledger_step :: "operation ledger \<Rightarrow> ledger_event \<Rightarrow> operation ledger" where
  "ledger_step l (AddRow now x) = add_operation now x l"
| "ledger_step l (TickRow i n) = fst (update_progress i n l)"
| "ledger_step l ClearRows = fst (ledger_clear l)"
| "ledger_step l (LoadRows xs) = l\<lparr>lg_items := xs\<rparr>"

definition rows_ok :: "int \<Rightarrow> operation ledger \<Rightarrow> bool" where
  "rows_ok c l \<longleftrightarrow> 0 < c \<and> lg_capacity l = c \<and> int (length (lg_items l)) \<le> c \<and> distinct (row_ids (lg_items l))"

fun loads_rows :: "int \<Rightarrow> ledger_event \<Rightarrow> bool" where
  "loads_rows c (LoadRows xs) \<longleftrightarrow> int (length xs) \<le> c \<and> distinct (row_ids xs)"
| "loads_rows c e \<longleftrightarrow> True"

lemma row_ids_append_bounded:
  assumes "distinct (row_ids (lg_items l))" "op_id x = '''' \<or> op_id x \<notin> op_id ` set (lg_items l)"
  shows "distinct (row_ids (lg_items (append_bounded cr t x l)))"
proof -
  obtain k where k: "make_room (lg_capacity l) (lg_items l) = drop k (lg_items l)" using make_room_suffix by blast
  have "op_id x \<notin> set (row_ids (drop k (lg_items l)))" if "op_id x \<noteq> ''''"
    using assms(2) that set_drop_subset by (fastforce simp: set_row_ids)
  with distinct_row_ids_drop [OF assms(1), of k] have "distinct (row_ids (drop k (lg_items l) @ [x]))" by auto
  from distinct_row_ids_filter [OF this]
  show ?thesis by (simp add: append_bounded_def prune_by_age_def k del: row_ids_simps filter_append)
qed

lemma add_operation_ok:
  assumes "rows_ok c l"
  shows "rows_ok c (add_operation now x l)"
proof (cases "if op_id x \<noteq> '''' then replace_first x (lg_items l) else None")
  case None
  with assms have "add_operation now x l = append_bounded op_created (retention_cutoff transfer_retention_days now) x l"
    "op_id x = '''' \<or> op_id x \<notin> op_id ` set (lg_items l)"
    by (auto simp: add_operation_def ensure_capacity_def rows_ok_def replace_first_none split: if_splits)
  with assms append_bounded_length [of l] row_ids_append_bounded [of l x] show ?thesis by (simp add: rows_ok_def)
next
  case (Some ys)
  with assms have "add_operation now x l = l\<lparr>lg_items := ys\<rparr>"
    by (auto simp: add_operation_def ensure_capacity_def rows_ok_def split: if_splits)
  with assms Some replace_first_some [of x "lg_items l" ys] show ?thesis
    by (auto simp: rows_ok_def row_ids_def split: if_splits)
qed

lemma update_progress_items:
  "fst (update_progress i n l) = (if i = '''' then l else l\<lparr>lg_items := fst (update_first i n (lg_items l))\<rparr>)"
  by (simp add: update_progress_def split: prod.split)

lemma update_progress_ok: "rows_ok c l \<Longrightarrow> rows_ok c (fst (update_progress i n l))"
  by (simp add: update_progress_items rows_ok_def row_ids_def update_first_ids)

lemma ledger_step_ok: "rows_ok c l \<Longrightarrow> loads_rows c e \<Longrightarrow> rows_ok c (ledger_step l e)"
  by (cases e) (simp_all add: add_operation_ok update_progress_ok, simp_all add: rows_ok_def ledger_clear_def)

interpretation transfer_rows: guarded_stepper ledger_step "loads_rows c" "rows_ok c" for c
  by unfold_locales (rule ledger_step_ok)

text \<open>A settled record is the only one of its id.\<close>

definition only_row :: "operation \<Rightarrow> operation ledger \<Rightarrow> bool" where
  "only_row x l \<longleftrightarrow> (\<forall>y \<in> set (lg_items l). op_id y = op_id x \<longrightarrow> y = x)"

fun leaves_row :: "operation \<Rightarrow> ledger_event \<Rightarrow> bool" where
  "leaves_row x (AddRow now y) \<longleftrightarrow> op_id y \<noteq> op_id x"
| "leaves_row x (LoadRows xs) \<longleftrightarrow> op_id x \<notin> op_id ` set xs"
| "leaves_row x e \<longleftrightarrow> True"

lemma replace_first_only:
  "distinct (row_ids xs) \<Longrightarrow> op_id x \<noteq> '''' \<Longrightarrow> replace_first x xs = Some ys \<Longrightarrow> y \<in> set ys \<Longrightarrow> op_id y = op_id x \<Longrightarrow> y = x"
proof (induction xs arbitrary: ys)
  case (Cons a xs)
  have rest: "z \<in> set xs \<Longrightarrow> op_id z \<noteq> op_id x" if "op_id a = op_id x" for z
    using Cons.prems(1,2) that by (simp add: set_row_ids) (metis image_eqI)
  from Cons rest show ?case by (auto split: if_splits option.splits)
qed simp

lemma add_operation_cases:
  assumes "rows_ok c l"
  obtains (append) "add_operation now x l = append_bounded op_created (retention_cutoff transfer_retention_days now) x l"
      "op_id x = '''' \<or> op_id x \<notin> op_id ` set (lg_items l)"
  | (replace) ys where "op_id x \<noteq> ''''" "replace_first x (lg_items l) = Some ys" "add_operation now x l = l\<lparr>lg_items := ys\<rparr>"
proof (cases "if op_id x \<noteq> '''' then replace_first x (lg_items l) else None")
  case None
  with assms append show ?thesis
    by (auto simp: add_operation_def ensure_capacity_def rows_ok_def replace_first_none split: if_splits)
next
  case (Some ys)
  with assms replace show ?thesis by (auto simp: add_operation_def ensure_capacity_def rows_ok_def split: if_splits)
qed

lemma listed_id: "y \<in> set xs \<Longrightarrow> op_id y = op_id x \<Longrightarrow> op_id x \<in> op_id ` set xs"
  using image_eqI [of "op_id x" op_id y "set xs"] by simp

lemma add_operation_only:
  assumes "rows_ok c l" "op_id x \<noteq> ''''"
  shows "only_row x (add_operation now x l)"
  using assms(1)
proof (cases rule: add_operation_cases [where now = now and x = x])
  case append
  then show ?thesis
    using assms(2) set_append_bounded [of op_created "retention_cutoff transfer_retention_days now" x l]
      listed_id [of _ "lg_items l" x]
    by (auto simp: only_row_def)
next
  case (replace ys)
  then show ?thesis using assms replace_first_only [of "lg_items l" x ys] by (simp add: only_row_def rows_ok_def)
qed

lemma update_first_rows:
  "y \<in> set (fst (update_first i n xs)) \<Longrightarrow> \<exists>z \<in> set xs. op_id z = op_id y \<and> op_state z = op_state y \<and> (op_state z \<noteq> '''' \<longrightarrow> z = y)"
proof (induction xs)
  case (Cons a xs)
  then show ?case by (cases "update_first i n xs") (auto split: if_splits)
qed simp

lemma only_row_step:
  assumes "only_row x l" "rows_ok c l" "op_state x \<noteq> ''''" "leaves_row x e"
  shows "only_row x (ledger_step l e)"
proof (cases e)
  case (AddRow now z)
  with assms(4) have z: "op_id z \<noteq> op_id x" by simp
  from assms(2) have "only_row x (add_operation now z l)"
  proof (cases rule: add_operation_cases [where now = now and x = z])
    case append
    then show ?thesis
      using z assms(1) set_append_bounded [of op_created "retention_cutoff transfer_retention_days now" z l]
      by (fastforce simp: only_row_def)
  next
    case (replace ys)
    then show ?thesis using z assms(1) replace_first_others [of z "lg_items l" ys] by (auto simp: only_row_def)
  qed
  with AddRow show ?thesis by simp
next
  case (TickRow i n)
  have "y = x" if "y \<in> set (fst (update_first i n xs))" "op_id y = op_id x" "\<forall>y \<in> set xs. op_id y = op_id x \<longrightarrow> y = x" for xs y
    using update_first_rows [OF that(1)] that(2,3) assms(3) by metis
  with TickRow assms(1) show ?thesis by (auto simp: only_row_def update_progress_items)
next
  case ClearRows
  then show ?thesis by (simp add: only_row_def ledger_clear_def)
next
  case (LoadRows xs)
  with assms(4) listed_id [of _ xs x] show ?thesis by (auto simp: only_row_def)
qed

interpretation settled_row: guarded_stepper ledger_step "\<lambda>e. loads_rows c e \<and> leaves_row x e"
    "\<lambda>l. rows_ok c l \<and> (op_state x \<noteq> '''' \<longrightarrow> only_row x l)" for c x
  by unfold_locales (auto intro: ledger_step_ok only_row_step)

text \<open>
  A transfer is one row of the history, and a settled row stays what was recorded. Over every run of
  records, progress ticks, clearings and loads the ledger keeps its capacity and never lists an operation
  id twice; and once an operation was recorded with a state, no other row shows its id until it is
  recorded again or loaded: late progress ticks do not restate it.\<close>

theorem one_row_per_transfer:
  assumes "rows_ok c l0" "list_all (loads_rows c) es" "l = foldl ledger_step l0 es"
    and "op_id x \<noteq> ''''" "op_state x \<noteq> ''''"
    and "list_all (\<lambda>e. loads_rows c e \<and> leaves_row x e) later"
    and "l' = foldl ledger_step (add_operation now x l) later"
  shows "rows_ok c l' \<and> (\<forall>y \<in> set (lg_items l'). op_id y = op_id x \<longrightarrow> y = x)"
proof -
  have l: "rows_ok c l" using transfer_rows.allowed_run_inv [OF assms(1,2)] assms(3) by simp
  have "rows_ok c l' \<and> (op_state x \<noteq> '''' \<longrightarrow> only_row x l')" unfolding assms(7)
    by (rule settled_row.allowed_run_inv [OF _ assms(6)]) (simp add: add_operation_ok [OF l] add_operation_only [OF l assms(4)])
  with assms(5) show ?thesis by (simp add: only_row_def)
qed

definition demo_operation :: "string \<Rightarrow> string \<Rightarrow> int \<Rightarrow> operation" where
  "demo_operation i state n = \<lparr>op_id = i, op_drop_id = '''', op_kind = ''file'', op_name = ''a.txt'', op_size = 9, op_mime = '''',
     op_destination = '''', op_destination_fp = '''', op_destination_addr = '''', op_state = state, op_created = 5, op_updated = 5,
     op_bytes = n, op_verified = False, op_retry_safe = False, op_duplicate_risk = False, op_data_safe = True,
     op_error_code = '''', op_error_message = '''', op_next_action = '''', op_diagnostic = ''''\<rparr>"

theorem one_row_per_transfer_witness:
  "lg_items (foldl ledger_step (add_operation 7 (demo_operation ''op-1'' state_completed 9)
       (foldl ledger_step (new_operation_ledger 2) [AddRow 6 (demo_operation ''op-1'' '''' 0), TickRow ''op-1'' 4]))
     [TickRow ''op-1'' 3, AddRow 8 (demo_operation ''op-2'' '''' 0)]) =
   [demo_operation ''op-1'' state_completed 9, demo_operation ''op-2'' '''' 0] \<and>
   rows_ok 2 (foldl ledger_step (add_operation 7 (demo_operation ''op-1'' state_completed 9)
       (foldl ledger_step (new_operation_ledger 2) [AddRow 6 (demo_operation ''op-1'' '''' 0), TickRow ''op-1'' 4]))
     [TickRow ''op-1'' 3, AddRow 8 (demo_operation ''op-2'' '''' 0)])"
proof -
  let ?later = "[TickRow ''op-1'' 3, AddRow 8 (demo_operation ''op-2'' '''' 0)]"
  have "rows_ok 2 (new_operation_ledger 2)" by (simp add: rows_ok_def new_operation_ledger_def new_ledger_def)
  moreover have "list_all (loads_rows 2) [AddRow 6 (demo_operation ''op-1'' '''' 0), TickRow ''op-1'' 4]" by simp
  moreover have "op_id (demo_operation ''op-1'' state_completed 9) \<noteq> ''''"
    "op_state (demo_operation ''op-1'' state_completed 9) \<noteq> ''''"
    by (simp_all add: demo_operation_def state_completed_def)
  moreover have "list_all (\<lambda>e. loads_rows 2 e \<and> leaves_row (demo_operation ''op-1'' state_completed 9) e) ?later"
    by (simp add: demo_operation_def)
  moreover have "lg_items (foldl ledger_step (add_operation 7 (demo_operation ''op-1'' state_completed 9)
       (foldl ledger_step (new_operation_ledger 2) [AddRow 6 (demo_operation ''op-1'' '''' 0), TickRow ''op-1'' 4])) ?later) =
    [demo_operation ''op-1'' state_completed 9, demo_operation ''op-2'' '''' 0]" by code_simp
  ultimately show ?thesis
    using one_row_per_transfer [where c = 2 and now = 7 and later = ?later] refl by blast
qed

section \<open>Restarts\<close>

text \<open>
  What is asked of the encoder, for the records written: that decoding inverts it. Their number is bounded
  but not the length of a name or an address in them, so the file may become too large to be read again.
\<close>

definition codec_keeps :: "'a history_codec \<Rightarrow> 'a list \<Rightarrow> bool" where
  "codec_keeps hc items \<longleftrightarrow> (\<forall>data. hc_encode hc items = Some data \<longrightarrow> hc_decode hc data = Some items)"

definition fits_history :: "'a history_codec \<Rightarrow> 'a list \<Rightarrow> bool" where
  "fits_history hc items \<longleftrightarrow>
     (case hc_encode hc items of None \<Rightarrow> False | Some data \<Rightarrow> length data \<le> max_history_bytes)"

text \<open>What a load finds of a ledger that was written.\<close>

definition reloadable :: "('a \<Rightarrow> go_time) \<Rightarrow> ('a \<Rightarrow> bool) \<Rightarrow> int \<Rightarrow> go_time \<Rightarrow> 'a list \<Rightarrow> 'a list" where
  "reloadable created valid days now items =
     filter (\<lambda>x. valid x \<and> (created x = 0 \<or> \<not> created x < retention_cutoff days now)) items"

lemma prune_later:
  assumes "now \<le> now'"
  shows "prune_by_age cr (retention_cutoff days now') (filter valid (prune_by_age cr (retention_cutoff days now) items)) =
    reloadable cr valid days now' items"
  using assms unfolding prune_by_age_def reloadable_def filter_filter retention_cutoff_def
  by (intro filter_cong) auto

lemma newest_prune:
  "int (length items) \<le> bound \<Longrightarrow> newest bound (prune_by_age cr t items) = prune_by_age cr t items"
  "int (length items) \<le> bound \<Longrightarrow> newest bound (prune_by_age cr t (filter P items)) = prune_by_age cr t (filter P items)"
  using length_prune [of cr t items] length_prune [of cr t "filter P items"] length_filter_le [of P items]
  by (rule_tac [!] newest_all) linarith+

lemma load_written:
  assumes "codec_keeps hc (prune_by_age cr (retention_cutoff days now) items)"
    and "int (length items) \<le> bound" "now \<le> io_now io'" "\<not> io_read io'"
    and "hc_encode hc (prune_by_age cr (retention_cutoff days now) items) = Some data"
    and "fs_dir f name = Some (Regular data)"
  shows "load_history cr valid days bound hc name io' f =
    (if fits_history hc (prune_by_age cr (retention_cutoff days now) items)
     then Some (reloadable cr valid days (io_now io') items) else None)"
proof -
  let ?kept = "prune_by_age cr (retention_cutoff days now) items"
  have len: "int (length ?kept) \<le> bound"
    using length_prune [of cr "retention_cutoff days now" items] assms(2) by linarith
  from assms(1,5) have "hc_decode hc data = Some ?kept" by (simp add: codec_keeps_def)
  moreover have "newest bound (prune_by_age cr (retention_cutoff days (io_now io')) (filter valid ?kept)) =
      reloadable cr valid days (io_now io') items"
    unfolding newest_prune(2) [OF len] by (rule prune_later [OF assms(3)])
  ultimately show ?thesis using assms(4,5,6) by (simp add: load_history_def fits_history_def)
qed

text \<open>
  Writing a ledger: afterwards, and in every directory that can be observed on the way, a load finds the
  records of before or those of now; or nothing, while the old file stands under the backup name only.
\<close>

lemma persist_then_load:
  assumes "trim_space dir \<noteq> ''''" "codec_keeps hc (prune_by_age cr (retention_cutoff days (io_now io)) items)"
    and "int (length items) \<le> bound"
    and "io_tmp io \<noteq> name" "io_bak io \<noteq> name" "io_tmp io \<noteq> io_bak io"
    and "io_now io \<le> io_now io'" "\<not> io_read io'"
    and "persist_history cr days bound hc name dir io items (fs_now d) = (f, ok)"
    and "loaded = (if fits_history hc (prune_by_age cr (retention_cutoff days (io_now io)) items)
      then Some (reloadable cr valid days (io_now io') items) else None)"
  shows "(ok \<longrightarrow> load_history cr valid days bound hc name io' f = loaded) \<and>
    list_all (\<lambda>d'. load_history cr valid days bound hc name io' (fs_now d') = load_history cr valid days bound hc name io' (fs_now d) \<or>
      load_history cr valid days bound hc name io' (fs_now d') = loaded \<or>
      d' name = None \<and> d' (io_bak io) = d name) (fs_log f)"
proof -
  let ?kept = "prune_by_age cr (retention_cutoff days (io_now io)) items"
  have kept: "newest bound ?kept = ?kept" by (rule newest_prune(1) [OF assms(3)])
  define L where "L = load_history cr valid days bound hc name io'"
  have same: "d' name = d'' name \<Longrightarrow> L (fs_now d') = L (fs_now d'')" for d' d''
    by (simp add: L_def load_history_def)
  show ?thesis
  proof (cases "hc_encode hc ?kept")
    case None
    with assms(1,9) kept have "f = fs_now d" "\<not> ok" by (auto simp: persist_history_def Let_def)
    then show ?thesis by simp
  next
    case (Some data)
    with assms(1,9) kept
    have w: "write_tombstone_file (io_faults io) (io_tmp io) (io_bak io) name (Some data) (fs_now d) = (f, ok)"
      by (simp add: persist_history_def write_atomic_transfer_file_def Let_def)
    from tombstone_file_intact [OF assms(4-6) w]
    have intact: "list_all (intact name (io_bak io) (d name) (Some data)) (fs_log f)"
      and installed: "ok \<longrightarrow> fs_dir f name = Some (Regular data)" by auto
    have new: "fs_dir g name = Some (Regular data) \<Longrightarrow> L g = loaded" for g
      unfolding L_def assms(10) by (rule load_written [OF assms(2,3,7,8) Some])
    have "L (fs_now d') = L (fs_now d) \<or> L (fs_now d') = loaded \<or>
        d' name = None \<and> d' (io_bak io) = d name" if "d' \<in> set (fs_log f)" for d'
    proof -
      from intact that have "intact name (io_bak io) (d name) (Some data) d'" by (simp add: list_all_iff)
      then consider "d' name = d name" | "d' name = Some (Regular data)" | "d' name = None" "d' (io_bak io) = d name"
        by (auto simp: intact_def)
      then show ?thesis
      proof cases
        case 1
        then show ?thesis using same by blast
      next
        case 2
        then show ?thesis using new [of "fs_now d'"] by simp
      qed simp
    qed
    then have "list_all (\<lambda>d'. L (fs_now d') = L (fs_now d) \<or> L (fs_now d') = loaded \<or>
      d' name = None \<and> d' (io_bak io) = d name) (fs_log f)" unfolding list_all_iff by blast
    with installed new show ?thesis unfolding L_def by blast
  qed
qed

text \<open>
  C30. What a restart makes of the history of the transfers. When recording a transfer reported a written
  file, a later start that can read it loads, in order, exactly the records of the ledger that are younger
  than thirty days and pass \<open>validPersistedOperation\<close> (a record without a state and a suppressed
  duplicate do not) - or nothing at all, if the file written has more than 1 MiB. Wherever a crash cuts the
  write, the next start loads the history of before or that one, or the file of before is left under the
  backup name. The encoder is assumed to be inverted by the decoder on the records written.
\<close>

theorem history_survives_restart:
  assumes "trim_space dir \<noteq> ''''" "rows_ok max_outbound_operations l"
    and "written = prune_by_age op_created (retention_cutoff transfer_retention_days (io_now io)) (lg_items l)"
    and "codec_keeps hc written"
    and "io_tmp io \<noteq> transfer_persist_file_name" "io_bak io \<noteq> transfer_persist_file_name" "io_tmp io \<noteq> io_bak io"
    and "io_now io \<le> io_now io'" "\<not> io_read io'"
    and "persist_outbound_operations hc dir io (lg_items l) (fs_now d) = (f, ok)"
    and "restarted = (\<lambda>g. lg_items (hs_operations (load_outbound_operations hc io' dir
           \<lparr>hs_dir = dir, hs_operations = new_operation_ledger max_outbound_operations,
             hs_relays = new_relay_ledger max_relay_history, hs_files = g\<rparr>)))"
    and "kept = (if fits_history hc written
      then reloadable op_created valid_persisted_operation transfer_retention_days (io_now io') (lg_items l) else [])"
  shows "(ok \<longrightarrow> restarted f = kept) \<and>
    list_all (\<lambda>d'. restarted (fs_now d') \<in> {restarted (fs_now d), kept} \<or>
      d' transfer_persist_file_name = None \<and> d' (io_bak io) = d transfer_persist_file_name) (fs_log f)"
proof -
  let ?load = "load_history op_created valid_persisted_operation transfer_retention_days max_outbound_operations hc
     transfer_persist_file_name io'"
  define loaded where "loaded = (if fits_history hc written
    then Some (reloadable op_created valid_persisted_operation transfer_retention_days (io_now io') (lg_items l)) else None)"
  have re: "restarted g = (case ?load g of None \<Rightarrow> [] | Some items \<Rightarrow> items)" for g
    using assms(1) by (auto simp: assms(11) load_outbound_operations_def new_operation_ledger_def new_ledger_def split: option.splits)
  have new: "kept = (case loaded of None \<Rightarrow> [] | Some items \<Rightarrow> items)" by (simp add: assms(12) loaded_def)
  have len: "int (length (lg_items l)) \<le> max_outbound_operations" using assms(2) by (simp add: rows_ok_def)
  note p = persist_then_load [OF assms(1) assms(4) [unfolded assms(3)] len assms(5-9)
      assms(10) [unfolded persist_outbound_operations_def] loaded_def [unfolded assms(3)]]
  from p have "list_all (\<lambda>d'. restarted (fs_now d') \<in> {restarted (fs_now d), kept} \<or>
      d' transfer_persist_file_name = None \<and> d' (io_bak io) = d transfer_persist_file_name) (fs_log f)"
    by (auto simp: list_all_iff re new)
  moreover from p have "ok \<longrightarrow> restarted f = kept" by (simp add: re new)
  ultimately show ?thesis by blast
qed

definition demo_history_io :: "go_time \<Rightarrow> history_io" where
  "demo_history_io now = \<lparr>io_now = now, io_faults = demo_faults\<lparr>fl_rename := False\<rparr>, io_tmp = ''x'', io_bak = ''y'',
     io_read = False, io_remove = False\<rparr>"

text \<open>A codec of one byte for the records in the tests.\<close>

definition demo_ledger :: "operation ledger" where
  "demo_ledger = \<lparr>lg_capacity = max_outbound_operations,
     lg_items = [demo_operation ''op-1'' state_completed 9, demo_operation ''op-2'' '''' 0, demo_operation ''op-3'' state_duplicate_suppressed 9]\<rparr>"

definition demo_history_codec :: "operation history_codec" where
  "demo_history_codec = \<lparr>hc_encode = (\<lambda>xs. if xs = lg_items demo_ledger then Some ''J'' else None),
     hc_decode = (\<lambda>bs. if bs = ''J'' then Some (lg_items demo_ledger) else None)\<rparr>"

theorem history_survives_restart_witness:
  "(let (f, ok) = persist_outbound_operations demo_history_codec ''/s'' (demo_history_io 6) (lg_items demo_ledger) (fs_now (\<lambda>_. None))
    in ok \<and> lg_items (hs_operations (load_outbound_operations demo_history_codec (demo_history_io 7) ''/s''
           \<lparr>hs_dir = ''/s'', hs_operations = new_operation_ledger max_outbound_operations,
             hs_relays = new_relay_ledger max_relay_history, hs_files = f\<rparr>)) =
     reloadable op_created valid_persisted_operation transfer_retention_days 7 (lg_items demo_ledger))"
proof -
  obtain f ok where p: "persist_outbound_operations demo_history_codec ''/s'' (demo_history_io 6) (lg_items demo_ledger) (fs_now (\<lambda>_. None)) = (f, ok)"
    by fastforce
  have ok: "snd (persist_outbound_operations demo_history_codec ''/s'' (demo_history_io 6) (lg_items demo_ledger) (fs_now (\<lambda>_. None)))"
    by code_simp
  let ?written = "prune_by_age op_created (retention_cutoff transfer_retention_days (io_now (demo_history_io 6))) (lg_items demo_ledger)"
  have w: "?written = lg_items demo_ledger" by code_simp
  have "codec_keeps demo_history_codec ?written"
    unfolding w by (simp add: codec_keeps_def demo_history_codec_def)
  moreover have "fits_history demo_history_codec ?written"
    unfolding w by (simp add: fits_history_def demo_history_codec_def max_history_bytes_def)
  moreover have "rows_ok max_outbound_operations demo_ledger" by code_simp
  moreover have "trim_space ''/s'' \<noteq> ''''" by code_simp
  ultimately show ?thesis
    using history_survives_restart [OF _ _ refl _ _ _ _ _ _ p refl refl, of "demo_history_io 7"] ok p
    by (simp add: demo_history_io_def transfer_persist_file_name_def)
qed

text \<open>
  A load drops what a transfer left behind that was under way or suppressed as a duplicate: neither
  state is one that \<open>validPersistedOperation\<close> accepts.
\<close>

lemma restart_forgets_rows:
  "op_state x \<in> {'''', state_duplicate_suppressed} \<Longrightarrow> x \<notin> set (reloadable cr valid_persisted_operation days now items)"
  by (auto simp: reloadable_def valid_persisted_operation_def operation_states)

lemma relay_history_survives:
  assumes "trim_space dir \<noteq> ''''"
    and "codec_keeps hc (prune_by_age ra_created (retention_cutoff relay_history_retention_days (io_now io)) items)"
    and "fits_history hc (prune_by_age ra_created (retention_cutoff relay_history_retention_days (io_now io)) items)"
    and "int (length items) \<le> max_relay_history"
    and "io_tmp io \<noteq> relay_history_filename" "io_bak io \<noteq> relay_history_filename" "io_tmp io \<noteq> io_bak io"
    and "io_now io \<le> io_now io'" "\<not> io_read io'"
    and "persist_relay_history hc dir io items (fs_now d) = (f, True)"
  shows "load_relay_history hc io' dir f = reloadable ra_created valid_relay_attempt relay_history_retention_days (io_now io') items"
  using persist_then_load [OF assms(1,2,4-9) assms(10) [unfolded persist_relay_history_def] refl, of valid_relay_attempt] assms(1,3)
  by (simp add: load_relay_history_def)

text \<open>The ledger of the sign-ins is bounded over every run.\<close>

datatype relay_ledger_event =
    AddAttempt go_time relay_attempt
  | ChangeAttempt go_time string string string string
  | ClearAttempts

fun relay_ledger_step :: "relay_attempt ledger \<Rightarrow> relay_ledger_event \<Rightarrow> relay_attempt ledger" where
  "relay_ledger_step l (AddAttempt now x) = add_relay now x l"
| "relay_ledger_step l (ChangeAttempt now i st c n) =
     update_relay now i (\<lambda>x. x\<lparr>ra_state := st, ra_error_code := c, ra_next_action := n\<rparr>) l"
| "relay_ledger_step l ClearAttempts = fst (ledger_clear l)"

lemma change_first_length [simp]: "length (change_first i f xs) = length xs"
  by (induction xs) simp_all

interpretation relay_rows: bounded_stepper relay_ledger_step
    "\<lambda>l :: relay_attempt ledger. 0 < lg_capacity l \<and> int (length (lg_items l)) \<le> lg_capacity l" "\<lambda>l. int (length (lg_items l))" "\<lambda>l. if 0 < lg_capacity l then lg_capacity l else max_relay_history"
proof unfold_locales
  fix s :: "relay_attempt ledger" and e
  assume "0 < lg_capacity s \<and> int (length (lg_items s)) \<le> lg_capacity s"
  then show "0 < lg_capacity (relay_ledger_step s e) \<and> int (length (lg_items (relay_ledger_step s e))) \<le> lg_capacity (relay_ledger_step s e)"
    using append_bounded_length [of s]
    by (cases e) (auto simp: add_relay_def ensure_capacity_def update_relay_def ledger_clear_def)
next
  fix s :: "relay_attempt ledger" and e
  show "(if 0 < lg_capacity (relay_ledger_step s e) then lg_capacity (relay_ledger_step s e) else max_relay_history) =
    (if 0 < lg_capacity s then lg_capacity s else max_relay_history)"
    by (cases e) (auto simp: add_relay_def ensure_capacity_def update_relay_def ledger_clear_def max_relay_history_def)
qed auto

lemma relay_ledger_bounded: "length (lg_items (foldl relay_ledger_step (new_relay_ledger max_relay_history) es)) \<le> 50"
  using relay_rows.run_used [of "new_relay_ledger max_relay_history" es]
  by (simp add: new_relay_ledger_def new_ledger_def max_relay_history_def)

section \<open>What a verdict promises\<close>

text \<open>The words by which a text is taken for a failure that saved nothing, whatever was sent.\<close>

definition settled_words :: "string list" where
  "settled_words = [''quota'', ''too many'', ''busy'', ''503'', ''checksum'', ''sha-256'', ''sha256'', ''final size mismatch'',
     ''byte count mismatch'', ''drop_ack'', ''resume offset'', ''invalid resume'', ''resumption'', ''drop_data'', ''read payload'',
     ''write payload'', ''chunk'', ''dial'', ''connection refused'', ''no such host'', ''i/o timeout'', ''tls'', ''certificate'',
     ''not a trusted'', ''not the configured'', ''failed to connect'', ''connect'']"

lemma verdict_cases:
  "ve_retry_safe (retryable c p n)" "\<not> ve_duplicate_risk (retryable c p n)" "ve_data_safe (retryable c p n)"
  "\<not> ve_retry_safe (maybe_saved c p n)" "ve_duplicate_risk (maybe_saved c p n)" "ve_data_safe (maybe_saved c p n)"
  by (simp_all add: retryable_def maybe_saved_def)

lemma rejection_is_retryable: "\<exists>c p n. classify_rejection reason = retryable c p n"
  unfolding classify_rejection_def Let_def by (auto split: if_split)

text \<open>
  The report of a failed transfer is never both safe to retry and at risk of a duplicate, and never
  neither; the data of the sender is always safe. A rejection that the receiver stated is no risk.
  Otherwise a risk is reported only when every byte was sent or the confirmation was awaited, and it is
  reported when every byte was sent, unless the text has one of the words by which it is taken for
  another failure. So no failure is recorded as terminal.\<close>

theorem verdict_names_one_action:
  assumes "v = classify_transfer_error err sent full cancelled"
  shows "ve_retry_safe v = (\<not> ve_duplicate_risk v) \<and> ve_data_safe v \<and>
    operation_state_for_failure (ve_retry_safe v) (ve_duplicate_risk v) cancelled \<noteq> state_terminal_failure \<and>
    (case err of
       Inl reason \<Rightarrow> \<not> ve_duplicate_risk v
     | Inr msg \<Rightarrow>
        (ve_duplicate_risk v \<longrightarrow> (0 < full \<and> full \<le> sent) \<or> contains_sub (to_lower msg) ''drop_complete'' \<or>
           contains_sub (to_lower msg) ''receive drop_complete'') \<and>
        (0 < full \<and> full \<le> sent \<and> \<not> mentions (to_lower msg) settled_words \<longrightarrow> ve_duplicate_risk v))"
proof (cases err)
  case (Inl reason)
  obtain c p n where "classify_rejection reason = retryable c p n" using rejection_is_retryable by blast
  with Inl assms have "v = retryable c p n" by (simp add: classify_transfer_error_def)
  with Inl show ?thesis by (simp add: verdict_cases operation_state_for_failure_def operation_states)
next
  case (Inr msg)
  show ?thesis
    unfolding assms Inr classify_transfer_error_def Let_def sum.case
    by (auto simp: verdict_cases unknown_outcome_def transfer_interrupted_def destination_unreachable_def
        operation_state_for_failure_def operation_states settled_words_def mentions_def)
qed

theorem verdict_names_one_action_witness:
  "ve_code (classify_transfer_error (Inr ''receive drop_complete: EOF'') 9 9 False) = ''unknown_outcome'' \<and>
   \<not> ve_retry_safe (classify_transfer_error (Inr ''receive drop_complete: EOF'') 9 9 False)"
proof -
  have "\<not> mentions (to_lower ''receive drop_complete: EOF'') settled_words" by code_simp
  then have "\<not> ve_retry_safe (classify_transfer_error (Inr ''receive drop_complete: EOF'') 9 9 False)"
    using verdict_names_one_action [OF refl, of "Inr ''receive drop_complete: EOF''" 9 9 False] by simp
  then show ?thesis by (intro conjI) (code_simp, simp)
qed

text \<open>
  Texts that are taken for the wrong failure: a port number for a busy receiver, and a receipt of the
  receiver that reports success for a file that was not saved, each after every byte was sent.
\<close>

lemma port_number_read_as_busy:
  "ve_code (classify_transfer_error (Inr ''receive drop_complete: read tcp 10.0.0.1:50312: connection reset by peer'') 9 9 False) =
     ''receiver_busy''"
  "ve_retry_safe (classify_transfer_error (Inr ''receive drop_complete: read tcp 10.0.0.1:50312: connection reset by peer'') 9 9 False)"
  by code_simp+

lemma receipt_mismatch_read_as_unsaved:
  "ve_code (classify_transfer_error (Inr ''drop_complete checksum mismatch: got, want'') 9 9 False) = ''integrity_rejected''"
  "ve_retry_safe (classify_transfer_error (Inr ''drop_complete checksum mismatch: got, want'') 9 9 False)"
  by code_simp+

text \<open>An empty file is reported as not saved although all of it was sent.\<close>

lemma empty_file_read_as_unsaved:
  "ve_code (classify_transfer_error (Inr ''receive drop_complete: context deadline exceeded'') 0 0 False) = ''transfer_timeout''"
  "ve_code (classify_transfer_error (Inr ''receive drop_complete: context canceled'') 0 0 True) = ''cancelled''"
  by code_simp+

end
