(* ===== verification/Relay_Coordinator.thy ===== *)
theory Relay_Coordinator
  imports Hub_History
begin

text \<open>
  Sign-ins that this machine sends to another (internal/hub/relay_coordinator.go): requests for the same
  login share one call, a call can be cancelled at any moment, and every attempt is recorded. The
  pointers of the Go code are indices into the list of all calls ever made.
\<close>

section \<open>Calls\<close>

definition max_relay_active_entries :: nat where "max_relay_active_entries = 128"

text \<open>Why the context of a flow ended; \<open>FlowReturned\<close> is its own deferred cancel.\<close>

datatype cancel_cause = UserCancelled | TimerFired | HubStopped | FlowReturned

text \<open>\<open>rk_cause\<close> is the context the flow runs in, with its cause once it has ended.\<close>

record relay_call =
  rk_key :: string
  rk_started :: go_time
  rk_done :: bool
  rk_error :: "string option"
  rk_cancel :: bool
  rk_released :: bool
  rk_request_id :: string
  rk_peer :: string
  rk_flow_id :: string
  rk_registered :: bool
  rk_cause :: "cancel_cause option"

definition new_call :: "string \<Rightarrow> go_time \<Rightarrow> relay_call" where
  "new_call key now = \<lparr>rk_key = key, rk_started = now, rk_done = False, rk_error = None, rk_cancel = False, rk_released = False,
     rk_request_id = '''', rk_peer = '''', rk_flow_id = '''', rk_registered = False, rk_cause = None\<rparr>"

text \<open>The first cause stays.\<close>

definition end_context :: "cancel_cause \<Rightarrow> relay_call \<Rightarrow> relay_call" where
  "end_context cause c = (if rk_cause c = None then c\<lparr>rk_cause := Some cause\<rparr> else c)"

definition call_register :: "string \<Rightarrow> string \<Rightarrow> string \<Rightarrow> relay_call \<Rightarrow> relay_call" where
  "call_register request_id peer_id flow_id c =
     (let c1 = c\<lparr>rk_cancel := True, rk_request_id := request_id, rk_peer := peer_id, rk_flow_id := flow_id, rk_registered := True\<rparr>
      in if rk_released c then end_context UserCancelled c1 else c1)"

definition call_clear :: "relay_call \<Rightarrow> relay_call" where
  "call_clear c = c\<lparr>rk_cancel := False, rk_registered := False\<rparr>"

definition call_release :: "relay_call \<Rightarrow> relay_call \<times> bool" where
  "call_release c =
     (if \<not> rk_cancel c then (c\<lparr>rk_released := True\<rparr>, True)
      else (end_context UserCancelled (c\<lparr>rk_released := True\<rparr>), True))"

section \<open>The coordinator\<close>

record coordinator =
  co_calls :: "relay_call list"
  co_active :: "(string \<times> nat) list"

definition new_relay_coordinator :: coordinator where
  "new_relay_coordinator = \<lparr>co_calls = [], co_active = []\<rparr>"

definition on_call :: "nat \<Rightarrow> (relay_call \<Rightarrow> relay_call) \<Rightarrow> coordinator \<Rightarrow> coordinator" where
  "on_call n f co = co\<lparr>co_calls := (co_calls co)[n := f (co_calls co ! n)]\<rparr>"

text \<open>\<open>Do\<close> up to the flow: a caller whose context has ended, one that waits for a call, one too many, or a leader.\<close>

datatype do_entry = CallerGone | Joins nat | TooManyRelays | Leads nat

definition do_enter :: "bool \<Rightarrow> go_time \<Rightarrow> string \<Rightarrow> coordinator \<Rightarrow> coordinator \<times> do_entry" where
  "do_enter gone now key co =
     (if gone then (co, CallerGone)
      else (case map_of (co_active co) key of
        Some n \<Rightarrow> (co, Joins n)
      | None \<Rightarrow>
          if length (co_active co) \<ge> max_relay_active_entries then (co, TooManyRelays)
          else (co\<lparr>co_calls := co_calls co @ [new_call key now], co_active := AList.update key (length (co_calls co)) (co_active co)\<rparr>,
                Leads (length (co_calls co)))))"

text \<open>The rest of \<open>Do\<close> for the leader, with the error of its flow.\<close>

definition do_finish :: "nat \<Rightarrow> string option \<Rightarrow> coordinator \<Rightarrow> coordinator \<times> (string \<times> string option)" where
  "do_finish n err co =
     (let attempt_id = rk_request_id (co_calls co ! n);
          co1 = on_call n (\<lambda>c. c\<lparr>rk_error := err, rk_done := True\<rparr>) co
      in (co1\<lparr>co_active := AList.delete (rk_key (co_calls co ! n)) (co_active co)\<rparr>, (attempt_id, err)))"

text \<open>What a waiting caller is told: the call is still on (\<open>None\<close>), or its id and error; or its own context ended.\<close>

definition do_wait :: "bool \<Rightarrow> nat \<Rightarrow> coordinator \<Rightarrow> (string \<times> string option) option" where
  "do_wait gone n co =
     (if gone then Some ('''', Some ''context canceled'')
      else if rk_done (co_calls co ! n) then Some (rk_request_id (co_calls co ! n), rk_error (co_calls co ! n))
      else None)"

definition release_call :: "nat \<Rightarrow> coordinator \<Rightarrow> coordinator" where
  "release_call n co = on_call n (fst \<circ> call_release) co"

definition cancel_flow :: "string \<Rightarrow> coordinator \<Rightarrow> coordinator \<times> bool" where
  "cancel_flow key co =
     (case map_of (co_active co) key of
        None \<Rightarrow> (co, False)
      | Some n \<Rightarrow> (release_call n co, snd (call_release (co_calls co ! n))))"

definition calls_of_attempt :: "string \<Rightarrow> coordinator \<Rightarrow> nat list" where
  "calls_of_attempt i co = map snd (filter (\<lambda>(k, n). rk_request_id (co_calls co ! n) = i) (co_active co))"

definition cancel_attempt :: "string \<Rightarrow> coordinator \<Rightarrow> coordinator \<times> bool" where
  "cancel_attempt i co =
     (if trim_space i = '''' then (co, False)
      else
        let found = calls_of_attempt i co
        in if found = [] then (co, False) else (foldl (\<lambda>co n. release_call n co) co found, True))"

subsection \<open>Listing\<close>

record active_relay =
  ar_operation_id :: string
  ar_peer :: string
  ar_age :: int
  ar_age_seconds :: int
  ar_state :: string
  ar_flow_id :: string
  ar_flow_key :: string

definition describe_relay :: "go_time \<Rightarrow> relay_call \<Rightarrow> active_relay" where
  "describe_relay now c =
     \<lparr>ar_operation_id = rk_request_id c, ar_peer = rk_peer c, ar_age = now - rk_started c,
      ar_age_seconds = go_div (now - rk_started c) 1000000000,
      ar_state = (if rk_registered c then ''relaying'' else ''starting''),
      ar_flow_id = rk_flow_id c, ar_flow_key = rk_key c\<rparr>"

text \<open>Oldest first; of calls of the same age, any order (here that of the active list).\<close>

definition relay_snapshot :: "go_time \<Rightarrow> coordinator \<Rightarrow> active_relay list" where
  "relay_snapshot now co = sort_key (\<lambda>r. - ar_age r) (map (\<lambda>(k, n). describe_relay now (co_calls co ! n)) (co_active co))"

section \<open>Identities\<close>

text \<open>What is hashed into the key of a request.\<close>

definition relay_key_text :: "net_lib \<Rightarrow> (string \<Rightarrow> string) \<Rightarrow> string \<Rightarrow> string \<Rightarrow> string" where
  "relay_key_text nl sha peer_id raw =
     (let canonical = sanitize_url nl (trim_space raw); flow = derive_oauth_flow_id nl sha canonical
      in if flow \<noteq> '''' then trim_space peer_id @ [nul] @ flow @ [nul] @ request_url_identity nl sha canonical
         else
           peer_id @ [nul] @
             (case nl_parse nl canonical of
                None \<Rightarrow> canonical
              | Some parsed \<Rightarrow> nl_string nl (parsed\<lparr>ur_raw_query := nl_encode nl (url_query nl parsed)\<rparr>)))"

definition relay_request_key :: "net_lib \<Rightarrow> (string \<Rightarrow> string) \<Rightarrow> string \<Rightarrow> string \<Rightarrow> string" where
  "relay_request_key nl sha peer_id raw = sha (relay_key_text nl sha peer_id raw)"

section \<open>Destinations\<close>

text \<open>
  What a hub knows when it names a destination: its store, if any, the transport, and the peer that is
  selected.
\<close>

record routing =
  ro_tx :: tx
  ro_store :: "store option"
  ro_transport :: string
  ro_active :: string

text \<open>\<open>resolveOperationDestination\<close>: a name to show, a fingerprint and an address.\<close>

definition resolve_operation_destination :: "routing \<Rightarrow> string \<Rightarrow> string \<times> string \<times> string" where
  "resolve_operation_destination ro target =
     (case ro_store ro of
        None \<Rightarrow> (let trimmed = (if trim_space target = '''' then ''default peer'' else trim_space target) in (trimmed, '''', trimmed))
      | Some s \<Rightarrow>
          let query = (if trim_space target = '''' then ro_active ro else trim_space target)
          in if query = '''' then
               (case list_peers (ro_tx ro) s of
                  [p] \<Rightarrow> (display_name p, pr_fingerprint p, pr_address p)
                | peers \<Rightarrow>
                    if peers = [] \<and> ro_transport ro = ''loopback'' then (''local Hub'', '''', '''') else (''default peer'', '''', ''''))
             else
               (case resolve_peer (ro_tx ro) query s of
                  Inr p \<Rightarrow> (display_name p, pr_fingerprint p, pr_address p)
                | Inl _ \<Rightarrow> (query, '''', query)))"

definition destination_attempt :: "routing \<Rightarrow> string \<Rightarrow> string \<Rightarrow> string \<Rightarrow> go_time \<Rightarrow> relay_attempt" where
  "destination_attempt ro target i origin now =
     (case resolve_operation_destination ro target of (name, fp, addr) \<Rightarrow>
        \<lparr>ra_id = i, ra_peer = name, ra_peer_fp = fp, ra_peer_addr = addr, ra_origin = origin, ra_state = relay_submitted,
         ra_created = now, ra_updated = now, ra_error_code = '''', ra_next_action = '''', ra_diagnostic = i\<rparr>)"

text \<open>\<open>relayOAuth\<close> up to \<open>Do\<close>: a refusal with its code and guidance, or the key, the peer to dial and the URL.\<close>

datatype relay_refusal = RelayURLTooLong | RelayURLInvalid url_error | RelayUnresolved resolve_error

definition relay_prepare ::
  "(string \<Rightarrow> string) \<Rightarrow> routing \<Rightarrow> string \<Rightarrow> string \<Rightarrow>
   (relay_refusal \<times> string \<times> string \<times> string) + (string \<times> string \<times> string)" where
  "relay_prepare sha ro peer_id raw =
     (let nl = tx_net (ro_tx ro); url = sanitize_url nl (trim_space raw)
      in if 64 * 1024 < length url then Inl (RelayURLTooLong, '''', ''invalid_input'', ''Fix the URL and retry.'')
         else (case validate_url nl url of
           Some e \<Rightarrow> Inl (RelayURLInvalid e, safe_relay_origin nl url, ''invalid_input'', ''Fix the URL and retry.'')
         | None \<Rightarrow>
             let key_peer = trim_space peer_id;
                 peer_key = (if key_peer = '''' then trim_space (ro_active ro) else key_peer)
             in (case ro_store ro of
                   None \<Rightarrow> Inr (relay_request_key nl sha key_peer url, peer_key, url)
                 | Some s \<Rightarrow>
                     (case resolve_peer (ro_tx ro) peer_key s of
                        Inr p \<Rightarrow> Inr (relay_request_key nl sha (pr_fingerprint p) url, pr_fingerprint p, url)
                      | Inl e \<Rightarrow>
                          if ro_transport ro = ''lan'' then
                            Inl (RelayUnresolved e, safe_relay_origin nl url, ''destination_unreachable'',
                              ''Check the peer is online and paired, then retry.'')
                          else Inr (relay_request_key nl sha key_peer url, peer_key, url)))))"

section \<open>Flows\<close>

text \<open>
  Where the closure that \<open>relayOAuth\<close> hands to \<open>Do\<close> stands: it entered, published its handle,
  recorded the attempt, marked it as waiting, has a connection, has recorded the outcome with the error
  it returns, has run \<open>clear\<close>, and the call is over.
\<close>

datatype flow_phase =
    FlowEntered | FlowPublished | FlowSubmitted | FlowWaiting | FlowDialled
  | FlowRecorded "string option" | FlowCleared "string option" | FlowOver

record relay_flow =
  fl_phase :: flow_phase
  fl_id :: string
  fl_dial_peer :: string
  fl_url :: string
  fl_caller_gone :: bool

text \<open>
  The hub: its coordinator, one flow for each call, its histories, who waits for which call, and whether
  its run context, on which the contexts of the flows are based, has ended.
\<close>

record relay_hub =
  rh_co :: coordinator
  rh_flows :: "relay_flow list"
  rh_history :: hub_history
  rh_waiting :: "nat list"
  rh_stopped :: bool

text \<open>What the hub's environment gives: the hash, the codec of the history and the routing at each step.\<close>

record relay_env =
  rl_sha :: "string \<Rightarrow> string"
  rl_codec :: "relay_attempt history_codec"

text \<open>
  The events: a caller arrives (with the id of a recorded refusal), the steps of the flow of call \<open>n\<close>,
  its timer, its caller or the hub goes away, and what \<open>CancelRelay\<close> does: releasing a call and
  recording the cancellation.
\<close>

datatype relay_event =
    Arrives history_io routing string string string bool
  | Publish nat string
  | RecordSubmitted nat history_io routing
  | RecordWaiting nat history_io
  | DialEnds nat history_io "string option"
  | BridgeEnds nat history_io "string option"
  | ClearsCall nat
  | ReturnsCall nat
  | TimerFires nat
  | CallerLeaves nat
  | HubStops
  | Releases nat
  | RecordsCancel history_io string

definition record_relay_failure ::
  "relay_env \<Rightarrow> history_io \<Rightarrow> routing \<Rightarrow> string \<Rightarrow> string \<Rightarrow> string \<Rightarrow> string \<Rightarrow> string \<Rightarrow> hub_history \<Rightarrow> hub_history" where
  "record_relay_failure e io ro target i origin err_code next_action h =
     record_relay_attempt (rl_codec e) io
       ((destination_attempt ro target i origin (io_now io))\<lparr>ra_state := relay_failed, ra_error_code := err_code, ra_next_action := next_action\<rparr>) h"

definition new_flow :: "string \<Rightarrow> string \<Rightarrow> relay_flow" where
  "new_flow dial_peer url = \<lparr>fl_phase = FlowEntered, fl_id = '''', fl_dial_peer = dial_peer, fl_url = url, fl_caller_gone = False\<rparr>"

definition relay_oauth :: "relay_env \<Rightarrow> history_io \<Rightarrow> routing \<Rightarrow> string \<Rightarrow> string \<Rightarrow> string \<Rightarrow> bool \<Rightarrow> relay_hub \<Rightarrow> relay_hub" where
  "relay_oauth e io ro peer_id raw fresh gone h =
     (case relay_prepare (rl_sha e) ro peer_id raw of
        Inl (refusal, origin, err_code, next_action) \<Rightarrow>
          h\<lparr>rh_history := record_relay_failure e io ro peer_id fresh origin err_code next_action (rh_history h)\<rparr>
      | Inr (key, dial_peer, url) \<Rightarrow>
          (case do_enter gone (io_now io) key (rh_co h) of
             (co, Leads n) \<Rightarrow> h\<lparr>rh_co := co, rh_flows := rh_flows h @ [new_flow dial_peer url]\<rparr>
           | (co, Joins n) \<Rightarrow> h\<lparr>rh_waiting := rh_waiting h @ [n]\<rparr>
           | (co, _) \<Rightarrow> h))"

definition set_phase :: "nat \<Rightarrow> flow_phase \<Rightarrow> relay_hub \<Rightarrow> relay_hub" where
  "set_phase n p h = h\<lparr>rh_flows := (rh_flows h)[n := (rh_flows h ! n)\<lparr>fl_phase := p\<rparr>]\<rparr>"

definition publish_flow :: "relay_env \<Rightarrow> net_lib \<Rightarrow> nat \<Rightarrow> string \<Rightarrow> relay_hub \<Rightarrow> relay_hub" where
  "publish_flow e nl n i h =
     (let f = rh_flows h ! n
      in h\<lparr>rh_co := on_call n (call_register i (fl_dial_peer f) (derive_oauth_flow_id nl (rl_sha e) (fl_url f)) \<circ>
             (if rh_stopped h then end_context HubStopped else id)) (rh_co h),
           rh_flows := (rh_flows h)[n := f\<lparr>fl_phase := FlowPublished, fl_id := i\<rparr>]\<rparr>)"

definition note_attempt :: "relay_env \<Rightarrow> history_io \<Rightarrow> string \<Rightarrow> string \<Rightarrow> string \<Rightarrow> string \<Rightarrow> relay_hub \<Rightarrow> relay_hub" where
  "note_attempt e io i state err_code next_action h =
     h\<lparr>rh_history := update_relay_attempt (rl_codec e) io i state err_code next_action (rh_history h)\<rparr>"

text \<open>How a failure of the bridge is recorded: the contexts are looked at first, then the text.\<close>

definition bridge_failure :: "bool \<Rightarrow> relay_call \<Rightarrow> string \<Rightarrow> string \<times> string \<times> string" where
  "bridge_failure caller_gone c msg =
     (if caller_gone \<or> rk_cause c \<noteq> None then (relay_cancelled, ''cancelled'', ''Retry the login flow.'')
      else if contains_sub (to_lower msg) ''timeout'' \<or> contains_sub (to_lower msg) ''deadline'' then
        (relay_failed, ''relay_timeout'', ''Retry; the authorization callback may have expired.'')
      else (relay_failed, ''relay_failed'', ''Check the peer is online, then retry the login.''))"

definition bridge_ends :: "relay_env \<Rightarrow> nat \<Rightarrow> history_io \<Rightarrow> string option \<Rightarrow> relay_hub \<Rightarrow> relay_hub" where
  "bridge_ends e n io err h =
     (let f = rh_flows h ! n
      in set_phase n (FlowRecorded err)
        (case err of
           None \<Rightarrow> note_attempt e io (fl_id f) relay_complete '''' '''' h
         | Some msg \<Rightarrow>
             (case bridge_failure (fl_caller_gone f) (co_calls (rh_co h) ! n) msg of (state, err_code, next_action) \<Rightarrow>
                note_attempt e io (fl_id f) state err_code next_action h)))"

definition at_phase :: "nat \<Rightarrow> flow_phase \<Rightarrow> relay_hub \<Rightarrow> bool" where
  "at_phase n p h \<longleftrightarrow> n < length (rh_flows h) \<and> fl_phase (rh_flows h ! n) = p"

definition live_flow :: "nat \<Rightarrow> relay_hub \<Rightarrow> bool" where
  "live_flow n h \<longleftrightarrow> n < length (rh_flows h) \<and> fl_phase (rh_flows h ! n) \<notin> {FlowEntered, FlowOver}"

fun relay_step :: "relay_env \<Rightarrow> net_lib \<Rightarrow> relay_hub \<Rightarrow> relay_event \<Rightarrow> relay_hub" where
  "relay_step e nl h (Arrives io ro peer_id raw fresh gone) = relay_oauth e io ro peer_id raw fresh gone h"
| "relay_step e nl h (Publish n i) = (if at_phase n FlowEntered h then publish_flow e nl n i h else h)"
| "relay_step e nl h (RecordSubmitted n io ro) =
     (if at_phase n FlowPublished h then
        (let f = rh_flows h ! n
         in set_phase n FlowSubmitted (h\<lparr>rh_history := record_relay_attempt (rl_codec e) io
              (destination_attempt ro (fl_dial_peer f) (fl_id f) (safe_relay_origin nl (fl_url f)) (io_now io)) (rh_history h)\<rparr>))
      else h)"
| "relay_step e nl h (RecordWaiting n io) =
     (if at_phase n FlowSubmitted h then set_phase n FlowWaiting (note_attempt e io (fl_id (rh_flows h ! n)) relay_waiting '''' '''' h)
      else h)"
| "relay_step e nl h (DialEnds n io err) =
     (if at_phase n FlowWaiting h then
        (case err of
           None \<Rightarrow> set_phase n FlowDialled h
         | Some msg \<Rightarrow>
             set_phase n (FlowRecorded (Some msg)) (note_attempt e io (fl_id (rh_flows h ! n)) relay_failed ''destination_unreachable''
               ''Check the peer is online and paired, then retry.'' h))
      else h)"
| "relay_step e nl h (BridgeEnds n io err) = (if at_phase n FlowDialled h then bridge_ends e n io err h else h)"
| "relay_step e nl h (ClearsCall n) =
     (if n < length (rh_flows h) then
        (case fl_phase (rh_flows h ! n) of
           FlowRecorded err \<Rightarrow> set_phase n (FlowCleared err) (h\<lparr>rh_co := on_call n (end_context FlowReturned \<circ> call_clear) (rh_co h)\<rparr>)
         | _ \<Rightarrow> h)
      else h)"
| "relay_step e nl h (ReturnsCall n) =
     (if n < length (rh_flows h) then
        (case fl_phase (rh_flows h ! n) of
           FlowCleared err \<Rightarrow> set_phase n FlowOver (h\<lparr>rh_co := fst (do_finish n err (rh_co h))\<rparr>)
         | _ \<Rightarrow> h)
      else h)"
| "relay_step e nl h (TimerFires n) = (if live_flow n h then h\<lparr>rh_co := on_call n (end_context TimerFired) (rh_co h)\<rparr> else h)"
| "relay_step e nl h (CallerLeaves n) =
     (if n < length (rh_flows h) then h\<lparr>rh_flows := (rh_flows h)[n := (rh_flows h ! n)\<lparr>fl_caller_gone := True\<rparr>]\<rparr> else h)"
| "relay_step e nl h HubStops = h\<lparr>rh_co := (rh_co h)\<lparr>co_calls := map (end_context HubStopped) (co_calls (rh_co h))\<rparr>, rh_stopped := True\<rparr>"
| "relay_step e nl h (Releases n) = (if n < length (co_calls (rh_co h)) then h\<lparr>rh_co := release_call n (rh_co h)\<rparr> else h)"
| "relay_step e nl h (RecordsCancel io i) =
     note_attempt e io i relay_cancelled ''cancelled'' ''The sign-in was released. Start it again when you are ready.'' h"

definition idle_hub :: "hub_history \<Rightarrow> relay_hub" where
  "idle_hub hist = \<lparr>rh_co = new_relay_coordinator, rh_flows = [], rh_history = hist, rh_waiting = [], rh_stopped = False\<rparr>"

section \<open>Cancelling\<close>

text \<open>
  \<open>CancelRelay\<close> as one operation: the snapshot, the target, its release, the answer of the peer (or no
  connection, or an error: \<open>False\<close>), and the record.
\<close>

record cancel_result =
  cx_operation :: string
  cx_released_local :: bool
  cx_released_remote :: bool
  cx_message :: string

definition pick_target :: "string \<Rightarrow> active_relay list \<Rightarrow> active_relay option" where
  "pick_target operation_id active =
     (if trim_space operation_id \<noteq> '''' then find (\<lambda>r. ar_operation_id r = operation_id) active
      else (case active of [] \<Rightarrow> None | r # _ \<Rightarrow> Some r))"

definition release_target :: "active_relay \<Rightarrow> coordinator \<Rightarrow> coordinator \<times> bool" where
  "release_target r co =
     (let (co1, released) = (if ar_operation_id r \<noteq> '''' then cancel_attempt (ar_operation_id r) co else (co, False))
      in if \<not> released \<and> ar_flow_key r \<noteq> '''' then cancel_flow (ar_flow_key r) co1 else (co1, released))"

definition cancel_relay ::
  "relay_env \<Rightarrow> history_io \<Rightarrow> (active_relay \<Rightarrow> bool) \<Rightarrow> string \<Rightarrow> relay_hub \<Rightarrow> relay_hub \<times> cancel_result" where
  "cancel_relay e io peer_released operation_id h =
     (let active = relay_snapshot (io_now io) (rh_co h);
          result = \<lparr>cx_operation = operation_id, cx_released_local = False, cx_released_remote = False, cx_message = ''''\<rparr>
      in if active = [] then
           (h, result\<lparr>cx_message := ''No sign-in is in progress. It may have already finished or timed out.''\<rparr>)
         else (case pick_target operation_id active of
           None \<Rightarrow> (h, result\<lparr>cx_message := ''That sign-in has already finished or timed out.''\<rparr>)
         | Some target \<Rightarrow>
             (case release_target target (rh_co h) of (co, local) \<Rightarrow>
                let remote = (trim_space (ar_peer target) \<noteq> '''' \<and> peer_released target);
                    message =
                      (if local \<and> remote then ''Sign-in cancelled. Both machines released it; you can start again.''
                       else if local then
                         ''Sign-in cancelled here. The other machine did not confirm, so it may release its side when it times out.''
                       else if remote then
                         ''The other machine released its sign-in. This machine had already stopped waiting.''
                       else ''Nothing was left to release; the sign-in had already ended.'')
                in (note_attempt e io (ar_operation_id target) relay_cancelled ''cancelled''
                      ''The sign-in was released. Start it again when you are ready.'' (h\<lparr>rh_co := co\<rparr>),
                    result\<lparr>cx_released_local := local, cx_released_remote := remote, cx_message := message\<rparr>))))"

section \<open>The invariant\<close>

lemma on_call_simps [simp]:
  "length (co_calls (on_call n f co)) = length (co_calls co)" "co_active (on_call n f co) = co_active co"
  by (simp_all add: on_call_def)

lemma on_call_nth: "co_calls (on_call n f co) ! m = (if m = n \<and> n < length (co_calls co) then f (co_calls co ! n) else co_calls co ! m)"
  by (cases "n < length (co_calls co)") (auto simp: on_call_def nth_list_update list_update_beyond not_less)

lemma end_context_simps [simp]:
  "rk_key (end_context x c) = rk_key c" "rk_done (end_context x c) = rk_done c" "rk_error (end_context x c) = rk_error c"
  "rk_cancel (end_context x c) = rk_cancel c" "rk_released (end_context x c) = rk_released c"
  "rk_request_id (end_context x c) = rk_request_id c" "rk_registered (end_context x c) = rk_registered c"
  "rk_cause (end_context x c) \<noteq> None" "\<exists>y. rk_cause (end_context x c) = Some y" "rk_cause c \<noteq> None \<Longrightarrow> rk_cause (end_context x c) = rk_cause c"
  by (simp_all add: end_context_def)

text \<open>Whether a flow has its handle published and not yet taken back.\<close>

definition handle_out :: "flow_phase \<Rightarrow> bool" where
  "handle_out p = (case p of FlowEntered \<Rightarrow> False | FlowCleared err \<Rightarrow> False | FlowOver \<Rightarrow> False | _ \<Rightarrow> True)"

text \<open>What holds of a call and its flow at all times.\<close>

definition call_ok :: "relay_call \<Rightarrow> relay_flow \<Rightarrow> bool" where
  "call_ok c f \<longleftrightarrow> rk_done c = (fl_phase f = FlowOver) \<and> rk_cancel c = handle_out (fl_phase f) \<and>
     rk_request_id c = fl_id f \<and> (rk_released c \<and> fl_phase f \<noteq> FlowEntered \<longrightarrow> rk_cause c \<noteq> None) \<and>
     (\<not> rk_cancel c \<and> fl_phase f \<noteq> FlowEntered \<longrightarrow> rk_cause c \<noteq> None)"

definition coordinator_ok :: "coordinator \<Rightarrow> bool" where
  "coordinator_ok co \<longleftrightarrow> keys_distinct (co_active co) \<and> length (co_active co) \<le> max_relay_active_entries \<and>
     (\<forall>k n. (k, n) \<in> set (co_active co) \<longleftrightarrow> n < length (co_calls co) \<and> rk_key (co_calls co ! n) = k \<and> \<not> rk_done (co_calls co ! n))"

definition relay_ok :: "relay_hub \<Rightarrow> bool" where
  "relay_ok h \<longleftrightarrow> coordinator_ok (rh_co h) \<and> length (rh_flows h) = length (co_calls (rh_co h)) \<and>
     (\<forall>n < length (rh_flows h). call_ok (co_calls (rh_co h) ! n) (rh_flows h ! n))"

lemma relay_ok_call: "relay_ok h \<Longrightarrow> n < length (rh_flows h) \<Longrightarrow> call_ok (co_calls (rh_co h) ! n) (rh_flows h ! n)"
  by (simp add: relay_ok_def)

text \<open>A change of one call that keeps its key and its being over, and of its flow.\<close>

lemma coordinator_ok_change:
  assumes "coordinator_ok co" "length calls = length (co_calls co)"
    and "\<And>n. n < length calls \<Longrightarrow> rk_key (calls ! n) = rk_key (co_calls co ! n) \<and> rk_done (calls ! n) = rk_done (co_calls co ! n)"
  shows "coordinator_ok (co\<lparr>co_calls := calls\<rparr>)"
proof -
  have "n < length calls \<and> rk_key (calls ! n) = k \<and> \<not> rk_done (calls ! n) \<longleftrightarrow>
      n < length (co_calls co) \<and> rk_key (co_calls co ! n) = k \<and> \<not> rk_done (co_calls co ! n)" for n k
    using assms(2) assms(3) [of n] by (cases "n < length calls") simp_all
  with assms(1) show ?thesis by (simp add: coordinator_ok_def)
qed

lemma coordinator_ok_on_call:
  assumes "coordinator_ok co" "\<And>c. rk_key (g c) = rk_key c \<and> rk_done (g c) = rk_done c"
  shows "coordinator_ok (on_call n g co)"
  unfolding on_call_def
proof (rule coordinator_ok_change [OF assms(1)])
  fix m assume "m < length ((co_calls co)[n := g (co_calls co ! n)])"
  then show "rk_key ((co_calls co)[n := g (co_calls co ! n)] ! m) = rk_key (co_calls co ! m) \<and>
    rk_done ((co_calls co)[n := g (co_calls co ! n)] ! m) = rk_done (co_calls co ! m)"
    using assms(2) [of "co_calls co ! m"] by (cases "m = n") simp_all
qed simp

lemma relay_ok_one:
  assumes "relay_ok h" "coordinator_ok (on_call n g (rh_co h))" "n < length (rh_flows h) \<Longrightarrow> call_ok (g (co_calls (rh_co h) ! n)) f"
  shows "relay_ok (h\<lparr>rh_co := on_call n g (rh_co h), rh_flows := (rh_flows h)[n := f]\<rparr>)"
proof -
  have "call_ok (co_calls (on_call n g (rh_co h)) ! m) ((rh_flows h)[n := f] ! m)" if "m < length (co_calls (rh_co h))" for m
    using assms relay_ok_call [OF assms(1), of m] that
    by (cases "m = n") (auto simp: relay_ok_def on_call_nth)
  with assms(1,2) show ?thesis by (simp add: relay_ok_def)
qed

lemma relay_ok_flow:
  assumes "relay_ok h" "n < length (rh_flows h) \<Longrightarrow> call_ok (co_calls (rh_co h) ! n) f"
  shows "relay_ok (h\<lparr>rh_flows := (rh_flows h)[n := f]\<rparr>)"
proof -
  have "on_call n id (rh_co h) = rh_co h" by (simp add: on_call_def)
  with relay_ok_one [of h n id f] assms show ?thesis by (simp add: relay_ok_def)
qed

lemma relay_ok_calls:
  assumes "relay_ok h" "\<And>c. rk_key (g c) = rk_key c \<and> rk_done (g c) = rk_done c"
    and "n < length (rh_flows h) \<Longrightarrow> call_ok (g (co_calls (rh_co h) ! n)) (rh_flows h ! n)"
  shows "relay_ok (h\<lparr>rh_co := on_call n g (rh_co h)\<rparr>)"
proof -
  have "coordinator_ok (rh_co h)" using assms(1) by (simp add: relay_ok_def)
  from relay_ok_one [OF assms(1) coordinator_ok_on_call [OF this assms(2)] assms(3)] show ?thesis by simp
qed

lemma relay_ok_history [simp]:
  "relay_ok (h\<lparr>rh_history := x\<rparr>) = relay_ok h" "relay_ok (h\<lparr>rh_waiting := y\<rparr>) = relay_ok h" "relay_ok (h\<lparr>rh_stopped := b\<rparr>) = relay_ok h"
  by (simp_all add: relay_ok_def)

lemma note_attempt_simps [simp]:
  "relay_ok (note_attempt e io i a b c h) = relay_ok h" "rh_co (note_attempt e io i a b c h) = rh_co h"
  "rh_flows (note_attempt e io i a b c h) = rh_flows h"
  by (simp_all add: note_attempt_def)

lemma set_phase_ok:
  assumes "relay_ok h" "n < length (rh_flows h) \<Longrightarrow> handle_out p = handle_out (fl_phase (rh_flows h ! n))"
    and "n < length (rh_flows h) \<Longrightarrow> p \<noteq> FlowOver \<and> fl_phase (rh_flows h ! n) \<noteq> FlowOver \<and> fl_phase (rh_flows h ! n) \<noteq> FlowEntered"
  shows "relay_ok (set_phase n p h)"
  unfolding set_phase_def
  by (rule relay_ok_flow [OF assms(1)]) (use relay_ok_call [OF assms(1), of n] assms(2,3) in \<open>auto simp: call_ok_def\<close>)

lemma do_enter_ok:
  assumes "coordinator_ok co" "do_enter gone now key co = (co', Leads n)"
  shows "coordinator_ok co' \<and> n = length (co_calls co) \<and> co_calls co' = co_calls co @ [new_call key now]"
proof -
  from assms(2) have new: "map_of (co_active co) key = None" "length (co_active co) < max_relay_active_entries"
    and co': "co' = co\<lparr>co_calls := co_calls co @ [new_call key now], co_active := AList.update key (length (co_calls co)) (co_active co)\<rparr>"
      "n = length (co_calls co)"
    by (auto simp: do_enter_def split: if_splits option.splits)
  have key: "key \<notin> fst ` set (co_active co)" using new(1) by (simp add: map_of_eq_None_iff)
  have upd: "AList.update key m (co_active co) = co_active co @ [(key, m)]" for m by (rule alist_update_new [OF key])
  have "(k, m) \<in> set (co_active co @ [(key, length (co_calls co))]) \<longleftrightarrow>
      m < Suc (length (co_calls co)) \<and> rk_key ((co_calls co @ [new_call key now]) ! m) = k \<and> \<not> rk_done ((co_calls co @ [new_call key now]) ! m)" for k m
    using assms(1) by (cases "m = length (co_calls co)") (auto simp: coordinator_ok_def nth_append new_call_def)
  with assms(1) key new(2) show ?thesis unfolding co' upd by (simp add: coordinator_ok_def)
qed

lemma do_finish_ok:
  assumes "coordinator_ok co" "n < length (co_calls co)" "\<not> rk_done (co_calls co ! n)"
  shows "coordinator_ok (fst (do_finish n err co))"
proof -
  let ?key = "rk_key (co_calls co ! n)" and ?f = "\<lambda>c. c\<lparr>rk_error := err, rk_done := True\<rparr>"
  have d: "fst (do_finish n err co) = (on_call n ?f co)\<lparr>co_active := AList.delete ?key (co_active co)\<rparr>"
    by (simp add: do_finish_def Let_def)
  have keys: "keys_distinct (co_active co)" and in_active: "\<And>k m. (k, m) \<in> set (co_active co) \<longleftrightarrow>
      m < length (co_calls co) \<and> rk_key (co_calls co ! m) = k \<and> \<not> rk_done (co_calls co ! m)"
    using assms(1) by (simp_all add: coordinator_ok_def)
  have n: "(?key, n) \<in> set (co_active co)" using in_active assms(2,3) by blast
  have one: "m = n" if "(?key, m) \<in> set (co_active co)" for m using keys n that by (metis map_of_is_SomeI option.inject)
  have "(k, m) \<in> set (AList.delete ?key (co_active co)) \<longleftrightarrow>
      m < length (co_calls co) \<and> rk_key (co_calls (on_call n ?f co) ! m) = k \<and> \<not> rk_done (co_calls (on_call n ?f co) ! m)" for k m
    using in_active [of k m] one [of m] assms(2,3) by (auto simp: AList.delete_eq on_call_nth)
  then show ?thesis
    using assms(1) keys length_alist_delete_le [of ?key "co_active co"]
    unfolding d by (simp add: coordinator_ok_def distinct_delete)
qed

lemma relay_oauth_ok:
  assumes "relay_ok h"
  shows "relay_ok (relay_oauth e io ro peer_id raw fresh gone h)"
proof (cases "relay_prepare (rl_sha e) ro peer_id raw")
  case (Inr x)
  obtain key dial_peer url where x: "x = (key, dial_peer, url)" by (cases x) auto
  obtain co d where d: "do_enter gone (io_now io) key (rh_co h) = (co, d)" by fastforce
  show ?thesis
  proof (cases d)
    case (Leads n)
    have "coordinator_ok (rh_co h)" "length (rh_flows h) = length (co_calls (rh_co h))" using assms by (simp_all add: relay_ok_def)
    with do_enter_ok [OF _ d [unfolded Leads]] have co: "coordinator_ok co" "co_calls co = co_calls (rh_co h) @ [new_call key (io_now io)]" by auto
    have "call_ok (new_call key (io_now io)) (new_flow dial_peer url)" by (simp add: call_ok_def new_call_def new_flow_def handle_out_def)
    with assms co have "call_ok (co_calls co ! m) ((rh_flows h @ [new_flow dial_peer url]) ! m)" if "m < Suc (length (rh_flows h))" for m
      using that by (auto simp: relay_ok_def nth_append less_Suc_eq)
    with co assms Inr x d Leads show ?thesis by (simp add: relay_oauth_def relay_ok_def)
  qed (use assms Inr x d in \<open>simp_all add: relay_oauth_def\<close>)
qed (use assms in \<open>auto simp: relay_oauth_def\<close>)

lemma publish_flow_ok:
  assumes "relay_ok h" "at_phase n FlowEntered h"
  shows "relay_ok (publish_flow e nl n i h)"
proof -
  let ?g = "call_register i (fl_dial_peer (rh_flows h ! n)) (derive_oauth_flow_id nl (rl_sha e) (fl_url (rh_flows h ! n))) \<circ>
    (if rh_stopped h then end_context HubStopped else id)"
  have g: "rk_key (?g c) = rk_key c \<and> rk_done (?g c) = rk_done c" for c
    by (simp add: call_register_def Let_def)
  have co: "coordinator_ok (rh_co h)" using assms(1) by (simp add: relay_ok_def)
  show ?thesis unfolding publish_flow_def Let_def
    by (rule relay_ok_one [OF assms(1) coordinator_ok_on_call [OF co g]])
      (use relay_ok_call [OF assms(1), of n] assms(2) in \<open>auto simp: call_ok_def at_phase_def handle_out_def call_register_def Let_def\<close>)
qed

lemma release_call_ok:
  assumes "relay_ok h" "n < length (co_calls (rh_co h))"
  shows "relay_ok (h\<lparr>rh_co := release_call n (rh_co h)\<rparr>)"
  unfolding release_call_def
  by (rule relay_ok_calls [OF assms(1)])
    (use relay_ok_call [OF assms(1), of n] in \<open>auto simp: call_ok_def call_release_def handle_out_def split: flow_phase.splits\<close>)

lemma hub_stops_ok:
  assumes "relay_ok h"
  shows "relay_ok (h\<lparr>rh_co := (rh_co h)\<lparr>co_calls := map (end_context HubStopped) (co_calls (rh_co h))\<rparr>\<rparr>)"
proof -
  have c: "call_ok c f \<Longrightarrow> call_ok (end_context HubStopped c) f" for c f by (auto simp: call_ok_def)
  have "coordinator_ok ((rh_co h)\<lparr>co_calls := map (end_context HubStopped) (co_calls (rh_co h))\<rparr>)"
    by (rule coordinator_ok_change) (use assms in \<open>simp_all add: relay_ok_def\<close>)
  with assms c show ?thesis by (simp add: relay_ok_def)
qed

lemma timer_ok:
  assumes "relay_ok h"
  shows "relay_ok (h\<lparr>rh_co := on_call n (end_context TimerFired) (rh_co h)\<rparr>)"
  by (rule relay_ok_calls [OF assms]) (use relay_ok_call [OF assms, of n] in \<open>auto simp: call_ok_def\<close>)

lemma clears_call_ok:
  assumes "relay_ok h" "n < length (rh_flows h)" "fl_phase (rh_flows h ! n) = FlowRecorded err"
  shows "relay_ok (set_phase n (FlowCleared err) (h\<lparr>rh_co := on_call n (end_context FlowReturned \<circ> call_clear) (rh_co h)\<rparr>))"
proof -
  have g: "rk_key ((end_context FlowReturned \<circ> call_clear) c) = rk_key c \<and> rk_done ((end_context FlowReturned \<circ> call_clear) c) = rk_done c" for c
    by (simp add: call_clear_def)
  have co: "coordinator_ok (rh_co h)" using assms(1) by (simp add: relay_ok_def)
  have "relay_ok (h\<lparr>rh_co := on_call n (end_context FlowReturned \<circ> call_clear) (rh_co h),
      rh_flows := (rh_flows h)[n := (rh_flows h ! n)\<lparr>fl_phase := FlowCleared err\<rparr>]\<rparr>)"
    by (rule relay_ok_one [OF assms(1) coordinator_ok_on_call [OF co g]])
      (use relay_ok_call [OF assms(1,2)] assms(3) in \<open>auto simp: call_ok_def handle_out_def call_clear_def\<close>)
  then show ?thesis by (simp add: set_phase_def)
qed

lemma returns_call_ok:
  assumes "relay_ok h" "n < length (rh_flows h)" "fl_phase (rh_flows h ! n) = FlowCleared err"
  shows "relay_ok (set_phase n FlowOver (h\<lparr>rh_co := fst (do_finish n err (rh_co h))\<rparr>))"
proof -
  note c = relay_ok_call [OF assms(1,2)]
  have "coordinator_ok (fst (do_finish n err (rh_co h)))"
    by (rule do_finish_ok) (use assms c in \<open>simp_all add: relay_ok_def call_ok_def\<close>)
  moreover have "co_calls (fst (do_finish n err (rh_co h))) = co_calls (on_call n (\<lambda>c. c\<lparr>rk_error := err, rk_done := True\<rparr>) (rh_co h))"
    by (simp add: do_finish_def Let_def)
  moreover have "call_ok ((co_calls (rh_co h) ! n)\<lparr>rk_error := err, rk_done := True\<rparr>) ((rh_flows h ! n)\<lparr>fl_phase := FlowOver\<rparr>)"
    using c assms(3) by (simp add: call_ok_def handle_out_def)
  ultimately show ?thesis using assms(1,2) by (auto simp: relay_ok_def set_phase_def on_call_nth nth_list_update)
qed

lemma relay_step_ok: "relay_ok h \<Longrightarrow> relay_ok (relay_step e nl h ev)"
proof (cases ev)
  case (BridgeEnds n io err)
  assume ok: "relay_ok h"
  have "relay_ok (set_phase n (FlowRecorded err) (note_attempt e io i st c nx h))" if "at_phase n FlowDialled h" for i st c nx
    by (rule set_phase_ok) (use that ok in \<open>simp_all add: at_phase_def handle_out_def\<close>)
  with BridgeEnds ok show ?thesis
    by (cases err) (simp_all add: bridge_ends_def Let_def split: prod.split)
next
  case (RecordSubmitted n io ro)
  then show "relay_ok h \<Longrightarrow> ?thesis"
    by (auto simp: Let_def at_phase_def handle_out_def intro!: set_phase_ok)
qed (auto simp: relay_oauth_ok publish_flow_ok release_call_ok hub_stops_ok timer_ok clears_call_ok returns_call_ok
    at_phase_def handle_out_def intro!: set_phase_ok relay_ok_flow split: option.splits flow_phase.splits
    dest: relay_ok_call simp: call_ok_def)

interpretation relay_runs: stepper "relay_step e nl" relay_ok for e nl
  by unfold_locales (rule relay_step_ok)

definition relay_run :: "relay_env \<Rightarrow> net_lib \<Rightarrow> hub_history \<Rightarrow> relay_event list \<Rightarrow> relay_hub" where
  "relay_run e nl hist es = foldl (relay_step e nl) (idle_hub hist) es"

lemma idle_ok: "relay_ok (idle_hub hist)"
  by (simp add: idle_hub_def relay_ok_def coordinator_ok_def new_relay_coordinator_def max_relay_active_entries_def)

lemma relay_run_ok: "relay_ok (relay_run e nl hist es)"
  unfolding relay_run_def by (rule relay_runs.run_inv [OF idle_ok])

section \<open>One flow for each login\<close>

text \<open>A call that is over has said what it says.\<close>

definition said :: "nat \<Rightarrow> string \<times> string option \<Rightarrow> relay_hub \<Rightarrow> bool" where
  "said n r h \<longleftrightarrow> relay_ok h \<and> n < length (co_calls (rh_co h)) \<and> do_wait False n (rh_co h) = Some r"

lemma said_iff:
  "said n r h \<longleftrightarrow> relay_ok h \<and> n < length (co_calls (rh_co h)) \<and> rk_done (co_calls (rh_co h) ! n) \<and>
     rk_request_id (co_calls (rh_co h) ! n) = fst r \<and> rk_error (co_calls (rh_co h) ! n) = snd r"
  by (cases r) (auto simp: said_def do_wait_def)

lemma said_over: "said n r h \<Longrightarrow> n < length (rh_flows h) \<and> fl_phase (rh_flows h ! n) = FlowOver"
  using relay_ok_call [of h n] by (simp add: said_iff call_ok_def relay_ok_def)

text \<open>What a step changes of the calls: none that is over says anything else, none is taken back its release or its end.\<close>

definition keeps_said :: "coordinator \<Rightarrow> coordinator \<Rightarrow> bool" where
  "keeps_said co co' \<longleftrightarrow> length (co_calls co) \<le> length (co_calls co') \<and>
     (\<forall>n < length (co_calls co). rk_done (co_calls co ! n) \<longrightarrow>
        rk_done (co_calls co' ! n) \<and> rk_request_id (co_calls co' ! n) = rk_request_id (co_calls co ! n) \<and>
        rk_error (co_calls co' ! n) = rk_error (co_calls co ! n)) \<and>
     (\<forall>n < length (co_calls co). (rk_released (co_calls co ! n) \<longrightarrow> rk_released (co_calls co' ! n)) \<and>
        (rk_cause (co_calls co ! n) \<noteq> None \<longrightarrow> rk_cause (co_calls co' ! n) \<noteq> None))"

lemma keeps_said_refl [simp]: "keeps_said co co"
  by (simp add: keeps_said_def)

lemma keeps_said_on_call:
  assumes "\<not> rk_done (co_calls co ! m)" "rk_released (co_calls co ! m) \<longrightarrow> rk_released (g (co_calls co ! m))"
    "rk_cause (co_calls co ! m) \<noteq> None \<longrightarrow> rk_cause (g (co_calls co ! m)) \<noteq> None"
  shows "keeps_said co (on_call m g co)"
  using assms by (auto simp: keeps_said_def on_call_nth)

lemma keeps_said_step:
  assumes "relay_ok h"
  shows "keeps_said (rh_co h) (rh_co (relay_step e nl h ev))"
proof (cases ev)
  case (Arrives io ro peer_id raw fresh gone)
  show ?thesis
  proof (cases "relay_prepare (rl_sha e) ro peer_id raw")
    case (Inr x)
    obtain key dial_peer url where x: "x = (key, dial_peer, url)" by (cases x) auto
    obtain co d where d: "do_enter gone (io_now io) key (rh_co h) = (co, d)" by fastforce
    show ?thesis using Arrives Inr x d assms do_enter_ok [of "rh_co h" gone "io_now io" key co]
      by (cases d) (auto simp: relay_oauth_def relay_ok_def keeps_said_def nth_append)
  qed (use Arrives in \<open>auto simp: relay_oauth_def\<close>)
next
  case (Publish n i)
  with relay_ok_call [OF assms, of n] show ?thesis
    by (auto simp: publish_flow_def Let_def at_phase_def call_ok_def call_register_def end_context_def intro!: keeps_said_on_call)
next
  case (ReturnsCall n)
  with relay_ok_call [OF assms, of n] assms show ?thesis
    by (auto simp: set_phase_def do_finish_def Let_def keeps_said_def on_call_nth call_ok_def relay_ok_def split: flow_phase.splits)
next
  case (BridgeEnds n io err)
  then show ?thesis by (auto simp: bridge_ends_def set_phase_def Let_def split: option.split prod.split)
qed (auto simp: set_phase_def Let_def release_call_def call_release_def call_clear_def keeps_said_def on_call_nth split: option.split flow_phase.split)

interpretation said_runs: stepper "relay_step e nl" "said n r" for e nl n r
proof unfold_locales
  fix h ev
  assume s: "said n r h"
  then have ok: "relay_ok h" by (simp add: said_def)
  from keeps_said_step [OF this, of e nl ev] s relay_step_ok [OF ok, of e nl ev]
  show "said n r (relay_step e nl h ev)" by (auto simp: said_iff keeps_said_def)
qed

text \<open>
  One flow runs for each login at a time, and everyone who waits for it is told the same. In every
  interleaving of callers, flows, timers and cancellations at most 128 calls are under way, no two of
  them for the same request key, and a caller that finds a call under way joins it; once a call is over,
  whoever asks - however much later - gets the id under which the attempt was recorded and the error its
  flow returned.\<close>

theorem relay_single_flight:
  assumes "h = relay_run e nl hist es" "h' = foldl (relay_step e nl) h later"
  shows "length (filter (\<lambda>c. \<not> rk_done c) (co_calls (rh_co h))) \<le> 128 \<and>
    distinct (map rk_key (filter (\<lambda>c. \<not> rk_done c) (co_calls (rh_co h)))) \<and>
    (\<forall>n < length (co_calls (rh_co h)). \<not> rk_done (co_calls (rh_co h) ! n) \<longrightarrow>
       snd (do_enter False now (rk_key (co_calls (rh_co h) ! n)) (rh_co h)) = Joins n) \<and>
    (\<forall>n < length (co_calls (rh_co h)). case do_wait False n (rh_co h) of None \<Rightarrow> True
       | Some (i, err) \<Rightarrow> i = fl_id (rh_flows h ! n) \<and> do_wait False n (rh_co h') = Some (i, err))"
proof -
  have ok: "relay_ok h" by (simp add: assms(1) relay_run_ok)
  then have co: "coordinator_ok (rh_co h)" by (simp add: relay_ok_def)
  let ?calls = "co_calls (rh_co h)" and ?active = "co_active (rh_co h)"
  let ?open = "filter (\<lambda>n. \<not> rk_done (?calls ! n)) [0..<length ?calls]"
  have keys: "keys_distinct ?active" and len: "length ?active \<le> 128"
    and in_active: "\<And>k n. (k, n) \<in> set ?active \<longleftrightarrow> n < length ?calls \<and> rk_key (?calls ! n) = k \<and> \<not> rk_done (?calls ! n)"
    using co by (simp_all add: coordinator_ok_def max_relay_active_entries_def)
  have one: "map_of ?active k = Some n" if "(k, n) \<in> set ?active" for k n using keys that by simp
  have opened: "filter (\<lambda>c. \<not> rk_done c) ?calls = map ((!) ?calls) ?open"
    by (metis (no_types, lifting) filter_cong filter_map map_nth comp_apply)
  have mem: "n \<in> set ?open \<Longrightarrow> (rk_key (?calls ! n), n) \<in> set ?active" for n using in_active by simp
  have inj: "inj_on (\<lambda>n. rk_key (?calls ! n)) (set ?open)"
  proof (rule inj_onI)
    fix m n assume "m \<in> set ?open" "n \<in> set ?open" "rk_key (?calls ! m) = rk_key (?calls ! n)"
    then show "m = n" using one [OF mem [of m]] one [OF mem [of n]] by (metis option.inject)
  qed
  then have dis: "distinct (map rk_key (filter (\<lambda>c. \<not> rk_done c) ?calls))"
    by (simp add: opened distinct_map comp_def del: set_filter filter_set)
  have sub: "(\<lambda>n. rk_key (?calls ! n)) ` set ?open \<subseteq> set (map fst ?active)"
  proof
    fix k assume "k \<in> (\<lambda>n. rk_key (?calls ! n)) ` set ?open"
    then obtain n where "n \<in> set ?open" "k = rk_key (?calls ! n)" by blast
    with mem [of n] show "k \<in> set (map fst ?active)" by (metis fst_conv image_eqI list.set_map)
  qed
  have "card ((\<lambda>n. rk_key (?calls ! n)) ` set ?open) \<le> card (set (map fst ?active))"
    by (rule card_mono [OF _ sub]) simp
  also have "\<dots> \<le> length ?active" using card_length [of "map fst ?active"] by simp
  finally have "card ((\<lambda>n. rk_key (?calls ! n)) ` set ?open) \<le> length ?active" .
  then have "length ?open \<le> length ?active" 
    using card_image [OF inj] distinct_card [of ?open] by (simp only: distinct_filter distinct_upt)
  then have "length (filter (\<lambda>c. \<not> rk_done c) ?calls) \<le> 128" using len by (simp add: opened)
  moreover have "snd (do_enter False now (rk_key (?calls ! n)) (rh_co h)) = Joins n"
    if "n < length ?calls" "\<not> rk_done (?calls ! n)" for n
    using one [of _ n] in_active that by (simp add: do_enter_def)
  moreover have "case do_wait False n (rh_co h) of None \<Rightarrow> True
       | Some (i, err) \<Rightarrow> i = fl_id (rh_flows h ! n) \<and> do_wait False n (rh_co h') = Some (i, err)" if "n < length ?calls" for n
  proof (cases "do_wait False n (rh_co h)")
    case (Some r)
    then have s: "said n r h" using ok that by (simp add: said_def)
    then have "said n r h'" unfolding assms(2) by (rule said_runs.run_inv)
    with s relay_ok_call [OF ok, of n] that ok Some show ?thesis
      by (cases r) (auto simp: said_iff call_ok_def relay_ok_def do_wait_def)
  qed simp
  ultimately show ?thesis using dis by blast
qed

text \<open>A URL library that knows one URL, so that what a run makes of it is evaluated quickly.\<close>

definition one_url :: url where
  "one_url = \<lparr>ur_scheme = ''https'', ur_opaque = '''', ur_user = '''', ur_host = ''h'', ur_path = '''', ur_raw_path = '''',
     ur_raw_query = '''', ur_force_query = False, ur_fragment = '''', ur_raw_fragment = ''''\<rparr>"

definition one_net :: net_lib where
  "one_net = demo_net\<lparr>nl_parse := (\<lambda>_. Some one_url), nl_string := (\<lambda>_. ''u''), nl_parse_query := (\<lambda>_. ([], True))\<rparr>"

definition demo_relay_env :: relay_env where
  "demo_relay_env = \<lparr>rl_sha = (\<lambda>_. ''k''), rl_codec = \<lparr>hc_encode = (\<lambda>_. None), hc_decode = (\<lambda>_. None)\<rparr>\<rparr>"

definition demo_routing :: routing where
  "demo_routing = \<lparr>ro_tx = (demo_tx 1)\<lparr>tx_net := one_net\<rparr>, ro_store = Some demo_store, ro_transport = ''lan'', ro_active = ''''\<rparr>"

definition demo_history :: hub_history where
  "demo_history = \<lparr>hs_dir = '''', hs_operations = new_operation_ledger 0, hs_relays = new_relay_ledger 0, hs_files = fs_now (\<lambda>_. None)\<rparr>"

text \<open>A login to the peer of the tests, through its flow.\<close>

definition demo_arrival :: relay_event where
  "demo_arrival = Arrives (demo_history_io 5) demo_routing ''ab12cd'' ''u'' ''rl-0'' False"

definition demo_flow :: "relay_event list" where
  "demo_flow = [demo_arrival, Publish 0 ''rl-1'', RecordSubmitted 0 (demo_history_io 5) demo_routing,
     RecordWaiting 0 (demo_history_io 5), DialEnds 0 (demo_history_io 6) None]"

definition demo_end :: "string option \<Rightarrow> relay_event list" where
  "demo_end err = [BridgeEnds 0 (demo_history_io 7) err, ClearsCall 0, ReturnsCall 0]"

definition demo_relay_run :: "relay_event list \<Rightarrow> relay_hub" where
  "demo_relay_run es = relay_run demo_relay_env one_net demo_history es"


lemma demo_prepared: "relay_prepare (\<lambda>_. ''k'') demo_routing ''ab12cd'' ''u'' = Inr (''k'', ''ab12cd'', ''u'')"
proof -
  have "sanitize_url one_net (trim_space ''u'') = ''u''" "validate_url one_net ''u'' = None" by code_simp+
  moreover have "resolve_peer ((demo_tx 1)\<lparr>tx_net := one_net\<rparr>) (trim_space ''ab12cd'') demo_store = Inr (demo_peer ''ab12cd'' ''mac'')"
    "trim_space ''ab12cd'' \<noteq> ''''" "pr_fingerprint (demo_peer ''ab12cd'' ''mac'') = ''ab12cd''"
    by code_simp+
  ultimately show ?thesis by (simp add: relay_prepare_def demo_routing_def relay_request_key_def Let_def)
qed

text \<open>A first caller leads; whatever follows then can be evaluated.\<close>

definition demo_led :: relay_hub where
  "demo_led = (case do_enter False 5 ''k'' new_relay_coordinator of
     (co, d) \<Rightarrow> (idle_hub demo_history)\<lparr>rh_co := co, rh_flows := [new_flow ''ab12cd'' ''u'']\<rparr>)"

lemma demo_run: "demo_relay_run (demo_arrival # es) = foldl (relay_step demo_relay_env one_net) demo_led es"
proof -
  have "snd (do_enter False 5 ''k'' new_relay_coordinator) = Leads 0"
    by (simp add: do_enter_def new_relay_coordinator_def max_relay_active_entries_def)
  moreover have "rl_sha demo_relay_env = (\<lambda>_. ''k'')" by (simp add: demo_relay_env_def)
  ultimately have "relay_oauth demo_relay_env (demo_history_io 5) demo_routing ''ab12cd'' ''u'' ''rl-0'' False (idle_hub demo_history) = demo_led"
    using demo_prepared
    by (cases "do_enter False 5 ''k'' new_relay_coordinator") (simp add: relay_oauth_def demo_led_def idle_hub_def demo_history_io_def)
  then show ?thesis by (simp add: demo_relay_run_def relay_run_def demo_arrival_def)
qed

theorem relay_single_flight_witness:
  "do_wait False 0 (rh_co (demo_relay_run (demo_flow @ demo_end None @ [demo_arrival]))) = Some (''rl-1'', None)"
proof -
  let ?h = "demo_relay_run (demo_flow @ demo_end None)"
  have l: "0 < length (co_calls (rh_co ?h))" "do_wait False 0 (rh_co ?h) = Some (''rl-1'', None)"
    unfolding demo_flow_def append_Cons demo_run by code_simp+
  have h: "?h = relay_run demo_relay_env one_net demo_history (demo_flow @ demo_end None)"
    by (simp add: demo_relay_run_def)
  have later: "demo_relay_run (demo_flow @ demo_end None @ [demo_arrival]) = foldl (relay_step demo_relay_env one_net) ?h [demo_arrival]"
    unfolding demo_relay_run_def relay_run_def append_assoc [symmetric] foldl_append by (rule refl)
  from relay_single_flight [OF h later, THEN conjunct2, THEN conjunct2, THEN conjunct2] l
  show ?thesis by (cases "do_wait False 0 (rh_co ?h)") (force simp del: foldl.simps)+
qed

section \<open>Cancellations\<close>

interpretation released_runs: stepper "relay_step e nl" "\<lambda>h. relay_ok h \<and> n < length (co_calls (rh_co h)) \<and> rk_released (co_calls (rh_co h) ! n)"
    for e nl n
proof unfold_locales
  fix h ev
  assume s: "relay_ok h \<and> n < length (co_calls (rh_co h)) \<and> rk_released (co_calls (rh_co h) ! n)"
  with keeps_said_step [of h e nl ev] relay_step_ok [of h e nl ev]
  show "relay_ok (relay_step e nl h ev) \<and> n < length (co_calls (rh_co (relay_step e nl h ev))) \<and>
      rk_released (co_calls (rh_co (relay_step e nl h ev)) ! n)"
    by (auto simp: keeps_said_def)
qed

text \<open>
  C31. A cancellation is never lost. Whenever a call is released - before its flow has published its
  handle, while it runs, or as it ends - the context of the flow has ended from the moment the handle is
  published, and stays ended, so a failure of the bridge is recorded as cancelled; a failure to dial is
  not (\<open>cancelled_dial_recorded_as_failed\<close>). And the key of a call under way releases exactly this call.\<close>

theorem cancel_is_not_lost:
  assumes "h = relay_run e nl hist es" "n < length (rh_flows h)"
    and "h' = foldl (relay_step e nl) (relay_step e nl h (Releases n)) later" "fl_phase (rh_flows h' ! n) \<noteq> FlowEntered"
  shows "rk_cause (co_calls (rh_co h') ! n) \<noteq> None \<and> fst (bridge_failure gone (co_calls (rh_co h') ! n) msg) = relay_cancelled \<and>
    (fl_phase (rh_flows h ! n) \<noteq> FlowOver \<longrightarrow>
       cancel_flow (rk_key (co_calls (rh_co h) ! n)) (rh_co h) = (release_call n (rh_co h), True))"
proof -
  have ok: "relay_ok h" by (simp add: assms(1) relay_run_ok)
  then have len: "n < length (co_calls (rh_co h))" using assms(2) by (simp add: relay_ok_def)
  have "rk_released (fst (call_release c))" for c by (simp add: call_release_def)
  with len have "relay_ok (relay_step e nl h (Releases n)) \<and> n < length (co_calls (rh_co (relay_step e nl h (Releases n)))) \<and>
      rk_released (co_calls (rh_co (relay_step e nl h (Releases n))) ! n)"
    using relay_step_ok [OF ok, of e nl "Releases n"] by (simp add: release_call_def on_call_nth)
  from released_runs.run_inv [OF this, of e nl later]
  have r: "relay_ok h'" "n < length (rh_flows h')" "rk_released (co_calls (rh_co h') ! n)"
    unfolding assms(3) [symmetric] by (auto simp: relay_ok_def)
  with relay_ok_call [OF r(1,2)] assms(4) have cause: "rk_cause (co_calls (rh_co h') ! n) \<noteq> None" by (simp add: call_ok_def)
  have "map_of (co_active (rh_co h)) (rk_key (co_calls (rh_co h) ! n)) = Some n" if "fl_phase (rh_flows h ! n) \<noteq> FlowOver"
    using ok len that relay_ok_call [OF ok assms(2)]
    by (intro map_of_is_SomeI) (simp_all add: relay_ok_def coordinator_ok_def call_ok_def)
  then have "fl_phase (rh_flows h ! n) \<noteq> FlowOver \<longrightarrow>
      cancel_flow (rk_key (co_calls (rh_co h) ! n)) (rh_co h) = (release_call n (rh_co h), True)"
    by (simp add: cancel_flow_def call_release_def)
  with cause show ?thesis by (simp add: bridge_failure_def)
qed

theorem cancel_is_not_lost_witness:
  "rk_cause (co_calls (rh_co (foldl (relay_step demo_relay_env one_net)
       (relay_step demo_relay_env one_net (demo_relay_run [demo_arrival]) (Releases 0)) [Publish 0 ''rl-1''])) ! 0) \<noteq> None"
proof -
  have h: "demo_relay_run [demo_arrival] = relay_run demo_relay_env one_net demo_history [demo_arrival]"
    by (simp add: demo_relay_run_def)
  have l: "demo_relay_run [demo_arrival] = demo_led" by (simp add: demo_run)
  have "0 < length (rh_flows (demo_relay_run [demo_arrival]))" unfolding l by code_simp
  moreover have "fl_phase (rh_flows (foldl (relay_step demo_relay_env one_net)
       (relay_step demo_relay_env one_net (demo_relay_run [demo_arrival]) (Releases 0)) [Publish 0 ''rl-1'']) ! 0) \<noteq> FlowEntered"
    unfolding l by code_simp
  ultimately show ?thesis using cancel_is_not_lost [OF h _ refl] by blast
qed

section \<open>What the history says of an attempt\<close>

lemma change_first_set:
  "y \<in> set (change_first i f xs) \<Longrightarrow> y \<in> set xs \<or> (\<exists>x \<in> set xs. ra_id x = i \<and> y = f x)"
  by (induction xs) (auto split: if_splits)

lemma set_add_relay: "set (lg_items (add_relay now x l)) \<subseteq> insert x (set (lg_items l))"
  using set_append_bounded [of ra_created "retention_cutoff relay_history_retention_days now" x "ensure_capacity max_relay_history l"]
  by (simp add: add_relay_def ensure_capacity_def split: if_splits)

definition attempts :: "relay_hub \<Rightarrow> relay_attempt set" where
  "attempts h = set (lg_items (hs_relays (rh_history h)))"

lemma attempts_simps [simp]:
  "attempts (h\<lparr>rh_co := co\<rparr>) = attempts h" "attempts (h\<lparr>rh_flows := fs\<rparr>) = attempts h" "attempts (set_phase n p h) = attempts h"
  "attempts (h\<lparr>rh_waiting := w\<rparr>) = attempts h" "attempts (h\<lparr>rh_stopped := b\<rparr>) = attempts h"
  "attempts (publish_flow e nl n i h) = attempts h"
  by (simp_all add: attempts_def set_phase_def publish_flow_def Let_def)

lemma attempts_note:
  "y \<in> attempts (note_attempt e io i st c nx h) \<Longrightarrow> y \<in> attempts h \<or> (ra_id y = i \<and> ra_state y = st)"
  using change_first_set [of y i _ "lg_items (hs_relays (rh_history h))"]
  by (fastforce simp: attempts_def note_attempt_def update_relay_attempt_def update_relay_def Let_def split: if_splits)

lemma attempts_record:
  "y \<in> attempts (h\<lparr>rh_history := record_relay_attempt c io x (rh_history h)\<rparr>) \<Longrightarrow> y \<in> attempts h \<or> y = x"
  using set_add_relay [of "io_now io" x "hs_relays (rh_history h)"]
  by (auto simp: attempts_def record_relay_attempt_def Let_def split: if_splits)

text \<open>What entitles an attempt to its state.\<close>

definition flow_of :: "relay_hub \<Rightarrow> nat \<Rightarrow> string \<Rightarrow> bool" where
  "flow_of h n i \<longleftrightarrow> n < length (rh_flows h) \<and> fl_id (rh_flows h ! n) = i \<and> fl_phase (rh_flows h ! n) \<noteq> FlowEntered"

definition ended_flow :: "relay_hub \<Rightarrow> nat \<Rightarrow> bool" where
  "ended_flow h n \<longleftrightarrow> fl_caller_gone (rh_flows h ! n) \<or> rk_cause (co_calls (rh_co h) ! n) \<noteq> None"

definition entitled :: "relay_event list \<Rightarrow> relay_hub \<Rightarrow> relay_attempt \<Rightarrow> bool" where
  "entitled es h x \<longleftrightarrow>
     (ra_state x = relay_complete \<longrightarrow> (\<exists>n io. BridgeEnds n io None \<in> set es \<and> flow_of h n (ra_id x))) \<and>
     (ra_state x = relay_cancelled \<longrightarrow> (\<exists>io. RecordsCancel io (ra_id x) \<in> set es) \<or>
        (\<exists>n io msg. BridgeEnds n io (Some msg) \<in> set es \<and> flow_of h n (ra_id x) \<and> ended_flow h n))"

text \<open>A flow that has its id keeps it, and one that ended stays so.\<close>

lemma flow_step:
  assumes "relay_ok h" "n < length (rh_flows h)" "fl_phase (rh_flows h ! n) \<noteq> FlowEntered"
  shows "n < length (rh_flows (relay_step e nl h ev)) \<and> fl_id (rh_flows (relay_step e nl h ev) ! n) = fl_id (rh_flows h ! n) \<and>
    fl_phase (rh_flows (relay_step e nl h ev) ! n) \<noteq> FlowEntered \<and>
    (fl_caller_gone (rh_flows h ! n) \<longrightarrow> fl_caller_gone (rh_flows (relay_step e nl h ev) ! n))"
proof (cases ev)
  case (Arrives io ro peer_id raw fresh gone)
  then show ?thesis using assms
    by (auto simp: relay_oauth_def nth_append split: sum.splits prod.splits do_entry.splits)
next
  case (Publish m i)
  with assms show ?thesis by (cases "m = n") (auto simp: publish_flow_def Let_def at_phase_def)
next
  case (BridgeEnds m io err)
  with assms show ?thesis by (cases "m = n") (auto simp: bridge_ends_def set_phase_def Let_def split: option.split prod.split)
next
  case (RecordSubmitted m io ro)
  with assms show ?thesis by (cases "m = n") (auto simp: set_phase_def Let_def)
next
  case (RecordWaiting m io)
  with assms show ?thesis by (cases "m = n") (auto simp: set_phase_def)
next
  case (DialEnds m io err)
  with assms show ?thesis by (cases "m = n") (auto simp: set_phase_def split: option.split)
next
  case (ClearsCall m)
  with assms show ?thesis by (cases "m = n") (auto simp: set_phase_def split: flow_phase.split)
next
  case (ReturnsCall m)
  with assms show ?thesis by (cases "m = n") (auto simp: set_phase_def split: flow_phase.split)
next
  case (CallerLeaves m)
  with assms show ?thesis by (cases "m = n") auto
qed (use assms in auto)

lemma flow_of_step: "relay_ok h \<Longrightarrow> flow_of h n i \<Longrightarrow> flow_of (relay_step e nl h ev) n i"
  using flow_step [of h n e nl ev] by (simp add: flow_of_def)

lemma ended_flow_step: "relay_ok h \<Longrightarrow> flow_of h n i \<Longrightarrow> ended_flow h n \<Longrightarrow> ended_flow (relay_step e nl h ev) n"
  using flow_step [of h n e nl ev] keeps_said_step [of h e nl ev]
  by (auto simp: flow_of_def ended_flow_def keeps_said_def relay_ok_def)

lemma entitled_step: "relay_ok h \<Longrightarrow> entitled es h x \<Longrightarrow> entitled (es @ [ev]) (relay_step e nl h ev) x"
  unfolding entitled_def using flow_of_step [of h] ended_flow_step [of h] by (simp add: Un_iff) blast

text \<open>What one step adds to the attempts.\<close>

lemma new_attempt:
  assumes "relay_ok h" "y \<in> attempts (relay_step e nl h ev)"
  shows "y \<in> attempts h \<or> entitled [ev] (relay_step e nl h ev) y"
proof (cases ev)
  case (Arrives io ro peer_id raw fresh gone)
  have "ra_state y = relay_failed" if "y \<notin> attempts h"
    using assms(2) that Arrives
    by (auto simp: relay_oauth_def record_relay_failure_def split: sum.splits prod.splits do_entry.splits dest!: attempts_record)
  then show ?thesis by (auto simp: entitled_def relay_failed_def relay_complete_def relay_cancelled_def)
next
  case (RecordSubmitted n io ro)
  have "ra_state y = relay_submitted" if "y \<notin> attempts h"
    using assms(2) that RecordSubmitted
    by (auto simp: Let_def destination_attempt_def split: if_splits prod.splits dest!: attempts_record)
  then show ?thesis by (auto simp: entitled_def relay_submitted_def relay_complete_def relay_cancelled_def)
next
  case (RecordWaiting n io)
  have "ra_state y = relay_waiting" if "y \<notin> attempts h"
    using assms(2) that RecordWaiting by (auto split: if_splits dest!: attempts_note)
  then show ?thesis by (auto simp: entitled_def relay_waiting_def relay_complete_def relay_cancelled_def)
next
  case (DialEnds n io err)
  have "ra_state y = relay_failed" if "y \<notin> attempts h"
    using assms(2) that DialEnds by (auto split: if_splits option.splits dest!: attempts_note)
  then show ?thesis by (auto simp: entitled_def relay_failed_def relay_complete_def relay_cancelled_def)
next
  case (RecordsCancel io i)
  with assms(2) have "y \<in> attempts h \<or> ra_id y = i \<and> ra_state y = relay_cancelled" by (auto dest!: attempts_note)
  with RecordsCancel show ?thesis by (auto simp: entitled_def relay_complete_def relay_cancelled_def)
next
  case (BridgeEnds n io err)
  show ?thesis
  proof (cases "at_phase n FlowDialled h")
    case True
    then have f: "n < length (rh_flows h)" "fl_phase (rh_flows h ! n) \<noteq> FlowEntered" by (simp_all add: at_phase_def)
    then have fo: "flow_of (relay_step e nl h ev) n (fl_id (rh_flows h ! n))"
      using flow_of_step [OF assms(1), of n] by (simp add: flow_of_def)
    show ?thesis
    proof (cases err)
      case None
      with assms(2) BridgeEnds True have "y \<in> attempts h \<or> ra_id y = fl_id (rh_flows h ! n) \<and> ra_state y = relay_complete"
        by (auto simp: bridge_ends_def Let_def dest!: attempts_note)
      with fo BridgeEnds None show ?thesis by (auto simp: entitled_def relay_complete_def relay_cancelled_def)
    next
      case (Some msg)
      let ?st = "fst (bridge_failure (fl_caller_gone (rh_flows h ! n)) (co_calls (rh_co h) ! n) msg)"
      from assms(2) BridgeEnds True Some have "y \<in> attempts h \<or> ra_id y = fl_id (rh_flows h ! n) \<and> ra_state y = ?st"
        by (auto simp: bridge_ends_def Let_def split: prod.splits dest!: attempts_note)
      moreover have "ended_flow (relay_step e nl h ev) n" if "?st = relay_cancelled"
        using that ended_flow_step [OF assms(1), of n] f
        by (auto simp: bridge_failure_def ended_flow_def flow_of_def relay_cancelled_def relay_failed_def split: if_splits)
      moreover have "?st \<noteq> relay_complete" by (simp add: bridge_failure_def relay_complete_def relay_cancelled_def relay_failed_def)
      ultimately show ?thesis using fo BridgeEnds Some by (auto simp: entitled_def)
    qed
  qed (use assms(2) BridgeEnds in simp)
qed (use assms(2) in \<open>auto split: if_splits flow_phase.splits\<close>)

lemma entitled_last: "entitled [ev] h x \<Longrightarrow> entitled (es @ [ev]) h x"
  unfolding entitled_def by auto

interpretation attempt_history: history_stepper "relay_step e nl" "\<lambda>es h. relay_ok h \<and> (\<forall>x \<in> attempts h. entitled es h x)" for e nl
proof unfold_locales
  fix es h ev
  assume inv: "relay_ok h \<and> (\<forall>x \<in> attempts h. entitled es h x)"
  have "entitled (es @ [ev]) (relay_step e nl h ev) y" if "y \<in> attempts (relay_step e nl h ev)" for y
    using new_attempt [OF conjunct1 [OF inv] that] entitled_step [of h es y ev e nl] inv entitled_last by blast
  with inv relay_step_ok [of h] show "relay_ok (relay_step e nl h ev) \<and> (\<forall>x \<in> attempts (relay_step e nl h ev). entitled (es @ [ev]) (relay_step e nl h ev) x)"
    by blast
qed

text \<open>
  The history of sign-ins does not make outcomes up. In every interleaving, an attempt is recorded as
  complete only if the bridge of a flow under this id ended without error, and as cancelled only if
  \<open>CancelRelay\<close> recorded it so, or the bridge of its flow failed after the flow's context had ended or
  its caller had left.\<close>

theorem recorded_attempts_happened:
  assumes "lg_items (hs_relays hist) = []" "h = relay_run e nl hist es" "x \<in> set (lg_items (hs_relays (rh_history h)))"
  shows "(ra_state x = relay_complete \<longrightarrow> (\<exists>n io. BridgeEnds n io None \<in> set es \<and> flow_of h n (ra_id x))) \<and>
    (ra_state x = relay_cancelled \<longrightarrow> (\<exists>io. RecordsCancel io (ra_id x) \<in> set es) \<or>
       (\<exists>n io msg. BridgeEnds n io (Some msg) \<in> set es \<and> flow_of h n (ra_id x) \<and> ended_flow h n))"
proof -
  have "relay_ok (idle_hub hist) \<and> (\<forall>x \<in> attempts (idle_hub hist). entitled [] (idle_hub hist) x)"
    using assms(1) idle_ok by (simp add: attempts_def idle_hub_def)
  from attempt_history.history_run [OF this, of e nl es] assms(2,3) show ?thesis
    by (simp add: relay_run_def attempts_def entitled_def)
qed

definition demo_outcomes :: "relay_event list \<Rightarrow> (string \<times> string \<times> string) list" where
  "demo_outcomes es = map (\<lambda>x. (ra_id x, ra_state x, ra_error_code x)) (lg_items (hs_relays (rh_history (demo_relay_run es))))"

lemma demo_outcomes_run:
  "demo_outcomes (demo_flow @ es) = map (\<lambda>x. (ra_id x, ra_state x, ra_error_code x))
     (lg_items (hs_relays (rh_history (foldl (relay_step demo_relay_env one_net) demo_led (tl demo_flow @ es)))))"
  by (simp add: demo_outcomes_def demo_flow_def demo_run del: foldl.simps)

theorem recorded_attempts_happened_witness:
  "demo_outcomes (demo_flow @ demo_end None) = [(''rl-1'', relay_complete, '''')] \<and>
   flow_of (demo_relay_run (demo_flow @ demo_end None)) 0 ''rl-1''"
proof -
  have o: "demo_outcomes (demo_flow @ demo_end None) = [(''rl-1'', relay_complete, '''')]"
    unfolding demo_outcomes_run by code_simp
  then obtain x where x: "x \<in> set (lg_items (hs_relays (rh_history (demo_relay_run (demo_flow @ demo_end None)))))"
    "ra_id x = ''rl-1''" "ra_state x = relay_complete"
    by (auto simp: demo_outcomes_def)
  have "lg_items (hs_relays demo_history) = []" by (simp add: demo_history_def new_relay_ledger_def new_ledger_def)
  from recorded_attempts_happened [OF this, of "demo_relay_run (demo_flow @ demo_end None)" demo_relay_env one_net "demo_flow @ demo_end None" x] x
  have "\<exists>n io. BridgeEnds n io None \<in> set (demo_flow @ demo_end None) \<and> flow_of (demo_relay_run (demo_flow @ demo_end None)) n ''rl-1''"
    by (simp add: demo_relay_run_def)
  with o show ?thesis by (auto simp: demo_flow_def demo_end_def demo_arrival_def)
qed

subsection \<open>What the records get wrong\<close>

text \<open>A login that succeeded while \<open>CancelRelay\<close> was on its way is recorded as cancelled.\<close>

lemma success_recorded_as_cancelled:
  "demo_outcomes (demo_flow @ demo_end None @ [RecordsCancel (demo_history_io 8) ''rl-1'']) = [(''rl-1'', relay_cancelled, ''cancelled'')]"
  unfolding demo_outcomes_run by code_simp

text \<open>A login that timed out is recorded as cancelled: the branch for timeouts is reached with a live context only.\<close>

lemma timeout_recorded_as_cancelled:
  "demo_outcomes (demo_flow @ [TimerFires 0] @ demo_end (Some ''context deadline exceeded'')) = [(''rl-1'', relay_cancelled, ''cancelled'')]"
  unfolding demo_outcomes_run by code_simp

text \<open>
  A login that was cancelled while the destination was dialled, released and recorded as cancelled by
  \<open>CancelRelay\<close>, is recorded as failed once the dial gives up: that branch does not look at the context.
\<close>

lemma cancelled_dial_recorded_as_failed:
  "demo_outcomes [demo_arrival, Publish 0 ''rl-1'', RecordSubmitted 0 (demo_history_io 5) demo_routing,
     RecordWaiting 0 (demo_history_io 5), Releases 0, RecordsCancel (demo_history_io 6) ''rl-1'',
     DialEnds 0 (demo_history_io 7) (Some ''x'')] = [(''rl-1'', relay_failed, ''destination_unreachable'')]"
  unfolding demo_outcomes_def demo_run by code_simp

text \<open>A release after the flow took its handle back is reported as a success.\<close>

lemma late_release_reports_success: "snd (call_release (call_clear c))"
  by (simp add: call_release_def)

subsection \<open>The target of a cancellation\<close>

lemma release_calls_nth:
  "co_active (foldl (\<lambda>co n. release_call n co) co ns) = co_active co"
  "length (co_calls (foldl (\<lambda>co n. release_call n co) co ns)) = length (co_calls co)"
  "m \<notin> set ns \<Longrightarrow> co_calls (foldl (\<lambda>co n. release_call n co) co ns) ! m = co_calls co ! m"
  "m \<in> set ns \<Longrightarrow> m < length (co_calls co) \<Longrightarrow> rk_released (co_calls (foldl (\<lambda>co n. release_call n co) co ns) ! m)"
proof -
  have keep: "rk_released (co_calls co ! m) \<Longrightarrow> m < length (co_calls co) \<Longrightarrow>
      rk_released (co_calls (foldl (\<lambda>co n. release_call n co) co ns) ! m)" for co ns
    by (induction ns arbitrary: co) (simp_all add: release_call_def on_call_nth call_release_def)
  show "m \<in> set ns \<Longrightarrow> m < length (co_calls co) \<Longrightarrow> rk_released (co_calls (foldl (\<lambda>co n. release_call n co) co ns) ! m)"
  proof (induction ns arbitrary: co)
    case (Cons n ns)
    show ?case
    proof (cases "m = n")
      case True
      with Cons.prems keep [of "release_call n co" ns] show ?thesis by (simp add: release_call_def on_call_nth call_release_def)
    next
      case False
      with Cons.prems Cons.IH [of "release_call n co"] show ?thesis by (simp add: release_call_def)
    qed
  qed simp
qed (induction ns arbitrary: co; simp add: release_call_def on_call_nth)+

lemma set_calls_of_attempt:
  "m \<in> set (calls_of_attempt i co) \<longleftrightarrow> (\<exists>k. (k, m) \<in> set (co_active co)) \<and> rk_request_id (co_calls co ! m) = i"
  by (force simp: calls_of_attempt_def)

lemma set_snapshot: "set (relay_snapshot now co) = (\<lambda>(k, n). describe_relay now (co_calls co ! n)) ` set (co_active co)"
  by (simp add: relay_snapshot_def)

text \<open>
  \<open>CancelRelay\<close> with an attempt id ends this attempt and no other. Over every run, a call with
  another id is left as it was; every call under way with this id is released; and a local release is
  reported exactly if there is such a call.\<close>

theorem cancel_relay_ends_one:
  assumes "h = relay_run e nl hist es" "trim_space i \<noteq> ''''" "cancel_relay e io peer_released i h = (h', r)"
    and "n < length (rh_flows h)"
  shows "(fl_id (rh_flows h ! n) \<noteq> i \<longrightarrow> co_calls (rh_co h') ! n = co_calls (rh_co h) ! n) \<and>
    (fl_id (rh_flows h ! n) = i \<and> fl_phase (rh_flows h ! n) \<noteq> FlowOver \<longrightarrow> rk_released (co_calls (rh_co h') ! n)) \<and>
    (cx_released_local r \<longleftrightarrow> (\<exists>m < length (rh_flows h). fl_id (rh_flows h ! m) = i \<and> fl_phase (rh_flows h ! m) \<noteq> FlowOver))"
proof -
  have ok: "relay_ok h" by (simp add: assms(1) relay_run_ok)
  let ?co = "rh_co h" and ?found = "calls_of_attempt i (rh_co h)"
  have in_found: "m \<in> set ?found \<longleftrightarrow> m < length (rh_flows h) \<and> fl_id (rh_flows h ! m) = i \<and> fl_phase (rh_flows h ! m) \<noteq> FlowOver" for m
    using ok relay_ok_call [OF ok, of m] by (auto simp: set_calls_of_attempt relay_ok_def coordinator_ok_def call_ok_def)
  have listed: "(\<exists>x \<in> set (relay_snapshot now ?co). ar_operation_id x = i) \<longleftrightarrow> ?found \<noteq> []" for now
    by (force simp: set_snapshot calls_of_attempt_def describe_relay_def filter_empty_conv)
  have i: "i \<noteq> ''''" using assms(2) by auto
  have result: "rh_co h' = (if ?found = [] then ?co else foldl (\<lambda>co n. release_call n co) ?co ?found) \<and> (cx_released_local r \<longleftrightarrow> ?found \<noteq> [])"
  proof (cases "pick_target i (relay_snapshot (io_now io) ?co)")
    case None
    then have "?found = []" using listed [of "io_now io"] assms(2) by (auto simp: pick_target_def find_None_iff)
    with None assms(3) show ?thesis by (auto simp: cancel_relay_def Let_def split: if_splits)
  next
    case (Some target)
    then have t: "target \<in> set (relay_snapshot (io_now io) ?co)" "ar_operation_id target = i"
      using assms(2) by (auto simp: pick_target_def find_Some_iff in_set_conv_nth)
    then have f: "?found \<noteq> []" using listed [of "io_now io"] by blast
    then have "release_target target ?co = (foldl (\<lambda>co n. release_call n co) ?co ?found, True)"
      using t(2) i assms(2) by (simp add: release_target_def cancel_attempt_def Let_def)
    moreover have "relay_snapshot (io_now io) ?co \<noteq> []" using t(1) by auto
    ultimately show ?thesis using Some f assms(3) by (auto simp: cancel_relay_def Let_def)
  qed
  have len: "n < length (co_calls ?co)" using ok assms(4) by (simp add: relay_ok_def)
  have "rh_co h' = foldl (\<lambda>co n. release_call n co) ?co ?found" using result by simp
  then have "n \<notin> set ?found \<longrightarrow> co_calls (rh_co h') ! n = co_calls ?co ! n" "n \<in> set ?found \<longrightarrow> rk_released (co_calls (rh_co h') ! n)"
    using release_calls_nth(3,4) [of n ?found ?co] len by auto
  moreover have "?found \<noteq> [] \<longleftrightarrow> (\<exists>m. m \<in> set ?found)" by (cases ?found) auto
  ultimately show ?thesis using result in_found assms(4) by auto
qed

theorem cancel_relay_ends_one_witness:
  "cx_released_local (snd (cancel_relay demo_relay_env (demo_history_io 6) (\<lambda>_. False) ''rl-1'' (demo_relay_run demo_flow)))"
proof -
  have h: "demo_relay_run demo_flow = relay_run demo_relay_env one_net demo_history demo_flow" by (simp add: demo_relay_run_def)
  have f: "0 < length (rh_flows (demo_relay_run demo_flow))" "fl_id (rh_flows (demo_relay_run demo_flow) ! 0) = ''rl-1''"
    "fl_phase (rh_flows (demo_relay_run demo_flow) ! 0) = FlowDialled" "trim_space ''rl-1'' \<noteq> ''''"
    unfolding demo_flow_def demo_run by code_simp+
  obtain h' r where c: "cancel_relay demo_relay_env (demo_history_io 6) (\<lambda>_. False) ''rl-1'' (demo_relay_run demo_flow) = (h', r)"
    by fastforce
  from cancel_relay_ends_one [OF h f(4) c f(1)] f c show ?thesis by auto
qed

end
