(* ===== verification/Dashboard_Guard.thy ===== *)
theory Dashboard_Guard
  imports Net_URL Staging_Area
begin

text \<open>
  Who may talk to the dashboard of the hub: \<open>securityMiddleware\<close> with the exchange of a bootstrap value
  for a session (internal/hub/web_dashboard.go) and the capabilities it checks (internal/hub/hub.go). Random
  values are arguments, \<open>None\<close> for a failed draw; comparison in constant time is comparison. The headers
  an answer carries and the warning about versions are left out.
\<close>

section \<open>Requests\<close>

record web_request =
  wr_method :: string
  wr_path :: string
  wr_host :: string
  wr_remote :: string
  wr_headers :: "(string \<times> string) list"
  wr_cookies :: "(string \<times> string) list"

definition header_get :: "web_request \<Rightarrow> string \<Rightarrow> string" where
  "header_get r name = (case map_of (wr_headers r) name of None \<Rightarrow> '''' | Some v \<Rightarrow> v)"

section \<open>The dashboard of the hub\<close>

definition canonical_loopback_host :: "string \<Rightarrow> string" where
  "canonical_loopback_host host =
     (let h = to_lower (trim_chars ''[]'' (trim_space host)) in if h = ''localhost'' then ''127.0.0.1'' else h)"

definition split_authority :: "net_lib \<Rightarrow> string \<Rightarrow> (string \<times> string) option" where
  "split_authority nl authority =
     (let a = trim_space authority in
      if a = '''' then None
      else (case nl_split_host_port nl a of
        None \<Rightarrow> None
      | Some (host0, port) \<Rightarrow>
          let host = canonical_loopback_host host0 in
          if host \<noteq> ''127.0.0.1'' \<and> host \<noteq> ''::1'' then None
          else if port = '''' then None
          else (case atoi port of
            None \<Rightarrow> None
          | Some n \<Rightarrow> if n < 1 \<or> 65535 < n then None else Some (host, port))))"

definition same_loopback_authority :: "net_lib \<Rightarrow> string \<Rightarrow> string \<Rightarrow> bool" where
  "same_loopback_authority nl actual candidate \<longleftrightarrow>
     (case (split_authority nl actual, split_authority nl candidate) of
        (Some a, Some c) \<Rightarrow> a = c
      | _ \<Rightarrow> False)"

definition is_allowed_origin :: "net_lib \<Rightarrow> string \<Rightarrow> string \<Rightarrow> bool" where
  "is_allowed_origin nl origin actual \<longleftrightarrow>
     \<not> (origin = '''' \<or> equal_fold origin ''null'') \<and>
     (case nl_parse nl origin of
        None \<Rightarrow> False
      | Some u \<Rightarrow>
          ur_user u = '''' \<and> ur_scheme u = ''http'' \<and> ur_path u = '''' \<and> ur_raw_query u = '''' \<and> ur_fragment u = '''' \<and>
          same_loopback_authority nl actual (ur_host u))"

text \<open>The capabilities of a hub and the address its dashboard is served at.\<close>

record dash =
  da_web :: string
  da_ipc :: string
  da_relay :: string
  da_bootstrap :: string
  da_sessions :: "(string \<times> go_time) list"

definition dashboard_session_ttl :: int where "dashboard_session_ttl = 24 * 3600000000000"
definition max_dashboard_sessions :: nat where "max_dashboard_sessions = 32"

definition touch_session :: "string \<Rightarrow> go_time \<Rightarrow> dash \<Rightarrow> dash \<times> bool" where
  "touch_session i now d =
     (if i = '''' then (d, False)
      else (case map_of (da_sessions d) i of
        None \<Rightarrow> (d, False)
      | Some expires \<Rightarrow>
          if \<not> now < expires then (d\<lparr>da_sessions := AList.delete i (da_sessions d)\<rparr>, False)
          else (d\<lparr>da_sessions := AList.update i (now + dashboard_session_ttl) (da_sessions d)\<rparr>, True)))"

definition new_session :: "string option \<Rightarrow> go_time \<Rightarrow> dash \<Rightarrow> dash \<times> string option" where
  "new_session random now d =
     (case random of
        None \<Rightarrow> (d, None)
      | Some i \<Rightarrow>
          let live = filter (\<lambda>(k, expires). now < expires) (da_sessions d)
          in if max_dashboard_sessions \<le> length live then (d\<lparr>da_sessions := live\<rparr>, None)
             else (d\<lparr>da_sessions := AList.update i (now + dashboard_session_ttl) live\<rparr>, Some i))"

definition consume_bootstrap :: "string \<Rightarrow> dash \<Rightarrow> dash \<times> bool" where
  "consume_bootstrap header d =
     (let provided = trim_space header in
      if provided = '''' \<or> da_bootstrap d = '''' \<or> provided \<noteq> da_bootstrap d then (d, False)
      else (d\<lparr>da_bootstrap := ''''\<rparr>, True))"

text \<open>\<open>dashboardURL\<close>, as the bootstrap value in the fragment of the URL; \<open>None\<close> for the empty URL.\<close>

definition dashboard_url :: "bool \<Rightarrow> string option \<Rightarrow> dash \<Rightarrow> dash \<times> string option" where
  "dashboard_url force_new random d =
     (if da_web d = '''' then (d, None)
      else if force_new \<or> da_bootstrap d = '''' then
        (case random of None \<Rightarrow> (d, None) | Some v \<Rightarrow> (d\<lparr>da_bootstrap := v\<rparr>, Some v))
      else (d, Some (da_bootstrap d)))"

definition rotate_capabilities :: "string option \<Rightarrow> string option \<Rightarrow> dash \<Rightarrow> dash" where
  "rotate_capabilities ipc relay d =
     (case (ipc, relay) of (Some i, Some r) \<Rightarrow> d\<lparr>da_ipc := i, da_relay := r\<rparr> | _ \<Rightarrow> d)"

definition reset_dashboard :: "dash \<Rightarrow> dash" where
  "reset_dashboard d = d\<lparr>da_sessions := [], da_bootstrap := ''''\<rparr>"

definition session_cookie_name :: "net_lib \<Rightarrow> string \<Rightarrow> string" where
  "session_cookie_name nl web =
     (case split_authority nl web of
        Some (_, port) \<Rightarrow> ''tantu_dashboard_session_'' @ port
      | None \<Rightarrow> ''tantu_dashboard_session'')"

definition session_cookie :: "net_lib \<Rightarrow> dash \<Rightarrow> web_request \<Rightarrow> string option" where
  "session_cookie nl d r = map_of (wr_cookies r) (session_cookie_name nl (da_web d))"

definition session_from_cookie :: "net_lib \<Rightarrow> go_time \<Rightarrow> web_request \<Rightarrow> dash \<Rightarrow> dash \<times> bool" where
  "session_from_cookie nl now r d =
     (case session_cookie nl d r of None \<Rightarrow> (d, False) | Some v \<Rightarrow> touch_session v now d)"

definition has_ipc_token :: "web_request \<Rightarrow> dash \<Rightarrow> bool" where
  "has_ipc_token r d \<longleftrightarrow> da_ipc d \<noteq> '''' \<and> header_get r ''X-Tantu-Ipc-Token'' = da_ipc d"

definition has_dashboard_capability :: "net_lib \<Rightarrow> go_time \<Rightarrow> web_request \<Rightarrow> dash \<Rightarrow> dash \<times> bool" where
  "has_dashboard_capability nl now r d =
     (if has_ipc_token r d then (d, True) else session_from_cookie nl now r d)"

datatype web_answer =
    LocalOnly | CrossOrigin | MethodNotAllowed | BootstrapRequired | SessionUnavailable | SessionGiven string
  | CapabilityRequired | NoContent | Passed

definition referer_allowed :: "net_lib \<Rightarrow> string \<Rightarrow> string \<Rightarrow> bool" where
  "referer_allowed nl referer actual \<longleftrightarrow>
     referer = '''' \<or>
     (case nl_parse nl referer of
        None \<Rightarrow> False
      | Some u \<Rightarrow> is_allowed_origin nl (ur_scheme u @ ''://'' @ ur_host u) actual)"

definition exchange_bootstrap :: "go_time \<Rightarrow> string option \<Rightarrow> web_request \<Rightarrow> dash \<Rightarrow> dash \<times> web_answer" where
  "exchange_bootstrap now random r d =
     (if wr_method r \<noteq> ''POST'' then (d, MethodNotAllowed)
      else (case consume_bootstrap (header_get r ''X-Tantu-Dashboard-Bootstrap'') d of
        (d1, False) \<Rightarrow> (d1, BootstrapRequired)
      | (d1, True) \<Rightarrow>
          (case new_session random now d1 of
             (d2, None) \<Rightarrow> (d2, SessionUnavailable)
           | (d2, Some i) \<Rightarrow> (d2, SessionGiven i))))"

definition security_middleware :: "net_lib \<Rightarrow> go_time \<Rightarrow> string option \<Rightarrow> web_request \<Rightarrow> dash \<Rightarrow> dash \<times> web_answer" where
  "security_middleware nl now random r d =
     (if da_web d = '''' \<or> \<not> same_loopback_authority nl (da_web d) (wr_host r) then (d, LocalOnly)
      else if \<not> has_prefix (wr_path r) ''/api/'' then (d, Passed)
      else
        let origin = header_get r ''Origin'' in
        if origin \<noteq> '''' \<and> \<not> is_allowed_origin nl origin (da_web d) then (d, CrossOrigin)
        else if \<not> referer_allowed nl (header_get r ''Referer'') (da_web d) then (d, CrossOrigin)
        else if wr_path r = ''/api/session'' then exchange_bootstrap now random r d
        else if wr_method r = ''OPTIONS'' then (d, NoContent)
        else (case has_dashboard_capability nl now r d of
          (d1, False) \<Rightarrow> (d1, CapabilityRequired)
        | (d1, True) \<Rightarrow> (fst (session_from_cookie nl now r d1), Passed)))"

section \<open>The life of the capabilities\<close>

text \<open>
  The events of a hub; the bootstrap values ever made, and the exchanges of one for a session since the
  hub was last started.
\<close>

record guard_sys =
  gs_dash :: dash
  gs_minted :: "string list"
  gs_exchanged :: "(string \<times> string) list"

datatype guard_event =
    Serves go_time "string option" web_request
  | Mints bool "string option"
  | Rotates "string option" "string option"
  | Restarts
  | Listens string

fun guard_step :: "net_lib \<Rightarrow> guard_sys \<Rightarrow> guard_event \<Rightarrow> guard_sys" where
  "guard_step nl s (Serves now random r) =
     (case security_middleware nl now random r (gs_dash s) of
        (d, SessionGiven i) \<Rightarrow> s\<lparr>gs_dash := d, gs_exchanged := gs_exchanged s @ [(da_bootstrap (gs_dash s), i)]\<rparr>
      | (d, _) \<Rightarrow> s\<lparr>gs_dash := d\<rparr>)"
| "guard_step nl s (Mints force random) =
     (let d = gs_dash s; d' = fst (dashboard_url force random d) in
      s\<lparr>gs_dash := d',
        gs_minted := (if da_web d \<noteq> '''' \<and> (force \<or> da_bootstrap d = '''')
                      then (case random of None \<Rightarrow> gs_minted s | Some v \<Rightarrow> gs_minted s @ [v]) else gs_minted s)\<rparr>)"
| "guard_step nl s (Rotates ipc relay) = s\<lparr>gs_dash := rotate_capabilities ipc relay (gs_dash s)\<rparr>"
| "guard_step nl s Restarts = s\<lparr>gs_dash := reset_dashboard (gs_dash s), gs_exchanged := []\<rparr>"
| "guard_step nl s (Listens web) = s\<lparr>gs_dash := (gs_dash s)\<lparr>da_web := web\<rparr>\<rparr>"

definition guard_ok :: "guard_sys \<Rightarrow> bool" where
  "guard_ok s \<longleftrightarrow>
     (\<forall>t. count_list (map fst (gs_exchanged s)) t + (if t \<noteq> '''' \<and> da_bootstrap (gs_dash s) = t then 1 else 0)
        \<le> count_list (gs_minted s) t) \<and>
     fst ` set (da_sessions (gs_dash s)) \<subseteq> snd ` set (gs_exchanged s) \<and>
     length (da_sessions (gs_dash s)) \<le> max_dashboard_sessions \<and>
     (\<forall>p \<in> set (gs_exchanged s). fst p \<noteq> '''')"

definition session_keys :: "dash \<Rightarrow> string set" where
  "session_keys d = fst ` set (da_sessions d)"

lemma keys_delete_sub: "fst ` set (AList.delete k m) \<subseteq> fst ` set m"
  by (auto simp: AList.delete_eq)

lemma touch_session_effect:
  assumes "touch_session i now d = (d', b)"
  shows "da_bootstrap d' = da_bootstrap d \<and> session_keys d' \<subseteq> session_keys d \<and>
    length (da_sessions d') \<le> length (da_sessions d) \<and> da_web d' = da_web d \<and>
    (b \<longrightarrow> (\<exists>expires. map_of (da_sessions d) i = Some expires \<and> now < expires))"
proof -
  have in_keys: "map_of (da_sessions d) i = Some x \<Longrightarrow> i \<in> fst ` set (da_sessions d)" for x
    by (auto dest!: map_of_SomeD intro: rev_image_eqI)
  show ?thesis
  proof (cases "i = '''' \<or> map_of (da_sessions d) i = None")
    case True
    then have "d' = d \<and> \<not> b" using assms by (cases "i = ''''") (auto simp: touch_session_def)
    then show ?thesis by simp
  next
    case False
    then obtain expires where e: "i \<noteq> ''''" "map_of (da_sessions d) i = Some expires" by auto
    have upd: "insert i (fst ` set (da_sessions d)) = fst ` set (da_sessions d)" using in_keys [OF e(2)] by blast
    show ?thesis
    proof (cases "now < expires")
      case True
      then have "d' = d\<lparr>da_sessions := AList.update i (now + dashboard_session_ttl) (da_sessions d)\<rparr>" "b"
        using assms e by (simp_all add: touch_session_def)
      then show ?thesis using e True in_keys [OF e(2)] by (simp add: session_keys_def keys_update upd length_alist_update)
    next
      case False
      then have "d' = d\<lparr>da_sessions := AList.delete i (da_sessions d)\<rparr>" "\<not> b"
        using assms e by (simp_all add: touch_session_def)
      then show ?thesis using keys_delete_sub [of i "da_sessions d"] length_alist_delete_le [of i "da_sessions d"]
        by (simp add: session_keys_def)
    qed
  qed
qed

lemma session_from_cookie_effect:
  assumes "session_from_cookie nl now r d = (d', b)"
  shows "da_bootstrap d' = da_bootstrap d \<and> session_keys d' \<subseteq> session_keys d \<and>
    length (da_sessions d') \<le> length (da_sessions d) \<and> da_web d' = da_web d \<and>
    (b \<longrightarrow> (\<exists>i expires. session_cookie nl d r = Some i \<and> map_of (da_sessions d) i = Some expires \<and> now < expires))"
  using assms touch_session_effect by (auto simp: session_from_cookie_def split: option.splits)

lemma has_capability_effect:
  assumes "has_dashboard_capability nl now r d = (d', b)"
  shows "da_bootstrap d' = da_bootstrap d \<and> session_keys d' \<subseteq> session_keys d \<and>
    length (da_sessions d') \<le> length (da_sessions d) \<and> da_web d' = da_web d \<and>
    (b \<longrightarrow> has_ipc_token r d \<or>
       (\<exists>i expires. session_cookie nl d r = Some i \<and> map_of (da_sessions d) i = Some expires \<and> now < expires))"
  using assms session_from_cookie_effect by (auto simp: has_dashboard_capability_def split: if_splits)

lemma new_session_effect:
  assumes "new_session random now d = (d', r)"
  shows "da_bootstrap d' = da_bootstrap d \<and> session_keys d' \<subseteq> session_keys d \<union> set_option r \<and>
    (length (da_sessions d) \<le> max_dashboard_sessions \<longrightarrow> length (da_sessions d') \<le> max_dashboard_sessions)"
proof (cases random)
  case (Some i)
  define live where "live = filter (\<lambda>(k, expires). now < expires) (da_sessions d)"
  have sub: "fst ` set live \<subseteq> fst ` set (da_sessions d)" by (auto simp: live_def)
  have len: "length live \<le> length (da_sessions d)" by (simp add: live_def)
  have d': "(d', r) = (if max_dashboard_sessions \<le> length live then (d\<lparr>da_sessions := live\<rparr>, None)
      else (d\<lparr>da_sessions := AList.update i (now + dashboard_session_ttl) live\<rparr>, Some i))"
    using assms Some by (simp add: new_session_def live_def [symmetric])
  show ?thesis
  proof (cases "max_dashboard_sessions \<le> length live")
    case True
    then show ?thesis using d' sub len by (simp add: session_keys_def)
  next
    case False
    then have "length (AList.update i (now + dashboard_session_ttl) live) \<le> max_dashboard_sessions" by (simp add: length_alist_update)
    then show ?thesis using False d' sub by (simp add: session_keys_def keys_update) blast
  qed
qed (use assms in \<open>simp add: new_session_def\<close>)

lemma exchange_effect:
  assumes "exchange_bootstrap now random r d = (d', a)"
  shows "session_keys d' \<subseteq> session_keys d \<union> (case a of SessionGiven i \<Rightarrow> {i} | _ \<Rightarrow> {}) \<and>
    (length (da_sessions d) \<le> max_dashboard_sessions \<longrightarrow> length (da_sessions d') \<le> max_dashboard_sessions) \<and>
    (case a of SessionGiven i \<Rightarrow> da_bootstrap d \<noteq> '''' \<and> da_bootstrap d' = ''''
     | _ \<Rightarrow> da_bootstrap d' = da_bootstrap d \<or> da_bootstrap d' = '''') \<and> a \<noteq> Passed"
proof (cases "wr_method r = ''POST''")
  case True
  obtain d1 b where c: "consume_bootstrap (header_get r ''X-Tantu-Dashboard-Bootstrap'') d = (d1, b)" by force
  then have d1: "da_sessions d1 = da_sessions d" "b \<Longrightarrow> da_bootstrap d \<noteq> '''' \<and> da_bootstrap d1 = ''''" "\<not> b \<Longrightarrow> d1 = d"
    by (auto simp: consume_bootstrap_def Let_def split: if_splits)
  show ?thesis
  proof (cases b)
    case True
    obtain d2 o1 where n: "new_session random now d1 = (d2, o1)" by force
    show ?thesis using assms \<open>wr_method r = ''POST''\<close> c True n d1 new_session_effect [OF n]
      by (cases o1) (auto simp: exchange_bootstrap_def session_keys_def)
  qed (use assms True c d1 in \<open>auto simp: exchange_bootstrap_def session_keys_def\<close>)
qed (use assms in \<open>auto simp: exchange_bootstrap_def\<close>)

lemma middleware_effect:
  assumes "security_middleware nl now random r d = (d', a)"
  shows "session_keys d' \<subseteq> session_keys d \<union> (case a of SessionGiven i \<Rightarrow> {i} | _ \<Rightarrow> {}) \<and>
    (length (da_sessions d) \<le> max_dashboard_sessions \<longrightarrow> length (da_sessions d') \<le> max_dashboard_sessions) \<and>
    (case a of SessionGiven i \<Rightarrow> da_bootstrap d \<noteq> '''' \<and> da_bootstrap d' = ''''
     | _ \<Rightarrow> da_bootstrap d' = da_bootstrap d \<or> da_bootstrap d' = '''')"
proof -
  obtain d1 b where cap: "has_dashboard_capability nl now r d = (d1, b)" by force
  obtain d2 b2 where ck: "session_from_cookie nl now r d1 = (d2, b2)" by force
  consider "d' = d" "\<And>i. a \<noteq> SessionGiven i" | "exchange_bootstrap now random r d = (d', a)" | "d' = d1" "a = CapabilityRequired"
    | "d' = d2" "a = Passed"
    using assms cap ck by (cases b) (auto simp: security_middleware_def Let_def split: if_splits)
  then show ?thesis
  proof cases
    case 1
    then show ?thesis by (auto split: web_answer.splits)
  next
    case 2
    then show ?thesis using exchange_effect by blast
  next
    case 3
    then show ?thesis using has_capability_effect [OF cap] by auto
  next
    case 4
    then show ?thesis using has_capability_effect [OF cap] session_from_cookie_effect [OF ck] by auto
  qed
qed

lemma guard_ok_count:
  "guard_ok s \<Longrightarrow> count_list (map fst (gs_exchanged s)) t +
     (if t \<noteq> '''' \<and> da_bootstrap (gs_dash s) = t then 1 else 0) \<le> count_list (gs_minted s) t"
  unfolding guard_ok_def by blast

lemma guard_serves_ok:
  assumes ok: "guard_ok s"
  shows "guard_ok (guard_step nl s (Serves now random r))"
proof -
  obtain d a where m: "security_middleware nl now random r (gs_dash s) = (d, a)" by force
  note e = middleware_effect [OF m]
  show ?thesis
  proof (cases "\<exists>i. a = SessionGiven i")
    case True
    then obtain i where i: "a = SessionGiven i" by blast
    have keys: "session_keys d \<subseteq> insert i (snd ` set (gs_exchanged s))"
      using e ok i unfolding guard_ok_def session_keys_def by simp blast
    have "da_bootstrap d = ''''" "da_bootstrap (gs_dash s) \<noteq> ''''" using e i by simp_all
    have few: "length (da_sessions d) \<le> max_dashboard_sessions" using e ok by (simp add: guard_ok_def)
    have c: "count_list (map fst (gs_exchanged s)) t + (if da_bootstrap (gs_dash s) = t then 1 else 0) \<le> count_list (gs_minted s) t" for t
    proof (cases "t = ''''")
      case True
      then have "count_list (map fst (gs_exchanged s)) t = 0" using ok by (auto simp: guard_ok_def count_list_0_iff)
      then show ?thesis using True \<open>da_bootstrap (gs_dash s) \<noteq> ''''\<close> by simp
    qed (use guard_ok_count [OF ok, of t] in simp)
    have cnt: "count_list (map fst (gs_exchanged s @ [(da_bootstrap (gs_dash s), i)])) t + (if t \<noteq> '''' \<and> '''' = t then 1 else 0)
        \<le> count_list (gs_minted s) t" for t
      using c [of t] by auto
    have st: "guard_step nl s (Serves now random r) =
        s\<lparr>gs_dash := d, gs_exchanged := gs_exchanged s @ [(da_bootstrap (gs_dash s), i)]\<rparr>" using m i by simp
    have "\<forall>p \<in> set (gs_exchanged s @ [(da_bootstrap (gs_dash s), i)]). fst p \<noteq> ''''"
      using ok \<open>da_bootstrap (gs_dash s) \<noteq> ''''\<close> by (simp add: guard_ok_def)
    then show ?thesis unfolding st guard_ok_def using cnt keys few \<open>da_bootstrap d = ''''\<close>
      by (simp add: session_keys_def)
  next
    case False
    have k: "session_keys d \<subseteq> session_keys (gs_dash s)"
      "da_bootstrap d = da_bootstrap (gs_dash s) \<or> da_bootstrap d = ''''" using e False by (auto split: web_answer.splits)
    have "guard_step nl s (Serves now random r) = s\<lparr>gs_dash := d\<rparr>" using m False by (auto split: web_answer.splits)
    moreover have "guard_ok (s\<lparr>gs_dash := d\<rparr>)"
    proof -
      have "count_list (map fst (gs_exchanged s)) t + (if t \<noteq> '''' \<and> da_bootstrap d = t then 1 else 0) \<le> count_list (gs_minted s) t" for t
        using ok k(2) by (auto simp: guard_ok_def split: if_splits dest: spec [of _ t])
      moreover have "session_keys d \<subseteq> snd ` set (gs_exchanged s)" using ok k(1) unfolding guard_ok_def session_keys_def by blast
      moreover have "length (da_sessions d) \<le> max_dashboard_sessions" using e ok by (simp add: guard_ok_def)
      ultimately show ?thesis using ok by (simp add: guard_ok_def session_keys_def)
    qed
    ultimately show ?thesis by simp
  qed
qed

lemma guard_mints_ok:
  assumes ok: "guard_ok s"
  shows "guard_ok (guard_step nl s (Mints force random))"
proof (cases "da_web (gs_dash s) \<noteq> '''' \<and> (force \<or> da_bootstrap (gs_dash s) = '''') \<and> random \<noteq> None")
  case True
  then obtain v where v: "random = Some v" by blast
  have "count_list (map fst (gs_exchanged s)) t \<le> count_list (gs_minted s) t" for t
  proof -
    have "count_list (map fst (gs_exchanged s)) t + (if t \<noteq> '''' \<and> da_bootstrap (gs_dash s) = t then 1 else 0) \<le> count_list (gs_minted s) t"
      using ok unfolding guard_ok_def by blast
    then show ?thesis by linarith
  qed
  then show ?thesis using ok True v by (auto simp: guard_ok_def dashboard_url_def Let_def intro: le_SucI)
next
  case False
  then have "guard_step nl s (Mints force random) = s"
    by (auto simp: dashboard_url_def Let_def split: option.splits)
  with ok show ?thesis by (simp only:)
qed

interpretation capabilities: stepper "guard_step nl" guard_ok for nl
proof
  fix s ev
  assume ok: "guard_ok s"
  show "guard_ok (guard_step nl s ev)"
  proof (cases ev)
    case (Serves now random r)
    then show ?thesis using guard_serves_ok [OF ok] by blast
  next
    case (Mints force random)
    then show ?thesis using guard_mints_ok [OF ok] by blast
  next
    case (Rotates ipc relay)
    have "da_bootstrap (rotate_capabilities ipc relay d) = da_bootstrap d \<and> da_sessions (rotate_capabilities ipc relay d) = da_sessions d" for d
      by (simp add: rotate_capabilities_def split: option.split)
    then show ?thesis using ok Rotates by (simp add: guard_ok_def)
  next
    case Restarts
    then show ?thesis using ok by (auto simp: guard_ok_def reset_dashboard_def)
  next
    case (Listens web)
    then show ?thesis using ok by (simp add: guard_ok_def)
  qed
qed

lemma guard_start_ok:
  assumes "gs_minted s = []" "gs_exchanged s = []" "da_bootstrap (gs_dash s) = ''''" "da_sessions (gs_dash s) = []"
  shows "guard_ok s"
  using assms by (auto simp: guard_ok_def)

lemma passed_api_effect:
  assumes m: "security_middleware nl now random r d = (d', Passed)" and api: "has_prefix (wr_path r) ''/api/''"
  shows "same_loopback_authority nl (da_web d) (wr_host r)"
    and "header_get r ''Origin'' = '''' \<or> is_allowed_origin nl (header_get r ''Origin'') (da_web d)"
    and "referer_allowed nl (header_get r ''Referer'') (da_web d)"
    and "has_ipc_token r d \<or>
       (\<exists>i expires. session_cookie nl d r = Some i \<and> map_of (da_sessions d) i = Some expires \<and> now < expires)"
proof -
  obtain d1 b where cap: "has_dashboard_capability nl now r d = (d1, b)" by force
  have x: "exchange_bootstrap now random r d \<noteq> (d', Passed)" using exchange_effect by blast
  show "same_loopback_authority nl (da_web d) (wr_host r)"
    using m by (auto simp: security_middleware_def split: if_splits)
  show "header_get r ''Origin'' = '''' \<or> is_allowed_origin nl (header_get r ''Origin'') (da_web d)"
    using m api by (auto simp: security_middleware_def Let_def split: if_splits)
  show "referer_allowed nl (header_get r ''Referer'') (da_web d)"
    using m api by (auto simp: security_middleware_def Let_def split: if_splits)
  have b using m api cap x by (cases b) (auto simp: security_middleware_def Let_def split: if_splits)
  then show "has_ipc_token r d \<or>
       (\<exists>i expires. session_cookie nl d r = Some i \<and> map_of (da_sessions d) i = Some expires \<and> now < expires)"
    using has_capability_effect [OF cap] by blast
qed

lemma distinct_count: "distinct xs \<Longrightarrow> count_list xs t \<le> 1"
  by (induction xs) auto

lemma distinct_of_counts: "(\<And>t. count_list xs t \<le> 1) \<Longrightarrow> distinct xs"
proof (induction xs)
  case (Cons x xs)
  have "count_list xs x = 0" using Cons.prems [of x] by simp
  moreover have "count_list xs t \<le> 1" for t using Cons.prems [of t] by (auto split: if_splits)
  ultimately show ?case using Cons.IH by (simp add: count_list_0_iff)
qed simp

lemma guard_ok_exchanged:
  assumes ok: "guard_ok s" and d: "distinct (gs_minted s)"
  shows "distinct (map fst (gs_exchanged s))"
proof (rule distinct_of_counts)
  fix t
  show "count_list (map fst (gs_exchanged s)) t \<le> 1"
    using guard_ok_count [OF ok, of t] distinct_count [OF d, of t] by simp
qed

lemma guard_ok_session_origin:
  assumes ok: "guard_ok s" and m: "map_of (da_sessions (gs_dash s)) i = Some e"
  shows "\<exists>v. (v, i) \<in> set (gs_exchanged s) \<and> v \<in> set (gs_minted s)"
proof -
  have "(i, e) \<in> set (da_sessions (gs_dash s))" using m by (rule map_of_SomeD)
  then have "i \<in> snd ` set (gs_exchanged s)" using ok unfolding guard_ok_def by force
  then obtain v where v: "(v, i) \<in> set (gs_exchanged s)" by auto
  then have "v \<in> set (map fst (gs_exchanged s))" by force
  then have "count_list (map fst (gs_exchanged s)) v \<noteq> 0" by (simp only: count_list_0_iff not_not)
  then have "count_list (gs_minted s) v \<noteq> 0" using guard_ok_count [OF ok, of v] by linarith
  with v show ?thesis using count_notin by fastforce
qed

text \<open>
  C16. The dashboard answers nobody else. Take any history of a hub that starts without sessions:
  requests served, bootstrap values made, capabilities rotated, restarts, changes of the listener's
  address. A request under /api/ that is passed on to its handler names this dashboard's own address and
  port as its host, shows no origin but the dashboard's own (nor such a referer), and carries either the
  local IPC capability or the cookie of a session that is alive and was given, since the last start, for a
  bootstrap value this hub had made. As far as the hub's random values differ, each bootstrap value is
  exchanged at most once; and at no time are there more than 32 sessions.
\<close>

theorem dashboard_needs_capability:
  assumes start: "gs_minted s0 = []" "gs_exchanged s0 = []" "da_bootstrap (gs_dash s0) = ''''" "da_sessions (gs_dash s0) = []"
    and run: "s = foldl (guard_step nl) s0 evs" and fresh: "distinct (gs_minted s)"
    and passed: "security_middleware nl now random r (gs_dash s) = (d', Passed)"
    and api: "has_prefix (wr_path r) ''/api/''"
  shows "same_loopback_authority nl (da_web (gs_dash s)) (wr_host r) \<and>
    (header_get r ''Origin'' = '''' \<or> is_allowed_origin nl (header_get r ''Origin'') (da_web (gs_dash s))) \<and>
    referer_allowed nl (header_get r ''Referer'') (da_web (gs_dash s)) \<and>
    (has_ipc_token r (gs_dash s) \<or>
       (\<exists>i expires v. session_cookie nl (gs_dash s) r = Some i \<and> map_of (da_sessions (gs_dash s)) i = Some expires \<and>
          now < expires \<and> (v, i) \<in> set (gs_exchanged s) \<and> v \<in> set (gs_minted s))) \<and>
    distinct (map fst (gs_exchanged s)) \<and> length (da_sessions (gs_dash s)) \<le> 32"
proof -
  have ok: "guard_ok s" unfolding run by (intro capabilities.run_inv guard_start_ok start)
  note p = passed_api_effect [OF passed api]
  have few: "length (da_sessions (gs_dash s)) \<le> 32" using ok by (simp add: guard_ok_def max_dashboard_sessions_def)
  have cap: "has_ipc_token r (gs_dash s) \<or>
      (\<exists>i expires v. session_cookie nl (gs_dash s) r = Some i \<and> map_of (da_sessions (gs_dash s)) i = Some expires \<and>
        now < expires \<and> (v, i) \<in> set (gs_exchanged s) \<and> v \<in> set (gs_minted s))"
    using p(4) guard_ok_session_origin [OF ok] by meson
  show ?thesis by (intro conjI p(1-3) cap few guard_ok_exchanged [OF ok fresh])
qed

definition demo_web_net :: net_lib where
  "demo_web_net = demo_net\<lparr>nl_split_host_port :=
     (\<lambda>s. let host = takeWhile (\<lambda>c. c \<noteq> CHR '':'') s in
       if host = s then None else Some (host, drop (length host + 1) s))\<rparr>"

definition demo_web_request :: "string \<Rightarrow> string \<Rightarrow> (string \<times> string) list \<Rightarrow> web_request" where
  "demo_web_request method path headers =
     \<lparr>wr_method = method, wr_path = path, wr_host = ''localhost:8080'', wr_remote = ''127.0.0.1:50000'',
      wr_headers = headers, wr_cookies = [(''tantu_dashboard_session_8080'', ''sess'')]\<rparr>"

definition demo_guard_start :: guard_sys where
  "demo_guard_start = \<lparr>gs_dash = \<lparr>da_web = '''', da_ipc = '''', da_relay = '''', da_bootstrap = '''', da_sessions = []\<rparr>,
     gs_minted = [], gs_exchanged = []\<rparr>"

definition demo_guard_events :: "guard_event list" where
  "demo_guard_events =
     [Listens ''127.0.0.1:8080'', Rotates (Some ''ipc'') (Some ''relay''), Mints False (Some ''boot''),
      Serves 5 (Some ''sess'') (demo_web_request ''POST'' ''/api/session'' [(''X-Tantu-Dashboard-Bootstrap'', ''boot'')])]"

definition demo_guard_end :: guard_sys where
  "demo_guard_end = \<lparr>gs_dash = \<lparr>da_web = ''127.0.0.1:8080'', da_ipc = ''ipc'', da_relay = ''relay'', da_bootstrap = '''',
       da_sessions = [(''sess'', 5 + dashboard_session_ttl)]\<rparr>,
     gs_minted = [''boot''], gs_exchanged = [(''boot'', ''sess'')]\<rparr>"

lemma demo_guard_split:
  "nl_split_host_port demo_web_net ''127.0.0.1:8080'' = Some (''127.0.0.1'', ''8080'')"
  "nl_split_host_port demo_web_net ''localhost:8080'' = Some (''localhost'', ''8080'')"
  "canonical_loopback_host ''127.0.0.1'' = ''127.0.0.1''" "canonical_loopback_host ''localhost'' = ''127.0.0.1''"
  "trim_space ''127.0.0.1:8080'' = ''127.0.0.1:8080''" "trim_space ''localhost:8080'' = ''localhost:8080''"
  "trim_space ''boot'' = ''boot''"
  by (code_simp | simp add: demo_web_net_def)+

lemma demo_guard_port: "atoi ''8080'' = Some 8080"
  by code_simp

lemma demo_guard_same: "same_loopback_authority demo_web_net ''127.0.0.1:8080'' ''localhost:8080''"
  by (simp add: same_loopback_authority_def split_authority_def demo_guard_split demo_guard_port Let_def)

lemma demo_guard_cookie: "session_cookie_name demo_web_net ''127.0.0.1:8080'' = ''tantu_dashboard_session_8080''"
  by (simp add: session_cookie_name_def split_authority_def demo_guard_split demo_guard_port Let_def)

lemmas demo_guard_defs = security_middleware_def demo_web_request_def demo_guard_same demo_guard_cookie demo_guard_split
  header_get_def referer_allowed_def has_prefix_def

lemma demo_guard_run: "demo_guard_end = foldl (guard_step demo_web_net) demo_guard_start demo_guard_events"
  by (simp add: demo_guard_end_def demo_guard_start_def demo_guard_events_def rotate_capabilities_def dashboard_url_def
      demo_guard_defs exchange_bootstrap_def consume_bootstrap_def new_session_def max_dashboard_sessions_def)

lemma demo_guard_passes:
  "security_middleware demo_web_net 7 None (demo_web_request ''GET'' ''/api/status'' []) (gs_dash demo_guard_end) =
   ((gs_dash demo_guard_end)\<lparr>da_sessions := [(''sess'', 7 + dashboard_session_ttl)]\<rparr>, Passed)"
  by (simp add: demo_guard_end_def demo_guard_defs has_dashboard_capability_def has_ipc_token_def session_from_cookie_def
      session_cookie_def touch_session_def dashboard_session_ttl_def)

theorem dashboard_needs_capability_witness:
  "distinct (map fst (gs_exchanged demo_guard_end)) \<and>
   same_loopback_authority demo_web_net (da_web (gs_dash demo_guard_end)) ''localhost:8080''"
proof -
  have "gs_minted demo_guard_start = []" "gs_exchanged demo_guard_start = []" "da_bootstrap (gs_dash demo_guard_start) = ''''"
    "da_sessions (gs_dash demo_guard_start) = []" "distinct (gs_minted demo_guard_end)"
    by (simp_all add: demo_guard_start_def demo_guard_end_def)
  note r = dashboard_needs_capability [OF this(1-4) demo_guard_run this(5) demo_guard_passes]
  have "has_prefix (wr_path (demo_web_request ''GET'' ''/api/status'' [])) ''/api/''"
    by (simp add: demo_web_request_def has_prefix_def)
  from r [OF this] show ?thesis by (simp add: demo_web_request_def)
qed

end
