(* ===== verification/Standalone_Guard.thy ===== *)
theory Standalone_Guard
  imports Dashboard_Guard
begin

text \<open>
  Who may talk to the pages of the standalone commands (cmd/tantu/hardening.go): the single-use tickets of
  the relay page, the one session a page gives, and the checks in front of its handlers. Random values are
  arguments, \<open>None\<close> for a failed draw.
\<close>

section \<open>Tickets of the standalone pages\<close>

text \<open>
  \<open>localTicketPool\<close>. A Go map is visited in any order: the operations take the order of this visit, and
  \<open>arrange\<close> lists the entries in it.
\<close>

type_synonym ticket_pool = "(string \<times> go_time) list"

definition arrange :: "string list \<Rightarrow> ticket_pool \<Rightarrow> ticket_pool" where
  "arrange order m =
     concat (map (\<lambda>k. filter (\<lambda>e. fst e = k) m) (remdups order)) @ filter (\<lambda>e. fst e \<notin> set order) m"

definition max_local_tickets :: nat where "max_local_tickets = 128"
definition local_ticket_ttl :: int where "local_ticket_ttl = 600 * 1000000000"

definition issue_ticket :: "string list \<Rightarrow> string option \<Rightarrow> go_time \<Rightarrow> ticket_pool \<Rightarrow> ticket_pool \<times> string" where
  "issue_ticket order random now m =
     (case random of
        None \<Rightarrow> (m, '''')
      | Some v \<Rightarrow>
          let live = filter (\<lambda>(t, expires). \<not> expires < now) (arrange order m);
              room = drop (length live - (max_local_tickets - 1)) live
          in (AList.update v (now + local_ticket_ttl) room, v))"

fun burn_ticket :: "string \<Rightarrow> go_time \<Rightarrow> ticket_pool \<Rightarrow> ticket_pool \<times> bool" where
  "burn_ticket p now [] = ([], False)"
| "burn_ticket p now ((t, expires) # m) =
     (if expires < now then burn_ticket p now m
      else if p = t then (m, True)
      else (case burn_ticket p now m of (m', b) \<Rightarrow> ((t, expires) # m', b)))"

definition consume_ticket :: "string list \<Rightarrow> string \<Rightarrow> go_time \<Rightarrow> ticket_pool \<Rightarrow> ticket_pool \<times> bool" where
  "consume_ticket order presented now m =
     (if presented = '''' then (m, False) else burn_ticket presented now (arrange order m))"

record ticket_sys =
  ts_pool :: ticket_pool
  ts_issued :: "(string \<times> go_time) list"
  ts_used :: "(string \<times> go_time) list"

datatype ticket_event =
    Issues "string list" "string option" go_time
  | Presents "string list" string go_time

fun ticket_step :: "ticket_sys \<Rightarrow> ticket_event \<Rightarrow> ticket_sys" where
  "ticket_step s (Issues order random now) =
     s\<lparr>ts_pool := fst (issue_ticket order random now (ts_pool s)),
       ts_issued := (case random of None \<Rightarrow> ts_issued s | Some v \<Rightarrow> ts_issued s @ [(v, now)])\<rparr>"
| "ticket_step s (Presents order value now) =
     (case consume_ticket order value now (ts_pool s) of
        (m, b) \<Rightarrow> s\<lparr>ts_pool := m, ts_used := (if b then ts_used s @ [(value, now)] else ts_used s)\<rparr>)"

definition tickets_ok :: "ticket_sys \<Rightarrow> bool" where
  "tickets_ok s \<longleftrightarrow>
     length (ts_pool s) \<le> max_local_tickets \<and>
     mset (map fst (ts_used s)) + mset (map fst (ts_pool s)) \<subseteq># mset (map fst (ts_issued s)) \<and>
     (\<forall>(t, expires) \<in> set (ts_pool s). (t, expires - local_ticket_ttl) \<in> set (ts_issued s)) \<and>
     (\<forall>(t, used) \<in> set (ts_used s). \<exists>at. (t, at) \<in> set (ts_issued s) \<and> used \<le> at + local_ticket_ttl)"

lemma mset_by_keys:
  "distinct ks \<Longrightarrow> mset (concat (map (\<lambda>k. filter (\<lambda>e. fst e = k) m) ks) @ filter (\<lambda>e. fst e \<notin> set ks) m) = mset m"
proof (induction ks)
  case (Cons k ks)
  have "filter_mset (\<lambda>e. fst e \<notin> set ks) (mset m) =
      filter_mset (\<lambda>e. fst e = k) (mset m) + filter_mset (\<lambda>e. fst e \<notin> set (k # ks)) (mset m)"
    using Cons.prems by (induction m) (auto split: if_splits)
  with Cons show ?case by (simp add: mset_concat add.left_commute)
qed simp

lemma mset_arrange: "mset (arrange order m) = mset m"
  using mset_by_keys [of "remdups order" m] by (simp add: arrange_def)

lemma length_arrange: "length (arrange order m) = length m"
  using mset_arrange [of order m] mset_eq_length by blast

lemma set_arrange: "set (arrange order m) = set m"
  using mset_arrange [of order m] mset_eq_setD by blast

lemma mset_keys_arrange: "mset (map fst (arrange order m)) = mset (map fst m)"
  by (simp add: mset_arrange)

lemma mset_keys_filter: "mset (map fst (filter P m)) \<subseteq># mset (map fst m)"
  by (simp add: image_mset_subseteq_mono)

lemma mset_keys_drop: "mset (map fst (drop n m)) \<subseteq># mset (map fst m)"
  by (metis append_take_drop_id map_append mset_append mset_subset_eq_add_right)

lemma mset_keys_update: "mset (map fst (AList.update k v m)) \<subseteq># add_mset k (mset (map fst m))"
  by (simp add: update_keys subset_mset.le_iff_add)

lemma set_update_sub: "set (AList.update k v m) \<subseteq> insert (k, v) (set m)"
  by (induction m) auto

lemma issue_effect:
  assumes "issue_ticket order random now m = (m', t)"
  shows "case random of None \<Rightarrow> m' = m
    | Some v \<Rightarrow> length m' \<le> max_local_tickets \<and> mset (map fst m') \<subseteq># add_mset v (mset (map fst m)) \<and>
        set m' \<subseteq> insert (v, now + local_ticket_ttl) (set m)"
proof (cases random)
  case (Some v)
  define live where "live = filter (\<lambda>(t, expires). \<not> expires < now) (arrange order m)"
  define room where "room = drop (length live - (max_local_tickets - 1)) live"
  have m': "m' = AList.update v (now + local_ticket_ttl) room"
    using assms Some by (auto simp: issue_ticket_def Let_def live_def room_def)
  have len: "length room \<le> max_local_tickets - 1" by (simp add: room_def)
  have "mset (map fst room) \<subseteq># mset (map fst live)" unfolding room_def by (rule mset_keys_drop)
  also have "\<dots> \<subseteq># mset (map fst (arrange order m))" unfolding live_def by (rule mset_keys_filter)
  also have "\<dots> = mset (map fst m)" by (rule mset_keys_arrange)
  finally have keys: "mset (map fst room) \<subseteq># mset (map fst m)" .
  have "set room \<subseteq> set m" using set_arrange [of order m] set_drop_subset [of _ live] by (auto simp: room_def live_def)
  then have "set m' \<subseteq> insert (v, now + local_ticket_ttl) (set m)" using set_update_sub [of v _ room] unfolding m' by fast
  moreover have "mset (map fst m') \<subseteq># add_mset v (mset (map fst m))"
    unfolding m' using mset_keys_update [of v "now + local_ticket_ttl" room] keys
    by (meson mset_subset_eq_add_mset_cancel subset_mset.order_trans)
  moreover have "length m' \<le> max_local_tickets"
    using len unfolding m' length_alist_update by (simp add: max_local_tickets_def)
  ultimately show ?thesis by (simp add: Some)
qed (use assms in \<open>simp add: issue_ticket_def\<close>)

lemma burn_effect:
  "burn_ticket p now m = (m', b) \<Longrightarrow>
   length m' \<le> length m \<and> set m' \<subseteq> set m \<and>
   mset (map fst m') + (if b then {#p#} else {#}) \<subseteq># mset (map fst m) \<and>
   (b \<longrightarrow> (\<exists>expires. (p, expires) \<in> set m \<and> now \<le> expires))"
proof (induction m arbitrary: m')
  case (Cons e m)
  obtain t expires where e: "e = (t, expires)" by (cases e)
  obtain m1 b1 where r: "burn_ticket p now m = (m1, b1)" by force
  note ih = Cons.IH [of m1]
  consider "expires < now" | "\<not> expires < now" "p = t" | "\<not> expires < now" "p \<noteq> t" by blast
  then show ?case
  proof cases
    case 1
    then have eq: "m' = m1" "b = b1" using Cons.prems r e by simp_all
    have "mset (map fst m') + (if b then {#p#} else {#}) \<subseteq># add_mset t (mset (map fst m))"
    proof -
      have "mset (map fst m') + (if b then {#p#} else {#}) \<subseteq># mset (map fst m)" using ih r eq by blast
      also have "\<dots> \<subseteq># add_mset t (mset (map fst m))" by simp
      finally show ?thesis .
    qed
    moreover have "length m' \<le> length m" "set m' \<subseteq> set m" "b \<longrightarrow> (\<exists>expires. (p, expires) \<in> set m \<and> now \<le> expires)"
      using ih r eq by blast+
    ultimately show ?thesis using e by auto
  next
    case 2
    then show ?thesis using Cons.prems r e by (auto simp: not_less)
  next
    case 3
    then have eq: "m' = (t, expires) # m1" "b = b1" using Cons.prems r e by simp_all
    have i: "length m1 \<le> length m" "set m1 \<subseteq> set m" "mset (map fst m1) + (if b then {#p#} else {#}) \<subseteq># mset (map fst m)"
      "b \<longrightarrow> (\<exists>expires. (p, expires) \<in> set m \<and> now \<le> expires)" using ih r eq by blast+
    show ?thesis using i(1,2,4) i(3) e eq by auto
  qed
qed simp

lemma consume_effect:
  assumes "consume_ticket order p now m = (m', b)"
  shows "length m' \<le> length m" "set m' \<subseteq> set m" "mset (map fst m') + (if b then {#p#} else {#}) \<subseteq># mset (map fst m)"
    "b \<Longrightarrow> \<exists>expires. (p, expires) \<in> set m \<and> now \<le> expires"
proof -
  have "length m' \<le> length m \<and> set m' \<subseteq> set m \<and> mset (map fst m') + (if b then {#p#} else {#}) \<subseteq># mset (map fst m) \<and>
    (b \<longrightarrow> (\<exists>expires. (p, expires) \<in> set m \<and> now \<le> expires))"
    using assms burn_effect [of p now "arrange order m" m' b]
    by (cases "p = ''''") (auto simp: consume_ticket_def length_arrange set_arrange mset_keys_arrange mset_arrange)
  then show "length m' \<le> length m" "set m' \<subseteq> set m" "mset (map fst m') + (if b then {#p#} else {#}) \<subseteq># mset (map fst m)"
    "b \<Longrightarrow> \<exists>expires. (p, expires) \<in> set m \<and> now \<le> expires" by blast+
qed


lemma count_list_mset_le: "mset xs \<subseteq># mset ys \<Longrightarrow> count_list xs t \<le> count_list ys t"
  by (metis count_mset mset_subset_eq_count)

lemma ticket_step_ok:
  assumes ok: "tickets_ok s"
  shows "tickets_ok (ticket_step s ev)"
proof (cases ev)
  case (Issues order random now)
  obtain m t where m: "issue_ticket order random now (ts_pool s) = (m, t)" by force
  note eff = issue_effect [OF m]
  show ?thesis
  proof (cases random)
    case None
    then have "ticket_step s ev = s" using eff m Issues by simp
    then show ?thesis using ok by simp
  next
    case (Some v)
    have st: "ticket_step s ev = s\<lparr>ts_pool := m, ts_issued := ts_issued s @ [(v, now)]\<rparr>" using Issues Some m by simp
    have keys: "mset (map fst m) \<subseteq># add_mset v (mset (map fst (ts_pool s)))" using eff Some by simp
    have "mset (map fst (ts_used s)) + mset (map fst m) \<subseteq># mset (map fst (ts_used s)) + add_mset v (mset (map fst (ts_pool s)))"
      using keys by (rule subset_mset.add_left_mono)
    also have "\<dots> \<subseteq># add_mset v (mset (map fst (ts_issued s)))" using ok by (simp add: tickets_ok_def)
    finally have sub: "mset (map fst (ts_used s)) + mset (map fst m) \<subseteq># add_mset v (mset (map fst (ts_issued s)))" .
    moreover have "(t, expires - local_ticket_ttl) \<in> set (ts_issued s @ [(v, now)])" if "(t, expires) \<in> set m" for t expires
      using that eff Some ok by (auto simp: tickets_ok_def)
    moreover have "\<exists>at. (t, at) \<in> set (ts_issued s @ [(v, now)]) \<and> used \<le> at + local_ticket_ttl" if "(t, used) \<in> set (ts_used s)" for t used
      using that ok by (fastforce simp: tickets_ok_def)
    moreover have "length m \<le> max_local_tickets" using eff Some by simp
    ultimately show ?thesis unfolding st by (auto simp: tickets_ok_def)
  qed
next
  case (Presents order p now)
  obtain m b where m: "consume_ticket order p now (ts_pool s) = (m, b)" by force
  note eff = consume_effect [OF m]
  define used where "used = (if b then ts_used s @ [(p, now)] else ts_used s)"
  have st: "ticket_step s ev = s\<lparr>ts_pool := m, ts_used := used\<rparr>" using Presents m by (simp add: used_def)
  have "mset (map fst used) + mset (map fst m) = mset (map fst (ts_used s)) + (mset (map fst m) + (if b then {#p#} else {#}))"
    by (simp add: used_def)
  also have "\<dots> \<subseteq># mset (map fst (ts_used s)) + mset (map fst (ts_pool s))" using eff(3) by (rule subset_mset.add_left_mono)
  also have "\<dots> \<subseteq># mset (map fst (ts_issued s))" using ok by (simp add: tickets_ok_def)
  finally have sub: "mset (map fst used) + mset (map fst m) \<subseteq># mset (map fst (ts_issued s))" .
  moreover have "(t, expires - local_ticket_ttl) \<in> set (ts_issued s)" if "(t, expires) \<in> set m" for t expires
    using that eff(2) ok by (auto simp: tickets_ok_def)
  moreover have "\<exists>at. (p, at) \<in> set (ts_issued s) \<and> now \<le> at + local_ticket_ttl" if b
  proof -
    obtain expires where e: "(p, expires) \<in> set (ts_pool s)" "now \<le> expires" using eff(4) \<open>b\<close> by blast
    then have "(p, expires - local_ticket_ttl) \<in> set (ts_issued s)" using ok by (auto simp: tickets_ok_def)
    then show ?thesis using e(2) by (intro exI [of _ "expires - local_ticket_ttl"]) simp
  qed
  moreover have "length m \<le> max_local_tickets" using eff(1) ok by (simp add: tickets_ok_def)
  ultimately show ?thesis using ok unfolding st by (auto simp: tickets_ok_def used_def)
qed

interpretation local_tickets: stepper ticket_step tickets_ok
  by unfold_locales (rule ticket_step_ok)

text \<open>
  A relay ticket of the standalone pages works once, and not for long. In every run of a pool that starts
  empty, whatever the order in which its map is visited: the tickets used are, as a multiset, among the
  tickets issued - so where the random values differ, none is used twice -, each use comes within ten
  minutes of an issue of that ticket, and the pool never holds more than 128.
\<close>

theorem local_ticket_single_use:
  assumes run: "s = foldl ticket_step \<lparr>ts_pool = [], ts_issued = [], ts_used = []\<rparr> evs"
  shows "mset (map fst (ts_used s)) \<subseteq># mset (map fst (ts_issued s)) \<and>
    (distinct (map fst (ts_issued s)) \<longrightarrow> distinct (map fst (ts_used s))) \<and>
    (\<forall>(t, used) \<in> set (ts_used s). \<exists>at. (t, at) \<in> set (ts_issued s) \<and> used \<le> at + 600 * 1000000000) \<and>
    length (ts_pool s) \<le> 128"
proof -
  have "tickets_ok \<lparr>ts_pool = [], ts_issued = [], ts_used = []\<rparr>" by (simp add: tickets_ok_def)
  then have ok: "tickets_ok s" unfolding run by (rule local_tickets.run_inv)
  have sub: "mset (map fst (ts_used s)) \<subseteq># mset (map fst (ts_issued s))"
    using ok unfolding tickets_ok_def by (meson mset_subset_eq_add_left subset_mset.order_trans)
  have "distinct (map fst (ts_used s))" if "distinct (map fst (ts_issued s))"
    using that sub by (meson distinct_count count_list_mset_le distinct_of_counts order_trans)
  then show ?thesis using ok sub unfolding tickets_ok_def local_ticket_ttl_def max_local_tickets_def by blast
qed

definition demo_ticket_events :: "ticket_event list" where
  "demo_ticket_events =
     [Issues [] (Some ''a'') 0, Issues [''a''] (Some ''b'') 5, Presents [''b'', ''a''] ''a'' 9, Presents [] ''a'' 10]"

definition demo_ticket_end :: ticket_sys where
  "demo_ticket_end = \<lparr>ts_pool = [(''b'', 5 + local_ticket_ttl)], ts_issued = [(''a'', 0), (''b'', 5)], ts_used = [(''a'', 9)]\<rparr>"

lemma demo_ticket_run:
  "demo_ticket_end = foldl ticket_step \<lparr>ts_pool = [], ts_issued = [], ts_used = []\<rparr> demo_ticket_events"
  by (simp add: demo_ticket_end_def demo_ticket_events_def issue_ticket_def consume_ticket_def arrange_def
      local_ticket_ttl_def max_local_tickets_def)

theorem local_ticket_single_use_witness: "distinct (map fst (ts_used demo_ticket_end))"
  using local_ticket_single_use [OF demo_ticket_run] by (simp add: demo_ticket_end_def)

section \<open>Sessions of the standalone pages\<close>

record local_session =
  lo_bootstrap :: string
  lo_sessions :: "(string \<times> go_time) list"
  lo_ttl :: int

definition default_local_session_ttl :: int where "default_local_session_ttl = 12 * 3600000000000"

definition new_local_session :: "string option \<Rightarrow> int \<Rightarrow> local_session option" where
  "new_local_session random ttl =
     map_option (\<lambda>b. \<lparr>lo_bootstrap = b, lo_sessions = [], lo_ttl = (if ttl \<le> 0 then default_local_session_ttl else ttl)\<rparr>) random"

definition local_consume :: "string \<Rightarrow> string option \<Rightarrow> go_time \<Rightarrow> local_session \<Rightarrow> local_session \<times> string option" where
  "local_consume header random now l =
     (let provided = trim_space header in
      if provided = '''' \<or> lo_bootstrap l = '''' \<or> provided \<noteq> lo_bootstrap l then (l, None)
      else (case random of
        None \<Rightarrow> (l\<lparr>lo_bootstrap := ''''\<rparr>, None)
      | Some i \<Rightarrow>
          (l\<lparr>lo_bootstrap := '''', lo_sessions := AList.update i (now + lo_ttl l) (filter (\<lambda>(k, expires). now < expires) (lo_sessions l))\<rparr>,
           Some i)))"

definition local_valid :: "string \<Rightarrow> go_time \<Rightarrow> local_session \<Rightarrow> bool" where
  "local_valid i now l \<longleftrightarrow> i \<noteq> '''' \<and> (case map_of (lo_sessions l) i of None \<Rightarrow> False | Some expires \<Rightarrow> now < expires)"

definition local_authorize :: "go_time \<Rightarrow> web_request \<Rightarrow> local_session \<Rightarrow> bool" where
  "local_authorize now r l \<longleftrightarrow>
     (case map_of (wr_cookies r) ''tantu_local_session'' of None \<Rightarrow> False | Some v \<Rightarrow> local_valid v now l)"

definition is_loopback_hostname :: "net_lib \<Rightarrow> string \<Rightarrow> bool" where
  "is_loopback_hostname nl host \<longleftrightarrow>
     to_lower (trim_space host) \<in> {''localhost'', ''127.0.0.1'', ''::1''} \<or> nl_ip_loopback nl host = Some True"

definition request_port :: "net_lib \<Rightarrow> string \<Rightarrow> string" where
  "request_port nl hostport =
     (if hostport = '''' then ''''
      else (case nl_split_host_port nl hostport of
        Some (_, port) \<Rightarrow> port
      | None \<Rightarrow> (case nl_parse nl (''http://'' @ hostport) of None \<Rightarrow> '''' | Some u \<Rightarrow> url_port u)))"

definition bare_host :: "net_lib \<Rightarrow> string \<Rightarrow> string" where
  "bare_host nl hostport =
     trim_prefix (trim_suffix (case nl_split_host_port nl hostport of Some (host, _) \<Rightarrow> host | None \<Rightarrow> hostport) '']'') ''[''"

definition local_host_is_loopback :: "net_lib \<Rightarrow> string \<Rightarrow> bool" where
  "local_host_is_loopback nl hostport \<longleftrightarrow> hostport \<noteq> '''' \<and> is_loopback_hostname nl (bare_host nl hostport)"

definition local_remote_is_loopback :: "net_lib \<Rightarrow> web_request \<Rightarrow> bool" where
  "local_remote_is_loopback nl r \<longleftrightarrow> wr_remote r = '''' \<or> nl_ip_loopback nl (bare_host nl (wr_remote r)) = Some True"

definition origin_port_matches :: "net_lib \<Rightarrow> string \<Rightarrow> string \<Rightarrow> bool" where
  "origin_port_matches nl origin_port request_host \<longleftrightarrow>
     (let host_port = request_port nl request_host in
      if host_port = '''' then True else if origin_port = '''' then host_port = ''80'' else origin_port = host_port)"

text \<open>\<open>localOriginAllowed\<close> and \<open>localRefererAllowed\<close>, which differ in the header they read.\<close>

definition local_header_allowed :: "net_lib \<Rightarrow> string \<Rightarrow> web_request \<Rightarrow> bool" where
  "local_header_allowed nl name r \<longleftrightarrow>
     (let v = trim_space (header_get r name) in
      v = '''' \<or>
      (case nl_parse nl v of
         None \<Rightarrow> False
       | Some u \<Rightarrow> (ur_scheme u = ''http'' \<or> ur_scheme u = ''https'') \<and> url_hostname u \<noteq> '''' \<and>
           is_loopback_hostname nl (url_hostname u) \<and> origin_port_matches nl (url_port u) (wr_host r)))"

datatype local_answer = LocalRejected | RefererRejected | SessionRequired | ReachesHandler

definition local_request_token :: "local_session option \<Rightarrow> go_time \<Rightarrow> web_request \<Rightarrow> local_answer" where
  "local_request_token sess now r =
     (case sess of
        None \<Rightarrow> ReachesHandler
      | Some l \<Rightarrow>
          if has_prefix (wr_path r) ''/api/'' \<and> wr_method r \<noteq> ''OPTIONS'' then
            if wr_path r = ''/api/local/session'' then ReachesHandler
            else if local_authorize now r l then ReachesHandler else SessionRequired
          else ReachesHandler)"

definition local_server :: "net_lib \<Rightarrow> local_session option \<Rightarrow> go_time \<Rightarrow> web_request \<Rightarrow> local_answer" where
  "local_server nl sess now r =
     (let origin = trim_space (header_get r ''Origin'');
          opaque_relay = (wr_path r = ''/relay'' \<and> origin = ''null'')
      in if \<not> local_remote_is_loopback nl r \<or> \<not> local_host_is_loopback nl (wr_host r) \<or>
            (\<not> local_header_allowed nl ''Origin'' r \<and> \<not> opaque_relay) then LocalRejected
         else if has_prefix (wr_path r) ''/api/'' \<and> \<not> local_header_allowed nl ''Referer'' r then RefererRejected
         else local_request_token sess now r)"

datatype exchange_answer = ExchangeMethod | ExchangeRefused | ExchangeGiven string

definition local_exchange :: "string option \<Rightarrow> go_time \<Rightarrow> web_request \<Rightarrow> local_session \<Rightarrow> local_session \<times> exchange_answer" where
  "local_exchange random now r l =
     (if wr_method r \<noteq> ''POST'' then (l, ExchangeMethod)
      else (case local_consume (header_get r ''X-Tantu-Local-Bootstrap'') random now l of
        (l', None) \<Rightarrow> (l', ExchangeRefused)
      | (l', Some i) \<Rightarrow> (l', ExchangeGiven i)))"

text \<open>A page's life: its session state and the sessions it gave, each exchange with its time and draw.\<close>

type_synonym page = "local_session \<times> (string \<times> go_time) list"

fun page_step :: "page \<Rightarrow> string option \<times> go_time \<times> web_request \<Rightarrow> page" where
  "page_step (l, given) (random, now, r) =
     (case local_exchange random now r l of
        (l', ExchangeGiven i) \<Rightarrow> (l', given @ [(i, now)])
      | (l', _) \<Rightarrow> (l', given))"

fun page_ok :: "int \<Rightarrow> page \<Rightarrow> bool" where
  "page_ok ttl (l, given) \<longleftrightarrow>
     lo_ttl l = ttl \<and>
     (given = [] \<and> lo_sessions l = [] \<or>
      (\<exists>i at. given = [(i, at)] \<and> lo_bootstrap l = '''' \<and> lo_sessions l = [(i, at + ttl)]))"

interpretation page_life: stepper page_step "page_ok ttl" for ttl
proof
  fix p and ev :: "string option \<times> go_time \<times> web_request"
  assume ok: "page_ok ttl p"
  obtain l given where p: "p = (l, given)" by (cases p)
  obtain random now r where ev: "ev = (random, now, r)" by (cases ev)
  show "page_ok ttl (page_step p ev)"
  proof (cases "lo_bootstrap l = ''''")
    case True
    then have "local_exchange random now r l \<in> {(l, ExchangeMethod), (l, ExchangeRefused)}"
      by (simp add: local_exchange_def local_consume_def)
    then show ?thesis using ok by (auto simp: p ev)
  next
    case False
    then have g: "given = []" "lo_sessions l = []" "lo_ttl l = ttl"
      using ok by (auto simp: p)
    then show ?thesis
      by (auto simp: p ev local_exchange_def local_consume_def Let_def split: option.split)
  qed
qed

text \<open>
  C17. The standalone pages give one session, and their interface wants it. Let a page start with the one
  bootstrap value it prints and serve any exchanges. A request under /api/ that reaches its handler - other
  than the exchange itself, and other than OPTIONS - comes from a loopback address, to a loopback host, with
  no origin and no referer but http(s) ones of a loopback host at this port, and carries the cookie of the one
  session ever given, within the session's time counted from the exchange.
\<close>

theorem standalone_needs_session:
  assumes start: "new_local_session random ttl = Some l0"
    and run: "(l, given) = foldl page_step (l0, []) evs"
    and reaches: "local_server nl (Some l) now r = ReachesHandler"
    and api: "has_prefix (wr_path r) ''/api/''" "wr_method r \<noteq> ''OPTIONS''" "wr_path r \<noteq> ''/api/local/session''"
  shows "local_remote_is_loopback nl r \<and> local_host_is_loopback nl (wr_host r) \<and>
    local_header_allowed nl ''Origin'' r \<and> local_header_allowed nl ''Referer'' r \<and>
    (\<exists>i at. given = [(i, at)] \<and> map_of (wr_cookies r) ''tantu_local_session'' = Some i \<and> now < at + lo_ttl l0)"
proof -
  have relay: "wr_path r \<noteq> ''/relay''" using api(1) by (auto simp: has_prefix_def)
  have "page_ok (lo_ttl l0) (l0, [])" using start by (auto simp: new_local_session_def)
  then have ok: "page_ok (lo_ttl l0) (l, given)" unfolding run by (rule page_life.run_inv)
  have auth: "local_authorize now r l"
    using reaches api by (auto simp: local_server_def local_request_token_def Let_def split: if_splits)
  then obtain i expires where i: "map_of (wr_cookies r) ''tantu_local_session'' = Some i"
    "map_of (lo_sessions l) i = Some expires" "now < expires"
    by (auto simp: local_authorize_def local_valid_def split: option.splits)
  have "\<exists>at. given = [(i, at)] \<and> expires = at + lo_ttl l0"
    using ok i(2) by (auto split: if_splits)
  then show ?thesis using i reaches api relay by (auto simp: local_server_def Let_def split: if_splits)
qed

definition demo_page_request :: "string \<Rightarrow> string \<Rightarrow> web_request" where
  "demo_page_request method path =
     \<lparr>wr_method = method, wr_path = path, wr_host = ''localhost:8080'', wr_remote = '''',
      wr_headers = [(''X-Tantu-Local-Bootstrap'', ''boot'')], wr_cookies = [(''tantu_local_session'', ''s1'')]\<rparr>"

definition demo_page_start :: local_session where
  "demo_page_start = \<lparr>lo_bootstrap = ''boot'', lo_sessions = [], lo_ttl = 100\<rparr>"

definition demo_page_end :: local_session where
  "demo_page_end = \<lparr>lo_bootstrap = '''', lo_sessions = [(''s1'', 103)], lo_ttl = 100\<rparr>"

lemma demo_page_run:
  "(demo_page_end, [(''s1'', 3)]) = foldl page_step (demo_page_start, []) [(Some ''s1'', 3, demo_page_request ''POST'' ''/api/local/session'')]"
  by (simp add: demo_page_end_def demo_page_start_def demo_page_request_def local_exchange_def local_consume_def
      header_get_def demo_guard_split)

lemma demo_page_host: "local_host_is_loopback demo_web_net ''localhost:8080''"
proof -
  have "bare_host demo_web_net ''localhost:8080'' = ''localhost''"
    by (simp add: bare_host_def demo_guard_split trim_prefix_def trim_suffix_def has_suffix_def has_prefix_def)
  moreover have "to_lower (trim_space ''localhost'') = ''localhost''" by code_simp
  ultimately show ?thesis by (simp add: local_host_is_loopback_def is_loopback_hostname_def)
qed

lemma demo_page_reaches: "local_server demo_web_net (Some demo_page_end) 50 (demo_page_request ''GET'' ''/api/receive'') = ReachesHandler"
proof -
  have blank: "trim_space '''' = ''''" by code_simp
  show ?thesis
    by (simp add: local_server_def demo_page_request_def demo_page_host local_remote_is_loopback_def local_header_allowed_def header_get_def
        blank local_request_token_def local_authorize_def local_valid_def demo_page_end_def has_prefix_def)
qed

theorem standalone_needs_session_witness:
  "local_host_is_loopback demo_web_net (wr_host (demo_page_request ''GET'' ''/api/receive''))"
proof -
  have s: "new_local_session (Some ''boot'') 100 = Some demo_page_start"
    by (simp add: new_local_session_def demo_page_start_def)
  have "has_prefix (wr_path (demo_page_request ''GET'' ''/api/receive'')) ''/api/''"
    "wr_method (demo_page_request ''GET'' ''/api/receive'') \<noteq> ''OPTIONS''"
    "wr_path (demo_page_request ''GET'' ''/api/receive'') \<noteq> ''/api/local/session''"
    by (simp_all add: demo_page_request_def has_prefix_def)
  from standalone_needs_session [OF s demo_page_run demo_page_reaches this] show ?thesis by blast
qed

text \<open>OPTIONS needs no session, on any route; the handler of /api/download does not look at the method.\<close>

lemma options_reach_every_handler:
  "wr_method r = ''OPTIONS'' \<Longrightarrow> local_request_token sess now r = ReachesHandler"
  by (simp add: local_request_token_def split: option.split)

end
