(* ===== verification/Spec2Isabelle.thy ===== *)
theory Spec2Isabelle
  imports Publication Partial_Files Session_Registry Sign_In Store_Files Pairing_Dial Peer_Health Relay_Coordinator Standalone_Guard
begin

text \<open>
  A verification development for tantu, a program that connects the machines of one person: files are
  dropped from one machine onto another (QuickDrop), and a login that an application on one machine
  starts is completed in the browser of another (the OAuth bridge). The machines trust each other after
  a pairing in which the user compares a code. Every machine runs a hub that keeps the trust store,
  watches its peers and records what happened.

  The model is a shallow embedding. An operation of the Go code is a function over the state it reads
  and writes, with every refusal and early return as a value. A long-running procedure is a step
  function over the events that can reach it (frames, requests of a browser, timers, failures,
  the steps of other goroutines), and a run is the fold of the step over a list of events; a property of
  every list of events therefore holds in every interleaving. A method that holds a mutex for its whole
  length is one step.

  The theories, and what they model:

  Vocabulary. \<open>Prelude\<close> has Go's 64-bit integers and their wrap-around, instants and durations in
  nanoseconds, strings as lists of bytes, association lists for Go maps, the string functions of the
  standard library that the program uses, and the four interfaces under which the components state what
  their runs keep: \<open>stepper\<close>, \<open>guarded_stepper\<close> (an invariant under a condition on the events),
  \<open>bounded_stepper\<close> (a measure that stays below a limit) and \<open>history_stepper\<close> (an invariant that
  speaks of the events so far). \<open>Tombstones\<close> adds \<open>completion_ledger\<close>, what the receiver needs of a
  ledger. Each is interpreted on the step functions of the components below.

  The wire (internal/protocol). \<open>Wire_Protocol\<close>: messages, envelopes, \<open>Encoder\<close> and \<open>Decoder\<close> of
  codec.go with their budgets, the limits of a frame, short writes and the latch that a failed decoder
  keeps. Frames round trip, a decoder never loses the frame boundaries, and a failure is final.

  QuickDrop (internal/drop). \<open>Drop_Types\<close>: metadata and \<open>validateDropMetadata\<close>. \<open>Transfer_Quota\<close>:
  quota.go, whose books are shown to be exactly the sum of the live reservations. \<open>Tombstones\<close> and
  \<open>Atomic_Publish\<close>: the ledger of completed transfers of tombstone.go and how its file and the
  manifests are replaced. \<open>Staging_Manifest\<close>: manifest.go, resume.go and digest.go.
  \<open>Drop_Messages\<close>: the messages of types.go as a receive loop sees them. \<open>Drop_Receiver\<close> and
  \<open>Drop_Sender\<close>: \<open>ReceiveDrop\<close> (receiver.go) and \<open>SendDrop\<close> (sender.go) as state machines with all
  their phases. \<open>Drop_Session\<close> connects the two. The receiver publishes only what it has verified,
  publishes no second time under an idempotency key that its ledger remembers, gives back its quota and answers truthfully; the sender
  believes only a receipt that matches; and over a connection that works the file arrives.
  \<open>Rel_Path\<close>: internal/hub/relpath.go, the relative paths under which a folder is received.
  \<open>Staging_Area\<close>: staging.go and staging_lockholder_other.go, the directory of partials with its sweeps, its
  budget, the markers of transfers under way and the lock between processes; maintenance leaves live transfers
  and the user's files alone, and a partial has one live owner. \<open>Partial_Files\<close>: how \<open>OnMeta\<close> of hub.go and
  \<open>openStandaloneStagingPart\<close> of cmd/tantu/hardening.go open the partial of a transfer, with the bytes a resumed
  transfer starts from. \<open>Publication\<close>: \<open>SanitizeDropFilename\<close>, \<open>publishPartFile\<close> and its two publishers and
  \<open>finalizePartFile\<close> of hub.go, \<open>publishIncomingFile\<close> and \<open>finalizeIncomingPart\<close> of hardening.go; what is reported
  as received is there with the promised digest (where the partial is renamed: if nobody replaced it between its
  check and the rename), and nothing is overwritten by a publisher that runs alone.

  Sign-ins (internal/bridge, internal/browser). \<open>Net_URL\<close>: browser.go and the session keys of
  session.go. \<open>OAuth_Sessions\<close>: \<open>OAuthSessionManager\<close> of session.go, with single flight and replay.
  \<open>Session_Registry\<close>: session_registry.go. \<open>Callback_Guard\<close>: the expectation derived from an
  authorization URL, the checks on what a browser sends to the callback, the header filters and the page
  shown for a refusal (aside.go, bside.go, session.go, rejection.go). \<open>A_Side\<close> and \<open>B_Side\<close>: \<open>Run\<close> of
  aside.go and bside.go as state machines; \<open>Sign_In\<close> composes them over one connection. What reaches
  the application is a request the browser made that passed the checks, at most one is delivered, and
  a sign-in that nobody disturbs completes.

  Trust (internal/pairing). \<open>Pairing_Code\<close>: cert.go, the fingerprint of a certificate and the code of a
  pairing. \<open>Peer_Store\<close>: every operation of store.go on the peers and the active peer.
  \<open>Store_Files\<close>: its files, the replacement of a file with its crash windows and the recovery from
  them, shown to refine the one-step view of \<open>Peer_Store\<close> as long as
  the second read after a restored backup works; under the same condition the identity outlives all restarts. \<open>Pairing_Session\<close>: the ceremony of
  handshake.go and pair.go, its four variants as one machine, and two of them over one connection.
  \<open>Pairing_Dial\<close>: the dialling side with its fallbacks. A peer is trusted only after its user and ours
  have both confirmed, equal codes mean that nobody sits in between
  (but for a collision of the 54 bits shown), and a removed peer stays out.

  The hub (internal/hub). \<open>Peer_Health\<close>: the heartbeat of peer_health.go with its schedule and
  backoff. \<open>Hub_History\<close>: operations.go and relay_history.go, the bounded ledgers, their files with what a
  restart makes of them, and the report of a failed transfer. \<open>Relay_Coordinator\<close>: relay_coordinator.go, which coalesces sign-ins to
  another machine, against cancellations and callers that leave. \<open>Dashboard_Guard\<close>: \<open>securityMiddleware\<close> of
  web_dashboard.go and the capabilities of hub.go; \<open>Standalone_Guard\<close>: its counterpart for the standalone commands
  in cmd/tantu/hardening.go, with their tickets and sessions. Nothing under /api/ answers a caller without the
  capability or a session that was exchanged for a value this process made.

  Parameters. The encoder and decoder of \<open>encoding/json\<close>, SHA-256, the parser and printer of
  \<open>net/url\<close>, PEM and X.509, random identities, the clock and the outcome of every operation of the
  operating system are arguments of the definitions, as functions, as fields of environment records or
  as events. What a property needs of them (that decoding inverts encoding, that two inputs with equal
  hashes are equal) is a hypothesis of that property, and its witness instantiates the parameter with a
  concrete function.

  Bounds. The loops of the code are structural recursions over what they consume, or functions with a
  termination measure (\<open>write_all\<close> and \<open>parse_frames\<close> in \<open>Wire_Protocol\<close>, \<open>read_ahead\<close> in \<open>Drop_Sender\<close>,
  \<open>make_room\<close> in \<open>Hub_History\<close>, \<open>evict_replays\<close> in \<open>OAuth_Sessions\<close>, \<open>publish_attempts\<close>, \<open>go_runes\<close> and
  \<open>drop_runes\<close> in \<open>Publication\<close>). One loop has no end of its own: the standalone publisher tries names until one is
  free. Its number of attempts is an argument, and any number above the number of files is enough
  (\<open>publication_finds_a_name\<close>). Numbers that the code may overflow are kept at their width with \<open>i64\<close>; elsewhere
  the properties carry the bound that excludes an overflow.

  Not modelled. The transports (sockets, TLS, SSH), discovery by UDP beacons, the wiring of the hub
  process and its local control channel, the pages of the dashboard, the command line, the dispatcher of the
  bridge, the event log and the test support. Logging is
  left out throughout, and so are error texts, except where the code decides on them or shows them to
  the user.
\<close>

end
